(* ===== verification/Prelude.thy ===== *)
theory Prelude
  imports Main "HOL-Library.Word"
begin

text \<open>
  Shared vocabulary of the development: names of the C integer types, list buffers with
  in-place writes (\<open>memcpy\<close> into a byte array), little-endian codecs with the interface
  they satisfy, C strings, and the collections of rewrite rules the component theories use.
\<close>

unbundle bit_operations_syntax

named_theorems buf_simps
named_theorems codec_simps

type_synonym u8 = "8 word"
type_synonym u32 = "32 word"
type_synonym u64 = "64 word"

section \<open>C integer conversions\<close>

text \<open>\<open>(size_t)(int32_t)x\<close>: reinterpret as signed, then sign extend to 64 bits.\<close>

abbreviation sext32 :: "u32 \<Rightarrow> u64" where
  "sext32 x \<equiv> signed x"

text \<open>An \<open>int8_t\<close> promoted to a wider machine word.\<close>

abbreviation sext8_32 :: "u8 \<Rightarrow> u32" where
  "sext8_32 x \<equiv> signed x"

abbreviation sext8_64 :: "u8 \<Rightarrow> u64" where
  "sext8_64 x \<equiv> signed x"

lemma sint_small:
  assumes "unat (x :: u32) < 2 ^ 31"
  shows "sint x = int (unat x)"
proof -
  have "signed_take_bit 31 (int n) = int n" if "n < 2 ^ 31" for n
    using that by (simp add: signed_take_bit_int_eq_self)
  from this [OF assms] have "sint (word_of_int (int (unat x)) :: u32) = int (unat x)"
    by (simp only: signed_of_int) simp
  then show ?thesis by simp
qed

lemma unat_u64: "unat (w :: u64) < 2 ^ 64"
  using unsigned_less [of w] by simp

lemma unat_u32: "unat (w :: u32) < 2 ^ 32"
  using unsigned_less [of w] by simp

lemma unat_u8: "unat (w :: u8) < 2 ^ 8"
  using unsigned_less [of w] by simp

section \<open>Buffers\<close>

text \<open>\<open>blit buf off xs\<close> writes \<open>xs\<close> at offset \<open>off\<close>, one element after the other.\<close>

fun blit :: "'a list \<Rightarrow> nat \<Rightarrow> 'a list \<Rightarrow> 'a list" where
  "blit buf off [] = buf"
| "blit buf off (x # xs) = blit (buf[off := x]) (Suc off) xs"

lemma length_blit [simp]: "length (blit buf off xs) = length buf"
  by (induction xs arbitrary: buf off) auto

lemma blit_append: "blit buf off (xs @ ys) = blit (blit buf off xs) (off + length xs) ys"
  by (induction xs arbitrary: buf off) auto

lemma blit_cursor [buf_simps]:
  assumes "length xs \<le> length post"
  shows "blit (pre @ post) (length pre) xs = (pre @ xs) @ drop (length xs) post"
  using assms
proof (induction xs arbitrary: pre post)
  case Nil
  then show ?case by simp
next
  case (Cons x xs)
  then obtain p post' where post: "post = p # post'" by (cases post) auto
  have "blit (pre @ post) (length pre) (x # xs) = blit ((pre @ [x]) @ post') (length (pre @ [x])) xs"
    by (simp add: post list_update_append)
  also have "\<dots> = ((pre @ [x]) @ xs) @ drop (length xs) post'"
    by (rule Cons.IH) (use Cons.prems post in auto)
  finally show ?case by (simp add: post)
qed

lemma blit_at:
  assumes "off + length xs \<le> length buf"
  shows "blit buf off xs = take off buf @ xs @ drop (off + length xs) buf"
proof -
  have "blit (take off buf @ drop off buf) (length (take off buf)) xs
        = (take off buf @ xs) @ drop (length xs) (drop off buf)"
    by (rule blit_cursor) (use assms in auto)
  then show ?thesis using assms by (simp add: add.commute min_absorb2)
qed

lemma blit_prefix:
  assumes "length pre = off" "length xs \<le> length buf - off" "off \<le> length buf" "take off buf = pre"
  shows "take (off + length xs) (blit buf off xs) = pre @ xs"
  using assms by (subst blit_at) auto

lemma nth_concat_uniform:
  assumes "\<And>x. x \<in> set xs \<Longrightarrow> length (f x) = n" and "i < length xs"
  shows "\<exists>rest. drop (i * n) (concat (map f xs)) = f (xs ! i) @ rest"
  using assms
proof (induction xs arbitrary: i)
  case Nil
  then show ?case by simp
next
  case (Cons x xs)
  show ?case
  proof (cases i)
    case 0
    then show ?thesis by simp
  next
    case (Suc j)
    then show ?thesis using Cons by (auto simp: add.commute)
  qed
qed

lemma length_concat_uniform:
  assumes "\<And>x. x \<in> set xs \<Longrightarrow> length (f x) = n"
  shows "length (concat (map f xs)) = length xs * n"
  using assms by (induction xs) auto

text \<open>
  Filling a buffer from the left: after the first \<open>length pre\<close> bytes are written, the rest is still
  that of the original buffer \<open>b\<close>.
\<close>

abbreviation filled :: "'a list \<Rightarrow> 'a list \<Rightarrow> 'a list" where
  "filled pre b \<equiv> pre @ drop (length pre) b"

lemma blit_filled:
  assumes "off = length pre" "off + length xs \<le> length b"
  shows "blit (filled pre b) off xs = filled (pre @ xs) b"
  using blit_cursor [of xs "drop (length pre) b" pre] assms by (simp add: add.commute)

lemma fold_blit_filled:
  assumes "\<And>i. i < n \<Longrightarrow> length (f i) = w" "off = length pre" "off + n * w \<le> length b"
  shows "fold (\<lambda>i c. blit c (off + i * w) (f i)) [0..<n] (filled pre b)
    = filled (pre @ concat (map f [0..<n])) b"
  using assms
proof (induction n)
  case 0
  then show ?case by simp
next
  case (Suc n)
  have len: "length (concat (map f [0..<n])) = n * w"
    using Suc.prems(1) length_concat_uniform [of "[0..<n]" f w] by simp
  have "fold (\<lambda>i c. blit c (off + i * w) (f i)) [0..<Suc n] (filled pre b)
      = blit (filled (pre @ concat (map f [0..<n])) b) (off + n * w) (f n)"
    using Suc by simp
  also have "\<dots> = filled ((pre @ concat (map f [0..<n])) @ f n) b"
    by (rule blit_filled) (use Suc.prems len in auto)
  finally show ?case by simp
qed

text \<open>Reading a slice, \<open>memcpy\<close> out of an array.\<close>

abbreviation slice :: "'a list \<Rightarrow> nat \<Rightarrow> nat \<Rightarrow> 'a list" where
  "slice buf off n \<equiv> take n (drop off buf)"

section \<open>Fixed-width codecs\<close>

text \<open>
  The interface of a fixed-width byte codec: what \<open>wr\<close> writes occupies \<open>width\<close> bytes and \<open>rd\<close>
  reads it back whatever follows. The clients are tables of such fields.
\<close>

locale fixed_codec =
  fixes enc :: "'a \<Rightarrow> u8 list" and dec :: "u8 list \<Rightarrow> 'a" and width :: nat
  assumes enc_length: "length (enc v) = width"
    and dec_enc: "dec (enc v @ rest) = v"
begin

lemma enc_inject: "enc v = enc w \<longleftrightarrow> v = w"
  by (metis dec_enc append_Nil2)

lemma table_length: "length (concat (map enc vs)) = length vs * width"
  by (rule length_concat_uniform) (rule enc_length)

lemma table_nth:
  assumes "i < length vs"
  shows "dec (drop (i * width) (concat (map enc vs) @ rest)) = vs ! i"
proof -
  obtain tl where "drop (i * width) (concat (map enc vs)) = enc (vs ! i) @ tl"
    using nth_concat_uniform [of vs enc width i] enc_length assms by blast
  moreover have "i * width \<le> length (concat (map enc vs))"
    using assms by (simp add: table_length)
  ultimately show ?thesis by (simp add: dec_enc)
qed

lemma table_nth_offset:
  assumes "i < length vs" and "length pre = off"
  shows "dec (drop (off + i * width) (pre @ concat (map enc vs) @ rest)) = vs ! i"
  using assms table_nth [of i vs rest] by simp

end

section \<open>Little-endian words\<close>

text \<open>The bytes \<open>(uint8_t)v, (uint8_t)(v >> 8), ...\<close> in memory order.\<close>

definition le_bytes32 :: "u32 \<Rightarrow> u8 list" where
  "le_bytes32 v = [ucast v, ucast (drop_bit 8 v), ucast (drop_bit 16 v), ucast (drop_bit 24 v)]"

definition le_bytes64 :: "u64 \<Rightarrow> u8 list" where
  "le_bytes64 v = map (\<lambda>i. ucast (drop_bit (8 * i) v)) [0..<8]"

definition le_word32 :: "u8 list \<Rightarrow> u32" where
  "le_word32 p = ucast (p ! 0) OR push_bit 8 (ucast (p ! 1)) OR push_bit 16 (ucast (p ! 2))
     OR push_bit 24 (ucast (p ! 3))"

definition le_word64 :: "u8 list \<Rightarrow> u64" where
  "le_word64 p = foldr (\<lambda>i acc. push_bit (8 * i) (ucast (p ! i)) OR acc) [0..<8] 0"

lemma length_le_bytes32 [simp]: "length (le_bytes32 v) = 4"
  by (simp add: le_bytes32_def)

lemma length_le_bytes64 [simp]: "length (le_bytes64 v) = 8"
  by (simp add: le_bytes64_def)

lemma bit_byte_of32:
  "bit (push_bit k (ucast (ucast (drop_bit k v) :: u8)) :: u32) n
     \<longleftrightarrow> k \<le> n \<and> n < k + 8 \<and> n < 32 \<and> bit (v :: u32) n"
  by (auto simp: bit_simps)

lemma bit_byte_of64:
  "bit (push_bit k (ucast (ucast (drop_bit k v) :: u8)) :: u64) n
     \<longleftrightarrow> k \<le> n \<and> n < k + 8 \<and> n < 64 \<and> bit (v :: u64) n"
  by (auto simp: bit_simps)

lemma split_word32:
  "(ucast (ucast v :: u8) :: u32) OR push_bit 8 (ucast (ucast (drop_bit 8 v) :: u8))
     OR push_bit 16 (ucast (ucast (drop_bit 16 v) :: u8))
     OR push_bit 24 (ucast (ucast (drop_bit 24 v) :: u8)) = (v :: u32)"
proof (rule bit_word_eqI)
  fix n assume "n < LENGTH(32)"
  then show "bit ((ucast (ucast v :: u8) :: u32) OR push_bit 8 (ucast (ucast (drop_bit 8 v) :: u8))
     OR push_bit 16 (ucast (ucast (drop_bit 16 v) :: u8))
     OR push_bit 24 (ucast (ucast (drop_bit 24 v) :: u8))) n = bit v n"
    using bit_byte_of32 [of 0 v n] by (auto simp: bit_or_iff bit_byte_of32)
qed

lemma le_word32_bytes: "le_word32 (le_bytes32 v @ rest) = v"
  using split_word32 [of v] by (simp add: le_word32_def le_bytes32_def)

lemma bit_join64:
  "bit (foldr (\<lambda>i acc. push_bit (8 * i) (ucast (ucast (drop_bit (8 * i) v) :: u8)) OR acc) js (0 :: u64)) n
     \<longleftrightarrow> (\<exists>i \<in> set js. 8 * i \<le> n \<and> n < 8 * i + 8 \<and> n < 64 \<and> bit (v :: u64) n)"
  by (induction js) (auto simp: bit_or_iff bit_byte_of64)

lemma le_word64_bytes: "le_word64 (le_bytes64 v @ rest) = v"
proof -
  have "le_word64 (le_bytes64 v @ rest)
      = foldr (\<lambda>i acc. push_bit (8 * i) (ucast (ucast (drop_bit (8 * i) v) :: u8)) OR acc) [0..<8] 0"
    unfolding le_word64_def le_bytes64_def by (rule foldr_cong) (auto simp: nth_append)
  also have "\<dots> = v"
  proof (rule bit_word_eqI)
    fix n assume n: "n < LENGTH(64)"
    have "n div 8 \<in> set [0..<8] \<and> 8 * (n div 8) \<le> n \<and> n < 8 * (n div 8) + 8"
      using n by auto
    then show "bit (foldr (\<lambda>i acc. push_bit (8 * i) (ucast (ucast (drop_bit (8 * i) v) :: u8)) OR acc)
        [0..<8] (0 :: u64)) n = bit v n"
      unfolding bit_join64 using n by (auto intro!: bexI [of _ "n div 8"])
  qed
  finally show ?thesis .
qed

interpretation c32: fixed_codec le_bytes32 le_word32 4
  by unfold_locales (simp_all add: le_word32_bytes)

interpretation c64: fixed_codec le_bytes64 le_word64 8
  by unfold_locales (simp_all add: le_word64_bytes)

declare c32.dec_enc [codec_simps] c64.dec_enc [codec_simps]

section \<open>C strings\<close>

text \<open>
  A \<open>char\<close> array is a list of bytes or characters; the string it holds ends before the first
  NUL. \<open>cstr\<close> is that string, \<open>cstrlen\<close> is \<open>strlen\<close>.
\<close>

definition nul :: char where
  "nul = CHR 0x00"

definition cstr :: "char list \<Rightarrow> char list" where
  "cstr s = takeWhile (\<lambda>c. c \<noteq> nul) s"

definition no_nul :: "char list \<Rightarrow> bool" where
  "no_nul s \<longleftrightarrow> nul \<notin> set s"

lemma cstr_no_nul: "no_nul s \<Longrightarrow> cstr s = s"
  by (auto simp: cstr_def no_nul_def takeWhile_eq_all_conv)

lemma no_nul_cstr: "no_nul (cstr s)"
  by (auto simp: cstr_def no_nul_def dest: set_takeWhileD)

lemma cstr_append_nul: "no_nul s \<Longrightarrow> cstr (s @ nul # t) = s"
  unfolding cstr_def no_nul_def by (subst takeWhile_append2) auto

section \<open>Errors of the C library\<close>

datatype errno = EINVAL | ENOMEM | ENOSPC | ENODEV | ENOENT | EBUSY | EEXIST | EAGAIN | EIO
  | EPERM | EFAULT | ENOTSUP | EMSGSIZE | EADDRINUSE | ENOBUFS | ENODATA

end
