(* ===== verification/BvIsa.thy ===== *)
theory BvIsa
  imports Prelude
begin

text \<open>
  The BradVector instruction set of \<open>include/brad/bradvector.h\<close>: sizes, the 64-bit
  instruction word and its fields (\<open>BVEN\<close>, \<open>BV_INSN_*\<close>, \<open>bv_decode\<close>), the opcode enumeration
  with its byte values and names, and the status codes of the runtime.
\<close>

section \<open>Sizes and special registers\<close>

abbreviation (input) BV_WARP_SIZE :: nat where "BV_WARP_SIZE \<equiv> 32"

abbreviation (input) BV_INSN_SIZE :: nat where "BV_INSN_SIZE \<equiv> 8"

abbreviation (input) BV_SCALAR_REGS :: nat where "BV_SCALAR_REGS \<equiv> 256"

abbreviation (input) BV_PRED_REGS :: nat where "BV_PRED_REGS \<equiv> 16"

abbreviation (input) BV_VEC_REGS :: nat where "BV_VEC_REGS \<equiv> 64"

abbreviation (input) BV_VEC_LANES :: nat where "BV_VEC_LANES \<equiv> 16"

abbreviation (input) BV_S_THREAD_ID :: nat where "BV_S_THREAD_ID \<equiv> 1"

abbreviation (input) BV_S_ARG_BASE :: nat where "BV_S_ARG_BASE \<equiv> 16"

abbreviation (input) BV_S_NUM_ARGS :: nat where "BV_S_NUM_ARGS \<equiv> 16"

section \<open>Instruction words\<close>

definition insn_field :: "nat \<Rightarrow> u64 \<Rightarrow> u8" where
  "insn_field k i = ucast (drop_bit k i AND 0xFF)"

abbreviation BV_INSN_OP :: "u64 \<Rightarrow> u8" where "BV_INSN_OP \<equiv> insn_field 56"

abbreviation BV_INSN_PRED :: "u64 \<Rightarrow> u8" where "BV_INSN_PRED \<equiv> insn_field 48"

abbreviation BV_INSN_DST :: "u64 \<Rightarrow> u8" where "BV_INSN_DST \<equiv> insn_field 40"

abbreviation BV_INSN_SRC1 :: "u64 \<Rightarrow> u8" where "BV_INSN_SRC1 \<equiv> insn_field 32"

abbreviation BV_INSN_SRC2 :: "u64 \<Rightarrow> u8" where "BV_INSN_SRC2 \<equiv> insn_field 24"

abbreviation BV_INSN_IMM :: "u64 \<Rightarrow> u8" where "BV_INSN_IMM \<equiv> insn_field 16"

abbreviation BV_INSN_FLAGS :: "u64 \<Rightarrow> u8" where "BV_INSN_FLAGS \<equiv> insn_field 8"

abbreviation BV_INSN_MOD :: "u64 \<Rightarrow> u8" where "BV_INSN_MOD \<equiv> insn_field 0"

text \<open>The encoder macro; every argument is widened to 64 bits and masked to a byte.\<close>

definition BVEN :: "u64 \<Rightarrow> u64 \<Rightarrow> u64 \<Rightarrow> u64 \<Rightarrow> u64 \<Rightarrow> u64 \<Rightarrow> u64 \<Rightarrow> u64 \<Rightarrow> u64" where
  "BVEN opc pred dst src1 src2 imm flags md =
     push_bit 56 (opc AND 0xFF) OR push_bit 48 (pred AND 0xFF) OR
     push_bit 40 (dst AND 0xFF) OR push_bit 32 (src1 AND 0xFF) OR
     push_bit 24 (src2 AND 0xFF) OR push_bit 16 (imm AND 0xFF) OR
     push_bit 8 (flags AND 0xFF) OR push_bit 0 (md AND 0xFF)"

text \<open>\<open>i_imm\<close> keeps the bit pattern of the \<open>int8_t\<close>; its value is \<open>sint\<close> of it.\<close>

record bv_insn =
  i_raw :: u64
  i_op :: u8
  i_pred :: u8
  i_dst :: u8
  i_src1 :: u8
  i_src2 :: u8
  i_imm :: u8
  i_flags :: u8
  i_mod :: u8

definition bv_decode :: "u64 \<Rightarrow> bv_insn" where
  "bv_decode raw = \<lparr> i_raw = raw, i_op = BV_INSN_OP raw, i_pred = BV_INSN_PRED raw,
     i_dst = BV_INSN_DST raw, i_src1 = BV_INSN_SRC1 raw, i_src2 = BV_INSN_SRC2 raw,
     i_imm = BV_INSN_IMM raw, i_flags = BV_INSN_FLAGS raw, i_mod = BV_INSN_MOD raw \<rparr>"

text \<open>The instruction word put together again from the decoded fields.\<close>

definition encode_insn :: "bv_insn \<Rightarrow> u64" where
  "encode_insn i = BVEN (ucast (i_op i)) (ucast (i_pred i)) (ucast (i_dst i)) (ucast (i_src1 i))
     (ucast (i_src2 i)) (ucast (i_imm i)) (ucast (i_flags i)) (ucast (i_mod i))"

section \<open>Opcodes\<close>

text \<open>ALU (float)\<close>

datatype alu_op =
    BV_OP_ADD | BV_OP_ADDi | BV_OP_SUB | BV_OP_MUL | BV_OP_MAD | BV_OP_DIV | BV_OP_SQRT |
    BV_OP_RSQRT | BV_OP_MIN | BV_OP_MAX | BV_OP_ABS | BV_OP_NEG | BV_OP_CMP | BV_OP_SEL

text \<open>Integer\<close>

datatype int_op =
    BV_OP_IADD | BV_OP_ISUB | BV_OP_IMUL | BV_OP_IDIV | BV_OP_IMAD | BV_OP_POPC | BV_OP_CLZ |
    BV_OP_BFIND | BV_OP_SHL | BV_OP_SHR | BV_OP_AND | BV_OP_OR | BV_OP_XOR | BV_OP_NOT

text \<open>Vector / Matrix\<close>

datatype vec_op =
    BV_OP_VADD | BV_OP_VMUL | BV_OP_VDOT | BV_OP_VCROSS | BV_OP_VMAD | BV_OP_MMUL |
    BV_OP_MMUL_B | BV_OP_VSHUFFLE | BV_OP_VBROADCAST | BV_OP_VREDUCE

text \<open>Memory\<close>

datatype mem_op =
    BV_OP_LOAD | BV_OP_LOAD2 | BV_OP_LOADV | BV_OP_LOAD_DS | BV_OP_STORE | BV_OP_STORE2 |
    BV_OP_STOREV | BV_OP_PREFETCH | BV_OP_ATOMIC_ADD | BV_OP_ATOMIC_CAS | BV_OP_ATOMIC_EXCH |
    BV_OP_TEX_SAMPLE | BV_OP_TEX_SAMPLE_3D | BV_OP_TEX_GATHER

text \<open>Control Flow\<close>

datatype ctl_op =
    BV_OP_BR | BV_OP_BR_COND | BV_OP_CALL | BV_OP_RET | BV_OP_BAR | BV_OP_BAR_CLUSTER |
    BV_OP_EXIT | BV_OP_TRAP

text \<open>Ray Tracing (BradRT)\<close>

datatype rt_op =
    BV_OP_RT_TRACE | BV_OP_RT_INTERSECT | BV_OP_RT_BVH_WALK | BV_OP_RT_ANY_HIT |
    BV_OP_RT_CLOSEST_HIT | BV_OP_RT_MISS | BV_OP_RT_NEARF_EVAL | BV_OP_RT_NEARF_TRAIN

text \<open>Neuro-Stream (NSU)\<close>

datatype ns_op =
    BV_OP_NS_CONV2D | BV_OP_NS_CONV2D_5 | BV_OP_NS_RELU | BV_OP_NS_GELU | BV_OP_NS_SILU |
    BV_OP_NS_MAXPOOL | BV_OP_NS_UPSAMPLE | BV_OP_NS_ATTENTION | BV_OP_NS_EXPERT_SELECT |
    BV_OP_NS_MOE_FUSE

text \<open>Special Function\<close>

datatype sfu_op =
    BV_OP_RCP | BV_OP_SIN | BV_OP_COS | BV_OP_EXP2 | BV_OP_LOG2 | BV_OP_RAND | BV_OP_LANE_ID |
    BV_OP_WARP_SZ | BV_OP_CLOCK

text \<open>\<open>enum bv_opcode\<close>, one constructor per class of the header.\<close>

datatype bv_opcode =
    OP_ALU alu_op
  | OP_INT int_op
  | OP_VEC vec_op
  | OP_MEM mem_op
  | OP_CTL ctl_op
  | OP_RT rt_op
  | OP_NS ns_op
  | OP_SFU sfu_op

fun alu_op_byte :: "alu_op \<Rightarrow> u8" where
  "alu_op_byte BV_OP_ADD = 0x00"
| "alu_op_byte BV_OP_ADDi = 0x01"
| "alu_op_byte BV_OP_SUB = 0x02"
| "alu_op_byte BV_OP_MUL = 0x03"
| "alu_op_byte BV_OP_MAD = 0x04"
| "alu_op_byte BV_OP_DIV = 0x05"
| "alu_op_byte BV_OP_SQRT = 0x06"
| "alu_op_byte BV_OP_RSQRT = 0x07"
| "alu_op_byte BV_OP_MIN = 0x08"
| "alu_op_byte BV_OP_MAX = 0x09"
| "alu_op_byte BV_OP_ABS = 0x0A"
| "alu_op_byte BV_OP_NEG = 0x0B"
| "alu_op_byte BV_OP_CMP = 0x0C"
| "alu_op_byte BV_OP_SEL = 0x0D"

fun int_op_byte :: "int_op \<Rightarrow> u8" where
  "int_op_byte BV_OP_IADD = 0x10"
| "int_op_byte BV_OP_ISUB = 0x11"
| "int_op_byte BV_OP_IMUL = 0x12"
| "int_op_byte BV_OP_IDIV = 0x13"
| "int_op_byte BV_OP_IMAD = 0x14"
| "int_op_byte BV_OP_POPC = 0x15"
| "int_op_byte BV_OP_CLZ = 0x16"
| "int_op_byte BV_OP_BFIND = 0x17"
| "int_op_byte BV_OP_SHL = 0x18"
| "int_op_byte BV_OP_SHR = 0x19"
| "int_op_byte BV_OP_AND = 0x1A"
| "int_op_byte BV_OP_OR = 0x1B"
| "int_op_byte BV_OP_XOR = 0x1C"
| "int_op_byte BV_OP_NOT = 0x1D"

fun vec_op_byte :: "vec_op \<Rightarrow> u8" where
  "vec_op_byte BV_OP_VADD = 0x20"
| "vec_op_byte BV_OP_VMUL = 0x21"
| "vec_op_byte BV_OP_VDOT = 0x22"
| "vec_op_byte BV_OP_VCROSS = 0x23"
| "vec_op_byte BV_OP_VMAD = 0x24"
| "vec_op_byte BV_OP_MMUL = 0x25"
| "vec_op_byte BV_OP_MMUL_B = 0x26"
| "vec_op_byte BV_OP_VSHUFFLE = 0x27"
| "vec_op_byte BV_OP_VBROADCAST = 0x28"
| "vec_op_byte BV_OP_VREDUCE = 0x29"

fun mem_op_byte :: "mem_op \<Rightarrow> u8" where
  "mem_op_byte BV_OP_LOAD = 0x30"
| "mem_op_byte BV_OP_LOAD2 = 0x31"
| "mem_op_byte BV_OP_LOADV = 0x32"
| "mem_op_byte BV_OP_LOAD_DS = 0x33"
| "mem_op_byte BV_OP_STORE = 0x34"
| "mem_op_byte BV_OP_STORE2 = 0x35"
| "mem_op_byte BV_OP_STOREV = 0x36"
| "mem_op_byte BV_OP_PREFETCH = 0x37"
| "mem_op_byte BV_OP_ATOMIC_ADD = 0x38"
| "mem_op_byte BV_OP_ATOMIC_CAS = 0x39"
| "mem_op_byte BV_OP_ATOMIC_EXCH = 0x3A"
| "mem_op_byte BV_OP_TEX_SAMPLE = 0x3B"
| "mem_op_byte BV_OP_TEX_SAMPLE_3D = 0x3C"
| "mem_op_byte BV_OP_TEX_GATHER = 0x3D"

fun ctl_op_byte :: "ctl_op \<Rightarrow> u8" where
  "ctl_op_byte BV_OP_BR = 0x40"
| "ctl_op_byte BV_OP_BR_COND = 0x41"
| "ctl_op_byte BV_OP_CALL = 0x42"
| "ctl_op_byte BV_OP_RET = 0x43"
| "ctl_op_byte BV_OP_BAR = 0x44"
| "ctl_op_byte BV_OP_BAR_CLUSTER = 0x45"
| "ctl_op_byte BV_OP_EXIT = 0x46"
| "ctl_op_byte BV_OP_TRAP = 0x47"

fun rt_op_byte :: "rt_op \<Rightarrow> u8" where
  "rt_op_byte BV_OP_RT_TRACE = 0x50"
| "rt_op_byte BV_OP_RT_INTERSECT = 0x51"
| "rt_op_byte BV_OP_RT_BVH_WALK = 0x52"
| "rt_op_byte BV_OP_RT_ANY_HIT = 0x53"
| "rt_op_byte BV_OP_RT_CLOSEST_HIT = 0x54"
| "rt_op_byte BV_OP_RT_MISS = 0x55"
| "rt_op_byte BV_OP_RT_NEARF_EVAL = 0x56"
| "rt_op_byte BV_OP_RT_NEARF_TRAIN = 0x57"

fun ns_op_byte :: "ns_op \<Rightarrow> u8" where
  "ns_op_byte BV_OP_NS_CONV2D = 0x60"
| "ns_op_byte BV_OP_NS_CONV2D_5 = 0x61"
| "ns_op_byte BV_OP_NS_RELU = 0x62"
| "ns_op_byte BV_OP_NS_GELU = 0x63"
| "ns_op_byte BV_OP_NS_SILU = 0x64"
| "ns_op_byte BV_OP_NS_MAXPOOL = 0x65"
| "ns_op_byte BV_OP_NS_UPSAMPLE = 0x66"
| "ns_op_byte BV_OP_NS_ATTENTION = 0x67"
| "ns_op_byte BV_OP_NS_EXPERT_SELECT = 0x68"
| "ns_op_byte BV_OP_NS_MOE_FUSE = 0x69"

fun sfu_op_byte :: "sfu_op \<Rightarrow> u8" where
  "sfu_op_byte BV_OP_RCP = 0xF0"
| "sfu_op_byte BV_OP_SIN = 0xF1"
| "sfu_op_byte BV_OP_COS = 0xF2"
| "sfu_op_byte BV_OP_EXP2 = 0xF3"
| "sfu_op_byte BV_OP_LOG2 = 0xF4"
| "sfu_op_byte BV_OP_RAND = 0xF5"
| "sfu_op_byte BV_OP_LANE_ID = 0xF6"
| "sfu_op_byte BV_OP_WARP_SZ = 0xF7"
| "sfu_op_byte BV_OP_CLOCK = 0xF8"

fun opcode_byte :: "bv_opcode \<Rightarrow> u8" where
  "opcode_byte (OP_ALU x) = alu_op_byte x"
| "opcode_byte (OP_INT x) = int_op_byte x"
| "opcode_byte (OP_VEC x) = vec_op_byte x"
| "opcode_byte (OP_MEM x) = mem_op_byte x"
| "opcode_byte (OP_CTL x) = ctl_op_byte x"
| "opcode_byte (OP_RT x) = rt_op_byte x"
| "opcode_byte (OP_NS x) = ns_op_byte x"
| "opcode_byte (OP_SFU x) = sfu_op_byte x"

definition all_opcodes :: "bv_opcode list" where
  "all_opcodes =
     map OP_ALU [BV_OP_ADD, BV_OP_ADDi, BV_OP_SUB, BV_OP_MUL, BV_OP_MAD, BV_OP_DIV, BV_OP_SQRT,
       BV_OP_RSQRT, BV_OP_MIN, BV_OP_MAX, BV_OP_ABS, BV_OP_NEG, BV_OP_CMP, BV_OP_SEL] @
     map OP_INT [BV_OP_IADD, BV_OP_ISUB, BV_OP_IMUL, BV_OP_IDIV, BV_OP_IMAD, BV_OP_POPC, BV_OP_CLZ,
       BV_OP_BFIND, BV_OP_SHL, BV_OP_SHR, BV_OP_AND, BV_OP_OR, BV_OP_XOR, BV_OP_NOT] @
     map OP_VEC [BV_OP_VADD, BV_OP_VMUL, BV_OP_VDOT, BV_OP_VCROSS, BV_OP_VMAD, BV_OP_MMUL, BV_OP_MMUL_B,
       BV_OP_VSHUFFLE, BV_OP_VBROADCAST, BV_OP_VREDUCE] @
     map OP_MEM [BV_OP_LOAD, BV_OP_LOAD2, BV_OP_LOADV, BV_OP_LOAD_DS, BV_OP_STORE, BV_OP_STORE2,
       BV_OP_STOREV, BV_OP_PREFETCH, BV_OP_ATOMIC_ADD, BV_OP_ATOMIC_CAS, BV_OP_ATOMIC_EXCH,
       BV_OP_TEX_SAMPLE, BV_OP_TEX_SAMPLE_3D, BV_OP_TEX_GATHER] @
     map OP_CTL [BV_OP_BR, BV_OP_BR_COND, BV_OP_CALL, BV_OP_RET, BV_OP_BAR, BV_OP_BAR_CLUSTER,
       BV_OP_EXIT, BV_OP_TRAP] @
     map OP_RT [BV_OP_RT_TRACE, BV_OP_RT_INTERSECT, BV_OP_RT_BVH_WALK, BV_OP_RT_ANY_HIT,
       BV_OP_RT_CLOSEST_HIT, BV_OP_RT_MISS, BV_OP_RT_NEARF_EVAL, BV_OP_RT_NEARF_TRAIN] @
     map OP_NS [BV_OP_NS_CONV2D, BV_OP_NS_CONV2D_5, BV_OP_NS_RELU, BV_OP_NS_GELU, BV_OP_NS_SILU,
       BV_OP_NS_MAXPOOL, BV_OP_NS_UPSAMPLE, BV_OP_NS_ATTENTION, BV_OP_NS_EXPERT_SELECT,
       BV_OP_NS_MOE_FUSE] @
     map OP_SFU [BV_OP_RCP, BV_OP_SIN, BV_OP_COS, BV_OP_EXP2, BV_OP_LOG2, BV_OP_RAND, BV_OP_LANE_ID,
       BV_OP_WARP_SZ, BV_OP_CLOCK]"

text \<open>The case of a \<open>switch (in.op)\<close>: the opcode whose enumeration value is the byte, if any.\<close>

definition opcode_of_byte :: "u8 \<Rightarrow> bv_opcode option" where
  "opcode_of_byte b = map_of (map (\<lambda>x. (opcode_byte x, x)) all_opcodes) b"

fun alu_op_name :: "alu_op \<Rightarrow> string" where
  "alu_op_name BV_OP_ADD = ''ADD''"
| "alu_op_name BV_OP_ADDi = ''ADDi''"
| "alu_op_name BV_OP_SUB = ''SUB''"
| "alu_op_name BV_OP_MUL = ''MUL''"
| "alu_op_name BV_OP_MAD = ''MAD''"
| "alu_op_name BV_OP_DIV = ''DIV''"
| "alu_op_name BV_OP_SQRT = ''SQRT''"
| "alu_op_name BV_OP_RSQRT = ''RSQRT''"
| "alu_op_name BV_OP_MIN = ''MIN''"
| "alu_op_name BV_OP_MAX = ''MAX''"
| "alu_op_name BV_OP_ABS = ''ABS''"
| "alu_op_name BV_OP_NEG = ''NEG''"
| "alu_op_name BV_OP_CMP = ''CMP''"
| "alu_op_name BV_OP_SEL = ''SEL''"

fun int_op_name :: "int_op \<Rightarrow> string" where
  "int_op_name BV_OP_IADD = ''IADD''"
| "int_op_name BV_OP_ISUB = ''ISUB''"
| "int_op_name BV_OP_IMUL = ''IMUL''"
| "int_op_name BV_OP_IDIV = ''IDIV''"
| "int_op_name BV_OP_IMAD = ''IMAD''"
| "int_op_name BV_OP_POPC = ''POPC''"
| "int_op_name BV_OP_CLZ = ''CLZ''"
| "int_op_name BV_OP_BFIND = ''BFIND''"
| "int_op_name BV_OP_SHL = ''SHL''"
| "int_op_name BV_OP_SHR = ''SHR''"
| "int_op_name BV_OP_AND = ''AND''"
| "int_op_name BV_OP_OR = ''OR''"
| "int_op_name BV_OP_XOR = ''XOR''"
| "int_op_name BV_OP_NOT = ''NOT''"

fun vec_op_name :: "vec_op \<Rightarrow> string" where
  "vec_op_name BV_OP_VADD = ''VADD''"
| "vec_op_name BV_OP_VMUL = ''VMUL''"
| "vec_op_name BV_OP_VDOT = ''VDOT''"
| "vec_op_name BV_OP_VCROSS = ''VCROSS''"
| "vec_op_name BV_OP_VMAD = ''VMAD''"
| "vec_op_name BV_OP_MMUL = ''MMUL''"
| "vec_op_name BV_OP_MMUL_B = ''MMUL_B''"
| "vec_op_name BV_OP_VSHUFFLE = ''VSHUFFLE''"
| "vec_op_name BV_OP_VBROADCAST = ''VBROADCAST''"
| "vec_op_name BV_OP_VREDUCE = ''VREDUCE''"

fun mem_op_name :: "mem_op \<Rightarrow> string" where
  "mem_op_name BV_OP_LOAD = ''LOAD''"
| "mem_op_name BV_OP_LOAD2 = ''LOAD2''"
| "mem_op_name BV_OP_LOADV = ''LOADV''"
| "mem_op_name BV_OP_LOAD_DS = ''LOAD_DS''"
| "mem_op_name BV_OP_STORE = ''STORE''"
| "mem_op_name BV_OP_STORE2 = ''STORE2''"
| "mem_op_name BV_OP_STOREV = ''STOREV''"
| "mem_op_name BV_OP_PREFETCH = ''PREFETCH''"
| "mem_op_name BV_OP_ATOMIC_ADD = ''ATOMIC_ADD''"
| "mem_op_name BV_OP_ATOMIC_CAS = ''ATOMIC_CAS''"
| "mem_op_name BV_OP_ATOMIC_EXCH = ''ATOMIC_EXCH''"
| "mem_op_name BV_OP_TEX_SAMPLE = ''TEX_SAMPLE''"
| "mem_op_name BV_OP_TEX_SAMPLE_3D = ''TEX_SAMPLE_3D''"
| "mem_op_name BV_OP_TEX_GATHER = ''TEX_GATHER''"

fun ctl_op_name :: "ctl_op \<Rightarrow> string" where
  "ctl_op_name BV_OP_BR = ''BR''"
| "ctl_op_name BV_OP_BR_COND = ''BR_COND''"
| "ctl_op_name BV_OP_CALL = ''CALL''"
| "ctl_op_name BV_OP_RET = ''RET''"
| "ctl_op_name BV_OP_BAR = ''BAR''"
| "ctl_op_name BV_OP_BAR_CLUSTER = ''BAR_CLUSTER''"
| "ctl_op_name BV_OP_EXIT = ''EXIT''"
| "ctl_op_name BV_OP_TRAP = ''TRAP''"

fun rt_op_name :: "rt_op \<Rightarrow> string" where
  "rt_op_name BV_OP_RT_TRACE = ''RT_TRACE''"
| "rt_op_name BV_OP_RT_INTERSECT = ''RT_INTERSECT''"
| "rt_op_name BV_OP_RT_BVH_WALK = ''RT_BVH_WALK''"
| "rt_op_name BV_OP_RT_ANY_HIT = ''RT_ANY_HIT''"
| "rt_op_name BV_OP_RT_CLOSEST_HIT = ''RT_CLOSEST_HIT''"
| "rt_op_name BV_OP_RT_MISS = ''RT_MISS''"
| "rt_op_name BV_OP_RT_NEARF_EVAL = ''RT_NEARF_EVAL''"
| "rt_op_name BV_OP_RT_NEARF_TRAIN = ''RT_NEARF_TRAIN''"

fun ns_op_name :: "ns_op \<Rightarrow> string" where
  "ns_op_name BV_OP_NS_CONV2D = ''NS_CONV2D''"
| "ns_op_name BV_OP_NS_CONV2D_5 = ''NS_CONV2D_5''"
| "ns_op_name BV_OP_NS_RELU = ''NS_RELU''"
| "ns_op_name BV_OP_NS_GELU = ''NS_GELU''"
| "ns_op_name BV_OP_NS_SILU = ''NS_SILU''"
| "ns_op_name BV_OP_NS_MAXPOOL = ''NS_MAXPOOL''"
| "ns_op_name BV_OP_NS_UPSAMPLE = ''NS_UPSAMPLE''"
| "ns_op_name BV_OP_NS_ATTENTION = ''NS_ATTENTION''"
| "ns_op_name BV_OP_NS_EXPERT_SELECT = ''NS_EXPERT_SELECT''"
| "ns_op_name BV_OP_NS_MOE_FUSE = ''NS_MOE_FUSE''"

fun sfu_op_name :: "sfu_op \<Rightarrow> string" where
  "sfu_op_name BV_OP_RCP = ''RCP''"
| "sfu_op_name BV_OP_SIN = ''SIN''"
| "sfu_op_name BV_OP_COS = ''COS''"
| "sfu_op_name BV_OP_EXP2 = ''EXP2''"
| "sfu_op_name BV_OP_LOG2 = ''LOG2''"
| "sfu_op_name BV_OP_RAND = ''RAND''"
| "sfu_op_name BV_OP_LANE_ID = ''LANE_ID''"
| "sfu_op_name BV_OP_WARP_SZ = ''WARP_SZ''"
| "sfu_op_name BV_OP_CLOCK = ''CLOCK''"

fun opcode_mnemonic :: "bv_opcode \<Rightarrow> string" where
  "opcode_mnemonic (OP_ALU x) = alu_op_name x"
| "opcode_mnemonic (OP_INT x) = int_op_name x"
| "opcode_mnemonic (OP_VEC x) = vec_op_name x"
| "opcode_mnemonic (OP_MEM x) = mem_op_name x"
| "opcode_mnemonic (OP_CTL x) = ctl_op_name x"
| "opcode_mnemonic (OP_RT x) = rt_op_name x"
| "opcode_mnemonic (OP_NS x) = ns_op_name x"
| "opcode_mnemonic (OP_SFU x) = sfu_op_name x"

definition bv_opcode_name :: "u32 \<Rightarrow> string" where
  "bv_opcode_name x = (case opcode_of_byte (ucast (x AND 0xFF)) of
     Some c \<Rightarrow> opcode_mnemonic c | None \<Rightarrow> ''???'')"

section \<open>Conditions, reductions and status codes\<close>

datatype bv_cmp_cond = BV_CC_EQ | BV_CC_NE | BV_CC_LT | BV_CC_GT | BV_CC_LE | BV_CC_GE

text \<open>The \<open>switch (in.flags)\<close> of \<open>CMP\<close>; every other value takes the default branch.\<close>

definition cmp_cond_of_flags :: "u8 \<Rightarrow> bv_cmp_cond" where
  "cmp_cond_of_flags f =
     (if f = 0 then BV_CC_EQ else if f = 1 then BV_CC_NE else if f = 2 then BV_CC_LT
      else if f = 3 then BV_CC_GT else if f = 4 then BV_CC_LE else BV_CC_GE)"

datatype bv_reduce_op = BV_RED_SUM | BV_RED_MAX | BV_RED_MIN

definition reduce_op_of_flags :: "u8 \<Rightarrow> bv_reduce_op" where
  "reduce_op_of_flags f =
     (if f = 1 then BV_RED_MAX else if f = 2 then BV_RED_MIN else BV_RED_SUM)"

datatype bv_status = BV_OK | BV_TRAP | BV_TIMEOUT | BV_HALT | BV_OOB

section \<open>Encoding facts\<close>

lemma and_FF: "(x :: u64) AND 0xFF = take_bit 8 x"
  by (simp add: take_bit_eq_mask mask_eq_exp_minus_1)

lemma bit_insn_field: "bit (insn_field k i) n \<longleftrightarrow> n < 8 \<and> bit i (k + n)"
  unfolding insn_field_def and_FF by (auto simp: bit_simps)

lemma bit_byte_slot:
  "bit (push_bit k (take_bit 8 x) :: u64) n \<longleftrightarrow> k \<le> n \<and> n < k + 8 \<and> n < 64 \<and> bit x (n - k)"
  by (auto simp: bit_simps)

lemma bit_BVEN:
  "bit (BVEN a b c d e f g h) n \<longleftrightarrow> n < 64 \<and>
     (if n < 8 then bit h n else if n < 16 then bit g (n - 8) else if n < 24 then bit f (n - 16)
      else if n < 32 then bit e (n - 24) else if n < 40 then bit d (n - 32)
      else if n < 48 then bit c (n - 40) else if n < 56 then bit b (n - 48) else bit a (n - 56))"
  unfolding BVEN_def and_FF bit_or_iff bit_byte_slot by auto

lemma insn_field_BVEN:
  "insn_field 56 (BVEN a b c d e f g h) = ucast a"
  "insn_field 48 (BVEN a b c d e f g h) = ucast b"
  "insn_field 40 (BVEN a b c d e f g h) = ucast c"
  "insn_field 32 (BVEN a b c d e f g h) = ucast d"
  "insn_field 24 (BVEN a b c d e f g h) = ucast e"
  "insn_field 16 (BVEN a b c d e f g h) = ucast f"
  "insn_field 8 (BVEN a b c d e f g h) = ucast g"
  "insn_field 0 (BVEN a b c d e f g h) = ucast h"
  by (auto intro!: bit_word_eqI simp: bit_insn_field bit_BVEN bit_ucast_iff)

lemma encode_decode: "encode_insn (bv_decode raw) = raw"
  by (rule bit_word_eqI)
     (auto simp: encode_insn_def bv_decode_def bit_BVEN bit_ucast_iff bit_insn_field)

lemma decode_BVEN:
  "bv_decode (BVEN a b c d e f g h) = \<lparr> i_raw = BVEN a b c d e f g h, i_op = ucast a,
     i_pred = ucast b, i_dst = ucast c, i_src1 = ucast d, i_src2 = ucast e, i_imm = ucast f,
     i_flags = ucast g, i_mod = ucast h \<rparr>"
  by (simp add: bv_decode_def insn_field_BVEN)

lemma distinct_opcode_bytes: "distinct (map opcode_byte all_opcodes)"
  by (simp add: all_opcodes_def)

lemma all_opcodes_complete: "x \<in> set all_opcodes"
  unfolding all_opcodes_def by (cases x; rename_tac y; case_tac y; simp)

lemma inj_opcode_byte: "inj opcode_byte"
  by (rule inj_onI) (metis distinct_opcode_bytes all_opcodes_complete distinct_map inj_onD)

lemma opcode_of_byte_byte [simp]: "opcode_of_byte (opcode_byte x) = Some x"
  unfolding opcode_of_byte_def
  by (rule map_of_is_SomeI)
     (auto simp: comp_def distinct_opcode_bytes all_opcodes_complete)

lemma opcode_of_byte_Some: "opcode_of_byte b = Some x \<longleftrightarrow> b = opcode_byte x"
proof
  assume "opcode_of_byte b = Some x"
  then show "b = opcode_byte x"
    unfolding opcode_of_byte_def by (auto dest: map_of_SomeD)
qed simp

end
