(* ===== verification/Bvbc.thy ===== *)
theory Bvbc
  imports BvIsa
begin

text \<open>
  The portable bytecode container of \<open>include/brad/bvbc.h\<close> and \<open>bradvector/bvbc.c\<close>: the in-memory
  image with its builder, and the serializer and parser of the container.

  The first \<open>nkernels\<close> entries of the kernel array are the list \<open>img_kernels\<close>; a kernel name is the C
  string of the array. \<open>img_pool\<close> is the used part of \<open>string_pool\<close>, so \<open>pool_len\<close> is its length.
  \<open>img_const\<close> and \<open>img_insns\<close> are the memory the two external pointers reach; \<open>img_nconst\<close> and
  \<open>img_ninsn\<close> are the counts the image claims, which need not be backed by it. An operation that
  would access beyond that memory is undefined behaviour and yields \<open>None\<close>.
\<close>

section \<open>The image\<close>

record bvbc_kernel =
  k_name :: string
  k_entry :: u32
  k_nargs :: u32

record bvbc_image =
  img_version :: u32
  img_kernels :: "bvbc_kernel list"
  img_const :: "u8 list"
  img_nconst :: nat
  img_insns :: "u64 list"
  img_ninsn :: nat
  img_pool :: "u8 list"

abbreviation (input) BVBC_MAX_KERNELS :: nat where "BVBC_MAX_KERNELS \<equiv> 256"

abbreviation (input) BVBC_MAX_INSN :: nat where "BVBC_MAX_INSN \<equiv> 65536"

abbreviation (input) BVBC_MAX_NAME :: nat where "BVBC_MAX_NAME \<equiv> 64"

abbreviation (input) BVBC_HEADER_SIZE :: nat where "BVBC_HEADER_SIZE \<equiv> 32"

abbreviation (input) BVBC_POOL_SIZE :: nat where "BVBC_POOL_SIZE \<equiv> 4096"

definition BVBC_MAGIC :: u64 where
  "BVBC_MAGIC = 0x3130303043425642"

definition BVBC_VERSION :: u32 where
  "BVBC_VERSION = 1"

text \<open>Bytes of a C string, without the terminator.\<close>

definition str_bytes :: "string \<Rightarrow> u8 list" where
  "str_bytes s = map of_char s"

definition bytes_str :: "u8 list \<Rightarrow> string" where
  "bytes_str b = map (\<lambda>w. char_of (unat w)) b"

definition zero_image :: bvbc_image where
  "zero_image = \<lparr> img_version = 0, img_kernels = [], img_const = [], img_nconst = 0,
     img_insns = [], img_ninsn = 0, img_pool = [] \<rparr>"

section \<open>Building an image\<close>

text \<open>A name is a C string, so the operations see it up to its first NUL.\<close>

definition bvbc_add_kernel :: "bvbc_image \<Rightarrow> string \<Rightarrow> u32 \<Rightarrow> u32 \<Rightarrow> int \<times> bvbc_image" where
  "bvbc_add_kernel img name entry nargs =
     (if BVBC_MAX_KERNELS \<le> length (img_kernels img) then (-1, img)
      else let nm = cstr name; name_len = length nm in
        if name_len = 0 \<or> BVBC_MAX_NAME \<le> name_len then (-1, img)
        else if BVBC_POOL_SIZE < length (img_pool img) + name_len + 1 then (-1, img)
        else (int (length (img_kernels img)),
              img\<lparr> img_pool := img_pool img @ str_bytes nm @ [0],
                   img_kernels := img_kernels img @
                     [\<lparr> k_name = nm, k_entry = entry, k_nargs = nargs \<rparr>] \<rparr>))"

text \<open>
  \<open>insns[ninsn] = lo32 | (uint64_t)hi32 << 32\<close>: outside the caller's array the write is undefined.
\<close>

definition bvbc_add_insn32 :: "bvbc_image \<Rightarrow> u32 \<Rightarrow> u32 \<Rightarrow> (int \<times> bvbc_image) option" where
  "bvbc_add_insn32 img lo32 hi32 =
     (if BVBC_MAX_INSN \<le> img_ninsn img then Some (-1, img)
      else if length (img_insns img) \<le> img_ninsn img then None
      else Some (int (img_ninsn img),
             img\<lparr> img_insns := (img_insns img)[img_ninsn img := ucast lo32 OR push_bit 32 (ucast hi32)],
                  img_ninsn := img_ninsn img + 1 \<rparr>))"

definition bvbc_emit :: "bvbc_image \<Rightarrow> u64 \<Rightarrow> (int \<times> bvbc_image) option" where
  "bvbc_emit img insn = bvbc_add_insn32 img (ucast insn) (ucast (drop_bit 32 insn))"

fun find_kernel_from :: "bvbc_kernel list \<Rightarrow> string \<Rightarrow> nat \<Rightarrow> int" where
  "find_kernel_from [] name i = -1"
| "find_kernel_from (k # ks) name i =
     (if k_name k = cstr name then int i else find_kernel_from ks name (Suc i))"

definition bvbc_find_kernel :: "bvbc_image \<Rightarrow> string \<Rightarrow> int" where
  "bvbc_find_kernel img name = find_kernel_from (img_kernels img) name 0"

section \<open>Serialization\<close>

definition rd32 :: "u8 list \<Rightarrow> nat \<Rightarrow> u32" where
  "rd32 buf p = le_word32 (drop p buf)"

definition wr32 :: "u8 list \<Rightarrow> nat \<Rightarrow> u32 \<Rightarrow> u8 list" where
  "wr32 buf p v = blit buf p (le_bytes32 v)"

definition wr64 :: "u8 list \<Rightarrow> nat \<Rightarrow> u64 \<Rightarrow> u8 list" where
  "wr64 buf p v = blit buf p (le_bytes64 v)"

definition strpool_len :: "bvbc_image \<Rightarrow> nat" where
  "strpool_len img = length (img_pool img)"

definition kernel_table_size :: "bvbc_image \<Rightarrow> nat" where
  "kernel_table_size img = 16 * length (img_kernels img)"

definition kernel_name_off :: "bvbc_image \<Rightarrow> nat \<Rightarrow> u32" where
  "kernel_name_off img ki =
     of_nat (sum_list (map (\<lambda>k. length (k_name k) + 1) (take ki (img_kernels img))))"

definition bvbc_serialize_size :: "bvbc_image \<Rightarrow> nat" where
  "bvbc_serialize_size img = BVBC_HEADER_SIZE + kernel_table_size img + strpool_len img
     + img_nconst img + img_ninsn img * BV_INSN_SIZE"

definition const_data_off :: "bvbc_image \<Rightarrow> nat" where
  "const_data_off img = strpool_len img"

definition pack_header :: "bvbc_image \<Rightarrow> u8 list \<Rightarrow> u8 list" where
  "pack_header img buf =
     wr32 (wr32 (wr32 (wr32 (wr32 (wr32 (wr64 buf 0 BVBC_MAGIC) 8 BVBC_VERSION) 12 0)
       16 (of_nat (length (img_kernels img))))
       20 (of_nat (strpool_len img + img_nconst img)))
       24 (of_nat (img_ninsn img))) 28 0"

definition pack_kernel :: "bvbc_image \<Rightarrow> nat \<Rightarrow> u8 list \<Rightarrow> u8 list" where
  "pack_kernel img i buf =
     (let p = BVBC_HEADER_SIZE + i * 16; k = img_kernels img ! i in
      wr32 (wr32 (wr32 (wr32 buf p (kernel_name_off img i)) (p + 4) (k_entry k * 8))
        (p + 8) (k_nargs k)) (p + 12) 0)"

text \<open>
  Returns the number of bytes written (0 when the buffer is too small) and the buffer; a null
  buffer is the empty list, which is always too small.
\<close>

definition bvbc_pack :: "bvbc_image \<Rightarrow> u8 list \<Rightarrow> (nat \<times> u8 list) option" where
  "bvbc_pack img buf =
     (let total = bvbc_serialize_size img; c0 = BVBC_HEADER_SIZE + kernel_table_size img in
      if length buf < total then Some (0, buf)
      else if length (img_const img) < img_nconst img \<or> length (img_insns img) < img_ninsn img
      then None
      else let
        b1 = pack_header img buf;
        b2 = fold (pack_kernel img) [0..<length (img_kernels img)] b1;
        b3 = blit b2 c0 (img_pool img);
        b4 = (if img_nconst img \<noteq> 0
              then blit b3 (c0 + const_data_off img) (take (img_nconst img) (img_const img)) else b3);
        b5 = fold (\<lambda>i b. wr64 b (c0 + strpool_len img + img_nconst img + i * BV_INSN_SIZE)
               (img_insns img ! i)) [0..<img_ninsn img] b4
      in Some (total, b5))"

section \<open>Parsing\<close>

text \<open>
  One entry of the kernel table. The name is scanned in the constant region until a NUL, the end of
  the region or 63 characters.
\<close>

definition unpack_kernel :: "u8 list \<Rightarrow> nat \<Rightarrow> u32 \<Rightarrow> nat \<Rightarrow> bvbc_kernel option" where
  "unpack_kernel buf c0 nconst i =
     (let e = BVBC_HEADER_SIZE + i * 16;
          noff = rd32 buf e; eoff = rd32 buf (e + 4); narg = rd32 buf (e + 8) in
      if nconst \<le> noff then None
      else if eoff mod 8 \<noteq> 0 then None
      else Some \<lparr> k_name = bytes_str (takeWhile (\<lambda>b. b \<noteq> 0)
                     (take (min (unat nconst - unat noff) (BVBC_MAX_NAME - 1))
                       (drop (c0 + unat noff) buf))),
                  k_entry = eoff div 8, k_nargs = narg \<rparr>)"

fun collect :: "('a \<Rightarrow> 'b option) \<Rightarrow> 'a list \<Rightarrow> 'b list option" where
  "collect f [] = Some []"
| "collect f (x # xs) =
     (case f x of None \<Rightarrow> None
      | Some y \<Rightarrow> (case collect f xs of None \<Rightarrow> None | Some ys \<Rightarrow> Some (y # ys)))"

text \<open>
  The parsed image keeps pointers into the buffer: \<open>img_const\<close> is everything from the constant
  data to the end of the buffer, \<open>img_insns\<close> the words of the stream on a little-endian host.
  \<open>None\<close> is the return value -1.
\<close>

definition bvbc_unpack :: "u8 list \<Rightarrow> bvbc_image option" where
  "bvbc_unpack buf =
     (if length buf < BVBC_HEADER_SIZE then None
      else if take 8 buf \<noteq> le_bytes64 BVBC_MAGIC then None
      else let nkern = unat (rd32 buf 16); nconst = rd32 buf 20; ninsn = unat (rd32 buf 24);
               c0 = BVBC_HEADER_SIZE + 16 * nkern in
        if BVBC_MAX_KERNELS < nkern \<or> BVBC_MAX_INSN < ninsn then None
        else if length buf < c0 + unat nconst + ninsn * BV_INSN_SIZE then None
        else case collect (unpack_kernel buf c0 nconst) [0..<nkern] of None \<Rightarrow> None
        | Some ks \<Rightarrow>
          let names_len = sum_list (map (\<lambda>k. length (k_name k) + 1) ks) in
          if unat nconst < names_len then None
          else Some \<lparr> img_version = 1, img_kernels = ks, img_const = drop (c0 + names_len) buf,
                 img_nconst = unat nconst,
                 img_insns = map (\<lambda>i. le_word64 (drop (c0 + unat nconst + i * BV_INSN_SIZE) buf))
                   [0..<ninsn],
                 img_ninsn = ninsn, img_pool = [] \<rparr>)"

section \<open>The format\<close>

text \<open>The byte layout the container documents, as one list.\<close>

definition kernel_entry_bytes :: "bvbc_image \<Rightarrow> nat \<Rightarrow> u8 list" where
  "kernel_entry_bytes img i = (let k = img_kernels img ! i in
     le_bytes32 (kernel_name_off img i) @ le_bytes32 (k_entry k * 8) @ le_bytes32 (k_nargs k) @
     le_bytes32 0)"

definition header_bytes :: "bvbc_image \<Rightarrow> u8 list" where
  "header_bytes img = le_bytes64 BVBC_MAGIC @ le_bytes32 BVBC_VERSION @ le_bytes32 0 @
     le_bytes32 (of_nat (length (img_kernels img))) @
     le_bytes32 (of_nat (strpool_len img + img_nconst img)) @
     le_bytes32 (of_nat (img_ninsn img)) @ le_bytes32 0"

definition bvbc_format :: "bvbc_image \<Rightarrow> u8 list" where
  "bvbc_format img = header_bytes img @
     concat (map (kernel_entry_bytes img) [0..<length (img_kernels img)]) @
     img_pool img @ take (img_nconst img) (img_const img) @
     concat (map le_bytes64 (take (img_ninsn img) (img_insns img)))"

text \<open>What the builder maintains and the format can carry.\<close>

definition kernel_ok :: "bvbc_kernel \<Rightarrow> bool" where
  "kernel_ok k \<longleftrightarrow> no_nul (k_name k) \<and> k_name k \<noteq> [] \<and> length (k_name k) < BVBC_MAX_NAME"

definition pool_ok :: "bvbc_image \<Rightarrow> bool" where
  "pool_ok img \<longleftrightarrow> (\<forall>k \<in> set (img_kernels img). kernel_ok k) \<and>
     length (img_kernels img) \<le> BVBC_MAX_KERNELS \<and> length (img_pool img) \<le> BVBC_POOL_SIZE \<and>
     img_pool img = concat (map (\<lambda>k. str_bytes (k_name k) @ [0]) (img_kernels img))"

definition bvbc_ok :: "bvbc_image \<Rightarrow> bool" where
  "bvbc_ok img \<longleftrightarrow> pool_ok img \<and>
     img_nconst img \<le> length (img_const img) \<and> img_ninsn img \<le> length (img_insns img) \<and>
     img_ninsn img \<le> BVBC_MAX_INSN \<and> length (img_pool img) + img_nconst img < 2 ^ 32 \<and>
     (\<forall>k \<in> set (img_kernels img). unat (k_entry k) < 2 ^ 29)"

section \<open>The builder\<close>

lemma str_bytes_append [simp]: "str_bytes (a @ b) = str_bytes a @ str_bytes b"
  by (simp add: str_bytes_def)

lemma length_str_bytes [simp]: "length (str_bytes s) = length s"
  by (simp add: str_bytes_def)

lemma unat_of_char: "unat (of_char c :: u8) = of_char c"
proof -
  have "(of_char c :: u8) = of_nat (of_char c)" by (simp only: of_nat_of_char)
  then show ?thesis using nat_of_char_less_256 [of c] by (simp only: unat_of_nat) simp
qed

lemma bytes_str_bytes [simp]: "bytes_str (str_bytes s) = s"
  by (simp add: bytes_str_def str_bytes_def comp_def unat_of_char)

lemma bvbc_add_kernel_pool_ok:
  assumes "pool_ok img"
  shows "pool_ok (snd (bvbc_add_kernel img name entry nargs))"
  using assms no_nul_cstr [of name]
  by (auto simp: bvbc_add_kernel_def pool_ok_def kernel_ok_def Let_def)

text \<open>The limits in a form that also evaluates on an array of which only the first words are given.\<close>

lemma bvbc_add_insn32_code [code]:
  "bvbc_add_insn32 img lo32 hi32 =
     (if 65536 \<le> int (img_ninsn img) then Some (-1, img)
      else if drop (img_ninsn img) (img_insns img) = [] then None
      else Some (int (img_ninsn img),
             img\<lparr> img_insns := (img_insns img)[img_ninsn img := ucast lo32 OR push_bit 32 (ucast hi32)],
                  img_ninsn := img_ninsn img + 1 \<rparr>))"
  by (simp add: bvbc_add_insn32_def)

lemma bvbc_add_insn32_ok:
  assumes "img_ninsn img < length (img_insns img)" "length (img_insns img) \<le> BVBC_MAX_INSN"
  shows "\<exists>img'. bvbc_add_insn32 img lo hi = Some (int (img_ninsn img), img') \<and>
    take (img_ninsn img') (img_insns img') =
      take (img_ninsn img) (img_insns img) @ [ucast lo OR push_bit 32 (ucast hi)] \<and>
    img_ninsn img' = img_ninsn img + 1"
  using assms by (auto simp: bvbc_add_insn32_def take_Suc_conv_app_nth)

lemma join_halves: "(ucast (ucast w :: u32) :: u64) OR push_bit 32 (ucast (ucast (drop_bit 32 w) :: u32)) = w"
  by (rule bit_word_eqI) (auto simp: bit_simps not_less)

lemma bvbc_emit_appends:
  assumes "img_ninsn img < length (img_insns img)" "length (img_insns img) \<le> BVBC_MAX_INSN"
  shows "\<exists>img'. bvbc_emit img insn = Some (int (img_ninsn img), img') \<and>
    take (img_ninsn img') (img_insns img') = take (img_ninsn img) (img_insns img) @ [insn]"
  using bvbc_add_insn32_ok [OF assms, of "ucast insn" "ucast (drop_bit 32 insn)"]
  unfolding bvbc_emit_def join_halves by blast

lemma find_kernel_from_found:
  "find_kernel_from ks name i = int j \<longleftrightarrow>
     i \<le> j \<and> j < i + length ks \<and> k_name (ks ! (j - i)) = cstr name \<and>
     (\<forall>m < j - i. k_name (ks ! m) \<noteq> cstr name)"
proof (induction ks arbitrary: i)
  case Nil
  then show ?case by simp
next
  case (Cons k ks)
  show ?case
  proof (cases "k_name k = cstr name")
    case True
    then show ?thesis by (cases "i = j") (auto intro: exI [of _ 0])
  next
    case False
    have "j - i = Suc (j - Suc i)" if "Suc i \<le> j" using that by simp
    moreover have "\<not> (i \<le> j \<and> \<not> Suc i \<le> j \<and> k_name ((k # ks) ! (j - i)) = cstr name)"
      using False by (auto simp: le_less_Suc_eq)
    ultimately show ?thesis using False Cons.IH [of "Suc i"]
      by (cases "Suc i \<le> j") (auto simp: All_less_Suc2)
  qed
qed

lemma find_kernel_from_missing:
  "find_kernel_from ks name i = -1 \<longleftrightarrow> (\<forall>k \<in> set ks. k_name k \<noteq> cstr name)"
  by (induction ks arbitrary: i) auto

section \<open>Packing writes the documented format\<close>

lemma pack_header_filled:
  assumes "BVBC_HEADER_SIZE \<le> length buf"
  shows "pack_header img buf = filled (header_bytes img) buf"
proof -
  have "pack_header img buf = blit buf 0 (header_bytes img)"
    by (simp add: pack_header_def wr32_def wr64_def header_bytes_def blit_append)
  also have "\<dots> = filled ([] @ header_bytes img) buf"
    using blit_filled [of 0 "[]" "header_bytes img" buf] assms by (simp add: header_bytes_def)
  finally show ?thesis by simp
qed

lemma length_header_bytes [simp]: "length (header_bytes img) = 32"
  by (simp add: header_bytes_def)

lemma length_kernel_entry_bytes [simp]: "length (kernel_entry_bytes img i) = 16"
  by (simp add: kernel_entry_bytes_def Let_def)

lemma pack_kernel_blit: "pack_kernel img i b = blit b (32 + i * 16) (kernel_entry_bytes img i)"
  by (simp add: pack_kernel_def kernel_entry_bytes_def wr32_def Let_def blit_append add.assoc)

lemma bvbc_pack_format:
  assumes "img_nconst img \<le> length (img_const img)" "img_ninsn img \<le> length (img_insns img)"
    and "bvbc_serialize_size img \<le> length buf"
  shows "bvbc_pack img buf = Some (bvbc_serialize_size img, filled (bvbc_format img) buf)"
proof -
  let ?nk = "length (img_kernels img)"
  let ?tab = "concat (map (kernel_entry_bytes img) [0..<?nk])"
  let ?k = "take (img_nconst img) (img_const img)"
  let ?h = "header_bytes img" and ?p = "img_pool img"
  have size: "32 + 16 * ?nk + length ?p + img_nconst img + img_ninsn img * 8 \<le> length buf"
    using assms(3) by (simp add: bvbc_serialize_size_def kernel_table_size_def strpool_len_def)
  have tab: "length ?tab = ?nk * 16"
    using length_concat_uniform [of "[0..<?nk]" "kernel_entry_bytes img" 16] by simp
  have c: "length ?k = img_nconst img" using assms(1) by simp
  have b2: "fold (pack_kernel img) [0..<?nk] (pack_header img buf) = filled (?h @ ?tab) buf"
    unfolding pack_kernel_blit [abs_def]
    by (subst pack_header_filled, use size in simp, rule fold_blit_filled, use size in auto)
  have b3: "blit (filled (?h @ ?tab) buf) (32 + 16 * ?nk) ?p = filled ((?h @ ?tab) @ ?p) buf"
    by (rule blit_filled) (use size tab in auto)
  have b4: "blit (filled ((?h @ ?tab) @ ?p) buf) (32 + 16 * ?nk + length ?p) ?k
      = filled (((?h @ ?tab) @ ?p) @ ?k) buf"
    by (rule blit_filled) (use size tab c in auto)
  have b5: "fold (\<lambda>i b. blit b (32 + 16 * ?nk + length ?p + img_nconst img + i * 8)
        (le_bytes64 (img_insns img ! i))) [0..<img_ninsn img] (filled (((?h @ ?tab) @ ?p) @ ?k) buf)
      = filled ((((?h @ ?tab) @ ?p) @ ?k) @
          concat (map (\<lambda>i. le_bytes64 (img_insns img ! i)) [0..<img_ninsn img])) buf"
    by (rule fold_blit_filled) (use size tab c in auto)
  have ins: "map (\<lambda>i. le_bytes64 (img_insns img ! i)) [0..<img_ninsn img]
      = map le_bytes64 (take (img_ninsn img) (img_insns img))"
    using assms(2) by (auto intro: nth_equalityI)
  show ?thesis
  proof (cases "img_nconst img = 0")
    case True
    then have "?k = []" by simp
    then show ?thesis using assms b2 b3 b5 True
      by (simp add: bvbc_pack_def Let_def bvbc_format_def kernel_table_size_def strpool_len_def
          wr64_def ins)
  next
    case False
    then show ?thesis using assms b2 b3 b4 b5
      by (simp add: bvbc_pack_def Let_def bvbc_format_def kernel_table_size_def strpool_len_def
          const_data_off_def wr64_def ins)
  qed
qed

section \<open>Parsing a packed image\<close>

lemma concat_map_split:
  assumes "i < length xs"
  shows "concat (map f xs) = concat (map f (take i xs)) @ f (xs ! i) @ concat (map f (drop (Suc i) xs))"
  by (subst id_take_nth_drop [OF assms]) simp

lemma collect_all: "(\<And>x. x \<in> set xs \<Longrightarrow> f x = Some (g x)) \<Longrightarrow> collect f xs = Some (map g xs)"
  by (induction xs) auto

definition names_len :: "bvbc_kernel list \<Rightarrow> nat" where
  "names_len ks = sum_list (map (\<lambda>k. length (k_name k) + 1) ks)"

lemma length_names: "length (concat (map (\<lambda>k. str_bytes (k_name k) @ [0]) ks)) = names_len ks"
  by (induction ks) (auto simp: names_len_def)

lemma pool_at:
  assumes "pool_ok img" "i < length (img_kernels img)"
  shows "\<exists>tl. drop (names_len (take i (img_kernels img))) (img_pool img)
      = str_bytes (k_name (img_kernels img ! i)) @ 0 # tl"
    and "names_len (take i (img_kernels img)) + length (k_name (img_kernels img ! i)) + 1 \<le> length (img_pool img)"
proof -
  let ?f = "\<lambda>k. str_bytes (k_name k) @ [0]"
  have p: "img_pool img = concat (map ?f (take i (img_kernels img))) @ ?f (img_kernels img ! i) @
      concat (map ?f (drop (Suc i) (img_kernels img)))"
    using assms concat_map_split [of i "img_kernels img" ?f] by (simp add: pool_ok_def)
  show "\<exists>tl. drop (names_len (take i (img_kernels img))) (img_pool img)
      = str_bytes (k_name (img_kernels img ! i)) @ 0 # tl"
    unfolding p length_names [symmetric] by simp
  show "names_len (take i (img_kernels img)) + length (k_name (img_kernels img ! i)) + 1 \<le> length (img_pool img)"
    unfolding p length_names [symmetric] by simp
qed

lemma takeWhile_cstring:
  assumes "0 \<notin> set bs" "length bs \<le> n"
  shows "takeWhile (\<lambda>b. b \<noteq> (0 :: u8)) (take n (bs @ 0 # rest)) = bs"
proof (cases "n - length bs")
  case 0
  then show ?thesis using assms by (auto simp: takeWhile_eq_all_conv)
next
  case (Suc m)
  then show ?thesis using assms by (auto simp: takeWhile_append)
qed

lemma str_bytes_no_nul: "no_nul s \<Longrightarrow> 0 \<notin> set (str_bytes s)"
proof
  assume "no_nul s" "0 \<in> set (str_bytes s)"
  then obtain c where c: "c \<in> set s" "of_char c = (0 :: u8)" by (auto simp: str_bytes_def)
  then have "(of_char c :: nat) = 0" by (metis unat_of_char unat_0)
  then have "c = nul" by (cases c) (auto simp: nul_def of_char_def)
  then show False using c \<open>no_nul s\<close> by (simp add: no_nul_def)
qed

lemma entry_scaled:
  assumes "unat (e :: u32) < 2 ^ 29"
  shows "(e * 8) mod 8 = 0" "(e * 8) div 8 = e"
proof -
  have u: "unat (e * 8) = unat e * 8"
    using assms by (simp add: unat_word_ariths)
  show "(e * 8) mod 8 = 0" by (rule unat_eq_zero [THEN iffD1]) (simp add: unat_mod u)
  show "(e * 8) div 8 = e" by (rule word_unat_eq_iff [THEN iffD2]) (simp add: unat_div u)
qed

text \<open>What the parser yields for a packed image followed by \<open>rest\<close>.\<close>

definition reloaded :: "bvbc_image \<Rightarrow> u8 list \<Rightarrow> bvbc_image" where
  "reloaded img rest = \<lparr> img_version = 1, img_kernels = img_kernels img,
     img_const = take (img_nconst img) (img_const img) @
       concat (map le_bytes64 (take (img_ninsn img) (img_insns img))) @ rest,
     img_nconst = length (img_pool img) + img_nconst img,
     img_insns = take (img_ninsn img) (img_insns img), img_ninsn = img_ninsn img, img_pool = [] \<rparr>"

lemma rd32_header:
  "rd32 (header_bytes img @ r) 16 = of_nat (length (img_kernels img))"
  "rd32 (header_bytes img @ r) 20 = of_nat (strpool_len img + img_nconst img)"
  "rd32 (header_bytes img @ r) 24 = of_nat (img_ninsn img)"
  "take 8 (header_bytes img @ r) = le_bytes64 BVBC_MAGIC"
  by (simp_all add: rd32_def header_bytes_def codec_simps)

lemma rd32_entry:
  assumes "drop p buf = kernel_entry_bytes img i @ r"
  shows "rd32 buf p = kernel_name_off img i"
    and "rd32 buf (p + 4) = k_entry (img_kernels img ! i) * 8"
    and "rd32 buf (p + 8) = k_nargs (img_kernels img ! i)"
proof -
  have d: "drop (p + n) buf = drop n (kernel_entry_bytes img i @ r)" for n
    by (metis assms drop_drop add.commute)
  show "rd32 buf p = kernel_name_off img i"
    using assms by (simp add: rd32_def kernel_entry_bytes_def codec_simps Let_def)
  show "rd32 buf (p + 4) = k_entry (img_kernels img ! i) * 8"
    "rd32 buf (p + 8) = k_nargs (img_kernels img ! i)"
    unfolding rd32_def d by (simp_all add: kernel_entry_bytes_def codec_simps Let_def)
qed

lemma kernel_name_off_names: "kernel_name_off img i = of_nat (names_len (take i (img_kernels img)))"
  by (simp add: kernel_name_off_def names_len_def)

lemma unpack_kernel_format:
  assumes ok: "bvbc_ok img" and i: "i < length (img_kernels img)"
    and nc: "unat nconst = length (img_pool img) + img_nconst img"
    and c0: "c0 = 32 + 16 * length (img_kernels img)"
    and tab: "drop (32 + i * 16) buf = kernel_entry_bytes img i @ r1"
    and pool: "drop c0 buf = img_pool img @ r2"
  shows "unpack_kernel buf c0 nconst i = Some (img_kernels img ! i)"
proof -
  let ?k = "img_kernels img ! i" and ?o = "names_len (take i (img_kernels img))"
  have pok: "pool_ok img" and kok: "kernel_ok ?k"
    using ok i by (auto simp: bvbc_ok_def pool_ok_def)
  obtain s where at: "drop ?o (img_pool img) = str_bytes (k_name ?k) @ 0 # s"
    using pool_at(1) [OF pok i] by blast
  have fits: "?o + length (k_name ?k) + 1 \<le> length (img_pool img)" by (rule pool_at(2) [OF pok i])
  have o: "unat (kernel_name_off img i) = ?o"
    using fits pok by (auto simp: kernel_name_off_names unat_of_nat pool_ok_def)
  have entry: "unat (k_entry ?k) < 2 ^ 29" using ok i by (auto simp: bvbc_ok_def)
  have lt: "\<not> nconst \<le> kernel_name_off img i"
    using o nc fits by (simp add: word_le_nat_alt)
  have d: "drop (c0 + ?o) buf = str_bytes (k_name ?k) @ 0 # s @ r2"
  proof -
    have "drop (c0 + ?o) buf = drop ?o (img_pool img @ r2)" by (metis pool drop_drop add.commute)
    then show ?thesis using at fits by simp
  qed
  have name: "takeWhile (\<lambda>b. b \<noteq> 0) (take (min (unat nconst - ?o) 63) (drop (c0 + ?o) buf))
      = str_bytes (k_name ?k)"
    unfolding d
  proof (rule takeWhile_cstring)
    show "0 \<notin> set (str_bytes (k_name ?k))" using kok by (simp add: kernel_ok_def str_bytes_no_nul)
  qed (use kok nc fits in \<open>auto simp: kernel_ok_def\<close>)
  show ?thesis
    using rd32_entry [OF tab] lt o name entry_scaled [OF entry]
    by (simp add: unpack_kernel_def Let_def)
qed

lemma format_pieces:
  fixes img rest
  defines "F \<equiv> bvbc_format img @ rest" and "nk \<equiv> length (img_kernels img)"
    and "c0 \<equiv> 32 + 16 * length (img_kernels img)"
  assumes ok: "bvbc_ok img"
  shows "F = header_bytes img @ drop 32 F"
    and "i < nk \<Longrightarrow> \<exists>r. drop (32 + i * 16) F = kernel_entry_bytes img i @ r"
    and "drop c0 F = img_pool img @ img_const (reloaded img rest)"
    and "length F = c0 + length (img_pool img) + img_nconst img + img_ninsn img * 8 + length rest"
proof -
  let ?tab = "concat (map (kernel_entry_bytes img) [0..<nk])"
  let ?k = "take (img_nconst img) (img_const img)"
  let ?c = "concat (map le_bytes64 (take (img_ninsn img) (img_insns img)))"
  have F: "F = header_bytes img @ ?tab @ img_pool img @ ?k @ ?c @ rest"
    by (simp add: F_def bvbc_format_def nk_def)
  have tab: "length ?tab = nk * 16"
    using length_concat_uniform [of "[0..<nk]" "kernel_entry_bytes img" 16] by simp
  have c: "length ?c = img_ninsn img * 8"
    using c64.table_length [of "take (img_ninsn img) (img_insns img)"] ok by (simp add: bvbc_ok_def)
  show "F = header_bytes img @ drop 32 F" by (simp add: F)
  show "drop c0 F = img_pool img @ img_const (reloaded img rest)"
    using tab by (simp add: F c0_def nk_def reloaded_def mult.commute)
  show "length F = c0 + length (img_pool img) + img_nconst img + img_ninsn img * 8 + length rest"
    using tab c ok by (simp add: F c0_def nk_def bvbc_ok_def)
  assume i: "i < nk"
  obtain r where "drop (i * 16) ?tab = kernel_entry_bytes img i @ r"
    using nth_concat_uniform [of "[0..<nk]" "kernel_entry_bytes img" 16 i] i by auto
  moreover have "i * 16 \<le> nk * 16" using i by simp
  ultimately show "\<exists>r. drop (32 + i * 16) F = kernel_entry_bytes img i @ r"
    using tab by (simp add: F)
qed

lemma unpack_format:
  assumes ok: "bvbc_ok img"
  shows "bvbc_unpack (bvbc_format img @ rest) = Some (reloaded img rest)"
proof -
  define F where "F = bvbc_format img @ rest"
  let ?nk = "length (img_kernels img)" and ?pl = "length (img_pool img)"
  let ?c0 = "32 + 16 * length (img_kernels img)"
  note P = format_pieces [OF ok, where rest = rest, folded F_def]
  have pok: "pool_ok img" using ok by (simp add: bvbc_ok_def)
  have nk: "unat (rd32 F 16) = ?nk" and nc: "unat (rd32 F 20) = ?pl + img_nconst img"
    and ni: "unat (rd32 F 24) = img_ninsn img" and mg: "take 8 F = le_bytes64 BVBC_MAGIC"
    using rd32_header [of img "drop 32 F"] ok unfolding P(1) [symmetric]
    by (auto simp: bvbc_ok_def pool_ok_def strpool_len_def unat_of_nat simp del: of_nat_add)
  have ks: "collect (unpack_kernel F ?c0 (rd32 F 20)) [0..<?nk] = Some (img_kernels img)"
  proof -
    have "unpack_kernel F ?c0 (rd32 F 20) i = Some (img_kernels img ! i)" if "i \<in> set [0..<?nk]" for i
    proof -
      have i: "i < ?nk" using that by simp
      obtain r where "drop (32 + i * 16) F = kernel_entry_bytes img i @ r" using P(2) [OF i] by blast
      from unpack_kernel_format [OF ok i nc refl this P(3)] show ?thesis .
    qed
    then have "collect (unpack_kernel F ?c0 (rd32 F 20)) [0..<?nk] = Some (map (\<lambda>i. img_kernels img ! i) [0..<?nk])"
      by (rule collect_all)
    then show ?thesis by (simp add: map_nth)
  qed
  have names: "sum_list (map (\<lambda>k. length (k_name k) + 1) (img_kernels img)) = ?pl"
    using pok length_names [of "img_kernels img"] by (simp add: pool_ok_def names_len_def)
  have code: "map (\<lambda>i. le_word64 (drop (?c0 + (?pl + img_nconst img) + i * 8) F)) [0..<img_ninsn img]
      = take (img_ninsn img) (img_insns img)"
  proof (rule nth_equalityI)
    fix i assume "i < length (map (\<lambda>i. le_word64 (drop (?c0 + (?pl + img_nconst img) + i * 8) F)) [0..<img_ninsn img])"
    then have i: "i < length (take (img_ninsn img) (img_insns img))" "i < img_ninsn img"
      using ok by (auto simp: bvbc_ok_def)
    have "drop (?c0 + (?pl + img_nconst img) + i * 8) F
        = drop (?pl + img_nconst img + i * 8) (drop ?c0 F)" by (simp add: ac_simps)
    also have "\<dots> = drop (i * 8) (concat (map le_bytes64 (take (img_ninsn img) (img_insns img))) @ rest)"
      unfolding P(3) using ok by (simp add: reloaded_def bvbc_ok_def)
    finally show "map (\<lambda>i. le_word64 (drop (?c0 + (?pl + img_nconst img) + i * 8) F)) [0..<img_ninsn img] ! i
        = take (img_ninsn img) (img_insns img) ! i"
      using i c64.table_nth [OF i(1), of rest] by simp
  qed (use ok in \<open>auto simp: bvbc_ok_def\<close>)
  have cst: "drop (?c0 + ?pl) F = img_const (reloaded img rest)"
    using P(3) by (metis drop_drop add.commute append_eq_conv_conj)
  have lens: "32 \<le> length F" "\<not> length F < ?c0 + (?pl + img_nconst img) + img_ninsn img * 8"
    "?nk \<le> 256" "img_ninsn img \<le> 65536"
    using P(4) ok by (auto simp: bvbc_ok_def pool_ok_def)
  have "bvbc_unpack F = Some (reloaded img rest)"
    unfolding bvbc_unpack_def Let_def nk nc ni
    using mg ks names code cst lens by (simp add: reloaded_def)
  then show ?thesis by (simp add: F_def)
qed




section \<open>Properties\<close>

text \<open>C4: Packing a well-formed image into a large enough buffer and parsing the buffer gives back
  the kernels, the instruction stream and the user constant data.\<close>

theorem bvbc_pack_unpack:
  assumes "bvbc_ok img" and "bvbc_serialize_size img \<le> length buf"
  shows "\<exists>buf' img'. bvbc_pack img buf = Some (bvbc_serialize_size img, buf') \<and>
    length buf' = length buf \<and> bvbc_unpack buf' = Some img' \<and>
    img_kernels img' = img_kernels img \<and>
    img_insns img' = take (img_ninsn img) (img_insns img) \<and> img_ninsn img' = img_ninsn img \<and>
    take (img_nconst img) (img_const img') = take (img_nconst img) (img_const img)"
proof -
  have pack: "bvbc_pack img buf = Some (bvbc_serialize_size img, filled (bvbc_format img) buf)"
    using assms by (intro bvbc_pack_format) (auto simp: bvbc_ok_def)
  have "length (filled (bvbc_format img) buf) = length buf"
    using format_pieces(4) [OF assms(1), of "[]"] assms(2)
    by (simp add: bvbc_serialize_size_def kernel_table_size_def strpool_len_def)
  moreover have "take (img_nconst img) (img_const (reloaded img r)) = take (img_nconst img) (img_const img)" for r
    using assms(1) by (simp add: reloaded_def bvbc_ok_def)
  ultimately show ?thesis
    using pack unpack_format [OF assms(1), of "drop (length (bvbc_format img)) buf"]
    by (auto simp: reloaded_def)
qed

definition sample_image :: bvbc_image where
  "sample_image = zero_image\<lparr> img_kernels := [\<lparr> k_name = ''main'', k_entry = 0, k_nargs = 2 \<rparr>],
     img_pool := str_bytes ''main'' @ [0], img_const := [7, 8, 9], img_nconst := 3,
     img_insns := [BVEN 0x46 0 0 0 0 0 0 0], img_ninsn := 1 \<rparr>"

lemma sample_image_ok: "bvbc_ok sample_image" "bvbc_serialize_size sample_image = 64"
  by (simp_all add: sample_image_def zero_image_def bvbc_ok_def pool_ok_def kernel_ok_def no_nul_def nul_def
      str_bytes_def bvbc_serialize_size_def kernel_table_size_def strpool_len_def)

theorem bvbc_pack_unpack_witness:
  "bvbc_ok sample_image \<and> (\<exists>buf' img'. bvbc_pack sample_image (replicate 70 0) = Some (64, buf') \<and>
     bvbc_unpack buf' = Some img' \<and> img_insns img' = [BVEN 0x46 0 0 0 0 0 0 0])"
  using bvbc_pack_unpack [of sample_image "replicate 70 0"] sample_image_ok
  by (auto simp: sample_image_def zero_image_def)





text \<open>A parsed image is not an image that can be packed again: its constant size counts the
  kernel names, while its constant pointer starts past them, so packing reads beyond the buffer
  as soon as the names are longer than what follows the constants.\<close>

theorem bvbc_repack_overreads:
  assumes "bvbc_ok img" and "img_ninsn img * 8 + length rest < length (img_pool img)"
  shows "\<exists>img'. bvbc_unpack (bvbc_format img @ rest) = Some img' \<and>
    (\<forall>buf. bvbc_serialize_size img' \<le> length buf \<longrightarrow> bvbc_pack img' buf = None)"
proof -
  let ?i = "reloaded img rest"
  have c: "length (concat (map le_bytes64 (take (img_ninsn img) (img_insns img)))) = img_ninsn img * 8"
    using c64.table_length [of "take (img_ninsn img) (img_insns img)"] assms(1) by (simp add: bvbc_ok_def)
  then have short: "length (img_const ?i) < img_nconst ?i"
    using assms by (simp add: reloaded_def bvbc_ok_def)
  then show ?thesis using unpack_format [OF assms(1)] by (auto simp: bvbc_pack_def Let_def)
qed

definition long_name_image :: bvbc_image where
  "long_name_image = zero_image\<lparr> img_kernels := [\<lparr> k_name = ''long_kernel_name'', k_entry = 0, k_nargs = 0 \<rparr>],
     img_pool := str_bytes ''long_kernel_name'' @ [0], img_insns := [0], img_ninsn := 1 \<rparr>"

theorem bvbc_repack_overreads_witness:
  "\<exists>img'. bvbc_unpack (bvbc_format long_name_image @ []) = Some img' \<and>
    (\<forall>buf. bvbc_serialize_size img' \<le> length buf \<longrightarrow> bvbc_pack img' buf = None)"
  by (rule bvbc_repack_overreads)
     (simp_all add: long_name_image_def zero_image_def bvbc_ok_def pool_ok_def kernel_ok_def
       no_nul_def nul_def str_bytes_def)

end
