(* ===== verification/Float32.thy ===== *)
theory Float32
  imports Prelude
begin

text \<open>
  The \<open>float\<close> arithmetic of the interpreter (\<open>f_to_u\<close>, \<open>u_to_f\<close> and the C operators applied between
  them) on IEEE 754 binary32 bit patterns, rounding to nearest even, each operator rounded
  separately as the source writes it. A finite value is an integer multiple of
  \<open>2\<^sup>-\<^sup>1\<^sup>4\<^sup>9\<close>, so every operation is exact integer arithmetic followed by one
  rounding. What C and IEEE leave to the implementation is a record of parameters: the bit
  pattern of a NaN result, the transcendental functions of the C library, and \<open>rand\<close>.
\<close>

record fpu =
  fp_nan :: "u32 \<Rightarrow> u32 \<Rightarrow> u32"
  fp_sin :: "u32 \<Rightarrow> u32"
  fp_cos :: "u32 \<Rightarrow> u32"
  fp_exp2 :: "u32 \<Rightarrow> u32"
  fp_log2 :: "u32 \<Rightarrow> u32"
  c_rand :: "nat \<Rightarrow> u32"

section \<open>Fields and values\<close>

definition f32_neg_bit :: "u32 \<Rightarrow> bool" where
  "f32_neg_bit x \<longleftrightarrow> 2 ^ 31 \<le> uint x"

definition f32_exp :: "u32 \<Rightarrow> int" where
  "f32_exp x = uint x div 2 ^ 23 mod 2 ^ 8"

definition f32_frac :: "u32 \<Rightarrow> int" where
  "f32_frac x = uint x mod 2 ^ 23"

definition f32_is_nan :: "u32 \<Rightarrow> bool" where
  "f32_is_nan x \<longleftrightarrow> f32_exp x = 255 \<and> f32_frac x \<noteq> 0"

definition f32_is_inf :: "u32 \<Rightarrow> bool" where
  "f32_is_inf x \<longleftrightarrow> f32_exp x = 255 \<and> f32_frac x = 0"

definition f32_finite :: "u32 \<Rightarrow> bool" where
  "f32_finite x \<longleftrightarrow> f32_exp x \<noteq> 255"

text \<open>
  One concrete host, used to instantiate the parameters in examples: the NaN rule of x86 SSE,
  the values of the C library at 0 and at 1 where they are exact, and the sample generator of the
  C standard for \<open>rand\<close>.
\<close>

definition sample_fpu :: fpu where
  "sample_fpu = \<lparr>
     fp_nan = (\<lambda>a b. if f32_is_nan a then a OR 0x00400000
                     else if f32_is_nan b then b OR 0x00400000 else 0xFFC00000),
     fp_sin = (\<lambda>x. if x = 0 then 0 else 0x3F000000),
     fp_cos = (\<lambda>x. if x = 0 then 0x3F800000 else 0x3F000000),
     fp_exp2 = (\<lambda>x. if x = 0 then 0x3F800000 else 0x40000000),
     fp_log2 = (\<lambda>x. if x = 0x3F800000 then 0 else 0x3F800000),
     c_rand = (\<lambda>n. drop_bit 16 (((\<lambda>s. s * 1103515245 + 12345) ^^ (n + 1)) 1) mod 32768) \<rparr>"

text \<open>The comparison \<open>b == 0.0f\<close>, true of both zeros.\<close>

definition f32_is_zero :: "u32 \<Rightarrow> bool" where
  "f32_is_zero x \<longleftrightarrow> f32_exp x = 0 \<and> f32_frac x = 0"

text \<open>Magnitude and signed value of a finite pattern, in units of \<open>2\<^sup>-\<^sup>1\<^sup>4\<^sup>9\<close>.\<close>

definition f32_mag :: "u32 \<Rightarrow> int" where
  "f32_mag x = (if f32_exp x = 0 then f32_frac x
                else (2 ^ 23 + f32_frac x) * 2 ^ nat (f32_exp x - 1))"

definition f32_val :: "u32 \<Rightarrow> int" where
  "f32_val x = (if f32_neg_bit x then - f32_mag x else f32_mag x)"

section \<open>Rounding\<close>

function bitlen :: "int \<Rightarrow> nat" where
  "bitlen n = (if n \<le> 0 then 0 else Suc (bitlen (n div 2)))"
  by auto
termination by (relation "measure nat") auto

declare bitlen.simps [simp del]

function isqrt :: "int \<Rightarrow> int" where
  "isqrt n = (if n \<le> 0 then 0
              else let r = 2 * isqrt (n div 4) in if (r + 1) * (r + 1) \<le> n then r + 1 else r)"
  by auto
termination by (relation "measure nat") auto

declare isqrt.simps [simp del]

text \<open>The integer nearest to \<open>a / b\<close>, ties to even.\<close>

definition rne :: "int \<Rightarrow> int \<Rightarrow> int" where
  "rne a b = (let q = a div b; r = a mod b in
     if 2 * r < b then q else if 2 * r > b then q + 1 else if even q then q else q + 1)"

definition f32_pack :: "bool \<Rightarrow> int \<Rightarrow> u32" where
  "f32_pack s b = word_of_int ((if s then 2 ^ 31 else 0) + b)"

definition f32_round :: "bool \<Rightarrow> int \<Rightarrow> int \<Rightarrow> u32" where
  "f32_round s n d =
     (let t = bitlen (n div d) - 24;
          b = int t * 2 ^ 23 + rne n (d * 2 ^ t)
      in f32_pack s (min b 0x7F800000))"

section \<open>Operations\<close>

definition f32_inf :: "bool \<Rightarrow> u32" where
  "f32_inf s = f32_pack s 0x7F800000"

definition f32_zero :: "bool \<Rightarrow> u32" where
  "f32_zero s = f32_pack s 0"

definition f32_one :: u32 where
  "f32_one = 0x3F800000"

definition f32_negate :: "u32 \<Rightarrow> u32" where
  "f32_negate x = x XOR 0x80000000"

definition f32_abs :: "u32 \<Rightarrow> u32" where
  "f32_abs x = x AND 0x7FFFFFFF"

definition f32_add :: "fpu \<Rightarrow> u32 \<Rightarrow> u32 \<Rightarrow> u32" where
  "f32_add fp a b =
     (if f32_is_nan a \<or> f32_is_nan b then fp_nan fp a b
      else if f32_is_inf a then
        (if f32_is_inf b \<and> f32_neg_bit a \<noteq> f32_neg_bit b then fp_nan fp a b else a)
      else if f32_is_inf b then b
      else let v = f32_val a + f32_val b in
        if v = 0 then f32_zero (f32_neg_bit a \<and> f32_neg_bit b) else f32_round (v < 0) \<bar>v\<bar> 1)"

definition f32_sub :: "fpu \<Rightarrow> u32 \<Rightarrow> u32 \<Rightarrow> u32" where
  "f32_sub fp a b =
     (if f32_is_nan a \<or> f32_is_nan b then fp_nan fp a b else f32_add fp a (f32_negate b))"

definition f32_mul :: "fpu \<Rightarrow> u32 \<Rightarrow> u32 \<Rightarrow> u32" where
  "f32_mul fp a b =
     (let s = (f32_neg_bit a \<noteq> f32_neg_bit b) in
      if f32_is_nan a \<or> f32_is_nan b then fp_nan fp a b
      else if f32_is_inf a \<or> f32_is_inf b then
        (if f32_is_zero a \<or> f32_is_zero b then fp_nan fp a b else f32_inf s)
      else f32_round s (f32_mag a * f32_mag b) (2 ^ 149))"

definition f32_div :: "fpu \<Rightarrow> u32 \<Rightarrow> u32 \<Rightarrow> u32" where
  "f32_div fp a b =
     (let s = (f32_neg_bit a \<noteq> f32_neg_bit b) in
      if f32_is_nan a \<or> f32_is_nan b then fp_nan fp a b
      else if f32_is_inf a then (if f32_is_inf b then fp_nan fp a b else f32_inf s)
      else if f32_is_inf b then f32_zero s
      else if f32_is_zero b then (if f32_is_zero a then fp_nan fp a b else f32_inf s)
      else f32_round s (f32_mag a * 2 ^ 149) (f32_mag b))"

definition f32_sqrt :: "fpu \<Rightarrow> u32 \<Rightarrow> u32" where
  "f32_sqrt fp a =
     (if f32_is_nan a then fp_nan fp a a
      else if f32_is_zero a then a
      else if f32_neg_bit a then fp_nan fp a a
      else if f32_is_inf a then a
      else let n = f32_mag a * 2 ^ 149; r = isqrt n in
        f32_round False (2 * r + (if r * r = n then 0 else 1)) 2)"

definition f32_lt :: "u32 \<Rightarrow> u32 \<Rightarrow> bool" where
  "f32_lt a b \<longleftrightarrow> \<not> f32_is_nan a \<and> \<not> f32_is_nan b \<and> f32_val a < f32_val b"

text \<open>An \<open>int8_t\<close> operand promoted and converted to \<open>float\<close>.\<close>

definition f32_of_int8 :: "u8 \<Rightarrow> u32" where
  "f32_of_int8 w = f32_round (sint w < 0) (\<bar>sint w\<bar> * 2 ^ 149) 1"

section \<open>Facts\<close>

lemma uint_u32_range: "0 \<le> uint (x :: u32)" "uint (x :: u32) < 2 ^ 32"
  using uint_bounded [of x] by auto

lemma f32_exp_range: "0 \<le> f32_exp x" "f32_exp x < 256"
  by (auto simp: f32_exp_def)

lemma f32_frac_range: "0 \<le> f32_frac x" "f32_frac x < 2 ^ 23"
  by (auto simp: f32_frac_def)

lemma mod_256_split: "(0 :: int) \<le> y \<Longrightarrow> y < 512 \<Longrightarrow> y = (if 256 \<le> y then 256 else 0) + y mod 256"
  using mod_pos_pos_trivial [of y 256] mod_pos_pos_trivial [of "y - 256" 256] minus_mod_self2 [of y 256]
  by (cases "256 \<le> y") simp_all

lemma f32_fields: "uint x = (if f32_neg_bit x then 2 ^ 31 else 0) + f32_exp x * 2 ^ 23 + f32_frac x"
proof -
  define y where "y = uint x div 2 ^ 23"
  have u: "uint x = y * 2 ^ 23 + f32_frac x" by (simp add: y_def f32_frac_def)
  have y: "0 \<le> y" "y < 512"
    using uint_u32_range [of x] by (auto simp: y_def pos_imp_zdiv_nonneg_iff)
  have s: "f32_neg_bit x \<longleftrightarrow> 256 \<le> y"
    using u by (auto simp: f32_neg_bit_def y_def)
  have e: "f32_exp x = y mod 256" by (simp add: f32_exp_def y_def)
  have "y = (if 256 \<le> y then 256 else 0) + f32_exp x" using mod_256_split [OF y] e by simp
  then have "y * 2 ^ 23 = (if 256 \<le> y then 2 ^ 31 else 0) + f32_exp x * 2 ^ 23" by (auto split: if_splits)
  then show ?thesis unfolding s using u by linarith
qed

lemma f32_pack_fields: "f32_pack (f32_neg_bit x) (f32_exp x * 2 ^ 23 + f32_frac x) = x"
proof -
  have "word_of_int (uint x) = x" by simp
  then show ?thesis by (simp add: f32_pack_def f32_fields [of x] add.assoc split del: if_split)
qed

lemma bitlen_unique:
  assumes "2 ^ k \<le> n" "n < 2 ^ Suc k"
  shows "bitlen n = Suc k"
  using assms
proof (induction k arbitrary: n)
  case 0
  then have "n = 1" by simp
  then show ?case by (simp add: bitlen.simps [of 1] bitlen.simps [of 0])
next
  case (Suc k)
  then have "2 ^ k \<le> n div 2" "n div 2 < 2 ^ Suc k" by auto
  then have "bitlen (n div 2) = Suc k" by (rule Suc.IH)
  moreover have "0 < n" using Suc.prems(1) by (smt (verit) zero_less_power)
  ultimately show ?case by (simp add: bitlen.simps [of n])
qed

lemma bitlen_le:
  assumes "0 \<le> n" "n < 2 ^ k"
  shows "bitlen n \<le> k"
  using assms
proof (induction k arbitrary: n)
  case 0
  then show ?case by (simp add: bitlen.simps [of n])
next
  case (Suc k)
  then have "bitlen (n div 2) \<le> k" by (intro Suc.IH) auto
  then show ?case by (simp add: bitlen.simps [of n])
qed

lemma rne_exact: "0 < b \<Longrightarrow> rne (q * b) b = q"
  by (simp add: rne_def Let_def)

text \<open>Rounding a value that has a pattern gives the pattern back.\<close>

lemma f32_round_mag:
  assumes "f32_finite x"
  shows "f32_round (f32_neg_bit x) (f32_mag x) 1 = x"
proof (cases "f32_exp x = 0")
  case True
  then have mag: "f32_mag x = f32_frac x" by (simp add: f32_mag_def)
  have "bitlen (f32_mag x) \<le> 23"
    using mag f32_frac_range [of x] by (intro bitlen_le) auto
  then have t: "bitlen (f32_mag x) - 24 = 0" by simp
  have "rne (f32_mag x) 1 = f32_mag x" using rne_exact [of 1 "f32_mag x"] by simp
  then show ?thesis
    using f32_pack_fields [of x] True mag f32_frac_range [of x]
    by (simp add: f32_round_def Let_def t [unfolded mag] min_def)
next
  case False
  define e where "e = nat (f32_exp x - 1)"
  have e: "f32_exp x = int e + 1" using False f32_exp_range [of x] by (simp add: e_def)
  have e254: "e < 254" using assms f32_exp_range [of x] e by (simp add: f32_finite_def)
  let ?m = "2 ^ 23 + f32_frac x"
  have mag: "f32_mag x = ?m * 2 ^ e" using False by (simp add: f32_mag_def e_def)
  have m: "2 ^ 23 \<le> ?m" "?m < 2 ^ 24" using f32_frac_range [of x] by auto
  have "bitlen (f32_mag x) = Suc (23 + e)"
  proof (rule bitlen_unique)
    show "2 ^ (23 + e) \<le> f32_mag x"
      unfolding mag power_add using m(1) by (intro mult_right_mono) auto
    have "?m * 2 ^ e < 2 ^ 24 * 2 ^ e" using m(2) by (intro mult_strict_right_mono) auto
    then show "f32_mag x < 2 ^ Suc (23 + e)" unfolding mag by (simp add: power_add)
  qed
  then have t: "bitlen (f32_mag x) - 24 = e" by simp
  have r: "rne (f32_mag x) (2 ^ e) = ?m" unfolding mag by (rule rne_exact) simp
  have b: "int e * 2 ^ 23 + ?m = f32_exp x * 2 ^ 23 + f32_frac x" by (simp add: e algebra_simps)
  have "f32_exp x * 2 ^ 23 + f32_frac x \<le> 0x7F800000"
    using e e254 f32_frac_range [of x] by simp
  then show ?thesis
    using f32_pack_fields [of x] unfolding f32_round_def Let_def
    by (simp only: div_by_1 t mult_1 r b min_absorb1)
qed

lemma f32_mag_nonneg: "0 \<le> f32_mag x"
  using f32_frac_range [of x] by (simp add: f32_mag_def)

lemma f32_mag_zero: "f32_mag x = 0 \<longleftrightarrow> f32_is_zero x"
  using f32_frac_range [of x] by (auto simp: f32_mag_def f32_is_zero_def add_nonneg_eq_0_iff)

lemma f32_not_finite: "\<not> f32_is_nan x \<Longrightarrow> \<not> f32_is_inf x \<Longrightarrow> f32_finite x"
  by (auto simp: f32_is_nan_def f32_is_inf_def f32_finite_def)

lemma f32_round_val:
  assumes "f32_finite x" "\<not> f32_is_zero x"
  shows "f32_round (f32_val x < 0) \<bar>f32_val x\<bar> 1 = x"
  using f32_round_mag [OF assms(1)] f32_mag_nonneg [of x] f32_mag_zero [of x] assms(2)
  by (cases "f32_neg_bit x") (auto simp: f32_val_def less_le)

lemma f32_zero_fields:
  "f32_neg_bit 0 = False" "f32_exp 0 = 0" "f32_frac 0 = 0" "f32_val 0 = 0" "f32_mag 0 = 0"
  by (simp_all add: f32_neg_bit_def f32_exp_def f32_frac_def f32_val_def f32_mag_def)

text \<open>Adding the integer constant 0, converted to \<open>float\<close>, to a register.\<close>

lemma f32_add_pos_zero:
  assumes "\<not> f32_is_nan x"
  shows "f32_add fp x 0 = (if x = 0x80000000 then 0 else x)"
proof (cases "f32_is_inf x")
  case True
  then have "x \<noteq> 0x80000000" by (auto simp: f32_is_inf_def f32_exp_def)
  then show ?thesis using True assms
    by (simp add: f32_add_def f32_is_nan_def f32_is_inf_def f32_zero_fields)
next
  case False
  then have fin: "f32_finite x" using assms f32_not_finite by blast
  have add: "f32_add fp x 0 = (if f32_val x = 0 then f32_zero False
      else f32_round (f32_val x < 0) \<bar>f32_val x\<bar> 1)"
    using False assms by (simp add: f32_add_def f32_is_nan_def f32_is_inf_def f32_zero_fields Let_def)
  show ?thesis
  proof (cases "f32_is_zero x")
    case True
    then have "x = (if f32_neg_bit x then 0x80000000 else 0)"
      using f32_pack_fields [of x] by (auto simp: f32_is_zero_def f32_pack_def)
    moreover have "f32_val x = 0" using True f32_mag_zero [of x] by (simp add: f32_val_def)
    ultimately show ?thesis using add by (auto simp: f32_zero_def f32_pack_def split: if_splits)
  next
    case nz: False
    then have "x \<noteq> 0x80000000" by (auto simp: f32_is_zero_def f32_exp_def f32_frac_def)
    moreover have "f32_val x \<noteq> 0" using nz f32_mag_zero [of x] by (simp add: f32_val_def)
    ultimately show ?thesis using add f32_round_val [OF fin nz] by simp
  qed
qed

lemma f32_of_int8_zero: "f32_of_int8 0 = 0"
  by (simp add: f32_of_int8_def f32_round_def bitlen.simps [of 0] rne_def f32_pack_def Let_def)

lemma f32_add_commute:
  assumes "\<not> f32_is_nan a" "\<not> f32_is_nan b" "\<And>x y. fp_nan fp x y = fp_nan fp y x"
  shows "f32_add fp a b = f32_add fp b a"
proof -
  have "a = b" if "f32_is_inf a" "f32_is_inf b" "f32_neg_bit a = f32_neg_bit b"
    using that f32_pack_fields [of a] f32_pack_fields [of b] by (simp add: f32_is_inf_def)
  then show ?thesis using assms
    by (auto simp: f32_add_def Let_def add.commute conj_commute)
qed

end
