(* ===== verification/Bvrt.thy ===== *)
theory Bvrt
  imports Bvbc Float32
begin

text \<open>
  The reference interpreter \<open>bradvector/bvrt.c\<close> with its header \<open>include/brad/bvrt.h\<close>: the warp and
  device state, one function per instruction class of \<open>execute_insn\<close>, the single step, the run
  loop and the device management.

  A lane body is run for the enabled lanes 0 to 31 in order. Its outcome is undefined behaviour
  (an array or memory access out of bounds), a trap that leaves the loop, a branch that leaves the
  switch with the PC set, or normal completion.
\<close>

section \<open>State\<close>

record bvrt_warp =
  w_pc :: u32
  w_active :: u32
  w_s :: "nat \<Rightarrow> nat \<Rightarrow> u32"
  w_v :: "nat \<Rightarrow> nat \<Rightarrow> nat \<Rightarrow> u32"
  w_p :: "nat \<Rightarrow> nat \<Rightarrow> u32"
  w_ret :: "nat \<Rightarrow> nat \<Rightarrow> u32"
  w_retsp :: "nat \<Rightarrow> u8"
  w_cycles :: u32

text \<open>\<open>d_code\<close> is the resolved instruction stream; \<open>d_rand\<close> counts the calls of \<open>rand\<close>.\<close>

record bvrt_device =
  d_img :: bvbc_image
  d_warp :: bvrt_warp
  d_mem :: "nat \<Rightarrow> u8"
  d_mem_size :: u64
  d_insns :: u64
  d_status :: bv_status
  d_code :: "u64 list"
  d_rand :: nat

abbreviation (input) BVRT_MAX_MEM :: u64 where "BVRT_MAX_MEM \<equiv> 0x4000000"

abbreviation (input) BVRT_MAX_RET :: nat where "BVRT_MAX_RET \<equiv> 16"

datatype 'd lane_res = Undef | Trapped 'd | Broke 'd | Go 'd

definition lane_active :: "bvrt_warp \<Rightarrow> nat \<Rightarrow> bool" where
  "lane_active w lane \<longleftrightarrow> bit (w_active w) lane"

text \<open>\<open>P0..P15\<close> are selected by the values 1 to 16; a larger field reads outside the array.\<close>

definition pred_ok :: "bvrt_device \<Rightarrow> nat \<Rightarrow> u8 \<Rightarrow> bool option" where
  "pred_ok dev lane pred =
     (if pred = 0 then Some True
      else if BV_PRED_REGS \<le> unat pred - 1 then None
      else Some (w_p (d_warp dev) lane (unat pred - 1) \<noteq> 0))"

definition bvrt_trap :: "bvrt_device \<Rightarrow> bvrt_device lane_res" where
  "bvrt_trap dev = Trapped (dev\<lparr> d_status := BV_TRAP \<rparr>)"

definition sreg :: "bvrt_device \<Rightarrow> nat \<Rightarrow> u8 \<Rightarrow> u32" where
  "sreg dev lane reg = w_s (d_warp dev) lane (unat reg)"

definition wr_s :: "bvrt_device \<Rightarrow> nat \<Rightarrow> u8 \<Rightarrow> u32 \<Rightarrow> bvrt_device" where
  "wr_s dev lane reg v =
     (if reg \<noteq> 0
      then dev\<lparr> d_warp := (d_warp dev)\<lparr> w_s := (w_s (d_warp dev))
             (lane := (w_s (d_warp dev) lane)(unat reg := v)) \<rparr> \<rparr>
      else dev)"

definition wr_p :: "bvrt_device \<Rightarrow> nat \<Rightarrow> nat \<Rightarrow> u32 \<Rightarrow> bvrt_device" where
  "wr_p dev lane reg v =
     dev\<lparr> d_warp := (d_warp dev)\<lparr> w_p := (w_p (d_warp dev))
       (lane := (w_p (d_warp dev) lane)(reg := v)) \<rparr> \<rparr>"

definition vreg :: "bvrt_device \<Rightarrow> nat \<Rightarrow> u8 \<Rightarrow> nat \<Rightarrow> u32" where
  "vreg dev lane reg li = w_v (d_warp dev) lane (unat reg) li"

definition wr_v :: "bvrt_device \<Rightarrow> nat \<Rightarrow> u8 \<Rightarrow> nat \<Rightarrow> u32 \<Rightarrow> bvrt_device" where
  "wr_v dev lane reg li v =
     dev\<lparr> d_warp := (d_warp dev)\<lparr> w_v := (w_v (d_warp dev))
       (lane := (w_v (d_warp dev) lane)
         (unat reg := (w_v (d_warp dev) lane (unat reg))(li := v))) \<rparr> \<rparr>"

definition set_pc :: "bvrt_device \<Rightarrow> u32 \<Rightarrow> bvrt_device" where
  "set_pc dev pc = dev\<lparr> d_warp := (d_warp dev)\<lparr> w_pc := pc \<rparr> \<rparr>"

section \<open>Lane loops\<close>

text \<open>\<open>for (l = 0; l < 32; l++) if (lane_active(w, l) && pred_ok(dev, l, in.pred)) body\<close>\<close>

definition lane_step ::
  "(nat \<Rightarrow> bvrt_device \<Rightarrow> bvrt_device lane_res) \<Rightarrow> u8 \<Rightarrow> nat \<Rightarrow> bvrt_device \<Rightarrow> bvrt_device lane_res" where
  "lane_step body pred l dev =
     (if lane_active (d_warp dev) l
      then case pred_ok dev l pred of
             None \<Rightarrow> Undef | Some True \<Rightarrow> body l dev | Some False \<Rightarrow> Go dev
      else Go dev)"

fun lane_loop ::
  "(nat \<Rightarrow> 'd \<Rightarrow> 'd lane_res) \<Rightarrow> nat list \<Rightarrow> 'd \<Rightarrow> 'd lane_res" where
  "lane_loop f [] dev = Go dev"
| "lane_loop f (l # ls) dev = (case f l dev of Go dev' \<Rightarrow> lane_loop f ls dev' | r \<Rightarrow> r)"

definition each_lane ::
  "u8 \<Rightarrow> (nat \<Rightarrow> bvrt_device \<Rightarrow> bvrt_device lane_res) \<Rightarrow> bvrt_device \<Rightarrow> bvrt_device lane_res" where
  "each_lane pred body dev = lane_loop (lane_step body pred) [0..<BV_WARP_SIZE] dev"

text \<open>A lane writes one scalar register, computed from its own scalar registers.\<close>

definition scalar_lane ::
  "bv_insn \<Rightarrow> ((u8 \<Rightarrow> u32) \<Rightarrow> u32) \<Rightarrow> nat \<Rightarrow> bvrt_device \<Rightarrow> bvrt_device lane_res" where
  "scalar_lane i g l dev = Go (wr_s dev l (i_dst i) (g (sreg dev l)))"

section \<open>Floating-point ALU\<close>

fun alu_value :: "fpu \<Rightarrow> alu_op \<Rightarrow> bv_insn \<Rightarrow> (u8 \<Rightarrow> u32) \<Rightarrow> u32" where
  "alu_value fp BV_OP_ADD i r = f32_add fp (r (i_src1 i)) (r (i_src2 i))"
| "alu_value fp BV_OP_ADDi i r = f32_add fp (r (i_src1 i)) (f32_of_int8 (i_imm i))"
| "alu_value fp BV_OP_SUB i r = f32_sub fp (r (i_src1 i)) (r (i_src2 i))"
| "alu_value fp BV_OP_MUL i r = f32_mul fp (r (i_src1 i)) (r (i_src2 i))"
| "alu_value fp BV_OP_MAD i r = f32_add fp (f32_mul fp (r (i_src1 i)) (r (i_src2 i))) (r (i_dst i))"
| "alu_value fp BV_OP_DIV i r = (let a = r (i_src1 i); b = r (i_src2 i) in
     if f32_is_zero b then 0xFFFFFFFF else f32_div fp a b)"
| "alu_value fp BV_OP_SQRT i r = f32_sqrt fp (r (i_src1 i))"
| "alu_value fp BV_OP_RSQRT i r = f32_div fp f32_one (f32_sqrt fp (r (i_src1 i)))"
| "alu_value fp BV_OP_MIN i r = (let a = r (i_src1 i); b = r (i_src2 i) in if f32_lt a b then a else b)"
| "alu_value fp BV_OP_MAX i r = (let a = r (i_src1 i); b = r (i_src2 i) in if f32_lt b a then a else b)"
| "alu_value fp BV_OP_ABS i r = f32_abs (r (i_src1 i))"
| "alu_value fp BV_OP_NEG i r = f32_negate (r (i_src1 i))"
| "alu_value fp BV_OP_CMP i r = 0"
| "alu_value fp BV_OP_SEL i r = 0"

fun cmp_holds :: "bv_cmp_cond \<Rightarrow> u32 \<Rightarrow> u32 \<Rightarrow> bool" where
  "cmp_holds BV_CC_EQ a b = (a = b)"
| "cmp_holds BV_CC_NE a b = (a \<noteq> b)"
| "cmp_holds BV_CC_LT a b = (a < b)"
| "cmp_holds BV_CC_GT a b = (b < a)"
| "cmp_holds BV_CC_LE a b = (a \<le> b)"
| "cmp_holds BV_CC_GE a b = (b \<le> a)"

text \<open>\<open>CMP\<close> compares the raw registers and writes the predicate \<open>dst\<close>, undefined from 16 on.\<close>

definition cmp_lane :: "bv_insn \<Rightarrow> nat \<Rightarrow> bvrt_device \<Rightarrow> bvrt_device lane_res" where
  "cmp_lane i l dev =
     (if BV_PRED_REGS \<le> unat (i_dst i) then Undef
      else Go (wr_p dev l (unat (i_dst i))
        (if cmp_holds (cmp_cond_of_flags (i_flags i)) (sreg dev l (i_src1 i)) (sreg dev l (i_src2 i))
         then 1 else 0)))"

definition sel_lane :: "bv_insn \<Rightarrow> nat \<Rightarrow> bvrt_device \<Rightarrow> bvrt_device lane_res" where
  "sel_lane i l dev =
     (let c = (i_pred i \<noteq> 0 \<and> w_p (d_warp dev) l (unat (i_pred i) - 1) \<noteq> 0) in
      Go (wr_s dev l (i_dst i) (if c then sreg dev l (i_src1 i) else sreg dev l (i_src2 i))))"

definition exec_alu :: "fpu \<Rightarrow> alu_op \<Rightarrow> bv_insn \<Rightarrow> bvrt_device \<Rightarrow> bvrt_device lane_res" where
  "exec_alu fp c i dev = each_lane (i_pred i)
     (case c of BV_OP_CMP \<Rightarrow> cmp_lane i | BV_OP_SEL \<Rightarrow> sel_lane i
      | _ \<Rightarrow> scalar_lane i (alu_value fp c i)) dev"

section \<open>Integer ALU\<close>

definition popc_loop :: "u32 \<Rightarrow> u32" where
  "popc_loop v = fold (\<lambda>bit c. c + (drop_bit bit v AND 1)) [0..<32] 0"

function clz_loop :: "u32 \<Rightarrow> nat \<Rightarrow> nat" where
  "clz_loop v c = (if c < 32 \<and> v AND push_bit 31 1 = 0 then clz_loop (push_bit 1 v) (c + 1) else c)"
  by auto
termination by (relation "measure (\<lambda>(v, c). 32 - c)") auto

declare clz_loop.simps [simp del]

definition bfind_loop :: "u32 \<Rightarrow> int" where
  "bfind_loop v = fold (\<lambda>bit idx. if v AND push_bit bit 1 \<noteq> 0 then int bit else idx) [0..<32] (-1)"

fun int_value :: "int_op \<Rightarrow> bv_insn \<Rightarrow> (u8 \<Rightarrow> u32) \<Rightarrow> u32" where
  "int_value BV_OP_IADD i r = r (i_src1 i) + r (i_src2 i)"
| "int_value BV_OP_ISUB i r = r (i_src1 i) - r (i_src2 i)"
| "int_value BV_OP_IMUL i r = r (i_src1 i) * r (i_src2 i)"
| "int_value BV_OP_IDIV i r = (let b = r (i_src2 i) in if b = 0 then 0xFFFFFFFF else r (i_src1 i) div b)"
| "int_value BV_OP_IMAD i r = r (i_src1 i) * r (i_src2 i) + r (i_dst i)"
| "int_value BV_OP_POPC i r = popc_loop (r (i_src1 i))"
| "int_value BV_OP_CLZ i r = of_nat (clz_loop (r (i_src1 i)) 0)"
| "int_value BV_OP_BFIND i r = of_int (bfind_loop (r (i_src1 i)))"
| "int_value BV_OP_SHL i r = push_bit (unat (r (i_src2 i) AND 31)) (r (i_src1 i))"
| "int_value BV_OP_SHR i r = drop_bit (unat (r (i_src2 i) AND 31)) (r (i_src1 i))"
| "int_value BV_OP_AND i r = r (i_src1 i) AND r (i_src2 i)"
| "int_value BV_OP_OR i r = r (i_src1 i) OR r (i_src2 i)"
| "int_value BV_OP_XOR i r = r (i_src1 i) XOR r (i_src2 i)"
| "int_value BV_OP_NOT i r = NOT (r (i_src1 i))"

definition exec_int :: "int_op \<Rightarrow> bv_insn \<Rightarrow> bvrt_device \<Rightarrow> bvrt_device lane_res" where
  "exec_int c i dev = each_lane (i_pred i) (scalar_lane i (int_value c i)) dev"

section \<open>Vector unit\<close>

text \<open>\<open>for (li = 0; li < 16; li++) VRD(dev, l, in.dst, li) = val\<close>, each value read when its
  turn comes.\<close>

definition vec_loop :: "u8 \<Rightarrow> (bvrt_device \<Rightarrow> nat \<Rightarrow> u32) \<Rightarrow> nat \<Rightarrow> bvrt_device \<Rightarrow> bvrt_device" where
  "vec_loop dst val l dev = fold (\<lambda>li d. wr_v d l dst li (val d li)) [0..<BV_VEC_LANES] dev"

definition vdot_sum :: "fpu \<Rightarrow> bv_insn \<Rightarrow> nat \<Rightarrow> bvrt_device \<Rightarrow> u32" where
  "vdot_sum fp i l dev = fold (\<lambda>li acc. f32_add fp acc
     (f32_mul fp (vreg dev l (i_src1 i) li) (vreg dev l (i_src2 i) li))) [0..<BV_VEC_LANES] 0"

fun vreduce_value :: "fpu \<Rightarrow> bv_reduce_op \<Rightarrow> (nat \<Rightarrow> u32) \<Rightarrow> u32" where
  "vreduce_value fp BV_RED_MAX v = fold (\<lambda>li m. if m < v li then v li else m) [1..<BV_VEC_LANES] 0"
| "vreduce_value fp BV_RED_MIN v =
     fold (\<lambda>li m. if v li < m then v li else m) [0..<BV_VEC_LANES] 0xFFFFFFFF"
| "vreduce_value fp BV_RED_SUM v = fold (\<lambda>li acc. f32_add fp acc (v li)) [0..<BV_VEC_LANES] 0"

fun vec_update :: "fpu \<Rightarrow> vec_op \<Rightarrow> bv_insn \<Rightarrow> nat \<Rightarrow> bvrt_device \<Rightarrow> bvrt_device" where
  "vec_update fp BV_OP_VADD i l dev = vec_loop (i_dst i)
     (\<lambda>d li. f32_add fp (vreg d l (i_src1 i) li) (vreg d l (i_src2 i) li)) l dev"
| "vec_update fp BV_OP_VMUL i l dev = vec_loop (i_dst i)
     (\<lambda>d li. f32_mul fp (vreg d l (i_src1 i) li) (vreg d l (i_src2 i) li)) l dev"
| "vec_update fp BV_OP_VMAD i l dev = vec_loop (i_dst i)
     (\<lambda>d li. f32_add fp (f32_mul fp (vreg d l (i_src1 i) li) (vreg d l (i_src2 i) li))
       (vreg d l (i_dst i) li)) l dev"
| "vec_update fp BV_OP_VDOT i l dev = (let acc = vdot_sum fp i l dev in
     vec_loop (i_dst i) (\<lambda>d li. if li = 0 then acc else 0) l dev)"
| "vec_update fp BV_OP_VBROADCAST i l dev = vec_loop (i_dst i) (\<lambda>d li. sreg d l (i_src1 i)) l dev"
| "vec_update fp BV_OP_VREDUCE i l dev = wr_v dev l (i_dst i) 0
     (vreduce_value fp (reduce_op_of_flags (i_flags i)) (vreg dev l (i_dst i)))"
| "vec_update fp _ i l dev = dev"

text \<open>The vector registers an instruction touches; a number from 64 on is outside the file.\<close>

fun vec_regs_used :: "vec_op \<Rightarrow> bv_insn \<Rightarrow> u8 list" where
  "vec_regs_used BV_OP_VBROADCAST i = [i_dst i]"
| "vec_regs_used BV_OP_VREDUCE i = [i_dst i]"
| "vec_regs_used _ i = [i_dst i, i_src1 i, i_src2 i]"

definition vec_lane :: "fpu \<Rightarrow> vec_op \<Rightarrow> bv_insn \<Rightarrow> nat \<Rightarrow> bvrt_device \<Rightarrow> bvrt_device lane_res" where
  "vec_lane fp c i l dev =
     (if list_all (\<lambda>r. unat r < BV_VEC_REGS) (vec_regs_used c i) then Go (vec_update fp c i l dev)
      else Undef)"

definition exec_vec :: "fpu \<Rightarrow> vec_op \<Rightarrow> bv_insn \<Rightarrow> bvrt_device \<Rightarrow> bvrt_device lane_res" where
  "exec_vec fp c i dev =
     (if c \<in> {BV_OP_VCROSS, BV_OP_MMUL, BV_OP_MMUL_B, BV_OP_VSHUFFLE} then bvrt_trap dev
      else each_lane (i_pred i) (vec_lane fp c i) dev)"

section \<open>Memory\<close>

text \<open>\<open>(size_t)(int32_t)w->s[l][in.src1] + in.imm\<close>, modulo the size of an address.\<close>

definition lane_addr :: "bv_insn \<Rightarrow> nat \<Rightarrow> bvrt_device \<Rightarrow> u64" where
  "lane_addr i l dev = sext32 (sreg dev l (i_src1 i)) + sext8_64 (i_imm i)"

definition in_bounds :: "bvrt_device \<Rightarrow> u64 \<Rightarrow> nat \<Rightarrow> bool" where
  "in_bounds dev addr n \<longleftrightarrow> unat addr + n \<le> unat (d_mem_size dev)"

definition mem_rd32 :: "bvrt_device \<Rightarrow> nat \<Rightarrow> u32" where
  "mem_rd32 dev a = le_word32 [d_mem dev a, d_mem dev (a + 1), d_mem dev (a + 2), d_mem dev (a + 3)]"

fun poke :: "(nat \<Rightarrow> u8) \<Rightarrow> nat \<Rightarrow> u8 list \<Rightarrow> nat \<Rightarrow> u8" where
  "poke m a [] = m"
| "poke m a (b # bs) = poke (m(a := b)) (a + 1) bs"

definition mem_wr32 :: "bvrt_device \<Rightarrow> nat \<Rightarrow> u32 \<Rightarrow> bvrt_device" where
  "mem_wr32 dev a v = dev\<lparr> d_mem := poke (d_mem dev) a (le_bytes32 v) \<rparr>"

text \<open>
  The code's bounds check is \<open>addr + n > dev->mem_size\<close> in 64-bit arithmetic; an access it lets
  through that is not within the memory is undefined.
\<close>

definition checked_access ::
  "nat \<Rightarrow> bv_insn \<Rightarrow> nat \<Rightarrow> (nat \<Rightarrow> bvrt_device) \<Rightarrow> bvrt_device \<Rightarrow> bvrt_device lane_res" where
  "checked_access n i l act dev =
     (let addr = lane_addr i l dev in
      if d_mem_size dev < addr + of_nat n then bvrt_trap dev
      else if \<not> in_bounds dev addr n then Undef
      else Go (act (unat addr)))"

definition load_lane :: "bv_insn \<Rightarrow> nat \<Rightarrow> bvrt_device \<Rightarrow> bvrt_device lane_res" where
  "load_lane i l dev = checked_access 4 i l (\<lambda>a. wr_s dev l (i_dst i) (mem_rd32 dev a)) dev"

text \<open>\<open>LOADV\<close> passes \<open>in.dst * 16 + li\<close> to a \<open>uint8_t\<close> parameter and writes scalar registers.\<close>

definition loadv_lane :: "bv_insn \<Rightarrow> nat \<Rightarrow> bvrt_device \<Rightarrow> bvrt_device lane_res" where
  "loadv_lane i l dev = checked_access (BV_VEC_LANES * 4) i l
     (\<lambda>a. fold (\<lambda>li d. wr_s d l (i_dst i * 16 + of_nat li) (mem_rd32 d (a + li * 4)))
        [0..<BV_VEC_LANES] dev) dev"

definition store_lane :: "bv_insn \<Rightarrow> nat \<Rightarrow> bvrt_device \<Rightarrow> bvrt_device lane_res" where
  "store_lane i l dev = checked_access 4 i l (\<lambda>a. mem_wr32 dev a (sreg dev l (i_dst i))) dev"

text \<open>The vector register is only read once the bounds check has passed.\<close>

definition storev_lane :: "bv_insn \<Rightarrow> nat \<Rightarrow> bvrt_device \<Rightarrow> bvrt_device lane_res" where
  "storev_lane i l dev =
     (if lane_addr i l dev + of_nat (BV_VEC_LANES * 4) \<le> d_mem_size dev \<and> BV_VEC_REGS \<le> unat (i_dst i)
      then Undef
      else checked_access (BV_VEC_LANES * 4) i l
        (\<lambda>a. fold (\<lambda>li d. mem_wr32 d (a + li * 4) (vreg d l (i_dst i) li)) [0..<BV_VEC_LANES] dev) dev)"

definition atomic_add_lane :: "bv_insn \<Rightarrow> nat \<Rightarrow> bvrt_device \<Rightarrow> bvrt_device lane_res" where
  "atomic_add_lane i l dev = checked_access 4 i l
     (\<lambda>a. let old = mem_rd32 dev a in
        wr_s (mem_wr32 dev a (old + sreg dev l (i_src2 i))) l (i_dst i) old) dev"

fun exec_mem :: "mem_op \<Rightarrow> bv_insn \<Rightarrow> bvrt_device \<Rightarrow> bvrt_device lane_res" where
  "exec_mem BV_OP_LOAD i dev = each_lane (i_pred i) (load_lane i) dev"
| "exec_mem BV_OP_LOADV i dev = each_lane (i_pred i) (loadv_lane i) dev"
| "exec_mem BV_OP_STORE i dev = each_lane (i_pred i) (store_lane i) dev"
| "exec_mem BV_OP_STOREV i dev = each_lane (i_pred i) (storev_lane i) dev"
| "exec_mem BV_OP_ATOMIC_ADD i dev = each_lane (i_pred i) (atomic_add_lane i) dev"
| "exec_mem _ i dev = bvrt_trap dev"

section \<open>Control flow\<close>

text \<open>
  \<open>(uint32_t)((int32_t)w->pc + 1 + in.imm)\<close>: signed additions, undefined on overflow.
\<close>

definition branch_target :: "u32 \<Rightarrow> u8 \<Rightarrow> u32 option" where
  "branch_target pc imm =
     (let t = sint pc + 1; t' = t + sint imm in
      if t < 2 ^ 31 \<and> t' < 2 ^ 31 \<and> - (2 ^ 31) \<le> t' then Some (of_int t') else None)"

definition take_branch :: "bv_insn \<Rightarrow> bvrt_device \<Rightarrow> bvrt_device lane_res" where
  "take_branch i dev = (case branch_target (w_pc (d_warp dev)) (i_imm i) of
     None \<Rightarrow> Undef | Some t \<Rightarrow> Broke (set_pc dev t))"

definition push_ret :: "nat \<Rightarrow> bvrt_device \<Rightarrow> bvrt_device" where
  "push_ret l dev = (let w = d_warp dev in
     dev\<lparr> d_warp := w\<lparr>
       w_ret := (w_ret w)(l := (w_ret w l)(unat (w_retsp w l) := w_pc w + 1)),
       w_retsp := (w_retsp w)(l := w_retsp w l + 1) \<rparr> \<rparr>)"

definition pop_ret :: "nat \<Rightarrow> bvrt_device \<Rightarrow> bvrt_device" where
  "pop_ret l dev = (let w = d_warp dev; sp = w_retsp w l - 1 in
     dev\<lparr> d_warp := w\<lparr> w_retsp := (w_retsp w)(l := sp), w_pc := w_ret w l (unat sp) \<rparr> \<rparr>)"

definition call_lane :: "nat \<Rightarrow> bvrt_device \<Rightarrow> bvrt_device lane_res" where
  "call_lane l dev =
     (if BVRT_MAX_RET \<le> unat (w_retsp (d_warp dev) l) then bvrt_trap dev else Go (push_ret l dev))"

text \<open>\<open>RET\<close> ignores the predicate; every active lane pops, the last one decides the PC.\<close>

definition ret_lane :: "nat \<Rightarrow> bvrt_device \<Rightarrow> bvrt_device lane_res" where
  "ret_lane l dev =
     (if \<not> lane_active (d_warp dev) l then Go dev
      else if w_retsp (d_warp dev) l = 0 then bvrt_trap dev
      else if BVRT_MAX_RET \<le> unat (w_retsp (d_warp dev) l - 1) then Undef
      else Go (pop_ret l dev))"

fun exec_ctl :: "ctl_op \<Rightarrow> bv_insn \<Rightarrow> bvrt_device \<Rightarrow> bvrt_device lane_res" where
  "exec_ctl BV_OP_BR i dev = each_lane (i_pred i) (\<lambda>l. take_branch i) dev"
| "exec_ctl BV_OP_BR_COND i dev = each_lane (i_pred i) (\<lambda>l. take_branch i) dev"
| "exec_ctl BV_OP_CALL i dev =
     (case each_lane (i_pred i) call_lane dev of Go dev' \<Rightarrow> take_branch i dev' | r \<Rightarrow> r)"
| "exec_ctl BV_OP_RET i dev =
     (case lane_loop ret_lane [0..<BV_WARP_SIZE] dev of Go dev' \<Rightarrow> Broke dev' | r \<Rightarrow> r)"
| "exec_ctl BV_OP_BAR i dev = Go dev"
| "exec_ctl BV_OP_BAR_CLUSTER i dev = Go dev"
| "exec_ctl BV_OP_EXIT i dev = Go (dev\<lparr> d_warp := (d_warp dev)\<lparr> w_active := 0 \<rparr> \<rparr>)"
| "exec_ctl BV_OP_TRAP i dev = bvrt_trap dev"

section \<open>Special functions\<close>

definition rand_lane :: "fpu \<Rightarrow> bv_insn \<Rightarrow> nat \<Rightarrow> bvrt_device \<Rightarrow> bvrt_device lane_res" where
  "rand_lane fp i l dev = Go (wr_s (dev\<lparr> d_rand := d_rand dev + 1 \<rparr>) l (i_dst i)
     (c_rand fp (d_rand dev) XOR (w_pc (d_warp dev) * 2654435761)))"

fun sfu_value :: "fpu \<Rightarrow> sfu_op \<Rightarrow> bv_insn \<Rightarrow> nat \<Rightarrow> u32 \<Rightarrow> (u8 \<Rightarrow> u32) \<Rightarrow> u32" where
  "sfu_value fp BV_OP_RCP i l cyc r = f32_div fp f32_one (r (i_src1 i))"
| "sfu_value fp BV_OP_SIN i l cyc r = fp_sin fp (r (i_src1 i))"
| "sfu_value fp BV_OP_COS i l cyc r = fp_cos fp (r (i_src1 i))"
| "sfu_value fp BV_OP_EXP2 i l cyc r = fp_exp2 fp (r (i_src1 i))"
| "sfu_value fp BV_OP_LOG2 i l cyc r = fp_log2 fp (r (i_src1 i))"
| "sfu_value fp BV_OP_LANE_ID i l cyc r = of_nat l"
| "sfu_value fp BV_OP_WARP_SZ i l cyc r = of_nat BV_WARP_SIZE"
| "sfu_value fp BV_OP_CLOCK i l cyc r = cyc"
| "sfu_value fp BV_OP_RAND i l cyc r = 0"

definition exec_sfu :: "fpu \<Rightarrow> sfu_op \<Rightarrow> bv_insn \<Rightarrow> bvrt_device \<Rightarrow> bvrt_device lane_res" where
  "exec_sfu fp c i dev = each_lane (i_pred i)
     (case c of BV_OP_RAND \<Rightarrow> rand_lane fp i
      | _ \<Rightarrow> \<lambda>l d. scalar_lane i (sfu_value fp c i l (w_cycles (d_warp d))) l d) dev"

section \<open>One instruction\<close>

definition exec_class :: "fpu \<Rightarrow> bv_opcode \<Rightarrow> bv_insn \<Rightarrow> bvrt_device \<Rightarrow> bvrt_device lane_res" where
  "exec_class fp opc i dev = (case opc of
       OP_ALU c \<Rightarrow> exec_alu fp c i dev
     | OP_INT c \<Rightarrow> exec_int c i dev
     | OP_VEC c \<Rightarrow> exec_vec fp c i dev
     | OP_MEM c \<Rightarrow> exec_mem c i dev
     | OP_CTL c \<Rightarrow> exec_ctl c i dev
     | OP_SFU c \<Rightarrow> exec_sfu fp c i dev
     | OP_RT c \<Rightarrow> bvrt_trap dev
     | OP_NS c \<Rightarrow> bvrt_trap dev)"

definition advance :: "bvrt_device \<Rightarrow> bvrt_device" where
  "advance dev = dev\<lparr> d_warp := (d_warp dev)\<lparr> w_pc := w_pc (d_warp dev) + 1,
     w_cycles := w_cycles (d_warp dev) + 1 \<rparr> \<rparr>"

text \<open>
  The switch and what follows it: a taken branch returns at once, other instructions advance the PC
  and count a cycle. \<open>None\<close> is undefined behaviour.
\<close>

definition execute_insn :: "fpu \<Rightarrow> bvrt_device \<Rightarrow> bv_insn \<Rightarrow> (bv_status \<times> bvrt_device) option" where
  "execute_insn fp dev i =
     (case (case opcode_of_byte (i_op i) of
              None \<Rightarrow> bvrt_trap dev | Some opc \<Rightarrow> exec_class fp opc i dev) of
        Undef \<Rightarrow> None
      | Trapped d \<Rightarrow> Some (BV_TRAP, d)
      | Broke d \<Rightarrow> Some (BV_OK, d)
      | Go d \<Rightarrow> Some (BV_OK, advance d))"

definition bvrt_step :: "fpu \<Rightarrow> bvrt_device \<Rightarrow> (bv_status \<times> bvrt_device) option" where
  "bvrt_step fp dev =
     (let pc = w_pc (d_warp dev) in
      if w_active (d_warp dev) = 0 then Some (BV_HALT, dev)
      else if sint pc < 0 then Some (BV_TRAP, dev\<lparr> d_status := BV_TRAP \<rparr>)
      else if img_ninsn (d_img dev) \<le> unat pc then Some (BV_TRAP, dev\<lparr> d_status := BV_TRAP \<rparr>)
      else if length (d_code dev) \<le> unat pc then None
      else execute_insn fp (dev\<lparr> d_insns := d_insns dev + 1 \<rparr>) (bv_decode (d_code dev ! unat pc)))"

section \<open>Device invariants\<close>

fun res_all :: "('d \<Rightarrow> bool) \<Rightarrow> 'd lane_res \<Rightarrow> bool" where
  "res_all P Undef \<longleftrightarrow> True"
| "res_all P (Trapped d) \<longleftrightarrow> P d"
| "res_all P (Broke d) \<longleftrightarrow> P d"
| "res_all P (Go d) \<longleftrightarrow> P d"

lemma lane_loop_inv:
  assumes "\<And>l d. l \<in> set ls \<Longrightarrow> P d \<Longrightarrow> res_all P (f l d)" "P d"
  shows "res_all P (lane_loop f ls d)"
  using assms
proof (induction ls arbitrary: d)
  case (Cons l ls)
  then have "res_all P (f l d)" by simp
  then show ?case using Cons by (cases "f l d") auto
qed simp

lemma each_lane_inv:
  assumes "\<And>l d. P d \<Longrightarrow> res_all P (body l d)" "P d"
  shows "res_all P (each_lane pred body d)"
  unfolding each_lane_def
  by (rule lane_loop_inv) (auto simp: lane_step_def assms split: option.splits bool.splits)

lemma fold_inv: "P d \<Longrightarrow> (\<And>x d. P d \<Longrightarrow> P (f x d)) \<Longrightarrow> P (fold f xs d)"
  by (induction xs arbitrary: d) auto

text \<open>
  What a predicate on devices must satisfy, one law per primitive state change of the interpreter,
  to be kept by every instruction: first the changes of registers, memory and status, which every
  loop over the lanes is made of, then those of the control flow.
\<close>

locale data_invariant =
  fixes I :: "bvrt_device \<Rightarrow> bool"
  assumes inv_wr_s: "I d \<Longrightarrow> I (wr_s d l r x)"
    and inv_wr_p: "I d \<Longrightarrow> I (wr_p d l k x)"
    and inv_wr_v: "I d \<Longrightarrow> I (wr_v d l r li x)"
    and inv_mem: "I d \<Longrightarrow> I (d\<lparr> d_mem := m \<rparr>)"
    and inv_status: "I d \<Longrightarrow> I (d\<lparr> d_status := st \<rparr>)"
    and inv_rand: "I d \<Longrightarrow> I (d\<lparr> d_rand := n \<rparr>)"
    and inv_push: "I d \<Longrightarrow> unat (w_retsp (d_warp d) l) < 16 \<Longrightarrow> I (push_ret l d)"
begin

lemma trap_keeps: "I d \<Longrightarrow> res_all I (bvrt_trap d)"
  by (simp add: bvrt_trap_def inv_status)

lemma mem_wr32_keeps: "I d \<Longrightarrow> I (mem_wr32 d a v)"
  by (simp add: mem_wr32_def inv_mem)

lemma fold_keeps: "I d \<Longrightarrow> (\<And>x d. I d \<Longrightarrow> I (f x d)) \<Longrightarrow> I (fold f xs d)"
  by (rule fold_inv [where P = I])

lemma access_keeps: "I d \<Longrightarrow> (\<And>a. I (act a)) \<Longrightarrow> res_all I (checked_access n i l act d)"
  by (simp add: checked_access_def Let_def trap_keeps)

lemma alu_keeps: "I d \<Longrightarrow> res_all I (exec_alu fp c i d)"
  unfolding exec_alu_def
  by (rule each_lane_inv)
     (auto simp: scalar_lane_def cmp_lane_def sel_lane_def Let_def inv_wr_s inv_wr_p split: alu_op.splits)

lemma int_keeps: "I d \<Longrightarrow> res_all I (exec_int c i d)"
  unfolding exec_int_def by (rule each_lane_inv) (auto simp: scalar_lane_def inv_wr_s)

lemma vec_update_keeps: "I d \<Longrightarrow> I (vec_update fp c i l d)"
  by (cases c) (auto simp: vec_loop_def Let_def inv_wr_v intro: fold_keeps)

lemma vec_keeps: "I d \<Longrightarrow> res_all I (exec_vec fp c i d)"
  unfolding exec_vec_def by (auto intro!: each_lane_inv simp: trap_keeps vec_lane_def vec_update_keeps)

lemma mem_lane_keeps:
  assumes "I d"
  shows "res_all I (load_lane i l d)" "res_all I (loadv_lane i l d)" "res_all I (store_lane i l d)"
    "res_all I (storev_lane i l d)" "res_all I (atomic_add_lane i l d)"
  unfolding load_lane_def loadv_lane_def store_lane_def storev_lane_def atomic_add_lane_def Let_def
  using assms by (auto intro!: access_keeps fold_keeps inv_wr_s mem_wr32_keeps)

lemma mem_keeps: "I d \<Longrightarrow> res_all I (exec_mem c i d)"
  by (cases c) (simp_all add: each_lane_inv mem_lane_keeps trap_keeps)

lemma sfu_keeps: "I d \<Longrightarrow> res_all I (exec_sfu fp c i d)"
  unfolding exec_sfu_def
  by (rule each_lane_inv)
     (auto simp: scalar_lane_def rand_lane_def inv_wr_s inv_rand split: sfu_op.splits)

lemma call_lanes_keep: "I d \<Longrightarrow> res_all I (each_lane p call_lane d)"
  by (rule each_lane_inv) (auto simp: call_lane_def trap_keeps inv_push)

end

locale device_invariant = data_invariant +
  assumes inv_pc: "I d \<Longrightarrow> I (set_pc d pc)"
    and inv_pop: "I d \<Longrightarrow> w_retsp (d_warp d) l \<noteq> 0 \<Longrightarrow> I (pop_ret l d)"
    and inv_exit: "I d \<Longrightarrow> I (d\<lparr> d_warp := (d_warp d)\<lparr> w_active := 0 \<rparr> \<rparr>)"
    and inv_advance: "I d \<Longrightarrow> I (advance d)"
begin

lemma branch_keeps: "I d \<Longrightarrow> res_all I (take_branch i d)"
  by (simp add: take_branch_def inv_pc split: option.splits)

lemma call_keeps: "I d \<Longrightarrow> res_all I (exec_ctl BV_OP_CALL i d)"
  using call_lanes_keep [of d "i_pred i"]
  by (cases "each_lane (i_pred i) call_lane d") (auto simp: branch_keeps)

lemma ret_keeps: "I d \<Longrightarrow> res_all I (exec_ctl BV_OP_RET i d)"
proof -
  assume "I d"
  then have "res_all I (lane_loop ret_lane [0..<32] d)"
    by (intro lane_loop_inv) (auto simp: ret_lane_def trap_keeps inv_pop)
  then show ?thesis by (cases "lane_loop ret_lane [0..<32] d") auto
qed

lemma ctl_keeps: "I d \<Longrightarrow> res_all I (exec_ctl c i d)"
  using call_keeps ret_keeps
  by (cases c) (auto intro!: each_lane_inv simp: branch_keeps trap_keeps inv_exit)

lemma class_keeps: "I d \<Longrightarrow> res_all I (exec_class fp opc i d)"
  by (cases opc) (simp_all add: exec_class_def alu_keeps int_keeps vec_keeps mem_keeps ctl_keeps
      sfu_keeps trap_keeps)

lemma execute_keeps:
  assumes "I d" "execute_insn fp d i = Some (st, d')"
  shows "I d'"
proof -
  let ?r = "case opcode_of_byte (i_op i) of None \<Rightarrow> bvrt_trap d | Some opc \<Rightarrow> exec_class fp opc i d"
  have "res_all I ?r" using assms(1) by (simp add: trap_keeps class_keeps split: option.splits)
  then show ?thesis using assms(2)
    by (cases ?r) (auto simp: execute_insn_def inv_advance)
qed

lemma step_keeps:
  assumes "\<And>n. I (d\<lparr> d_insns := n \<rparr>)" "I d" "bvrt_step fp d = Some (st, d')"
  shows "I d'"
  using assms execute_keeps [OF assms(1)]
  by (fastforce simp: bvrt_step_def Let_def inv_status split: if_splits)

end

lemmas dev_update_defs = wr_s_def wr_p_def wr_v_def set_pc_def push_ret_def pop_ret_def advance_def Let_def

text \<open>The instruction counter is only moved by the step itself.\<close>

interpretation counter: device_invariant "\<lambda>d. d_insns d = n" for n
  by unfold_locales (auto simp: dev_update_defs)

text \<open>No loop over the lanes moves the PC.\<close>

interpretation fixed_pc: data_invariant "\<lambda>d. w_pc (d_warp d) = pc" for pc
  by unfold_locales (auto simp: dev_update_defs)

text \<open>Image, code and memory size never change while the kernel runs.\<close>

definition same_program :: "bvrt_device \<Rightarrow> bvrt_device \<Rightarrow> bool" where
  "same_program d0 d \<longleftrightarrow> d_img d = d_img d0 \<and> d_code d = d_code d0 \<and> d_mem_size d = d_mem_size d0"

interpretation program: device_invariant "same_program d0" for d0
  by unfold_locales (auto simp: dev_update_defs same_program_def)

text \<open>The zero register reads 0 in every lane and no return stack exceeds its array.\<close>

definition warp_ok :: "bvrt_device \<Rightarrow> bool" where
  "warp_ok d \<longleftrightarrow> (\<forall>l. w_s (d_warp d) l 0 = 0) \<and> (\<forall>l. unat (w_retsp (d_warp d) l) \<le> BVRT_MAX_RET)"

lemma unat_add_1_le: "unat (x :: u8) < 16 \<Longrightarrow> unat (x + 1) \<le> 16"
  by (simp add: unat_word_ariths)

lemma unat_sub_1_le: "x \<noteq> 0 \<Longrightarrow> unat (x :: u8) \<le> 16 \<Longrightarrow> unat (x - 1) \<le> 16"
  by (metis unat_minus_one diff_le_self le_trans)

interpretation warp: device_invariant warp_ok
  by unfold_locales
     (auto simp: dev_update_defs warp_ok_def unsigned_eq_0_iff intro: unat_add_1_le unat_sub_1_le)

lemma execute_counts: "execute_insn fp d i = Some (st, d') \<Longrightarrow> d_insns d' = d_insns d"
  by (rule counter.execute_keeps) simp

lemma step_ok_counts: "bvrt_step fp d = Some (BV_OK, d') \<Longrightarrow> d_insns d' = d_insns d + 1"
  by (auto simp: bvrt_step_def Let_def dest!: execute_counts split: if_splits)

section \<open>Running\<close>

lemma run_measure: "(n :: u64) < m \<Longrightarrow> unat (m - (n + 1)) < unat (m - n)"
proof -
  assume a: "n < m"
  then have "m - n \<noteq> 0" by auto
  then have "unat (m - n - 1) = unat (m - n) - 1" "unat (m - n) \<noteq> 0"
    by (simp_all only: unat_minus_one unat_eq_zero not_False_eq_True)
  then have "unat (m - n - 1) < unat (m - n)" by linarith
  then show ?thesis by (simp add: algebra_simps)
qed

text \<open>
  The loop runs while lanes are active and the budget is not used up; every instruction that
  completes counts, so it ends. \<open>None\<close> is undefined behaviour of an instruction.
\<close>

function bvrt_run :: "fpu \<Rightarrow> bvrt_device \<Rightarrow> u64 \<Rightarrow> (bv_status \<times> bvrt_device) option" where
  "bvrt_run fp dev max_insns =
     (if w_active (d_warp dev) \<noteq> 0 \<and> d_insns dev < max_insns then
        case bvrt_step fp dev of None \<Rightarrow> None
        | Some (st, dev') \<Rightarrow> if st \<noteq> BV_OK then Some (st, dev') else bvrt_run fp dev' max_insns
      else if w_active (d_warp dev) = 0 then Some (BV_HALT, dev)
      else Some (BV_TIMEOUT, dev))"
  by pat_completeness auto

termination
  by (relation "measure (\<lambda>(fp, dev, m). unat (m - d_insns dev))")
     (auto dest!: step_ok_counts simp: run_measure)

declare bvrt_run.simps [simp del]

section \<open>Device management\<close>

definition zero_warp :: bvrt_warp where
  "zero_warp = \<lparr> w_pc = 0, w_active = 0, w_s = (\<lambda>_ _. 0), w_v = (\<lambda>_ _ _. 0), w_p = (\<lambda>_ _. 0),
     w_ret = (\<lambda>_ _. 0), w_retsp = (\<lambda>_. 0), w_cycles = 0 \<rparr>"

text \<open>\<open>heap\<close> is what the uninitialised memory of \<open>malloc\<close> holds; the flags tell which of the two
  allocations succeed.\<close>

definition bvrt_create :: "bool \<Rightarrow> bool \<Rightarrow> (nat \<Rightarrow> u8) \<Rightarrow> u64 \<Rightarrow> bvrt_device option" where
  "bvrt_create calloc_ok malloc_ok heap mem_bytes =
     (let n = (if mem_bytes = 0 then 1 else mem_bytes);
          n = (if BVRT_MAX_MEM < n then BVRT_MAX_MEM else n) in
      if \<not> calloc_ok \<or> \<not> malloc_ok then None
      else Some \<lparr> d_img = zero_image\<lparr> img_version := BVBC_VERSION \<rparr>, d_warp = zero_warp, d_mem = heap,
        d_mem_size = n, d_insns = 0, d_status = BV_OK, d_code = [], d_rand = 0 \<rparr>)"

definition bvrt_load :: "bvrt_device option \<Rightarrow> bvbc_image option \<Rightarrow> int \<times> bvrt_device option" where
  "bvrt_load dev img = (case (dev, img) of
       (Some d, Some i) \<Rightarrow> (0, Some (d\<lparr> d_img := i, d_code := img_insns i \<rparr>))
     | _ \<Rightarrow> (-1, dev))"

definition bvrt_reset :: "bvrt_device \<Rightarrow> bvrt_device" where
  "bvrt_reset dev = dev\<lparr> d_warp := zero_warp, d_insns := 0, d_status := BV_OK \<rparr>"

text \<open>The argument words are read from the caller's array; a short array is undefined.\<close>

definition bvrt_launch :: "bvrt_device \<Rightarrow> string \<Rightarrow> u32 list \<Rightarrow> u32 \<Rightarrow> (int \<times> bvrt_device) option" where
  "bvrt_launch dev kname args nargs =
     (let ki = bvbc_find_kernel (d_img dev) kname in
      if ki < 0 then Some (-1, dev)
      else let k = img_kernels (d_img dev) ! nat ki; d = bvrt_reset dev;
               n = (if of_nat BV_S_NUM_ARGS < nargs then BV_S_NUM_ARGS else unat nargs) in
        if length args < n then None
        else Some (0, d\<lparr> d_warp := (d_warp d)\<lparr> w_pc := k_entry k, w_active := 0xFFFFFFFF,
          w_s := (\<lambda>l r. if l < BV_WARP_SIZE \<and> r = BV_S_THREAD_ID then of_nat l
                        else if l < BV_WARP_SIZE \<and> BV_S_ARG_BASE \<le> r \<and> r < BV_S_ARG_BASE + n
                        then args ! (r - BV_S_ARG_BASE) else 0) \<rparr> \<rparr>))"

end
