(* ===== verification/BvrtSimt.thy ===== *)
theory BvrtSimt
  imports Bvrt
begin

text \<open>
  The interpreter runs the lanes of a warp one after the other. This theory gives the meaning of
  the instructions that touch only the registers of their own lane as a function on one lane, and
  shows that the sequential loops of the interpreter apply it to all enabled lanes at once.
\<close>

section \<open>Sequential lanes as a parallel update\<close>

text \<open>
  A state with one cell per lane: writing a cell leaves the others, what enables the other
  lanes, and the part shared by all lanes unchanged.
\<close>

locale lanes =
  fixes view :: "'d \<Rightarrow> nat \<Rightarrow> 'r" and put :: "nat \<Rightarrow> 'r \<Rightarrow> 'd \<Rightarrow> 'd"
    and shared :: "'d \<Rightarrow> 'c" and live :: "'c \<Rightarrow> nat \<Rightarrow> 'r \<Rightarrow> bool"
  assumes view_put: "view (put l r d) m = (if m = l then r else view d m)"
    and shared_put: "shared (put l r d) = shared d"
begin

definition lane_body :: "('c \<Rightarrow> nat \<Rightarrow> 'r \<Rightarrow> 'r) \<Rightarrow> nat \<Rightarrow> 'd \<Rightarrow> 'd lane_res" where
  "lane_body f l d =
     Go (if live (shared d) l (view d l) then put l (f (shared d) l (view d l)) d else d)"

lemma loop_parallel:
  assumes "distinct ls"
  shows "\<exists>d'. lane_loop (lane_body f) ls d = Go d' \<and> shared d' = shared d \<and>
    (\<forall>m. view d' m = (if m \<in> set ls \<and> live (shared d) m (view d m)
                      then f (shared d) m (view d m) else view d m))"
  using assms
proof (induction ls arbitrary: d)
  case Nil
  then show ?case by simp
next
  case (Cons l ls)
  define d1 where "d1 = (if live (shared d) l (view d l) then put l (f (shared d) l (view d l)) d else d)"
  have d1: "lane_body f l d = Go d1" "shared d1 = shared d"
    "view d1 m = (if m = l \<and> live (shared d) l (view d l) then f (shared d) l (view d l) else view d m)" for m
    by (auto simp: d1_def lane_body_def view_put shared_put)
  obtain d' where d': "lane_loop (lane_body f) ls d1 = Go d'" "shared d' = shared d1"
    "\<forall>m. view d' m = (if m \<in> set ls \<and> live (shared d1) m (view d1 m)
                      then f (shared d1) m (view d1 m) else view d1 m)"
    using Cons.IH [of d1] Cons.prems by auto
  show ?case
    by (rule exI [of _ d']) (use d1 d' Cons.prems in auto)
qed

end

section \<open>The registers of a lane\<close>

type_synonym lane_regs = "(nat \<Rightarrow> u32) \<times> (nat \<Rightarrow> u32) \<times> (nat \<Rightarrow> nat \<Rightarrow> u32)"

definition lane_view :: "bvrt_device \<Rightarrow> nat \<Rightarrow> lane_regs" where
  "lane_view d l = (w_s (d_warp d) l, w_p (d_warp d) l, w_v (d_warp d) l)"

definition lane_put :: "nat \<Rightarrow> lane_regs \<Rightarrow> bvrt_device \<Rightarrow> bvrt_device" where
  "lane_put l r d = (case r of (s, p, v) \<Rightarrow>
     d\<lparr> d_warp := (d_warp d)\<lparr> w_s := (w_s (d_warp d))(l := s), w_p := (w_p (d_warp d))(l := p),
       w_v := (w_v (d_warp d))(l := v) \<rparr> \<rparr>)"

text \<open>Everything of a device but the lane registers.\<close>

definition without_regs :: "bvrt_device \<Rightarrow> bvrt_device" where
  "without_regs d = d\<lparr> d_warp := (d_warp d)\<lparr> w_s := \<lambda>_ _. 0, w_p := \<lambda>_ _. 0, w_v := \<lambda>_ _ _. 0 \<rparr> \<rparr>"

definition lane_enabled :: "u8 \<Rightarrow> bvrt_device \<Rightarrow> nat \<Rightarrow> lane_regs \<Rightarrow> bool" where
  "lane_enabled pred d l r \<longleftrightarrow> lane_active (d_warp d) l \<and> (pred = 0 \<or> fst (snd r) (unat pred - 1) \<noteq> 0)"

interpretation warp_lanes: lanes lane_view lane_put without_regs "lane_enabled pred" for pred
  by unfold_locales (auto simp: lane_view_def lane_put_def without_regs_def split: prod.splits)

lemma without_regs_simps [simp]:
  "lane_active (d_warp (without_regs d)) l = lane_active (d_warp d) l"
  "w_cycles (d_warp (without_regs d)) = w_cycles (d_warp d)"
  "w_pc (d_warp (without_regs d)) = w_pc (d_warp d)"
  by (simp_all add: without_regs_def lane_active_def)

section \<open>Meaning of the lane-local instructions\<close>

fun set_s :: "u8 \<Rightarrow> u32 \<Rightarrow> lane_regs \<Rightarrow> lane_regs" where
  "set_s r x (s, p, v) = (if r = 0 then s else s(unat r := x), p, v)"

fun set_p :: "u8 \<Rightarrow> u32 \<Rightarrow> lane_regs \<Rightarrow> lane_regs" where
  "set_p r x (s, p, v) = (s, p(unat r := x), v)"

fun set_v :: "u8 \<Rightarrow> (nat \<Rightarrow> u32) \<Rightarrow> lane_regs \<Rightarrow> lane_regs" where
  "set_v r f (s, p, v) = (s, p, v(unat r := (\<lambda>li. if li < BV_VEC_LANES then f li else v (unat r) li)))"

fun get_s :: "lane_regs \<Rightarrow> u8 \<Rightarrow> u32" where
  "get_s (s, p, v) r = s (unat r)"

fun get_v :: "lane_regs \<Rightarrow> u8 \<Rightarrow> nat \<Rightarrow> u32" where
  "get_v (s, p, v) r li = v (unat r) li"

fun vec_sem :: "fpu \<Rightarrow> vec_op \<Rightarrow> bv_insn \<Rightarrow> lane_regs \<Rightarrow> lane_regs" where
  "vec_sem fp BV_OP_VADD i r = set_v (i_dst i)
     (\<lambda>li. f32_add fp (get_v r (i_src1 i) li) (get_v r (i_src2 i) li)) r"
| "vec_sem fp BV_OP_VMUL i r = set_v (i_dst i)
     (\<lambda>li. f32_mul fp (get_v r (i_src1 i) li) (get_v r (i_src2 i) li)) r"
| "vec_sem fp BV_OP_VMAD i r = set_v (i_dst i)
     (\<lambda>li. f32_add fp (f32_mul fp (get_v r (i_src1 i) li) (get_v r (i_src2 i) li))
       (get_v r (i_dst i) li)) r"
| "vec_sem fp BV_OP_VDOT i r = set_v (i_dst i)
     (\<lambda>li. if li = 0 then fold (\<lambda>k acc. f32_add fp acc
         (f32_mul fp (get_v r (i_src1 i) k) (get_v r (i_src2 i) k))) [0..<BV_VEC_LANES] 0 else 0) r"
| "vec_sem fp BV_OP_VBROADCAST i r = set_v (i_dst i) (\<lambda>li. get_s r (i_src1 i)) r"
| "vec_sem fp BV_OP_VREDUCE i r = set_v (i_dst i) (\<lambda>li. if li = 0
     then vreduce_value fp (reduce_op_of_flags (i_flags i)) (get_v r (i_dst i)) else get_v r (i_dst i) li) r"
| "vec_sem fp _ i r = r"

definition lane_sem :: "fpu \<Rightarrow> bv_opcode \<Rightarrow> bv_insn \<Rightarrow> u32 \<Rightarrow> nat \<Rightarrow> lane_regs \<Rightarrow> lane_regs" where
  "lane_sem fp opc i cyc l r = (case opc of
     OP_ALU c \<Rightarrow>
       (if c = BV_OP_CMP then set_p (i_dst i)
          (if cmp_holds (cmp_cond_of_flags (i_flags i)) (get_s r (i_src1 i)) (get_s r (i_src2 i))
           then 1 else 0) r
        else if c = BV_OP_SEL
        then set_s (i_dst i) (if i_pred i \<noteq> 0 then get_s r (i_src1 i) else get_s r (i_src2 i)) r
        else set_s (i_dst i) (alu_value fp c i (get_s r)) r)
   | OP_INT c \<Rightarrow> set_s (i_dst i) (int_value c i (get_s r)) r
   | OP_VEC c \<Rightarrow> vec_sem fp c i r
   | OP_SFU c \<Rightarrow> set_s (i_dst i) (sfu_value fp c i l cyc (get_s r)) r
   | _ \<Rightarrow> r)"

text \<open>The opcodes that work on the registers of their lane only.\<close>

definition lane_local :: "bv_opcode \<Rightarrow> bool" where
  "lane_local opc = (case opc of
     OP_ALU c \<Rightarrow> True | OP_INT c \<Rightarrow> True
   | OP_VEC c \<Rightarrow> c \<notin> {BV_OP_VCROSS, BV_OP_MMUL, BV_OP_MMUL_B, BV_OP_VSHUFFLE}
   | OP_SFU c \<Rightarrow> c \<noteq> BV_OP_RAND | _ \<Rightarrow> False)"

text \<open>The register numbers of an instruction are inside the register files it uses.\<close>

definition insn_regs_ok :: "bv_opcode \<Rightarrow> bv_insn \<Rightarrow> bool" where
  "insn_regs_ok opc i \<longleftrightarrow> unat (i_pred i) \<le> BV_PRED_REGS \<and>
     (opc = OP_ALU BV_OP_CMP \<longrightarrow> unat (i_dst i) < BV_PRED_REGS) \<and>
     (case opc of OP_VEC c \<Rightarrow> list_all (\<lambda>r. unat r < BV_VEC_REGS) (vec_regs_used c i) | _ \<Rightarrow> True)"

section \<open>The lane bodies of the interpreter\<close>

lemma wr_s_lane: "wr_s d l r x = lane_put l (set_s r x (lane_view d l)) d"
  by (auto simp: wr_s_def lane_put_def lane_view_def)

lemma wr_p_lane: "wr_p d l (unat r) x = lane_put l (set_p r x (lane_view d l)) d"
  by (simp add: wr_p_def lane_put_def lane_view_def)

lemma sreg_lane: "sreg d l = get_s (lane_view d l)"
  by (rule ext) (simp add: sreg_def lane_view_def)

lemma vreg_lane: "vreg d l r = get_v (lane_view d l) r"
  by (rule ext) (simp add: vreg_def lane_view_def)

lemma vec_loop_lane_upto:
  assumes "n \<le> BV_VEC_LANES"
    and "\<And>li g. li < n \<Longrightarrow> (\<And>k. li \<le> k \<Longrightarrow> g k = w_v (d_warp dev) l (unat dst) k) \<Longrightarrow>
      val (lane_put l (w_s (d_warp dev) l, w_p (d_warp dev) l, (w_v (d_warp dev) l)(unat dst := g)) dev) li = f li"
  shows "fold (\<lambda>li d. wr_v d l dst li (val d li)) [0..<n] dev
    = lane_put l (w_s (d_warp dev) l, w_p (d_warp dev) l, (w_v (d_warp dev) l)
        (unat dst := (\<lambda>li. if li < n then f li else w_v (d_warp dev) l (unat dst) li))) dev"
  using assms
proof (induction n)
  case 0
  then show ?case by (simp add: lane_put_def)
next
  case (Suc n)
  let ?g = "\<lambda>li. if li < n then f li else w_v (d_warp dev) l (unat dst) li"
  let ?d = "lane_put l (w_s (d_warp dev) l, w_p (d_warp dev) l, (w_v (d_warp dev) l)(unat dst := ?g)) dev"
  have "val ?d n = f n" by (rule Suc.prems(2)) auto
  moreover have "fold (\<lambda>li d. wr_v d l dst li (val d li)) [0..<n] dev = ?d"
    by (rule Suc.IH) (use Suc.prems in auto)
  ultimately have "fold (\<lambda>li d. wr_v d l dst li (val d li)) [0..<Suc n] dev = wr_v ?d l dst n (f n)"
    by simp
  also have "\<dots> = lane_put l (w_s (d_warp dev) l, w_p (d_warp dev) l, (w_v (d_warp dev) l)
        (unat dst := ?g(n := f n))) dev"
    by (simp add: wr_v_def lane_put_def)
  also have "?g(n := f n) = (\<lambda>li. if li < Suc n then f li else w_v (d_warp dev) l (unat dst) li)"
    by (auto simp: less_Suc_eq)
  finally show ?case .
qed

lemma vec_loop_lane:
  assumes "\<And>li g. (\<And>k. li \<le> k \<Longrightarrow> g k = w_v (d_warp dev) l (unat dst) k) \<Longrightarrow>
      val (lane_put l (w_s (d_warp dev) l, w_p (d_warp dev) l, (w_v (d_warp dev) l)(unat dst := g)) dev) li = f li"
  shows "vec_loop dst val l dev = lane_put l (set_v dst f (lane_view dev l)) dev"
  unfolding vec_loop_def
  by (subst vec_loop_lane_upto [where f = f]) (use assms in \<open>auto simp: lane_view_def\<close>)

lemma wr_v_lane:
  "wr_v d l r 0 x = lane_put l (set_v r (\<lambda>li. if li = 0 then x else get_v (lane_view d l) r li) (lane_view d l)) d"
proof -
  have "(w_v (d_warp d) l (unat r))(0 := x) = (\<lambda>li. if li < 16 then if li = 0 then x
      else w_v (d_warp d) l (unat r) li else w_v (d_warp d) l (unat r) li)" by auto
  then show ?thesis by (simp add: wr_v_def lane_put_def lane_view_def cong: if_cong)
qed

lemma vec_update_lane: "vec_update fp c i l d = lane_put l (vec_sem fp c i (lane_view d l)) d"
proof (cases c)
  case BV_OP_VREDUCE
  then show ?thesis by (simp add: wr_v_lane vreg_lane)
next
  case BV_OP_VDOT
  then show ?thesis
    by (auto simp: Let_def vdot_sum_def vreg_lane intro!: vec_loop_lane)
qed (simp_all only: vec_update.simps vec_sem.simps; (rule vec_loop_lane)?;
     simp add: vreg_def sreg_def lane_put_def lane_view_def)+

lemma enabled_step:
  assumes "unat pred \<le> BV_PRED_REGS"
    and "\<And>d l. lane_enabled pred d l (lane_view d l) \<Longrightarrow> body l d = Go (lane_put l (f (without_regs d) l (lane_view d l)) d)"
  shows "lane_step body pred = warp_lanes.lane_body pred f"
proof (intro ext)
  fix l d
  have "pred \<noteq> 0 \<Longrightarrow> \<not> 16 \<le> unat pred - 1" using assms(1) by (simp add: unsigned_eq_0_iff [symmetric])
  then have "pred_ok d l pred = Some (pred = 0 \<or> w_p (d_warp d) l (unat pred - 1) \<noteq> 0)"
    by (simp add: pred_ok_def)
  moreover have en: "lane_enabled pred (without_regs d) l (lane_view d l) = lane_enabled pred d l (lane_view d l)"
    by (simp add: lane_enabled_def)
  ultimately show "lane_step body pred l d = warp_lanes.lane_body pred f l d"
    unfolding lane_step_def warp_lanes.lane_body_def en
    using assms(2) [of d l] by (auto simp: lane_enabled_def lane_view_def)
qed

text \<open>For every lane-local instruction the body of an enabled lane is its meaning.\<close>

lemma exec_class_body:
  assumes "lane_local opc" "insn_regs_ok opc i"
  shows "\<exists>body. exec_class fp opc i d = each_lane (i_pred i) body d \<and>
    (\<forall>d l. lane_enabled (i_pred i) d l (lane_view d l) \<longrightarrow>
      body l d = Go (lane_put l (lane_sem fp opc i (w_cycles (d_warp d)) l (lane_view d l)) d))"
proof (cases opc)
  case (OP_ALU c)
  then show ?thesis using assms(2)
    by (intro exI [of _ "case c of BV_OP_CMP \<Rightarrow> cmp_lane i | BV_OP_SEL \<Rightarrow> sel_lane i
      | _ \<Rightarrow> scalar_lane i (alu_value fp c i)"], cases c)
      (auto simp: exec_class_def exec_alu_def lane_sem_def scalar_lane_def cmp_lane_def sel_lane_def
        wr_s_lane wr_p_lane sreg_lane insn_regs_ok_def lane_enabled_def lane_view_def Let_def)
next
  case (OP_INT c)
  then show ?thesis
    by (intro exI [of _ "scalar_lane i (int_value c i)"])
      (auto simp: exec_class_def exec_int_def lane_sem_def scalar_lane_def wr_s_lane sreg_lane)
next
  case (OP_VEC c)
  then show ?thesis using assms
    by (intro exI [of _ "vec_lane fp c i"])
      (auto simp: exec_class_def exec_vec_def lane_local_def lane_sem_def vec_lane_def insn_regs_ok_def
        vec_update_lane)
next
  case (OP_SFU c)
  then show ?thesis using assms(1)
    by (intro exI [of _ "\<lambda>l d. scalar_lane i (sfu_value fp c i l (w_cycles (d_warp d))) l d"])
      (auto simp: exec_class_def exec_sfu_def lane_sem_def scalar_lane_def wr_s_lane sreg_lane
        lane_local_def split: sfu_op.splits)
qed (use assms(1) in \<open>auto simp: lane_local_def\<close>)

lemma exec_class_lanes:
  assumes "lane_local opc" "insn_regs_ok opc i"
  shows "exec_class fp opc i d = lane_loop
    (warp_lanes.lane_body (i_pred i) (\<lambda>c l. lane_sem fp opc i (w_cycles (d_warp c)) l)) [0..<BV_WARP_SIZE] d"
proof -
  obtain body where body: "exec_class fp opc i d = each_lane (i_pred i) body d"
    "\<And>d l. lane_enabled (i_pred i) d l (lane_view d l) \<Longrightarrow>
      body l d = Go (lane_put l (lane_sem fp opc i (w_cycles (d_warp (without_regs d))) l (lane_view d l)) d)"
    using exec_class_body [OF assms, of fp d] by auto
  have "lane_step body (i_pred i) = warp_lanes.lane_body (i_pred i)
      (\<lambda>c l. lane_sem fp opc i (w_cycles (d_warp c)) l)"
    by (rule enabled_step) (use assms(2) body(2) in \<open>auto simp: insn_regs_ok_def\<close>)
  then show ?thesis using body(1) by (simp add: each_lane_def)
qed

end
