(* ===== verification/BvrtProps.thy ===== *)
theory BvrtProps
  imports BvrtSimt
begin

text \<open>
  Properties of the interpreter: lock-step execution of the lane-local instructions, the integer
  bit operations against their specifications, memory access, undefined behaviour, the position of
  the PC at a trap, and the outcomes of the run loop.
\<close>

section \<open>Bit counting\<close>

lemma bit_AND_1: "(drop_bit k v AND 1 :: u32) = of_bool (bit v k)"
  by (simp add: and_one_eq mod_2_eq_odd bit_iff_odd_drop_bit)

lemma popc_upto: "fold (\<lambda>bit c. c + (drop_bit bit v AND 1)) [0..<n] 0 = (of_nat (card {k. k < n \<and> bit (v :: u32) k}) :: u32)"
proof (induction n)
  case 0
  then show ?case by simp
next
  case (Suc n)
  have fin: "finite {k. k < n \<and> bit v k}" by simp
  have "{k. k < Suc n \<and> bit v k} = (if bit v n then insert n {k. k < n \<and> bit v k} else {k. k < n \<and> bit v k})"
    by (auto simp: less_Suc_eq)
  then show ?case using Suc fin by (simp add: bit_AND_1)
qed

lemma bit_31_zero: "(v AND push_bit 31 1 = 0) \<longleftrightarrow> \<not> bit (v :: u32) 31"
  unfolding bit_iff_and_push_bit_not_eq_0 [of v 31] by blast

lemma clz_loop_spec:
  assumes "c \<le> 32" and "w = push_bit c v" and "\<And>k. 32 - c \<le> k \<Longrightarrow> \<not> bit (v :: u32) k"
  shows "clz_loop w c \<le> 32 \<and> (\<forall>k \<ge> 32 - clz_loop w c. \<not> bit v k) \<and>
    (clz_loop w c < 32 \<longrightarrow> bit v (31 - clz_loop w c))"
  using assms
proof (induction w c rule: clz_loop.induct)
  case (1 w c)
  show ?case
  proof (cases "c < 32 \<and> w AND push_bit 31 1 = 0")
    case True
    then have "\<not> bit w 31" unfolding bit_31_zero by simp
    then have nb: "\<not> bit v (31 - c)" using 1(3) True by (simp add: bit_push_bit_iff)
    have rest: "\<not> bit v k" if "32 - (c + 1) \<le> k" for k
    proof (cases "k = 31 - c")
      case False
      then show ?thesis using that 1(4) [of k] True by auto
    qed (simp add: nb)
    have sh: "push_bit 1 w = push_bit (c + 1) v" using 1(3) by (simp add: push_bit_push_bit)
    show ?thesis using 1(1) [OF True _ sh rest] True by (simp add: clz_loop.simps [of w c])
  next
    case False
    have cl: "clz_loop w c = c" by (subst clz_loop.simps) (simp only: False if_False)
    have "bit v (31 - c)" if "c < 32"
    proof -
      have "bit w 31" using False that unfolding bit_31_zero by simp
      then show ?thesis using 1(3) that by (simp add: bit_push_bit_iff)
    qed
    then show ?thesis using 1(2,4) cl by simp
  qed
qed

lemma bfind_upto:
  "(let r = fold (\<lambda>b idx. if v AND push_bit b 1 \<noteq> 0 then int b else idx) [0..<n] (-1) in
     if \<exists>k < n. bit (v :: u32) k then 0 \<le> r \<and> r < int n \<and> bit v (nat r) \<and> (\<forall>k < n. nat r < k \<longrightarrow> \<not> bit v k)
     else r = -1)"
  if "n \<le> 32"
  using that
proof (induction n)
  case 0
  then show ?case by simp
next
  case (Suc n)
  have "(v AND push_bit n 1 \<noteq> 0) = bit v n" by (simp only: bit_iff_and_push_bit_not_eq_0)
  then show ?case using Suc by (auto simp: Let_def less_Suc_eq split: if_splits)
qed

text \<open>The bit-counting instructions compute what they are named for: POPC the number of set bits,
  CLZ the number of zeros above the highest set bit (32 for 0) and BFIND the position of the highest
  set bit (all ones for 0).\<close>

theorem bit_instructions_spec:
  "int_value BV_OP_POPC i r = of_nat (card {k. bit (r (i_src1 i)) k}) \<and>
   (\<exists>c \<le> 32. int_value BV_OP_CLZ i r = of_nat c \<and> c = 32 - (if r (i_src1 i) = 0 then 0
      else Suc (Max {k. bit (r (i_src1 i)) k}))) \<and>
   int_value BV_OP_BFIND i r = (if r (i_src1 i) = 0 then 0xFFFFFFFF
      else of_nat (Max {k. bit (r (i_src1 i)) k}))"
proof -
  define v where "v = r (i_src1 i)"
  let ?S = "{k. bit v k}"
  have lt: "k < 32" if "bit v k" for k using bit_imp_le_length [OF that] by simp
  have fin: "finite ?S" by (rule finite_subset [of _ "{..<32}"]) (auto dest: lt)
  have zero: "v = 0 \<longleftrightarrow> (\<forall>k. \<not> bit v k)" using lt by (metis bit_eqI bit_0_eq bot_apply bot_bool_def)
  have "{k. k < 32 \<and> bit v k} = ?S" by (auto dest: lt)
  then have popc: "popc_loop v = of_nat (card ?S)" using popc_upto [of v 32] by (simp add: popc_loop_def)
  have clz: "clz_loop v 0 \<le> 32" "\<And>k. 32 - clz_loop v 0 \<le> k \<Longrightarrow> \<not> bit v k"
    "clz_loop v 0 < 32 \<Longrightarrow> bit v (31 - clz_loop v 0)"
    using clz_loop_spec [of 0 v v] lt by fastforce+
  have max: "Max ?S = m" if "bit v m" "\<And>k. m < k \<Longrightarrow> \<not> bit v k" for m
    using that fin by (intro Max_eqI) (auto simp: not_less [symmetric])
  have clz_max: "clz_loop v 0 = 32 - (if v = 0 then 0 else Suc (Max ?S))"
  proof (cases "clz_loop v 0 < 32")
    case True
    then have "v \<noteq> 0" "Max ?S = 31 - clz_loop v 0" using clz(2,3) max by auto
    then show ?thesis using True by simp
  next
    case False
    then have "v = 0" using clz by (auto simp: zero)
    then show ?thesis using False clz(1) by simp
  qed
  have bf: "bfind_loop v = (if v = 0 then -1 else int (Max ?S))"
  proof (cases "v = 0")
    case True
    then show ?thesis using bfind_upto [of 32 v] by (simp add: bfind_loop_def Let_def)
  next
    case False
    then have ex: "\<exists>k < 32. bit v k" using lt zero by blast
    then have "0 \<le> bfind_loop v" "bit v (nat (bfind_loop v))"
      "\<And>k. nat (bfind_loop v) < k \<Longrightarrow> \<not> bit v k"
      using bfind_upto [of 32 v] lt by (auto simp: bfind_loop_def Let_def)
    then show ?thesis using max [of "nat (bfind_loop v)"] False by simp
  qed
  show ?thesis using popc clz(1) clz_max bf unfolding v_def [symmetric]
    by (auto simp: v_def [symmetric])
qed

section \<open>Lock-step execution\<close>

lemma without_regs_advance: "without_regs (advance d) = advance (without_regs d)"
  by (simp add: without_regs_def advance_def)

lemma exec_class_parallel:
  assumes "lane_local opc" and "insn_regs_ok opc i"
  obtains d1 where "exec_class fp opc i d = Go d1" "without_regs d1 = without_regs d"
    "\<forall>m. lane_view d1 m = (if m < BV_WARP_SIZE \<and> lane_enabled (i_pred i) d m (lane_view d m)
       then lane_sem fp opc i (w_cycles (d_warp d)) m (lane_view d m) else lane_view d m)"
proof -
  have "lane_enabled p (without_regs d) = lane_enabled p d" for p
    by (simp add: lane_enabled_def fun_eq_iff)
  then show ?thesis
    using that warp_lanes.loop_parallel [of "[0..<32]" "i_pred i" "\<lambda>c l. lane_sem fp opc i (w_cycles (d_warp c)) l" d]
      exec_class_lanes [OF assms, of fp d]
    by auto
qed

text \<open>C2: An instruction that works on the registers of its own lane has the effect of applying its
  per-lane meaning to all enabled lanes simultaneously: the sequential loop over the lanes and the
  in-place loops over vector elements cannot be observed, disabled lanes keep their registers,
  and apart from the registers only the PC and the cycle counter move.\<close>

theorem execute_lane_local:
  assumes "opcode_of_byte (i_op i) = Some opc" and "lane_local opc" and "insn_regs_ok opc i"
  shows "\<exists>d'. execute_insn fp d i = Some (BV_OK, d') \<and> without_regs d' = without_regs (advance d) \<and>
    (\<forall>m. lane_view d' m = (if m < BV_WARP_SIZE \<and> lane_enabled (i_pred i) d m (lane_view d m)
       then lane_sem fp opc i (w_cycles (d_warp d)) m (lane_view d m) else lane_view d m))"
proof -
  obtain d1 where d1: "exec_class fp opc i d = Go d1" "without_regs d1 = without_regs d"
    "\<forall>m. lane_view d1 m = (if m < BV_WARP_SIZE \<and> lane_enabled (i_pred i) d m (lane_view d m)
       then lane_sem fp opc i (w_cycles (d_warp d)) m (lane_view d m) else lane_view d m)"
    by (rule exec_class_parallel [OF assms(2,3), of fp d])
  have adv: "without_regs (advance d1) = without_regs (advance d)"
    using d1(2) by (simp add: without_regs_advance)
  have view: "lane_view (advance d1) m = lane_view d1 m" for m by (simp add: lane_view_def advance_def)
  have "execute_insn fp d i = Some (BV_OK, advance d1)" using assms(1) d1(1) by (simp add: execute_insn_def)
  then show ?thesis using d1(3) adv unfolding view [symmetric] by blast
qed

text \<open>A device with one lane-indexed register, for concrete runs.\<close>

definition blank_device :: "u64 \<Rightarrow> bvrt_device" where
  "blank_device n = \<lparr> d_img = zero_image, d_warp = zero_warp\<lparr> w_active := 0xFFFFFFFF \<rparr>, d_mem = (\<lambda>_. 0),
     d_mem_size = n, d_insns = 0, d_status = BV_OK, d_code = [], d_rand = 0 \<rparr>"

theorem execute_lane_local_witness:
  "\<exists>d'. execute_insn sample_fpu (blank_device 64) (bv_decode (BVEN 0xF6 0 20 0 0 0 0 0)) = Some (BV_OK, d') \<and>
     fst (lane_view d' 7) 20 = 7"
proof -
  let ?i = "bv_decode (BVEN 0xF6 0 20 0 0 0 0 0)"
  have op: "opcode_of_byte (i_op ?i) = Some (OP_SFU BV_OP_LANE_ID)"
    by (simp add: decode_BVEN opcode_of_byte_Some)
  have en: "lane_enabled (i_pred ?i) (blank_device 64) 7 (lane_view (blank_device 64) 7)"
    by (simp add: decode_BVEN lane_enabled_def lane_active_def blank_device_def)
  have loc: "lane_local (OP_SFU BV_OP_LANE_ID)" by (simp add: lane_local_def)
  have ok: "insn_regs_ok (OP_SFU BV_OP_LANE_ID) ?i" by (simp add: insn_regs_ok_def decode_BVEN)
  obtain d' where "execute_insn sample_fpu (blank_device 64) ?i = Some (BV_OK, d')"
    and v: "lane_view d' 7 = lane_sem sample_fpu (OP_SFU BV_OP_LANE_ID) ?i 0 7 (lane_view (blank_device 64) 7)"
    using execute_lane_local [OF op loc ok, of sample_fpu "blank_device 64"] en
    by (auto simp: blank_device_def zero_warp_def)
  moreover have "fst (lane_view d' 7) 20 = 7"
    unfolding v by (simp add: lane_sem_def lane_view_def decode_BVEN)
  ultimately show ?thesis by blast
qed

section \<open>Traps and the PC\<close>

lemma branch_no_trap: "take_branch i d \<noteq> Trapped d'"
  by (simp add: take_branch_def split: option.splits)

lemma branch_loop_no_trap: "lane_loop (lane_step (\<lambda>l. take_branch i) p) ls d \<noteq> Trapped d'"
  by (induction ls arbitrary: d)
     (auto simp: lane_step_def branch_no_trap split: lane_res.splits option.splits bool.splits)

lemma class_trap_pc:
  assumes "exec_class fp opc i d = Trapped d'" "opc \<noteq> OP_CTL BV_OP_RET"
  shows "w_pc (d_warp d') = w_pc (d_warp d)"
proof (cases opc)
  case (OP_CTL c)
  show ?thesis
  proof (cases c)
    case BV_OP_CALL
    have k: "res_all (\<lambda>e. w_pc (d_warp e) = w_pc (d_warp d)) (each_lane (i_pred i) call_lane d)"
      by (rule fixed_pc.call_lanes_keep) simp
    show ?thesis using assms OP_CTL BV_OP_CALL k
      by (cases "each_lane (i_pred i) call_lane d") (auto simp: exec_class_def branch_no_trap)
  qed (use assms OP_CTL in \<open>auto simp: exec_class_def each_lane_def branch_loop_no_trap bvrt_trap_def\<close>)
next
  case (OP_ALU c) then show ?thesis
    using assms fixed_pc.alu_keeps [of d "w_pc (d_warp d)" fp c i] by (simp add: exec_class_def)
next
  case (OP_INT c) then show ?thesis
    using assms fixed_pc.int_keeps [of d "w_pc (d_warp d)" c i] by (simp add: exec_class_def)
next
  case (OP_VEC c) then show ?thesis
    using assms fixed_pc.vec_keeps [of d "w_pc (d_warp d)" fp c i] by (simp add: exec_class_def)
next
  case (OP_MEM c) then show ?thesis
    using assms fixed_pc.mem_keeps [of d "w_pc (d_warp d)" c i] by (simp add: exec_class_def)
next
  case (OP_SFU c) then show ?thesis
    using assms fixed_pc.sfu_keeps [of d "w_pc (d_warp d)" fp c i] by (simp add: exec_class_def)
qed (use assms in \<open>auto simp: exec_class_def bvrt_trap_def\<close>)

text \<open>When an instruction other than RET traps, the PC still points at it.\<close>

theorem trap_leaves_pc:
  assumes "bvrt_step fp d = Some (BV_TRAP, d')"
    and "opcode_of_byte (i_op (bv_decode (d_code d ! unat (w_pc (d_warp d))))) \<noteq> Some (OP_CTL BV_OP_RET)"
  shows "w_pc (d_warp d') = w_pc (d_warp d)"
proof -
  let ?i = "bv_decode (d_code d ! unat (w_pc (d_warp d)))"
  have "w_pc (d_warp d2) = w_pc (d_warp d1)"
    if "execute_insn fp d1 ?i = Some (BV_TRAP, d2)" for d1 d2
    using that assms(2) class_trap_pc [of fp _ ?i d1 d2]
    by (auto simp: execute_insn_def bvrt_trap_def split: option.splits lane_res.splits)
  from this [of "d\<lparr> d_insns := d_insns d + 1 \<rparr>" d'] show ?thesis
    using assms(1) by (auto simp: bvrt_step_def Let_def split: if_splits)
qed

lemma loop_two: "lane_loop f [0..<32] d = (case f 0 d of Go d1 \<Rightarrow>
    (case f 1 d1 of Go d2 \<Rightarrow> lane_loop f [2..<32] d2 | r \<Rightarrow> r) | r \<Rightarrow> r)"
  by (simp add: upt_conv_Cons eval_nat_numeral split: lane_res.splits)

text \<open>RET moves the PC even when it traps: if lane 0 has a return address and lane 1 has none,
  the instruction traps on lane 1 after lane 0 has already loaded the PC from its stack.\<close>

theorem ret_trap_moves_pc:
  assumes "i_op i = 0x43" and "lane_active (d_warp d) 0" and "lane_active (d_warp d) 1"
    and "w_retsp (d_warp d) 0 \<noteq> 0" and "unat (w_retsp (d_warp d) 0) \<le> BVRT_MAX_RET"
    and "w_retsp (d_warp d) 1 = 0"
  shows "\<exists>d'. execute_insn fp d i = Some (BV_TRAP, d') \<and>
    w_pc (d_warp d') = w_ret (d_warp d) 0 (unat (w_retsp (d_warp d) 0 - 1))"
proof -
  have op: "opcode_of_byte (i_op i) = Some (OP_CTL BV_OP_RET)"
    using assms(1) by (simp add: opcode_of_byte_Some)
  have "unat (w_retsp (d_warp d) 0 - 1) < 16"
    using assms(4,5) by (simp add: unat_minus_one)
  then have "ret_lane 0 d = Go (pop_ret 0 d)" using assms by (simp add: ret_lane_def)
  moreover have "ret_lane 1 (pop_ret 0 d) = bvrt_trap (pop_ret 0 d)"
    using assms by (simp add: ret_lane_def pop_ret_def lane_active_def Let_def)
  ultimately have "lane_loop ret_lane [0..<32] d = bvrt_trap (pop_ret 0 d)"
    unfolding loop_two by (simp add: bvrt_trap_def)
  then show ?thesis
    by (simp add: execute_insn_def op exec_class_def bvrt_trap_def pop_ret_def Let_def)
qed


text \<open>A device whose program is \<open>code\<close>, all lanes active at its first instruction.\<close>

definition device_with :: "u64 list \<Rightarrow> bvrt_device" where
  "device_with code = (blank_device 64)\<lparr>
     d_img := zero_image\<lparr> img_insns := code, img_ninsn := length code \<rparr>, d_code := code \<rparr>"

theorem trap_leaves_pc_witness:
  "\<exists>d'. bvrt_step sample_fpu (device_with [BVEN 0x47 0 0 0 0 0 0 0]) = Some (BV_TRAP, d') \<and> w_pc (d_warp d') = 0"
proof -
  let ?d = "device_with [BVEN 0x47 0 0 0 0 0 0 0]"
  have op: "opcode_of_byte 0x47 = Some (OP_CTL BV_OP_TRAP)" by (simp add: opcode_of_byte_Some)
  have pc: "w_pc (d_warp ?d) = 0" "d_code ?d ! 0 = BVEN 0x47 0 0 0 0 0 0 0"
    by (simp_all add: device_with_def blank_device_def zero_warp_def)
  have "\<exists>d'. bvrt_step sample_fpu ?d = Some (BV_TRAP, d')"
    by (simp add: bvrt_step_def pc execute_insn_def decode_BVEN op exec_class_def bvrt_trap_def)
       (simp add: device_with_def blank_device_def)
  then obtain d' where d': "bvrt_step sample_fpu ?d = Some (BV_TRAP, d')" by blast
  show ?thesis using trap_leaves_pc [OF d'] d' by (simp add: pc decode_BVEN op)
qed

definition uneven_stacks :: bvrt_device where
  "uneven_stacks = (let d = blank_device 64 in
     d\<lparr> d_warp := (d_warp d)\<lparr> w_pc := 3, w_retsp := (\<lambda>l. if l = 0 then 1 else 0), w_ret := (\<lambda>l k. 9) \<rparr> \<rparr>)"

theorem ret_trap_moves_pc_witness:
  "\<exists>d'. execute_insn sample_fpu uneven_stacks (bv_decode (BVEN 0x43 0 0 0 0 0 0 0)) = Some (BV_TRAP, d') \<and>
     w_pc (d_warp uneven_stacks) = 3 \<and> w_pc (d_warp d') = 9"
  using ret_trap_moves_pc [of "bv_decode (BVEN 0x43 0 0 0 0 0 0 0)" uneven_stacks sample_fpu]
  by (simp add: decode_BVEN uneven_stacks_def blank_device_def lane_active_def Let_def)

section \<open>The run loop\<close>

lemma execute_status: "execute_insn fp d i = Some (st, d') \<Longrightarrow> st = BV_OK \<or> st = BV_TRAP"
  by (auto simp: execute_insn_def split: lane_res.splits)

lemma step_status:
  assumes "bvrt_step fp d = Some (st, d')" "w_active (d_warp d) \<noteq> 0"
  shows "st = BV_OK \<or> st = BV_TRAP" "d_insns d' = d_insns d \<or> d_insns d' = d_insns d + 1"
  using assms
  by (auto simp: bvrt_step_def Let_def dest: execute_status execute_counts split: if_splits)

context device_invariant
begin

lemma run_keeps:
  assumes "\<And>d n. I d \<Longrightarrow> I (d\<lparr> d_insns := n \<rparr>)" "I d" "bvrt_run fp d m = Some (st, d')"
  shows "I d'"
  using assms(2,3)
proof (induction fp d m rule: bvrt_run.induct)
  case (1 fp d m)
  show ?case
  proof (cases "w_active (d_warp d) \<noteq> 0 \<and> d_insns d < m")
    case True
    then obtain st1 d1 where s: "bvrt_step fp d = Some (st1, d1)"
      using 1(3) by (auto simp: bvrt_run.simps [of fp d m] split: option.splits)
    then have "I d1" using step_keeps [OF assms(1) 1(2)] 1(2) by blast
    then show ?thesis using 1(1) [OF True s refl] 1(3) True s
      by (auto simp: bvrt_run.simps [of fp d m] split: if_splits)
  qed (use 1(2,3) in \<open>auto simp: bvrt_run.simps [of fp d m] split: if_splits\<close>)
qed

end

lemma run_status:
  "bvrt_run fp d m = Some (st, d') \<Longrightarrow>
    (st = BV_HALT \<and> w_active (d_warp d') = 0 \<or>
      st = BV_TIMEOUT \<and> w_active (d_warp d') \<noteq> 0 \<and> m \<le> d_insns d' \<or> st = BV_TRAP) \<and>
    d_insns d' \<le> max m (d_insns d)"
proof (induction fp d m rule: bvrt_run.induct)
  case (1 fp d m)
  show ?case
  proof (cases "w_active (d_warp d) \<noteq> 0 \<and> d_insns d < m")
    case True
    then obtain st1 d1 where s: "bvrt_step fp d = Some (st1, d1)"
      using 1(2) by (auto simp: bvrt_run.simps [of fp d m] split: option.splits)
    have inc: "d_insns d + 1 \<le> m" using True by (simp add: inc_le)
    have d1: "d_insns d1 \<le> m" using step_status(2) [OF s] True inc by auto
    show ?thesis
    proof (cases "st1 = BV_OK")
      case True
      then have "bvrt_run fp d1 m = Some (st, d')"
        using 1(2) s \<open>w_active (d_warp d) \<noteq> 0 \<and> d_insns d < m\<close> by (simp add: bvrt_run.simps [of fp d m])
      then show ?thesis using 1(1) [OF \<open>w_active (d_warp d) \<noteq> 0 \<and> d_insns d < m\<close> s refl] True d1
        by (auto simp: max_def split: if_splits)
    next
      case False
      then show ?thesis using 1(2) s step_status(1) [OF s] d1 \<open>w_active (d_warp d) \<noteq> 0 \<and> d_insns d < m\<close>
        by (auto simp: bvrt_run.simps [of fp d m] max_def)
    qed
  qed (use 1(2) in \<open>auto simp: bvrt_run.simps [of fp d m] max_def split: if_splits\<close>)
qed

text \<open>C7: The run loop always ends, with one of three outcomes: all lanes have exited, the budget is
  used up with lanes still active, or an instruction trapped. It never executes more instructions
  than the budget, never changes the program, and keeps the zero register and the return stacks
  well-formed. The status \<open>BV_OOB\<close> is never returned.\<close>

theorem bvrt_run_outcome:
  assumes "bvrt_run fp d m = Some (st, d')" and "warp_ok d"
  shows "(st = BV_HALT \<and> w_active (d_warp d') = 0 \<or>
      st = BV_TIMEOUT \<and> w_active (d_warp d') \<noteq> 0 \<and> m \<le> d_insns d' \<or> st = BV_TRAP) \<and>
    d_insns d' \<le> max m (d_insns d) \<and> same_program d d' \<and> warp_ok d'"
  using run_status [OF assms(1)] program.run_keeps [OF _ _ assms(1), of d] warp.run_keeps [OF _ assms(2,1)]
  by (auto simp: same_program_def warp_ok_def)

theorem bvrt_run_outcome_witness:
  "\<exists>d'. bvrt_run sample_fpu (device_with [BVEN 0x46 0 0 0 0 0 0 0]) 10 = Some (BV_HALT, d') \<and>
     w_active (d_warp d') = 0 \<and> d_insns d' \<le> 10"
proof -
  let ?d = "device_with [BVEN 0x46 0 0 0 0 0 0 0]"
  have op: "opcode_of_byte 0x46 = Some (OP_CTL BV_OP_EXIT)" by (simp add: opcode_of_byte_Some)
  have pc: "w_pc (d_warp ?d) = 0" "d_code ?d = [BVEN 0x46 0 0 0 0 0 0 0]" "w_active (d_warp ?d) = 0xFFFFFFFF"
    "d_insns ?d = 0" "img_ninsn (d_img ?d) = 1"
    by (simp_all add: device_with_def blank_device_def zero_warp_def zero_image_def)
  obtain d1 where s: "bvrt_step sample_fpu ?d = Some (BV_OK, d1)" "w_active (d_warp d1) = 0"
    by (simp add: bvrt_step_def pc execute_insn_def decode_BVEN op exec_class_def advance_def)
  have r: "bvrt_run sample_fpu ?d 10 = Some (BV_HALT, d1)"
    by (simp add: bvrt_run.simps [of sample_fpu ?d] bvrt_run.simps [of sample_fpu d1] pc s)
  have "warp_ok ?d" by (simp add: warp_ok_def device_with_def blank_device_def zero_warp_def)
  then show ?thesis using bvrt_run_outcome [OF r] r by (auto simp: pc max_def)
qed

section \<open>Memory\<close>

lemma lane_loop_rule:
  assumes "Q 0 d" and "\<And>l d. l < n \<Longrightarrow> Q l d \<Longrightarrow> \<exists>d'. f l d = Go d' \<and> Q (Suc l) d'"
  shows "\<exists>d'. lane_loop f [0..<n] d = Go d' \<and> Q n d'"
proof -
  have "\<exists>d'. lane_loop f [k..<n] d = Go d' \<and> Q n d'" if "Q k d" "k \<le> n" for k d
    using that
  proof (induction "n - k" arbitrary: k d)
    case (Suc m)
    then have "k < n" by simp
    then obtain d1 where "f k d = Go d1" "Q (Suc k) d1" using assms(2) [of k d] Suc.prems by blast
    then show ?case using Suc by (simp add: upt_conv_Cons)
  qed simp
  then show ?thesis using assms(1) by simp
qed

lemma lane_loop_defined:
  assumes "Q 0 d"
    and "\<And>l d. l < n \<Longrightarrow> Q l d \<Longrightarrow> f l d \<noteq> Undef \<and> (\<forall>d'. f l d = Go d' \<longrightarrow> Q (Suc l) d')"
  shows "lane_loop f [0..<n] d \<noteq> Undef"
proof -
  have "lane_loop f [k..<n] d \<noteq> Undef" if "Q k d" "k \<le> n" for k d
    using that
  proof (induction "n - k" arbitrary: k d)
    case (Suc m)
    then have "k < n" by simp
    then have "f k d \<noteq> Undef" "\<And>d'. f k d = Go d' \<Longrightarrow> Q (Suc k) d'"
      using assms(2) [of k d] Suc.prems by auto
    then show ?case using Suc by (cases "f k d") (auto simp: upt_conv_Cons)
  qed simp
  then show ?thesis using assms(1) by simp
qed

lemma each_lane_defined:
  assumes "unat pred \<le> BV_PRED_REGS" "Q 0 d"
    and "\<And>l d. l < BV_WARP_SIZE \<Longrightarrow> Q l d \<Longrightarrow>
      Q (Suc l) d \<and> body l d \<noteq> Undef \<and> (\<forall>d'. body l d = Go d' \<longrightarrow> Q (Suc l) d')"
  shows "each_lane pred body d \<noteq> Undef"
  unfolding each_lane_def
proof (rule lane_loop_defined [where Q = Q])
  fix l d assume l: "l < BV_WARP_SIZE" "Q l d"
  have "pred \<noteq> 0 \<Longrightarrow> \<not> 16 \<le> unat pred - 1" using assms(1) by (simp add: unsigned_eq_0_iff [symmetric])
  then show "lane_step body pred l d \<noteq> Undef \<and> (\<forall>d'. lane_step body pred l d = Go d' \<longrightarrow> Q (Suc l) d')"
    using assms(3) [OF l] by (auto simp: lane_step_def pred_ok_def split: if_splits bool.splits)
qed (rule assms(2))

text \<open>Addresses of the lanes from \<open>l\<close> on do not wrap around the 64-bit address space.\<close>

definition addrs_ok :: "bv_insn \<Rightarrow> nat \<Rightarrow> bvrt_device \<Rightarrow> bool" where
  "addrs_ok i l d \<longleftrightarrow> (\<forall>m. l \<le> m \<longrightarrow> m < BV_WARP_SIZE \<longrightarrow> unat (lane_addr i m d) + 64 < 2 ^ 64)"

lemma addrs_ok_mono: "addrs_ok i l d \<Longrightarrow> addrs_ok i (Suc l) d"
  by (auto simp: addrs_ok_def)

lemma addrs_ok_other: "(\<And>m. m \<noteq> l \<Longrightarrow> w_s (d_warp d') m = w_s (d_warp d) m) \<Longrightarrow> addrs_ok i l d \<Longrightarrow> addrs_ok i (Suc l) d'"
  by (auto simp: addrs_ok_def lane_addr_def sreg_def)

lemma other_lane [simp]:
  "m \<noteq> l \<Longrightarrow> w_s (d_warp (wr_s d l r x)) m = w_s (d_warp d) m"
  "w_s (d_warp (mem_wr32 d a x)) m = w_s (d_warp d) m"
  by (simp_all add: wr_s_def mem_wr32_def)

lemma access_defined:
  assumes "unat (lane_addr i l d) + 64 < 2 ^ 64" "n \<le> 64"
  shows "checked_access n i l act d =
    (if unat (d_mem_size d) < unat (lane_addr i l d) + n then bvrt_trap d else Go (act (unat (lane_addr i l d))))"
proof -
  have "unat (lane_addr i l d + of_nat n) = unat (lane_addr i l d) + n"
    using assms by (simp add: unat_word_ariths unat_of_nat)
  then show ?thesis by (simp add: checked_access_def Let_def word_less_nat_alt in_bounds_def)
qed

lemma access_step:
  assumes "addrs_ok i l d" "l < BV_WARP_SIZE" "n \<le> 64"
    and "\<And>a m. m \<noteq> l \<Longrightarrow> w_s (d_warp (act a)) m = w_s (d_warp d) m"
  shows "addrs_ok i (Suc l) d \<and> checked_access n i l act d \<noteq> Undef \<and>
    (\<forall>d'. checked_access n i l act d = Go d' \<longrightarrow> addrs_ok i (Suc l) d')"
proof -
  have "unat (lane_addr i l d) + 64 < 2 ^ 64" using assms(1,2) by (simp add: addrs_ok_def)
  then show ?thesis using access_defined [of i l d n act] assms addrs_ok_other [of l _ d i]
    by (auto simp: bvrt_trap_def addrs_ok_mono)
qed

lemma fold_other_lane:
  "(\<And>x d. w_s (d_warp (f x d)) m = w_s (d_warp d) m) \<Longrightarrow> w_s (d_warp (fold f xs d)) m = w_s (d_warp d) m"
  by (induction xs arbitrary: d) auto

definition lane_fine :: "bv_insn \<Rightarrow> (nat \<Rightarrow> bvrt_device \<Rightarrow> bvrt_device lane_res) \<Rightarrow> bool" where
  "lane_fine i body \<longleftrightarrow> (\<forall>l d. l < BV_WARP_SIZE \<longrightarrow> addrs_ok i l d \<longrightarrow>
     addrs_ok i (Suc l) d \<and> body l d \<noteq> Undef \<and> (\<forall>d'. body l d = Go d' \<longrightarrow> addrs_ok i (Suc l) d'))"

lemma lane_fine_access:
  assumes "n \<le> 64" "\<And>l d a m. m \<noteq> l \<Longrightarrow> w_s (d_warp (act l d a)) m = w_s (d_warp d) m"
  shows "lane_fine i (\<lambda>l d. checked_access n i l (act l d) d)"
  unfolding lane_fine_def by (intro allI impI access_step) (use assms in auto)

lemma mem_lanes_fine:
  "lane_fine i (load_lane i)" "lane_fine i (loadv_lane i)" "lane_fine i (store_lane i)"
  "lane_fine i (atomic_add_lane i)" "unat (i_dst i) < BV_VEC_REGS \<Longrightarrow> lane_fine i (storev_lane i)"
  unfolding load_lane_def [abs_def] loadv_lane_def [abs_def] store_lane_def [abs_def]
    atomic_add_lane_def [abs_def] storev_lane_def [abs_def]
  by (auto intro!: lane_fine_access fold_other_lane simp: Let_def)

lemma each_lane_fine:
  assumes "unat pred \<le> BV_PRED_REGS" "addrs_ok i 0 d" "lane_fine i body"
  shows "each_lane pred body d \<noteq> Undef"
  by (rule each_lane_defined [where Q = "addrs_ok i"]) (use assms in \<open>auto simp: lane_fine_def\<close>)

lemma exec_mem_defined:
  assumes "unat (i_pred i) \<le> BV_PRED_REGS" "addrs_ok i 0 d"
    and "c = BV_OP_STOREV \<Longrightarrow> unat (i_dst i) < BV_VEC_REGS"
  shows "exec_mem c i d \<noteq> Undef"
  using assms by (cases c) (simp_all add: each_lane_fine mem_lanes_fine bvrt_trap_def)

section \<open>Absence of undefined behaviour\<close>

lemma branch_target_defined:
  assumes "0 \<le> sint pc" "sint pc < 65536"
  shows "branch_target pc imm \<noteq> None"
proof -
  have "- 128 \<le> sint imm" "sint imm < 128"
    using sint_range_size [of imm] by (auto simp: word_size)
  then show ?thesis using assms by (simp add: branch_target_def Let_def)
qed

text \<open>What an instruction must satisfy for the interpreter to stay inside its arrays.\<close>

definition insn_safe :: "bv_insn \<Rightarrow> bool" where
  "insn_safe i = (case opcode_of_byte (i_op i) of None \<Rightarrow> True
     | Some opc \<Rightarrow> insn_regs_ok opc i \<and>
         (opc = OP_MEM BV_OP_STOREV \<longrightarrow> unat (i_dst i) < BV_VEC_REGS))"

lemma take_branch_defined:
  "0 \<le> sint (w_pc (d_warp d)) \<Longrightarrow> sint (w_pc (d_warp d)) < 65536 \<Longrightarrow> take_branch i d \<noteq> Undef"
  using branch_target_defined [of "w_pc (d_warp d)" "i_imm i"] by (auto simp: take_branch_def split: option.splits)

lemma branch_no_go: "take_branch i d \<noteq> Go d'"
  by (simp add: take_branch_def split: option.splits)

lemma ret_defined:
  assumes "warp_ok d"
  shows "lane_loop ret_lane [0..<32] d \<noteq> Undef"
proof (rule lane_loop_defined [where Q = "\<lambda>l. warp_ok"])
  fix l e assume e: "warp_ok e"
  have "unat (w_retsp (d_warp e) l - 1) < 16" if "w_retsp (d_warp e) l \<noteq> 0"
  proof -
    have "unat (w_retsp (d_warp e) l) \<le> 16" "unat (w_retsp (d_warp e) l) \<noteq> 0"
      using e that by (auto simp: warp_ok_def unsigned_eq_0_iff)
    then show ?thesis using that by (simp add: unat_minus_one)
  qed
  then show "ret_lane l e \<noteq> Undef \<and> (\<forall>d'. ret_lane l e = Go d' \<longrightarrow> warp_ok d')"
    using e warp.inv_pop [of e l] by (auto simp: ret_lane_def bvrt_trap_def)
qed (rule assms)

lemma call_defined:
  assumes "unat (i_pred i) \<le> BV_PRED_REGS" "0 \<le> sint (w_pc (d_warp d))" "sint (w_pc (d_warp d)) < 65536"
  shows "exec_ctl BV_OP_CALL i d \<noteq> Undef"
proof -
  have "each_lane (i_pred i) call_lane d \<noteq> Undef"
    by (rule each_lane_defined [where Q = "\<lambda>_ _. True"]) (use assms in \<open>auto simp: call_lane_def bvrt_trap_def\<close>)
  moreover have "res_all (\<lambda>e. w_pc (d_warp e) = w_pc (d_warp d)) (each_lane (i_pred i) call_lane d)"
    by (rule fixed_pc.call_lanes_keep) simp
  ultimately show ?thesis using assms(2,3)
    by (cases "each_lane (i_pred i) call_lane d") (auto simp: take_branch_defined)
qed

lemma ctl_defined:
  assumes "unat (i_pred i) \<le> BV_PRED_REGS" "0 \<le> sint (w_pc (d_warp d))" "sint (w_pc (d_warp d)) < 65536"
    and "warp_ok d"
  shows "exec_ctl c i d \<noteq> Undef"
proof -
  have br: "each_lane (i_pred i) (\<lambda>l. take_branch i) d \<noteq> Undef"
    by (rule each_lane_defined [where Q = "\<lambda>_ e. w_pc (d_warp e) = w_pc (d_warp d)"])
       (use assms take_branch_defined branch_no_go in auto)
  show ?thesis
    using br call_defined [OF assms(1-3)] ret_defined [OF assms(4)]
    by (cases c) (auto simp: bvrt_trap_def split: lane_res.splits)
qed

lemma rand_defined:
  assumes "unat (i_pred i) \<le> BV_PRED_REGS"
  shows "exec_sfu fp BV_OP_RAND i d \<noteq> Undef"
  by (simp add: exec_sfu_def, rule each_lane_defined [where Q = "\<lambda>_ _. True"])
     (use assms in \<open>auto simp: rand_lane_def\<close>)

lemma execute_insn_defined:
  assumes "insn_safe i" and "warp_ok d" and "\<And>c. i_op i = opcode_byte (OP_MEM c) \<Longrightarrow> addrs_ok i 0 d"
    and "0 \<le> sint (w_pc (d_warp d))" and "sint (w_pc (d_warp d)) < 65536"
  shows "execute_insn fp d i \<noteq> None"
proof (cases "opcode_of_byte (i_op i)")
  case None
  then show ?thesis by (simp add: execute_insn_def bvrt_trap_def)
next
  case (Some opc)
  have ok: "insn_regs_ok opc i" and pr: "unat (i_pred i) \<le> BV_PRED_REGS"
    using assms(1) Some by (auto simp: insn_safe_def insn_regs_ok_def)
  have "exec_class fp opc i d \<noteq> Undef"
  proof (cases "lane_local opc")
    case True
    then show ?thesis by (metis exec_class_parallel [OF True ok] lane_res.distinct(5))
  next
    case False
    then show ?thesis
      using assms(1) Some ctl_defined [OF pr assms(4,5,2)] exec_mem_defined [OF pr assms(3)] rand_defined [OF pr]
      by (cases opc) (auto simp: exec_class_def lane_local_def exec_vec_def bvrt_trap_def insn_safe_def
          opcode_of_byte_Some)
  qed
  then show ?thesis by (auto simp: execute_insn_def Some split: lane_res.splits)
qed

text \<open>C16: Single-stepping has no undefined behaviour in a well-formed state when every instruction of the
  code has register numbers inside the register files and the instruction about to execute, if it
  accesses memory, has addresses that do not wrap around. A PC outside the code traps.\<close>

theorem bvrt_step_defined:
  assumes "warp_ok d" and "img_ninsn (d_img d) \<le> length (d_code d)" and "img_ninsn (d_img d) \<le> 65536"
    and "\<forall>pc < img_ninsn (d_img d). insn_safe (bv_decode (d_code d ! pc))"
    and "\<And>c. i_op (bv_decode (d_code d ! unat (w_pc (d_warp d)))) = opcode_byte (OP_MEM c) \<Longrightarrow>
      addrs_ok (bv_decode (d_code d ! unat (w_pc (d_warp d)))) 0 d"
  shows "bvrt_step fp d \<noteq> None"
proof -
  let ?pc = "w_pc (d_warp d)" let ?e = "d\<lparr> d_insns := d_insns d + 1 \<rparr>"
  have "execute_insn fp ?e (bv_decode (d_code d ! unat ?pc)) \<noteq> None"
    if pc: "\<not> sint ?pc < 0" "unat ?pc < img_ninsn (d_img d)"
  proof (rule execute_insn_defined)
    show "insn_safe (bv_decode (d_code d ! unat ?pc))" using assms(4) pc(2) by blast
    have "sint ?pc = int (unat ?pc)" using pc(2) assms(3) by (intro sint_small) simp
    moreover have "int (unat ?pc) < 65536" using pc(2) assms(3) by linarith
    ultimately show "sint (w_pc (d_warp ?e)) < 65536" by simp
    show "addrs_ok (bv_decode (d_code d ! unat ?pc)) 0 ?e"
      if "i_op (bv_decode (d_code d ! unat ?pc)) = opcode_byte (OP_MEM c)" for c
      using assms(5) [OF that] by (simp add: addrs_ok_def lane_addr_def sreg_def)
  qed (use assms(1) pc in \<open>auto simp: warp_ok_def\<close>)
  then show ?thesis using assms(2) by (auto simp: bvrt_step_def Let_def not_le)
qed

theorem bvrt_step_defined_witness:
  "bvrt_step sample_fpu (device_with [BVEN 0x30 0 20 1 0 4 0 0]) \<noteq> None"
proof (rule bvrt_step_defined)
  show "\<forall>pc < img_ninsn (d_img (device_with [BVEN 0x30 0 20 1 0 4 0 0])).
      insn_safe (bv_decode (d_code (device_with [BVEN 0x30 0 20 1 0 4 0 0]) ! pc))"
    using opcode_of_byte_byte [of "OP_MEM BV_OP_LOAD"]
    by (simp add: insn_safe_def insn_regs_ok_def decode_BVEN device_with_def)
qed (simp_all add: device_with_def blank_device_def zero_warp_def warp_ok_def addrs_ok_def lane_addr_def sreg_def decode_BVEN)

text \<open>The bounds check of the memory instructions adds the access size before it compares, so an
  address in the last bytes of the 64-bit range (a base register of -1 to -4) passes it and the
  access is outside the memory: LOAD, STORE and ATOMIC_ADD do not trap, their behaviour is
  undefined.\<close>

theorem negative_address_escapes_check:
  assumes "opcode_of_byte (i_op i) = Some (OP_MEM c)" and "c \<in> {BV_OP_LOAD, BV_OP_STORE, BV_OP_ATOMIC_ADD}"
    and "i_pred i = 0" and "lane_active (d_warp d) 0" and "4 \<le> d_mem_size d"
    and "2 ^ 64 \<le> unat (lane_addr i 0 d) + 4"
  shows "execute_insn fp d i = None"
proof -
  have lt: "unat (lane_addr i 0 d) < 2 ^ 64" using unsigned_less [of "lane_addr i 0 d"] by simp
  have "unat (lane_addr i 0 d + 4) = (unat (lane_addr i 0 d) + 4) mod 2 ^ 64"
    by (simp add: unat_word_ariths)
  also have "\<dots> = unat (lane_addr i 0 d) + 4 - 2 ^ 64" using assms(6) lt by (simp add: mod_if)
  also have "\<dots> < 4" using lt assms(6) by linarith
  finally have "lane_addr i 0 d + 4 < 4" by (simp add: word_less_nat_alt)
  then have nt: "\<not> d_mem_size d < lane_addr i 0 d + 4" using assms(5) by (simp add: not_less)
  have mlt: "unat (d_mem_size d) < 2 ^ 64" using unsigned_less [of "d_mem_size d"] by simp
  have ob: "\<not> in_bounds d (lane_addr i 0 d) 4"
    using assms(6) mlt by (simp add: in_bounds_def)
  have "checked_access 4 i 0 act d = Undef" for act using nt ob by (simp add: checked_access_def)
  then have "exec_mem c i d = Undef"
    using assms(2-4) by (auto simp: each_lane_def lane_step_def pred_ok_def upt_conv_Cons
        load_lane_def store_lane_def atomic_add_lane_def)
  then show ?thesis by (simp add: execute_insn_def assms(1) exec_class_def)
qed

text \<open>LOADV, documented as loading 64 bytes into a vector register, never changes a vector
  register: it writes scalar registers.\<close>

theorem loadv_writes_no_vector:
  assumes "exec_class fp (OP_MEM BV_OP_LOADV) i d = Go d'"
  shows "w_v (d_warp d') = w_v (d_warp d)"
proof -
  have "res_all (\<lambda>e. w_v (d_warp e) = w_v (d_warp d)) (each_lane (i_pred i) (loadv_lane i) d)"
  proof (rule each_lane_inv)
    fix l and e :: bvrt_device assume e: "w_v (d_warp e) = w_v (d_warp d)"
    have "w_v (d_warp (fold (\<lambda>li f. wr_s f l (r li) (x li f)) ls e)) = w_v (d_warp e)"
      for r :: "nat \<Rightarrow> u8" and x ls
      by (rule fold_inv) (auto simp: wr_s_def)
    then show "res_all (\<lambda>e. w_v (d_warp e) = w_v (d_warp d)) (loadv_lane i l e)"
      using e by (simp add: loadv_lane_def checked_access_def bvrt_trap_def Let_def)
  qed simp
  then show ?thesis using assms by (simp add: exec_class_def)
qed

definition all_ones_reg :: "bvrt_device" where
  "all_ones_reg = wr_s (blank_device 64) 0 20 0xFFFFFFFF"

theorem negative_address_escapes_check_witness:
  "execute_insn sample_fpu all_ones_reg (bv_decode (BVEN 0x34 0 21 20 0 0 0 0)) = None"
proof (rule negative_address_escapes_check)
  show "opcode_of_byte (i_op (bv_decode (BVEN 0x34 0 21 20 0 0 0 0))) = Some (OP_MEM BV_OP_STORE)"
    by (simp add: decode_BVEN opcode_of_byte_Some)
qed (simp_all add: unsigned_minus_1_eq_mask mask_eq_exp_minus_1 decode_BVEN all_ones_reg_def blank_device_def wr_s_def lane_active_def lane_addr_def sreg_def)

theorem loadv_writes_no_vector_witness:
  "\<exists>d'. exec_class sample_fpu (OP_MEM BV_OP_LOADV) (bv_decode (BVEN 0x32 0 2 0 0 0 0 0)) (blank_device 64) = Go d' \<and>
     w_v (d_warp d') = w_v (d_warp (blank_device 64))"
proof -
  let ?i = "bv_decode (BVEN 0x32 0 2 0 0 0 0 0)"
  have addr0: "warp_ok e \<Longrightarrow> lane_addr ?i l e = 0" for l e
    by (simp add: lane_addr_def sreg_def decode_BVEN warp_ok_def)
  have sz: "d_mem_size e = 64 \<Longrightarrow> d_mem_size (fold (\<lambda>li f. wr_s f l (r li) (x li f)) ls e) = 64" for l and r :: "nat \<Rightarrow> u8" and x ls and e :: bvrt_device
    by (rule fold_inv) (auto simp: wr_s_def)
  have wok: "warp_ok e \<Longrightarrow> warp_ok (fold (\<lambda>li f. wr_s f l (r li) (x li f)) ls e)" for l and r :: "nat \<Rightarrow> u8" and x ls and e :: bvrt_device
    by (rule fold_inv) (auto intro: warp.inv_wr_s)
  have "\<exists>d'. each_lane 0 (loadv_lane ?i) (blank_device 64) = Go d' \<and> warp_ok d' \<and> d_mem_size d' = 64"
    unfolding each_lane_def
  proof (rule lane_loop_rule [where Q = "\<lambda>l e. warp_ok e \<and> d_mem_size e = 64"])
    show "warp_ok (blank_device 64) \<and> d_mem_size (blank_device 64) = 64"
      by (simp add: warp_ok_def blank_device_def zero_warp_def)
    fix l and e :: bvrt_device assume "warp_ok e \<and> d_mem_size e = 64"
    then show "\<exists>d'. lane_step (loadv_lane ?i) 0 l e = Go d' \<and> warp_ok d' \<and> d_mem_size d' = 64"
      by (auto simp: lane_step_def pred_ok_def loadv_lane_def checked_access_def addr0 in_bounds_def sz wok Let_def)
  qed
  then obtain d' where d': "exec_class sample_fpu (OP_MEM BV_OP_LOADV) ?i (blank_device 64) = Go d'"
    by (auto simp: exec_class_def decode_BVEN)
  show ?thesis using loadv_writes_no_vector [OF d'] d' by blast
qed

section \<open>Stored values are loaded back\<close>

lemma poke_other: "b < a \<or> a + length bs \<le> b \<Longrightarrow> poke m a bs b = m b"
  by (induction bs arbitrary: m a) auto

lemma poke_nth: "k < length bs \<Longrightarrow> poke m a bs (a + k) = bs ! k"
proof (induction bs arbitrary: m a k)
  case (Cons b bs)
  show ?case
  proof (cases k)
    case (Suc j)
    then have "poke (m(a := b)) (a + 1) bs ((a + 1) + j) = bs ! j" using Cons.prems by (intro Cons.IH) simp
    then show ?thesis using Suc by simp
  qed (simp add: poke_other)
qed simp

lemma mem_rd32_wr32_same: "mem_rd32 (mem_wr32 d a v) a = v"
proof -
  have "[poke (d_mem d) a (le_bytes32 v) a, poke (d_mem d) a (le_bytes32 v) (a + 1),
      poke (d_mem d) a (le_bytes32 v) (a + 2), poke (d_mem d) a (le_bytes32 v) (a + 3)] = le_bytes32 v"
    using poke_nth [of 0 "le_bytes32 v" "d_mem d" a] poke_nth [of 1 "le_bytes32 v" "d_mem d" a]
      poke_nth [of 2 "le_bytes32 v" "d_mem d" a] poke_nth [of 3 "le_bytes32 v" "d_mem d" a]
    by (simp add: le_bytes32_def)
  then show ?thesis using c32.dec_enc [of v "[]"] by (simp add: mem_rd32_def mem_wr32_def)
qed

lemma mem_rd32_wr32_other: "a + 4 \<le> b \<or> b + 4 \<le> a \<Longrightarrow> mem_rd32 (mem_wr32 d a v) b = mem_rd32 d b"
  by (auto simp: mem_rd32_def mem_wr32_def poke_other)

lemma access_in_bounds:
  assumes "in_bounds d (lane_addr i l d) n"
  shows "checked_access n i l act d = Go (act (unat (lane_addr i l d)))"
proof -
  have b: "unat (lane_addr i l d) + n < 2 ^ 64"
    using assms unat_u64 [of "d_mem_size d"] by (simp add: in_bounds_def)
  then have "unat (lane_addr i l d + of_nat n) = unat (lane_addr i l d) + n"
    by (simp add: unat_word_ariths unat_of_nat)
  then show ?thesis using assms by (simp add: checked_access_def Let_def word_less_nat_alt in_bounds_def)
qed

definition lane_on :: "u8 \<Rightarrow> bvrt_device \<Rightarrow> nat \<Rightarrow> bool" where
  "lane_on pred d l \<longleftrightarrow> lane_enabled pred d l (lane_view d l)"

lemma lane_step_on:
  assumes "unat pred \<le> BV_PRED_REGS"
  shows "lane_step body pred l d = (if lane_on pred d l then body l d else Go d)"
proof -
  have "pred \<noteq> 0 \<Longrightarrow> \<not> 16 \<le> unat pred - 1" using assms(1) by (simp add: unsigned_eq_0_iff [symmetric])
  then show ?thesis
    by (auto simp: lane_step_def pred_ok_def lane_on_def lane_enabled_def lane_view_def split: bool.splits)
qed

text \<open>The enabled lanes access disjoint words inside the memory.\<close>

definition disjoint_words :: "bv_insn \<Rightarrow> bvrt_device \<Rightarrow> bool" where
  "disjoint_words i d \<longleftrightarrow> (\<forall>m < BV_WARP_SIZE. lane_on (i_pred i) d m \<longrightarrow> in_bounds d (lane_addr i m d) 4 \<and>
     (\<forall>k < BV_WARP_SIZE. lane_on (i_pred i) d k \<longrightarrow> k \<noteq> m \<longrightarrow>
        unat (lane_addr i m d) + 4 \<le> unat (lane_addr i k d) \<or> unat (lane_addr i k d) + 4 \<le> unat (lane_addr i m d)))"

lemma store_loop:
  assumes "unat (i_pred i) \<le> BV_PRED_REGS" "disjoint_words i d"
  shows "\<exists>e. exec_mem BV_OP_STORE i d = Go e \<and> d_warp e = d_warp d \<and> d_mem_size e = d_mem_size d \<and>
    (\<forall>m < BV_WARP_SIZE. lane_on (i_pred i) d m \<longrightarrow> mem_rd32 e (unat (lane_addr i m d)) = sreg d m (i_dst i))"
proof -
  let ?Q = "\<lambda>l e. d_warp e = d_warp d \<and> d_mem_size e = d_mem_size d \<and>
    (\<forall>m < l. lane_on (i_pred i) d m \<longrightarrow> mem_rd32 e (unat (lane_addr i m d)) = sreg d m (i_dst i))"
  have "\<exists>e. lane_loop (lane_step (store_lane i) (i_pred i)) [0..<32] d = Go e \<and> ?Q 32 e"
  proof (rule lane_loop_rule)
    fix l e assume l: "l < 32" and Q: "?Q l e"
    then have same: "lane_on (i_pred i) e = lane_on (i_pred i) d" "lane_addr i m e = lane_addr i m d"
      "sreg e l (i_dst i) = sreg d l (i_dst i)" for m
      by (simp_all add: fun_eq_iff lane_on_def lane_enabled_def lane_view_def lane_addr_def sreg_def)
    show "\<exists>e'. lane_step (store_lane i) (i_pred i) l e = Go e' \<and> ?Q (Suc l) e'"
    proof (cases "lane_on (i_pred i) d l")
      case True
      let ?a = "unat (lane_addr i l d)"
      have ib: "in_bounds e (lane_addr i l e) 4"
        using assms(2) True l Q by (simp add: disjoint_words_def in_bounds_def same)
      have dis: "?a + 4 \<le> unat (lane_addr i m d) \<or> unat (lane_addr i m d) + 4 \<le> ?a"
        if "m < l" "lane_on (i_pred i) d m" for m
        using assms(2) True l that by (simp add: disjoint_words_def)
      have st: "store_lane i l e = Go (mem_wr32 e ?a (sreg d l (i_dst i)))"
        by (simp add: store_lane_def access_in_bounds [OF ib] same)
      have w: "d_warp (mem_wr32 e a x) = d_warp e" "d_mem_size (mem_wr32 e a x) = d_mem_size e" for a x
        by (simp_all add: mem_wr32_def)
      have "?Q (Suc l) (mem_wr32 e ?a (sreg d l (i_dst i)))"
        using Q dis by (auto simp: w less_Suc_eq mem_rd32_wr32_same mem_rd32_wr32_other)
      then show ?thesis using st True by (simp add: lane_step_on [OF assms(1)] same)
    next
      case False
      then show ?thesis using Q by (simp add: lane_step_on [OF assms(1)] same less_Suc_eq)
    qed
  qed simp
  then show ?thesis by (simp add: each_lane_def)
qed

lemma load_loop:
  assumes "unat (i_pred i) \<le> BV_PRED_REGS" "i_dst i \<noteq> 0"
    and "\<And>m. m < BV_WARP_SIZE \<Longrightarrow> lane_on (i_pred i) d m \<Longrightarrow> in_bounds d (lane_addr i m d) 4"
  shows "\<exists>e. exec_mem BV_OP_LOAD i d = Go e \<and>
    (\<forall>m < BV_WARP_SIZE. lane_on (i_pred i) d m \<longrightarrow> sreg e m (i_dst i) = mem_rd32 d (unat (lane_addr i m d)))"
proof -
  let ?Q = "\<lambda>l e. d_mem e = d_mem d \<and> d_mem_size e = d_mem_size d \<and> w_active (d_warp e) = w_active (d_warp d) \<and>
    w_p (d_warp e) = w_p (d_warp d) \<and> (\<forall>m \<ge> l. w_s (d_warp e) m = w_s (d_warp d) m) \<and>
    (\<forall>m < l. lane_on (i_pred i) d m \<longrightarrow> sreg e m (i_dst i) = mem_rd32 d (unat (lane_addr i m d)))"
  have "\<exists>e. lane_loop (lane_step (load_lane i) (i_pred i)) [0..<32] d = Go e \<and> ?Q 32 e"
  proof (rule lane_loop_rule)
    fix l e assume l: "l < 32" and Q: "?Q l e"
    then have same: "lane_on (i_pred i) e = lane_on (i_pred i) d" "lane_addr i l e = lane_addr i l d"
      by (simp_all add: fun_eq_iff lane_on_def lane_enabled_def lane_view_def lane_addr_def sreg_def lane_active_def)
    show "\<exists>e'. lane_step (load_lane i) (i_pred i) l e = Go e' \<and> ?Q (Suc l) e'"
    proof (cases "lane_on (i_pred i) d l")
      case True
      let ?v = "mem_rd32 d (unat (lane_addr i l d))"
      have ib: "in_bounds e (lane_addr i l e) 4"
        using assms(3) True l Q by (simp add: in_bounds_def same)
      have ld: "load_lane i l e = Go (wr_s e l (i_dst i) ?v)"
        using Q by (simp add: load_lane_def access_in_bounds [OF ib] same mem_rd32_def)
      have "?Q (Suc l) (wr_s e l (i_dst i) ?v)"
        using Q assms(2) by (auto simp: wr_s_def sreg_def less_Suc_eq)
      then show ?thesis using ld True by (simp add: lane_step_on [OF assms(1)] same)
    next
      case False
      then show ?thesis using Q by (simp add: lane_step_on [OF assms(1)] same less_Suc_eq)
    qed
  qed simp
  then show ?thesis by (simp only: exec_mem.simps each_lane_def) blast
qed

text \<open>What the enabled lanes STORE to disjoint words of the memory is what they LOAD back from the same
  addresses.\<close>

theorem store_load_roundtrip:
  assumes "i_op si = 0x34" and "i_op li = 0x30"
    and "i_src1 li = i_src1 si" and "i_imm li = i_imm si" and "i_pred li = i_pred si"
    and "unat (i_pred si) \<le> BV_PRED_REGS" and "i_dst li \<noteq> 0" and "disjoint_words si d"
  shows "\<exists>d1 d2. execute_insn fp d si = Some (BV_OK, d1) \<and> execute_insn fp d1 li = Some (BV_OK, d2) \<and>
    (\<forall>m < BV_WARP_SIZE. lane_on (i_pred si) d m \<longrightarrow> sreg d2 m (i_dst li) = sreg d m (i_dst si))"
proof -
  have op: "opcode_of_byte (i_op si) = Some (OP_MEM BV_OP_STORE)" "opcode_of_byte (i_op li) = Some (OP_MEM BV_OP_LOAD)"
    using assms(1,2) by (simp_all add: opcode_of_byte_Some)
  obtain e where e: "exec_mem BV_OP_STORE si d = Go e" "d_warp e = d_warp d" "d_mem_size e = d_mem_size d"
    "\<forall>m < 32. lane_on (i_pred si) d m \<longrightarrow> mem_rd32 e (unat (lane_addr si m d)) = sreg d m (i_dst si)"
    using store_loop [OF assms(6,8)] by blast
  have same: "lane_on p (advance e) m = lane_on p d m" "lane_addr li m (advance e) = lane_addr si m d"
    "d_mem_size (advance e) = d_mem_size d" "mem_rd32 (advance e) a = mem_rd32 e a" for m p a
    using assms(3,4) e(2,3) by (simp_all add: advance_def lane_on_def lane_enabled_def lane_view_def
        lane_addr_def sreg_def lane_active_def mem_rd32_def)
  obtain f where f: "exec_mem BV_OP_LOAD li (advance e) = Go f"
    "\<forall>m < 32. lane_on (i_pred li) (advance e) m \<longrightarrow>
      sreg f m (i_dst li) = mem_rd32 (advance e) (unat (lane_addr li m (advance e)))"
    using load_loop [of li "advance e"] assms(5-8) by (auto simp: same in_bounds_def disjoint_words_def)
  have "sreg (advance f) m r = sreg f m r" for m r by (simp add: advance_def sreg_def)
  then show ?thesis
    using e f assms(5) by (auto simp: execute_insn_def op exec_class_def same)
qed

definition one_lane_device :: bvrt_device where
  "one_lane_device = wr_s ((blank_device 64)\<lparr> d_warp := zero_warp\<lparr> w_active := 1 \<rparr> \<rparr>) 0 20 0xDEADBEEF"

theorem store_load_roundtrip_witness:
  "\<exists>d1 d2. execute_insn sample_fpu one_lane_device
       (bv_decode (BVEN 0x34 0 20 0 0 8 0 0)) = Some (BV_OK, d1) \<and>
     execute_insn sample_fpu d1 (bv_decode (BVEN 0x30 0 21 0 0 8 0 0)) = Some (BV_OK, d2) \<and> sreg d2 0 21 = 0xDEADBEEF"
proof -
  let ?d = "one_lane_device"
  have on: "lane_on 0 ?d m = (m = 0)" for m
    by (auto simp: lane_on_def lane_enabled_def lane_active_def wr_s_def bit_1_iff one_lane_device_def)
  have dj: "disjoint_words (bv_decode (BVEN 0x34 0 20 0 0 8 0 0)) ?d"
    by (simp add: disjoint_words_def decode_BVEN on)
       (simp add: in_bounds_def lane_addr_def sreg_def wr_s_def blank_device_def zero_warp_def one_lane_device_def)
  show ?thesis
    using store_load_roundtrip [of "bv_decode (BVEN 0x34 0 20 0 0 8 0 0)" "bv_decode (BVEN 0x30 0 21 0 0 8 0 0)" ?d sample_fpu] dj
    by (simp add: decode_BVEN on) (simp add: sreg_def wr_s_def one_lane_device_def)
qed

section \<open>Selection, reduction and moves\<close>

text \<open>SEL never selects its second source under a predicate: a lane whose predicate holds gets the
  first source, a lane whose predicate does not hold keeps its destination, and without a
  predicate every active lane gets the second source.\<close>

theorem sel_semantics:
  assumes "i_op i = 0x0D" and "unat (i_pred i) \<le> BV_PRED_REGS" and "i_dst i \<noteq> 0"
  shows "\<exists>d'. execute_insn fp d i = Some (BV_OK, d') \<and>
    (\<forall>m < BV_WARP_SIZE. lane_active (d_warp d) m \<longrightarrow> sreg d' m (i_dst i) =
      (if i_pred i = 0 then sreg d m (i_src2 i)
       else if w_p (d_warp d) m (unat (i_pred i) - 1) \<noteq> 0 then sreg d m (i_src1 i)
       else sreg d m (i_dst i)))"
proof -
  have op: "opcode_of_byte (i_op i) = Some (OP_ALU BV_OP_SEL)" using assms(1) by (simp add: opcode_of_byte_Some)
  have "lane_local (OP_ALU BV_OP_SEL)" "insn_regs_ok (OP_ALU BV_OP_SEL) i"
    using assms(2) by (auto simp: lane_local_def insn_regs_ok_def)
  from execute_lane_local [OF op this, of fp d]
  obtain d' where d': "execute_insn fp d i = Some (BV_OK, d')"
    "\<forall>m. lane_view d' m = (if m < 32 \<and> lane_enabled (i_pred i) d m (lane_view d m)
       then lane_sem fp (OP_ALU BV_OP_SEL) i (w_cycles (d_warp d)) m (lane_view d m) else lane_view d m)"
    by blast
  have "sreg d' m (i_dst i) = (if i_pred i = 0 then sreg d m (i_src2 i)
       else if w_p (d_warp d) m (unat (i_pred i) - 1) \<noteq> 0 then sreg d m (i_src1 i) else sreg d m (i_dst i))"
    if "m < 32" "lane_active (d_warp d) m" for m
    unfolding sreg_lane d'(2) [rule_format]
    using that assms(3) by (auto simp: lane_enabled_def lane_sem_def lane_view_def)
  then show ?thesis using d'(1) by blast
qed

theorem sel_semantics_witness:
  "\<exists>d'. execute_insn sample_fpu one_lane_device (bv_decode (BVEN 0x0D 1 22 20 21 0 0 0)) = Some (BV_OK, d') \<and>
     sreg d' 0 22 = sreg one_lane_device 0 22"
  using sel_semantics [of "bv_decode (BVEN 0x0D 1 22 20 21 0 0 0)" sample_fpu one_lane_device]
  by (auto simp: decode_BVEN one_lane_device_def wr_s_def zero_warp_def lane_active_def)

lemma fold_max: "fold (\<lambda>li m. if m < v li then v li else m) ls (a :: u32) = Max (insert a (v ` set ls))"
proof (induction ls arbitrary: a)
  case (Cons x ls)
  have "fold (\<lambda>li m. if m < v li then v li else m) (x # ls) a = Max (insert (max a (v x)) (v ` set ls))"
    using Cons.IH by (simp add: max_def not_less)
  also have "\<dots> = Max (insert a (v ` set (x # ls)))"
    by (cases "ls = []") (simp_all add: max.assoc)
  finally show ?case .
qed simp

lemma fold_min: "fold (\<lambda>li m. if v li < m then v li else m) ls (a :: u32) = Min (insert a (v ` set ls))"
proof (induction ls arbitrary: a)
  case (Cons x ls)
  have "fold (\<lambda>li m. if v li < m then v li else m) (x # ls) a = Min (insert (min a (v x)) (v ` set ls))"
    using Cons.IH by (simp add: min_def not_less) (metis min.absorb3 min.absorb4 min_def not_less)
  also have "\<dots> = Min (insert a (v ` set (x # ls)))"
    by (cases "ls = []") (simp_all add: min.assoc)
  finally show ?case .
qed simp

text \<open>VREDUCE with MIN yields the unsigned minimum of all 16 elements, but with MAX the unsigned
  maximum of elements 1 to 15 only: element 0 is ignored.\<close>

theorem vreduce_min_max:
  "vreduce_value fp BV_RED_MIN v = Min (v ` {0..<BV_VEC_LANES}) \<and>
   vreduce_value fp BV_RED_MAX v = Max (v ` {1..<BV_VEC_LANES})"
proof -
  have top: "x \<le> 0xFFFFFFFF" for x :: u32 using unat_u32 [of x] by (simp add: word_le_nat_alt)
  have "Min (insert (0xFFFFFFFF :: u32) (v ` {0..<16})) = Min (v ` {0..<16})"
    by (subst Min_insert) (simp_all add: min.absorb2 [OF top])
  moreover have "Max (insert (0 :: u32) (v ` {1..<16})) = Max (v ` {1..<16})"
    by (subst Max_insert) (auto simp: max_def)
  ultimately show ?thesis by (simp add: fold_max fold_min)
qed

text \<open>MOV is encoded as a float addition of 0. It copies every register value that is not a NaN
  pattern, except the pattern of -0.0 (the integer \<open>0x80000000\<close>), which becomes 0.\<close>

theorem addi_zero_copies:
  assumes "i_imm i = 0" and "\<not> f32_is_nan (r (i_src1 i))"
  shows "alu_value fp BV_OP_ADDi i r = (if r (i_src1 i) = 0x80000000 then 0 else r (i_src1 i))"
  using assms by (simp add: f32_of_int8_zero f32_add_pos_zero)

theorem addi_zero_copies_witness:
  "alu_value sample_fpu BV_OP_ADDi (bv_decode (BVEN 1 0 20 21 0 0 0 0)) (\<lambda>_. 0x3F800000) = 0x3F800000"
  using addi_zero_copies [of "bv_decode (BVEN 1 0 20 21 0 0 0 0)" "\<lambda>_. 0x3F800000" sample_fpu]
  by (simp add: decode_BVEN f32_is_nan_def f32_exp_def f32_frac_def)

end
