(* ===== verification/Bradgdb.thy ===== *)
theory Bradgdb
  imports BvrtProps
begin

text \<open>
  The debugger \<open>bradvector/bradgdb.c\<close> on top of the interpreter: breakpoints, single step,
  \<open>bradgdb_continue\<close> and register inspection. What the tracing mode prints is collected in
  \<open>g_trace\<close>.

  \<open>bradgdb_continue\<close> has no instruction budget. It is a partial function whose value \<open>None\<close> means that
  it does not return; \<open>Some None\<close> is undefined behaviour of an instruction.
\<close>

section \<open>State and breakpoints\<close>

record bradgdb_break =
  br_pc :: u32
  br_enabled :: bool
  br_hit :: int

record bradgdb =
  g_dev :: bvrt_device
  g_breaks :: "bradgdb_break list"
  g_steps :: u64
  g_tracing :: bool
  g_trace :: "(u32 \<times> string) list"

abbreviation (input) BRADGDB_MAX_BREAK :: nat where "BRADGDB_MAX_BREAK \<equiv> 64"

definition bradgdb_attach :: "bvrt_device \<Rightarrow> bradgdb" where
  "bradgdb_attach dev =
     \<lparr> g_dev = dev, g_breaks = [], g_steps = 0, g_tracing = False, g_trace = [] \<rparr>"

fun find_break :: "bradgdb_break list \<Rightarrow> (bradgdb_break \<Rightarrow> bool) \<Rightarrow> nat option" where
  "find_break [] P = None"
| "find_break (b # bs) P = (if P b then Some 0 else map_option Suc (find_break bs P))"

definition bradgdb_add_break :: "bradgdb \<Rightarrow> u32 \<Rightarrow> int \<times> bradgdb" where
  "bradgdb_add_break g pc =
     (if BRADGDB_MAX_BREAK \<le> length (g_breaks g) then (-1, g)
      else case find_break (g_breaks g) (\<lambda>b. br_pc b = pc) of
        Some i \<Rightarrow> (int i, g)
      | None \<Rightarrow> (int (length (g_breaks g)),
          g\<lparr> g_breaks := g_breaks g @ [\<lparr> br_pc = pc, br_enabled = True, br_hit = 0 \<rparr>] \<rparr>))"

definition bradgdb_enable_break :: "bradgdb \<Rightarrow> int \<Rightarrow> bool \<Rightarrow> bradgdb" where
  "bradgdb_enable_break g bid enabled =
     (if 0 \<le> bid \<and> bid < int (length (g_breaks g))
      then g\<lparr> g_breaks := (g_breaks g)[nat bid := (g_breaks g ! nat bid)\<lparr> br_enabled := enabled \<rparr>] \<rparr>
      else g)"

definition at_breakpoint :: "bradgdb \<Rightarrow> u32 \<Rightarrow> nat option" where
  "at_breakpoint g pc = find_break (g_breaks g) (\<lambda>b. br_enabled b \<and> br_pc b = pc)"

section \<open>Stepping\<close>

text \<open>The trace prints the instruction before the new PC, if that is inside the image.\<close>

definition trace_line :: "bvrt_device \<Rightarrow> (u32 \<times> string) list option" where
  "trace_line dev =
     (let pc = w_pc (d_warp dev) in
      if 0 \<le> sint pc - 1 \<and> unat (pc - 1) < img_ninsn (d_img dev)
      then if unat (pc - 1) < length (img_insns (d_img dev))
        then Some [(pc - 1, bv_opcode_name (ucast (BV_INSN_OP (img_insns (d_img dev) ! unat (pc - 1)))))]
        else None
      else Some [])"

definition bradgdb_step :: "fpu \<Rightarrow> bradgdb \<Rightarrow> (bv_status \<times> bradgdb) option" where
  "bradgdb_step fp g = (case bvrt_step fp (g_dev g) of None \<Rightarrow> None
     | Some (st, dev) \<Rightarrow>
       let g1 = g\<lparr> g_dev := dev, g_steps := (if st = BV_OK then g_steps g + 1 else g_steps g) \<rparr> in
       if g_tracing g
       then map_option (\<lambda>t. (st, g1\<lparr> g_trace := g_trace g @ t \<rparr>)) (trace_line dev)
       else Some (st, g1))"

definition hit_break :: "bradgdb \<Rightarrow> nat \<Rightarrow> bradgdb" where
  "hit_break g i = g\<lparr> g_breaks := (g_breaks g)[i := (g_breaks g ! i)\<lparr> br_hit := br_hit (g_breaks g ! i) + 1 \<rparr>] \<rparr>"

partial_function (option) bradgdb_continue :: "fpu \<Rightarrow> bradgdb \<Rightarrow> (bv_status \<times> bradgdb) option option" where
  "bradgdb_continue fp g =
     (if w_active (d_warp (g_dev g)) = 0 then Some (Some (BV_HALT, g))
      else case at_breakpoint g (w_pc (d_warp (g_dev g))) of
        Some i \<Rightarrow> Some (Some (BV_OK, hit_break g i))
      | None \<Rightarrow>
          case bradgdb_step fp g of
            None \<Rightarrow> Some None
          | Some r \<Rightarrow> if fst r \<noteq> BV_OK then Some (Some r) else bradgdb_continue fp (snd r))"

declare bradgdb_continue.simps [code]

section \<open>Inspection\<close>

definition bradgdb_read_s :: "bradgdb \<Rightarrow> int \<Rightarrow> nat \<Rightarrow> u32" where
  "bradgdb_read_s g lane reg =
     (if lane < 0 \<or> int BV_WARP_SIZE \<le> lane \<or> BV_SCALAR_REGS \<le> reg then 0
      else w_s (d_warp (g_dev g)) (nat lane) reg)"

definition bradgdb_read_v :: "bradgdb \<Rightarrow> int \<Rightarrow> nat \<Rightarrow> nat \<Rightarrow> u32" where
  "bradgdb_read_v g lane reg lane16 =
     (if lane < 0 \<or> int BV_WARP_SIZE \<le> lane \<or> BV_VEC_REGS \<le> reg \<or> BV_VEC_LANES \<le> lane16 then 0
      else w_v (d_warp (g_dev g)) (nat lane) reg lane16)"

definition bradgdb_read_p :: "bradgdb \<Rightarrow> int \<Rightarrow> nat \<Rightarrow> u32" where
  "bradgdb_read_p g lane preg =
     (if lane < 0 \<or> int BV_WARP_SIZE \<le> lane \<or> BV_PRED_REGS \<le> preg then 0
      else w_p (d_warp (g_dev g)) (nat lane) preg)"

definition bradgdb_pc :: "bradgdb \<Rightarrow> u32" where
  "bradgdb_pc g = w_pc (d_warp (g_dev g))"

section \<open>Tools that drive the interpreter\<close>

text \<open>A number of instructions that all complete.\<close>

fun bvrt_steps :: "fpu \<Rightarrow> nat \<Rightarrow> bvrt_device \<Rightarrow> bvrt_device option" where
  "bvrt_steps fp 0 d = Some d"
| "bvrt_steps fp (Suc n) d = (case bvrt_step fp d of Some (BV_OK, d') \<Rightarrow> bvrt_steps fp n d' | _ \<Rightarrow> None)"

lemma bvrt_steps_keep:
  assumes "device_invariant I" "\<And>d n. I d \<Longrightarrow> I (d\<lparr> d_insns := n \<rparr>)" "I d" "bvrt_steps fp n d = Some d'"
  shows "I d'"
  using assms(3,4)
proof (induction n arbitrary: d)
  case (Suc n)
  then obtain d1 where "bvrt_step fp d = Some (BV_OK, d1)" "bvrt_steps fp n d1 = Some d'"
    by (auto split: option.splits prod.splits bv_status.splits)
  moreover from this have "I d1"
    using device_invariant.step_keeps [OF assms(1)] assms(2) Suc.prems(1) by blast
  ultimately show ?case using Suc.IH by blast
qed simp

text \<open>
  The interface of a tool around the interpreter: it has a device inside, and its step is the step of
  that device, with the same status.
\<close>

locale stepper =
  fixes fp :: fpu and dev :: "'s \<Rightarrow> bvrt_device" and stp :: "'s \<Rightarrow> (bv_status \<times> 's) option"
  assumes step_dev: "w_active (d_warp (dev s)) \<noteq> 0 \<Longrightarrow> stp s = Some (st, s') \<Longrightarrow> bvrt_step fp (dev s) = Some (st, dev s')"
begin

fun many :: "nat \<Rightarrow> 's \<Rightarrow> 's option" where
  "many 0 s = Some s"
| "many (Suc n) s = (if w_active (d_warp (dev s)) = 0 then None
     else case stp s of Some (BV_OK, s') \<Rightarrow> many n s' | _ \<Rightarrow> None)"

lemma many_steps: "many n s = Some s' \<Longrightarrow> bvrt_steps fp n (dev s) = Some (dev s')"
proof (induction n arbitrary: s)
  case (Suc n)
  then obtain s1 where s1: "stp s = Some (BV_OK, s1)" "many n s1 = Some s'" "w_active (d_warp (dev s)) \<noteq> 0"
    by (auto split: option.splits prod.splits bv_status.splits if_splits)
  then show ?case using step_dev [OF s1(3,1)] Suc.IH by simp
qed simp

lemma many_Suc: "w_active (d_warp (dev s)) \<noteq> 0 \<Longrightarrow> stp s = Some (BV_OK, s1) \<Longrightarrow> many n s1 = Some s' \<Longrightarrow>
    many (Suc n) s = Some s'"
  by simp

end

lemma bradgdb_step_dev: "bradgdb_step fp g = Some (st, g') \<Longrightarrow> bvrt_step fp (g_dev g) = Some (st, g_dev g')"
  by (auto simp: bradgdb_step_def Let_def split: option.splits if_splits)

interpretation gdb: stepper fp g_dev "bradgdb_step fp" for fp
  by unfold_locales (rule bradgdb_step_dev)

end
