(* ===== verification/Bradtimeline.thy ===== *)
theory Bradtimeline
  imports Bradgdb
begin

text \<open>
  The profiler \<open>bradvector/bradtimeline.c\<close>: it steps the interpreter and records an event per
  instruction and an opcode histogram. \<open>bvtl_summary\<close> and \<open>bvtl_export_csv\<close> are given by the rows
  they print. The per-kernel statistics of the structure are never written by the code.
\<close>

record bvtl_event =
  ev_cycle :: u64
  ev_pc :: u32
  ev_op :: u8
  ev_lanes :: u8

record bvtl =
  tl_dev :: bvrt_device
  tl_events :: "bvtl_event list"
  tl_insns :: u64
  tl_traps :: u64
  tl_hist :: "u8 \<Rightarrow> u64"

abbreviation (input) BVTL_MAX_EVENTS :: nat where "BVTL_MAX_EVENTS \<equiv> 65536"

definition bvtl_create :: "bvrt_device \<Rightarrow> bvtl" where
  "bvtl_create dev = \<lparr> tl_dev = dev, tl_events = [], tl_insns = 0, tl_traps = 0, tl_hist = (\<lambda>_. 0) \<rparr>"

definition popcount32 :: "u32 \<Rightarrow> nat" where
  "popcount32 x = fold (\<lambda>i n. if x AND push_bit i 1 \<noteq> 0 then n + 1 else n) [0..<32] 0"

definition event_op :: "bvrt_device \<Rightarrow> u32 \<Rightarrow> u8 option" where
  "event_op dev pc =
     (if unat pc < img_ninsn (d_img dev)
      then if unat pc < length (img_insns (d_img dev)) then Some (BV_INSN_OP (img_insns (d_img dev) ! unat pc))
        else None
      else Some 0xFF)"

definition bvtl_record :: "bvtl \<Rightarrow> u32 \<Rightarrow> u8 \<Rightarrow> bvtl option" where
  "bvtl_record tm pc nlanes =
     (if length (tl_events tm) < BVTL_MAX_EVENTS
      then map_option (\<lambda>c. tm\<lparr>
          tl_events := tl_events tm @ [\<lparr> ev_cycle = tl_insns tm, ev_pc = pc, ev_op = c, ev_lanes = nlanes \<rparr>],
          tl_hist := (tl_hist tm)(c := tl_hist tm c + 1) \<rparr>) (event_op (tl_dev tm) pc)
      else Some tm)"

definition bvtl_retire :: "fpu \<Rightarrow> bvtl \<Rightarrow> (bv_status \<times> bvtl) option" where
  "bvtl_retire fp tm =
     (let w = d_warp (tl_dev tm) in
      if w_active w = 0 then Some (BV_HALT, tm)
      else case bvrt_step fp (tl_dev tm) of None \<Rightarrow> None
        | Some (st, dev) \<Rightarrow>
            (case bvtl_record (tm\<lparr> tl_dev := dev, tl_insns := tl_insns tm + 1 \<rparr>) (w_pc w)
                (of_nat (popcount32 (w_active w))) of
               None \<Rightarrow> None
             | Some tm1 \<Rightarrow>
               Some (st, if st = BV_TRAP \<or> st = BV_OOB then tm1\<lparr> tl_traps := tl_traps tm1 + 1 \<rparr> else tm1)))"

definition bvtl_step :: "fpu \<Rightarrow> bvtl \<Rightarrow> (bv_status \<times> bvtl) option" where
  "bvtl_step fp tm = bvtl_retire fp tm"

lemma bvtl_record_frame:
  "bvtl_record tm pc nlanes = Some tm' \<Longrightarrow>
    tl_dev tm' = tl_dev tm \<and> tl_insns tm' = tl_insns tm \<and> tl_traps tm' = tl_traps tm"
  by (auto simp: bvtl_record_def split: if_splits)

lemma bvtl_retire_cases:
  assumes "bvtl_retire fp tm = Some (st, tm')" "w_active (d_warp (tl_dev tm)) \<noteq> 0"
  shows "bvrt_step fp (tl_dev tm) = Some (st, tl_dev tm') \<and> tl_insns tm' = tl_insns tm + 1"
  using assms
  by (auto simp: bvtl_retire_def Let_def split: option.splits if_splits dest!: bvtl_record_frame)

lemma bvtl_retire_halt:
  "w_active (d_warp (tl_dev tm)) = 0 \<Longrightarrow> bvtl_retire fp tm = Some (BV_HALT, tm)"
  by (simp add: bvtl_retire_def)

interpretation timeline: stepper fp tl_dev "bvtl_retire fp" for fp
  by unfold_locales (auto dest: bvtl_retire_cases)

lemma retire_ok_counts:
  "bvtl_retire fp tm = Some (BV_OK, tm') \<Longrightarrow> tl_insns tm' = tl_insns tm + 1"
  using bvtl_retire_cases [of fp tm BV_OK tm'] bvtl_retire_halt [of tm fp]
  by (cases "w_active (d_warp (tl_dev tm)) = 0") auto

function bvtl_run :: "fpu \<Rightarrow> bvtl \<Rightarrow> u64 \<Rightarrow> (bv_status \<times> bvtl) option" where
  "bvtl_run fp tm max_insns =
     (if tl_insns tm < max_insns then
        case bvtl_retire fp tm of None \<Rightarrow> None
        | Some (st, tm') \<Rightarrow> if st \<noteq> BV_OK then Some (st, tm') else bvtl_run fp tm' max_insns
      else Some (BV_TIMEOUT, tm))"
  by pat_completeness auto

termination
proof (relation "measure (\<lambda>(fp, tm, m). unat (m - tl_insns tm))")
  fix fp :: fpu and tm :: bvtl and m :: u64 and r st tm'
  assume a: "tl_insns tm < m" "bvtl_retire fp tm = Some r" "(st, tm') = r" "\<not> st \<noteq> BV_OK"
  then have "tl_insns tm' = tl_insns tm + 1" using retire_ok_counts by auto
  then show "((fp, tm', m), (fp, tm, m)) \<in> measure (\<lambda>(fp, tm, m). unat (m - tl_insns tm))"
    using run_measure [OF a(1)] by simp
qed simp

declare bvtl_run.simps [simp del]

text \<open>The rows of the two reports.\<close>

definition bvtl_summary :: "bvtl \<Rightarrow> u64 \<times> nat \<times> u64 \<times> (string \<times> u64) list" where
  "bvtl_summary tm = (tl_insns tm, length (tl_events tm), tl_traps tm,
     map (\<lambda>i. (bv_opcode_name (of_nat i), tl_hist tm (of_nat i)))
       (filter (\<lambda>i. tl_hist tm (of_nat i) \<noteq> 0) [0..<256]))"

definition bvtl_export_csv :: "bvtl \<Rightarrow> (u64 \<times> u32 \<times> u8 \<times> u8) list" where
  "bvtl_export_csv tm = map (\<lambda>e. (ev_cycle e, ev_pc e, ev_op e, ev_lanes e)) (tl_events tm)"

end
