(* ===== verification/CString.thy ===== *)
theory CString
  imports Prelude
begin

text \<open>
  What the text-processing parts of the tool chain use of the C library, in the "C" locale: character
  classes, \<open>strtol\<close>, the decimal conversions of \<open>snprintf\<close>. A C string is the list of its characters; the
  end of the list reads as the terminating NUL.
\<close>

section \<open>Character classes and numbers\<close>

definition chr_code :: "char \<Rightarrow> nat" where
  "chr_code c = of_char c"

definition isdigit :: "char \<Rightarrow> bool" where
  "isdigit c \<longleftrightarrow> 48 \<le> chr_code c \<and> chr_code c \<le> 57"

definition isalpha :: "char \<Rightarrow> bool" where
  "isalpha c \<longleftrightarrow> 65 \<le> chr_code c \<and> chr_code c \<le> 90 \<or> 97 \<le> chr_code c \<and> chr_code c \<le> 122"

definition isalnum :: "char \<Rightarrow> bool" where
  "isalnum c \<longleftrightarrow> isalpha c \<or> isdigit c"

definition isspace :: "char \<Rightarrow> bool" where
  "isspace c \<longleftrightarrow> chr_code c = 32 \<or> 9 \<le> chr_code c \<and> chr_code c \<le> 13"

text \<open>The value of a digit or letter in a number, 36 for other characters.\<close>

definition digit_value :: "char \<Rightarrow> int" where
  "digit_value c =
     (if isdigit c then int (chr_code c) - 48
      else if 97 \<le> chr_code c \<and> chr_code c \<le> 122 then int (chr_code c) - 87
      else if 65 \<le> chr_code c \<and> chr_code c \<le> 90 then int (chr_code c) - 55
      else 36)"

definition peek_chr :: "string \<Rightarrow> char" where
  "peek_chr s = (case s of [] \<Rightarrow> nul | c # _ \<Rightarrow> c)"

definition clamp_long :: "int \<Rightarrow> int" where
  "clamp_long v = max (- (2 ^ 63)) (min (2 ^ 63 - 1) v)"

text \<open>
  \<open>strtol\<close>: optional space and sign, the prefix that selects the base when it is 0, the digits. The
  second component is \<open>*end\<close>, the whole text when there is no number.
\<close>

definition strtol_base :: "int \<Rightarrow> string \<Rightarrow> int \<times> string" where
  "strtol_base base s =
     (if base \<noteq> 0 then (base, s)
      else if peek_chr s \<noteq> CHR ''0'' then (10, s)
      else if (peek_chr (tl s) = CHR ''x'' \<or> peek_chr (tl s) = CHR ''X'') \<and> digit_value (peek_chr (tl (tl s))) < 16
      then (16, tl (tl s))
      else (8, s))"

definition strtol :: "string \<Rightarrow> int \<Rightarrow> int \<times> string" where
  "strtol s base =
     (let s1 = dropWhile isspace s;
          neg = (peek_chr s1 = CHR ''-'');
          s2 = (if neg \<or> peek_chr s1 = CHR ''+'' then tl s1 else s1);
          (b, s3) = strtol_base base s2;
          ds = takeWhile (\<lambda>c. digit_value c < b) s3;
          v = foldl (\<lambda>acc c. acc * b + digit_value c) 0 ds
      in if ds = [] then (0, s)
         else (clamp_long (if neg then - v else v), drop (length ds) s3))"

lemma peek_chr_not_nul: "peek_chr p \<noteq> nul \<Longrightarrow> \<exists>c q. p = c # q \<and> peek_chr p = c"
  by (cases p) (auto simp: peek_chr_def)

lemma digit_value_isdigit: "isdigit c \<Longrightarrow> 0 \<le> digit_value c \<and> digit_value c < 10"
  by (auto simp: digit_value_def isdigit_def)

lemma isdigit_not_space: "isdigit c \<Longrightarrow> \<not> isspace c"
  by (auto simp: isdigit_def isspace_def)

lemma minus_not_space: "\<not> isspace (CHR ''-'')"
  by (simp add: isspace_def chr_code_def)

lemma strtol_base_length: "length (snd (strtol_base b s)) \<le> length s"
  by (auto simp: strtol_base_def)

lemma strtol_base_digit:
  assumes "isdigit (peek_chr s)"
  shows "takeWhile (\<lambda>c. digit_value c < fst (strtol_base 0 s)) (snd (strtol_base 0 s)) \<noteq> []"
proof -
  have nul: "\<not> isdigit nul" "\<not> digit_value nul < 16"
    by (simp_all add: isdigit_def digit_value_def chr_code_def nul_def)
  obtain c q where s: "s = c # q" using assms nul by (cases s) (auto simp: peek_chr_def)
  show ?thesis
  proof (cases "c = CHR ''0''")
    case True
    have z: "digit_value (CHR ''0'') = 0" by (simp add: digit_value_def isdigit_def chr_code_def)
    show ?thesis using nul s True z
      by (cases "tl q") (auto simp: strtol_base_def peek_chr_def)
  next
    case False
    then show ?thesis using assms s digit_value_isdigit [of c] by (simp add: strtol_base_def peek_chr_def)
  qed
qed

lemma strtol_progress:
  assumes "isdigit (peek_chr s) \<or> peek_chr s = CHR ''-'' \<and> isdigit (peek_chr (tl s))"
  shows "length (snd (strtol s 0)) < length s"
proof -
  have nul: "\<not> isdigit nul" "nul \<noteq> CHR ''-''" by (simp_all add: isdigit_def chr_code_def nul_def)
  obtain c q where s: "s = c # q" using assms nul by (cases s) (auto simp: peek_chr_def)
  have sp: "dropWhile isspace s = s"
    using assms s isdigit_not_space [of c] minus_not_space by (auto simp: peek_chr_def)
  have pk: "peek_chr s = c" by (simp add: s peek_chr_def)
  define s2 where "s2 = (if c = CHR ''-'' \<or> c = CHR ''+'' then tl s else s)"
  have pm: "\<not> isdigit (CHR ''-'')" "\<not> isdigit (CHR ''+'')" by (simp_all add: isdigit_def chr_code_def)
  have s2: "isdigit (peek_chr s2)" "length s2 \<le> length s"
    using assms s pm by (auto simp: s2_def peek_chr_def)
  obtain b s3 where b: "strtol_base 0 s2 = (b, s3)" by (cases "strtol_base 0 s2")
  have ne: "takeWhile (\<lambda>c. digit_value c < b) s3 \<noteq> []" using strtol_base_digit [OF s2(1)] b by simp
  have "snd (strtol s 0) = drop (length (takeWhile (\<lambda>c. digit_value c < b) s3)) s3"
    using ne b unfolding strtol_def sp Let_def pk s2_def disj_commute [of "c = CHR ''-''"] by simp
  moreover have "length s3 \<le> length s" using strtol_base_length [of 0 s2] b s2(2) by simp
  moreover have "0 < length (takeWhile (\<lambda>c. digit_value c < b) s3)" using ne by simp
  moreover have "length (takeWhile (\<lambda>c. digit_value c < b) s3) \<le> length s3" by (rule length_takeWhile_le)
  ultimately show ?thesis by (simp only: length_drop)
qed

section \<open>Printing\<close>

text \<open>The conversions \<open>%u\<close>, \<open>%d\<close> and \<open>%4u\<close> of \<open>snprintf\<close>, and its truncation to the buffer.\<close>

fun show_nat :: "nat \<Rightarrow> string" where
  "show_nat n = (if n < 10 then [char_of (48 + n)] else show_nat (n div 10) @ [char_of (48 + n mod 10)])"

declare show_nat.simps [simp del]

definition show_int :: "int \<Rightarrow> string" where
  "show_int i = (if i < 0 then CHR ''-'' # show_nat (nat (- i)) else show_nat (nat i))"

definition pad_left :: "nat \<Rightarrow> string \<Rightarrow> string" where
  "pad_left n s = replicate (n - length s) CHR '' '' @ s"

definition snprintf :: "nat \<Rightarrow> string \<Rightarrow> int \<times> string" where
  "snprintf cap s = (int (length s), take (cap - 1) s)"

end
