(* ===== verification/BradcLex.thy ===== *)
theory BradcLex
  imports Bvbc CString
begin

text \<open>
  The tokenizer of the assembler \<open>bradvector/bradc.c\<close>: the tokens,
  \<open>lex_take\<close>, \<open>skip_line\<close> and \<open>peek_line\<close>.

  The source text is a C string: the lexer position \<open>lx_p\<close> is what is left of it, and the end of the
  list reads as the terminating NUL.
\<close>

section \<open>Tokens\<close>

datatype tok_kind = T_EOF | T_ID | T_NUM | T_COLON | T_COMMA | T_NL | T_AT | T_DOT

text \<open>\<open>t_ival\<close> is the bit pattern of the \<open>int\<close>.\<close>

record tok =
  t_kind :: tok_kind
  t_text :: string
  t_ival :: u32

record lexer =
  lx_p :: string
  lx_line :: nat
  lx_t :: tok

definition no_tok :: tok where
  "no_tok = \<lparr> t_kind = T_EOF, t_text = [], t_ival = 0 \<rparr>"

definition lx_init :: "string \<Rightarrow> lexer" where
  "lx_init src = \<lparr> lx_p = src, lx_line = 1, lx_t = no_tok \<rparr>"

definition is_blank :: "char \<Rightarrow> bool" where
  "is_blank c \<longleftrightarrow> c = CHR '' '' \<or> chr_code c = 9"

definition is_newline :: "char \<Rightarrow> bool" where
  "is_newline c \<longleftrightarrow> chr_code c = 10"

definition ident_chr :: "char \<Rightarrow> bool" where
  "ident_chr c \<longleftrightarrow> isalnum c \<or> c = CHR ''_'' \<or> c = CHR ''+'' \<or> c = CHR ''-''"

definition punct :: "char \<Rightarrow> tok_kind option" where
  "punct c = (if c = CHR '','' then Some T_COMMA else if c = CHR '':'' then Some T_COLON
     else if c = CHR ''@'' then Some T_AT else if c = CHR ''.'' then Some T_DOT else None)"

definition lex_take :: "lexer \<Rightarrow> lexer" where
  "lex_take lx =
     (let p = dropWhile is_blank (lx_p lx); c = peek_chr p in
      if c = nul then lx\<lparr> lx_p := p, lx_t := no_tok \<rparr>
      else if is_newline c
      then lx\<lparr> lx_p := tl p, lx_line := lx_line lx + 1, lx_t := no_tok\<lparr> t_kind := T_NL \<rparr> \<rparr>
      else if c = CHR '';'' \<or> c = CHR ''#''
      then lx\<lparr> lx_p := dropWhile (\<lambda>d. d \<noteq> nul \<and> \<not> is_newline d) p, lx_t := no_tok\<lparr> t_kind := T_NL \<rparr> \<rparr>
      else case punct c of
        Some k \<Rightarrow> lx\<lparr> lx_p := tl p, lx_t := no_tok\<lparr> t_kind := k \<rparr> \<rparr>
      | None \<Rightarrow>
        if isdigit c \<or> c = CHR ''-'' \<and> isdigit (peek_chr (tl p))
        then let (v, rest) = strtol p 0 in
          lx\<lparr> lx_p := rest, lx_t := no_tok\<lparr> t_kind := T_NUM, t_ival := of_int v \<rparr> \<rparr>
        else if isalpha c \<or> c = CHR ''_''
        then let txt = take 63 (takeWhile ident_chr p) in
          lx\<lparr> lx_p := drop (length txt) p, lx_t := no_tok\<lparr> t_kind := T_ID, t_text := txt \<rparr> \<rparr>
        else lx\<lparr> lx_p := tl p, lx_t := no_tok\<lparr> t_kind := T_ID, t_text := [c] \<rparr> \<rparr>)"

abbreviation lx_kind :: "lexer \<Rightarrow> tok_kind" where
  "lx_kind lx \<equiv> t_kind (lx_t lx)"

abbreviation lx_text :: "lexer \<Rightarrow> string" where
  "lx_text lx \<equiv> t_text (lx_t lx)"

section \<open>Progress\<close>

text \<open>Text left to read, plus one while the current token is not the end.\<close>

definition lx_measure :: "lexer \<Rightarrow> nat" where
  "lx_measure lx = length (lx_p lx) + (if lx_kind lx = T_EOF then 0 else 1)"

lemma lex_take_progress:
  assumes "lx_kind lx \<noteq> T_EOF"
  shows "lx_measure (lex_take lx) < lx_measure lx"
proof -
  let ?p = "dropWhile is_blank (lx_p lx)"
  have len: "length ?p \<le> length (lx_p lx)" by (rule length_dropWhile_le)
  show ?thesis
  proof (cases "peek_chr ?p = nul")
    case True
    then show ?thesis using len assms by (simp add: lex_take_def lx_measure_def no_tok_def)
  next
    case False
    then obtain c q where p: "?p = c # q" "peek_chr ?p = c" using peek_chr_not_nul by blast
    have "length (lx_p (lex_take lx)) < length ?p"
    proof -
      have com: "length (dropWhile (\<lambda>d. d \<noteq> nul \<and> \<not> is_newline d) (c # q)) < length (c # q)"
        if "\<not> is_newline c" "c = CHR '';'' \<or> c = CHR ''#''"
        using that length_dropWhile_le [of "\<lambda>d. d \<noteq> nul \<and> \<not> is_newline d" q] by (auto simp: nul_def less_Suc_eq_le)
      have id: "isalpha c \<or> c = CHR ''_'' \<Longrightarrow> 0 < length (take 63 (takeWhile ident_chr (c # q)))"
        by (auto simp: ident_chr_def isalnum_def)
      have num: "isdigit c \<or> c = CHR ''-'' \<and> isdigit (peek_chr q) \<Longrightarrow> length (snd (strtol (c # q) 0)) < length (c # q)"
        by (rule strtol_progress) (simp add: peek_chr_def)
      show ?thesis using False p com id num
        by (auto simp: lex_take_def Let_def peek_chr_def split: option.splits prod.splits if_splits)
    qed
    then show ?thesis using len assms by (auto simp: lx_measure_def)
  qed
qed

lemma lex_take_le: "lx_measure (lex_take lx) \<le> length (lx_p lx)"
proof -
  let ?t = "lx\<lparr> lx_t := no_tok\<lparr> t_kind := T_NL \<rparr> \<rparr>"
  have "lex_take ?t = lex_take lx"
    by (auto simp: lex_take_def Let_def split: option.splits prod.splits)
  moreover have "lx_measure ?t = length (lx_p lx) + 1" by (simp add: lx_measure_def)
  moreover have "lx_measure (lex_take ?t) < lx_measure ?t" by (rule lex_take_progress) simp
  ultimately show ?thesis by simp
qed

section \<open>Lines\<close>

text \<open>\<open>while (t != T_NL && t != T_EOF) lex_take; if (t == T_NL) lex_take;\<close>\<close>

function skip_line :: "lexer \<Rightarrow> lexer" where
  "skip_line lx =
     (if lx_kind lx = T_NL then lex_take lx
      else if lx_kind lx = T_EOF then lx
      else skip_line (lex_take lx))"
  by auto
termination by (relation "measure lx_measure") (auto intro: lex_take_progress)

declare skip_line.simps [simp del]

lemma skip_line_le: "lx_measure (skip_line lx) \<le> lx_measure lx"
proof (induction lx rule: skip_line.induct)
  case (1 lx)
  then show ?case using lex_take_progress [of lx] skip_line.simps [of lx] by fastforce
qed

lemma skip_line_progress: "lx_kind lx \<noteq> T_EOF \<Longrightarrow> lx_measure (skip_line lx) < lx_measure lx"
  using lex_take_progress [of lx] skip_line_le [of "lex_take lx"] skip_line.simps [of lx] by auto

lemma skip_line_take: "lx_kind lx \<noteq> T_NL \<Longrightarrow> lx_kind lx \<noteq> T_EOF \<Longrightarrow> skip_line (lex_take lx) = skip_line lx"
  by (simp add: skip_line.simps [of lx])

datatype line_type = LT_LABEL | LT_DIR | LT_INSN

definition is_keyword :: "tok \<Rightarrow> bool" where
  "is_keyword t \<longleftrightarrow> t_kind t = T_ID \<and> (t_text t = ''kernel'' \<or> t_text t = ''end'')"

text \<open>The lexer is restored before the second test of the identifier branch, so that test sees the
  identifier again.\<close>

definition peek_line :: "lexer \<Rightarrow> line_type" where
  "peek_line lx =
     (if lx_kind lx = T_ID then
        let l1 = lex_take lx; is_label = (lx_kind l1 = T_COLON); l2 = lex_take l1;
            is_kw = is_keyword (lx_t l2) in
        if is_label then LT_LABEL
        else if lx_kind lx = T_DOT \<and> is_kw then LT_DIR
        else LT_INSN
      else if lx_kind lx = T_DOT then (if is_keyword (lx_t (lex_take lx)) then LT_DIR else LT_INSN)
      else LT_INSN)"

lemma peek_line_cases:
  "peek_line lx = LT_LABEL \<longleftrightarrow> lx_kind lx = T_ID \<and> lx_kind (lex_take lx) = T_COLON"
  "peek_line lx = LT_DIR \<longleftrightarrow> lx_kind lx = T_DOT \<and> is_keyword (lx_t (lex_take lx))"
  by (auto simp: peek_line_def Let_def)

end
