(* ===== verification/Bradc.thy ===== *)
theory Bradc
  imports BradcLex
begin

text \<open>
  The two-pass assembler \<open>bradvector/bradc.c\<close>: symbol table, operands, branches, the opcode table, the
  instruction forms and the two passes of \<open>bradc_assemble\<close>.

  An assembly step yields undefined behaviour (the image has no room for its instructions), an error
  with its line and message, or a value. On an error the half-built image is not returned.
\<close>

section \<open>Results\<close>

datatype asm_msg = Instruction_outside_kernel | Stream_full | Undefined_label string
  | Branch_out_of_range string | Expected_label_or_offset | Expected_predicate | Bad_predicate int
  | End_without_kernel | Nested_kernel | Kernel_expects_name | Kernel_table_full | Expects_S string
  | Unknown_opcode string | Bad_destination string | Bad_destination_class string | Bad_source string
  | Cmp_destination | Cmp_source | Memory_base | Bad_memory_operand | Memory_needs_offset
  | Expects_immediate string | No_immediate string | Bad_source_class string | Missing_end

datatype 'a asm_res = AsmUndef | AsmErr nat asm_msg | AsmOk 'a

abbreviation asm_bind :: "'a asm_res \<Rightarrow> ('a \<Rightarrow> 'b asm_res) \<Rightarrow> 'b asm_res" where
  "asm_bind r f \<equiv> (case r of AsmUndef \<Rightarrow> AsmUndef | AsmErr l m \<Rightarrow> AsmErr l m | AsmOk x \<Rightarrow> f x)"

lemma asm_bind_Ok: "asm_bind r f = AsmOk y \<longleftrightarrow> (\<exists>x. r = AsmOk x \<and> f x = AsmOk y)"
  by (cases r) auto

section \<open>Symbol table\<close>

record bradc_asm =
  a_img :: bvbc_image
  a_syms :: "(string \<times> u32) list"
  a_in_kernel :: bool
  a_kpc :: u32

abbreviation (input) BRADC_MAX_SYMBOLS :: nat where "BRADC_MAX_SYMBOLS \<equiv> 1024"

text \<open>The table holds each name with its address; the first entry of a name is the one found.\<close>

definition b_find :: "bradc_asm \<Rightarrow> string \<Rightarrow> u32 option" where
  "b_find a name = map_of (a_syms a) name"

definition b_add :: "bradc_asm \<Rightarrow> string \<Rightarrow> u32 \<Rightarrow> bradc_asm" where
  "b_add a name addr =
     (if BRADC_MAX_SYMBOLS \<le> length (a_syms a) then a
      else a\<lparr> a_syms := a_syms a @ [(take 63 name, addr)] \<rparr>)"

section \<open>Operands\<close>

datatype ocls = OC_NONE | OC_S | OC_V | OC_P

record operand =
  o_is_reg :: bool
  o_cls :: ocls
  o_num :: u32

definition reg_class :: "char \<Rightarrow> ocls" where
  "reg_class r =
     (if r = CHR ''S'' \<or> r = CHR ''s'' then OC_S else if r = CHR ''V'' \<or> r = CHR ''v'' then OC_V
      else if r = CHR ''P'' \<or> r = CHR ''p'' then OC_P else OC_NONE)"

fun reg_limit :: "ocls \<Rightarrow> int" where
  "reg_limit OC_S = int BV_SCALAR_REGS"
| "reg_limit OC_V = int BV_VEC_REGS"
| "reg_limit _ = int BV_PRED_REGS"

definition parse_reg :: "tok \<Rightarrow> ocls \<Rightarrow> operand option" where
  "parse_reg t cls =
     (if t_kind t \<noteq> T_ID then None
      else if reg_class (peek_chr (t_text t)) \<noteq> cls then None
      else let (v, rest) = strtol (tl (t_text t)) 10 in
        if rest \<noteq> [] \<or> v < 0 \<or> reg_limit cls \<le> v then None
        else Some \<lparr> o_is_reg = True, o_cls = cls, o_num = of_int v \<rparr>)"

definition parse_operand :: "tok \<Rightarrow> operand option" where
  "parse_operand t =
     (if t_kind t = T_NUM then Some \<lparr> o_is_reg = False, o_cls = OC_NONE, o_num = t_ival t \<rparr>
      else if t_kind t = T_ID then
        (case parse_reg t OC_S of Some x \<Rightarrow> Some x
         | None \<Rightarrow> case parse_reg t OC_V of Some x \<Rightarrow> Some x | None \<Rightarrow> parse_reg t OC_P)
      else None)"

definition next_src :: "lexer \<Rightarrow> lexer" where
  "next_src lx = (let l1 = lex_take lx in if lx_kind l1 = T_COMMA then lex_take l1 else l1)"

section \<open>Emitting\<close>

definition b_emit :: "bradc_asm \<Rightarrow> u64 \<Rightarrow> nat \<Rightarrow> bradc_asm asm_res" where
  "b_emit a insn line =
     (if \<not> a_in_kernel a then AsmErr line Instruction_outside_kernel
      else case bvbc_emit (a_img a) insn of
        None \<Rightarrow> AsmUndef
      | Some (r, img) \<Rightarrow> if r < 0 then AsmErr line Stream_full
          else AsmOk (a\<lparr> a_img := img, a_kpc := a_kpc a + 1 \<rparr>))"

text \<open>\<open>BVEN\<close> with byte operands, as the assembler uses it: flags and modifier are always 0.\<close>

definition asm_word :: "bv_opcode \<Rightarrow> u8 \<Rightarrow> u8 \<Rightarrow> u8 \<Rightarrow> u8 \<Rightarrow> u8 \<Rightarrow> u64" where
  "asm_word opc pred dst src1 src2 imm =
     BVEN (ucast (opcode_byte opc)) (ucast pred) (ucast dst) (ucast src1) (ucast src2) (ucast imm) 0 0"

definition b_branch :: "bradc_asm \<Rightarrow> lexer \<Rightarrow> bv_opcode \<Rightarrow> u8 \<Rightarrow> bradc_asm asm_res" where
  "b_branch a lx opc pred =
     (if lx_kind lx = T_NUM then b_emit a (asm_word opc pred 0 0 0 (ucast (t_ival (lx_t lx)))) (lx_line lx)
      else if lx_kind lx = T_ID then
        case b_find a (lx_text lx) of
          None \<Rightarrow> AsmErr (lx_line lx) (Undefined_label (lx_text lx))
        | Some addr \<Rightarrow>
            let d = int (unat addr) - (int (unat (a_kpc a)) + 1) in
            if d < -128 \<or> 127 < d then AsmErr (lx_line lx) (Branch_out_of_range (lx_text lx))
            else b_emit a (asm_word opc pred 0 0 0 (of_int d)) (lx_line lx)
      else AsmErr (lx_line lx) Expected_label_or_offset)"

section \<open>Opcode table\<close>

definition optab :: "(string \<times> bv_opcode) list" where
  "optab = [
    (''ADD'', OP_ALU BV_OP_ADD), (''ADDi'', OP_ALU BV_OP_ADDi), (''MOV'', OP_ALU BV_OP_ADDi),
    (''SUB'', OP_ALU BV_OP_SUB), (''MUL'', OP_ALU BV_OP_MUL), (''MAD'', OP_ALU BV_OP_MAD),
    (''DIV'', OP_ALU BV_OP_DIV),
    (''SQRT'', OP_ALU BV_OP_SQRT), (''RSQRT'', OP_ALU BV_OP_RSQRT), (''RCP'', OP_SFU BV_OP_RCP),
    (''SIN'', OP_SFU BV_OP_SIN), (''COS'', OP_SFU BV_OP_COS),
    (''EXP2'', OP_SFU BV_OP_EXP2), (''LOG2'', OP_SFU BV_OP_LOG2),
    (''MIN'', OP_ALU BV_OP_MIN), (''MAX'', OP_ALU BV_OP_MAX), (''ABS'', OP_ALU BV_OP_ABS),
    (''NEG'', OP_ALU BV_OP_NEG), (''SEL'', OP_ALU BV_OP_SEL), (''CMP'', OP_ALU BV_OP_CMP),
    (''IADD'', OP_INT BV_OP_IADD), (''ISUB'', OP_INT BV_OP_ISUB), (''IMUL'', OP_INT BV_OP_IMUL),
    (''IDIV'', OP_INT BV_OP_IDIV), (''IMAD'', OP_INT BV_OP_IMAD), (''POPC'', OP_INT BV_OP_POPC),
    (''CLZ'', OP_INT BV_OP_CLZ), (''SHL'', OP_INT BV_OP_SHL), (''SHR'', OP_INT BV_OP_SHR),
    (''AND'', OP_INT BV_OP_AND), (''OR'', OP_INT BV_OP_OR), (''XOR'', OP_INT BV_OP_XOR),
    (''NOT'', OP_INT BV_OP_NOT),
    (''VADD'', OP_VEC BV_OP_VADD), (''VMUL'', OP_VEC BV_OP_VMUL), (''VDOT'', OP_VEC BV_OP_VDOT),
    (''VMAD'', OP_VEC BV_OP_VMAD), (''VBROADCAST'', OP_VEC BV_OP_VBROADCAST),
    (''VREDUCE'', OP_VEC BV_OP_VREDUCE),
    (''LOAD'', OP_MEM BV_OP_LOAD), (''LOADV'', OP_MEM BV_OP_LOADV),
    (''STORE'', OP_MEM BV_OP_STORE), (''STOREV'', OP_MEM BV_OP_STOREV),
    (''BR'', OP_CTL BV_OP_BR), (''BR_COND'', OP_CTL BV_OP_BR_COND), (''CALL'', OP_CTL BV_OP_CALL),
    (''RET'', OP_CTL BV_OP_RET), (''BAR'', OP_CTL BV_OP_BAR), (''EXIT'', OP_CTL BV_OP_EXIT),
    (''TRAP'', OP_CTL BV_OP_TRAP),
    (''LANE_ID'', OP_SFU BV_OP_LANE_ID), (''WARP_SZ'', OP_SFU BV_OP_WARP_SZ),
    (''CLOCK'', OP_SFU BV_OP_CLOCK)]"

text \<open>\<open>None\<close> stands for the value \<open>0xFF\<close> of an unknown mnemonic.\<close>

definition op_of :: "string \<Rightarrow> bv_opcode option" where
  "op_of name = map_of optab name"

text \<open>\<open>OP@P#\<close>: the predicate \<open>P0..P15\<close> is stored as 1 to 16.\<close>

definition parse_pred :: "lexer \<Rightarrow> (lexer \<times> u8) asm_res" where
  "parse_pred lx =
     (let l1 = lex_take lx in
      if lx_kind l1 \<noteq> T_AT then AsmOk (l1, 0)
      else let l2 = lex_take l1 in
        if lx_kind l2 \<noteq> T_ID \<or> peek_chr (lx_text l2) \<noteq> CHR ''P''
        then AsmErr (lx_line l2) Expected_predicate
        else let (p, rest) = strtol (tl (lx_text l2)) 10 in
          if rest \<noteq> [] \<or> p < 0 \<or> int BV_PRED_REGS \<le> p then AsmErr (lx_line l2) (Bad_predicate p)
          else AsmOk (next_src l2, of_int p + 1))"

section \<open>Instruction forms\<close>

definition is_vec_op :: "bv_opcode \<Rightarrow> bool" where
  "is_vec_op opc \<longleftrightarrow> opcode_byte (OP_VEC BV_OP_VADD) \<le> opcode_byte opc \<and>
     opcode_byte opc \<le> opcode_byte (OP_VEC BV_OP_VREDUCE)"

definition is_mem_op :: "bv_opcode \<Rightarrow> bool" where
  "is_mem_op opc \<longleftrightarrow> opcode_byte (OP_MEM BV_OP_LOAD) \<le> opcode_byte opc \<and>
     opcode_byte opc \<le> opcode_byte (OP_MEM BV_OP_STOREV)"

definition is_one_op :: "bv_opcode \<Rightarrow> bool" where
  "is_one_op opc \<longleftrightarrow> opc \<in> {OP_ALU BV_OP_ABS, OP_ALU BV_OP_NEG, OP_INT BV_OP_NOT, OP_INT BV_OP_POPC,
     OP_INT BV_OP_CLZ, OP_ALU BV_OP_SQRT, OP_ALU BV_OP_RSQRT, OP_SFU BV_OP_RCP, OP_SFU BV_OP_SIN,
     OP_SFU BV_OP_COS, OP_SFU BV_OP_EXP2, OP_SFU BV_OP_LOG2}"

definition dst_class :: "bv_opcode \<Rightarrow> ocls" where
  "dst_class opc = (if opc = OP_ALU BV_OP_CMP then OC_P
     else if opc = OP_MEM BV_OP_LOADV then OC_V else OC_S)"

definition num8 :: "operand \<Rightarrow> u8" where
  "num8 x = ucast (o_num x)"

text \<open>
  The instruction forms return the lexer where they stop, from which the rest of the line is skipped.
\<close>

definition emit_at :: "lexer \<Rightarrow> bradc_asm \<Rightarrow> u64 \<Rightarrow> (lexer \<times> bradc_asm) asm_res" where
  "emit_at lx a insn = asm_bind (b_emit a insn (lx_line lx)) (\<lambda>a1. AsmOk (lx, a1))"

text \<open>\<open>LANE_ID\<close>, \<open>WARP_SZ\<close>, \<open>CLOCK\<close>: one scalar destination.\<close>

definition asm_special :: "bradc_asm \<Rightarrow> lexer \<Rightarrow> string \<Rightarrow> bv_opcode \<Rightarrow> u8 \<Rightarrow> (lexer \<times> bradc_asm) asm_res" where
  "asm_special a lx mn opc pred =
     (case parse_operand (lx_t lx) of
        None \<Rightarrow> AsmErr (lx_line lx) (Expects_S mn)
      | Some d \<Rightarrow> if o_cls d \<noteq> OC_S then AsmErr (lx_line lx) (Expects_S mn)
          else emit_at lx a (asm_word opc pred (num8 d) 0 0 0))"

text \<open>\<open>CMP P#, S#, S#\<close>: a number in last position is taken as \<open>S0\<close>.\<close>

definition asm_cmp :: "bradc_asm \<Rightarrow> lexer \<Rightarrow> bv_opcode \<Rightarrow> u8 \<Rightarrow> operand \<Rightarrow> operand \<Rightarrow> (lexer \<times> bradc_asm) asm_res" where
  "asm_cmp a lx opc pred d a1 =
     (if o_cls d \<noteq> OC_P then AsmErr (lx_line lx) Cmp_destination
      else let l1 = next_src lx in
        if lx_kind l1 = T_NUM then emit_at l1 a (asm_word opc pred (num8 d) (num8 a1) 0 0)
        else case parse_operand (lx_t l1) of
          None \<Rightarrow> AsmErr (lx_line l1) Cmp_source
        | Some b2 \<Rightarrow> if o_is_reg b2 \<and> o_cls b2 \<noteq> OC_S then AsmErr (lx_line l1) Cmp_source
            else emit_at l1 a (asm_word opc pred (num8 d) (num8 a1) (num8 b2) 0))"

text \<open>Loads have the base second, stores first; the base goes to \<open>SRC1\<close>, the value to \<open>DST\<close>.\<close>

definition asm_mem :: "bradc_asm \<Rightarrow> lexer \<Rightarrow> bv_opcode \<Rightarrow> u8 \<Rightarrow> operand \<Rightarrow> operand \<Rightarrow> (lexer \<times> bradc_asm) asm_res" where
  "asm_mem a lx opc pred d a1 =
     (let is_store = (opc = OP_MEM BV_OP_STORE \<or> opc = OP_MEM BV_OP_STOREV);
          want_val = (if opc = OP_MEM BV_OP_STOREV then OC_V else OC_S) in
      if o_cls (if is_store then d else a1) \<noteq> OC_S then AsmErr (lx_line lx) Memory_base
      else if o_cls (if is_store then a1 else d) \<noteq> want_val then AsmErr (lx_line lx) Bad_memory_operand
      else let l1 = next_src lx in
        if lx_kind l1 \<noteq> T_NUM then AsmErr (lx_line l1) Memory_needs_offset
        else emit_at l1 a (asm_word opc pred (if is_store then num8 a1 else num8 d)
               (if is_store then num8 d else num8 a1) 0 (ucast (t_ival (lx_t l1)))))"

definition asm_regs :: "bradc_asm \<Rightarrow> lexer \<Rightarrow> string \<Rightarrow> bv_opcode \<Rightarrow> u8 \<Rightarrow> operand \<Rightarrow> operand \<Rightarrow> (lexer \<times> bradc_asm) asm_res" where
  "asm_regs a lx mn opc pred d a1 =
     (if mn = ''MOV'' then
        emit_at (next_src lx) a (asm_word (OP_ALU BV_OP_ADDi) pred (num8 d) (num8 a1) 0 0)
      else if opc = OP_ALU BV_OP_ADDi then
        let l1 = next_src lx in
        if lx_kind l1 \<noteq> T_NUM then AsmErr (lx_line l1) (Expects_immediate mn)
        else emit_at l1 a (asm_word opc pred (num8 d) (num8 a1) 0 (ucast (t_ival (lx_t l1))))
      else if is_one_op opc then emit_at lx a (asm_word opc pred (num8 d) (num8 a1) 0 0)
      else let l1 = next_src lx in
        if lx_kind l1 = T_NUM then AsmErr (lx_line l1) (No_immediate mn)
        else case parse_operand (lx_t l1) of
          None \<Rightarrow> AsmErr (lx_line l1) (Bad_source_class mn)
        | Some a2 \<Rightarrow>
            if o_cls a2 \<noteq> (if is_vec_op opc \<and> opc \<noteq> OP_VEC BV_OP_VBROADCAST then OC_V else OC_S)
            then AsmErr (lx_line l1) (Bad_source_class mn)
            else emit_at l1 a (asm_word opc pred (num8 d) (num8 a1) (num8 a2) 0))"

text \<open>From the destination operand on.\<close>

definition asm_operands :: "bradc_asm \<Rightarrow> lexer \<Rightarrow> string \<Rightarrow> bv_opcode \<Rightarrow> u8 \<Rightarrow> (lexer \<times> bradc_asm) asm_res" where
  "asm_operands a lx mn opc pred =
     (case parse_operand (lx_t lx) of
        None \<Rightarrow> AsmErr (lx_line lx) (Bad_destination mn)
      | Some d \<Rightarrow>
        if o_cls d \<noteq> dst_class opc then AsmErr (lx_line lx) (Bad_destination_class mn)
        else let l1 = next_src lx in
          case parse_operand (lx_t l1) of
            None \<Rightarrow> AsmErr (lx_line l1) (Bad_source mn)
          | Some a1 \<Rightarrow>
              if opc = OP_ALU BV_OP_CMP then asm_cmp a l1 opc pred d a1
              else if is_mem_op opc then asm_mem a l1 opc pred d a1
              else asm_regs a l1 mn opc pred d a1)"

definition asm_dispatch :: "bradc_asm \<Rightarrow> lexer \<Rightarrow> string \<Rightarrow> u8 \<Rightarrow> (lexer \<times> bradc_asm) asm_res" where
  "asm_dispatch a lx mn pred = (case op_of mn of
       None \<Rightarrow> AsmErr (lx_line lx) (Unknown_opcode mn)
     | Some opc \<Rightarrow>
         if opc \<in> {OP_CTL BV_OP_RET, OP_CTL BV_OP_EXIT, OP_CTL BV_OP_BAR, OP_CTL BV_OP_TRAP}
         then emit_at lx a (asm_word opc pred 0 0 0 0)
         else if opc \<in> {OP_CTL BV_OP_BR, OP_CTL BV_OP_BR_COND, OP_CTL BV_OP_CALL}
         then asm_bind (b_branch a lx opc pred) (\<lambda>a1. AsmOk (lx, a1))
         else if opc \<in> {OP_SFU BV_OP_LANE_ID, OP_SFU BV_OP_WARP_SZ, OP_SFU BV_OP_CLOCK}
         then asm_special a lx mn opc pred
         else asm_operands a lx mn opc pred)"

definition asm_insn :: "bradc_asm \<Rightarrow> lexer \<Rightarrow> (lexer \<times> bradc_asm) asm_res" where
  "asm_insn a lx = asm_bind (parse_pred lx) (\<lambda>(l1, pred).
     asm_bind (asm_dispatch a l1 (take 63 (lx_text lx)) pred) (\<lambda>(l2, a2). AsmOk (skip_line l2, a2)))"

section \<open>Pass 1\<close>

definition pass1_line :: "bradc_asm \<Rightarrow> lexer \<Rightarrow> lexer \<times> bradc_asm" where
  "pass1_line a lx = (case peek_line lx of
     LT_DIR \<Rightarrow> let l1 = lex_take lx; is_end = (lx_text l1 = ''end'') in
       (skip_line l1, a\<lparr> a_in_kernel := \<not> is_end, a_kpc := 0 \<rparr>)
   | LT_LABEL \<Rightarrow> let l2 = lex_take (lex_take lx) in
       (skip_line l2,
        if a_in_kernel a \<and> b_find a (lx_text lx) = None then b_add a (lx_text lx) (a_kpc a) else a)
   | LT_INSN \<Rightarrow> (skip_line lx, if a_in_kernel a then a\<lparr> a_kpc := a_kpc a + 1 \<rparr> else a))"

lemma lx_measure_take_le: "lx_measure (lex_take lx) \<le> lx_measure lx"
  using lex_take_le [of lx] by (simp add: lx_measure_def)

lemma pass1_line_skips:
  assumes "lx_kind lx \<noteq> T_EOF" "lx_kind lx \<noteq> T_NL"
  shows "fst (pass1_line a lx) = skip_line lx"
proof (cases "peek_line lx")
  case LT_LABEL
  then have "lx_kind (lex_take lx) = T_COLON" by (simp add: peek_line_cases)
  then have "skip_line (lex_take (lex_take lx)) = skip_line (lex_take lx)" by (simp add: skip_line_take)
  then show ?thesis using LT_LABEL assms by (simp add: pass1_line_def Let_def skip_line_take)
qed (use assms in \<open>simp_all add: pass1_line_def Let_def skip_line_take\<close>)

function pass1 :: "bradc_asm \<Rightarrow> lexer \<Rightarrow> bradc_asm" where
  "pass1 a lx =
     (if lx_kind lx = T_EOF then a
      else if lx_kind lx = T_NL then pass1 a (lex_take lx)
      else let r = pass1_line a lx in pass1 (snd r) (fst r))"
  by auto
termination
  by (relation "measure (\<lambda>(a, lx). lx_measure lx)")
     (auto simp: pass1_line_skips intro: lex_take_progress skip_line_progress)

declare pass1.simps [simp del]

section \<open>Pass 2\<close>

definition pass2_dir :: "bradc_asm \<Rightarrow> lexer \<Rightarrow> (lexer \<times> bradc_asm) asm_res" where
  "pass2_dir a lx =
     (let l1 = lex_take lx in
      if lx_text l1 = ''end'' then
        if \<not> a_in_kernel a then AsmErr (lx_line l1) End_without_kernel
        else AsmOk (skip_line l1, a\<lparr> a_in_kernel := False, a_kpc := 0 \<rparr>)
      else if a_in_kernel a then AsmErr (lx_line l1) Nested_kernel
      else let l2 = next_src l1 in
        if lx_kind l2 \<noteq> T_ID then AsmErr (lx_line l2) Kernel_expects_name
        else let (r, img) = bvbc_add_kernel (a_img a) (take 63 (lx_text l2)) (of_nat (img_ninsn (a_img a))) 0 in
          if r < 0 then AsmErr (lx_line l2) Kernel_table_full
          else AsmOk (skip_line l2, a\<lparr> a_img := img, a_in_kernel := True, a_kpc := 0 \<rparr>))"

definition pass2_line :: "bradc_asm \<Rightarrow> lexer \<Rightarrow> (lexer \<times> bradc_asm) asm_res" where
  "pass2_line a lx = (case peek_line lx of
     LT_DIR \<Rightarrow> pass2_dir a lx
   | LT_LABEL \<Rightarrow> AsmOk (skip_line lx, a)
   | LT_INSN \<Rightarrow> asm_insn a lx)"

text \<open>Pass 2 never reads past the line it is on: it ends where skipping the line from its first token
  ends.\<close>

lemma emit_at_Ok: "emit_at lx a w = AsmOk (l, a') \<longleftrightarrow> l = lx \<and> b_emit a w (lx_line lx) = AsmOk a'"
  by (auto simp: emit_at_def asm_bind_Ok)

lemma parse_operand_kind: "parse_operand t = Some x \<Longrightarrow> t_kind t = T_NUM \<or> t_kind t = T_ID"
  by (auto simp: parse_operand_def split: if_splits)

lemma skip_next_src:
  assumes "lx_kind lx \<noteq> T_NL" "lx_kind lx \<noteq> T_EOF"
  shows "skip_line (next_src lx) = skip_line lx"
  using assms by (simp add: next_src_def Let_def skip_line_take)

lemma skip_next_operand: "parse_operand (lx_t lx) = Some x \<Longrightarrow> skip_line (next_src lx) = skip_line lx"
  using parse_operand_kind [of "lx_t lx" x] by (auto simp: skip_next_src)

lemma parse_pred_skips:
  assumes "parse_pred lx = AsmOk (l, p)" "lx_kind lx \<noteq> T_NL" "lx_kind lx \<noteq> T_EOF"
  shows "skip_line l = skip_line lx"
  using assms by (auto simp: parse_pred_def Let_def skip_line_take skip_next_src split: if_splits prod.splits)

lemma asm_cmp_skips: "asm_cmp a lx opc p d a1 = AsmOk (l, a') \<Longrightarrow> l = next_src lx"
  by (auto simp: asm_cmp_def Let_def emit_at_Ok split: if_splits option.splits)

lemma asm_mem_skips: "asm_mem a lx opc p d a1 = AsmOk (l, a') \<Longrightarrow> l = next_src lx"
  by (auto simp: asm_mem_def Let_def emit_at_Ok split: if_splits)

lemma asm_regs_skips: "asm_regs a lx mn opc p d a1 = AsmOk (l, a') \<Longrightarrow> l = lx \<or> l = next_src lx"
  by (auto simp: asm_regs_def Let_def emit_at_Ok split: if_splits option.splits)

lemma asm_operands_skips:
  assumes "asm_operands a lx mn opc p = AsmOk (l, a')"
  shows "skip_line l = skip_line lx"
proof -
  obtain d a1 where d: "parse_operand (lx_t lx) = Some d" "parse_operand (lx_t (next_src lx)) = Some a1"
    and k: "asm_cmp a (next_src lx) opc p d a1 = AsmOk (l, a') \<or> asm_mem a (next_src lx) opc p d a1 = AsmOk (l, a')
      \<or> asm_regs a (next_src lx) mn opc p d a1 = AsmOk (l, a')"
    using assms by (auto simp: asm_operands_def Let_def split: if_splits option.splits)
  have "l = next_src lx \<or> l = next_src (next_src lx)"
    using k by (auto dest: asm_cmp_skips asm_mem_skips asm_regs_skips)
  then show ?thesis using skip_next_operand [OF d(1)] skip_next_operand [OF d(2)] by auto
qed

lemma asm_dispatch_skips:
  assumes "asm_dispatch a lx mn p = AsmOk (l, a')"
  shows "skip_line l = skip_line lx"
proof -
  have "l = lx \<or> (\<exists>opc. asm_operands a lx mn opc p = AsmOk (l, a'))"
    using assms unfolding asm_dispatch_def asm_special_def
    by (auto simp: emit_at_Ok asm_bind_Ok split: option.splits if_splits)
  then show ?thesis using asm_operands_skips by blast
qed

lemma pass2_line_skips:
  assumes "pass2_line a lx = AsmOk (l, a')" "lx_kind lx \<noteq> T_NL" "lx_kind lx \<noteq> T_EOF"
  shows "l = skip_line lx"
proof (cases "peek_line lx")
  case LT_LABEL
  then show ?thesis using assms(1) by (simp add: pass2_line_def)
next
  case LT_INSN
  then show ?thesis using assms parse_pred_skips [OF _ assms(2,3)] asm_dispatch_skips
    by (auto simp: pass2_line_def asm_insn_def asm_bind_Ok)
next
  case LT_DIR
  then have "lx_kind (lex_take lx) = T_ID" by (auto simp: peek_line_cases is_keyword_def)
  then show ?thesis using assms LT_DIR skip_next_src [of "lex_take lx"]
    by (auto simp: pass2_line_def pass2_dir_def Let_def skip_line_take split: if_splits prod.splits)
qed

function pass2 :: "bradc_asm \<Rightarrow> lexer \<Rightarrow> bradc_asm asm_res" where
  "pass2 a lx =
     (if lx_kind lx = T_EOF then AsmOk a
      else if lx_kind lx = T_NL then pass2 a (lex_take lx)
      else case pass2_line a lx of
        AsmUndef \<Rightarrow> AsmUndef
      | AsmErr l m \<Rightarrow> AsmErr l m
      | AsmOk r \<Rightarrow> pass2 (snd r) (fst r))"
  by auto
termination
  by (relation "measure (\<lambda>(a, lx). lx_measure lx)")
     (auto dest!: pass2_line_skips intro: lex_take_progress skip_line_progress)

declare pass2.simps [simp del]

section \<open>The assembler\<close>

definition bradc_assemble :: "string \<Rightarrow> bvbc_image \<Rightarrow> bvbc_image asm_res" where
  "bradc_assemble source img =
     (let start = lex_take (lx_init source);
          a1 = pass1 \<lparr> a_img = img, a_syms = [], a_in_kernel = False, a_kpc = 0 \<rparr> start;
          a2 = a1\<lparr> a_in_kernel := False, a_kpc := 0,
                 a_img := img\<lparr> img_kernels := [], img_ninsn := 0, img_pool := [] \<rparr> \<rparr> in
      asm_bind (pass2 a2 start) (\<lambda>a.
        if a_in_kernel a then AsmErr 0 Missing_end
        else AsmOk ((a_img a)\<lparr> img_version := BVBC_VERSION \<rparr>)))"

text \<open>\<open>bradc_symbols\<close> reports no symbols: the returned count is always 0.\<close>

definition bradc_symbols :: "bvbc_image \<Rightarrow> nat \<Rightarrow> int \<times> nat" where
  "bradc_symbols img cap = (0, 0)"

end
