(* ===== verification/BradcProps.thy ===== *)
theory BradcProps
  imports Bradc BvrtProps
begin

text \<open>
  Properties of the assembler: the words it emits, the image it builds, label resolution in the two
  passes, and the instruction forms it accepts.
\<close>

section \<open>Operands\<close>

lemma unat_of_small_int:
  assumes "0 \<le> v"
  shows "v < 2 ^ 32 \<Longrightarrow> unat (word_of_int v :: u32) = nat v"
    and "v < 2 ^ 8 \<Longrightarrow> unat (word_of_int v :: u8) = nat v"
proof -
  obtain n where v: "v = int n" using assms by (rule nonneg_int_cases)
  show "v < 2 ^ 32 \<Longrightarrow> unat (word_of_int v :: u32) = nat v"
    unfolding v of_int_of_nat_eq nat_int by (simp add: unat_of_nat)
  show "v < 2 ^ 8 \<Longrightarrow> unat (word_of_int v :: u8) = nat v"
    unfolding v of_int_of_nat_eq nat_int by (simp add: unat_of_nat)
qed

lemma parse_reg_range:
  assumes "parse_reg t cls = Some x"
  shows "o_cls x = cls \<and> o_is_reg x \<and> unat (o_num x) < nat (reg_limit cls)"
proof -
  obtain v rest where s: "strtol (tl (t_text t)) 10 = (v, rest)" by fastforce
  have v: "0 \<le> v" "v < reg_limit cls" "x = \<lparr> o_is_reg = True, o_cls = cls, o_num = of_int v \<rparr>"
    using assms by (auto simp: parse_reg_def s split: if_splits)
  have "reg_limit cls \<le> 256" by (cases cls) auto
  then show ?thesis using v by (simp add: unat_of_small_int)
qed

lemma parse_operand_range:
  assumes "parse_operand t = Some x" "o_cls x \<noteq> OC_NONE"
  shows "unat (o_num x) < nat (reg_limit (o_cls x))"
  using assms by (auto simp: parse_operand_def dest!: parse_reg_range split: if_splits option.splits)

lemma num8_range:
  assumes "parse_operand t = Some x" "o_cls x \<noteq> OC_NONE"
  shows "unat (num8 x) < nat (reg_limit (o_cls x))"
proof -
  have "unat (num8 x) \<le> unat (o_num x)" by (simp add: num8_def unsigned_ucast_eq)
  then show ?thesis using parse_operand_range [OF assms] by simp
qed

lemma parse_pred_range:
  assumes "parse_pred lx = AsmOk (l, p)"
  shows "unat p \<le> BV_PRED_REGS"
proof -
  obtain v rest where s: "strtol (tl (lx_text (lex_take (lex_take lx)))) 10 = (v, rest)" by fastforce
  have "p = 0 \<or> (0 \<le> v \<and> v < 16 \<and> p = of_int (v + 1))"
    using assms by (auto simp: parse_pred_def Let_def s split: if_splits)
  moreover have "unat (of_int (v + 1) :: u8) \<le> 16" if "0 \<le> v" "v < 16"
  proof -
    have "unat (of_int (v + 1) :: u8) = nat (v + 1)" by (rule unat_of_small_int) (use that in auto)
    then show ?thesis using that by linarith
  qed
  ultimately show ?thesis by auto
qed

section \<open>Emitted words\<close>

lemma ucast_u8_u64: "(ucast (ucast (x :: u8) :: u64) :: u8) = x"
  by (rule bit_word_eqI) (simp add: bit_simps)

lemma decode_asm_word:
  "bv_decode (asm_word opc p d s1 s2 imm) = \<lparr> i_raw = asm_word opc p d s1 s2 imm, i_op = opcode_byte opc,
     i_pred = p, i_dst = d, i_src1 = s1, i_src2 = s2, i_imm = imm, i_flags = 0, i_mod = 0 \<rparr>"
  by (simp add: asm_word_def decode_BVEN ucast_u8_u64)

text \<open>What every emitted word satisfies.\<close>

definition emitted_ok :: "u64 \<Rightarrow> bool" where
  "emitted_ok w = (let i = bv_decode w in case opcode_of_byte (i_op i) of
       None \<Rightarrow> False
     | Some opc \<Rightarrow> opc \<in> snd ` set optab \<and> unat (i_pred i) \<le> BV_PRED_REGS \<and>
         i_flags i = 0 \<and> i_mod i = 0 \<and>
         (opc = OP_ALU BV_OP_CMP \<longrightarrow> unat (i_dst i) < BV_PRED_REGS) \<and>
         (opc = OP_MEM BV_OP_STOREV \<longrightarrow> unat (i_dst i) < BV_VEC_REGS))"

lemma emitted_ok_word:
  assumes "opc \<in> snd ` set optab" "unat p \<le> BV_PRED_REGS"
    and "opc = OP_ALU BV_OP_CMP \<Longrightarrow> unat d < BV_PRED_REGS"
    and "opc = OP_MEM BV_OP_STOREV \<Longrightarrow> unat d < BV_VEC_REGS"
  shows "emitted_ok (asm_word opc p d s1 s2 imm)"
  using assms by (simp add: emitted_ok_def decode_asm_word)

lemma op_of_optab: "op_of mn = Some opc \<Longrightarrow> opc \<in> snd ` set optab"
  unfolding op_of_def by (force dest: map_of_SomeD)

text \<open>The image under construction.\<close>

definition build_ok :: "bvbc_image \<Rightarrow> bool" where
  "build_ok img \<longleftrightarrow> pool_ok img \<and> img_ninsn img \<le> length (img_insns img) \<and> img_ninsn img \<le> BVBC_MAX_INSN \<and>
     (\<forall>w \<in> set (take (img_ninsn img) (img_insns img)). emitted_ok w) \<and>
     (\<forall>k \<in> set (img_kernels img). unat (k_entry k) \<le> img_ninsn img \<and> k_nargs k = 0)"

lemma bvbc_emit_cases:
  "bvbc_emit img w = (if 65536 \<le> img_ninsn img then Some (-1, img)
     else if length (img_insns img) \<le> img_ninsn img then None
     else Some (int (img_ninsn img), img\<lparr> img_insns := (img_insns img)[img_ninsn img := w],
       img_ninsn := img_ninsn img + 1 \<rparr>))"
  by (simp add: bvbc_emit_def bvbc_add_insn32_def join_halves)

lemma bvbc_emit_build_ok:
  assumes "build_ok img" "emitted_ok w" "bvbc_emit img w = Some (r, img')" "\<not> r < 0"
  shows "build_ok img'"
proof -
  have b: "img_ninsn img < length (img_insns img)" "img_ninsn img < 65536"
    "img' = img\<lparr> img_insns := (img_insns img)[img_ninsn img := w], img_ninsn := img_ninsn img + 1 \<rparr>"
    using assms(3,4) by (auto simp: bvbc_emit_cases split: if_splits)
  have "take (img_ninsn img + 1) ((img_insns img)[img_ninsn img := w]) = take (img_ninsn img) (img_insns img) @ [w]"
    using b(1) by (simp add: take_Suc_conv_app_nth)
  then show ?thesis using assms(1,2) b by (fastforce simp: build_ok_def pool_ok_def)
qed

lemma b_emit_build_ok:
  assumes "build_ok (a_img a)" "emitted_ok w" "b_emit a w line = AsmOk a'"
  shows "build_ok (a_img a') \<and> a_in_kernel a \<and> a_in_kernel a' = a_in_kernel a \<and> a_kpc a' = a_kpc a + 1 \<and>
    a_syms a' = a_syms a"
  using assms bvbc_emit_build_ok by (auto simp: b_emit_def split: if_splits option.splits)

section \<open>Every accepted instruction emits one well-formed word\<close>

text \<open>\<open>a'\<close> is \<open>a\<close> after emitting exactly one well-formed word.\<close>

definition emits_one :: "bradc_asm \<Rightarrow> bradc_asm \<Rightarrow> bool" where
  "emits_one a a' \<longleftrightarrow> (\<exists>w line. emitted_ok w \<and> b_emit a w line = AsmOk a')"

lemma emit_at_one: "emit_at lx a w = AsmOk (l, a') \<Longrightarrow> emitted_ok w \<Longrightarrow> emits_one a a'"
  by (auto simp: emit_at_Ok emits_one_def)

lemma b_branch_one:
  assumes "b_branch a lx opc p = AsmOk a'" "opc \<in> snd ` set optab" "unat p \<le> BV_PRED_REGS"
    and "opc \<noteq> OP_ALU BV_OP_CMP" "opc \<noteq> OP_MEM BV_OP_STOREV"
  shows "emits_one a a'"
proof -
  obtain imm line where "b_emit a (asm_word opc p 0 0 0 imm) line = AsmOk a'"
    using assms(1) by (auto simp: b_branch_def Let_def split: if_splits option.splits)
  moreover have "emitted_ok (asm_word opc p 0 0 0 imm)" using assms by (intro emitted_ok_word) auto
  ultimately show ?thesis by (auto simp: emits_one_def)
qed

lemma asm_cmp_one:
  assumes "asm_cmp a lx opc p d a1 = AsmOk (l, a')" "opc \<in> snd ` set optab" "unat p \<le> BV_PRED_REGS"
    and "parse_operand t = Some d" "opc = OP_ALU BV_OP_CMP"
  shows "emits_one a a'"
proof -
  have P: "o_cls d = OC_P" using assms(1) by (auto simp: asm_cmp_def split: if_splits)
  then have "unat (num8 d) < 16" using num8_range [OF assms(4)] by simp
  then have "emitted_ok (asm_word opc p (num8 d) s1 s2 0)" for s1 s2
    using assms by (intro emitted_ok_word) auto
  then show ?thesis using assms(1)
    by (auto simp: asm_cmp_def Let_def split: if_splits option.splits intro: emit_at_one)
qed

lemma asm_mem_one:
  assumes "asm_mem a lx opc p d a1 = AsmOk (l, a')" "opc \<in> snd ` set optab" "unat p \<le> BV_PRED_REGS"
    and "parse_operand t = Some a1" "opc \<noteq> OP_ALU BV_OP_CMP"
  shows "emits_one a a'"
proof -
  have "unat (num8 a1) < 64" if "opc = OP_MEM BV_OP_STOREV"
    using assms(1) that num8_range [OF assms(4)] by (auto simp: asm_mem_def Let_def split: if_splits)
  then have "emitted_ok (asm_word opc p (if opc = OP_MEM BV_OP_STORE \<or> opc = OP_MEM BV_OP_STOREV then num8 a1 else num8 d)
      s1 s2 imm)" for s1 s2 imm
    using assms by (intro emitted_ok_word) auto
  then show ?thesis using assms(1)
    by (auto simp: asm_mem_def Let_def split: if_splits intro: emit_at_one)
qed

lemma asm_regs_one:
  assumes "asm_regs a lx mn opc p d a1 = AsmOk (l, a')" "opc \<in> snd ` set optab" "unat p \<le> BV_PRED_REGS"
    and "opc \<noteq> OP_ALU BV_OP_CMP" "opc \<noteq> OP_MEM BV_OP_STOREV"
  shows "emits_one a a'"
proof -
  have w: "emitted_ok (asm_word opc p (num8 d) s1 s2 imm)" for s1 s2 imm
    using assms by (intro emitted_ok_word) auto
  have "OP_ALU BV_OP_ADDi \<in> snd ` set optab" by (simp add: optab_def)
  then have "emitted_ok (asm_word (OP_ALU BV_OP_ADDi) p (num8 d) s1 s2 imm)" for s1 s2 imm
    using assms(3) by (intro emitted_ok_word) auto
  then show ?thesis using assms(1) w
    by (auto simp: asm_regs_def Let_def split: if_splits option.splits intro: emit_at_one)
qed

lemma asm_dispatch_one:
  assumes "asm_dispatch a lx mn p = AsmOk (l, a')" "unat p \<le> BV_PRED_REGS"
  shows "emits_one a a'"
proof -
  obtain opc where op: "op_of mn = Some opc" using assms(1) by (auto simp: asm_dispatch_def split: option.splits)
  note tab = op_of_optab [OF op]
  have plain: "emitted_ok (asm_word opc p d s1 s2 imm)"
    if "opc \<noteq> OP_ALU BV_OP_CMP" "opc \<noteq> OP_MEM BV_OP_STOREV" for d s1 s2 imm
    using that tab assms(2) by (intro emitted_ok_word) auto
  have sv: "is_mem_op (OP_MEM BV_OP_STOREV)" by (simp add: is_mem_op_def)
  consider (word) d s1 s2 imm where "opc \<noteq> OP_ALU BV_OP_CMP" "opc \<noteq> OP_MEM BV_OP_STOREV"
      "emit_at lx a (asm_word opc p d s1 s2 imm) = AsmOk (l, a')"
    | (branch) "opc \<noteq> OP_ALU BV_OP_CMP" "opc \<noteq> OP_MEM BV_OP_STOREV" "b_branch a lx opc p = AsmOk a'"
    | (ops) "asm_operands a lx mn opc p = AsmOk (l, a')"
    using assms(1) unfolding asm_dispatch_def asm_special_def
    by (fastforce simp: op asm_bind_Ok split: option.splits if_splits)
  then show ?thesis
  proof cases
    case word then show ?thesis using plain emit_at_one by blast
  next
    case branch then show ?thesis using b_branch_one tab assms(2) by blast
  next
    case ops
    then show ?thesis using tab assms(2) sv
      by (auto simp: asm_operands_def Let_def split: if_splits option.splits
          intro: asm_cmp_one asm_mem_one asm_regs_one)
  qed
qed

lemma asm_insn_one:
  assumes "asm_insn a lx = AsmOk (l, a')"
  shows "emits_one a a'"
  using assms parse_pred_range asm_dispatch_one by (fastforce simp: asm_insn_def asm_bind_Ok)

section \<open>Invariants of pass 2\<close>

text \<open>
  What a predicate on the assembler state must satisfy to be kept by pass 2: emitting a word, opening
  and closing a kernel are the only changes of the state.
\<close>

locale asm_invariant =
  fixes P :: "bradc_asm \<Rightarrow> bool"
  assumes inv_emit: "P a \<Longrightarrow> emits_one a a' \<Longrightarrow> P a'"
    and inv_open: "P a \<Longrightarrow> bvbc_add_kernel (a_img a) nm (of_nat (img_ninsn (a_img a))) 0 = (r, img) \<Longrightarrow>
      \<not> r < 0 \<Longrightarrow> P (a\<lparr> a_img := img, a_in_kernel := True, a_kpc := 0 \<rparr>)"
    and inv_close: "P a \<Longrightarrow> P (a\<lparr> a_in_kernel := False, a_kpc := 0 \<rparr>)"
begin

lemma line_keeps: "P a \<Longrightarrow> pass2_line a lx = AsmOk (l, a') \<Longrightarrow> P a'"
  by (auto simp: pass2_line_def pass2_dir_def Let_def split: line_type.splits if_splits prod.splits
      dest: asm_insn_one intro: inv_emit inv_open inv_close)

lemma pass2_keeps: "P a \<Longrightarrow> pass2 a lx = AsmOk a' \<Longrightarrow> P a'"
proof (induction a lx rule: pass2.induct)
  case (1 a lx)
  show ?case
  proof (cases "lx_kind lx = T_EOF \<or> lx_kind lx = T_NL")
    case True
    then show ?thesis using 1 by (auto simp: pass2.simps [of a lx] split: if_splits)
  next
    case False
    then obtain r where r: "pass2_line a lx = AsmOk r" "pass2 (snd r) (fst r) = AsmOk a'"
      using 1(4) by (auto simp: pass2.simps [of a lx] split: asm_res.splits)
    then have "P (snd r)" using 1(3) line_keeps [of a lx "fst r" "snd r"] by simp
    then show ?thesis using 1(2) [OF _ _ r(1)] False r(2) by simp
  qed
qed

end

interpretation image: asm_invariant "\<lambda>a. build_ok (a_img a)"
proof
  fix a a' assume "build_ok (a_img a)" "emits_one a a'"
  then show "build_ok (a_img a')" using b_emit_build_ok by (auto simp: emits_one_def)
next
  fix a nm r img assume b: "build_ok (a_img a)" "\<not> r < 0"
    and k: "bvbc_add_kernel (a_img a) nm (of_nat (img_ninsn (a_img a))) 0 = (r, img)"
  have p: "pool_ok img" using bvbc_add_kernel_pool_ok [of "a_img a" nm "of_nat (img_ninsn (a_img a))" 0] b k
    by (simp add: build_ok_def)
  have img: "img_insns img = img_insns (a_img a)" "img_ninsn img = img_ninsn (a_img a)"
    "img_kernels img = img_kernels (a_img a) @ [\<lparr> k_name = cstr nm, k_entry = of_nat (img_ninsn (a_img a)), k_nargs = 0 \<rparr>]"
    using k b(2) by (auto simp: bvbc_add_kernel_def Let_def split: if_splits)
  have "unat (of_nat (img_ninsn (a_img a)) :: u32) \<le> img_ninsn (a_img a)" by (simp add: unat_of_nat)
  then show "build_ok (a_img (a\<lparr> a_img := img, a_in_kernel := True, a_kpc := 0 \<rparr>))"
    using b(1) p img by (auto simp: build_ok_def)
qed simp

lemma emits_one_frame:
  assumes "emits_one a a'"
  shows "img_const (a_img a') = img_const (a_img a) \<and> img_nconst (a_img a') = img_nconst (a_img a) \<and>
    length (img_insns (a_img a')) = length (img_insns (a_img a)) \<and> a_syms a' = a_syms a \<and>
    a_in_kernel a \<and> a_in_kernel a' \<and> a_kpc a' = a_kpc a + 1"
  using assms by (auto simp: emits_one_def b_emit_def bvbc_emit_cases split: if_splits option.splits)

interpretation user_data: asm_invariant "\<lambda>a. img_const (a_img a) = c \<and> img_nconst (a_img a) = n" for c n
  by unfold_locales (auto dest: emits_one_frame simp: bvbc_add_kernel_def Let_def split: if_splits)

interpretation capacity: asm_invariant "\<lambda>a. length (img_insns (a_img a)) = n" for n
  by unfold_locales (auto dest: emits_one_frame simp: bvbc_add_kernel_def Let_def split: if_splits)

section \<open>The assembled image\<close>

lemma assemble_pass2:
  assumes "bradc_assemble src img = AsmOk img'"
  obtains a0 a where "pass2 a0 (lex_take (lx_init src)) = AsmOk a" "img' = (a_img a)\<lparr> img_version := BVBC_VERSION \<rparr>"
    "a_img a0 = img\<lparr> img_kernels := [], img_ninsn := 0, img_pool := [] \<rparr>" "\<not> a_in_kernel a"
  using assms by (auto simp: bradc_assemble_def Let_def asm_bind_Ok split: if_splits)

lemma build_ok_empty: "build_ok (img\<lparr> img_kernels := [], img_ninsn := 0, img_pool := [] \<rparr>)"
  by (simp add: build_ok_def pool_ok_def)

lemma assembled_build_ok:
  assumes "bradc_assemble src img = AsmOk img'"
  shows "build_ok img'" "img_nconst img' = img_nconst img"
proof -
  obtain a0 a where a: "pass2 a0 (lex_take (lx_init src)) = AsmOk a" "img' = (a_img a)\<lparr> img_version := BVBC_VERSION \<rparr>"
    "a_img a0 = img\<lparr> img_kernels := [], img_ninsn := 0, img_pool := [] \<rparr>" "\<not> a_in_kernel a"
    using assms by (rule assemble_pass2)
  have "build_ok (a_img a)" by (rule image.pass2_keeps [OF _ a(1)]) (simp add: a(3) build_ok_empty)
  then show "build_ok img'" by (auto simp: a(2) build_ok_def pool_ok_def)
  have "img_const (a_img a) = img_const img \<and> img_nconst (a_img a) = img_nconst img"
    by (rule user_data.pass2_keeps [OF _ a(1)]) (simp add: a(3))
  then show "img_nconst img' = img_nconst img" using a(2) by simp
qed

text \<open>C6: The assembler produces well-formed images: the kernel table and name pool are consistent, every
  kernel starts inside or at the end of the stream, at most 65536 instructions are emitted and each
  of them has an opcode of the table, a predicate field the interpreter can index, a CMP destination
  that is a predicate register, and zero FLAGS and MOD fields.\<close>

theorem bradc_assemble_image:
  assumes "bradc_assemble src img = AsmOk img'"
  shows "pool_ok img' \<and> img_ninsn img' \<le> BVBC_MAX_INSN \<and> img_ninsn img' \<le> length (img_insns img') \<and>
    (\<forall>w \<in> set (take (img_ninsn img') (img_insns img')). emitted_ok w) \<and>
    (\<forall>k \<in> set (img_kernels img'). unat (k_entry k) \<le> img_ninsn img')"
  using assembled_build_ok(1) [OF assms] by (simp add: build_ok_def)

text \<open>An assembled image without constant data can be packed and parsed back: the container round
  trip returns its kernels and its code.\<close>

theorem assembled_image_roundtrip:
  assumes "bradc_assemble src img = AsmOk img'" and "img_nconst img = 0" and "bvbc_serialize_size img' \<le> length buf"
  shows "\<exists>buf' img''. bvbc_pack img' buf = Some (bvbc_serialize_size img', buf') \<and> bvbc_unpack buf' = Some img'' \<and>
    img_kernels img'' = img_kernels img' \<and> img_insns img'' = take (img_ninsn img') (img_insns img')"
proof -
  have "bvbc_ok img'" using assembled_build_ok [OF assms(1)] assms(2)
    by (fastforce simp: bvbc_ok_def build_ok_def pool_ok_def)
  then have "bvbc_pack img' buf = Some (bvbc_serialize_size img', filled (bvbc_format img') buf)"
    using assms(3) by (intro bvbc_pack_format) (auto simp: bvbc_ok_def)
  then show ?thesis using unpack_format [OF \<open>bvbc_ok img'\<close>, of "drop (length (bvbc_format img')) buf"]
    by (auto simp: reloaded_def)
qed

definition newline :: string where
  "newline = [char_of (10 :: nat)]"

definition room_image :: "nat \<Rightarrow> bvbc_image" where
  "room_image n = zero_image\<lparr> img_insns := replicate n 0 \<rparr>"

definition tiny_source :: string where
  "tiny_source = ''.kernel k'' @ newline @ ''EXIT'' @ newline @ ''.end''"

lemma tiny_image:
  "case bradc_assemble tiny_source (zero_image\<lparr> img_insns := a # xs \<rparr>) of
     AsmOk i \<Rightarrow> img_ninsn i = 1 \<and> img_insns i = BVEN 0x46 0 0 0 0 0 0 0 # xs \<and>
       img_kernels i = [\<lparr> k_name = ''k'', k_entry = 0, k_nargs = 0 \<rparr>]
   | _ \<Rightarrow> False"
  by code_simp

lemma tiny_assembles: "case bradc_assemble tiny_source (room_image 2) of AsmOk i \<Rightarrow> bvbc_serialize_size i = 58 | _ \<Rightarrow> False"
  by code_simp

theorem bradc_assemble_image_witness:
  "\<exists>img'. bradc_assemble tiny_source (room_image 2) = AsmOk img' \<and>
     (\<forall>w \<in> set (take (img_ninsn img') (img_insns img')). emitted_ok w)"
proof -
  obtain img' where i: "bradc_assemble tiny_source (room_image 2) = AsmOk img'"
    using tiny_assembles by (auto split: asm_res.splits)
  show ?thesis using bradc_assemble_image [OF i] i by blast
qed

theorem assembled_image_roundtrip_witness:
  "\<exists>img' buf'. bradc_assemble tiny_source (room_image 2) = AsmOk img' \<and>
     bvbc_pack img' (replicate 60 0) = Some (58, buf') \<and> bvbc_unpack buf' \<noteq> None"
proof -
  obtain img' where i: "bradc_assemble tiny_source (room_image 2) = AsmOk img'" "bvbc_serialize_size img' = 58"
    using tiny_assembles by (auto split: asm_res.splits)
  show ?thesis
    using assembled_image_roundtrip [OF i(1), of "replicate 60 0"] i by (auto simp: room_image_def zero_image_def)
qed

section \<open>No undefined behaviour\<close>

lemma b_emit_defined: "65536 \<le> length (img_insns (a_img a)) \<Longrightarrow> b_emit a w line \<noteq> AsmUndef"
  by (auto simp: b_emit_def bvbc_emit_cases split: option.splits if_splits)

lemma emit_at_defined: "65536 \<le> length (img_insns (a_img a)) \<Longrightarrow> emit_at lx a w \<noteq> AsmUndef"
  using b_emit_defined [of a w "lx_line lx"] by (simp add: emit_at_def split: asm_res.splits)

lemma pass2_line_defined:
  assumes "65536 \<le> length (img_insns (a_img a))"
  shows "pass2_line a lx \<noteq> AsmUndef"
proof -
  note e = emit_at_defined [OF assms]
  have "asm_cmp a l opc p d a1 \<noteq> AsmUndef" for l opc p d a1
    by (simp add: asm_cmp_def Let_def e split: option.splits)
  moreover have "asm_mem a l opc p d a1 \<noteq> AsmUndef" for l opc p d a1
    by (simp add: asm_mem_def Let_def e)
  moreover have "asm_regs a l mn opc p d a1 \<noteq> AsmUndef" for l mn opc p d a1
    by (simp add: asm_regs_def Let_def e split: option.splits)
  ultimately have "asm_operands a l mn opc p \<noteq> AsmUndef" for l mn opc p
    by (simp add: asm_operands_def Let_def split: option.splits)
  moreover have "b_branch a l opc p \<noteq> AsmUndef" for l opc p
    using b_emit_defined [OF assms] by (simp add: b_branch_def Let_def split: option.splits)
  ultimately have "asm_dispatch a l mn p \<noteq> AsmUndef" for l mn p
    by (simp add: asm_dispatch_def asm_special_def e split: option.splits asm_res.splits)
  moreover have "parse_pred l \<noteq> AsmUndef" for l
    by (auto simp: parse_pred_def Let_def split: prod.splits)
  ultimately show ?thesis
    by (auto simp: pass2_line_def pass2_dir_def asm_insn_def Let_def split: line_type.splits asm_res.splits prod.splits if_splits)
qed

lemma pass2_defined: "65536 \<le> length (img_insns (a_img a)) \<Longrightarrow> pass2 a lx \<noteq> AsmUndef"
proof (induction a lx rule: pass2.induct)
  case (1 a lx)
  show ?case
  proof (cases "lx_kind lx = T_EOF \<or> lx_kind lx = T_NL")
    case True
    then show ?thesis using 1 by (auto simp: pass2.simps [of a lx])
  next
    case False
    show ?thesis
    proof (cases "pass2_line a lx")
      case AsmUndef
      then show ?thesis using pass2_line_defined [OF 1(3)] by blast
    next
      case (AsmErr l m)
      then show ?thesis using False by (simp add: pass2.simps [of a lx])
    next
      case (AsmOk r)
      have "length (img_insns (a_img (snd r))) = length (img_insns (a_img a))"
        by (rule capacity.line_keeps [of a _ lx "fst r"]) (simp_all add: AsmOk)
      then show ?thesis using 1(2) [OF _ _ AsmOk] 1(3) False AsmOk by (simp add: pass2.simps [of a lx])
    qed
  qed
qed

text \<open>C17: The assembler always terminates, and with an instruction array of the documented maximal size it
  has no undefined behaviour: it returns an image or an error with its line.\<close>

theorem bradc_assemble_total:
  assumes "BVBC_MAX_INSN \<le> length (img_insns img)"
  shows "\<exists>r. bradc_assemble src img = r \<and> r \<noteq> AsmUndef"
proof -
  have "pass1 \<lparr> a_img = img, a_syms = [], a_in_kernel = False, a_kpc = 0 \<rparr> (lex_take (lx_init src)) = a \<Longrightarrow>
    pass2 (a\<lparr> a_in_kernel := False, a_kpc := 0, a_img := img\<lparr> img_kernels := [], img_ninsn := 0, img_pool := [] \<rparr> \<rparr>)
      (lex_take (lx_init src)) \<noteq> AsmUndef" for a
    by (rule pass2_defined) (use assms in simp)
  then show ?thesis by (auto simp: bradc_assemble_def Let_def split: asm_res.splits)
qed

theorem bradc_assemble_total_witness: "bradc_assemble tiny_source (room_image 65536) \<noteq> AsmUndef"
  using bradc_assemble_total [of "room_image 65536" tiny_source] by (simp add: room_image_def)

section \<open>Labels\<close>

text \<open>
  The states of the two passes on the same line: \<open>lockstep a1 a2 lx\<close> holds when, from the start states
  \<open>b1\<close> and \<open>b2\<close>, pass 1 with state \<open>a1\<close> and pass 2 with state \<open>a2\<close> are both at \<open>lx\<close>.
\<close>

inductive lockstep :: "bradc_asm \<Rightarrow> bradc_asm \<Rightarrow> lexer \<Rightarrow> bradc_asm \<Rightarrow> bradc_asm \<Rightarrow> lexer \<Rightarrow> bool"
  for b1 b2 start where
  start: "lockstep b1 b2 start b1 b2 start"
| newline: "lockstep b1 b2 start a1 a2 lx \<Longrightarrow> lx_kind lx = T_NL \<Longrightarrow> lockstep b1 b2 start a1 a2 (lex_take lx)"
| line: "lockstep b1 b2 start a1 a2 lx \<Longrightarrow> lx_kind lx \<noteq> T_NL \<Longrightarrow> lx_kind lx \<noteq> T_EOF \<Longrightarrow>
    pass2_line a2 lx = AsmOk (l, a2') \<Longrightarrow> lockstep b1 b2 start (snd (pass1_line a1 lx)) a2' l"

lemma lockstep_pass1: "lockstep b1 b2 start a1 a2 lx \<Longrightarrow> pass1 b1 start = pass1 a1 lx"
proof (induction rule: lockstep.induct)
  case (newline a1 a2 lx)
  then show ?case by (simp add: pass1.simps [of a1 lx])
next
  case (line a1 a2 lx l a2')
  have "l = skip_line lx" using line.hyps by (intro pass2_line_skips) auto
  then show ?case using line pass1_line_skips [of lx a1] by (simp add: pass1.simps [of a1 lx] Let_def)
qed simp

lemma add_kernel_syms: "pass2_dir a lx = AsmOk (l, a') \<Longrightarrow>
    a_in_kernel a' = (lx_text (lex_take lx) \<noteq> ''end'') \<and> a_kpc a' = 0"
  by (auto simp: pass2_dir_def Let_def split: if_splits prod.splits)

lemma lockstep_counts:
  assumes "lockstep b1 b2 start a1 a2 lx" "a_in_kernel b1 = a_in_kernel b2" "a_kpc b1 = a_kpc b2"
  shows "a_in_kernel a1 = a_in_kernel a2 \<and> a_kpc a1 = a_kpc a2"
  using assms
proof (induction rule: lockstep.induct)
  case (line a1 a2 lx l a2')
  then show ?case
    by (cases "peek_line lx")
       (auto simp: pass1_line_def pass2_line_def Let_def b_add_def dest!: asm_insn_one emits_one_frame add_kernel_syms)
qed auto

lemma pass1_line_syms: "\<exists>more. a_syms (snd (pass1_line a lx)) = a_syms a @ more"
  by (auto simp: pass1_line_def Let_def b_add_def split: line_type.splits)

lemma pass1_syms: "\<exists>more. a_syms (pass1 a lx) = a_syms a @ more"
proof (induction a lx rule: pass1.induct)
  case (1 a lx)
  show ?case
  proof (cases "lx_kind lx = T_EOF \<or> lx_kind lx = T_NL")
    case True
    then show ?thesis using 1 by (auto simp: pass1.simps [of a lx])
  next
    case False
    then show ?thesis using 1(2) [OF _ _ refl] pass1_line_syms [of a lx]
      by (auto simp: pass1.simps [of a lx] Let_def)
  qed
qed

lemma pass1_keeps_found: "b_find a name = Some addr \<Longrightarrow> b_find (pass1 a lx) name = Some addr"
  using pass1_syms [of a lx] by (auto simp: b_find_def map_add_def)

text \<open>C12: The two passes agree on where every line is: when both are at the same line, they count the same
  number of instructions of the current kernel. A label defined for the first time therefore gets
  the index, in its kernel, of the instruction that follows it; a name already in the table keeps
  the address of its first definition.\<close>

theorem label_addresses:
  assumes "lockstep \<lparr> a_img = img, a_syms = [], a_in_kernel = False, a_kpc = 0 \<rparr> b2 start a1 a2 lx"
    and "\<not> a_in_kernel b2" and "a_kpc b2 = 0"
    and "peek_line lx = LT_LABEL" and "a_in_kernel a2" and "length (lx_text lx) \<le> 63"
    and "length (a_syms a1) < BRADC_MAX_SYMBOLS"
  shows "b_find (pass1 \<lparr> a_img = img, a_syms = [], a_in_kernel = False, a_kpc = 0 \<rparr> start) (lx_text lx)
    = (case b_find a1 (lx_text lx) of Some addr \<Rightarrow> Some addr | None \<Rightarrow> Some (a_kpc a2))"
proof -
  let ?b1 = "\<lparr> a_img = img, a_syms = [], a_in_kernel = False, a_kpc = 0 \<rparr>"
  have c: "a_in_kernel a1" "a_kpc a1 = a_kpc a2"
    using lockstep_counts [OF assms(1)] assms(2,3,5) by auto
  have k: "lx_kind lx = T_ID" using assms(4) by (simp add: peek_line_cases)
  have "b_find (snd (pass1_line a1 lx)) (lx_text lx)
      = (case b_find a1 (lx_text lx) of Some addr \<Rightarrow> Some addr | None \<Rightarrow> Some (a_kpc a2))"
    using assms(4,6,7) c by (auto simp: pass1_line_def Let_def b_add_def b_find_def map_add_def split: option.splits)
  moreover have "pass1 ?b1 start = pass1 (snd (pass1_line a1 lx)) (fst (pass1_line a1 lx))"
    using lockstep_pass1 [OF assms(1)] k by (simp add: pass1.simps [of a1 lx] Let_def)
  ultimately show ?thesis using pass1_keeps_found by (cases "b_find a1 (lx_text lx)") auto
qed

definition label_source :: string where
  "label_source = ''.kernel k'' @ newline @ ''L:'' @ newline @ ''EXIT'' @ newline @ ''.end''"

definition label_start :: lexer where
  "label_start = lex_take (lx_init label_source)"

abbreviation fresh_asm :: bradc_asm where
  "fresh_asm \<equiv> \<lparr> a_img = room_image 2, a_syms = [], a_in_kernel = False, a_kpc = 0 \<rparr>"

lemma label_source_line:
  "case pass2_line fresh_asm label_start of
     AsmOk r \<Rightarrow> peek_line (fst r) = LT_LABEL \<and> a_in_kernel (snd r) \<and> lx_text (fst r) = ''L'' \<and> a_kpc (snd r) = 0
   | _ \<Rightarrow> False"
  by code_simp

lemma label_source_pass1: "a_syms (snd (pass1_line fresh_asm label_start)) = []"
  by code_simp

lemma label_source_kind: "lx_kind label_start = T_DOT"
  by code_simp

theorem label_addresses_witness:
  "b_find (pass1 fresh_asm label_start) ''L'' = Some 0"
proof -
  obtain l a2 where r: "pass2_line fresh_asm label_start = AsmOk (l, a2)" "peek_line l = LT_LABEL"
    "a_in_kernel a2" "lx_text l = ''L''" "a_kpc a2 = 0"
    using label_source_line by (auto split: asm_res.splits)
  have "lockstep fresh_asm fresh_asm label_start (snd (pass1_line fresh_asm label_start)) a2 l"
    by (rule lockstep.line [OF lockstep.start _ _ r(1)]) (simp_all add: label_source_kind)
  from label_addresses [OF this] show ?thesis
    using r by (simp add: label_source_pass1 b_find_def)
qed

section \<open>Branches\<close>

text \<open>C13: A branch to a label is encoded so that the interpreter, executing it at its place in the kernel,
  computes the address of the label: for a kernel loaded at entry \<open>e\<close>, from PC \<open>e + kpc\<close> the target is
  \<open>e + addr\<close>.\<close>

theorem branch_reaches_label:
  assumes "b_branch a lx opc pred = AsmOk a'" and "lx_kind lx = T_ID" and "b_find a (lx_text lx) = Some addr"
    and "unat e + unat (a_kpc a) < 65536" and "unat e + unat addr < 65536" and "img_ninsn (a_img a) < 65536"
  shows "\<exists>w. img_insns (a_img a') = (img_insns (a_img a))[img_ninsn (a_img a) := w] \<and>
    i_op (bv_decode w) = opcode_byte opc \<and> i_pred (bv_decode w) = pred \<and>
    branch_target (e + a_kpc a) (i_imm (bv_decode w)) = Some (e + addr)"
proof -
  define d where "d = int (unat addr) - (int (unat (a_kpc a)) + 1)"
  let ?w = "asm_word opc pred 0 0 0 (of_int d)"
  have d: "-128 \<le> d" "d \<le> 127" and em: "b_emit a ?w (lx_line lx) = AsmOk a'"
    using assms(1-3) by (auto simp: b_branch_def Let_def d_def split: if_splits)
  have ins: "img_insns (a_img a') = (img_insns (a_img a))[img_ninsn (a_img a) := ?w]"
    using em assms(6) by (auto simp: b_emit_def bvbc_emit_cases split: if_splits)
  have sd: "sint (of_int d :: u8) = d" using d by (simp add: signed_of_int signed_take_bit_int_eq_self)
  have upc: "unat (e + a_kpc a) = unat e + unat (a_kpc a)" using assms(4) by (simp add: unat_word_ariths)
  have "sint (e + a_kpc a) = int (unat (e + a_kpc a))"
    using upc assms(4) by (intro sint_small) simp
  then have spc: "sint (e + a_kpc a) = int (unat e) + int (unat (a_kpc a))" using upc by simp
  have t: "sint (e + a_kpc a) + 1 + d = int (unat e) + int (unat addr)" by (simp add: spc d_def)
  obtain n1 n2 where n: "n1 = unat e + unat (a_kpc a)" "n2 = unat e + unat addr" by blast
  have s1: "sint (e + a_kpc a) = int n1" "sint (e + a_kpc a) + 1 + d = int n2"
    using spc t by (simp_all only: n of_nat_add)
  have "n1 < 65536" "n2 < 65536" using assms(4,5) by (simp_all only: n)
  then have r1: "sint (e + a_kpc a) + 1 < 2 ^ 31" and r2: "sint (e + a_kpc a) + 1 + d < 2 ^ 31"
    and r3: "- (2 ^ 31) \<le> sint (e + a_kpc a) + 1 + d"
    unfolding s1(2) by (simp_all add: s1(1))
  have "branch_target (e + a_kpc a) (of_int d) = Some (of_int (sint (e + a_kpc a) + 1 + d))"
    unfolding branch_target_def Let_def sd by (simp only: r1 r2 r3 simp_thms if_True)
  also have "of_int (sint (e + a_kpc a) + 1 + d) = e + addr" unfolding t by simp
  finally have "branch_target (e + a_kpc a) (of_int d) = Some (e + addr)" .
  then show ?thesis using ins by (intro exI [of _ ?w]) (simp only: decode_asm_word bv_insn.simps simp_thms)
qed

definition branch_asm :: bradc_asm where
  "branch_asm = \<lparr> a_img = room_image 8, a_syms = [(''L'', 0)], a_in_kernel = True, a_kpc = 3 \<rparr>"

definition branch_lexer :: lexer where
  "branch_lexer = \<lparr> lx_p = [], lx_line = 4, lx_t = \<lparr> t_kind = T_ID, t_text = ''L'', t_ival = 0 \<rparr> \<rparr>"

theorem branch_reaches_label_witness:
  "\<exists>a' w. b_branch branch_asm branch_lexer (OP_CTL BV_OP_BR) 0 = AsmOk a' \<and> branch_target (5 + 3) (i_imm (bv_decode w)) = Some 5"
proof -
  have ok: "\<exists>a'. b_branch branch_asm branch_lexer (OP_CTL BV_OP_BR) 0 = AsmOk a'"
    by (simp add: b_branch_def branch_asm_def branch_lexer_def b_find_def b_emit_def bvbc_emit_cases
        room_image_def zero_image_def Let_def)
  then obtain a' where a': "b_branch branch_asm branch_lexer (OP_CTL BV_OP_BR) 0 = AsmOk a'" by blast
  show ?thesis
    using branch_reaches_label [OF a', of 0 5] a'
    by (auto simp: branch_asm_def branch_lexer_def b_find_def room_image_def zero_image_def)
qed

section \<open>Forms that are rejected or changed\<close>

text \<open>The vector forms of the interpreter cannot be written: LOADV is always rejected, because its
  destination must be a vector register and must be a scalar one, and the vector arithmetic
  instructions are rejected when their destination is a vector register.\<close>

theorem vector_destinations_rejected:
  assumes "op_of mn = Some opc"
    and "opc = OP_MEM BV_OP_LOADV \<or> is_vec_op opc \<and> (\<exists>x. parse_operand (lx_t lx) = Some x \<and> o_cls x = OC_V)"
  shows "asm_dispatch a lx mn pred \<noteq> AsmOk r"
proof -
  have ne: "opc \<noteq> OP_CTL c" "opc \<noteq> OP_SFU f" "opc \<noteq> OP_ALU g" for c f g
  proof -
    show "opc \<noteq> OP_CTL c" using assms(2) by (cases c) (auto simp: is_vec_op_def word_le_nat_alt)
    show "opc \<noteq> OP_SFU f" using assms(2) by (cases f) (auto simp: is_vec_op_def word_le_nat_alt)
    show "opc \<noteq> OP_ALU g" using assms(2) by (cases g) (auto simp: is_vec_op_def word_le_nat_alt)
  qed
  have "asm_operands a lx mn opc pred \<noteq> AsmOk r"
    using assms(2) ne
    by (auto simp: asm_operands_def asm_mem_def is_mem_op_def dst_class_def Let_def split: option.splits if_splits)
  then show ?thesis using ne by (simp add: asm_dispatch_def assms(1))
qed

theorem vector_destinations_rejected_witness:
  "\<forall>r. asm_dispatch branch_asm (branch_lexer\<lparr> lx_t := \<lparr> t_kind = T_ID, t_text = ''V1'', t_ival = 0 \<rparr> \<rparr>) ''VADD'' 0 \<noteq> AsmOk r"
proof (intro allI, rule vector_destinations_rejected)
  show "op_of ''VADD'' = Some (OP_VEC BV_OP_VADD)" by code_simp
  have "parse_operand \<lparr> t_kind = T_ID, t_text = ''V1'', t_ival = 0 \<rparr>
      = Some \<lparr> o_is_reg = True, o_cls = OC_V, o_num = 1 \<rparr>" by code_simp
  then show "OP_VEC BV_OP_VADD = OP_MEM BV_OP_LOADV \<or> is_vec_op (OP_VEC BV_OP_VADD) \<and>
    (\<exists>x. parse_operand (lx_t (branch_lexer\<lparr> lx_t := \<lparr> t_kind = T_ID, t_text = ''V1'', t_ival = 0 \<rparr> \<rparr>)) = Some x \<and> o_cls x = OC_V)"
    by (simp add: is_vec_op_def)
qed

text \<open>A number as the second source of CMP is accepted but not encoded: the word compares with \<open>S0\<close>.\<close>

theorem cmp_immediate_dropped:
  assumes "lx_kind (next_src lx) = T_NUM" and "o_cls d = OC_P" and "a_in_kernel a"
    and "img_ninsn (a_img a) < 65536" and "img_ninsn (a_img a) < length (img_insns (a_img a))"
  shows "\<exists>a' w. asm_cmp a lx (OP_ALU BV_OP_CMP) pred d s = AsmOk (next_src lx, a') \<and>
    img_insns (a_img a') ! img_ninsn (a_img a) = w \<and> i_src2 (bv_decode w) = 0 \<and> i_imm (bv_decode w) = 0 \<and>
    i_src1 (bv_decode w) = num8 s"
  using assms by (simp add: asm_cmp_def Let_def emit_at_def b_emit_def bvbc_emit_cases decode_asm_word)

theorem cmp_immediate_dropped_witness:
  "\<exists>a'. asm_cmp branch_asm (branch_lexer\<lparr> lx_p := '', 5'' \<rparr>) (OP_ALU BV_OP_CMP) 0
     \<lparr> o_is_reg = True, o_cls = OC_P, o_num = 0 \<rparr> \<lparr> o_is_reg = True, o_cls = OC_S, o_num = 1 \<rparr>
     = AsmOk (next_src (branch_lexer\<lparr> lx_p := '', 5'' \<rparr>), a') \<and>
     i_src2 (bv_decode (img_insns (a_img a') ! 0)) = 0"
proof -
  have k: "lx_kind (next_src (branch_lexer\<lparr> lx_p := '', 5'' \<rparr>)) = T_NUM" by code_simp
  show ?thesis
    using cmp_immediate_dropped [OF k, of "\<lparr> o_is_reg = True, o_cls = OC_P, o_num = 0 \<rparr>" branch_asm 0
        "\<lparr> o_is_reg = True, o_cls = OC_S, o_num = 1 \<rparr>"]
    by (auto simp: branch_asm_def room_image_def zero_image_def)
qed

text \<open>The assembler's mnemonics are the opcode names of the instruction set, with MOV the only
  addition.\<close>

theorem mnemonics_are_names:
  assumes "op_of name = Some opc"
  shows "bv_opcode_name (ucast (opcode_byte opc)) = name \<or> name = ''MOV'' \<and> opc = OP_ALU BV_OP_ADDi"
proof -
  have b: "(ucast ((ucast (opcode_byte opc) :: u32) AND 0xFF) :: u8) = opcode_byte opc"
  proof -
    have "(ucast (opcode_byte opc) :: u32) AND 0xFF = take_bit 8 (ucast (opcode_byte opc))"
      by (simp add: take_bit_eq_mask mask_eq_exp_minus_1)
    then show ?thesis by (simp only:) (rule bit_word_eqI, simp add: bit_simps)
  qed
  have "\<forall>(n, c) \<in> set optab. opcode_mnemonic c = n \<or> n = ''MOV'' \<and> c = OP_ALU BV_OP_ADDi"
    by (simp add: optab_def)
  moreover have "(name, opc) \<in> set optab" using assms by (simp add: op_of_def map_of_SomeD)
  ultimately have "opcode_mnemonic opc = name \<or> name = ''MOV'' \<and> opc = OP_ALU BV_OP_ADDi" by blast
  then show ?thesis by (auto simp: bv_opcode_name_def b)
qed

theorem mnemonics_are_names_witness: "bv_opcode_name (ucast (opcode_byte (OP_INT BV_OP_IADD))) = ''IADD''"
proof -
  have "op_of ''IADD'' = Some (OP_INT BV_OP_IADD)" by code_simp
  from mnemonics_are_names [OF this] show ?thesis by simp
qed

end
