(* ===== verification/ToolProps.thy ===== *)
theory ToolProps
  imports Bradtimeline BradcProps
begin

text \<open>
  Properties of the two tools that drive the interpreter: what a stop of \<open>bradgdb_continue\<close> means and
  when it never comes, what the profiler's log holds, and that profiling does not change the program.
\<close>

section \<open>What a stop of \<open>bradgdb_continue\<close> means\<close>

lemma bradgdb_step_breaks: "bradgdb_step fp g = Some (st, g') \<Longrightarrow> g_breaks g' = g_breaks g"
  by (auto simp: bradgdb_step_def Let_def split: option.splits if_splits)

lemma at_breakpoint_cong: "g_breaks g = g_breaks h \<Longrightarrow> at_breakpoint g = at_breakpoint h"
  by (rule ext) (simp add: at_breakpoint_def)

text \<open>\<open>n\<close> instructions ran without meeting an enabled breakpoint, from \<open>d\<close> to \<open>d1\<close>.\<close>

definition free_run :: "fpu \<Rightarrow> bradgdb \<Rightarrow> nat \<Rightarrow> bvrt_device \<Rightarrow> bvrt_device \<Rightarrow> bool" where
  "free_run fp g n d d1 \<longleftrightarrow> bvrt_steps fp n d = Some d1 \<and>
     (\<forall>k < n. \<exists>e. bvrt_steps fp k d = Some e \<and> w_active (d_warp e) \<noteq> 0 \<and> at_breakpoint g (w_pc (d_warp e)) = None)"

lemma free_run_0: "free_run fp g 0 d d"
  by (simp add: free_run_def)

lemma free_run_Suc:
  assumes "w_active (d_warp d) \<noteq> 0" "at_breakpoint g (w_pc (d_warp d)) = None"
    and "bvrt_step fp d = Some (BV_OK, d1)" "free_run fp g n d1 d2"
  shows "free_run fp g (Suc n) d d2"
  using assms by (auto simp: free_run_def less_Suc_eq_0_disj)

definition stop_ok :: "fpu \<Rightarrow> bradgdb \<Rightarrow> bv_status \<Rightarrow> bradgdb \<Rightarrow> bool" where
  "stop_ok fp g st g' \<longleftrightarrow> (\<exists>n d1. free_run fp g n (g_dev g) d1 \<and>
     (if w_active (d_warp d1) = 0 then st = BV_HALT \<and> g_dev g' = d1
      else case at_breakpoint g (w_pc (d_warp d1)) of
        Some i \<Rightarrow> st = BV_OK \<and> g_dev g' = d1 \<and> br_hit (g_breaks g' ! i) = br_hit (g_breaks g ! i) + 1
      | None \<Rightarrow> st \<noteq> BV_OK \<and> bvrt_step fp d1 = Some (st, g_dev g')))"

lemma find_break_bound: "find_break bs P = Some i \<Longrightarrow> i < length bs \<and> P (bs ! i)"
  by (induction bs arbitrary: i) (auto split: if_splits)

text \<open>C28: When \<open>bradgdb_continue\<close> returns, it has executed instructions, none of them at an enabled
  breakpoint, until it reached a state where the warp has halted (\<open>BV_HALT\<close>), or where the PC is at an
  enabled breakpoint whose hit count it increments (\<open>BV_OK\<close>), or where the next instruction traps.\<close>

theorem bradgdb_continue_stops:
  assumes "bradgdb_continue fp g = Some (Some (st, g'))"
  shows "stop_ok fp g st g'"
proof -
  have "r = Some (st, g') \<Longrightarrow> stop_ok fp g st g'" if "bradgdb_continue fp g = Some r" for r
    using that
  proof (induction arbitrary: st g' rule: bradgdb_continue.raw_induct [rotated, consumes 1])
    case (1 cont fp g r)
    show ?case
    proof (cases "w_active (d_warp (g_dev g)) = 0")
      case True
      then show ?thesis using 1(2,3) free_run_0 [of fp g "g_dev g"] by (auto simp: stop_ok_def)
    next
      case act: False
      show ?thesis
      proof (cases "at_breakpoint g (w_pc (d_warp (g_dev g)))")
        case (Some i)
        then have "i < length (g_breaks g)" by (auto simp: at_breakpoint_def dest: find_break_bound)
        then show ?thesis using 1(2,3) Some act free_run_0 [of fp g "g_dev g"]
          by (auto simp: stop_ok_def hit_break_def intro!: exI [of _ "0 :: nat"] exI [of _ "g_dev g"])
      next
        case None
        then obtain st1 g1 where s: "bradgdb_step fp g = Some (st1, g1)"
          using 1(2,3) act by (auto split: option.splits)
        show ?thesis
        proof (cases "st1 = BV_OK")
          case True
          then have "cont fp g1 = Some r" using 1(2) act None s by simp
          from 1(1) [OF this 1(3)] obtain n d1 where n: "free_run fp g1 n (g_dev g1) d1"
            "if w_active (d_warp d1) = 0 then st = BV_HALT \<and> g_dev g' = d1
             else case at_breakpoint g1 (w_pc (d_warp d1)) of
               Some i \<Rightarrow> st = BV_OK \<and> g_dev g' = d1 \<and> br_hit (g_breaks g' ! i) = br_hit (g_breaks g1 ! i) + 1
             | None \<Rightarrow> st \<noteq> BV_OK \<and> bvrt_step fp d1 = Some (st, g_dev g')"
            unfolding stop_ok_def by blast
          have b: "g_breaks g1 = g_breaks g" by (rule bradgdb_step_breaks [OF s])
          have "free_run fp g n (g_dev g1) d1" using n(1) at_breakpoint_cong [OF b] by (simp add: free_run_def)
          then have "free_run fp g (Suc n) (g_dev g) d1"
            using free_run_Suc [OF act None] bradgdb_step_dev [OF s] True by simp
          then show ?thesis using n(2) unfolding stop_ok_def b at_breakpoint_cong [OF b] by blast
        next
          case False
          then have "st1 = st" "g1 = g'" using 1(2,3) act None s by auto
          then show ?thesis using False act None bradgdb_step_dev [OF s] free_run_0 [of fp g "g_dev g"]
            by (auto simp: stop_ok_def intro!: exI [of _ "0 :: nat"] exI [of _ "g_dev g"])
        qed
      qed
    qed
  qed
  then show ?thesis using assms by blast
qed

theorem bradgdb_continue_stops_witness:
  "stop_ok sample_fpu (bradgdb_attach (bvrt_reset (blank_device 64))) BV_HALT (bradgdb_attach (bvrt_reset (blank_device 64)))"
  by (rule bradgdb_continue_stops)
     (simp add: bradgdb_continue.simps bradgdb_attach_def bvrt_reset_def zero_warp_def)

text \<open>Continuing from a breakpoint makes no progress: at an enabled breakpoint \<open>bradgdb_continue\<close>
  returns at once with the device unchanged, however often it is called.\<close>

theorem continue_at_breakpoint_stuck:
  assumes "w_active (d_warp (g_dev g)) \<noteq> 0" and "at_breakpoint g (w_pc (d_warp (g_dev g))) = Some i"
  shows "\<exists>g'. bradgdb_continue fp g = Some (Some (BV_OK, g')) \<and> g_dev g' = g_dev g \<and>
    (\<exists>g''. bradgdb_continue fp g' = Some (Some (BV_OK, g'')) \<and> g_dev g'' = g_dev g)"
proof -
  have hit: "find_break (bs[k := (bs ! k)\<lparr> br_hit := h \<rparr>]) (\<lambda>b. br_enabled b \<and> br_pc b = pc)
      = find_break bs (\<lambda>b. br_enabled b \<and> br_pc b = pc)" for bs k h pc
    by (induction bs arbitrary: k) (auto split: nat.splits)
  let ?h = "hit_break g i"
  have "at_breakpoint ?h = at_breakpoint g" by (rule ext) (simp add: at_breakpoint_def hit_break_def hit)
  moreover have "g_dev ?h = g_dev g" for j by (simp add: hit_break_def)
  ultimately have "bradgdb_continue fp ?h = Some (Some (BV_OK, hit_break ?h i))"
    using assms by (simp add: bradgdb_continue.simps)
  moreover have "bradgdb_continue fp g = Some (Some (BV_OK, ?h))" using assms by (simp add: bradgdb_continue.simps)
  moreover have "g_dev ?h = g_dev g" "g_dev (hit_break ?h i) = g_dev g" by (simp_all add: hit_break_def)
  ultimately show ?thesis by blast
qed

theorem continue_at_breakpoint_stuck_witness:
  "\<exists>g'. bradgdb_continue sample_fpu (snd (bradgdb_add_break (bradgdb_attach (blank_device 64)) 0)) = Some (Some (BV_OK, g'))"
  using continue_at_breakpoint_stuck [of "snd (bradgdb_add_break (bradgdb_attach (blank_device 64)) 0)" 0 sample_fpu]
  by (auto simp: bradgdb_add_break_def bradgdb_attach_def at_breakpoint_def blank_device_def zero_warp_def)


section \<open>Programs that do not end\<close>

definition branch_self :: u64 where
  "branch_self = BVEN 0x40 0 0 0 0 0xFF 0 0"

definition self_branch :: "bvrt_device \<Rightarrow> bool" where
  "self_branch d \<longleftrightarrow> lane_active (d_warp d) 0 \<and>
     unat (w_pc (d_warp d)) < img_ninsn (d_img d) \<and> unat (w_pc (d_warp d)) < length (d_code d) \<and>
     unat (w_pc (d_warp d)) < 65536 \<and> d_code d ! unat (w_pc (d_warp d)) = branch_self"

lemma self_branch_active: "self_branch d \<Longrightarrow> w_active (d_warp d) \<noteq> 0"
  by (auto simp: self_branch_def lane_active_def)

lemma each_lane_first:
  "lane_active (d_warp d) 0 \<Longrightarrow> f 0 d = Broke d' \<Longrightarrow> each_lane 0 f d = Broke d'"
  by (simp add: each_lane_def upt_conv_Cons lane_step_def pred_ok_def)

lemma branch_self_target:
  assumes "unat pc < 65536"
  shows "branch_target pc 0xFF = Some pc"
proof -
  have s: "sint pc = int (unat pc)" using assms by (intro sint_small) simp
  moreover have "sint (0xFF :: u8) = -1" by simp
  moreover have "int (unat pc) < 65536" using assms by linarith
  moreover have "- 2147483648 \<le> uint pc" by (rule order_trans [OF _ uint_ge_0]) simp
  ultimately show ?thesis unfolding branch_target_def Let_def by simp
qed

lemma self_branch_step:
  assumes "self_branch d"
  shows "bvrt_step fp d = Some (BV_OK, d\<lparr> d_insns := d_insns d + 1 \<rparr>)"
proof -
  let ?e = "d\<lparr> d_insns := d_insns d + 1 \<rparr>"
  note s = assms [unfolded self_branch_def] 
  have "sint (w_pc (d_warp d)) = int (unat (w_pc (d_warp d)))" using s by (intro sint_small) simp
  then have pc: "\<not> sint (w_pc (d_warp d)) < 0" by simp
  have "take_branch (bv_decode branch_self) ?e = Broke (set_pc ?e (w_pc (d_warp d)))"
    using s by (simp add: take_branch_def branch_self_def decode_BVEN branch_self_target)
  then have "each_lane 0 (\<lambda>l. take_branch (bv_decode branch_self)) ?e = Broke (set_pc ?e (w_pc (d_warp d)))"
    using s by (intro each_lane_first) simp_all
  moreover have "i_pred (bv_decode branch_self) = 0" "opcode_of_byte (i_op (bv_decode branch_self)) = Some (OP_CTL BV_OP_BR)"
    by (simp_all add: branch_self_def decode_BVEN opcode_of_byte_Some)
  moreover have "set_pc ?e (w_pc (d_warp d)) = ?e" by (simp add: set_pc_def)
  ultimately have "execute_insn fp ?e (bv_decode branch_self) = Some (BV_OK, ?e)"
    by (simp add: execute_insn_def exec_class_def)
  then show ?thesis using s pc self_branch_active [OF assms] unfolding bvrt_step_def Let_def by simp
qed

lemma self_branch_keep: "self_branch d \<Longrightarrow> self_branch (d\<lparr> d_insns := n \<rparr>)"
  by (simp add: self_branch_def)

lemma self_branch_diverges:
  "bradgdb_continue fp g = Some r \<Longrightarrow> self_branch (g_dev g) \<Longrightarrow>
    at_breakpoint g (w_pc (d_warp (g_dev g))) = None \<Longrightarrow> \<not> g_tracing g \<Longrightarrow> False"
proof (induction rule: bradgdb_continue.raw_induct [rotated, consumes 1])
  case (1 cont fp g r)
  obtain g1 where s: "bradgdb_step fp g = Some (BV_OK, g1)" "g_dev g1 = (g_dev g)\<lparr> d_insns := d_insns (g_dev g) + 1 \<rparr>"
    "g_tracing g1 = g_tracing g"
    using 1(5) by (simp add: bradgdb_step_def self_branch_step [OF 1(3)] Let_def)
  have "cont fp g1 = Some r" using 1(2,4) s(1) self_branch_active [OF 1(3)] by simp
  moreover have "self_branch (g_dev g1)" unfolding s(2) by (rule self_branch_keep [OF 1(3)])
  moreover have "at_breakpoint g1 (w_pc (d_warp (g_dev g1))) = None"
    using 1(4) at_breakpoint_cong [OF bradgdb_step_breaks [OF s(1)]] by (simp add: s(2))
  ultimately show False using 1(1) 1(5) s(3) by blast
qed

lemma self_branch_run:
  "self_branch d \<Longrightarrow> d_insns d \<le> n \<Longrightarrow> bvrt_run fp d n = Some (BV_TIMEOUT, d\<lparr> d_insns := n \<rparr>)"
proof (induction k \<equiv> "unat (n - d_insns d)" arbitrary: d rule: less_induct)
  case less
  show ?case
  proof (cases "d_insns d = n")
    case True
    then show ?thesis using self_branch_active [OF less.prems(1)] by (subst bvrt_run.simps) auto
  next
    case False
    let ?e = "d\<lparr> d_insns := d_insns d + 1 \<rparr>"
    have lt: "d_insns d < n" using False less.prems(2) by simp
    then have "bvrt_run fp ?e n = Some (BV_TIMEOUT, ?e\<lparr> d_insns := n \<rparr>)"
      using run_measure [OF lt] inc_le [OF lt] by (intro less.hyps self_branch_keep [OF less.prems(1)]) simp_all
    then show ?thesis using lt self_branch_active [OF less.prems(1)] self_branch_step [OF less.prems(1)]
      by (subst bvrt_run.simps) simp
  qed
qed

text \<open>The debugger's \<open>bradgdb_continue\<close> has no instruction budget: on a branch to itself, without a
  breakpoint there and without tracing, it never returns, while \<open>bvrt_run\<close> on the same device gives
  \<open>BV_TIMEOUT\<close> for every budget, with exactly the budget as instruction count.\<close>

theorem continue_unbounded:
  assumes "self_branch (g_dev g)" and "at_breakpoint g (w_pc (d_warp (g_dev g))) = None" and "\<not> g_tracing g"
    and "d_insns (g_dev g) \<le> n"
  shows "bradgdb_continue fp g = None \<and>
    (\<exists>d. bvrt_run fp (g_dev g) n = Some (BV_TIMEOUT, d) \<and> d_insns d = n)"
  using self_branch_diverges [OF _ assms(1-3), of fp] self_branch_run [OF assms(1,4), of fp]
  by (cases "bradgdb_continue fp g") auto

theorem continue_unbounded_witness:
  "bradgdb_continue sample_fpu (bradgdb_attach (device_with [branch_self])) = None"
  using continue_unbounded [of "bradgdb_attach (device_with [branch_self])" 5 sample_fpu]
  by (simp add: self_branch_def bradgdb_attach_def device_with_def blank_device_def zero_warp_def zero_image_def
      lane_active_def at_breakpoint_def)
section \<open>What the profiler records\<close>

definition tl_ok :: "bvtl \<Rightarrow> bool" where
  "tl_ok tm \<longleftrightarrow> length (tl_events tm) = min (unat (tl_insns tm)) BVTL_MAX_EVENTS \<and>
     (\<forall>c. tl_hist tm c = of_nat (count_list (map ev_op (tl_events tm)) c)) \<and>
     (\<forall>k < length (tl_events tm). ev_cycle (tl_events tm ! k) = of_nat k + 1)"

lemma tl_ok_create: "tl_ok (bvtl_create d)"
  by (simp add: tl_ok_def bvtl_create_def)

lemma record_ok:
  assumes "tl_ok tm" and "tl_insns tm + 1 \<noteq> 0"
    and "bvtl_record (tm\<lparr> tl_dev := d, tl_insns := tl_insns tm + 1 \<rparr>) pc n = Some tm'"
  shows "tl_ok tm'"
proof -
  have u: "unat (tl_insns tm + 1) = unat (tl_insns tm) + 1"
    by (metis Suc_eq_plus1 assms(2) unatSuc add.commute)
  have n: "of_nat (unat (tl_insns tm)) = tl_insns tm" by simp
  show ?thesis
  proof (cases "length (tl_events tm) < BVTL_MAX_EVENTS")
    case True
    then have len: "length (tl_events tm) = unat (tl_insns tm)"
      using assms(1) by (auto simp: tl_ok_def min_def split: if_splits)
    show ?thesis using assms True len u n
      by (auto simp: tl_ok_def bvtl_record_def nth_append less_Suc_eq split: if_splits)
  next
    case False
    then show ?thesis using assms u by (auto simp: tl_ok_def bvtl_record_def split: if_splits)
  qed
qed

lemma retire_traps: 
  assumes "bvtl_retire fp tm = Some (st, tm')"
  shows "tl_traps tm' = tl_traps tm + (if st = BV_TRAP \<or> st = BV_OOB then 1 else 0)"
  using assms
  by (auto simp: bvtl_retire_def Let_def split: option.splits if_splits dest!: bvtl_record_frame)

lemma tl_ok_traps: "tl_ok (tm\<lparr> tl_traps := x \<rparr>) = tl_ok tm"
  by (simp add: tl_ok_def)

lemma retire_ok:
  assumes "tl_ok tm" and "tl_insns tm < n" and "bvtl_retire fp tm = Some (st, tm')"
  shows "tl_ok tm' \<and> tl_insns tm' \<le> n"
proof -
  have "tl_insns tm + 1 \<noteq> 0"
  proof
    assume "tl_insns tm + 1 = 0"
    then have "tl_insns tm = -1" by (simp add: eq_neg_iff_add_eq_0)
    then show False using assms(2) word_n1_ge [of n] by (simp add: not_less [symmetric])
  qed
  moreover have "tl_insns tm + 1 \<le> n" by (rule inc_le [OF assms(2)])
  moreover have "tl_ok tm1 \<and> tl_insns tm1 = tl_insns tm + 1"
    if "bvtl_record (tm\<lparr> tl_dev := d, tl_insns := tl_insns tm + 1 \<rparr>) pc l = Some tm1" for d pc l tm1
    using record_ok [OF assms(1) calculation(1) that] bvtl_record_frame [OF that] by simp
  ultimately show ?thesis
    using assms by (auto simp: bvtl_retire_def Let_def tl_ok_traps less_imp_le
        split: option.splits if_splits dest!: spec)
qed

text \<open>After a profiled run the event log holds one event per retired instruction, up to its capacity of
  65536; the events are numbered from 1 in order, and the opcode histogram counts exactly the logged
  events, so an instruction after the log is full is in neither.\<close>

theorem timeline_log_consistent:
  assumes "bvtl_run fp (bvtl_create d) n = Some (st, tm)"
  shows "length (tl_events tm) = min (unat (tl_insns tm)) 65536 \<and> tl_insns tm \<le> n \<and>
    (\<forall>c. tl_hist tm c = of_nat (count_list (map ev_op (tl_events tm)) c)) \<and>
    (\<forall>k < length (tl_events tm). ev_cycle (tl_events tm ! k) = of_nat k + 1) \<and>
    tl_traps tm = (if st = BV_TRAP \<or> st = BV_OOB then 1 else 0)"
proof -
  have "tl_ok tm' \<and> tl_insns tm' \<le> m \<and> tl_traps tm' = tl_traps t + (if s = BV_TRAP \<or> s = BV_OOB then 1 else 0)"
    if "bvtl_run fp t m = Some (s, tm')" "tl_ok t" "tl_insns t \<le> m" for t tm' s m
    using that
  proof (induction fp t m arbitrary: s tm' rule: bvtl_run.induct)
    case (1 fp t m)
    show ?case
    proof (cases "tl_insns t < m")
      case True
      then obtain s1 t1 where r: "bvtl_retire fp t = Some (s1, t1)"
        using 1(2) by (subst (asm) bvtl_run.simps) (auto split: option.splits)
      note ok = retire_ok [OF 1(3) True r]
      show ?thesis
      proof (cases "s1 = BV_OK")
        case True': True
        then have "bvtl_run fp t1 m = Some (s, tm')"
          using 1(2) r True by (subst (asm) bvtl_run.simps) simp
        then show ?thesis using 1(1) [OF True r refl] True' ok retire_traps [OF r] by simp
      next
        case False
        then have "s1 = s" "t1 = tm'" using 1(2) r True by (subst (asm) (1) bvtl_run.simps, simp)+
        then show ?thesis using ok retire_traps [OF r] by simp
      qed
    next
      case False
      then show ?thesis using 1(2-4) by (subst (asm) bvtl_run.simps) auto
    qed
  qed
  from this [OF assms tl_ok_create] show ?thesis by (simp add: tl_ok_def bvtl_create_def)
qed

theorem timeline_log_consistent_witness:
  "tl_traps (bvtl_create (bvrt_reset (blank_device 64))) = 0"
  using timeline_log_consistent [of sample_fpu "bvrt_reset (blank_device 64)" 5 BV_HALT "bvtl_create (bvrt_reset (blank_device 64))"]
  by (simp add: bvtl_run.simps bvtl_retire_def bvtl_create_def bvrt_reset_def zero_warp_def Let_def)

text \<open>Profiling does not change what a program does: from a freshly launched device the profiled run
  leaves the device exactly as \<open>bvrt_run\<close> does, with the same status; only a program that ends exactly
  when the budget is used up is reported as \<open>BV_TIMEOUT\<close> by the profiler and as \<open>BV_HALT\<close> by the runtime.\<close>

theorem timeline_transparent:
  assumes "bvtl_run fp (bvtl_create d) n = Some (st, tm)" and "d_insns d = 0"
  shows "bvrt_run fp d n = Some (st, tl_dev tm) \<or>
    st = BV_TIMEOUT \<and> tl_insns tm = n \<and> bvrt_run fp d n = Some (BV_HALT, tl_dev tm)"
proof -
  have "bvrt_run fp (tl_dev t) m = Some (s, tl_dev tm') \<or>
      s = BV_TIMEOUT \<and> tl_insns tm' = m \<and> bvrt_run fp (tl_dev t) m = Some (BV_HALT, tl_dev tm')"
    if "bvtl_run fp t m = Some (s, tm')" "d_insns (tl_dev t) = tl_insns t" "tl_insns t \<le> m" for t tm' s m
    using that
  proof (induction fp t m arbitrary: s tm' rule: bvtl_run.induct)
    case (1 fp t m)
    show ?case
    proof (cases "tl_insns t < m \<and> w_active (d_warp (tl_dev t)) \<noteq> 0")
      case True
      then obtain s1 t1 where r: "bvtl_retire fp t = Some (s1, t1)"
        using 1(2) by (subst (asm) bvtl_run.simps) (auto split: option.splits)
      have rc: "bvrt_step fp (tl_dev t) = Some (s1, tl_dev t1)" "tl_insns t1 = tl_insns t + 1"
        using bvtl_retire_cases [OF r] True by auto
      show ?thesis
      proof (cases "s1 = BV_OK")
        case True': True
        have "bvtl_run fp t1 m = Some (s, tm')"
          using 1(2) r True True' by (subst (asm) bvtl_run.simps) simp
        moreover have "d_insns (tl_dev t1) = tl_insns t1" using step_ok_counts rc True' 1(3) by simp
        moreover have "tl_insns t1 \<le> m" using rc(2) True inc_le by auto
        moreover have "bvrt_run fp (tl_dev t) m = bvrt_run fp (tl_dev t1) m"
          using rc True True' 1(3) by (subst bvrt_run.simps) simp
        ultimately show ?thesis using 1(1) [OF _ r refl] True True' by simp
      next
        case False
        then have "s1 = s" "t1 = tm'" using 1(2) r True by (subst (asm) (1) bvtl_run.simps, simp)+
        then show ?thesis using rc True False 1(3) by (subst bvrt_run.simps) simp
      qed
    next
      case False
      then show ?thesis using 1(2-4) bvtl_retire_halt
        by (subst (asm) bvtl_run.simps, subst bvrt_run.simps, subst bvrt_run.simps) (auto split: if_splits)
    qed
  qed
  from this [OF assms(1)] show ?thesis using assms(2) by (simp add: bvtl_create_def)
qed

theorem timeline_transparent_witness:
  "bvrt_run sample_fpu (bvrt_reset (blank_device 64)) 5 = Some (BV_HALT, bvrt_reset (blank_device 64))"
  using timeline_transparent [of sample_fpu "bvrt_reset (blank_device 64)" 5 BV_HALT "bvtl_create (bvrt_reset (blank_device 64))"]
  by (simp add: bvtl_run.simps bvtl_retire_def bvtl_create_def bvrt_reset_def zero_warp_def Let_def)

end
