(* ===== verification/Bradlib.thy ===== *)
theory Bradlib
  imports ToolProps
begin

text \<open>
  The host library \<open>bradvector/bradlib.c\<close>: programs and sessions over the assembler, the container, the
  interpreter and the debugger. The session's device is the debugger's device, the same object in C.
  Null pointers are \<open>None\<close>; the flags of the constructors tell which allocations succeed. Freeing is
  not modelled.
\<close>

record bradlib_session =
  ss_prog :: bvbc_image
  ss_gdb :: bradgdb
  ss_attached :: bool
  ss_kernel :: u32
  ss_mem_bytes :: u64

abbreviation ss_dev :: "bradlib_session \<Rightarrow> bvrt_device" where
  "ss_dev s \<equiv> g_dev (ss_gdb s)"

definition with_dev :: "bradlib_session \<Rightarrow> bvrt_device \<Rightarrow> bradlib_session" where
  "with_dev s d = s\<lparr> ss_gdb := (ss_gdb s)\<lparr> g_dev := d \<rparr> \<rparr>"

lemma with_dev_simps [simp]:
  "ss_dev (with_dev s d) = d" "ss_prog (with_dev s d) = ss_prog s" "ss_attached (with_dev s d) = ss_attached s"
  "ss_mem_bytes (with_dev s d) = ss_mem_bytes s" "ss_kernel (with_dev s d) = ss_kernel s"
  by (simp_all add: with_dev_def)

section \<open>Programs\<close>

text \<open>The result of \<open>bradlib_compile\<close>: a program, or a null pointer with what was stored in the error.\<close>

datatype compile_res = CompileUndef | NoProgram "(nat \<times> asm_msg) option" | Program bvbc_image

definition bradlib_compile :: "bool \<Rightarrow> bool \<Rightarrow> string option \<Rightarrow> compile_res" where
  "bradlib_compile program_ok insns_ok source =
     (case source of None \<Rightarrow> NoProgram None
      | Some src \<Rightarrow>
        if \<not> program_ok \<or> \<not> insns_ok then NoProgram None
        else case bradc_assemble src (zero_image\<lparr> img_insns := replicate BVBC_MAX_INSN 0 \<rparr>) of
          AsmUndef \<Rightarrow> CompileUndef
        | AsmErr line msg \<Rightarrow> NoProgram (Some (line, msg))
        | AsmOk img \<Rightarrow> Program img)"

definition bradlib_kernel_count :: "bvbc_image option \<Rightarrow> nat" where
  "bradlib_kernel_count p = (case p of None \<Rightarrow> 0 | Some img \<Rightarrow> length (img_kernels img))"

definition bradlib_kernel_name :: "bvbc_image option \<Rightarrow> nat \<Rightarrow> string option" where
  "bradlib_kernel_name p idx = (case p of None \<Rightarrow> None
     | Some img \<Rightarrow> if length (img_kernels img) \<le> idx then None else Some (k_name (img_kernels img ! idx)))"

definition bradlib_insn_count :: "bvbc_image option \<Rightarrow> nat" where
  "bradlib_insn_count p = (case p of None \<Rightarrow> 0 | Some img \<Rightarrow> img_ninsn img)"

definition bradlib_serialize_size :: "bvbc_image option \<Rightarrow> nat" where
  "bradlib_serialize_size p = (case p of None \<Rightarrow> 0 | Some img \<Rightarrow> bvbc_serialize_size img)"

definition bradlib_pack :: "bvbc_image option \<Rightarrow> u8 list option \<Rightarrow> (nat \<times> u8 list option) option" where
  "bradlib_pack p buf = (case (p, buf) of
       (Some img, Some b) \<Rightarrow> map_option (\<lambda>(n, b'). (n, Some b')) (bvbc_pack img b)
     | _ \<Rightarrow> Some (0, buf))"

section \<open>Disassembly\<close>

definition disasm_text :: "u32 \<Rightarrow> bv_insn \<Rightarrow> string" where
  "disasm_text pc d = pad_left 4 (show_nat (unat pc)) @ '':  '' @ bv_opcode_name (ucast (i_op d)) @
     ''  pred='' @ show_nat (unat (i_pred d)) @ '' dst='' @ show_nat (unat (i_dst d)) @
     '' src1='' @ show_nat (unat (i_src1 d)) @ '' src2='' @ show_nat (unat (i_src2 d)) @
     '' imm='' @ show_int (sint (i_imm d))"

text \<open>\<open>None\<close> as the written text: the buffer is not written. A word outside the array is undefined.\<close>

definition bradlib_disasm :: "bvbc_image option \<Rightarrow> u32 \<Rightarrow> bool \<Rightarrow> nat \<Rightarrow> (int \<times> string option) option" where
  "bradlib_disasm p pc have_buf cap = (case p of None \<Rightarrow> Some (-1, None)
     | Some img \<Rightarrow>
       if \<not> have_buf \<or> cap = 0 then Some (-1, None)
       else if img_ninsn img \<le> unat pc then Some (-1, None)
       else if length (img_insns img) \<le> unat pc then None
       else let (n, s) = snprintf cap (disasm_text pc (bv_decode (img_insns img ! unat pc))) in
         Some (if n < 0 then -1 else n, Some s))"

definition bradlib_symbols :: "bvbc_image option \<Rightarrow> nat \<Rightarrow> bool \<Rightarrow> int \<times> nat option" where
  "bradlib_symbols p cap have_n = (case p of None \<Rightarrow> (-1, None)
     | Some img \<Rightarrow> if \<not> have_n then (-1, None) else let (r, n) = bradc_symbols img cap in (r, Some n))"

section \<open>Sessions\<close>

definition bradlib_create ::
  "bool \<Rightarrow> bool \<Rightarrow> bool \<Rightarrow> (nat \<Rightarrow> u8) \<Rightarrow> bvbc_image option \<Rightarrow> u64 \<Rightarrow> bradlib_session option" where
  "bradlib_create session_ok calloc_ok malloc_ok heap p mem_bytes = (case p of None \<Rightarrow> None
     | Some img \<Rightarrow>
       if \<not> session_ok then None
       else case bvrt_create calloc_ok malloc_ok heap mem_bytes of None \<Rightarrow> None
         | Some dev0 \<Rightarrow>
           let (rc, dev) = bvrt_load (Some dev0) (Some img) in
           if rc \<noteq> 0 then None
           else map_option (\<lambda>d. \<lparr> ss_prog = img, ss_gdb = bradgdb_attach d, ss_attached = True, ss_kernel = -1,
             ss_mem_bytes = (if mem_bytes < BVRT_MAX_MEM then mem_bytes else BVRT_MAX_MEM) \<rparr>) dev)"

definition bradlib_launch ::
  "bradlib_session option \<Rightarrow> string option \<Rightarrow> u32 list \<Rightarrow> u32 \<Rightarrow> (int \<times> bradlib_session option) option" where
  "bradlib_launch so kname args nargs = (case (so, kname) of
       (Some s, Some k) \<Rightarrow>
         (case bvrt_launch (ss_dev s) k args nargs of None \<Rightarrow> None
          | Some (rc, dev) \<Rightarrow>
              let s1 = with_dev s dev in
              Some (rc, Some (if rc = 0 then s1\<lparr> ss_kernel := of_int (bvbc_find_kernel (ss_prog s) k) \<rparr> else s1)))
     | _ \<Rightarrow> Some (-1, so))"

definition bradlib_run :: "fpu \<Rightarrow> bradlib_session option \<Rightarrow> u64 \<Rightarrow> (bv_status \<times> bradlib_session option) option" where
  "bradlib_run fp so max_insns = (case so of None \<Rightarrow> Some (BV_TRAP, None)
     | Some s \<Rightarrow> map_option (\<lambda>(st, d). (st, Some (with_dev s d))) (bvrt_run fp (ss_dev s) max_insns))"

definition bradlib_step :: "fpu \<Rightarrow> bradlib_session option \<Rightarrow> (bv_status \<times> bradlib_session option) option" where
  "bradlib_step fp so = (case so of None \<Rightarrow> Some (BV_TRAP, None)
     | Some s \<Rightarrow> map_option (\<lambda>(st, d). (st, Some (with_dev s d))) (bvrt_step fp (ss_dev s)))"

section \<open>Inspection and debugging\<close>

definition bradlib_read_s :: "bradlib_session option \<Rightarrow> int \<Rightarrow> nat \<Rightarrow> u32" where
  "bradlib_read_s so lane reg = (case so of None \<Rightarrow> 0
     | Some s \<Rightarrow> if lane < 0 \<or> int BV_WARP_SIZE \<le> lane \<or> BV_SCALAR_REGS \<le> reg then 0
                 else w_s (d_warp (ss_dev s)) (nat lane) reg)"

definition bradlib_read_v :: "bradlib_session option \<Rightarrow> int \<Rightarrow> nat \<Rightarrow> nat \<Rightarrow> u32" where
  "bradlib_read_v so lane reg lane16 = (case so of None \<Rightarrow> 0
     | Some s \<Rightarrow> if lane < 0 \<or> int BV_WARP_SIZE \<le> lane \<or> BV_VEC_REGS \<le> reg \<or> BV_VEC_LANES \<le> lane16 then 0
                 else w_v (d_warp (ss_dev s)) (nat lane) reg lane16)"

definition bradlib_read_p :: "bradlib_session option \<Rightarrow> int \<Rightarrow> nat \<Rightarrow> u32" where
  "bradlib_read_p so lane preg = (case so of None \<Rightarrow> 0
     | Some s \<Rightarrow> if lane < 0 \<or> int BV_WARP_SIZE \<le> lane \<or> BV_PRED_REGS \<le> preg then 0
                 else w_p (d_warp (ss_dev s)) (nat lane) preg)"

definition bradlib_pc :: "bradlib_session option \<Rightarrow> u32" where
  "bradlib_pc so = (case so of None \<Rightarrow> 0 | Some s \<Rightarrow> w_pc (d_warp (ss_dev s)))"

text \<open>The 32-bit cycle counter of the warp, widened.\<close>

definition bradlib_cycles :: "bradlib_session option \<Rightarrow> u64" where
  "bradlib_cycles so = (case so of None \<Rightarrow> 0 | Some s \<Rightarrow> ucast (w_cycles (d_warp (ss_dev s))))"

definition bradlib_mem :: "bradlib_session option \<Rightarrow> (nat \<Rightarrow> u8) option" where
  "bradlib_mem so = map_option (\<lambda>s. d_mem (ss_dev s)) so"

definition bradlib_mem_size :: "bradlib_session option \<Rightarrow> u64" where
  "bradlib_mem_size so = (case so of None \<Rightarrow> 0 | Some s \<Rightarrow> ss_mem_bytes s)"

definition bradlib_breakpoint :: "bradlib_session option \<Rightarrow> u32 \<Rightarrow> int \<times> bradlib_session option" where
  "bradlib_breakpoint so pc = (case so of None \<Rightarrow> (-1, None)
     | Some s \<Rightarrow> if \<not> ss_attached s then (-1, so)
       else let (bid, g) = bradgdb_add_break (ss_gdb s) pc in
         (bid, Some (s\<lparr> ss_gdb := (if 0 \<le> bid then bradgdb_enable_break g bid True else g) \<rparr>)))"

definition bradlib_continue ::
  "fpu \<Rightarrow> bradlib_session option \<Rightarrow> (bv_status \<times> bradlib_session option) option option" where
  "bradlib_continue fp so = (case so of None \<Rightarrow> Some (Some (BV_TRAP, None))
     | Some s \<Rightarrow> if \<not> ss_attached s then Some (Some (BV_TRAP, so))
       else map_option (map_option (\<lambda>(st, g). (st, Some (s\<lparr> ss_gdb := g \<rparr>)))) (bradgdb_continue fp (ss_gdb s)))"

end
