(* ===== verification/LibProps.thy ===== *)
theory LibProps
  imports Bradlib
begin

text \<open>
  Properties across the components, stated for the host library: what a program assembled by the
  library and launched in a session can do when it runs, and what its breakpoints mean.
\<close>

section \<open>From source text to a running kernel\<close>

lemma compile_assembles:
  assumes "bradlib_compile po io src = Program img"
  obtains s where "src = Some s" "bradc_assemble s (zero_image\<lparr> img_insns := replicate BVBC_MAX_INSN 0 \<rparr>) = AsmOk img"
  using assms by (auto simp: bradlib_compile_def split: option.splits if_splits asm_res.splits)

text \<open>The part of \<open>emitted_ok\<close> that keeps the interpreter inside its arrays.\<close>

definition scalar_code :: "bvbc_image \<Rightarrow> bool" where
  "scalar_code img \<longleftrightarrow> (\<forall>w \<in> set (take (img_ninsn img) (img_insns img)).
     \<forall>c v. opcode_of_byte (i_op (bv_decode w)) \<noteq> Some (OP_MEM c) \<and>
           opcode_of_byte (i_op (bv_decode w)) \<noteq> Some (OP_VEC v))"

lemma emitted_safe:
  assumes "emitted_ok w" "\<And>v. opcode_of_byte (i_op (bv_decode w)) \<noteq> Some (OP_VEC v)"
  shows "insn_safe (bv_decode w)"
  using assms by (auto simp: emitted_ok_def insn_safe_def insn_regs_ok_def Let_def split: option.splits bv_opcode.splits)

text \<open>A device that holds such a program, at any point of its execution.\<close>

definition runs_program :: "bvbc_image \<Rightarrow> bvrt_device \<Rightarrow> bool" where
  "runs_program img d \<longleftrightarrow> d_img d = img \<and> d_code d = img_insns img \<and> warp_ok d"

lemma runs_program_step:
  assumes "runs_program img d" "bvrt_step fp d = Some (st, d')"
  shows "runs_program img d'"
proof -
  have "same_program d d'"
    by (rule program.step_keeps [OF _ _ assms(2)]) (auto simp: same_program_def)
  moreover have "warp_ok d'"
    by (rule warp.step_keeps [OF _ _ assms(2)]) (use assms(1) in \<open>auto simp: warp_ok_def runs_program_def\<close>)
  ultimately show ?thesis using assms(1) by (simp add: runs_program_def same_program_def)
qed

lemma scalar_step_defined:
  assumes "runs_program img d" "scalar_code img"
    and "\<forall>w \<in> set (take (img_ninsn img) (img_insns img)). emitted_ok w"
    and "img_ninsn img \<le> length (img_insns img)" "img_ninsn img \<le> 65536"
  shows "bvrt_step fp d \<noteq> None"
proof -
  let ?pc = "w_pc (d_warp d)" let ?e = "d\<lparr> d_insns := d_insns d + 1 \<rparr>"
  have "execute_insn fp ?e (bv_decode (img_insns img ! unat ?pc)) \<noteq> None"
    if pc: "\<not> sint ?pc < 0" "unat ?pc < img_ninsn img"
  proof (rule execute_insn_defined)
  let ?w = "img_insns img ! unat ?pc"
    have w: "?w \<in> set (take (img_ninsn img) (img_insns img))"
      using pc(2) assms(4) by (auto simp: in_set_conv_nth intro!: exI [of _ "unat ?pc"])
    show "insn_safe (bv_decode ?w)"
      using w assms(2,3) by (auto simp: scalar_code_def intro!: emitted_safe)
    show "warp_ok ?e" using assms(1) by (simp add: runs_program_def warp_ok_def)
    show "addrs_ok (bv_decode ?w) 0 ?e" if "i_op (bv_decode ?w) = opcode_byte (OP_MEM c)" for c
    proof -
      have "opcode_of_byte (i_op (bv_decode ?w)) = Some (OP_MEM c)" unfolding that by (rule opcode_of_byte_byte)
      then show ?thesis using w assms(2) by (auto simp: scalar_code_def)
    qed
    show "0 \<le> sint (w_pc (d_warp ?e))" using pc(1) by simp
    have "sint ?pc = int (unat ?pc)" using pc(2) assms(5) by (intro sint_small) simp
    moreover have "int (unat ?pc) < 65536" using pc(2) assms(5) by linarith
    ultimately show "sint (w_pc (d_warp ?e)) < 65536" by simp
  qed
  then show ?thesis using assms(1,4) by (auto simp: bvrt_step_def Let_def runs_program_def not_le)
qed

lemma scalar_run_defined:
  assumes "runs_program img d" "scalar_code img"
    and "\<forall>w \<in> set (take (img_ninsn img) (img_insns img)). emitted_ok w"
    and "img_ninsn img \<le> length (img_insns img)" "img_ninsn img \<le> 65536"
  shows "bvrt_run fp d n \<noteq> None"
  using assms(1)
proof (induction fp d n rule: bvrt_run.induct)
  case (1 fp d n)
  obtain st d1 where s: "bvrt_step fp d = Some (st, d1)"
    using scalar_step_defined [OF 1(2) assms(2-5), of fp] by auto
  then show ?case
    using 1(1) [OF _ s refl] runs_program_step [OF 1(2) s] by (subst bvrt_run.simps) auto
qed


lemma create_session:
  assumes "bradlib_create so co mo heap (Some img) mem = Some s0"
  shows "ss_prog s0 = img" "d_img (ss_dev s0) = img" "d_code (ss_dev s0) = img_insns img" "ss_attached s0"
  using assms by (auto simp: bradlib_create_def bvrt_create_def bvrt_load_def bradgdb_attach_def Let_def
      split: if_splits option.splits)

lemma launch_device:
  assumes "bradlib_launch (Some s0) (Some k) args nargs = Some (0, Some s)"
  shows "bvrt_launch (ss_dev s0) k args nargs = Some (0, ss_dev s)"
  using assms by (auto simp: bradlib_launch_def with_dev_def Let_def split: option.splits)

lemma bvrt_launch_runs:
  assumes "bvrt_launch d k args nargs = Some (0, d')" "d_code d = img_insns (d_img d)"
  shows "runs_program (d_img d) d'"
  using assms by (auto simp: bvrt_launch_def runs_program_def warp_ok_def bvrt_reset_def zero_warp_def Let_def
      split: if_splits)

lemma bvrt_launch_insns: "bvrt_launch d k args nargs = Some (0, d') \<Longrightarrow> d_insns d' = 0"
  by (auto simp: bvrt_launch_def bvrt_reset_def Let_def split: if_splits)

text \<open>C1: From source text to execution: a program compiled by the library whose instructions include no
  memory and no vector instruction, launched in a session and run with any budget, never has undefined
  behaviour. The run returns \<open>BV_HALT\<close>, \<open>BV_TIMEOUT\<close> or \<open>BV_TRAP\<close>, within the budget, and the program in
  the device is unchanged.\<close>

theorem compiled_program_safe:
  assumes "bradlib_compile po io src = Program img" and "scalar_code img"
    and "bradlib_create so co mo heap (Some img) mem = Some s0"
    and "bradlib_launch (Some s0) (Some k) args nargs = Some (0, Some s)"
  shows "\<exists>st s'. bradlib_run fp (Some s) n = Some (st, Some s') \<and> st \<in> {BV_HALT, BV_TIMEOUT, BV_TRAP} \<and>
    d_insns (ss_dev s') \<le> n \<and> d_img (ss_dev s') = img \<and> d_code (ss_dev s') = img_insns img"
proof -
  obtain code where a: "bradc_assemble code (zero_image\<lparr> img_insns := replicate BVBC_MAX_INSN 0 \<rparr>) = AsmOk img"
    by (rule compile_assembles [OF assms(1)])
  have img: "\<forall>w \<in> set (take (img_ninsn img) (img_insns img)). emitted_ok w"
    "img_ninsn img \<le> length (img_insns img)" "img_ninsn img \<le> 65536"
    using assembled_build_ok(1) [OF a] by (simp_all add: build_ok_def)
  note c = create_session [OF assms(3)]
  have l: "bvrt_launch (ss_dev s0) k args nargs = Some (0, ss_dev s)"
    by (rule launch_device [OF assms(4)])
  have r: "runs_program img (ss_dev s)" using bvrt_launch_runs [OF l] c by simp
  obtain st d where d: "bvrt_run fp (ss_dev s) n = Some (st, d)"
    using scalar_run_defined [OF r assms(2) img] by fast
  have "d_insns (ss_dev s) = 0" by (rule bvrt_launch_insns [OF l])
  then show ?thesis
    using run_status [OF d] program.run_keeps [OF _ _ d, of "ss_dev s"] r d
    by (auto simp: bradlib_run_def runs_program_def same_program_def)
qed

text \<open>The program \<open>EXIT\<close>, compiled.\<close>

lemma tiny_compiles:
  "\<exists>img. bradlib_compile True True (Some tiny_source) = Program img \<and> img_ninsn img = 1 \<and>
     img_insns img = BVEN 0x46 0 0 0 0 0 0 0 # replicate 65535 0 \<and>
     img_kernels img = [\<lparr> k_name = ''k'', k_entry = 0, k_nargs = 0 \<rparr>]"
proof -
  have "replicate 65536 (0 :: u64) = 0 # replicate 65535 0"
  proof -
    have "(65536 :: nat) = Suc 65535" by simp
    then show ?thesis by (simp only: replicate_Suc)
  qed
  then show ?thesis using tiny_image [where a = 0 and xs = "replicate 65535 0"]
    by (auto simp: bradlib_compile_def split: asm_res.splits)
qed

lemma session_exists: "\<exists>s0. bradlib_create True True True (\<lambda>_. 0) (Some img) mem = Some s0"
  by (simp add: bradlib_create_def bvrt_create_def bvrt_load_def Let_def)

lemma launch_exists:
  assumes "bradlib_create True True True (\<lambda>_. 0) (Some img) mem = Some s0"
    and "img_kernels img = [\<lparr> k_name = ''k'', k_entry = 0, k_nargs = 0 \<rparr>]"
  shows "\<exists>s. bradlib_launch (Some s0) (Some ''k'') [] 0 = Some (0, Some s)"
  using create_session [OF assms(1)] assms(2)
  by (simp add: bradlib_launch_def bvrt_launch_def bvbc_find_kernel_def cstr_def nul_def Let_def)

theorem compiled_program_safe_witness:
  "\<exists>img s. bradlib_compile True True (Some tiny_source) = Program img \<and>
     (\<exists>st s'. bradlib_run sample_fpu (Some s) 100 = Some (st, Some s') \<and> d_insns (ss_dev s') \<le> 100 \<and> d_img (ss_dev s') = img)"
proof -
  obtain img where img: "bradlib_compile True True (Some tiny_source) = Program img" "img_ninsn img = 1"
    "img_insns img = BVEN 0x46 0 0 0 0 0 0 0 # replicate 65535 0"
    "img_kernels img = [\<lparr> k_name = ''k'', k_entry = 0, k_nargs = 0 \<rparr>]"
    using tiny_compiles by blast
  have "opcode_of_byte 0x46 = Some (OP_CTL BV_OP_EXIT)" by (simp add: opcode_of_byte_Some)
  then have sc: "scalar_code img" by (simp add: scalar_code_def img(2,3) decode_BVEN)
  obtain s0 where s0: "bradlib_create True True True (\<lambda>_. 0) (Some img) 64 = Some s0" using session_exists by blast
  obtain s where s: "bradlib_launch (Some s0) (Some ''k'') [] 0 = Some (0, Some s)"
    using launch_exists [OF s0 img(4)] by blast
  show ?thesis using compiled_program_safe [OF img(1) sc s0 s, of sample_fpu 100] img(1) by blast
qed

section \<open>Launching\<close>

text \<open>The first kernel of a name.\<close>

lemma first_of_name:
  assumes "j < length ks"
  obtains f where "f \<le> j" "k_name (ks ! f) = k_name (ks ! j)" "\<forall>m < f. k_name (ks ! m) \<noteq> k_name (ks ! j)"
proof (rule that)
  let ?P = "\<lambda>f. k_name (ks ! f) = k_name (ks ! j)"
  show "(LEAST f. ?P f) \<le> j" by (rule Least_le) (rule refl)
  show "?P (LEAST f. ?P f)" by (rule LeastI [of ?P j]) (rule refl)
  show "\<forall>m < (LEAST f. ?P f). \<not> ?P m" using not_less_Least [of _ ?P] by blast
qed

text \<open>C35: Launching a compiled program by the name of one of its kernels enters the first kernel of that name, which is the kernel
  itself unless the source repeats the name (the assembler accepts that, and the later kernels of the name cannot be
  launched). All 32 lanes become active at its entry, lane \<open>l\<close> reads \<open>l\<close> in S1, the first 16 arguments at most are
  in S16 to S31 of every lane, and every other scalar register reads 0.\<close>

theorem launch_enters_kernel:
  assumes "bradlib_compile po io src = Program img" and "bradlib_create so co mo heap (Some img) mem = Some s0"
    and "j < length (img_kernels img)" and "length args = unat nargs"
  shows "\<exists>s f. bradlib_launch (Some s0) (Some (k_name (img_kernels img ! j))) args nargs = Some (0, Some s) \<and>
    f \<le> j \<and> k_name (img_kernels img ! f) = k_name (img_kernels img ! j) \<and>
    (\<forall>m < f. k_name (img_kernels img ! m) \<noteq> k_name (img_kernels img ! j)) \<and>
    bradlib_pc (Some s) = k_entry (img_kernels img ! f) \<and> ss_kernel s = of_nat f \<and>
    (\<forall>l < BV_WARP_SIZE. lane_active (d_warp (ss_dev s)) l \<and>
      (\<forall>r < BV_SCALAR_REGS. bradlib_read_s (Some s) (int l) r =
        (if r = 1 then of_nat l else if 16 \<le> r \<and> r < 16 + min 16 (unat nargs) then args ! (r - 16) else 0)))"
proof -
  obtain f where f: "f \<le> j" "k_name (img_kernels img ! f) = k_name (img_kernels img ! j)"
    "\<forall>m < f. k_name (img_kernels img ! m) \<noteq> k_name (img_kernels img ! j)"
    by (rule first_of_name [OF assms(3)])
  let ?k = "img_kernels img ! f"
  obtain code where "bradc_assemble code (zero_image\<lparr> img_insns := replicate BVBC_MAX_INSN 0 \<rparr>) = AsmOk img"
    by (rule compile_assembles [OF assms(1)])
  then have "pool_ok img" using assembled_build_ok(1) by (simp add: build_ok_def)
  then have "cstr (k_name ?k) = k_name ?k"
    using assms(3) f(1) by (auto simp: pool_ok_def kernel_ok_def intro: cstr_no_nul)
  moreover have "f < length (img_kernels img)" using assms(3) f(1) by simp
  moreover have "\<forall>m < f. k_name (img_kernels img ! m) \<noteq> k_name ?k" unfolding f(2) by (rule f(3))
  ultimately have fnd: "bvbc_find_kernel img (k_name ?k) = int f"
    by (simp add: bvbc_find_kernel_def find_kernel_from_found)
  have m: "(if 16 < nargs then 16 else unat nargs) = min 16 (unat nargs)"
    by (simp add: word_less_nat_alt min_def)
  have act: "bit (0xFFFFFFFF :: u32) l" if "l < 32" for l
  proof -
    have "bit (mask 32 :: u32) l" using that by (simp add: bit_mask_iff)
    then show ?thesis by (simp add: mask_eq_exp_minus_1)
  qed
  obtain s where s: "bradlib_launch (Some s0) (Some (k_name ?k)) args nargs = Some (0, Some s)" "bradlib_pc (Some s) = k_entry ?k" "ss_kernel s = of_nat f"
    "(\<forall>l < BV_WARP_SIZE. lane_active (d_warp (ss_dev s)) l \<and>
      (\<forall>r < BV_SCALAR_REGS. bradlib_read_s (Some s) (int l) r =
        (if r = 1 then of_nat l else if 16 \<le> r \<and> r < 16 + min 16 (unat nargs) then args ! (r - 16) else 0)))"
    using create_session [OF assms(2)] fnd assms(4) act
    by (simp add: bradlib_launch_def bvrt_launch_def m Let_def bradlib_pc_def bradlib_read_s_def lane_active_def)
  show ?thesis
    by (rule exI [of _ s], rule exI [of _ f], intro conjI)
      (rule f s(1) [unfolded f(2)] s(2-4))+
qed

theorem launch_enters_kernel_witness:
  "\<exists>img s. bradlib_compile True True (Some tiny_source) = Program img \<and> bradlib_pc (Some s) = 0 \<and>
     bradlib_read_s (Some s) 7 1 = 7 \<and> bradlib_read_s (Some s) 3 16 = 99"
proof -
  obtain img where img: "bradlib_compile True True (Some tiny_source) = Program img"
    "img_kernels img = [\<lparr> k_name = ''k'', k_entry = 0, k_nargs = 0 \<rparr>]"
    using tiny_compiles by blast
  obtain s0 where "bradlib_create True True True (\<lambda>_. 0) (Some img) 64 = Some s0" using session_exists by blast
  from launch_enters_kernel [OF img(1) this, of 0 "[99]" 1] obtain s where
    "bradlib_pc (Some s) = 0" and r: "\<forall>l < BV_WARP_SIZE. lane_active (d_warp (ss_dev s)) l \<and>
      (\<forall>r < BV_SCALAR_REGS. bradlib_read_s (Some s) (int l) r =
        (if r = 1 then of_nat l else if 16 \<le> r \<and> r < 16 + min 16 (1 :: nat) then [99] ! (r - 16) else 0))"
    by (auto simp: img(2))
  moreover have "bradlib_read_s (Some s) 7 1 = 7" using r [THEN spec, of 7] by simp
  moreover have "bradlib_read_s (Some s) 3 16 = 99" using r [THEN spec, of 3] by simp
  ultimately show ?thesis using img(1) by blast
qed

section \<open>Breakpoints\<close>

lemma find_break_set:
  "find_break bs P = Some i \<Longrightarrow> Q (f (bs ! i)) \<Longrightarrow> find_break (bs[i := f (bs ! i)]) Q \<noteq> None"
proof (induction bs arbitrary: i)
  case (Cons b bs)
  then show ?case by (cases i) (auto split: if_splits)
qed simp

lemma find_break_append: "Q b \<Longrightarrow> find_break (bs @ [b]) Q \<noteq> None"
  by (induction bs) auto

text \<open>A breakpoint set through the library is armed, also when it was disabled before: it is refused only
  when the table of 64 is full, otherwise the debugger stops at its address. The device is untouched,
  and continuing with the PC already on it stops at once. The returned id is the index in the table,
  not always 0.\<close>

theorem breakpoint_armed:
  assumes "ss_attached s" and "bradlib_breakpoint (Some s) pc = (bid, Some s')"
  shows "ss_dev s' = ss_dev s \<and>
    (if length (g_breaks (ss_gdb s)) \<ge> 64 then bid = -1 \<and> s' = s
     else 0 \<le> bid \<and> bid \<le> int (length (g_breaks (ss_gdb s))) \<and>
       br_pc (g_breaks (ss_gdb s') ! nat bid) = pc \<and> at_breakpoint (ss_gdb s') pc \<noteq> None \<and>
       (w_pc (d_warp (ss_dev s)) = pc \<longrightarrow> w_active (d_warp (ss_dev s)) \<noteq> 0 \<longrightarrow>
         (\<exists>s''. bradlib_continue fp (Some s') = Some (Some (BV_OK, Some s'')) \<and> ss_dev s'' = ss_dev s)))"
proof -
  let ?g = "ss_gdb s"
  have upd: "ss_dev s' = ss_dev s \<and> (length (g_breaks ?g) \<ge> 64 \<longrightarrow> bid = -1 \<and> s' = s)"
    using assms by (auto simp: bradlib_breakpoint_def bradgdb_add_break_def bradgdb_enable_break_def split: option.splits if_splits)
  have arm: "0 \<le> bid \<and> bid \<le> int (length (g_breaks ?g)) \<and> br_pc (g_breaks (ss_gdb s') ! nat bid) = pc \<and>
      at_breakpoint (ss_gdb s') pc \<noteq> None \<and> ss_attached s'" if "length (g_breaks ?g) < 64"
  proof (cases "find_break (g_breaks ?g) (\<lambda>b. br_pc b = pc)")
    case None
    then have "bid = int (length (g_breaks ?g))" "ss_attached s'"
      "g_breaks (ss_gdb s') = g_breaks ?g @ [\<lparr> br_pc = pc, br_enabled = True, br_hit = 0 \<rparr>]"
      using assms that by (auto simp: bradlib_breakpoint_def bradgdb_add_break_def bradgdb_enable_break_def)
    then show ?thesis by (simp add: at_breakpoint_def find_break_append)
  next
    case (Some i)
    note i = find_break_bound [OF Some]
    let ?on = "\<lambda>b. b\<lparr> br_enabled := True \<rparr>"
    have "bid = int i" "ss_attached s'" "g_breaks (ss_gdb s') = (g_breaks ?g)[i := ?on (g_breaks ?g ! i)]"
      using assms that Some i by (auto simp: bradlib_breakpoint_def bradgdb_add_break_def bradgdb_enable_break_def)
    moreover have "find_break ((g_breaks ?g)[i := ?on (g_breaks ?g ! i)]) (\<lambda>b. br_enabled b \<and> br_pc b = pc) \<noteq> None"
      by (rule find_break_set [OF Some, where f = ?on]) (use i in simp)
    ultimately show ?thesis using i by (simp add: at_breakpoint_def)
  qed
  show ?thesis
    using upd arm
    by (auto simp: bradlib_continue_def bradgdb_continue.simps [of fp "ss_gdb s'"] hit_break_def not_le)
qed

theorem breakpoint_armed_witness:
  "\<exists>s s'. bradlib_create True True True (\<lambda>_. 0) (Some zero_image) 64 = Some s \<and>
     bradlib_breakpoint (Some s) 5 = (0, Some s') \<and> at_breakpoint (ss_gdb s') 5 \<noteq> None"
proof -
  obtain s where s: "bradlib_create True True True (\<lambda>_. 0) (Some zero_image) 64 = Some s" using session_exists by blast
  then have "g_breaks (ss_gdb s) = []"
    by (auto simp: bradlib_create_def bvrt_create_def bvrt_load_def bradgdb_attach_def Let_def)
  moreover from this obtain s' where "bradlib_breakpoint (Some s) 5 = (0, Some s')"
    using create_session(4) [OF s] by (auto simp: bradlib_breakpoint_def bradgdb_add_break_def)
  ultimately show ?thesis using breakpoint_armed [OF create_session(4) [OF s], of 5 0 s' sample_fpu] s by fastforce
qed

end
