(* ===== verification/Spmp.thy ===== *)
theory Spmp
  imports Prelude
begin

text \<open>
  The memory pool \<open>drivers/spmp.c\<close>: page pools with first-fit allocation and coalescing, the map table
  and the counters. The static state is a record that the operations pass on; a result is an error or a
  value. The arrays \<open>pools\<close>, \<open>blocks\<close> and \<open>maps\<close> are the lists of their used entries. No count ever goes
  down while its entries are in use, and the state starts as zeroes, so an entry that is taken is all zero
  before it is written.
\<close>

section \<open>State\<close>

datatype spmp_pool_type = SPMP_POOL_GRAPHICS | SPMP_POOL_COMPUTE | SPMP_POOL_AI | SPMP_POOL_OS | SPMP_POOL_GENERAL

record spmp_pool_config =
  cfg_type :: spmp_pool_type
  cfg_size :: u64
  cfg_numa_node :: u32
  cfg_huge_pages :: int
  cfg_encrypt :: int

record spmp_allocation =
  al_addr :: u64
  al_size :: u64
  al_pool_id :: u32
  al_encrypted :: int

record spmp_block =
  b_addr :: u64
  b_size :: u64
  b_pool :: u32
  b_in_use :: bool
  b_enc :: bool

record spmp_map_entry =
  m_addr :: u64
  m_size :: u64
  m_node :: u32
  m_active :: bool

record spmp_pool =
  p_cfg :: spmp_pool_config
  p_used :: u64
  p_active :: bool
  p_blocks :: "spmp_block list"

record spmp_stats =
  st_allocs :: u64
  st_frees :: u64
  st_maps :: u64
  st_unmaps :: u64
  st_prefetch_hits :: u64
  st_prefetch_misses :: u64

record spmp =
  sp_pools :: "spmp_pool list"
  sp_init :: bool
  sp_maps :: "spmp_map_entry list"
  sp_stats :: spmp_stats

abbreviation (input) SPMP_BLOCK_ALIGN :: u64 where "SPMP_BLOCK_ALIGN \<equiv> 16"

abbreviation (input) SPMP_MIN_BLOCK :: u64 where "SPMP_MIN_BLOCK \<equiv> 64"

abbreviation (input) SPMP_MAX_BLOCKS :: nat where "SPMP_MAX_BLOCKS \<equiv> 512"

abbreviation (input) SPMP_MAX_MAPS :: nat where "SPMP_MAX_MAPS \<equiv> 256"

abbreviation (input) SPMP_MAX_POOLS :: nat where "SPMP_MAX_POOLS \<equiv> 8"

abbreviation (input) SPMP_ADDR_BASE :: u64 where "SPMP_ADDR_BASE \<equiv> 0x100000000"

definition zero_stats :: spmp_stats where
  "zero_stats = \<lparr> st_allocs = 0, st_frees = 0, st_maps = 0, st_unmaps = 0, st_prefetch_hits = 0, st_prefetch_misses = 0 \<rparr>"

section \<open>Pools\<close>

definition pool_get :: "spmp \<Rightarrow> u32 \<Rightarrow> spmp_pool option" where
  "pool_get s pool_id =
     (if length (sp_pools s) \<le> unat pool_id then None
      else if \<not> p_active (sp_pools s ! unat pool_id) then None
      else Some (sp_pools s ! unat pool_id))"

definition put_pool :: "spmp \<Rightarrow> u32 \<Rightarrow> spmp_pool \<Rightarrow> spmp" where
  "put_pool s pool_id p = s\<lparr> sp_pools := (sp_pools s)[unat pool_id := p] \<rparr>"

definition spmp_init :: "(errno + unit) \<times> spmp" where
  "spmp_init = (Inr (), \<lparr> sp_pools = [], sp_init = True, sp_maps = [], sp_stats = zero_stats \<rparr>)"

definition pool_base :: "nat \<Rightarrow> u64" where
  "pool_base i = SPMP_ADDR_BASE + of_nat i * 0x100000000"

text \<open>\<open>cfg\<close> is \<open>None\<close> for a null pointer, \<open>have_out\<close> tells whether \<open>pool_id\<close> is not null.\<close>

definition spmp_pool_create :: "spmp_pool_config option \<Rightarrow> bool \<Rightarrow> spmp \<Rightarrow> (errno + u32) \<times> spmp" where
  "spmp_pool_create cfgo have_out s =
     (if \<not> sp_init s then (Inl ENODEV, s)
      else case cfgo of None \<Rightarrow> (Inl EINVAL, s)
      | Some cfg \<Rightarrow>
        if \<not> have_out then (Inl EINVAL, s)
        else if SPMP_MAX_POOLS \<le> length (sp_pools s) then (Inl ENOSPC, s)
        else if cfg_size cfg = 0 then (Inl EINVAL, s)
        else let i = length (sp_pools s) in
          (Inr (of_nat i),
           s\<lparr> sp_pools := sp_pools s @ [\<lparr> p_cfg = cfg, p_used = 0, p_active = True,
             p_blocks = [\<lparr> b_addr = pool_base i, b_size = cfg_size cfg, b_pool = of_nat i,
               b_in_use = False, b_enc = (cfg_encrypt cfg \<noteq> 0) \<rparr>] \<rparr>] \<rparr>))"

definition spmp_pool_destroy :: "u32 \<Rightarrow> spmp \<Rightarrow> (errno + unit) \<times> spmp" where
  "spmp_pool_destroy pool_id s =
     (if \<not> sp_init s then (Inl ENODEV, s)
      else case pool_get s pool_id of None \<Rightarrow> (Inl EINVAL, s)
      | Some p \<Rightarrow> (Inr (), put_pool s pool_id (p\<lparr> p_active := False, p_blocks := [], p_used := 0 \<rparr>)))"

section \<open>Allocation\<close>

definition align_up :: "u64 \<Rightarrow> u64 \<Rightarrow> u64" where
  "align_up alignment addr =
     (let align = (if SPMP_BLOCK_ALIGN < alignment then alignment else SPMP_BLOCK_ALIGN);
          rem = addr mod align in
      if rem \<noteq> 0 then addr + (align - rem) else addr)"

text \<open>First fit: the index of the block and the aligned address in it.\<close>

fun block_next_free :: "spmp_block list \<Rightarrow> u64 \<Rightarrow> u64 \<Rightarrow> (nat \<times> u64) option" where
  "block_next_free [] needed alignment = None"
| "block_next_free (b # bs) needed alignment =
     (let aligned = align_up alignment (b_addr b); stop = b_addr b + b_size b;
          rest = map_option (apfst Suc) (block_next_free bs needed alignment) in
      if b_in_use b then rest
      else if stop < aligned then rest
      else if stop - aligned < needed then rest
      else Some (0, aligned))"

definition needed_size :: "u64 \<Rightarrow> u64" where
  "needed_size sz =
     (let needed = (sz + SPMP_BLOCK_ALIGN - 1) AND NOT (SPMP_BLOCK_ALIGN - 1) in
      if needed < SPMP_MIN_BLOCK then SPMP_MIN_BLOCK else needed)"

definition free_block :: "u32 \<Rightarrow> u64 \<Rightarrow> u64 \<Rightarrow> spmp_block" where
  "free_block pool_id addr sz = \<lparr> b_addr = addr, b_size = sz, b_pool = pool_id, b_in_use = False, b_enc = False \<rparr>"

text \<open>
  The block is carved out: first the hole before the aligned address, then the hole behind the
  allocation, each of which needs a free slot. When the second one finds none, the first one has been
  added already.
\<close>

definition carve :: "u32 \<Rightarrow> u64 \<Rightarrow> nat \<Rightarrow> u64 \<Rightarrow> spmp_pool \<Rightarrow> (errno + unit) \<times> spmp_pool" where
  "carve pool_id needed i aligned p =
     (let b = p_blocks p ! i; alloc_end = aligned + needed; block_end = b_addr b + b_size b in
      if b_addr b < aligned \<and> SPMP_MAX_BLOCKS \<le> length (p_blocks p) then (Inl ENOSPC, p)
      else let p1 = (if b_addr b < aligned
                     then p\<lparr> p_blocks := p_blocks p @ [free_block pool_id (b_addr b) (aligned - b_addr b)] \<rparr>
                     else p) in
        if alloc_end < block_end \<and> SPMP_MAX_BLOCKS \<le> length (p_blocks p1) then (Inl ENOSPC, p1)
        else let p2 = (if alloc_end < block_end
                       then p1\<lparr> p_blocks := p_blocks p1 @ [free_block pool_id alloc_end (block_end - alloc_end)] \<rparr>
                       else p1) in
          (Inr (), p2\<lparr> p_blocks := (p_blocks p2)[i := b\<lparr> b_addr := aligned, b_size := needed, b_in_use := True \<rparr>],
                       p_used := p_used p2 + needed \<rparr>))"

definition spmp_alloc :: "u32 \<Rightarrow> u64 \<Rightarrow> u64 \<Rightarrow> bool \<Rightarrow> spmp \<Rightarrow> (errno + spmp_allocation) \<times> spmp" where
  "spmp_alloc pool_id sz alignment have_out s =
     (if \<not> sp_init s then (Inl ENODEV, s)
      else case pool_get s pool_id of None \<Rightarrow> (Inl EINVAL, s)
      | Some p \<Rightarrow>
        if \<not> have_out then (Inl EINVAL, s)
        else if sz = 0 then (Inl EINVAL, s)
        else let needed = needed_size sz in
          if SPMP_MAX_BLOCKS \<le> length (p_blocks p) then (Inl ENOSPC, s)
          else case block_next_free (p_blocks p) needed alignment of
            None \<Rightarrow> (Inl ENOMEM, s)
          | Some (i, aligned) \<Rightarrow>
            (case carve pool_id needed i aligned p of
               (Inl e, p') \<Rightarrow> (Inl e, put_pool s pool_id p')
             | (Inr _, p') \<Rightarrow>
               (Inr \<lparr> al_addr = aligned, al_size = needed, al_pool_id = pool_id, al_encrypted = cfg_encrypt (p_cfg p) \<rparr>,
                (put_pool s pool_id p')\<lparr> sp_stats := (sp_stats s)\<lparr> st_allocs := st_allocs (sp_stats s) + 1 \<rparr> \<rparr>)))"

section \<open>Release\<close>

text \<open>A merged block leaves a dead slot: all zero, marked as in use.\<close>

definition tombstone :: spmp_block where
  "tombstone = \<lparr> b_addr = 0, b_size = 0, b_pool = 0, b_in_use = True, b_enc = False \<rparr>"

definition merge_pair :: "nat \<Rightarrow> nat \<Rightarrow> spmp_block list \<Rightarrow> spmp_block list" where
  "merge_pair i j bs =
     (let a = bs ! i; bb = bs ! j in
      if j = i \<or> b_in_use bb then bs
      else if b_addr a + b_size a = b_addr bb then bs[i := a\<lparr> b_size := b_size a + b_size bb \<rparr>, j := tombstone]
      else if b_addr bb + b_size bb = b_addr a then bs[j := bb\<lparr> b_size := b_size bb + b_size a \<rparr>, i := tombstone]
      else bs)"

definition pool_coalesce :: "spmp_block list \<Rightarrow> spmp_block list" where
  "pool_coalesce bs =
     fold (\<lambda>i bs. if b_in_use (bs ! i) then bs else fold (merge_pair i) [0..<length bs] bs) [0..<length bs] bs"

fun find_alloc :: "spmp_block list \<Rightarrow> spmp_allocation \<Rightarrow> nat option" where
  "find_alloc [] al = None"
| "find_alloc (b # bs) al =
     (if b_in_use b \<and> b_addr b = al_addr al \<and> b_size b = al_size al then Some 0
      else map_option Suc (find_alloc bs al))"

text \<open>On success the caller's structure is zeroed, which the result \<open>Inr ()\<close> stands for.\<close>

definition spmp_free :: "spmp_allocation option \<Rightarrow> spmp \<Rightarrow> (errno + unit) \<times> spmp" where
  "spmp_free ao s =
     (if \<not> sp_init s then (Inl ENODEV, s)
      else case ao of None \<Rightarrow> (Inl EINVAL, s)
      | Some al \<Rightarrow>
        if al_addr al = 0 then (Inl EINVAL, s)
        else case pool_get s (al_pool_id al) of None \<Rightarrow> (Inl EINVAL, s)
        | Some p \<Rightarrow>
          (case find_alloc (p_blocks p) al of None \<Rightarrow> (Inl ENOENT, s)
           | Some i \<Rightarrow>
             let b = p_blocks p ! i in
             (Inr (), (put_pool s (al_pool_id al) (p\<lparr>
                p_used := p_used p - b_size b,
                p_blocks := pool_coalesce ((p_blocks p)[i := b\<lparr> b_in_use := False, b_enc := False \<rparr>]) \<rparr>))
                \<lparr> sp_stats := (sp_stats s)\<lparr> st_frees := st_frees (sp_stats s) + 1 \<rparr> \<rparr>)))"

section \<open>The map table\<close>

fun map_find :: "spmp_map_entry list \<Rightarrow> u64 \<Rightarrow> u64 \<Rightarrow> nat option" where
  "map_find [] addr sz = None"
| "map_find (m # ms) addr sz =
     (if m_active m \<and> addr < m_addr m + m_size m \<and> m_addr m < addr + sz then Some 0
      else map_option Suc (map_find ms addr sz))"

definition spmp_map :: "u64 \<Rightarrow> u64 \<Rightarrow> spmp \<Rightarrow> (errno + u32) \<times> spmp" where
  "spmp_map addr sz s =
     (if \<not> sp_init s then (Inl ENODEV, s)
      else if addr = 0 \<or> sz = 0 then (Inl EINVAL, s)
      else if map_find (sp_maps s) addr sz \<noteq> None then (Inl EEXIST, s)
      else if SPMP_MAX_MAPS \<le> length (sp_maps s) then (Inl ENOSPC, s)
      else let node = of_nat (length (sp_maps s)) in
        (Inr node, s\<lparr>
           sp_maps := sp_maps s @ [\<lparr> m_addr = addr, m_size = sz, m_node = node, m_active = True \<rparr>],
           sp_stats := (sp_stats s)\<lparr> st_maps := st_maps (sp_stats s) + 1 \<rparr> \<rparr>))"

definition spmp_unmap :: "u64 \<Rightarrow> u64 \<Rightarrow> spmp \<Rightarrow> (errno + unit) \<times> spmp" where
  "spmp_unmap addr sz s =
     (if \<not> sp_init s then (Inl ENODEV, s)
      else if addr = 0 \<or> sz = 0 then (Inl EINVAL, s)
      else case map_find (sp_maps s) addr sz of None \<Rightarrow> (Inl ENOENT, s)
      | Some i \<Rightarrow> (Inr (), s\<lparr>
           sp_maps := (sp_maps s)[i := (sp_maps s ! i)\<lparr> m_active := False \<rparr>],
           sp_stats := (sp_stats s)\<lparr> st_unmaps := st_unmaps (sp_stats s) + 1 \<rparr> \<rparr>))"

definition spmp_prefetch :: "u64 \<Rightarrow> u64 \<Rightarrow> spmp \<Rightarrow> (errno + unit) \<times> spmp" where
  "spmp_prefetch addr sz s =
     (if \<not> sp_init s then (Inl ENODEV, s)
      else if addr = 0 \<or> sz = 0 then (Inl EINVAL, s)
      else (Inr (), if map_find (sp_maps s) addr sz \<noteq> None
        then s\<lparr> sp_stats := (sp_stats s)\<lparr> st_prefetch_hits := st_prefetch_hits (sp_stats s) + 1 \<rparr> \<rparr>
        else s\<lparr> sp_stats := (sp_stats s)\<lparr> st_prefetch_misses := st_prefetch_misses (sp_stats s) + 1 \<rparr> \<rparr>))"

section \<open>Encryption state\<close>

fun block_at :: "spmp_block list \<Rightarrow> u64 \<Rightarrow> nat option" where
  "block_at [] addr = None"
| "block_at (b # bs) addr =
     (if b_in_use b \<and> b_addr b \<le> addr \<and> addr < b_addr b + b_size b then Some 0
      else map_option Suc (block_at bs addr))"

fun block_containing :: "spmp_pool list \<Rightarrow> u64 \<Rightarrow> (nat \<times> nat) option" where
  "block_containing [] addr = None"
| "block_containing (p # ps) addr = (case block_at (p_blocks p) addr of
       Some j \<Rightarrow> Some (0, j)
     | None \<Rightarrow> map_option (apfst Suc) (block_containing ps addr))"

definition set_encrypted :: "bool \<Rightarrow> u64 \<Rightarrow> u64 \<Rightarrow> spmp \<Rightarrow> (errno + unit) \<times> spmp" where
  "set_encrypted e addr sz s =
     (if \<not> sp_init s then (Inl ENODEV, s)
      else if addr = 0 \<or> sz = 0 then (Inl EINVAL, s)
      else case block_containing (sp_pools s) addr of None \<Rightarrow> (Inl ENOENT, s)
      | Some (i, j) \<Rightarrow>
        let p = sp_pools s ! i in
        (Inr (), s\<lparr> sp_pools := (sp_pools s)[i := p\<lparr> p_blocks := (p_blocks p)[j := (p_blocks p ! j)\<lparr> b_enc := e \<rparr>] \<rparr>] \<rparr>))"

definition spmp_encrypt :: "u64 \<Rightarrow> u64 \<Rightarrow> spmp \<Rightarrow> (errno + unit) \<times> spmp" where
  "spmp_encrypt = set_encrypted True"

definition spmp_decrypt :: "u64 \<Rightarrow> u64 \<Rightarrow> spmp \<Rightarrow> (errno + unit) \<times> spmp" where
  "spmp_decrypt = set_encrypted False"

section \<open>Statistics\<close>

text \<open>The product \<open>100 * (free - largest)\<close> wraps at 64 bits, and the quotient is narrowed to 32.\<close>

definition frag_percent :: "spmp_block list \<Rightarrow> u32" where
  "frag_percent bs =
     (let (free_total, largest) = fold (\<lambda>b (f, l). if b_in_use b then (f, l)
            else (f + b_size b, if l < b_size b then b_size b else l)) bs (0 :: u64, 0 :: u64) in
      if free_total = 0 then 0 else ucast (100 * (free_total - largest) div free_total))"

definition spmp_query_stats :: "u32 \<Rightarrow> spmp \<Rightarrow> errno + u64 \<times> u64 \<times> u32" where
  "spmp_query_stats pool_id s =
     (if \<not> sp_init s then Inl ENODEV
      else case pool_get s pool_id of None \<Rightarrow> Inl EINVAL
      | Some p \<Rightarrow> Inr (p_used p, cfg_size (p_cfg p), frag_percent (p_blocks p)))"

definition spmp_get_stats :: "bool \<Rightarrow> spmp \<Rightarrow> errno + spmp_stats" where
  "spmp_get_stats have_out s =
     (if \<not> sp_init s then Inl ENODEV
      else if \<not> have_out then Inl EINVAL
      else Inr (sp_stats s))"

end
