(* ===== verification/Machine.thy ===== *)
theory Machine
  imports Prelude
begin

text \<open>
  The interface of a component whose state is only reached through its operations: each operation is
  a function on the state, some operations carry a condition under which they may be called, and an
  invariant holds at the start and is kept by every such operation.
\<close>

locale op_machine =
  fixes exec :: "'op \<Rightarrow> 's \<Rightarrow> 's" and safe :: "'op \<Rightarrow> 's \<Rightarrow> bool" and inv :: "'s \<Rightarrow> bool" and init :: 's
  assumes init_inv: "inv init"
    and exec_inv: "inv s \<Longrightarrow> safe c s \<Longrightarrow> inv (exec c s)"
begin

fun run :: "'op list \<Rightarrow> 's \<Rightarrow> 's" where
  "run [] s = s"
| "run (c # cs) s = run cs (exec c s)"

fun run_safe :: "'op list \<Rightarrow> 's \<Rightarrow> bool" where
  "run_safe [] s \<longleftrightarrow> True"
| "run_safe (c # cs) s \<longleftrightarrow> safe c s \<and> run_safe cs (exec c s)"

lemma run_inv: "inv s \<Longrightarrow> run_safe cs s \<Longrightarrow> inv (run cs s)"
  by (induction cs arbitrary: s) (auto intro: exec_inv)

inductive reachable :: "'s \<Rightarrow> bool" where
  start: "reachable init"
| step: "reachable s \<Longrightarrow> safe c s \<Longrightarrow> reachable (exec c s)"

lemma reachable_inv: "reachable s \<Longrightarrow> inv s"
  by (induction rule: reachable.induct) (auto intro: init_inv exec_inv)

lemma reachable_run: "reachable s \<Longrightarrow> run_safe cs s \<Longrightarrow> reachable (run cs s)"
  by (induction cs arbitrary: s) (auto intro: reachable.step)

lemma run_append: "run (cs @ ds) s = run ds (run cs s)"
  by (induction cs arbitrary: s) auto

end

end
