(* ===== verification/SpmpProps.thy ===== *)
theory SpmpProps
  imports Spmp Machine
begin

text \<open>
  The allocator of \<open>drivers/spmp.c\<close>: the block table of a pool always tiles the pool's address range,
  so live allocations never overlap.
\<close>

section \<open>Lists of blocks\<close>

lemma sum_list_update_nat:
  "i < length bs \<Longrightarrow> sum_list (map f (bs[i := b])) + f (bs ! i) = sum_list (map f bs) + (f b :: nat)"
  by (induction bs arbitrary: i) (auto split: nat.splits)

text \<open>The addresses of a block.\<close>

definition span :: "spmp_block \<Rightarrow> nat set" where
  "span b = {unat (b_addr b) ..< unat (b_addr b) + unat (b_size b)}"

definition apart :: "spmp_block list \<Rightarrow> bool" where
  "apart bs \<longleftrightarrow> (\<forall>i < length bs. \<forall>j < length bs. i \<noteq> j \<longrightarrow> span (bs ! i) \<inter> span (bs ! j) = {})"

lemma apart_update:
  assumes "apart bs" "\<And>j. j < length bs \<Longrightarrow> j \<noteq> i \<Longrightarrow> span b \<inter> span (bs ! j) = {}"
  shows "apart (bs[i := b])"
proof -
  have d: "span (bs ! k) \<inter> span (bs ! j) = {}" if "k < length bs" "j < length bs" "k \<noteq> j" for k j
    using assms(1) that by (simp add: apart_def)
  show ?thesis unfolding apart_def
  proof (intro allI impI)
    fix k j assume kj: "k < length (bs[i := b])" "j < length (bs[i := b])" "k \<noteq> j"
    show "span (bs[i := b] ! k) \<inter> span (bs[i := b] ! j) = {}"
      using kj d assms(2) by (cases "k = i"; cases "j = i") (simp_all add: Int_commute)
  qed
qed

lemma apart_shrink:
  assumes "apart bs" "i < length bs" "span b \<subseteq> span (bs ! i)"
  shows "apart (bs[i := b])"
  by (rule apart_update [OF assms(1)]) (use assms in \<open>auto simp: apart_def\<close>)

lemma apart_append:
  assumes "apart bs" "\<And>j. j < length bs \<Longrightarrow> span b \<inter> span (bs ! j) = {}"
  shows "apart (bs @ [b])"
  using assms unfolding apart_def by (auto simp: nth_append less_Suc_eq)

text \<open>Block \<open>i\<close> is replaced by parts of itself, one in its place and the others at the end.\<close>

lemma apart_replace:
  assumes "apart bs" "i < length bs" "\<forall>c \<in> set (b # cs). span c \<subseteq> span (bs ! i)" "apart (b # cs)"
  shows "apart (bs[i := b] @ cs)"
  using assms(3,4)
proof (induction cs rule: rev_induct)
  case Nil
  then show ?case using apart_shrink [OF assms(1,2)] by simp
next
  case (snoc c cs)
  have part: "span ((b # cs @ [c]) ! k) \<inter> span ((b # cs @ [c]) ! m) = {}"
    if "k < length cs + 2" "m < length cs + 2" "k \<noteq> m" for k m
    using snoc.prems(2) that unfolding apart_def by simp
  have "apart (b # cs)"
    unfolding apart_def
  proof (intro allI impI)
    fix k m assume "k < length (b # cs)" "m < length (b # cs)" "k \<noteq> m"
    then show "span ((b # cs) ! k) \<inter> span ((b # cs) ! m) = {}"
      using part [of k m] by (auto simp: nth_Cons nth_append split: nat.splits)
  qed
  then have IH: "apart (bs[i := b] @ cs)" using snoc by simp
  have "span c \<inter> span ((bs[i := b] @ cs) ! j) = {}" if j: "j < length (bs[i := b] @ cs)" for j
  proof (cases "j < length bs \<and> j \<noteq> i")
    case True
    then have "span (bs ! i) \<inter> span (bs ! j) = {}" using assms(1,2) by (simp add: apart_def)
    then show ?thesis using snoc.prems(1) True by (auto simp: nth_append)
  next
    case False
    have cl: "(b # cs @ [c]) ! Suc (length cs) = c" by (simp add: nth_append)
    obtain m where m: "m < length cs + 1" "(bs[i := b] @ cs) ! j = (b # cs @ [c]) ! m"
    proof (cases "j < length bs")
      case True
      then show ?thesis using False assms(2) that [of 0] by (simp add: nth_append)
    next
      case False
      then show ?thesis using j that [of "Suc (j - length bs)"] by (auto simp: nth_append)
    qed
    then show ?thesis using part [of "Suc (length cs)" m] cl by simp
  qed
  then show ?case using apart_append [OF IH] by simp
qed

section \<open>The invariant of a pool\<close>

definition block_ok :: "nat \<Rightarrow> nat \<Rightarrow> spmp_block \<Rightarrow> bool" where
  "block_ok lo hi b \<longleftrightarrow> b_in_use b \<and> b_addr b = 0 \<and> b_size b = 0 \<or>
     0 < unat (b_size b) \<and> lo \<le> unat (b_addr b) \<and> unat (b_addr b) + unat (b_size b) \<le> hi"

definition live_size :: "spmp_block \<Rightarrow> nat" where
  "live_size b = (if b_in_use b then unat (b_size b) else 0)"

definition blocks_ok :: "nat \<Rightarrow> nat \<Rightarrow> spmp_block list \<Rightarrow> bool" where
  "blocks_ok lo hi bs \<longleftrightarrow> (\<forall>b \<in> set bs. block_ok lo hi b) \<and> apart bs \<and> (\<Sum>b\<leftarrow>bs. unat (b_size b)) = hi - lo"

lemma blocks_ok_nth: "blocks_ok lo hi bs \<Longrightarrow> i < length bs \<Longrightarrow> block_ok lo hi (bs ! i)"
  by (simp add: blocks_ok_def)

lemma free_block_ok: "block_ok lo hi b \<Longrightarrow> \<not> b_in_use b \<Longrightarrow>
    0 < unat (b_size b) \<and> lo \<le> unat (b_addr b) \<and> unat (b_addr b) + unat (b_size b) \<le> hi"
  by (auto simp: block_ok_def)

definition pool_lo :: "nat \<Rightarrow> nat" where
  "pool_lo i = 2 ^ 32 * (i + 1)"

definition pool_hi :: "nat \<Rightarrow> spmp_pool \<Rightarrow> nat" where
  "pool_hi i p = pool_lo i + unat (cfg_size (p_cfg p))"

definition pool_inv :: "nat \<Rightarrow> spmp_pool \<Rightarrow> bool" where
  "pool_inv i p \<longleftrightarrow> (p_active p \<longrightarrow> pool_hi i p < 2 ^ 63 \<and> blocks_ok (pool_lo i) (pool_hi i p) (p_blocks p) \<and>
     unat (p_used p) = (\<Sum>b\<leftarrow>p_blocks p. live_size b)) \<and> (\<not> p_active p \<longrightarrow> p_blocks p = [])"

section \<open>Alignment and size\<close>

lemma align_up_nat:
  assumes "unat addr < 2 ^ 63"
  shows "unat (align_up al addr) = (let a = max 16 (unat al) in if unat addr mod a = 0 then unat addr
    else unat addr + (a - unat addr mod a))"
proof -
  define a where "a = (if 16 < al then al else 16)"
  have a: "unat a = max 16 (unat al)" by (auto simp: a_def word_less_nat_alt)
  then have a0: "unat a > 0" by simp
  have r: "unat (addr mod a) = unat addr mod unat a" by (simp add: unat_mod_distrib)
  have "unat addr mod unat a < unat a" using a0 by simp
  then have le: "addr mod a \<le> a" by (simp add: word_le_nat_alt r)
  have d: "unat (a - addr mod a) = unat a - unat addr mod unat a" by (simp add: unat_sub le r)
  have "unat addr + (unat a - unat addr mod unat a) < 2 ^ 64"
  proof (cases "unat addr < unat a")
    case True
    then show ?thesis using unat_u64 [of a] by simp
  next
    case False
    then have "unat addr + d < 2 ^ 64" if "d \<le> unat a" for d using that assms by simp
    then show ?thesis by simp
  qed
  then have s: "unat (addr + (a - addr mod a)) = unat addr + (unat a - unat addr mod unat a)"
    by (simp add: unat_word_ariths d)
  have z: "addr mod a = 0 \<longleftrightarrow> unat addr mod unat a = 0" by (metis r unat_eq_zero)
  show ?thesis unfolding align_up_def Let_def a_def [symmetric] a [symmetric] by (simp add: z s)
qed

lemma align_up_ge:
  assumes "unat addr < 2 ^ 63"
  shows "unat addr \<le> unat (align_up al addr)"
  unfolding align_up_nat [OF assms] Let_def by (split if_split) (intro conjI impI order_refl le_add1)

lemma align_up_mod:
  assumes "unat addr < 2 ^ 63"
  shows "unat (align_up al addr) mod max 16 (unat al) = 0"
proof -
  define a where "a = max 16 (unat al)"
  have "a > 0" by (simp add: a_def)
  then have "(x + (a - x mod a)) mod a = 0" for x
    by (metis add.commute le_add_diff_inverse2 mod_add_right_eq mod_le_divisor mod_self)
  then show ?thesis unfolding align_up_nat [OF assms] a_def [symmetric] by (simp add: Let_def)
qed

lemma needed_size_nat:
  assumes "unat n + 15 < 2 ^ 64"
  shows "unat (needed_size n) = max 64 ((unat n + 15) div 16 * 16)"
proof -
  have m: "(15 :: u64) = mask 4" by (simp add: mask_eq_exp_minus_1)
  have w: "(n + 15) AND NOT (15 :: u64) = push_bit 4 (drop_bit 4 (n + 15))"
    unfolding m by (rule bit_word_eqI) (auto simp: bit_simps)
  have u: "unat (n + 15) = unat n + 15" using assms by (simp add: unat_word_ariths)
  have "unat (push_bit 4 (drop_bit 4 (n + 15))) = (unat n + 15) div 16 * 16"
    using assms by (simp add: push_bit_eq_mult drop_bit_eq_div unat_word_ariths unat_div_distrib u) 
  then have v: "unat ((n + 15) AND NOT 15) = (unat n + 15) div 16 * 16" unfolding w .
  have "n + 16 - 1 = n + 15" "(16 - 1 :: u64) = 15" by simp_all
  then have "needed_size n = (if (n + 15) AND NOT 15 < 64 then 64 else (n + 15) AND NOT 15)"
    unfolding needed_size_def Let_def by (simp only:)
  moreover have "(n + 15) AND NOT 15 < 64 \<longleftrightarrow> (unat n + 15) div 16 * 16 < 64"
    unfolding word_less_nat_alt v by simp
  ultimately show ?thesis using v by (auto simp: max_def)
qed

lemma needed_size_ge: "64 \<le> unat (needed_size n)"
  by (simp add: needed_size_def Let_def word_less_nat_alt not_less)

section \<open>Allocation\<close>

lemma block_next_free_Some:
  "block_next_free bs n al = Some (i, x) \<Longrightarrow>
    i < length bs \<and> \<not> b_in_use (bs ! i) \<and> x = align_up al (b_addr (bs ! i)) \<and>
    \<not> b_addr (bs ! i) + b_size (bs ! i) < x \<and> \<not> b_addr (bs ! i) + b_size (bs ! i) - x < n"
  by (induction bs arbitrary: i x) (auto simp: Let_def split: if_splits)

text \<open>The outcome of carving \<open>n\<close> bytes at \<open>x\<close> out of the free block \<open>b\<close>.\<close>

definition carved :: "u32 \<Rightarrow> u64 \<Rightarrow> u64 \<Rightarrow> spmp_block \<Rightarrow> spmp_block list" where
  "carved pid n x b =
     (if b_addr b < x then [free_block pid (b_addr b) (x - b_addr b)] else []) @
     (if x + n < b_addr b + b_size b then [free_block pid (x + n) (b_addr b + b_size b - (x + n))] else [])"

lemma carve_blocks:
  assumes "carve pid n i x p = (Inr u, p')" "i < length (p_blocks p)"
  shows "p_blocks p' = (p_blocks p)[i := (p_blocks p ! i)\<lparr> b_addr := x, b_size := n, b_in_use := True \<rparr>] @
      carved pid n x (p_blocks p ! i) \<and>
    p_used p' = p_used p + n \<and> p_active p' = p_active p \<and> p_cfg p' = p_cfg p"
  using assms by (auto simp: carve_def carved_def Let_def list_update_append split: if_splits)

lemma carved_parts:
  assumes "unat (b_addr b) + unat (b_size b) < 2 ^ 63" "b_addr b \<le> x" "x \<le> b_addr b + b_size b"
    and "n \<le> b_addr b + b_size b - x" "0 < n"
  defines "c \<equiv> b\<lparr> b_addr := x, b_size := n, b_in_use := True \<rparr>"
  shows "\<forall>d \<in> set (c # carved pid n x b). span d \<subseteq> span b" "apart (c # carved pid n x b)"
    "(\<Sum>d \<leftarrow> c # carved pid n x b. unat (b_size d)) = unat (b_size b)"
    "\<forall>d \<in> set (c # carved pid n x b). 0 < unat (b_size d) \<and> unat (b_addr b) \<le> unat (b_addr d) \<and>
       unat (b_addr d) + unat (b_size d) \<le> unat (b_addr b) + unat (b_size b)"
    "\<forall>d \<in> set (carved pid n x b). \<not> b_in_use d"
proof -
  let ?E = "b_addr b + b_size b"
  have E: "unat ?E = unat (b_addr b) + unat (b_size b)" using assms(1) by (simp add: unat_word_ariths)
  have X: "unat (b_addr b) \<le> unat x" "unat x \<le> unat ?E" using assms(2,3) by (simp_all add: word_le_nat_alt)
  have N: "unat n \<le> unat ?E - unat x" "0 < unat n"
    using assms(3-5) by (simp_all add: word_le_nat_alt unat_sub word_less_nat_alt)
  have XN: "unat (x + n) = unat x + unat n" using X N E assms(1) by (simp add: unat_word_ariths)
  have H: "unat (x - b_addr b) = unat x - unat (b_addr b)" using assms(2) by (simp add: unat_sub)
  have T: "unat (?E - (x + n)) = unat ?E - (unat x + unat n)" if "x + n < ?E"
    using that by (simp add: unat_sub order_less_imp_le XN)
  have lt: "b_addr b < x \<longleftrightarrow> unat (b_addr b) < unat x" "x + n < ?E \<longleftrightarrow> unat x + unat n < unat ?E"
    by (simp_all add: word_less_nat_alt XN)
  obtain A S Y M where v: "A = unat (b_addr b)" "S = unat (b_size b)" "Y = unat x" "M = unat n" by blast
  have a: "A \<le> Y" "Y \<le> A + S" "M \<le> A + S - Y" "0 < M" using X N E v by auto
  let ?cs = "c # carved pid n x b"
  have spans: "map span ?cs = {Y ..< Y + M} # (if A < Y then [{A ..< Y}] else []) @
      (if Y + M < A + S then [{Y + M ..< A + S}] else [])"
    using a T by (auto simp: c_def carved_def span_def free_block_def lt H E XN v [symmetric])
  have sizes: "map (\<lambda>d. unat (b_size d)) ?cs = M # (if A < Y then [Y - A] else []) @
      (if Y + M < A + S then [A + S - (Y + M)] else [])"
    using a T by (auto simp: c_def carved_def free_block_def lt H E XN v [symmetric])
  have sb: "span b = {A ..< A + S}" by (simp add: span_def v)
  have "\<forall>s \<in> set (map span ?cs). s \<subseteq> {A ..< A + S}" unfolding spans using a by auto
  then show "\<forall>d \<in> set ?cs. span d \<subseteq> span b" unfolding sb by simp
  have nth: "span (?cs ! k) = map span ?cs ! k" if "k < length ?cs" for k using that by (simp only: nth_map)
  have len: "length ?cs = length (map span ?cs)" by simp
  show "apart ?cs" unfolding apart_def
  proof (intro allI impI)
    fix k m assume km: "k < length ?cs" "m < length ?cs" "k \<noteq> m"
    show "span (?cs ! k) \<inter> span (?cs ! m) = {}"
      unfolding nth [OF km(1)] nth [OF km(2)] using km a unfolding len spans
      by (auto simp: nth_Cons nth_append split: nat.splits if_splits)
  qed
  show "(\<Sum>d \<leftarrow> ?cs. unat (b_size d)) = unat (b_size b)"
    unfolding sizes using a by (auto simp: v [symmetric])
  show "\<forall>d \<in> set ?cs. 0 < unat (b_size d) \<and> unat (b_addr b) \<le> unat (b_addr d) \<and>
       unat (b_addr d) + unat (b_size d) \<le> unat (b_addr b) + unat (b_size b)"
    using a T by (auto simp: c_def carved_def free_block_def lt H E XN v [symmetric])
  show "\<forall>d \<in> set (carved pid n x b). \<not> b_in_use d" by (auto simp: carved_def free_block_def)
qed

lemma blocks_ok_replace:
  assumes "blocks_ok lo hi bs" "i < length bs" "\<not> b_in_use (bs ! i)"
    and "\<forall>d \<in> set (c # cs). span d \<subseteq> span (bs ! i)" "apart (c # cs)"
    and "(\<Sum>d \<leftarrow> c # cs. unat (b_size d)) = unat (b_size (bs ! i))"
    and "\<forall>d \<in> set (c # cs). 0 < unat (b_size d) \<and> unat (b_addr (bs ! i)) \<le> unat (b_addr d) \<and>
       unat (b_addr d) + unat (b_size d) \<le> unat (b_addr (bs ! i)) + unat (b_size (bs ! i))"
  shows "blocks_ok lo hi (bs[i := c] @ cs)"
proof -
  let ?b = "bs ! i"
  have b: "lo \<le> unat (b_addr ?b)" "unat (b_addr ?b) + unat (b_size ?b) \<le> hi"
    using free_block_ok [OF blocks_ok_nth [OF assms(1,2)] assms(3)] by auto
  have "\<forall>d \<in> set (c # cs). block_ok lo hi d" using assms(7) b by (fastforce simp: block_ok_def)
  moreover have "\<forall>d \<in> set bs. block_ok lo hi d" using assms(1) by (simp add: blocks_ok_def)
  ultimately have "\<forall>d \<in> set (bs[i := c] @ cs). block_ok lo hi d"
    using set_update_subset_insert [of bs i c] by fastforce
  moreover have "apart (bs[i := c] @ cs)"
    by (rule apart_replace [OF _ assms(2,4,5)]) (use assms(1) in \<open>simp add: blocks_ok_def\<close>)
  moreover have "(\<Sum>d \<leftarrow> bs[i := c] @ cs. unat (b_size d)) = hi - lo"
    using sum_list_update_nat [OF assms(2), of "\<lambda>d. unat (b_size d)" c] assms(1,6) by (simp add: blocks_ok_def)
  ultimately show ?thesis by (simp add: blocks_ok_def)
qed

lemma live_free_zero: "\<forall>d \<in> set cs. \<not> b_in_use d \<Longrightarrow> (\<Sum>d \<leftarrow> cs. live_size d) = 0"
  by (induction cs) (auto simp: live_size_def)

text \<open>What a live allocation is to its owner: its range lies in the pool and no other block in use
  meets it.\<close>

lemma live_le_total: "(\<Sum>b \<leftarrow> bs. live_size b) \<le> (\<Sum>b \<leftarrow> bs. unat (b_size b))"
  by (rule sum_list_mono) (simp add: live_size_def)

lemma carve_inv:
  assumes inv: "pool_inv k p" "p_active p"
    and free: "block_next_free (p_blocks p) n al = Some (i, x)" and n: "0 < n"
    and carve: "carve pid n i x p = (Inr u, p')"
  shows "pool_inv k p'"
    "\<exists>cs. p_blocks p' = (p_blocks p)[i := (p_blocks p ! i)\<lparr> b_addr := x, b_size := n, b_in_use := True \<rparr>] @ cs \<and>
       (\<forall>d \<in> set cs. \<not> b_in_use d)"
    "i < length (p_blocks p)" "unat x mod max 16 (unat al) = 0"
    "unat (b_addr (p_blocks p ! i)) \<le> unat x"
    "unat x + unat n \<le> unat (b_addr (p_blocks p ! i)) + unat (b_size (p_blocks p ! i))"
proof -
  let ?bs = "p_blocks p" let ?b = "?bs ! i"
  let ?c = "?b\<lparr> b_addr := x, b_size := n, b_in_use := True \<rparr>"
  have f: "i < length ?bs" "\<not> b_in_use ?b" "x = align_up al (b_addr ?b)"
    "x \<le> b_addr ?b + b_size ?b" "n \<le> b_addr ?b + b_size ?b - x"
    using block_next_free_Some [OF free] by auto
  then show "i < length ?bs" by blast
  have ok: "blocks_ok (pool_lo k) (pool_hi k p) ?bs" "pool_hi k p < 2 ^ 63"
    using inv by (simp_all add: pool_inv_def)
  have b: "unat (b_addr ?b) + unat (b_size ?b) < 2 ^ 63"
    using free_block_ok [OF blocks_ok_nth [OF ok(1) f(1)] f(2)] ok(2) by linarith
  then have a: "unat (b_addr ?b) < 2 ^ 63" by simp
  have ge: "b_addr ?b \<le> x" using align_up_ge [OF a, of al] by (simp add: f(3) word_le_nat_alt)
  show "unat x mod max 16 (unat al) = 0" unfolding f(3) by (rule align_up_mod [OF a])
  note parts = carved_parts [OF b ge f(4,5) n, of pid]
  note eq = carve_blocks [OF carve f(1)]
  show "\<exists>cs. p_blocks p' = ?bs[i := ?c] @ cs \<and> (\<forall>d \<in> set cs. \<not> b_in_use d)"
    using eq parts(5) by blast
  have c: "unat (b_addr ?b) \<le> unat x \<and> unat x + unat n \<le> unat (b_addr ?b) + unat (b_size ?b)"
    using parts(4) by simp
  then show "unat (b_addr ?b) \<le> unat x" "unat x + unat n \<le> unat (b_addr ?b) + unat (b_size ?b)" by auto
  have "blocks_ok (pool_lo k) (pool_hi k p) (p_blocks p')"
    using blocks_ok_replace [OF ok(1) f(1,2) parts(1-4)] eq by simp
  moreover have "(\<Sum>d \<leftarrow> p_blocks p'. live_size d) = (\<Sum>d \<leftarrow> ?bs. live_size d) + unat n"
  proof -
    have "live_size ?c = unat n" "live_size ?b = 0" using f(2) by (simp_all add: live_size_def)
    then have "(\<Sum>d \<leftarrow> ?bs[i := ?c]. live_size d) = (\<Sum>d \<leftarrow> ?bs. live_size d) + unat n"
      using sum_list_update_nat [OF f(1), of live_size ?c] by linarith
    then show ?thesis using eq live_free_zero [OF parts(5)] by simp
  qed
  moreover from this have "(\<Sum>d \<leftarrow> ?bs. live_size d) + unat n < 2 ^ 64"
    using live_le_total [of "p_blocks p'"] calculation(1) ok(2) by (simp add: blocks_ok_def)
  ultimately show "pool_inv k p'"
    using inv eq by (simp add: pool_inv_def pool_hi_def unat_word_ariths)
qed

section \<open>Coalescing\<close>

text \<open>The allocations of a pool, by slot. Holes and dead slots do not count.\<close>

definition live_block :: "spmp_block \<Rightarrow> spmp_block option" where
  "live_block b = (if b_in_use b \<and> b_size b \<noteq> 0 then Some b else None)"

definition live_view :: "spmp_block list \<Rightarrow> spmp_block option list" where
  "live_view bs = map live_block bs"

lemma live_size_view: "live_size b = (case live_block b of None \<Rightarrow> 0 | Some b \<Rightarrow> unat (b_size b))"
  by (simp add: live_size_def live_block_def)

lemma live_sum_view: "(\<Sum>b \<leftarrow> bs. live_size b) = (\<Sum>v \<leftarrow> live_view bs. case v of None \<Rightarrow> 0 | Some b \<Rightarrow> unat (b_size b))"
  by (simp add: live_view_def live_size_view o_def)

lemma tombstone_simps [simp]:
  "b_in_use tombstone" "b_size tombstone = 0" "b_addr tombstone = 0" "span tombstone = {}" "live_block tombstone = None"
  by (simp_all add: tombstone_def span_def live_block_def)

definition dead :: "spmp_block \<Rightarrow> bool" where
  "dead b \<longleftrightarrow> b_in_use b \<and> b_addr b = 0 \<and> b_size b = 0"

lemma live_view_update:
  "live_block b = live_block (bs ! i) \<Longrightarrow> live_view (bs[i := b]) = live_view bs"
  by (metis live_view_def list_update_id map_update)

lemma merge_ok:
  assumes ok: "blocks_ok lo hi bs" "hi < 2 ^ 63" and ij: "i < length bs" "j < length bs" "i \<noteq> j"
    and free: "\<not> b_in_use (bs ! i)" "\<not> b_in_use (bs ! j)"
    and adj: "unat (b_addr (bs ! i)) + unat (b_size (bs ! i)) = unat (b_addr (bs ! j))"
  defines "m \<equiv> (bs ! i)\<lparr> b_size := b_size (bs ! i) + b_size (bs ! j) \<rparr>"
  shows "blocks_ok lo hi (bs[i := m, j := tombstone]) \<and> live_view (bs[i := m, j := tombstone]) = live_view bs"
proof
  let ?a = "bs ! i" and ?b = "bs ! j"
  note a = free_block_ok [OF blocks_ok_nth [OF ok(1) ij(1)] free(1)]
  note b = free_block_ok [OF blocks_ok_nth [OF ok(1) ij(2)] free(2)]
  have s: "unat (b_size m) = unat (b_size ?a) + unat (b_size ?b)"
    using a b adj ok(2) by (simp add: m_def unat_word_ariths)
  have m: "block_ok lo hi m" using a b adj s by (simp add: block_ok_def m_def)
  have sp: "span m = span ?a \<union> span ?b" using adj s a by (auto simp: span_def m_def)
  have sw: "bs[i := m, j := tombstone] = bs[j := tombstone, i := m]" using ij(3) by (rule list_update_swap)
  have ap: "apart bs" using ok(1) by (simp add: blocks_ok_def)
  have "apart (bs[j := tombstone])" by (rule apart_shrink [OF ap ij(2)]) simp
  moreover have "span m \<inter> span (bs[j := tombstone] ! k) = {}" if "k < length bs" "k \<noteq> i" for k
  proof (cases "k = j")
    case False
    have "span (bs ! i) \<inter> span (bs ! k) = {}" "span (bs ! j) \<inter> span (bs ! k) = {}"
      using ap ij that False by (simp_all add: apart_def)
    then show ?thesis using False by (auto simp: sp)
  qed (use ij in simp)
  ultimately have "apart (bs[i := m, j := tombstone])"
    unfolding sw by (intro apart_update [of "bs[j := tombstone]"]) simp_all
  moreover have "\<forall>d \<in> set (bs[i := m, j := tombstone]). block_ok lo hi d"
  proof
    fix d assume "d \<in> set (bs[i := m, j := tombstone])"
    then have "d = tombstone \<or> d = m \<or> d \<in> set bs"
      by (meson insertE set_update_subset_insert subsetD)
    then show "block_ok lo hi d" using m ok(1) by (auto simp: blocks_ok_def block_ok_def)
  qed
  moreover have "(\<Sum>d \<leftarrow> bs[i := m, j := tombstone]. unat (b_size d)) = hi - lo"
    using sum_list_update_nat [of j "bs[i := m]" "\<lambda>d. unat (b_size d)" tombstone]
      sum_list_update_nat [of i bs "\<lambda>d. unat (b_size d)" m] ij s ok(1)
    by (simp add: blocks_ok_def)
  ultimately show "blocks_ok lo hi (bs[i := m, j := tombstone])" by (simp add: blocks_ok_def)
  have "live_view (bs[i := m]) = live_view bs"
    by (rule live_view_update) (use free in \<open>simp add: live_block_def m_def\<close>)
  then show "live_view (bs[i := m, j := tombstone]) = live_view bs"
    using live_view_update [of tombstone "bs[i := m]" j] free ij by (simp add: live_block_def)
qed

lemma merge_pair_ok:
  assumes "blocks_ok lo hi bs" "0 < lo" "hi < 2 ^ 63" "i < length bs" "j < length bs" "\<not> b_in_use (bs ! i) \<or> dead (bs ! i)"
  defines "bs' \<equiv> merge_pair i j bs"
  shows "blocks_ok lo hi bs' \<and> live_view bs' = live_view bs \<and> length bs' = length bs \<and>
    (\<not> b_in_use (bs' ! i) \<or> dead (bs' ! i))"
proof (cases "j = i \<or> b_in_use (bs ! j)")
  case True
  then show ?thesis using assms by (auto simp: merge_pair_def Let_def)
next
  case False
  let ?a = "bs ! i" and ?b = "bs ! j"
  have b: "0 < unat (b_size ?b)" "lo \<le> unat (b_addr ?b)" "unat (b_addr ?b) + unat (b_size ?b) \<le> hi"
    using free_block_ok [OF blocks_ok_nth [OF assms(1,5)]] False by auto
  have ub: "unat (b_addr ?b + b_size ?b) = unat (b_addr ?b) + unat (b_size ?b)"
    using b(3) assms(3) by (simp add: unat_word_ariths)
  show ?thesis
  proof (cases "dead ?a")
    case True
    have "b_addr ?b \<noteq> 0" "b_addr ?b + b_size ?b \<noteq> 0"
      using b(1,2) assms(2) ub by (auto simp: unat_eq_zero [symmetric] simp del: unat_eq_zero)
    then show ?thesis using True False assms(1) by (auto simp: bs'_def merge_pair_def Let_def dead_def)
  next
    case free: False
    then have f: "\<not> b_in_use ?a" using assms(6) by blast
    have ua: "unat (b_addr ?a + b_size ?a) = unat (b_addr ?a) + unat (b_size ?a)"
      using free_block_ok [OF blocks_ok_nth [OF assms(1,4)] f] assms(3) by (simp add: unat_word_ariths)
    show ?thesis
      using False f assms merge_ok [OF assms(1,3,4,5)] merge_ok [OF assms(1,3,5,4)] ua ub
      by (auto simp: merge_pair_def Let_def dead_def word_unat_eq_iff)
  qed
qed

lemma pool_coalesce_ok:
  assumes "blocks_ok lo hi bs" "0 < lo" "hi < 2 ^ 63"
  shows "blocks_ok lo hi (pool_coalesce bs) \<and> live_view (pool_coalesce bs) = live_view bs \<and>
    length (pool_coalesce bs) = length bs"
proof -
  let ?P = "\<lambda>xs. blocks_ok lo hi xs \<and> live_view xs = live_view bs \<and> length xs = length bs"
  have inner: "?P (fold (merge_pair i) js xs)"
    if "?P xs" "i < length bs" "\<not> b_in_use (xs ! i) \<or> dead (xs ! i)" "\<forall>j \<in> set js. j < length bs" for i js xs
    using that
  proof (induction js arbitrary: xs)
    case (Cons j js)
    have "?P (merge_pair i j xs) \<and> (\<not> b_in_use (merge_pair i j xs ! i) \<or> dead (merge_pair i j xs ! i))"
      using Cons.prems merge_pair_ok [of lo hi xs i j] assms(2,3) by simp
    then show ?case using Cons.IH [of "merge_pair i j xs"] Cons.prems(2,4) by simp
  qed simp
  have "?P (fold (\<lambda>i xs. if b_in_use (xs ! i) then xs else fold (merge_pair i) [0..<length xs] xs) is xs)"
    if "?P xs" "\<forall>i \<in> set is. i < length bs" for "is" xs
    using that by (induction "is" arbitrary: xs) (auto simp: inner)
  note outer = this
  from outer [of bs "[0..<length bs]"] show ?thesis using assms(1) by (simp add: pool_coalesce_def)
qed

section \<open>The invariant of the whole state\<close>

definition spmp_inv :: "spmp \<Rightarrow> bool" where
  "spmp_inv s \<longleftrightarrow> length (sp_pools s) \<le> SPMP_MAX_POOLS \<and> (\<forall>i < length (sp_pools s). pool_inv i (sp_pools s ! i))"

lemma spmp_inv_cong: "sp_pools s' = sp_pools s \<Longrightarrow> spmp_inv s' = spmp_inv s"
  by (simp add: spmp_inv_def)

lemma pool_get_Some:
  "pool_get s k = Some p \<longleftrightarrow> unat k < length (sp_pools s) \<and> sp_pools s ! unat k = p \<and> p_active p"
  by (auto simp: pool_get_def)

lemma put_pool_simps [simp]:
  "sp_pools (put_pool s k p) = (sp_pools s)[unat k := p]" "sp_stats (put_pool s k p) = sp_stats s"
  "sp_init (put_pool s k p) = sp_init s" "sp_maps (put_pool s k p) = sp_maps s"
  by (simp_all add: put_pool_def)

lemma update_pool_inv:
  assumes "spmp_inv s" "pool_inv k p"
  shows "spmp_inv (s\<lparr> sp_pools := (sp_pools s)[k := p] \<rparr>)"
proof -
  have "pool_inv i ((sp_pools s)[k := p] ! i)" if "i < length (sp_pools s)" for i
    using assms that by (cases "i = k") (auto simp: spmp_inv_def)
  then show ?thesis using assms(1) by (simp add: spmp_inv_def)
qed

lemma put_pool_inv: "spmp_inv s \<Longrightarrow> pool_inv (unat k) p \<Longrightarrow> spmp_inv (put_pool s k p)"
  unfolding put_pool_def by (rule update_pool_inv)

lemma pool_base_nat: "k < 8 \<Longrightarrow> unat (pool_base k) = pool_lo k"
  by (simp add: pool_base_def pool_lo_def unat_word_ariths unat_of_nat)

datatype spmp_op =
    SpmpCreate spmp_pool_config
  | SpmpDestroy u32
  | SpmpAlloc u32 u64 u64
  | SpmpFree spmp_allocation
  | SpmpMap u64 u64
  | SpmpUnmap u64 u64
  | SpmpPrefetch u64 u64
  | SpmpEncrypt u64 u64
  | SpmpDecrypt u64 u64

fun spmp_exec :: "spmp_op \<Rightarrow> spmp \<Rightarrow> spmp" where
  "spmp_exec (SpmpCreate cfg) s = snd (spmp_pool_create (Some cfg) True s)"
| "spmp_exec (SpmpDestroy k) s = snd (spmp_pool_destroy k s)"
| "spmp_exec (SpmpAlloc k n al) s = snd (spmp_alloc k n al True s)"
| "spmp_exec (SpmpFree a) s = snd (spmp_free (Some a) s)"
| "spmp_exec (SpmpMap a n) s = snd (spmp_map a n s)"
| "spmp_exec (SpmpUnmap a n) s = snd (spmp_unmap a n s)"
| "spmp_exec (SpmpPrefetch a n) s = snd (spmp_prefetch a n s)"
| "spmp_exec (SpmpEncrypt a n) s = snd (spmp_encrypt a n s)"
| "spmp_exec (SpmpDecrypt a n) s = snd (spmp_decrypt a n s)"

text \<open>Pools stay below \<open>2\<^sup>6\<^sup>3\<close>, and an allocation finds two free slots in the block table.\<close>

fun spmp_safe :: "spmp_op \<Rightarrow> spmp \<Rightarrow> bool" where
  "spmp_safe (SpmpCreate cfg) s \<longleftrightarrow> pool_lo (length (sp_pools s)) + unat (cfg_size cfg) < 2 ^ 63"
| "spmp_safe (SpmpAlloc k n al) s \<longleftrightarrow> (\<forall>p. pool_get s k = Some p \<longrightarrow> length (p_blocks p) + 2 \<le> SPMP_MAX_BLOCKS)"
| "spmp_safe _ s \<longleftrightarrow> True"

lemma create_inv:
  assumes "spmp_inv s" "pool_lo (length (sp_pools s)) + unat (cfg_size cfg) < 2 ^ 63"
  shows "spmp_inv (snd (spmp_pool_create (Some cfg) True s))"
proof (cases "sp_init s \<and> length (sp_pools s) < 8 \<and> cfg_size cfg \<noteq> 0")
  case True
  then have "0 < unat (cfg_size cfg)" "unat (pool_base (length (sp_pools s))) = pool_lo (length (sp_pools s))"
    by (simp_all add: pool_base_nat unat_gt_0)
  then show ?thesis using assms True
    by (auto simp: spmp_inv_def spmp_pool_create_def Let_def nth_append pool_inv_def pool_hi_def blocks_ok_def
        block_ok_def apart_def live_size_def less_Suc_eq)
qed (use assms in \<open>auto simp: spmp_pool_create_def\<close>)

lemma destroy_inv: "spmp_inv s \<Longrightarrow> spmp_inv (snd (spmp_pool_destroy k s))"
  by (auto simp: spmp_pool_destroy_def pool_inv_def intro!: put_pool_inv split: option.splits)

lemma carve_no_error: "length (p_blocks p) + 2 \<le> 512 \<Longrightarrow> \<exists>p'. carve pid n i x p = (Inr (), p')"
  by (auto simp: carve_def Let_def)

lemma alloc_inv:
  assumes "spmp_inv s" "\<forall>p. pool_get s k = Some p \<longrightarrow> length (p_blocks p) + 2 \<le> 512"
  shows "spmp_inv (snd (spmp_alloc k n al out s))"
proof -
  have "spmp_inv (put_pool s k p')"
    if "pool_get s k = Some p" "block_next_free (p_blocks p) (needed_size n) al = Some (i, x)"
      "carve k (needed_size n) i x p = (Inr (), p')" for p i x p'
  proof (rule put_pool_inv [OF assms(1) carve_inv(1) [OF _ _ that(2) _ that(3)]])
    show "pool_inv (unat k) p" "p_active p" using that(1) assms(1) by (auto simp: pool_get_Some spmp_inv_def)
    show "0 < needed_size n" using needed_size_ge [of n] by (auto simp: word_less_nat_alt)
  qed
  moreover have "\<exists>p'. carve k (needed_size n) i x p = (Inr (), p')" if "pool_get s k = Some p" for p i x
    using assms(2) that carve_no_error by blast
  ultimately show ?thesis using assms(1)
    by (fastforce simp: spmp_alloc_def Let_def spmp_inv_cong [of "s\<lparr> sp_stats := z \<rparr>" s for z]
        spmp_inv_cong [of "(put_pool s k p)\<lparr> sp_stats := z \<rparr>" "put_pool s k p" for p z]
        split: option.splits prod.splits sum.splits)
qed

lemma find_alloc_Some:
  "find_alloc bs a = Some i \<Longrightarrow> i < length bs \<and> b_in_use (bs ! i) \<and> b_addr (bs ! i) = al_addr a \<and> b_size (bs ! i) = al_size a"
  by (induction bs arbitrary: i) (auto split: if_splits)

lemma blocks_ok_flags:
  assumes "blocks_ok lo hi bs" "i < length bs" "b_addr b = b_addr (bs ! i)" "b_size b = b_size (bs ! i)"
    and "b_in_use b \<or> b_size (bs ! i) \<noteq> 0"
  shows "blocks_ok lo hi (bs[i := b])"
proof -
  have "block_ok lo hi b" using blocks_ok_nth [OF assms(1,2)] assms(3-5) by (auto simp: block_ok_def)
  then have "\<forall>d \<in> set (bs[i := b]). block_ok lo hi d"
    using assms(1) set_update_subset_insert [of bs i b] by (fastforce simp: blocks_ok_def)
  moreover have "apart (bs[i := b])"
    by (rule apart_shrink [OF _ assms(2)]) (use assms in \<open>simp_all add: blocks_ok_def span_def\<close>)
  moreover have "(\<Sum>d \<leftarrow> bs[i := b]. unat (b_size d)) = hi - lo"
    using sum_list_update_nat [OF assms(2), of "\<lambda>d. unat (b_size d)" b] assms(1,4) by (simp add: blocks_ok_def)
  ultimately show ?thesis by (simp add: blocks_ok_def)
qed

lemma find_alloc_None:
  "find_alloc bs a = None \<Longrightarrow> b \<in> set bs \<Longrightarrow> \<not> (b_in_use b \<and> b_addr b = al_addr a \<and> b_size b = al_size a)"
  by (induction bs) (auto split: if_splits)

text \<open>The pool after the block of an allocation has been freed.\<close>

definition freed :: "spmp_pool \<Rightarrow> nat \<Rightarrow> spmp_pool" where
  "freed p i = p\<lparr> p_used := p_used p - b_size (p_blocks p ! i),
     p_blocks := pool_coalesce ((p_blocks p)[i := (p_blocks p ! i)\<lparr> b_in_use := False, b_enc := False \<rparr>]) \<rparr>"

lemma freed_inv:
  assumes inv: "pool_inv k p" "p_active p" and i: "i < length (p_blocks p)" "b_in_use (p_blocks p ! i)"
    and a: "b_addr (p_blocks p ! i) \<noteq> 0"
  shows "pool_inv k (freed p i)" "live_view (p_blocks (freed p i)) = (live_view (p_blocks p))[i := None]"
proof -
  let ?bs = "p_blocks p" let ?b = "?bs ! i" let ?f = "?b\<lparr> b_in_use := False, b_enc := False \<rparr>"
  have ok: "blocks_ok (pool_lo k) (pool_hi k p) ?bs" "pool_hi k p < 2 ^ 63"
    "unat (p_used p) = (\<Sum>d \<leftarrow> ?bs. live_size d)"
    using inv by (simp_all add: pool_inv_def)
  have s: "b_size ?b \<noteq> 0" using blocks_ok_nth [OF ok(1) i(1)] a by (auto simp: block_ok_def)
  have b1: "blocks_ok (pool_lo k) (pool_hi k p) (?bs[i := ?f])"
    by (rule blocks_ok_flags [OF ok(1) i(1)]) (use s in simp_all)
  have "0 < pool_lo k" by (simp add: pool_lo_def)
  note c = pool_coalesce_ok [OF b1 this ok(2)]
  have lv: "live_view (?bs[i := ?f]) = (live_view ?bs)[i := None]"
    by (simp add: live_view_def map_update live_block_def)
  then show "live_view (p_blocks (freed p i)) = (live_view ?bs)[i := None]" using c by (simp add: freed_def)
  have "(\<Sum>d \<leftarrow> ?bs[i := ?f]. live_size d) + unat (b_size ?b) = (\<Sum>d \<leftarrow> ?bs. live_size d)"
    using sum_list_update_nat [OF i(1), of live_size ?f] i(2) by (simp add: live_size_def [of ?f] live_size_def [of ?b])
  then have "(\<Sum>d \<leftarrow> pool_coalesce (?bs[i := ?f]). live_size d) + unat (b_size ?b) = unat (p_used p)"
    using c ok(3) by (simp add: live_sum_view)
  moreover from this have "unat (p_used p - b_size ?b) = unat (p_used p) - unat (b_size ?b)"
    by (intro unat_sub) (simp add: word_le_nat_alt)
  ultimately show "pool_inv k (freed p i)"
    using c ok(2) inv(2) by (simp add: pool_inv_def freed_def pool_hi_def)
qed

lemma spmp_free_cases:
  assumes "spmp_free (Some a) s = (r, s')"
  obtains "s' = s" "\<exists>e. r = Inl e"
  | p i where "sp_init s" "al_addr a \<noteq> 0" "pool_get s (al_pool_id a) = Some p" "find_alloc (p_blocks p) a = Some i" "r = Inr ()"
      "s' = (put_pool s (al_pool_id a) (freed p i))\<lparr> sp_stats := (sp_stats s)\<lparr> st_frees := st_frees (sp_stats s) + 1 \<rparr> \<rparr>"
  using assms by (auto simp: spmp_free_def freed_def Let_def split: if_splits option.splits)

lemma free_inv:
  assumes "spmp_inv s"
  shows "spmp_inv (snd (spmp_free (Some a) s))"
proof (cases "spmp_free (Some a) s")
  case (Pair r s')
  then show ?thesis
  proof (cases rule: spmp_free_cases)
    case (2 p i)
    note f = find_alloc_Some [OF 2(4)]
    have "pool_inv (unat (al_pool_id a)) p" "p_active p" using 2(3) assms by (auto simp: pool_get_Some spmp_inv_def)
    then have "pool_inv (unat (al_pool_id a)) (freed p i)" using f 2(2) by (intro freed_inv(1)) auto
    then have "spmp_inv (put_pool s (al_pool_id a) (freed p i))" by (rule put_pool_inv [OF assms])
    then show ?thesis using Pair 2(6) by (simp add: spmp_inv_def)
  qed (use assms Pair in simp)
qed

lemma block_at_Some:
  "block_at bs a = Some j \<Longrightarrow> j < length bs \<and> b_in_use (bs ! j) \<and> b_addr (bs ! j) \<le> a \<and> a < b_addr (bs ! j) + b_size (bs ! j)"
  by (induction bs arbitrary: j) (auto split: if_splits)

lemma block_containing_Some:
  "block_containing ps a = Some (i, j) \<Longrightarrow> i < length ps \<and> block_at (p_blocks (ps ! i)) a = Some j"
  by (induction ps arbitrary: i) (auto split: option.splits)

lemma encrypt_inv:
  assumes "spmp_inv s"
  shows "spmp_inv (snd (set_encrypted e a n s))"
proof -
  have "spmp_inv (s\<lparr> sp_pools := (sp_pools s)[i := p\<lparr> p_blocks := (p_blocks p)[j := (p_blocks p ! j)\<lparr> b_enc := e \<rparr>] \<rparr>] \<rparr>)"
    if "block_containing (sp_pools s) a = Some (i, j)" "p = sp_pools s ! i" for i j p
  proof -
    have i: "i < length (sp_pools s)" and j: "j < length (p_blocks p)" "b_in_use (p_blocks p ! j)"
      using block_containing_Some [OF that(1)] block_at_Some that(2) by auto
    have p: "pool_inv i p" using assms i that(2) by (simp add: spmp_inv_def)
    let ?b = "(p_blocks p ! j)\<lparr> b_enc := e \<rparr>"
    have "blocks_ok lo hi ((p_blocks p)[j := ?b])" if "blocks_ok lo hi (p_blocks p)" for lo hi
      by (rule blocks_ok_flags [OF that j(1)]) (use j in simp_all)
    moreover have "(\<Sum>d \<leftarrow> (p_blocks p)[j := ?b]. live_size d) = (\<Sum>d \<leftarrow> p_blocks p. live_size d)"
    proof -
      have "live_size ?b = live_size (p_blocks p ! j)" by (simp add: live_size_def)
      then show ?thesis using sum_list_update_nat [OF j(1), of live_size ?b] by linarith
    qed
    ultimately have "pool_inv i (p\<lparr> p_blocks := (p_blocks p)[j := ?b] \<rparr>)"
      using p by (auto simp: pool_inv_def pool_hi_def)
    then show ?thesis by (rule update_pool_inv [OF assms])
  qed
  then show ?thesis using assms by (auto simp: set_encrypted_def Let_def split: option.splits)
qed

lemma maps_inv:
  "spmp_inv s \<Longrightarrow> spmp_inv (snd (spmp_map a n s))"
  "spmp_inv s \<Longrightarrow> spmp_inv (snd (spmp_unmap a n s))"
  "spmp_inv s \<Longrightarrow> spmp_inv (snd (spmp_prefetch a n s))"
  by (auto simp: spmp_map_def spmp_unmap_def spmp_prefetch_def spmp_inv_def Let_def split: option.splits)

interpretation pools: op_machine spmp_exec spmp_safe spmp_inv "snd spmp_init"
proof
  show "spmp_inv (snd spmp_init)" by (simp add: spmp_init_def spmp_inv_def)
next
  fix s c assume "spmp_inv s" "spmp_safe c s"
  then show "spmp_inv (spmp_exec c s)"
    by (cases c) (auto simp: spmp_encrypt_def spmp_decrypt_def
        intro: create_inv destroy_inv alloc_inv free_inv maps_inv encrypt_inv)
qed

section \<open>What the allocator promises\<close>

text \<open>C10: After any sequence of operations in which every allocation finds two free slots in the block
  table, the blocks of an active pool are pairwise disjoint, lie inside the pool, and their sizes add
  up to the size of the pool; the \<open>used\<close> counter is the total size of the blocks in use.\<close>

theorem spmp_pools_tiled:
  assumes "pools.run_safe ops (snd spmp_init)" and "s = pools.run ops (snd spmp_init)"
    and "i < length (sp_pools s)" and "p = sp_pools s ! i" and "p_active p"
  shows "(\<forall>j < length (p_blocks p). \<forall>k < length (p_blocks p). j \<noteq> k \<longrightarrow> span (p_blocks p ! j) \<inter> span (p_blocks p ! k) = {}) \<and>
    (\<forall>b \<in> set (p_blocks p). span b \<subseteq> {pool_lo i ..< pool_lo i + unat (cfg_size (p_cfg p))}) \<and>
    (\<Sum>b \<leftarrow> p_blocks p. unat (b_size b)) = unat (cfg_size (p_cfg p)) \<and>
    unat (p_used p) = (\<Sum>b \<leftarrow> p_blocks p. live_size b)"
proof -
  have "spmp_inv s" unfolding assms(2) by (rule pools.run_inv [OF pools.init_inv assms(1)])
  then have "pool_inv i p" using assms(3,4) by (simp add: spmp_inv_def)
  then show ?thesis using assms(5)
    by (auto simp: pool_inv_def blocks_ok_def apart_def pool_hi_def block_ok_def span_def)
qed

definition small_pool :: spmp_pool_config where
  "small_pool = \<lparr> cfg_type = SPMP_POOL_GENERAL, cfg_size = 0x1000, cfg_numa_node = 0, cfg_huge_pages = 0, cfg_encrypt = 1 \<rparr>"

theorem spmp_pools_tiled_witness:
  "\<exists>p. sp_pools (pools.run [SpmpCreate small_pool, SpmpAlloc 0 100 256] (snd spmp_init)) ! 0 = p \<and>
     unat (p_used p) = (\<Sum>b \<leftarrow> p_blocks p. live_size b)"
proof -
  let ?ops = "[SpmpCreate small_pool, SpmpAlloc 0 100 256]"
  have c: "snd (spmp_pool_create (Some small_pool) True (snd spmp_init)) = (snd spmp_init)\<lparr> sp_pools :=
      [\<lparr> p_cfg = small_pool, p_used = 0, p_active = True, p_blocks = [\<lparr> b_addr = 0x100000000, b_size = 0x1000,
        b_pool = 0, b_in_use = False, b_enc = True \<rparr>] \<rparr>] \<rparr>"
    by (simp add: spmp_pool_create_def spmp_init_def small_pool_def pool_base_def)
  have "pools.run_safe ?ops (snd spmp_init)"
    by (simp add: c) (simp add: spmp_init_def small_pool_def pool_lo_def pool_get_def)
  moreover have "0 < length (sp_pools (pools.run ?ops (snd spmp_init))) \<and> p_active (sp_pools (pools.run ?ops (snd spmp_init)) ! 0)"
    unfolding pools.run.simps by code_simp
  ultimately show ?thesis using spmp_pools_tiled [of ?ops _ 0] by blast
qed

definition live_blocks :: "spmp_pool \<Rightarrow> spmp_block set" where
  "live_blocks p = {b \<in> set (p_blocks p). b_in_use b \<and> b_size b \<noteq> 0}"

lemma live_blocks_view: "live_blocks p = {b. Some b \<in> set (live_view (p_blocks p))}"
  by (auto simp: live_blocks_def live_view_def live_block_def image_iff split: if_splits)

lemma alloc_success:
  assumes "spmp_alloc k n al out s = (Inr a, s')"
  obtains p i x p' where "pool_get s k = Some p" "block_next_free (p_blocks p) (needed_size n) al = Some (i, x)"
    "carve k (needed_size n) i x p = (Inr (), p')" "sp_init s"
    "a = \<lparr> al_addr = x, al_size = needed_size n, al_pool_id = k, al_encrypted = cfg_encrypt (p_cfg p) \<rparr>"
    "s' = (put_pool s k p')\<lparr> sp_stats := (sp_stats s)\<lparr> st_allocs := st_allocs (sp_stats s) + 1 \<rparr> \<rparr>"
  using assms by (auto simp: spmp_alloc_def Let_def split: if_splits option.splits prod.splits sum.splits)

lemma live_blocks_carved:
  assumes "bs' = bs[i := c] @ cs" "i < length bs" "\<not> b_in_use (bs ! i)" "b_in_use c" "b_size c \<noteq> 0" "\<forall>d \<in> set cs. \<not> b_in_use d"
  shows "{b \<in> set bs'. b_in_use b \<and> b_size b \<noteq> 0} = insert c {b \<in> set bs. b_in_use b \<and> b_size b \<noteq> 0}"
proof -
  have u: "set (bs[i := c]) = insert c {bs ! j |j. j < length bs \<and> j \<noteq> i}"
    using assms(2) by (auto simp: set_conv_nth nth_list_update)
  have o: "set bs = insert (bs ! i) {bs ! j |j. j < length bs \<and> j \<noteq> i}"
    using assms(2) by (auto simp: set_conv_nth)
  have "set bs' = insert c {bs ! j |j. j < length bs \<and> j \<noteq> i} \<union> set cs" unfolding assms(1) set_append u ..
  then show ?thesis unfolding o using assms(3-6) by blast
qed

lemma alloc_fresh_block:
  assumes "spmp_inv s" and "spmp_alloc k n al True s = (Inr a, s')"
  shows "unat (al_addr a) mod max 16 (unat al) = 0 \<and> (unat n + 15 < 2 ^ 64 \<longrightarrow> unat n \<le> unat (al_size a)) \<and>
    (\<exists>p p' c. pool_get s k = Some p \<and> pool_get s' k = Some p' \<and>
      {unat (al_addr a) ..< unat (al_addr a) + unat (al_size a)} \<subseteq>
        {pool_lo (unat k) ..< pool_lo (unat k) + unat (cfg_size (p_cfg p))} \<and>
      (\<forall>b \<in> live_blocks p. span b \<inter> {unat (al_addr a) ..< unat (al_addr a) + unat (al_size a)} = {}) \<and>
      live_blocks p' = insert c (live_blocks p) \<and> b_addr c = al_addr a \<and> b_size c = al_size a)"
proof -
  obtain p i x p' where d: "pool_get s k = Some p" "block_next_free (p_blocks p) (needed_size n) al = Some (i, x)"
    "carve k (needed_size n) i x p = (Inr (), p')"
    "a = \<lparr> al_addr = x, al_size = needed_size n, al_pool_id = k, al_encrypted = cfg_encrypt (p_cfg p) \<rparr>"
    "s' = (put_pool s k p')\<lparr> sp_stats := (sp_stats s)\<lparr> st_allocs := st_allocs (sp_stats s) + 1 \<rparr> \<rparr>"
    by (rule alloc_success [OF assms(2)])
  have pk: "pool_inv (unat k) p" "p_active p" "unat k < length (sp_pools s)"
    using d(1) assms(1) by (auto simp: pool_get_Some spmp_inv_def)
  have n0: "0 < needed_size n" using needed_size_ge [of n] by (auto simp: word_less_nat_alt)
  note ci = carve_inv [OF pk(1,2) d(2) n0 d(3)]
  let ?b = "p_blocks p ! i" let ?c = "?b\<lparr> b_addr := x, b_size := needed_size n, b_in_use := True \<rparr>"
  have nb: "\<not> b_in_use ?b" using block_next_free_Some [OF d(2)] by blast
  have ok: "blocks_ok (pool_lo (unat k)) (pool_hi (unat k) p) (p_blocks p)" using pk by (simp add: pool_inv_def)
  have sub: "{unat x ..< unat x + unat (needed_size n)} \<subseteq> span ?b" using ci(5,6) by (auto simp: span_def)
  have dis: "span b \<inter> span ?b = {}" if "b \<in> live_blocks p" for b
  proof -
    have "b \<in> set (p_blocks p)" "b_in_use b" using that by (simp_all add: live_blocks_def)
    moreover from this obtain j where "j < length (p_blocks p)" "p_blocks p ! j = b" by (auto simp: in_set_conv_nth)
    ultimately have "j < length (p_blocks p)" "b = p_blocks p ! j" "j \<noteq> i" using nb by auto
    then show ?thesis using ok ci(3) by (auto simp: blocks_ok_def apart_def)
  qed
  have rng: "span ?b \<subseteq> {pool_lo (unat k) ..< pool_hi (unat k) p}"
    using free_block_ok [OF blocks_ok_nth [OF ok ci(3)] nb] by (auto simp: span_def)
  have lb: "live_blocks p' = insert ?c (live_blocks p)"
  proof -
    obtain cs where "p_blocks p' = (p_blocks p)[i := ?c] @ cs" "\<forall>d \<in> set cs. \<not> b_in_use d" using ci(2) by blast
    from live_blocks_carved [OF this(1) ci(3) nb _ _ this(2)] show ?thesis using n0 by (simp add: live_blocks_def)
  qed
  have get': "pool_get s' k = Some p'"
    using d(5) pk(2,3) carve_blocks [OF d(3) ci(3)] by (simp add: pool_get_Some)
  have "{unat x ..< unat x + unat (needed_size n)} \<subseteq> {pool_lo (unat k) ..< pool_lo (unat k) + unat (cfg_size (p_cfg p))}"
    using sub rng unfolding pool_hi_def by (rule order_trans)
  moreover have "\<forall>b \<in> live_blocks p. span b \<inter> {unat x ..< unat x + unat (needed_size n)} = {}"
    using dis sub by (meson Int_mono disjoint_iff order_refl subsetD)
  moreover have "unat n \<le> unat (needed_size n)" if "unat n + 15 < 2 ^ 64" unfolding needed_size_nat [OF that] by simp
  moreover have "b_addr ?c = x" "b_size ?c = needed_size n" by simp_all
  ultimately show ?thesis
    unfolding d(4) spmp_allocation.select_convs using d(1) get' lb ci(4) by blast
qed

text \<open>A live block lies in the window of its pool; the windows of two pools of at most 4 GiB do not meet.\<close>

lemma live_block_range:
  assumes "pool_inv i p" "p_active p" "b \<in> live_blocks p"
  shows "span b \<subseteq> {pool_lo i ..< pool_lo i + unat (cfg_size (p_cfg p))}"
proof -
  have "block_ok (pool_lo i) (pool_hi i p) b" using assms by (auto simp: pool_inv_def blocks_ok_def live_blocks_def)
  then show ?thesis using assms(3) by (auto simp: block_ok_def live_blocks_def span_def pool_hi_def)
qed

lemma pool_windows_apart:
  assumes "i \<noteq> j" "m \<le> 2 ^ 32" "n \<le> 2 ^ 32"
  shows "{pool_lo i ..< pool_lo i + m} \<inter> {pool_lo j ..< pool_lo j + n} = {}"
proof -
  have "pool_lo a + 2 ^ 32 \<le> pool_lo b" if "a < b" for a b
  proof -
    have "2 ^ 32 * (a + 1 + 1) \<le> 2 ^ 32 * (b + 1)" using that by (intro mult_left_mono) auto
    then show ?thesis by (simp add: pool_lo_def)
  qed
  then show ?thesis using assms by (fastforce simp: neq_iff)
qed

text \<open>C26: A successful allocation is aligned as requested (at least to 16), is at least as large as requested
  unless the rounding overflows (requests of more than \<open>2^64 - 16\<close> bytes), lies in its pool, and meets no live
  allocation of the pool. It meets no live allocation of another pool either when neither of the two pools is larger
  than 4 GiB, the distance of their windows. The live allocations of the pool afterwards are the old ones and the new one.\<close>

theorem spmp_alloc_fresh:
  assumes "spmp_inv s" and "spmp_alloc k n al True s = (Inr a, s')"
  shows "unat (al_addr a) mod max 16 (unat al) = 0 \<and> (unat n + 15 < 2 ^ 64 \<longrightarrow> unat n \<le> unat (al_size a)) \<and>
    (\<exists>p p' c. pool_get s k = Some p \<and> pool_get s' k = Some p' \<and>
      {unat (al_addr a) ..< unat (al_addr a) + unat (al_size a)} \<subseteq>
        {pool_lo (unat k) ..< pool_lo (unat k) + unat (cfg_size (p_cfg p))} \<and>
      (\<forall>b \<in> live_blocks p. span b \<inter> {unat (al_addr a) ..< unat (al_addr a) + unat (al_size a)} = {}) \<and>
      (\<forall>j q. pool_get s j = Some q \<longrightarrow> j \<noteq> k \<longrightarrow> unat (cfg_size (p_cfg p)) \<le> 2 ^ 32 \<longrightarrow>
        unat (cfg_size (p_cfg q)) \<le> 2 ^ 32 \<longrightarrow>
        (\<forall>b \<in> live_blocks q. span b \<inter> {unat (al_addr a) ..< unat (al_addr a) + unat (al_size a)} = {})) \<and>
      live_blocks p' = insert c (live_blocks p) \<and> b_addr c = al_addr a \<and> b_size c = al_size a)"
proof -
  let ?a = "{unat (al_addr a) ..< unat (al_addr a) + unat (al_size a)}"
  obtain p p' c where f: "pool_get s k = Some p" "pool_get s' k = Some p'"
    "?a \<subseteq> {pool_lo (unat k) ..< pool_lo (unat k) + unat (cfg_size (p_cfg p))}"
    "\<forall>b \<in> live_blocks p. span b \<inter> ?a = {}"
    "live_blocks p' = insert c (live_blocks p)" "b_addr c = al_addr a" "b_size c = al_size a"
    using alloc_fresh_block [OF assms] by blast
  have "span b \<inter> ?a = {}" if q: "pool_get s j = Some q" "j \<noteq> k" "unat (cfg_size (p_cfg p)) \<le> 2 ^ 32"
    "unat (cfg_size (p_cfg q)) \<le> 2 ^ 32" "b \<in> live_blocks q" for j q b
  proof -
    have "pool_inv (unat j) q" "p_active q" using q(1) assms(1) by (auto simp: pool_get_Some spmp_inv_def)
    from live_block_range [OF this q(5)] f(3) pool_windows_apart [of "unat j" "unat k", OF _ q(4,3)]
    show ?thesis using q(2) by (auto simp: word_unat_eq_iff)
  qed
  then show ?thesis using alloc_fresh_block [OF assms] f by blast
qed

text \<open>A pool of 4096 bytes with nothing allocated, and the same with one allocation.\<close>

definition one_pool :: spmp where
  "one_pool = snd (spmp_pool_create (Some small_pool) True (snd spmp_init))"

lemma one_pool_inv: "spmp_inv one_pool"
proof -
  have "spmp_safe (SpmpCreate small_pool) (snd spmp_init)"
    by (simp add: spmp_init_def small_pool_def pool_lo_def)
  from pools.exec_inv [OF pools.init_inv this] show ?thesis by (simp add: one_pool_def)
qed

definition first_alloc :: spmp_allocation where
  "first_alloc = \<lparr> al_addr = 0x100000000, al_size = 112, al_pool_id = 0, al_encrypted = 1 \<rparr>"

lemma one_pool_alloc: "fst (spmp_alloc 0 100 256 True one_pool) = Inr first_alloc"
  by code_simp

theorem spmp_alloc_fresh_witness:
  "\<exists>s'. spmp_alloc 0 100 256 True one_pool = (Inr first_alloc, s') \<and> unat (al_addr first_alloc) mod 256 = 0 \<and>
     (100 :: nat) \<le> unat (al_size first_alloc)"
proof -
  obtain s' where s': "spmp_alloc 0 100 256 True one_pool = (Inr first_alloc, s')"
    using one_pool_alloc by (metis prod.collapse)
  then show ?thesis using spmp_alloc_fresh [OF one_pool_inv s'] by simp
qed

lemma alloc_free_restores:
  assumes "spmp_inv s" and "spmp_alloc k n al True s = (Inr a, s1)"
  shows "\<exists>s2 p p2. spmp_free (Some a) s1 = (Inr (), s2) \<and> spmp_inv s2 \<and>
    pool_get s k = Some p \<and> pool_get s2 k = Some p2 \<and> live_blocks p2 = live_blocks p \<and> p_used p2 = p_used p"
proof -
  obtain p i x p1 where d: "pool_get s k = Some p" "block_next_free (p_blocks p) (needed_size n) al = Some (i, x)"
    "carve k (needed_size n) i x p = (Inr (), p1)" "sp_init s"
    "a = \<lparr> al_addr = x, al_size = needed_size n, al_pool_id = k, al_encrypted = cfg_encrypt (p_cfg p) \<rparr>"
    "s1 = (put_pool s k p1)\<lparr> sp_stats := (sp_stats s)\<lparr> st_allocs := st_allocs (sp_stats s) + 1 \<rparr> \<rparr>"
    by (rule alloc_success [OF assms(2)])
  have pk: "pool_inv (unat k) p" "p_active p" "unat k < length (sp_pools s)"
    using d(1) assms(1) by (auto simp: pool_get_Some spmp_inv_def)
  have n0: "0 < needed_size n" using needed_size_ge [of n] by (auto simp: word_less_nat_alt)
  note ci = carve_inv [OF pk(1,2) d(2) n0 d(3)]
  note cb = carve_blocks [OF d(3) ci(3)]
  let ?c = "(p_blocks p ! i)\<lparr> b_addr := x, b_size := needed_size n, b_in_use := True \<rparr>"
  have inv1: "spmp_inv s1" unfolding d(6) using put_pool_inv [OF assms(1) ci(1)] by (simp add: spmp_inv_def)
  have get1: "pool_get s1 k = Some p1" using d(6) pk(2,3) cb by (simp add: pool_get_Some)
  obtain cs where cs: "p_blocks p1 = (p_blocks p)[i := ?c] @ cs" "\<forall>d \<in> set cs. \<not> b_in_use d" using ci(2) by blast
  have lo: "pool_lo (unat k) \<le> unat x"
    using free_block_ok [OF blocks_ok_nth [OF _ ci(3)]] pk ci(5) block_next_free_Some [OF d(2)]
    by (fastforce simp: pool_inv_def)
  have "0 < pool_lo (unat k)" by (simp add: pool_lo_def)
  then have x0: "x \<noteq> 0" using lo by auto
  have at: "p_blocks p1 ! i = ?c" "i < length (p_blocks p1)" using cs(1) ci(3) by (simp_all add: nth_append)
  have "find_alloc (p_blocks p1) a \<noteq> None"
    using find_alloc_None [of "p_blocks p1" a] nth_mem [OF at(2)] by (fastforce simp: at(1) d(5))
  then obtain m where m: "find_alloc (p_blocks p1) a = Some m" by blast
  have "m = i"
  proof (rule ccontr)
    assume "m \<noteq> i"
    moreover have "apart (p_blocks p1)"
      using inv1 get1 by (auto simp: pool_get_Some spmp_inv_def pool_inv_def blocks_ok_def)
    ultimately have "span (p_blocks p1 ! m) \<inter> span (p_blocks p1 ! i) = {}"
      using find_alloc_Some [OF m] at(2) by (simp add: apart_def)
    then show False using find_alloc_Some [OF m] n0 by (auto simp: at(1) d(5) span_def word_less_nat_alt)
  qed
  let ?s2 = "(put_pool s1 k (freed p1 i))\<lparr> sp_stats := (sp_stats s1)\<lparr> st_frees := st_frees (sp_stats s1) + 1 \<rparr> \<rparr>"
  have free: "spmp_free (Some a) s1 = (Inr (), ?s2)"
    using m \<open>m = i\<close> get1 x0 d(4,5,6) by (simp add: spmp_free_def freed_def Let_def)
  have inv2: "spmp_inv ?s2" using free_inv [OF inv1, of a] free by simp
  have act1: "p_active p1" using cb pk(2) by simp
  have get2: "pool_get ?s2 k = Some (freed p1 i)"
    using get1 by (simp add: pool_get_Some) (simp add: freed_def)
  have nb: "\<not> b_in_use (p_blocks p ! i)" using block_next_free_Some [OF d(2)] by blast
  have "live_view (p_blocks (freed p1 i)) = (live_view (p_blocks p1))[i := None]"
    using ci(1) act1 at x0 by (intro freed_inv(2)) simp_all
  also have "\<dots> = (live_view (p_blocks p))[i := None] @ map live_block cs"
    using ci(3) by (simp add: cs(1) live_view_def map_update list_update_append)
  also have "(live_view (p_blocks p))[i := None] = live_view (p_blocks p)"
    using list_update_id [of "live_view (p_blocks p)" i] nb ci(3) by (simp add: live_view_def live_block_def)
  finally have "live_view (p_blocks (freed p1 i)) = live_view (p_blocks p) @ map live_block cs" .
  moreover have "Some b \<notin> set (map live_block cs)" for b using cs(2) by (auto simp: live_block_def split: if_splits)
  ultimately have "live_blocks (freed p1 i) = live_blocks p" by (auto simp: live_blocks_view)
  moreover have "p_used (freed p1 i) = p_used p" using cb at(1) by (simp add: freed_def)
  ultimately show ?thesis using free inv2 get2 d(1) by blast
qed

text \<open>C32: Freeing an allocation undoes it: the live allocations of the pool and its \<open>used\<close> counter are what
  they were before the allocation, and the free space is merged without disturbing any of them.\<close>

theorem spmp_alloc_free:
  assumes "spmp_inv s" and "spmp_alloc k n al True s = (Inr a, s1)"
  shows "\<exists>s2 p p2. spmp_free (Some a) s1 = (Inr (), s2) \<and> spmp_inv s2 \<and>
    pool_get s k = Some p \<and> pool_get s2 k = Some p2 \<and> live_blocks p2 = live_blocks p \<and> p_used p2 = p_used p"
  by (rule alloc_free_restores [OF assms])

theorem spmp_alloc_free_witness:
  "\<exists>s1 s2 p p2. spmp_alloc 0 100 256 True one_pool = (Inr first_alloc, s1) \<and> spmp_free (Some first_alloc) s1 = (Inr (), s2) \<and>
     pool_get one_pool 0 = Some p \<and> pool_get s2 0 = Some p2 \<and> p_used p2 = p_used p"
proof -
  obtain s1 where s1: "spmp_alloc 0 100 256 True one_pool = (Inr first_alloc, s1)"
    using one_pool_alloc by (metis prod.collapse)
  then show ?thesis using spmp_alloc_free [OF one_pool_inv s1] by blast
qed

section \<open>Where it fails\<close>

text \<open>When the last free slot of the block table is used up by the hole before an aligned allocation and
  there is no slot for the hole behind it, the allocation fails but the first hole stays: it overlaps
  the free block it was taken from, so later allocations can overlap.\<close>

theorem spmp_failed_alloc_overlaps:
  assumes "sp_init s" and "pool_get s k = Some p" and "n \<noteq> 0" and "length (p_blocks p) = 511"
    and "block_next_free (p_blocks p) (needed_size n) al = Some (i, x)"
    and "b_addr (p_blocks p ! i) < x" and "x + needed_size n < b_addr (p_blocks p ! i) + b_size (p_blocks p ! i)"
    and "unat (b_addr (p_blocks p ! i)) + unat (b_size (p_blocks p ! i)) < 2 ^ 64"
  shows "\<exists>s' p'. spmp_alloc k n al True s = (Inl ENOSPC, s') \<and> pool_get s' k = Some p' \<and>
    \<not> b_in_use (p_blocks p' ! i) \<and> \<not> b_in_use (p_blocks p' ! 511) \<and>
    span (p_blocks p' ! i) \<inter> span (p_blocks p' ! 511) \<noteq> {}"
proof -
  let ?b = "p_blocks p ! i" let ?h = "free_block k (b_addr ?b) (x - b_addr ?b)"
  let ?p = "p\<lparr> p_blocks := p_blocks p @ [?h] \<rparr>"
  note f = block_next_free_Some [OF assms(5)]
  have "carve k (needed_size n) i x p = (Inl ENOSPC, ?p)" using assms(4,6,7) by (simp add: carve_def Let_def)
  then have a: "spmp_alloc k n al True s = (Inl ENOSPC, put_pool s k ?p)"
    using assms(1-5) by (simp add: spmp_alloc_def Let_def)
  have g: "pool_get (put_pool s k ?p) k = Some ?p" using assms(2) by (auto simp: pool_get_Some)
  have nth: "p_blocks ?p ! i = ?b" "p_blocks ?p ! 511 = ?h" using f assms(4) by (simp_all add: nth_append)
  have h: "unat (x - b_addr ?b) = unat x - unat (b_addr ?b)" "unat (b_addr ?b) < unat x"
    using assms(6) by (simp_all add: unat_sub word_less_nat_alt order_less_imp_le)
  have "unat x \<le> unat (b_addr ?b) + unat (b_size ?b)"
  proof -
    have "unat (b_addr ?b + b_size ?b) = unat (b_addr ?b) + unat (b_size ?b)"
      using assms(8) by (simp add: unat_word_ariths)
    moreover have "unat x \<le> unat (b_addr ?b + b_size ?b)"
    proof -
      have "\<not> b_addr ?b + b_size ?b < x" using f by blast
      then show ?thesis by (simp only: not_less word_le_nat_alt)
    qed
    ultimately show ?thesis by simp
  qed
  then have "unat (b_addr ?b) \<in> span ?b \<inter> span ?h" using h by (simp add: span_def free_block_def)
  then show ?thesis using a g nth f by (intro exI [of _ "put_pool s k ?p"] exI [of _ ?p]) (auto simp: free_block_def)
qed

definition full_table :: spmp where
  "full_table = \<lparr> sp_pools = [\<lparr> p_cfg = small_pool, p_used = 0, p_active = True,
     p_blocks = replicate 510 tombstone @ [free_block 0 0x100000010 0x1000] \<rparr>],
     sp_init = True, sp_maps = [], sp_stats = zero_stats \<rparr>"

lemma next_free_tombstones:
  "block_next_free (replicate m tombstone @ bs) n al = (case block_next_free bs n al of None \<Rightarrow> None | Some (i, x) \<Rightarrow> Some (m + i, x))"
  by (induction m) (auto simp: Let_def split: option.splits)

theorem spmp_failed_alloc_overlaps_witness:
  "\<exists>s' p'. spmp_alloc 0 100 256 True full_table = (Inl ENOSPC, s') \<and> pool_get s' 0 = Some p' \<and>
     span (p_blocks p' ! 510) \<inter> span (p_blocks p' ! 511) \<noteq> {}"
proof -
  let ?p = "sp_pools full_table ! 0"
  have g: "pool_get full_table 0 = Some ?p" "sp_init full_table" by (simp_all add: pool_get_def full_table_def)
  have n: "needed_size 100 = 112" "align_up 256 0x100000010 = 0x100000100" by code_simp+
  have f: "block_next_free (p_blocks ?p) (needed_size 100) 256 = Some (510, 0x100000100)"
    by (simp add: full_table_def next_free_tombstones free_block_def n)
  have b: "p_blocks ?p ! 510 = free_block 0 0x100000010 0x1000" "length (p_blocks ?p) = 511"
    by (simp_all add: full_table_def nth_append)
  show ?thesis
    using spmp_failed_alloc_overlaps [OF g(2,1) _ b(2) f] by (auto simp: b free_block_def n)
qed

lemma map_slots_grow: "length (sp_maps s) \<le> length (sp_maps (spmp_exec c s))"
proof (cases c)
  case (SpmpFree a)
  have "sp_maps s' = sp_maps s" if "spmp_free (Some a) s = (r, s')" for r s'
    using that by (rule spmp_free_cases) simp_all
  then show ?thesis using SpmpFree by (metis eq_refl prod.collapse spmp_exec.simps(4))
next
  case (SpmpAlloc k n al)
  have "sp_maps (snd (spmp_alloc k n al True s)) = sp_maps s"
    by (auto simp: spmp_alloc_def Let_def split: option.splits prod.splits sum.splits)
  then show ?thesis using SpmpAlloc by simp
qed (auto simp: spmp_pool_create_def spmp_pool_destroy_def spmp_map_def spmp_unmap_def spmp_prefetch_def
    spmp_encrypt_def spmp_decrypt_def set_encrypted_def Let_def split: option.splits)

text \<open>The map table only grows: once 256 regions have been mapped, no further region can be mapped,
  whatever is unmapped or done in between.\<close>

theorem spmp_map_exhausted:
  assumes "256 \<le> length (sp_maps s)"
  shows "fst (spmp_map a n (pools.run ops s)) \<noteq> Inr node"
proof -
  have "length (sp_maps s) \<le> length (sp_maps (pools.run ops s))"
    by (induction ops arbitrary: s) (auto intro: order_trans [OF map_slots_grow])
  then show ?thesis using assms by (auto simp: spmp_map_def)
qed

theorem spmp_map_exhausted_witness:
  "fst (spmp_map 0x1000 64 (pools.run [SpmpUnmap 0x2000 64] (one_pool\<lparr> sp_maps := replicate 256
     \<lparr> m_addr = 0x2000, m_size = 64, m_node = 0, m_active = True \<rparr> \<rparr>))) \<noteq> Inr 0"
  by (rule spmp_map_exhausted) simp

end
