(* ===== verification/HostMem.thy ===== *)
theory HostMem
  imports Prelude
begin

text \<open>
  The byte-addressed memory of the host process that the drivers are handed pointers into: an address
  either belongs to an object and holds a byte, or an access to it is undefined. A pointer is an
  address, a null pointer is \<open>None\<close>. Sequences of accesses are chained in the result type \<open>call\<close>.
\<close>

type_synonym host = "nat \<Rightarrow> u8 option"

text \<open>What a C call does: it returns, it has undefined behaviour, or it spins on a lock that is never released.\<close>

datatype 'a call = Undefined | Blocked | Returns 'a

fun defined :: "'a call \<Rightarrow> bool" where
  "defined Undefined \<longleftrightarrow> False"
| "defined Blocked \<longleftrightarrow> True"
| "defined (Returns x) \<longleftrightarrow> True"

lemma call_returns:
  "(case x of Returns (Inr k, h, m) \<Rightarrow> P k h m | _ \<Rightarrow> False) \<Longrightarrow> \<exists>k h m. x = Returns (Inr k, h, m) \<and> P k h m"
  by (cases x) (auto split: prod.splits sum.splits)

section \<open>Reading and writing ranges\<close>

fun peek :: "host \<Rightarrow> nat \<Rightarrow> nat \<Rightarrow> u8 list option" where
  "peek m a 0 = Some []"
| "peek m a (Suc n) = (case m a of None \<Rightarrow> None | Some b \<Rightarrow> map_option ((#) b) (peek m (Suc a) n))"

fun poke :: "host \<Rightarrow> nat \<Rightarrow> u8 list \<Rightarrow> host option" where
  "poke m a [] = Some m"
| "poke m a (b # bs) = (if m a = None then None else poke (m(a \<mapsto> b)) (Suc a) bs)"

definition mapped :: "host \<Rightarrow> nat \<Rightarrow> nat \<Rightarrow> bool" where
  "mapped m a n \<longleftrightarrow> (\<forall>i < n. m (a + i) \<noteq> None)"

lemma mapped_Suc: "mapped m a (Suc n) \<longleftrightarrow> m a \<noteq> None \<and> mapped m (Suc a) n"
  unfolding mapped_def by (simp only: All_less_Suc2) simp

lemma mapped_sub: "mapped m a n \<Longrightarrow> b + k \<le> n \<Longrightarrow> mapped m (a + b) k"
  by (simp add: mapped_def add.assoc)

lemma mapped_0 [simp]: "mapped m a 0"
  by (simp add: mapped_def)

lemma peek_eq:
  "peek m a n = (if mapped m a n then Some (map (\<lambda>i. the (m (a + i))) [0..<n]) else None)"
proof (induction n arbitrary: a)
  case 0
  then show ?case by simp
next
  case (Suc n)
  have split: "map (\<lambda>i. the (m (a + i))) [0..<Suc n] = the (m a) # map (\<lambda>i. the (m (Suc a + i))) [0..<n]"
    by (simp add: map_upt_Suc del: upt_Suc)
  show ?case
    unfolding peek.simps mapped_Suc split Suc.IH by (auto split: option.splits)
qed

lemma poke_eq:
  "poke m a bs = (if mapped m a (length bs)
     then Some (\<lambda>x. if a \<le> x \<and> x < a + length bs then Some (bs ! (x - a)) else m x) else None)"
proof (induction bs arbitrary: m a)
  case Nil
  then show ?case by (auto simp: fun_eq_iff)
next
  case (Cons b bs)
  have upd: "mapped (m(a \<mapsto> b)) (Suc a) (length bs) = mapped m (Suc a) (length bs)"
    by (auto simp: mapped_def)
  show ?case
    unfolding poke.simps Cons.IH upd
    by (auto simp: mapped_Suc fun_eq_iff nth_Cons' not_less_eq_eq)
qed

lemma peek_length: "peek m a n = Some bs \<Longrightarrow> length bs = n"
  by (auto simp: peek_eq split: if_splits)

lemma peek_total: "mapped m a n \<Longrightarrow> \<exists>bs. peek m a n = Some bs \<and> length bs = n"
  by (simp add: peek_eq)

lemma poke_total: "mapped m a (length bs) \<Longrightarrow> \<exists>m'. poke m a bs = Some m'"
  by (simp add: poke_eq)

lemma poke_dom: "poke m a bs = Some m' \<Longrightarrow> m' x = None \<longleftrightarrow> m x = None"
proof (induction bs arbitrary: m a)
  case (Cons b bs)
  then show ?case by (fastforce split: if_splits)
qed simp

lemma poke_mapped: "poke m a bs = Some m' \<Longrightarrow> mapped m' b n = mapped m b n"
  using poke_dom by (fastforce simp: mapped_def)

lemma poke_outside: "poke m a bs = Some m' \<Longrightarrow> x < a \<or> a + length bs \<le> x \<Longrightarrow> m' x = m x"
  by (auto simp: poke_eq split: if_splits)

lemma peek_poke:
  assumes "poke m a bs = Some m'"
  shows "peek m' a (length bs) = Some bs"
  using assms poke_mapped [OF assms, of a "length bs"]
  by (auto simp: peek_eq poke_eq intro!: nth_equalityI split: if_splits)

lemma peek_poke_other:
  assumes "poke m a bs = Some m'" "b + n \<le> a \<or> a + length bs \<le> b"
  shows "peek m' b n = peek m b n"
  using assms poke_mapped [OF assms(1), of b n] poke_outside [OF assms(1)]
  by (auto simp: peek_eq)

lemma poke_peek:
  assumes "peek m a n = Some bs"
  shows "poke m a bs = Some m"
proof -
  have "Some (the (m x)) = m x" if "a \<le> x" "x < a + n" "mapped m a n" for x
    using that(3) [unfolded mapped_def, rule_format, of "x - a"] that(1,2) by simp
  then show ?thesis using assms by (auto simp: peek_eq poke_eq fun_eq_iff split: if_splits)
qed

lemma poke_poke:
  assumes "poke m a bs = Some m1" "length cs = length bs"
  shows "poke m1 a cs = poke m a cs"
  using assms poke_mapped [OF assms(1), of a "length cs"]
  by (auto simp: poke_eq fun_eq_iff split: if_splits)

text \<open>\<open>memcpy\<close> of ranges that overlap is undefined.\<close>

definition host_memcpy :: "nat \<Rightarrow> nat \<Rightarrow> nat \<Rightarrow> host \<Rightarrow> host option" where
  "host_memcpy dst src n m =
     (if 0 < n \<and> dst < src + n \<and> src < dst + n then None
      else Option.bind (peek m src n) (poke m dst))"

section \<open>Loops\<close>

text \<open>A loop over a list whose body may be undefined.\<close>

fun run_each :: "('a \<Rightarrow> 's \<Rightarrow> 's option) \<Rightarrow> 'a list \<Rightarrow> 's \<Rightarrow> 's option" where
  "run_each f [] s = Some s"
| "run_each f (x # xs) s = (case f x s of None \<Rightarrow> None | Some s' \<Rightarrow> run_each f xs s')"

lemma run_each_append:
  "run_each f (xs @ ys) s = (case run_each f xs s of None \<Rightarrow> None | Some s' \<Rightarrow> run_each f ys s')"
  by (induction xs arbitrary: s) (auto split: option.splits)

text \<open>A loop over \<open>[0..<n]\<close> is defined and keeps what each round establishes from what the previous ones did.\<close>

lemma run_each_upto:
  assumes "I 0 s" and "\<And>k t. k < n \<Longrightarrow> I k t \<Longrightarrow> \<exists>t'. f k t = Some t' \<and> I (Suc k) t'"
  shows "\<exists>s'. run_each f [0..<n] s = Some s' \<and> I n s'"
  using assms
proof (induction n)
  case (Suc n)
  then obtain t where "run_each f [0..<n] s = Some t" "I n t" by (meson less_SucI)
  moreover obtain t' where "f n t = Some t'" "I (Suc n) t'" using Suc.prems(2) \<open>I n t\<close> by blast
  ultimately show ?case by (simp add: run_each_append)
qed simp

section \<open>Words\<close>

text \<open>The host is little-endian.\<close>

definition peek32 :: "host \<Rightarrow> nat \<Rightarrow> u32 option" where
  "peek32 m a = map_option le_word32 (peek m a 4)"

definition poke32 :: "host \<Rightarrow> nat \<Rightarrow> u32 \<Rightarrow> host option" where
  "poke32 m a v = poke m a (le_bytes32 v)"

definition peek64 :: "host \<Rightarrow> nat \<Rightarrow> u64 option" where
  "peek64 m a = map_option le_word64 (peek m a 8)"

definition poke64 :: "host \<Rightarrow> nat \<Rightarrow> u64 \<Rightarrow> host option" where
  "poke64 m a v = poke m a (le_bytes64 v)"

lemma peek64_poke64: "poke64 m a v = Some m' \<Longrightarrow> peek64 m' a = Some v"
  using peek_poke [of m a "le_bytes64 v" m'] c64.dec_enc [of v "[]"]
  by (simp add: peek64_def poke64_def)

lemma poke64_poke64: "poke64 m a v = Some m1 \<Longrightarrow> poke64 m1 a w = poke64 m a w"
  unfolding poke64_def by (erule poke_poke) simp

lemma le_bytes64_nth: "i < 8 \<Longrightarrow> le_bytes64 v ! i = ucast (drop_bit (8 * i) v)"
  by (simp add: le_bytes64_def)

lemma le_bytes64_word: "length bs = 8 \<Longrightarrow> le_bytes64 (le_word64 bs) = bs"
proof (rule nth_equalityI)
  fix i assume l: "length bs = 8" and "i < length (le_bytes64 (le_word64 bs))"
  then have i: "i < 8" by simp
  have bits: "bit (foldr (\<lambda>i acc. push_bit (8 * i) (ucast (bs ! i)) OR acc) js (0 :: u64)) n
     \<longleftrightarrow> (\<exists>j \<in> set js. 8 * j \<le> n \<and> n < 8 * j + 8 \<and> n < 64 \<and> bit (bs ! j) (n - 8 * j))" for js n
    by (induction js) (auto simp: bit_simps dest: bit_imp_le_length)
  show "le_bytes64 (le_word64 bs) ! i = bs ! i"
  proof (rule bit_word_eqI)
    fix n assume "n < LENGTH(8)"
    then have n: "n < 8" by simp
    have "bit (le_bytes64 (le_word64 bs) ! i) n \<longleftrightarrow> bit (le_word64 bs) (8 * i + n)"
      using i n by (simp add: le_bytes64_nth bit_simps)
    also have "\<dots> \<longleftrightarrow> (\<exists>j \<in> set [0..<8]. 8 * j \<le> 8 * i + n \<and> 8 * i + n < 8 * j + 8 \<and> 8 * i + n < 64
        \<and> bit (bs ! j) (8 * i + n - 8 * j))"
      unfolding le_word64_def bits ..
    also have "\<dots> \<longleftrightarrow> bit (bs ! i) n"
    proof -
      have "j = i" if "8 * j \<le> 8 * i + n" "8 * i + n < 8 * j + 8" for j using that n by linarith
      then have "(8 * j \<le> 8 * i + n \<and> 8 * i + n < 8 * j + 8 \<and> 8 * i + n < 64 \<and> bit (bs ! j) (8 * i + n - 8 * j))
          \<longleftrightarrow> j = i \<and> bit (bs ! i) n" for j
        using i n by (cases "j = i") auto
      then show ?thesis using i by simp
    qed
    finally show "bit (le_bytes64 (le_word64 bs) ! i) n = bit (bs ! i) n" .
  qed
qed simp

lemma poke64_peek64: "peek64 m a = Some v \<Longrightarrow> poke64 m a v = Some m"
  using poke_peek [of m a 8] le_bytes64_word peek_length [of m a 8]
  by (auto simp: peek64_def poke64_def)

lemma peek64_total: "mapped m a 8 \<Longrightarrow> peek64 m a \<noteq> None"
  by (auto simp: peek64_def peek_eq)

lemma poke64_total: "mapped m a 8 \<Longrightarrow> poke64 m a v \<noteq> None"
  by (auto simp: poke64_def poke_eq)

end
