(* ===== verification/Fabric.thy ===== *)
theory Fabric
  imports HostMem
begin

text \<open>
  The interconnect \<open>drivers/fabric.c\<close>: the node table, the message queue, channels, DMA between the
  memories bound to nodes, and atomics on them. The static state is the record \<open>fabric\<close>; a channel is
  the caller's object and is passed in and out, \<open>None\<close> for a null pointer. Operations that touch bound
  memory take the host memory and return it changed.
\<close>

section \<open>State\<close>

datatype fabric_node_type = FABRIC_NODE_CPU | FABRIC_NODE_GPU | FABRIC_NODE_NPU | FABRIC_NODE_MEM
  | FABRIC_NODE_RT | FABRIC_NODE_IO | FABRIC_NODE_HSM

record fabric_node_info =
  ni_id :: u32
  ni_type :: fabric_node_type
  ni_base :: u64
  ni_limit :: u64
  ni_bandwidth_gbs :: u32
  ni_latency_ns :: u32

record fabric_node =
  n_info :: fabric_node_info
  n_registered :: bool
  n_mem :: "nat option"
  n_mem_len :: u64

text \<open>Only masked positions of the data array are ever accessed, so it is total.\<close>

record fabric_queue =
  q_data :: "nat \<Rightarrow> u8"
  q_head :: u64
  q_tail :: u64
  q_used :: u64

text \<open>\<open>f_nodes\<close> holds the first \<open>num_nodes\<close> entries of the table, the others are zero.\<close>

record fabric =
  f_nodes :: "fabric_node list"
  f_init :: bool
  f_q :: fabric_queue
  f_dma_lock :: bool
  f_dma_bytes :: u32
  f_atomic_ops :: u32
  f_total_latency_ns :: u64

record fabric_channel =
  ch_src_node :: u32
  ch_dst_node :: u32
  ch_flags :: u32
  ch_mtu :: u64
  ch_bytes_tx :: u64
  ch_bytes_rx :: u64

abbreviation (input) FABRIC_MAX_NODES :: nat where "FABRIC_MAX_NODES \<equiv> 64"

abbreviation (input) FABRIC_PACKET_MAX_SIZE :: u64 where "FABRIC_PACKET_MAX_SIZE \<equiv> 4096"

abbreviation (input) FABRIC_CH_READ :: u32 where "FABRIC_CH_READ \<equiv> 1"

abbreviation (input) FABRIC_CH_WRITE :: u32 where "FABRIC_CH_WRITE \<equiv> 2"

abbreviation (input) FABRIC_CH_DMA :: u32 where "FABRIC_CH_DMA \<equiv> 4"

abbreviation (input) FABRIC_CH_ATOMIC :: u32 where "FABRIC_CH_ATOMIC \<equiv> 8"

definition fabric_valid_flags :: u32 where
  "fabric_valid_flags = FABRIC_CH_READ OR FABRIC_CH_WRITE OR FABRIC_CH_DMA OR FABRIC_CH_ATOMIC OR 16 OR 32"

text \<open>\<open>sizeof(q.data)\<close>, the queue depth times the size of a packet.\<close>

abbreviation (input) QSIZE :: u64 where "QSIZE \<equiv> 32 * 4096"

definition zero_node :: fabric_node where
  "zero_node = \<lparr> n_info = \<lparr> ni_id = 0, ni_type = FABRIC_NODE_CPU, ni_base = 0, ni_limit = 0,
     ni_bandwidth_gbs = 0, ni_latency_ns = 0 \<rparr>, n_registered = False, n_mem = None, n_mem_len = 0 \<rparr>"

definition zero_channel :: fabric_channel where
  "zero_channel = \<lparr> ch_src_node = 0, ch_dst_node = 0, ch_flags = 0, ch_mtu = 0, ch_bytes_tx = 0, ch_bytes_rx = 0 \<rparr>"

definition fabric_init :: "(errno + unit) \<times> fabric" where
  "fabric_init = (Inr (), \<lparr> f_nodes = [], f_init = True,
     f_q = \<lparr> q_data = (\<lambda>_. 0), q_head = 0, q_tail = 0, q_used = 0 \<rparr>,
     f_dma_lock = False, f_dma_bytes = 0, f_atomic_ops = 0, f_total_latency_ns = 0 \<rparr>)"

section \<open>Nodes\<close>

definition node_valid :: "fabric \<Rightarrow> u32 \<Rightarrow> bool" where
  "node_valid s i \<longleftrightarrow> unat i < length (f_nodes s) \<and> n_registered (f_nodes s ! unat i)"

text \<open>\<open>&fabric_state.nodes[i]\<close>: \<open>None\<close> beyond the array.\<close>

definition node_at :: "fabric \<Rightarrow> u32 \<Rightarrow> fabric_node option" where
  "node_at s i =
     (if unat i < length (f_nodes s) then Some (f_nodes s ! unat i)
      else if unat i < FABRIC_MAX_NODES then Some zero_node else None)"

definition region_valid :: "fabric_node \<Rightarrow> u64 \<Rightarrow> u64 \<Rightarrow> bool" where
  "region_valid n addr len \<longleftrightarrow>
     \<not> addr < ni_base (n_info n) \<and> \<not> ni_limit (n_info n) + 1 < addr + len"

definition windows_meet :: "fabric_node_info \<Rightarrow> fabric_node \<Rightarrow> bool" where
  "windows_meet info n \<longleftrightarrow> n_registered n \<and> ni_base info < ni_limit (n_info n) + 1
     \<and> ni_base (n_info n) < ni_limit info + 1"

text \<open>The result carries the caller's structure with the id that was assigned.\<close>

definition fabric_register_node :: "fabric_node_info option \<Rightarrow> fabric \<Rightarrow> (errno + fabric_node_info) \<times> fabric" where
  "fabric_register_node infoo s =
     (if \<not> f_init s then (Inl ENODEV, s)
      else case infoo of None \<Rightarrow> (Inl EINVAL, s)
      | Some info \<Rightarrow>
        if FABRIC_MAX_NODES \<le> length (f_nodes s) then (Inl ENOSPC, s)
        else if list_ex (windows_meet info) (f_nodes s) then (Inl EADDRINUSE, s)
        else let info' = info\<lparr> ni_id := of_nat (length (f_nodes s)) \<rparr> in
          (Inr info', s\<lparr> f_nodes := f_nodes s @ [zero_node\<lparr> n_info := info', n_registered := True \<rparr>] \<rparr>))"

definition fabric_bind_memory :: "u32 \<Rightarrow> nat option \<Rightarrow> u64 \<Rightarrow> fabric \<Rightarrow> (errno + unit) \<times> fabric" where
  "fabric_bind_memory node mem len s =
     (if \<not> f_init s then (Inl ENODEV, s)
      else if \<not> node_valid s node \<or> mem = None \<or> len = 0 then (Inl EINVAL, s)
      else let n = f_nodes s ! unat node in
        if ni_limit (n_info n) - ni_base (n_info n) + 1 < len then (Inl EINVAL, s)
        else (Inr (), s\<lparr> f_nodes := (f_nodes s)[unat node := n\<lparr> n_mem := mem, n_mem_len := len \<rparr>] \<rparr>))"

definition fabric_translate :: "fabric_node \<Rightarrow> u64 \<Rightarrow> nat option" where
  "fabric_translate n addr = (case n_mem n of None \<Rightarrow> None
     | Some p \<Rightarrow>
       if addr < ni_base (n_info n) \<or> ni_base (n_info n) + n_mem_len n \<le> addr then None
       else Some (p + unat (addr - ni_base (n_info n))))"

section \<open>Channels\<close>

definition fabric_channel_open :: "u32 \<Rightarrow> u32 \<Rightarrow> u32 \<Rightarrow> bool \<Rightarrow> fabric \<Rightarrow> errno + fabric_channel" where
  "fabric_channel_open src dst flags have_ch s =
     (if \<not> f_init s then Inl ENODEV
      else if \<not> have_ch then Inl EINVAL
      else if \<not> node_valid s src \<or> \<not> node_valid s dst then Inl ENODEV
      else if flags AND NOT fabric_valid_flags \<noteq> 0 then Inl EINVAL
      else Inr \<lparr> ch_src_node = src, ch_dst_node = dst, ch_flags = flags,
                 ch_mtu = FABRIC_PACKET_MAX_SIZE, ch_bytes_tx = 0, ch_bytes_rx = 0 \<rparr>)"

definition fabric_channel_close :: "fabric_channel option \<Rightarrow> errno + fabric_channel" where
  "fabric_channel_close cho = (case cho of None \<Rightarrow> Inl EINVAL | Some ch \<Rightarrow> Inr zero_channel)"

section \<open>Messages\<close>

definition fq_put :: "u8 list \<Rightarrow> fabric_queue \<Rightarrow> fabric_queue" where
  "fq_put bs q = q\<lparr>
     q_data := fold (\<lambda>i d. d(unat ((q_tail q + of_nat i) AND (QSIZE - 1)) := bs ! i)) [0..<length bs] (q_data q),
     q_tail := (q_tail q + of_nat (length bs)) AND (QSIZE - 1),
     q_used := q_used q + of_nat (length bs) \<rparr>"

definition fq_take :: "u64 \<Rightarrow> fabric_queue \<Rightarrow> u8 list \<times> fabric_queue" where
  "fq_take n q =
     (map (\<lambda>i. q_data q (unat ((q_head q + of_nat i) AND (QSIZE - 1)))) [0..<unat n],
      q\<lparr> q_head := (q_head q + n) AND (QSIZE - 1), q_used := q_used q - n \<rparr>)"

text \<open>A result of type \<open>int\<close> is the low 32 bits of the length read as a signed number.\<close>

definition int_result :: "u64 \<Rightarrow> int" where
  "int_result len = sint (ucast len :: u32)"

text \<open>
  The copy into the memory bound to the destination: the bytes at \<open>data\<close> go to the start of the window
  when they fit; \<open>memcpy\<close> of overlapping ranges is undefined.
\<close>

definition send_copy :: "fabric_node \<Rightarrow> nat \<Rightarrow> u8 list \<Rightarrow> host \<Rightarrow> host option" where
  "send_copy dst data bs m = (case n_mem dst of None \<Rightarrow> Some m
     | Some base \<Rightarrow> (case fabric_translate dst (ni_base (n_info dst)) of None \<Rightarrow> Some m
       | Some p \<Rightarrow>
         if base + unat (n_mem_len dst) - p < length bs then Some m
         else if data < p + length bs \<and> p < data + length bs then None
         else poke m p bs))"

type_synonym 'r chan_result = "((errno + 'r) \<times> fabric_channel option \<times> fabric \<times> host) call"

definition fabric_send :: "fabric_channel option \<Rightarrow> nat option \<Rightarrow> u64 \<Rightarrow> fabric \<Rightarrow> host \<Rightarrow> int chan_result" where
  "fabric_send cho datao len s m =
     (if \<not> f_init s then Returns (Inl ENODEV, cho, s, m)
      else case (cho, datao) of
        (Some ch, Some data) \<Rightarrow>
          if len = 0 then Returns (Inl EINVAL, cho, s, m)
          else if ch_mtu ch < len then Returns (Inl EMSGSIZE, cho, s, m)
          else if 0 < q_used (f_q s) \<and> QSIZE < q_used (f_q s) + len then Returns (Inl ENOSPC, cho, s, m)
          else (case (peek m data (unat len), node_at s (ch_dst_node ch)) of
            (Some bs, Some dst) \<Rightarrow>
              (case send_copy dst data bs m of None \<Rightarrow> Undefined
               | Some m' \<Rightarrow> Returns (Inr (int_result len), Some (ch\<lparr> ch_bytes_tx := ch_bytes_tx ch + len \<rparr>),
                   s\<lparr> f_q := fq_put bs (f_q s),
                      f_total_latency_ns := f_total_latency_ns s + ucast (ni_latency_ns (n_info dst)) \<rparr>, m'))
          | _ \<Rightarrow> Undefined)
      | _ \<Rightarrow> Returns (Inl EINVAL, cho, s, m))"

text \<open>\<open>leno\<close> is the capacity the caller stored in \<open>*len\<close>; the second part of the result is its new value.\<close>

definition fabric_recv :: "fabric_channel option \<Rightarrow> nat option \<Rightarrow> u64 option \<Rightarrow> fabric \<Rightarrow> host
    \<Rightarrow> (int \<times> u64) chan_result" where
  "fabric_recv cho bufo leno s m =
     (if \<not> f_init s then Returns (Inl ENODEV, cho, s, m)
      else case (cho, bufo, leno) of
        (Some ch, Some buf, Some want) \<Rightarrow>
          let n = (if want < q_used (f_q s) then want else q_used (f_q s));
              (bs, q') = fq_take n (f_q s) in
          (case (poke m buf bs, node_at s (ch_src_node ch)) of
            (Some m', Some src) \<Rightarrow>
              Returns (Inr (int_result n, n), Some (ch\<lparr> ch_bytes_rx := ch_bytes_rx ch + n \<rparr>),
                s\<lparr> f_q := q',
                   f_total_latency_ns := f_total_latency_ns s + ucast (ni_latency_ns (n_info src)) \<rparr>, m')
          | _ \<Rightarrow> Undefined)
      | _ \<Rightarrow> Returns (Inl EINVAL, cho, s, m))"

section \<open>DMA\<close>

text \<open>The copy under the lock; \<open>memmove\<close> reads all bytes before it writes.\<close>

definition dma_copy :: "fabric_node \<Rightarrow> u64 \<Rightarrow> fabric_node \<Rightarrow> u64 \<Rightarrow> u64 \<Rightarrow> host \<Rightarrow> host option" where
  "dma_copy src src_addr dst dst_addr len m =
     (case (fabric_translate src src_addr, fabric_translate dst dst_addr) of
        (Some p, Some q) \<Rightarrow> Option.bind (peek m p (unat len)) (poke m q)
      | _ \<Rightarrow> Some m)"

text \<open>The lock is taken by a spin loop, which does not end when it is held and nobody else runs.\<close>

definition fabric_dma :: "fabric_channel option \<Rightarrow> u64 \<Rightarrow> u64 \<Rightarrow> u64 \<Rightarrow> fabric \<Rightarrow> host \<Rightarrow> int chan_result" where
  "fabric_dma cho src_addr dst_addr len s m =
     (if \<not> f_init s then Returns (Inl ENODEV, cho, s, m)
      else case cho of None \<Rightarrow> Returns (Inl EINVAL, cho, s, m)
      | Some ch \<Rightarrow>
        if len = 0 then Returns (Inl EINVAL, cho, s, m)
        else if ch_flags ch AND FABRIC_CH_DMA = 0 then Returns (Inl EPERM, cho, s, m)
        else case node_at s (ch_src_node ch) of None \<Rightarrow> Undefined
        | Some src \<Rightarrow>
          if \<not> region_valid src src_addr len then Returns (Inl EFAULT, cho, s, m)
          else case node_at s (ch_dst_node ch) of None \<Rightarrow> Undefined
          | Some dst \<Rightarrow>
            if \<not> region_valid dst dst_addr len then Returns (Inl EFAULT, cho, s, m)
            else if f_dma_lock s then Blocked
            else (case dma_copy src src_addr dst dst_addr len m of None \<Rightarrow> Undefined
              | Some m' \<Rightarrow> Returns (Inr (int_result len), Some (ch\<lparr> ch_bytes_tx := ch_bytes_tx ch + len \<rparr>),
                  s\<lparr> f_dma_bytes := f_dma_bytes s + ucast len, f_dma_lock := False,
                     f_total_latency_ns := f_total_latency_ns s
                       + ucast (ni_latency_ns (n_info src) + ni_latency_ns (n_info dst)) \<rparr>, m')))"

section \<open>Atomics\<close>

definition fabric_atomic_ref :: "fabric \<Rightarrow> u32 \<Rightarrow> fabric_node \<Rightarrow> u64 \<Rightarrow> nat option" where
  "fabric_atomic_ref s i n addr =
     (if \<not> node_valid s i then None
      else case fabric_translate n addr of None \<Rightarrow> None
      | Some p \<Rightarrow> if p mod 8 \<noteq> 0 then None else Some p)"

text \<open>The guards the three operations share: the address of the word, or the error.\<close>

definition atomic_target :: "fabric_channel option \<Rightarrow> u64 \<Rightarrow> fabric \<Rightarrow> (errno + nat) call" where
  "atomic_target cho addr s =
     (if \<not> f_init s then Returns (Inl ENODEV)
      else case cho of None \<Rightarrow> Returns (Inl EINVAL)
      | Some ch \<Rightarrow>
        if ch_flags ch AND FABRIC_CH_ATOMIC = 0 then Returns (Inl EPERM)
        else case node_at s (ch_dst_node ch) of None \<Rightarrow> Undefined
        | Some n \<Rightarrow>
          if \<not> region_valid n addr 8 then Returns (Inl EFAULT)
          else case fabric_atomic_ref s (ch_dst_node ch) n addr of None \<Rightarrow> Returns (Inl ENODEV)
          | Some p \<Rightarrow> Returns (Inr p))"

definition count_atomic :: "fabric \<Rightarrow> fabric" where
  "count_atomic s = s\<lparr> f_atomic_ops := f_atomic_ops s + 1 \<rparr>"

text \<open>\<open>__atomic_exchange_n\<close>: the old word and the memory.\<close>

definition exchange_n :: "host \<Rightarrow> nat \<Rightarrow> u64 \<Rightarrow> (u64 \<times> host) option" where
  "exchange_n m p v = (case (peek64 m p, poke64 m p v) of (Some old, Some m') \<Rightarrow> Some (old, m') | _ \<Rightarrow> None)"

definition fabric_atomic_add :: "fabric_channel option \<Rightarrow> u64 \<Rightarrow> u64 \<Rightarrow> fabric \<Rightarrow> host
    \<Rightarrow> ((errno + int) \<times> fabric \<times> host) call" where
  "fabric_atomic_add cho addr val s m = (case atomic_target cho addr s of
       Undefined \<Rightarrow> Undefined | Blocked \<Rightarrow> Blocked
     | Returns (Inl e) \<Rightarrow> Returns (Inl e, s, m)
     | Returns (Inr p) \<Rightarrow>
       (case Option.bind (peek64 m p) (\<lambda>old. poke64 m p (old + val)) of None \<Rightarrow> Undefined
        | Some m' \<Rightarrow> Returns (Inr 0, count_atomic s, m')))"

text \<open>
  Compare-and-swap is an exchange that is rolled back by a second one when the old word is not the
  expected one. The two memory accesses are separate definitions, since another thread can run between.
  The result is the status and the value stored through \<open>prev\<close>.
\<close>

definition cas_finish :: "nat \<Rightarrow> u64 \<Rightarrow> u64 \<Rightarrow> fabric \<Rightarrow> host \<Rightarrow> ((errno + int \<times> u64) \<times> fabric \<times> host) call" where
  "cas_finish p expected old s m =
     (if old \<noteq> expected
      then (case exchange_n m p old of None \<Rightarrow> Undefined | Some (_, m') \<Rightarrow> Returns (Inr (1, old), s, m'))
      else Returns (Inr (0, old), count_atomic s, m))"

definition fabric_atomic_cas :: "fabric_channel option \<Rightarrow> u64 \<Rightarrow> u64 \<Rightarrow> u64 \<Rightarrow> fabric \<Rightarrow> host
    \<Rightarrow> ((errno + int \<times> u64) \<times> fabric \<times> host) call" where
  "fabric_atomic_cas cho addr expected desired s m = (case atomic_target cho addr s of
       Undefined \<Rightarrow> Undefined | Blocked \<Rightarrow> Blocked
     | Returns (Inl e) \<Rightarrow> Returns (Inl e, s, m)
     | Returns (Inr p) \<Rightarrow>
       (case exchange_n m p desired of None \<Rightarrow> Undefined
        | Some (old, m1) \<Rightarrow> cas_finish p expected old s m1))"

text \<open>Without \<open>prev\<close> the word is stored and not exchanged.\<close>

definition fabric_atomic_exch :: "fabric_channel option \<Rightarrow> u64 \<Rightarrow> u64 \<Rightarrow> bool \<Rightarrow> fabric \<Rightarrow> host
    \<Rightarrow> ((errno + int \<times> u64 option) \<times> fabric \<times> host) call" where
  "fabric_atomic_exch cho addr val have_prev s m = (case atomic_target cho addr s of
       Undefined \<Rightarrow> Undefined | Blocked \<Rightarrow> Blocked
     | Returns (Inl e) \<Rightarrow> Returns (Inl e, s, m)
     | Returns (Inr p) \<Rightarrow>
       if have_prev
       then (case exchange_n m p val of None \<Rightarrow> Undefined
         | Some (old, m') \<Rightarrow> Returns (Inr (0, Some old), count_atomic s, m'))
       else (case poke64 m p val of None \<Rightarrow> Undefined
         | Some m' \<Rightarrow> Returns (Inr (0, None), count_atomic s, m')))"

section \<open>Queries\<close>

definition fabric_query_bandwidth :: "u32 \<Rightarrow> u32 \<Rightarrow> bool \<Rightarrow> fabric \<Rightarrow> errno + u64" where
  "fabric_query_bandwidth src dst have_out s =
     (if \<not> f_init s then Inl ENODEV
      else if \<not> node_valid s src \<or> \<not> node_valid s dst then Inl ENODEV
      else if \<not> have_out then Inl EINVAL
      else let a = ucast (ni_bandwidth_gbs (n_info (f_nodes s ! unat src))) :: u64;
               b = ucast (ni_bandwidth_gbs (n_info (f_nodes s ! unat dst))) :: u64;
               link = (if a < b then a else b) in
        Inr (link * 4 div 5))"

definition fabric_query_latency :: "u32 \<Rightarrow> u32 \<Rightarrow> bool \<Rightarrow> fabric \<Rightarrow> errno + u32" where
  "fabric_query_latency src dst have_out s =
     (if \<not> f_init s then Inl ENODEV
      else if \<not> node_valid s src \<or> \<not> node_valid s dst then Inl ENODEV
      else if \<not> have_out then Inl EINVAL
      else let a = ni_latency_ns (n_info (f_nodes s ! unat src));
               b = ni_latency_ns (n_info (f_nodes s ! unat dst)) in
        Inr (if b < a then a else b))"

end
