(* ===== verification/Bvcomm.thy ===== *)
theory Bvcomm
  imports Fabric Float32
begin

text \<open>
  The collectives \<open>bvlibs/src/bvcomm.c\<close>: worlds of ranks whose buffers are bound to fabric nodes, and the ring
  all-reduce, broadcast and all-gather over \<open>fabric_dma\<close>. A world is passed with the fabric and the host
  memory it lives in. The results of the transfers are not looked at by the code; \<open>None\<close> is undefined
  behaviour (or a lock that is never released).
\<close>

section \<open>Worlds\<close>

abbreviation (input) BVCOMM_WINDOW_STRIDE :: u64 where "BVCOMM_WINDOW_STRIDE \<equiv> 0x100000000"

abbreviation (input) BVCOMM_MAX_RANKS :: nat where "BVCOMM_MAX_RANKS \<equiv> 64"

text \<open>The arrays are indexed by rank and only accessed below 64.\<close>

record bvcomm_world =
  bw_nranks :: int
  bw_buf_bytes :: u64
  bw_scratch_bytes :: u64
  bw_window_bytes :: u64
  bw_mem :: "nat \<Rightarrow> nat option"
  bw_base :: "nat \<Rightarrow> u64"
  bw_ch :: "nat \<Rightarrow> nat \<Rightarrow> fabric_channel"

record comm =
  cm_w :: bvcomm_world
  cm_f :: fabric
  cm_m :: host

definition bvcomm_version :: string where
  "bvcomm_version = ''BVCOMM 0.1.0 (BradFusion reference)''"

definition bvcomm_nranks :: "bvcomm_world option \<Rightarrow> int" where
  "bvcomm_nranks wo = (case wo of None \<Rightarrow> 0 | Some w \<Rightarrow> bw_nranks w)"

definition bvcomm_buf :: "bvcomm_world option \<Rightarrow> int \<Rightarrow> nat option" where
  "bvcomm_buf wo rank = (case wo of None \<Rightarrow> None
     | Some w \<Rightarrow> if rank < 0 \<or> bw_nranks w \<le> rank then None else bw_mem w (nat rank))"

text \<open>\<open>calloc\<close> adds a zeroed object to the host memory, \<open>free\<close> takes it away.\<close>

definition host_calloc :: "nat \<Rightarrow> nat \<Rightarrow> host \<Rightarrow> host" where
  "host_calloc p n m = (\<lambda>a. if p \<le> a \<and> a < p + n then Some 0 else m a)"

definition host_free :: "nat option \<Rightarrow> nat \<Rightarrow> host \<Rightarrow> host" where
  "host_free po n m = (case po of None \<Rightarrow> m | Some p \<Rightarrow> (\<lambda>a. if p \<le> a \<and> a < p + n then None else m a))"

definition bvcomm_destroy :: "bvcomm_world option \<Rightarrow> host \<Rightarrow> host" where
  "bvcomm_destroy wo m = (case wo of None \<Rightarrow> m
     | Some w \<Rightarrow> fold (\<lambda>r. host_free (bw_mem w r) (unat (bw_window_bytes w))) [0..<nat (bw_nranks w)] m)"

definition rank_info :: "u64 \<Rightarrow> u64 \<Rightarrow> fabric_node_info" where
  "rank_info base window = \<lparr> ni_id = 0, ni_type = FABRIC_NODE_GPU, ni_base = base, ni_limit = base + window - 1,
     ni_bandwidth_gbs = 512, ni_latency_ns = 20 \<rparr>"

text \<open>
  One rank: its window, its memory (where \<open>calloc\<close> places it, \<open>None\<close> when it fails), its node. The first
  component tells whether all went well.
\<close>

definition init_rank :: "(nat \<Rightarrow> nat option) \<Rightarrow> nat \<Rightarrow> comm \<Rightarrow> bool \<times> comm" where
  "init_rank place r c =
     (let w = cm_w c; base = of_nat r * BVCOMM_WINDOW_STRIDE; window = bw_window_bytes w;
          w' = w\<lparr> bw_base := (bw_base w)(r := base), bw_mem := (bw_mem w)(r := place r) \<rparr> in
      case place r of None \<Rightarrow> (False, c\<lparr> cm_w := w' \<rparr>)
      | Some p \<Rightarrow>
        let m = host_calloc p (unat window) (cm_m c);
            (res1, f1) = fabric_register_node (Some (rank_info base window)) (cm_f c) in
        case res1 of Inl _ \<Rightarrow> (False, c\<lparr> cm_w := w', cm_f := f1, cm_m := m \<rparr>)
        | Inr _ \<Rightarrow>
          let (res2, f2) = fabric_bind_memory (of_nat r) (Some p) window f1 in
          (res2 = Inr (), c\<lparr> cm_w := w', cm_f := f2, cm_m := m \<rparr>))"

fun init_ranks :: "(nat \<Rightarrow> nat option) \<Rightarrow> nat list \<Rightarrow> comm \<Rightarrow> bool \<times> comm" where
  "init_ranks place [] c = (True, c)"
| "init_ranks place (r # rs) c =
     (case init_rank place r c of (False, c') \<Rightarrow> (False, c') | (True, c') \<Rightarrow> init_ranks place rs c')"

fun open_channels :: "(nat \<times> nat) list \<Rightarrow> comm \<Rightarrow> bool \<times> comm" where
  "open_channels [] c = (True, c)"
| "open_channels ((s, d) # ps) c =
     (case fabric_channel_open (of_nat s) (of_nat d) (FABRIC_CH_DMA OR FABRIC_CH_READ OR FABRIC_CH_WRITE) True (cm_f c) of
        Inl _ \<Rightarrow> (False, c)
      | Inr ch \<Rightarrow> open_channels ps
          (c\<lparr> cm_w := (cm_w c)\<lparr> bw_ch := (bw_ch (cm_w c))(s := (bw_ch (cm_w c) s)(d := ch)) \<rparr> \<rparr>))"

text \<open>\<open>have_w\<close>: the structure of the world itself could be allocated. The sizes are added at 64 bits.\<close>

definition bvcomm_init :: "bool \<Rightarrow> (nat \<Rightarrow> nat option) \<Rightarrow> int \<Rightarrow> u64 \<Rightarrow> u64 \<Rightarrow> fabric \<Rightarrow> host
    \<Rightarrow> bvcomm_world option \<times> fabric \<times> host" where
  "bvcomm_init have_w place nranks buf_bytes scratch_bytes f m =
     (if nranks < 1 \<or> int BVCOMM_MAX_RANKS < nranks \<or> buf_bytes = 0 then (None, f, m)
      else if BVCOMM_WINDOW_STRIDE \<le> buf_bytes + scratch_bytes then (None, f, m)
      else if \<not> have_w then (None, f, m)
      else let n = nat nranks;
        c0 = \<lparr> cm_w = \<lparr> bw_nranks = nranks, bw_buf_bytes = buf_bytes, bw_scratch_bytes = scratch_bytes,
                 bw_window_bytes = buf_bytes + scratch_bytes, bw_mem = (\<lambda>_. None), bw_base = (\<lambda>_. 0),
                 bw_ch = (\<lambda>_ _. zero_channel) \<rparr>, cm_f = snd fabric_init, cm_m = m \<rparr>;
        (ok1, c1) = init_ranks place [0..<n] c0;
        (ok2, c2) = (if ok1 then open_channels (List.product [0..<n] [0..<n]) c1 else (False, c1)) in
        if ok2 then (Some (cm_w c2), cm_f c2, cm_m c2)
        else (None, cm_f c2, bvcomm_destroy (Some (cm_w c2)) (cm_m c2)))"

section \<open>Transfers and local loops\<close>

definition dma_between :: "nat \<Rightarrow> nat \<Rightarrow> u64 \<Rightarrow> u64 \<Rightarrow> u64 \<Rightarrow> comm \<Rightarrow> comm option" where
  "dma_between s d src_off dst_off len c =
     (let w = cm_w c in
      case fabric_dma (Some (bw_ch w s d)) (bw_base w s + src_off) (bw_base w d + dst_off) len (cm_f c) (cm_m c) of
        Returns (_, Some ch', f', m') \<Rightarrow>
          Some \<lparr> cm_w = w\<lparr> bw_ch := (bw_ch w)(s := (bw_ch w s)(d := ch')) \<rparr>, cm_f = f', cm_m = m' \<rparr>
      | _ \<Rightarrow> None)"

text \<open>An address \<open>o\<close> bytes into the memory of a rank.\<close>

definition in_mem :: "bvcomm_world \<Rightarrow> nat \<Rightarrow> u64 \<Rightarrow> nat option" where
  "in_mem w r off = map_option (\<lambda>p. p + unat off) (bw_mem w r)"

text \<open>\<open>dst[j] += inbox[j]\<close> on \<open>float\<close> arrays; a pointer that is not a multiple of 4 is undefined.\<close>

definition add_word :: "fpu \<Rightarrow> nat \<Rightarrow> nat \<Rightarrow> nat \<Rightarrow> host \<Rightarrow> host option" where
  "add_word fp dst inbox j m = (case (peek32 m (dst + 4 * j), peek32 m (inbox + 4 * j)) of
       (Some a, Some b) \<Rightarrow> poke32 m (dst + 4 * j) (f32_add fp a b)
     | _ \<Rightarrow> None)"

definition add_words :: "fpu \<Rightarrow> nat \<Rightarrow> nat \<Rightarrow> nat \<Rightarrow> host \<Rightarrow> host option" where
  "add_words fp dst inbox k m =
     (if dst mod 4 \<noteq> 0 \<or> inbox mod 4 \<noteq> 0 then None else run_each (add_word fp dst inbox) [0..<k] m)"

definition with_mem :: "(host \<Rightarrow> host option) \<Rightarrow> comm \<Rightarrow> comm option" where
  "with_mem g c = map_option (\<lambda>m. c\<lparr> cm_m := m \<rparr>) (g (cm_m c))"

section \<open>All-reduce\<close>

definition chunk_offsets :: "u64 \<Rightarrow> nat \<Rightarrow> u64 list" where
  "chunk_offsets count n =
     (let base = count div of_nat n; rem = count mod of_nat n in
      foldl (\<lambda>out i. out @ [last out + base + (if of_nat i < rem then 1 else 0)]) [0] [0..<n])"

definition max_chunk_bytes :: "u64 \<Rightarrow> nat \<Rightarrow> u64" where
  "max_chunk_bytes count n =
     (count div of_nat n + (if count mod of_nat n \<noteq> 0 then 1 else 0)) * 4"

text \<open>The bytes of chunk \<open>i\<close>.\<close>

definition chunk_len :: "u64 list \<Rightarrow> nat \<Rightarrow> u64" where
  "chunk_len cs i = (cs ! Suc i - cs ! i) * 4"

text \<open>
  A step of the ring: every rank sends one chunk to the inbox of the next one, then every rank works its
  inbox into the chunk it received. The chunk that rank \<open>r\<close> sends in step \<open>s\<close> is \<open>(r - s + n) % n\<close> in the
  first phase and \<open>(r - s + 1 + n) % n\<close> in the second, the chunk it receives is one less; \<open>e\<close> is 0 or 1.
\<close>

definition ring_send :: "nat \<Rightarrow> u64 \<Rightarrow> u64 list \<Rightarrow> nat \<Rightarrow> nat \<Rightarrow> nat \<Rightarrow> comm \<Rightarrow> comm option" where
  "ring_send n off cs e s r c =
     (let send = (r + e + n - s) mod n; nxt = (r + 1) mod n; len = chunk_len cs send in
      if len = 0 then Some c
      else dma_between r nxt ((off + cs ! send) * 4) (bw_buf_bytes (cm_w c)) len c)"

definition ring_add :: "fpu \<Rightarrow> nat \<Rightarrow> u64 \<Rightarrow> u64 list \<Rightarrow> nat \<Rightarrow> nat \<Rightarrow> comm \<Rightarrow> comm option" where
  "ring_add fp n off cs s r c =
     (let recv = (r + n - s - 1) mod n; len = chunk_len cs recv in
      if len = 0 then Some c
      else case (in_mem (cm_w c) r ((off + cs ! recv) * 4), in_mem (cm_w c) r (bw_buf_bytes (cm_w c))) of
        (Some dst, Some inbox) \<Rightarrow> with_mem (add_words fp dst inbox (unat (len div 4))) c
      | _ \<Rightarrow> None)"

definition ring_copy :: "nat \<Rightarrow> u64 \<Rightarrow> u64 list \<Rightarrow> nat \<Rightarrow> nat \<Rightarrow> comm \<Rightarrow> comm option" where
  "ring_copy n off cs s r c =
     (let recv = (r + n - s) mod n; len = chunk_len cs recv in
      if len = 0 then Some c
      else case (in_mem (cm_w c) r ((off + cs ! recv) * 4), in_mem (cm_w c) r (bw_buf_bytes (cm_w c))) of
        (Some dst, Some inbox) \<Rightarrow> with_mem (host_memcpy dst inbox (unat len)) c
      | _ \<Rightarrow> None)"

definition reduce_step :: "fpu \<Rightarrow> nat \<Rightarrow> u64 \<Rightarrow> u64 list \<Rightarrow> nat \<Rightarrow> comm \<Rightarrow> comm option" where
  "reduce_step fp n off cs s c =
     Option.bind (run_each (ring_send n off cs 0 s) [0..<n] c) (run_each (ring_add fp n off cs s) [0..<n])"

definition gather_step :: "nat \<Rightarrow> u64 \<Rightarrow> u64 list \<Rightarrow> nat \<Rightarrow> comm \<Rightarrow> comm option" where
  "gather_step n off cs s c =
     Option.bind (run_each (ring_send n off cs 1 s) [0..<n] c) (run_each (ring_copy n off cs s) [0..<n])"

text \<open>\<open>None\<close> as the world is the null pointer, which the other two collectives treat alike.\<close>

definition bvcomm_allreduce_sum_f32 :: "fpu \<Rightarrow> bool \<Rightarrow> comm \<Rightarrow> u64 \<Rightarrow> u64 \<Rightarrow> (int \<times> comm) option" where
  "bvcomm_allreduce_sum_f32 fp have_w c off count =
     (if \<not> have_w then Some (-1, c)
      else if count = 0 then Some (0, c)
      else if bw_buf_bytes (cm_w c) < (off + count) * 4 then Some (-2, c)
      else let n = nat (bw_nranks (cm_w c)) in
        if n = 1 then Some (0, c)
        else if bw_scratch_bytes (cm_w c) < max_chunk_bytes count n then Some (-2, c)
        else let cs = chunk_offsets count n in
          map_option (Pair 0) (Option.bind (run_each (reduce_step fp n off cs) [0..<n - 1] c)
            (run_each (gather_step n off cs) [0..<n - 1])))"

section \<open>Broadcast and all-gather\<close>

definition bvcomm_broadcast_f32 :: "bool \<Rightarrow> comm \<Rightarrow> int \<Rightarrow> u64 \<Rightarrow> u64 \<Rightarrow> (int \<times> comm) option" where
  "bvcomm_broadcast_f32 have_w c root off count =
     (if \<not> have_w \<or> root < 0 \<or> bw_nranks (cm_w c) \<le> root then Some (-1, c)
      else if count = 0 then Some (0, c)
      else if bw_buf_bytes (cm_w c) < (off + count) * 4 then Some (-2, c)
      else map_option (Pair 0) (run_each (\<lambda>r c. if r = nat root then Some c
             else dma_between (nat root) r (off * 4) (off * 4) (count * 4) c) [0..<nat (bw_nranks (cm_w c))] c))"

definition bvcomm_allgather_f32 :: "bool \<Rightarrow> comm \<Rightarrow> u64 \<Rightarrow> u64 \<Rightarrow> u64 \<Rightarrow> (int \<times> comm) option" where
  "bvcomm_allgather_f32 have_w c in_off out_off count =
     (if \<not> have_w then Some (-1, c)
      else if count = 0 then Some (0, c)
      else if bw_buf_bytes (cm_w c) < (in_off + count) * 4 then Some (-2, c)
      else let n = nat (bw_nranks (cm_w c)); total = of_nat n * count in
        if bw_buf_bytes (cm_w c) < (out_off + total) * 4 then Some (-2, c)
        else if bw_scratch_bytes (cm_w c) < count * 4 then Some (-2, c)
        else map_option (Pair 0) (Option.bind
          (run_each (\<lambda>r c. case (in_mem (cm_w c) r (bw_buf_bytes (cm_w c)), in_mem (cm_w c) r (in_off * 4)) of
               (Some dst, Some src) \<Rightarrow> with_mem (host_memcpy dst src (unat (count * 4))) c
             | _ \<Rightarrow> None) [0..<n] c)
          (run_each (\<lambda>(src, dst). dma_between src dst (bw_buf_bytes (cm_w c)) ((out_off + of_nat src * count) * 4) (count * 4))
            (List.product [0..<n] [0..<n]))))"

end
