(* ===== verification/FabricProps.thy ===== *)
theory FabricProps
  imports Fabric Machine
begin

text \<open>
  Properties of the interconnect: the message queue as a byte stream (the interface \<open>byte_queue\<close>, met by
  the ring buffer), the invariant of the node table, what a DMA transfer moves, and the atomics.
\<close>

section \<open>Byte streams\<close>

text \<open>
  A queue of bytes behind two operations. What has been taken out, followed by what is in it, is what
  has been put in; that is all the clients use.
\<close>

locale byte_queue =
  fixes put :: "u8 list \<Rightarrow> 'q \<Rightarrow> 'q" and get :: "nat \<Rightarrow> 'q \<Rightarrow> u8 list \<times> 'q"
    and cont :: "'q \<Rightarrow> u8 list" and ok :: "'q \<Rightarrow> bool" and cap :: nat
  assumes put_ok: "ok q \<Longrightarrow> length (cont q) + length bs \<le> cap \<Longrightarrow> ok (put bs q)"
    and put_cont: "ok q \<Longrightarrow> length (cont q) + length bs \<le> cap \<Longrightarrow> cont (put bs q) = cont q @ bs"
    and get_ok: "ok q \<Longrightarrow> n \<le> length (cont q) \<Longrightarrow> ok (snd (get n q))"
    and get_bytes: "ok q \<Longrightarrow> n \<le> length (cont q) \<Longrightarrow> fst (get n q) = take n (cont q)"
    and get_cont: "ok q \<Longrightarrow> n \<le> length (cont q) \<Longrightarrow> cont (snd (get n q)) = drop n (cont q)"
begin

definition stream :: "u8 list \<Rightarrow> u8 list \<Rightarrow> 'q \<Rightarrow> bool" where
  "stream sent rcvd q \<longleftrightarrow> ok q \<and> rcvd @ cont q = sent"

lemma stream_put:
  "stream sent rcvd q \<Longrightarrow> length (cont q) + length bs \<le> cap \<Longrightarrow> stream (sent @ bs) rcvd (put bs q)"
  by (auto simp: stream_def put_ok put_cont)

lemma stream_get:
  "stream sent rcvd q \<Longrightarrow> n \<le> length (cont q) \<Longrightarrow> stream sent (rcvd @ fst (get n q)) (snd (get n q))"
  by (auto simp: stream_def get_ok get_bytes get_cont)

lemma put_get:
  assumes "ok q" "cont q = []" "length bs \<le> cap"
  shows "fst (get (length bs) (put bs q)) = bs" "cont (snd (get (length bs) (put bs q))) = []"
  using assms by (simp_all add: put_ok put_cont get_bytes get_cont)

end

section \<open>The ring buffer\<close>

abbreviation ring_size :: nat where "ring_size \<equiv> 131072"

definition fq_cont :: "fabric_queue \<Rightarrow> u8 list" where
  "fq_cont q = map (\<lambda>i. q_data q ((unat (q_head q) + i) mod ring_size)) [0..<unat (q_used q)]"

definition fq_ok :: "fabric_queue \<Rightarrow> bool" where
  "fq_ok q \<longleftrightarrow> unat (q_used q) \<le> ring_size \<and> unat (q_tail q) = (unat (q_head q) + unat (q_used q)) mod ring_size"

lemma length_fq_cont [simp]: "length (fq_cont q) = unat (q_used q)"
  by (simp add: fq_cont_def)

lemma ring_mask: "unat ((x :: u64) AND 131071) = unat x mod ring_size"
proof -
  have "(131071 :: u64) = mask 17" by (simp add: mask_eq_exp_minus_1)
  then have "x AND 131071 = take_bit 17 x" by (simp only: take_bit_eq_mask)
  moreover have "unat (take_bit 17 x) = take_bit 17 (unat x)" by (simp only: unsigned_take_bit_eq)
  ultimately show ?thesis by (simp add: take_bit_eq_mod)
qed

lemma ring_pos: "unat (((t :: u64) + of_nat i) AND 131071) = (unat t + i) mod ring_size"
proof -
  have "unat (t + of_nat i) = (unat t + i) mod 2 ^ 64"
    by (simp add: unat_word_ariths unsigned_of_nat take_bit_eq_mod mod_add_right_eq)
  moreover have "(unat t + i) mod 2 ^ 64 mod ring_size = (unat t + i) mod ring_size"
    by (rule mod_mod_cancel) simp
  ultimately show ?thesis unfolding ring_mask by simp
qed

lemma ring_inj:
  assumes "(t + i) mod ring_size = (t + j) mod ring_size" "i < n" "j < n" "n \<le> ring_size"
  shows "i = (j :: nat)"
proof -
  have "a = b" if "(t + a) mod ring_size = (t + b) mod ring_size" "a \<le> b" "b < n" for a b
  proof -
    from that have "ring_size dvd b - a"
      using mod_eq_dvd_iff_nat [of "t + a" "t + b" ring_size] by simp
    then show ?thesis using that assms(4) by (auto dest: dvd_imp_le)
  qed
  from this [of i j] this [of j i] assms show ?thesis by (cases "i \<le> j") auto
qed

abbreviation ring_fill :: "nat \<Rightarrow> u8 list \<Rightarrow> nat \<Rightarrow> (nat \<Rightarrow> u8) \<Rightarrow> nat \<Rightarrow> u8" where
  "ring_fill t bs n d \<equiv> fold (\<lambda>i d. d((t + i) mod ring_size := bs ! i)) [0..<n] d"

lemma ring_fill_hit:
  "i < n \<Longrightarrow> n \<le> ring_size \<Longrightarrow> ring_fill t bs n d ((t + i) mod ring_size) = bs ! i"
proof (induction n)
  case (Suc n)
  then show ?case using ring_inj [of t i n "Suc n"] by (cases "i = n") auto
qed simp

lemma ring_fill_miss:
  "(\<And>i. i < n \<Longrightarrow> x \<noteq> (t + i) mod ring_size) \<Longrightarrow> ring_fill t bs n d x = d x"
  by (induction n) auto

lemma fq_put_data: "q_data (fq_put bs q) = ring_fill (unat (q_tail q)) bs (length bs) (q_data q)"
  by (simp add: fq_put_def ring_pos del: fun_upd_apply)

lemma fq_put_cont:
  assumes ok: "fq_ok q" and fit: "unat (q_used q) + length bs \<le> ring_size"
  shows "fq_ok (fq_put bs q) \<and> fq_cont (fq_put bs q) = fq_cont q @ bs"
proof
  let ?h = "unat (q_head q)" and ?u = "unat (q_used q)" and ?n = "length bs"
  have used: "unat (q_used (fq_put bs q)) = ?u + ?n"
    using fit by (simp add: fq_put_def unat_word_ariths unsigned_of_nat take_bit_eq_mod)
  have head: "q_head (fq_put bs q) = q_head q" by (simp add: fq_put_def)
  have tail: "unat (q_tail q) = (?h + ?u) mod ring_size" using ok by (simp add: fq_ok_def)
  have tail': "unat (q_tail (fq_put bs q)) = (?h + (?u + ?n)) mod ring_size"
    by (simp add: fq_put_def ring_pos tail mod_add_left_eq add.assoc)
  show "fq_ok (fq_put bs q)"
    using fit by (simp add: fq_ok_def used head tail')
  have at: "(unat (q_tail q) + i) mod ring_size = (?h + (?u + i)) mod ring_size" for i
    by (simp add: tail mod_add_left_eq add.assoc)
  have old: "q_data (fq_put bs q) ((?h + i) mod ring_size) = q_data q ((?h + i) mod ring_size)" if "i < ?u" for i
    unfolding fq_put_data
  proof (rule ring_fill_miss)
    fix j assume "j < ?n"
    then show "(?h + i) mod ring_size \<noteq> (unat (q_tail q) + j) mod ring_size"
      unfolding at using that fit ring_inj [of ?h i "?u + j" "?u + ?n"] by fastforce
  qed
  have new: "q_data (fq_put bs q) ((?h + (?u + i)) mod ring_size) = bs ! i" if "i < ?n" for i
    unfolding fq_put_data at [symmetric] by (rule ring_fill_hit) (use that fit in auto)
  show "fq_cont (fq_put bs q) = fq_cont q @ bs"
  proof (rule nth_equalityI)
    fix i assume "i < length (fq_cont (fq_put bs q))"
    then have i: "i < ?u + ?n" by (simp add: used)
    show "fq_cont (fq_put bs q) ! i = (fq_cont q @ bs) ! i"
    proof (cases "i < ?u")
      case True
      then show ?thesis using i old by (simp add: fq_cont_def used head nth_append)
    next
      case False
      then show ?thesis using i new [of "i - ?u"] by (simp add: fq_cont_def used head nth_append)
    qed
  qed (simp add: used)
qed

lemma fq_take_cont:
  assumes ok: "fq_ok q" and n: "n \<le> unat (q_used q)"
  shows "fst (fq_take (of_nat n) q) = take n (fq_cont q)"
    and "fq_cont (snd (fq_take (of_nat n) q)) = drop n (fq_cont q)"
    and "fq_ok (snd (fq_take (of_nat n) q))"
proof -
  let ?h = "unat (q_head q)" and ?q = "snd (fq_take (of_nat n) q)"
  have wn: "unat (of_nat n :: u64) = n"
    using n unat_u64 [of "q_used q"] by (simp add: unsigned_of_nat take_bit_eq_mod)
  have used: "unat (q_used ?q) = unat (q_used q) - n"
    using n by (simp add: fq_take_def unat_sub word_le_nat_alt wn)
  have head: "unat (q_head ?q) = (?h + n) mod ring_size"
    by (simp add: fq_take_def ring_pos)
  have same: "q_data ?q = q_data q" "q_tail ?q = q_tail q" by (simp_all add: fq_take_def)
  show "fst (fq_take (of_nat n) q) = take n (fq_cont q)"
    using n by (simp add: fq_take_def fq_cont_def ring_pos wn take_map)
  show "fq_cont ?q = drop n (fq_cont q)"
    using n by (auto simp: fq_cont_def used head same mod_add_left_eq add.assoc intro!: nth_equalityI)
  show "fq_ok ?q"
  proof -
    have "((?h + n) mod ring_size + (unat (q_used q) - n)) mod ring_size = (?h + n + (unat (q_used q) - n)) mod ring_size"
      by (rule mod_add_left_eq)
    also have "?h + n + (unat (q_used q) - n) = ?h + unat (q_used q)" using n by simp
    finally show ?thesis using ok n unfolding fq_ok_def used head same by linarith
  qed
qed

interpretation ring: byte_queue fq_put "\<lambda>n. fq_take (of_nat n)" fq_cont fq_ok ring_size
  by unfold_locales (simp_all add: fq_put_cont fq_take_cont)

section \<open>The fabric as a machine\<close>

text \<open>
  A program that uses the fabric: it registers and binds nodes, sends, receives, transfers and updates,
  and in between changes its own memory as it likes (\<open>Host\<close>). The world keeps the bytes sent and received.
\<close>

datatype fabric_op =
    Host host
  | Reg "fabric_node_info option"
  | Bind u32 "nat option" u64
  | Send "fabric_channel option" "nat option" u64
  | Recv "fabric_channel option" "nat option" "u64 option"
  | Dma "fabric_channel option" u64 u64 u64
  | Add "fabric_channel option" u64 u64
  | Cas "fabric_channel option" u64 u64 u64
  | Exch "fabric_channel option" u64 u64 bool

record fabric_world =
  w_fabric :: fabric
  w_host :: host
  w_sent :: "u8 list"
  w_rcvd :: "u8 list"

fun fabric_exec :: "fabric_op \<Rightarrow> fabric_world \<Rightarrow> fabric_world" where
  "fabric_exec (Host m) w = w\<lparr> w_host := m \<rparr>"
| "fabric_exec (Reg info) w = w\<lparr> w_fabric := snd (fabric_register_node info (w_fabric w)) \<rparr>"
| "fabric_exec (Bind i p n) w = w\<lparr> w_fabric := snd (fabric_bind_memory i p n (w_fabric w)) \<rparr>"
| "fabric_exec (Send ch p n) w = (case fabric_send ch p n (w_fabric w) (w_host w) of
     Returns (Inr _, _, s, m) \<Rightarrow> w\<lparr> w_fabric := s, w_host := m,
        w_sent := w_sent w @ the (peek (w_host w) (the p) (unat n)) \<rparr>
   | _ \<Rightarrow> w)"
| "fabric_exec (Recv ch p n) w = (case fabric_recv ch p n (w_fabric w) (w_host w) of
     Returns (Inr (_, k), _, s, m) \<Rightarrow> w\<lparr> w_fabric := s, w_host := m,
        w_rcvd := w_rcvd w @ the (peek m (the p) (unat k)) \<rparr>
   | _ \<Rightarrow> w)"
| "fabric_exec (Dma ch a b n) w = (case fabric_dma ch a b n (w_fabric w) (w_host w) of
     Returns (_, _, s, m) \<Rightarrow> w\<lparr> w_fabric := s, w_host := m \<rparr> | _ \<Rightarrow> w)"
| "fabric_exec (Add ch a v) w = (case fabric_atomic_add ch a v (w_fabric w) (w_host w) of
     Returns (_, s, m) \<Rightarrow> w\<lparr> w_fabric := s, w_host := m \<rparr> | _ \<Rightarrow> w)"
| "fabric_exec (Cas ch a x v) w = (case fabric_atomic_cas ch a x v (w_fabric w) (w_host w) of
     Returns (_, s, m) \<Rightarrow> w\<lparr> w_fabric := s, w_host := m \<rparr> | _ \<Rightarrow> w)"
| "fabric_exec (Exch ch a v b) w = (case fabric_atomic_exch ch a v b (w_fabric w) (w_host w) of
     Returns (_, s, m) \<Rightarrow> w\<lparr> w_fabric := s, w_host := m \<rparr> | _ \<Rightarrow> w)"

text \<open>
  What the program must respect: windows do not end before they start or at the last address, channels
  have at most the packet size, and no call has undefined behaviour.
\<close>

fun packet_channel :: "fabric_channel option \<Rightarrow> bool" where
  "packet_channel None \<longleftrightarrow> True"
| "packet_channel (Some c) \<longleftrightarrow> ch_mtu c \<le> 4096"

fun fabric_safe :: "fabric_op \<Rightarrow> fabric_world \<Rightarrow> bool" where
  "fabric_safe (Reg (Some info)) w \<longleftrightarrow> ni_base info \<le> ni_limit info \<and> ni_limit info \<noteq> - 1"
| "fabric_safe (Send ch p n) w \<longleftrightarrow> packet_channel ch
     \<and> defined (fabric_send ch p n (w_fabric w) (w_host w))"
| "fabric_safe (Recv ch p n) w \<longleftrightarrow> defined (fabric_recv ch p n (w_fabric w) (w_host w))"
| "fabric_safe (Dma ch a b n) w \<longleftrightarrow> defined (fabric_dma ch a b n (w_fabric w) (w_host w))"
| "fabric_safe (Add ch a v) w \<longleftrightarrow> defined (fabric_atomic_add ch a v (w_fabric w) (w_host w))"
| "fabric_safe (Cas ch a x v) w \<longleftrightarrow> defined (fabric_atomic_cas ch a x v (w_fabric w) (w_host w))"
| "fabric_safe (Exch ch a v b) w \<longleftrightarrow> defined (fabric_atomic_exch ch a v b (w_fabric w) (w_host w))"
| "fabric_safe _ w \<longleftrightarrow> True"

definition node_ok :: "nat \<Rightarrow> fabric_node \<Rightarrow> bool" where
  "node_ok i n \<longleftrightarrow> n_registered n \<and> ni_id (n_info n) = of_nat i
     \<and> ni_base (n_info n) \<le> ni_limit (n_info n) \<and> ni_limit (n_info n) \<noteq> - 1
     \<and> unat (ni_base (n_info n)) + unat (n_mem_len n) \<le> unat (ni_limit (n_info n)) + 1"

definition apart :: "fabric_node_info \<Rightarrow> fabric_node_info \<Rightarrow> bool" where
  "apart a b \<longleftrightarrow> ni_limit a < ni_base b \<or> ni_limit b < ni_base a"

definition nodes_ok :: "fabric_node list \<Rightarrow> bool" where
  "nodes_ok ns \<longleftrightarrow> length ns \<le> 64 \<and> (\<forall>i < length ns. node_ok i (ns ! i))
     \<and> (\<forall>i < length ns. \<forall>j < length ns. i \<noteq> j \<longrightarrow> apart (n_info (ns ! i)) (n_info (ns ! j)))"

definition fabric_inv :: "fabric_world \<Rightarrow> bool" where
  "fabric_inv w \<longleftrightarrow> f_init (w_fabric w) \<and> \<not> f_dma_lock (w_fabric w) \<and> nodes_ok (f_nodes (w_fabric w))
     \<and> ring.stream (w_sent w) (w_rcvd w) (f_q (w_fabric w))"

definition fabric_start :: fabric_world where
  "fabric_start = \<lparr> w_fabric = snd fabric_init, w_host = (\<lambda>_. None), w_sent = [], w_rcvd = [] \<rparr>"

lemma unat_plus_one: "(w :: u64) \<noteq> - 1 \<Longrightarrow> unat (w + 1) = unat w + 1"
proof -
  assume "w \<noteq> - 1"
  then have "unat w \<noteq> unat (- 1 :: u64)" by (simp only: unsigned_word_eqI word_unat_eq_iff) simp
  moreover have "unat (- 1 :: u64) = 2 ^ 64 - 1"
    by (simp add: unsigned_minus_1_eq_mask mask_eq_exp_minus_1)
  ultimately have "unat w + 1 < 2 ^ 64" using unat_u64 [of w] by simp
  then show ?thesis by (simp add: unat_word_ariths)
qed

lemma register_nodes_ok:
  assumes "nodes_ok (f_nodes s)" "fabric_safe (Reg info) w"
  shows "nodes_ok (f_nodes (snd (fabric_register_node info s)))"
proof (cases "f_init s \<and> info \<noteq> None \<and> length (f_nodes s) < 64 \<and> \<not> list_ex (windows_meet (the info)) (f_nodes s)")
  case False
  then show ?thesis using assms(1) by (auto simp: fabric_register_node_def not_less Let_def split: option.splits)
next
  case True
  then obtain x where x: "info = Some x" by auto
  let ?ns = "f_nodes s" and ?n = "zero_node\<lparr> n_info := x\<lparr> ni_id := of_nat (length (f_nodes s)) \<rparr>, n_registered := True \<rparr>"
  have lim: "ni_base x \<le> ni_limit x" "ni_limit x \<noteq> - 1" using assms(2) x by auto
  have ok: "node_ok i (?ns ! i)" if "i < length ?ns" for i
    using assms(1) that by (auto simp: nodes_ok_def)
  have ap: "apart x (n_info (?ns ! i))" if "i < length ?ns" for i
  proof -
    have "\<not> windows_meet x (?ns ! i)" using True x that by (auto simp: list_ex_iff dest: nth_mem)
    then show ?thesis
      using ok [OF that] unat_plus_one [OF lim(2)] unat_plus_one [of "ni_limit (n_info (?ns ! i))"]
      by (auto simp: windows_meet_def apart_def node_ok_def word_less_nat_alt)
  qed
  have new: "node_ok (length ?ns) ?n"
    using lim by (auto simp: node_ok_def zero_node_def word_le_nat_alt)
  have "nodes_ok (?ns @ [?n])"
    using assms(1) True ok new ap
    by (auto simp: nodes_ok_def nth_append less_Suc_eq apart_def)
  then show ?thesis using True x by (simp add: fabric_register_node_def Let_def)
qed

lemma nodes_ok_update:
  assumes "nodes_ok ns" "k < length ns" "n_info x = n_info (ns ! k)" "node_ok k x"
  shows "nodes_ok (ns[k := x])"
proof -
  have "n_info (ns[k := x] ! i) = n_info (ns ! i)" if "i < length ns" for i
    using assms(3) that by (cases "i = k") auto
  moreover have "node_ok i (ns[k := x] ! i)" if "i < length ns" for i
    using assms that by (cases "i = k") (auto simp: nodes_ok_def)
  ultimately show ?thesis using assms(1) by (simp add: nodes_ok_def)
qed

lemma bind_nodes_ok:
  assumes "nodes_ok (f_nodes s)"
  shows "nodes_ok (f_nodes (snd (fabric_bind_memory i p n s)))"
proof -
  let ?x = "f_nodes s ! unat i"
  have "node_ok (unat i) (?x\<lparr> n_mem := p, n_mem_len := n \<rparr>)"
    if "node_valid s i" "\<not> ni_limit (n_info ?x) - ni_base (n_info ?x) + 1 < n"
  proof -
    have ok: "node_ok (unat i) ?x" using assms that(1) by (auto simp: nodes_ok_def node_valid_def)
    then have sub: "unat (ni_limit (n_info ?x) - ni_base (n_info ?x)) = unat (ni_limit (n_info ?x)) - unat (ni_base (n_info ?x))"
      by (simp add: node_ok_def unat_sub)
    have "unat (ni_limit (n_info ?x) - ni_base (n_info ?x) + 1) \<le> unat (ni_limit (n_info ?x) - ni_base (n_info ?x)) + 1"
      by (simp add: unat_word_ariths)
    then show ?thesis using ok that(2) sub by (auto simp: node_ok_def word_le_nat_alt word_less_nat_alt)
  qed
  then show ?thesis
    using assms by (auto simp: fabric_bind_memory_def Let_def node_valid_def intro!: nodes_ok_update)
qed


lemma node_ok_at: "nodes_ok ns \<Longrightarrow> i < length ns \<Longrightarrow> node_ok i (ns ! i)"
  by (simp add: nodes_ok_def)

text \<open>What a successful call has done to the state.\<close>

lemma send_returns:
  assumes "fabric_send ch p len s m = Returns (Inr r, ch', s', m')"
  shows "\<exists>c d bs. ch = Some c \<and> p = Some d \<and> len \<le> ch_mtu c \<and> peek m d (unat len) = Some bs
    \<and> \<not> (0 < q_used (f_q s) \<and> 32 * 4096 < q_used (f_q s) + len)
    \<and> f_q s' = fq_put bs (f_q s) \<and> f_nodes s' = f_nodes s \<and> f_init s' = f_init s \<and> f_dma_lock s' = f_dma_lock s"
  using assms unfolding fabric_send_def
  by (auto simp: not_less split: if_splits option.splits)

lemma send_error: "fabric_send ch p len s m = Returns (Inl e, ch', s', m') \<Longrightarrow> s' = s \<and> m' = m"
  unfolding fabric_send_def by (auto split: if_splits option.splits)

lemma recv_returns:
  assumes "fabric_recv ch p want s m = Returns (Inr (r, k), ch', s', m')"
  shows "\<exists>d. p = Some d \<and> k \<le> q_used (f_q s) \<and> poke m d (fst (fq_take k (f_q s))) = Some m'
    \<and> f_q s' = snd (fq_take k (f_q s)) \<and> f_nodes s' = f_nodes s \<and> f_init s' = f_init s \<and> f_dma_lock s' = f_dma_lock s"
  using assms unfolding fabric_recv_def
  by (auto simp: Let_def split: if_splits option.splits prod.splits)

definition same_tables :: "fabric \<Rightarrow> fabric \<Rightarrow> bool" where
  "same_tables s s' \<longleftrightarrow> f_q s' = f_q s \<and> f_nodes s' = f_nodes s \<and> f_init s' = f_init s \<and> (f_dma_lock s' \<longrightarrow> f_dma_lock s)"

lemma dma_returns:
  "fabric_dma ch a b len s m = Returns (r, ch', s', m') \<Longrightarrow> same_tables s s'"
  unfolding fabric_dma_def same_tables_def by (auto split: if_splits option.splits)

lemma same_tables_count: "same_tables s s" "same_tables s (count_atomic s)"
  by (simp_all add: count_atomic_def same_tables_def)

lemma atomic_returns:
  "fabric_atomic_add ch a v s m = Returns (r, s', m') \<Longrightarrow> same_tables s s'"
  "fabric_atomic_cas ch a x v s m = Returns (r2, s', m') \<Longrightarrow> same_tables s s'"
  "fabric_atomic_exch ch a v b s m = Returns (r3, s', m') \<Longrightarrow> same_tables s s'"
  unfolding fabric_atomic_add_def fabric_atomic_cas_def fabric_atomic_exch_def cas_finish_def
  by (auto simp: same_tables_count split: call.splits sum.splits option.splits if_splits)

lemma fits_queue:
  assumes "q_used q \<le> 32 * 4096" "len \<le> 4096" "\<not> (0 < q_used q \<and> 32 * 4096 < q_used q + len)"
  shows "unat (q_used q) + unat (len :: u64) \<le> ring_size"
proof -
  have "unat (q_used q) \<le> ring_size" "unat len \<le> 4096"
    using assms(1,2) by (simp_all add: word_le_nat_alt)
  moreover from this have "unat (q_used q + len) = unat (q_used q) + unat len"
    by (simp add: unat_word_ariths)
  ultimately show ?thesis
    using assms(3) by (cases "q_used q = 0") (auto simp: word_less_nat_alt word_gt_0)
qed

lemma fabric_inv_frame:
  assumes "fabric_inv w" "f_q s = f_q (w_fabric w)" "f_nodes s = f_nodes (w_fabric w)"
    "f_init s = f_init (w_fabric w)" "f_dma_lock s \<longrightarrow> f_dma_lock (w_fabric w)"
  shows "fabric_inv (w\<lparr> w_fabric := s, w_host := m \<rparr>)"
  using assms by (auto simp: fabric_inv_def)

lemma fabric_inv_atomic:
  assumes "fabric_inv w" "\<And>r s m. f = Returns (r, s, m) \<Longrightarrow> same_tables (w_fabric w) s"
  shows "fabric_inv (case f of Returns (_, s, m) \<Rightarrow> w\<lparr> w_fabric := s, w_host := m \<rparr> | _ \<Rightarrow> w)"
proof (cases f)
  case (Returns x)
  then obtain r s m where "f = Returns (r, s, m)" by (cases x) auto
  then show ?thesis using assms(1) assms(2) [of r s m] by (simp add: same_tables_def fabric_inv_frame)
qed (use assms in auto)

lemma fabric_inv_dma:
  assumes "fabric_inv w" "\<And>r c s m. f = Returns (r, c, s, m) \<Longrightarrow> same_tables (w_fabric w) s"
  shows "fabric_inv (case f of Returns (_, _, s, m) \<Rightarrow> w\<lparr> w_fabric := s, w_host := m \<rparr> | _ \<Rightarrow> w)"
proof (cases f)
  case (Returns x)
  then obtain r c s m where "f = Returns (r, c, s, m)" by (cases x) auto
  then show ?thesis using assms(1) assms(2) [of r c s m] by (simp add: same_tables_def fabric_inv_frame)
qed (use assms in auto)

lemma fabric_start_inv: "fabric_inv fabric_start"
  by (simp add: fabric_inv_def fabric_start_def fabric_init_def nodes_ok_def ring.stream_def fq_ok_def fq_cont_def)

lemma send_inv:
  assumes inv: "fabric_inv w" and safe: "fabric_safe (Send ch p n) w"
  shows "fabric_inv (fabric_exec (Send ch p n) w)"
proof (cases "fabric_send ch p n (w_fabric w) (w_host w)")
  case (Returns x)
  obtain r ch' s m where x: "x = (r, ch', s, m)" by (cases x) auto
  show ?thesis
  proof (cases r)
    case (Inl e)
    then show ?thesis using Returns x inv by simp
  next
    case (Inr k)
    have ret: "fabric_send ch p n (w_fabric w) (w_host w) = Returns (Inr k, ch', s, m)"
      using Returns x Inr by simp
    obtain c d bs where c: "ch = Some c" "p = Some d" "n \<le> ch_mtu c" "peek (w_host w) d (unat n) = Some bs"
      "\<not> (0 < q_used (f_q (w_fabric w)) \<and> 32 * 4096 < q_used (f_q (w_fabric w)) + n)"
      and s: "f_q s = fq_put bs (f_q (w_fabric w))" "f_nodes s = f_nodes (w_fabric w)"
      "f_init s = f_init (w_fabric w)" "f_dma_lock s = f_dma_lock (w_fabric w)"
      using send_returns [OF ret] by blast
    have used: "q_used (f_q (w_fabric w)) \<le> 32 * 4096"
      using inv by (simp add: fabric_inv_def ring.stream_def fq_ok_def word_le_nat_alt)
    have "n \<le> 4096" using c safe by auto
    then have "unat (q_used (f_q (w_fabric w))) + length bs \<le> ring_size"
      using fits_queue [OF used _ c(5)] peek_length [OF c(4)] by simp
    then have "ring.stream (w_sent w @ bs) (w_rcvd w) (f_q s)"
      unfolding s using inv ring.stream_put by (auto simp: fabric_inv_def)
    then show ?thesis using ret c inv s by (simp add: fabric_inv_def)
  qed
qed (use inv in auto)

lemma recv_inv:
  assumes inv: "fabric_inv w"
  shows "fabric_inv (fabric_exec (Recv ch p n) w)"
proof (cases "fabric_recv ch p n (w_fabric w) (w_host w)")
  case (Returns x)
  obtain r ch' s m where x: "x = (r, ch', s, m)" by (cases x) auto
  show ?thesis
  proof (cases r)
    case (Inl e)
    then show ?thesis using Returns x inv by simp
  next
    case (Inr rk)
    obtain r' k where rk: "rk = (r', k)" by (cases rk)
    have ret: "fabric_recv ch p n (w_fabric w) (w_host w) = Returns (Inr (r', k), ch', s, m)"
      using Returns x Inr rk by simp
    let ?q = "f_q (w_fabric w)"
    obtain d where d: "p = Some d" "k \<le> q_used ?q" "poke (w_host w) d (fst (fq_take k ?q)) = Some m"
      and s: "f_q s = snd (fq_take k ?q)" "f_nodes s = f_nodes (w_fabric w)"
      "f_init s = f_init (w_fabric w)" "f_dma_lock s = f_dma_lock (w_fabric w)"
      using recv_returns [OF ret] by blast
    have "length (fst (fq_take k ?q)) = unat k" by (simp add: fq_take_def)
    then have "the (peek m d (unat k)) = fst (fq_take k ?q)"
      using peek_poke [OF d(3)] by simp
    moreover have "ring.stream (w_sent w) (w_rcvd w @ fst (fq_take k ?q)) (f_q s)"
      unfolding s using ring.stream_get [of "w_sent w" "w_rcvd w" ?q "unat k"] inv d(2)
      by (simp add: fabric_inv_def word_le_nat_alt)
    ultimately show ?thesis using ret d inv s by (simp add: fabric_inv_def)
  qed
qed (use inv in auto)

lemma fabric_exec_inv:
  assumes "fabric_inv w" "fabric_safe c w"
  shows "fabric_inv (fabric_exec c w)"
proof (cases c)
  case (Reg info)
  then show ?thesis using assms register_nodes_ok [of "w_fabric w" info w]
    by (auto simp: fabric_inv_def fabric_register_node_def Let_def split: option.splits)
next
  case (Bind i p n)
  then show ?thesis using assms bind_nodes_ok [of "w_fabric w" i p n]
    by (auto simp: fabric_inv_def fabric_bind_memory_def Let_def)
next
  case (Send ch p n)
  then show ?thesis using assms send_inv by blast
next
  case (Recv ch p n)
  then show ?thesis using assms recv_inv by blast
next
  case (Dma ch a b n)
  show ?thesis unfolding Dma fabric_exec.simps
    by (rule fabric_inv_dma [OF assms(1)]) (rule dma_returns)
next
  case (Add ch a v)
  show ?thesis unfolding Add fabric_exec.simps
    by (rule fabric_inv_atomic [OF assms(1)]) (rule atomic_returns)
next
  case (Cas ch a x v)
  show ?thesis unfolding Cas fabric_exec.simps
    by (rule fabric_inv_atomic [OF assms(1)]) (rule atomic_returns)
next
  case (Exch ch a v b)
  show ?thesis unfolding Exch fabric_exec.simps
    by (rule fabric_inv_atomic [OF assms(1)]) (rule atomic_returns)
qed (use assms in \<open>auto simp: fabric_inv_def\<close>)

interpretation fab: op_machine fabric_exec fabric_safe fabric_inv fabric_start
  by unfold_locales (simp_all add: fabric_start_inv fabric_exec_inv)


section \<open>The message stream\<close>

text \<open>C11: The message queue is a byte stream: after any sequence of operations on the fabric (sends and
  receives on any channels, DMA, atomics, registrations, changes of host memory), the bytes received so
  far followed by the contents of the queue are exactly the bytes sent, in order; the queue never holds
  more than its 131072 bytes and no call ever waits for the DMA lock.\<close>

theorem fabric_byte_stream:
  assumes "fab.run_safe ops fabric_start" and "w = fab.run ops fabric_start"
  shows "w_rcvd w @ fq_cont (f_q (w_fabric w)) = w_sent w \<and> length (fq_cont (f_q (w_fabric w))) \<le> ring_size
    \<and> fabric_dma ch a b n (w_fabric w) (w_host w) \<noteq> Blocked"
proof -
  have inv: "fabric_inv w" unfolding assms(2) by (rule fab.run_inv [OF fab.init_inv assms(1)])
  then have "fabric_dma ch a b n (w_fabric w) (w_host w) \<noteq> Blocked"
    by (auto simp: fabric_inv_def fabric_dma_def split: option.splits)
  then show ?thesis using inv by (auto simp: fabric_inv_def ring.stream_def fq_ok_def)
qed

definition demo_node :: "u64 \<Rightarrow> fabric_node_info" where
  "demo_node b = \<lparr> ni_id = 0, ni_type = FABRIC_NODE_GPU, ni_base = b, ni_limit = b + 15,
     ni_bandwidth_gbs = 512, ni_latency_ns = 20 \<rparr>"

definition demo_host :: host where
  "demo_host = (\<lambda>a. if a < 64 then Some (of_nat a) else None)"

definition demo_channel :: fabric_channel where
  "demo_channel = \<lparr> ch_src_node = 0, ch_dst_node = 1, ch_flags = 12, ch_mtu = 4096, ch_bytes_tx = 0, ch_bytes_rx = 0 \<rparr>"

definition demo_ops :: "fabric_op list" where
  "demo_ops = [Host demo_host, Reg (Some (demo_node 0)), Reg (Some (demo_node 0x100)),
     Send (Some demo_channel) (Some 3) 2, Recv (Some demo_channel) (Some 40) (Some 1)]"

theorem fabric_byte_stream_witness:
  "w_rcvd (fab.run demo_ops fabric_start) @ fq_cont (f_q (w_fabric (fab.run demo_ops fabric_start))) = [3, 4]"
proof -
  have "fab.run_safe demo_ops fabric_start"
    unfolding demo_ops_def fab.run_safe.simps by (intro conjI; code_simp)
  moreover have "w_sent (fab.run demo_ops fabric_start) = [3, 4]"
    unfolding demo_ops_def fab.run.simps by code_simp
  ultimately show ?thesis by (simp only: fabric_byte_stream [OF _ refl, THEN conjunct1])
qed


section \<open>Nodes and their windows\<close>

text \<open>C33: After any sequence of operations, as long as no window is registered that ends before it starts
  or at the last address, the node table is indexed by the ids, an address lies in the window of at most one node, and
  the memory bound to a node is not larger than its window.\<close>

theorem fabric_windows_disjoint:
  assumes "fab.run_safe ops fabric_start" and "ns = f_nodes (w_fabric (fab.run ops fabric_start))"
    and "i < length ns" and "ni_base (n_info (ns ! i)) \<le> x" and "x \<le> ni_limit (n_info (ns ! i))"
  shows "length ns \<le> 64 \<and> ni_id (n_info (ns ! i)) = of_nat i
    \<and> (\<forall>j < length ns. ni_base (n_info (ns ! j)) \<le> x \<and> x \<le> ni_limit (n_info (ns ! j)) \<longrightarrow> j = i)
    \<and> unat (n_mem_len (ns ! i)) \<le> unat (ni_limit (n_info (ns ! i)) - ni_base (n_info (ns ! i))) + 1"
proof -
  have "nodes_ok ns" unfolding assms(2)
    using fab.run_inv [OF fab.init_inv assms(1)] by (simp add: fabric_inv_def)
  then have ok: "length ns \<le> 64" "node_ok i (ns ! i)"
    and ap: "\<And>j. j < length ns \<Longrightarrow> i \<noteq> j \<Longrightarrow> apart (n_info (ns ! i)) (n_info (ns ! j))"
    using assms(3) by (auto simp: nodes_ok_def)
  have "j = i" if "j < length ns" "ni_base (n_info (ns ! j)) \<le> x" "x \<le> ni_limit (n_info (ns ! j))" for j
    using ap [OF that(1)] that assms(4,5) unfolding apart_def by fastforce
  moreover have "unat (n_mem_len (ns ! i)) \<le> unat (ni_limit (n_info (ns ! i)) - ni_base (n_info (ns ! i))) + 1"
    using ok(2) by (simp add: node_ok_def unat_sub word_le_nat_alt) linarith
  ultimately show ?thesis using ok by (simp add: node_ok_def)
qed

definition demo_setup :: "fabric_op list" where
  "demo_setup = [Reg (Some (demo_node 0)), Reg (Some (demo_node 8)), Reg (Some (demo_node 0x100)), Bind 1 (Some 24) 16]"

theorem fabric_windows_disjoint_witness:
  "\<exists>ns. f_nodes (w_fabric (fab.run demo_setup fabric_start)) = ns \<and> length ns = 2 \<and> n_mem (ns ! 1) = Some 24
    \<and> \<not> (ni_base (n_info (ns ! 0)) \<le> 0x105 \<and> 0x105 \<le> ni_limit (n_info (ns ! 0)))"
proof -
  let ?ns = "f_nodes (w_fabric (fab.run demo_setup fabric_start))"
  have safe: "fab.run_safe demo_setup fabric_start"
    unfolding demo_setup_def fab.run_safe.simps by (intro conjI; code_simp)
  have ev: "length ?ns = 2 \<and> n_mem (?ns ! 1) = Some 24" "1 < length ?ns"
    "ni_base (n_info (?ns ! 1)) \<le> 0x105" "0x105 \<le> ni_limit (n_info (?ns ! 1))"
    unfolding demo_setup_def fab.run.simps by code_simp+
  have "\<forall>j < length ?ns. ni_base (n_info (?ns ! j)) \<le> 0x105 \<and> 0x105 \<le> ni_limit (n_info (?ns ! j)) \<longrightarrow> j = 1"
    using fabric_windows_disjoint [OF safe refl ev(2,3,4)] by blast
  from this [rule_format, of 0] ev(1) show ?thesis by auto
qed

section \<open>DMA\<close>

text \<open>\<open>backed n addr len m p\<close>: the range from \<open>addr\<close> lies in the memory bound to \<open>n\<close>, at host address \<open>p\<close>.\<close>

definition backed :: "fabric_node \<Rightarrow> u64 \<Rightarrow> u64 \<Rightarrow> host \<Rightarrow> nat \<Rightarrow> bool" where
  "backed n addr len m p \<longleftrightarrow> (\<exists>base. n_mem n = Some base \<and> ni_base (n_info n) \<le> addr
     \<and> p = base + (unat addr - unat (ni_base (n_info n)))
     \<and> unat addr + unat len \<le> unat (ni_base (n_info n)) + unat (n_mem_len n)
     \<and> mapped m base (unat (n_mem_len n)))"

lemma backed_translate:
  assumes "backed n addr len m p" "node_ok i n" "len \<noteq> 0"
  shows "fabric_translate n addr = Some p" "region_valid n addr len" "mapped m p (unat len)"
proof -
  let ?b = "unat (ni_base (n_info n))" and ?l = "unat (ni_limit (n_info n))" and ?k = "unat (n_mem_len n)"
  obtain base where b: "n_mem n = Some base" "?b \<le> unat addr" "p = base + (unat addr - ?b)"
    "unat addr + unat len \<le> ?b + ?k" "mapped m base ?k"
    using assms(1) by (auto simp: backed_def word_le_nat_alt)
  have ok: "?b + ?k \<le> ?l + 1" "unat (ni_limit (n_info n) + 1) = ?l + 1" "?l + 1 < 2 ^ 64"
    using assms(2) unat_plus_one [of "ni_limit (n_info n)"] unat_u64 [of "ni_limit (n_info n) + 1"]
    by (auto simp: node_ok_def)
  have len: "0 < unat len" using assms(3) by (simp add: unat_gt_0)
  have top: "unat (ni_base (n_info n) + n_mem_len n) = ?b + ?k" "unat (addr + len) = unat addr + unat len"
    using ok b by (simp_all add: unat_word_ariths)
  show "fabric_translate n addr = Some p"
    using b len top unat_sub [of "ni_base (n_info n)" addr]
    by (auto simp: fabric_translate_def word_less_nat_alt word_le_nat_alt)
  show "region_valid n addr len"
    using b len top ok by (auto simp: region_valid_def word_less_nat_alt)
  show "mapped m p (unat len)"
    unfolding b(3) by (rule mapped_sub [OF b(5)]) (use b in linarith)
qed

definition after_dma :: "fabric_node \<Rightarrow> fabric_node \<Rightarrow> u64 \<Rightarrow> fabric \<Rightarrow> fabric" where
  "after_dma a b len s = s\<lparr> f_dma_bytes := f_dma_bytes s + ucast len, f_dma_lock := False,
     f_total_latency_ns := f_total_latency_ns s + ucast (ni_latency_ns (n_info a) + ni_latency_ns (n_info b)) \<rparr>"

lemma dma_copies:
  assumes "f_init s" and "\<not> f_dma_lock s" and "len \<noteq> 0" and "ch_flags c AND 4 \<noteq> 0"
    and "node_at s (ch_src_node c) = Some a" and "node_ok i a" and "backed a sa len m p"
    and "node_at s (ch_dst_node c) = Some b" and "node_ok j b" and "backed b da len m q"
  obtains bs m' where "peek m p (unat len) = Some bs" "poke m q bs = Some m'"
    "fabric_dma (Some c) sa da len s m = Returns (Inr (int_result len), Some (c\<lparr> ch_bytes_tx := ch_bytes_tx c + len \<rparr>),
       after_dma a b len s, m')"
proof -
  note src = backed_translate [OF assms(7,6,3)] and dst = backed_translate [OF assms(10,9,3)]
  obtain bs where bs: "peek m p (unat len) = Some bs" "length bs = unat len"
    using peek_total [OF src(3)] by blast
  obtain m' where m': "poke m q bs = Some m'" using poke_total [of m q bs] dst(3) bs(2) by auto
  have "dma_copy a sa b da len m = Some m'"
    using src dst bs m' by (simp add: dma_copy_def)
  then show ?thesis
    using that [OF bs(1) m'] assms src(2) dst(2) by (simp add: fabric_dma_def after_dma_def)
qed

text \<open>C27: On a channel with the DMA flag, between two registered nodes whose bound memory covers both ranges, a
  transfer returns, the bytes at the destination become what the bytes at the source were (also when the
  ranges overlap), no other byte of the host memory changes and the lock is free again.\<close>

theorem fabric_dma_moves:
  assumes "f_init s" and "\<not> f_dma_lock s" and "len \<noteq> 0" and "ch_flags c AND 4 \<noteq> 0"
    and "node_at s (ch_src_node c) = Some a" and "node_ok i a" and "backed a sa len m p"
    and "node_at s (ch_dst_node c) = Some b" and "node_ok j b" and "backed b da len m q"
  shows "\<exists>bs c' s' m'. fabric_dma (Some c) sa da len s m = Returns (Inr (int_result len), Some c', s', m')
    \<and> peek m p (unat len) = Some bs \<and> peek m' q (unat len) = Some bs
    \<and> (\<forall>x. x < q \<or> q + unat len \<le> x \<longrightarrow> m' x = m x) \<and> \<not> f_dma_lock s'
    \<and> ch_bytes_tx c' = ch_bytes_tx c + len \<and> f_nodes s' = f_nodes s"
proof -
  obtain bs m' where m': "peek m p (unat len) = Some bs" "poke m q bs = Some m'"
    "fabric_dma (Some c) sa da len s m = Returns (Inr (int_result len), Some (c\<lparr> ch_bytes_tx := ch_bytes_tx c + len \<rparr>),
       after_dma a b len s, m')"
    by (rule dma_copies [OF assms])
  then show ?thesis
    using peek_poke [OF m'(2)] poke_outside [OF m'(2)] peek_length [OF m'(1)] by (simp add: after_dma_def)
qed

definition demo_fabric :: fabric where
  "demo_fabric = (snd fabric_init)\<lparr> f_nodes :=
    [\<lparr> n_info = (demo_node 0)\<lparr> ni_id := 0 \<rparr>, n_registered = True, n_mem = Some 8, n_mem_len = 16 \<rparr>,
     \<lparr> n_info = (demo_node 0x100)\<lparr> ni_id := 1 \<rparr>, n_registered = True, n_mem = Some 24, n_mem_len = 16 \<rparr>] \<rparr>"

lemma demo_mapped: "a + n \<le> 64 \<Longrightarrow> mapped demo_host a n"
  by (simp add: mapped_def demo_host_def)

theorem fabric_dma_moves_witness:
  "\<exists>c' s' m'. fabric_dma (Some demo_channel) 2 0x104 3 demo_fabric demo_host = Returns (Inr 3, Some c', s', m')
     \<and> peek m' 28 3 = Some [10, 11, 12] \<and> m' 31 = Some 31"
proof -
  let ?a = "f_nodes demo_fabric ! 0" and ?b = "f_nodes demo_fabric ! 1"
  have n: "node_at demo_fabric 0 = Some ?a" "node_at demo_fabric 1 = Some ?b" "node_ok 0 ?a" "node_ok 1 ?b"
    by (simp_all add: node_at_def demo_fabric_def node_ok_def demo_node_def)
  have b: "backed ?a 2 3 demo_host 10" "backed ?b 0x104 3 demo_host 28"
    using demo_mapped by (simp_all add: backed_def demo_fabric_def demo_node_def)
  have i: "f_init demo_fabric" "\<not> f_dma_lock demo_fabric" "int_result 3 = 3"
    by (simp_all add: demo_fabric_def fabric_init_def int_result_def)
  have c: "ch_flags demo_channel AND 4 \<noteq> 0" "node_at demo_fabric (ch_src_node demo_channel) = Some ?a"
    "node_at demo_fabric (ch_dst_node demo_channel) = Some ?b" "(3 :: u64) \<noteq> 0"
    using n by (simp_all add: demo_channel_def)
  have p: "peek demo_host 10 3 = Some [10, 11, 12]" "demo_host 31 = Some 31" by code_simp+
  obtain bs c' s' m' where r: "fabric_dma (Some demo_channel) 2 0x104 3 demo_fabric demo_host = Returns (Inr (int_result 3), Some c', s', m')"
    "peek demo_host 10 (unat (3 :: u64)) = Some bs" "peek m' 28 (unat (3 :: u64)) = Some bs"
    "\<forall>x. x < 28 \<or> 28 + unat (3 :: u64) \<le> x \<longrightarrow> m' x = demo_host x"
    using fabric_dma_moves [OF i(1,2) c(4,1,2) n(3) b(1) c(3) n(4) b(2)] by blast
  have three: "unat (3 :: u64) = 3" by simp
  have "m' 31 = demo_host 31" using r(4) three by simp
  then show ?thesis using r(1-3) p i(3) unfolding three by simp
qed


text \<open>The check of a transfer is against the declared window of a node, the copy is in the memory bound to
  it, which may be shorter: when a range starts inside the bound memory and ends behind it, the transfer
  is not refused; with nothing allocated behind the bound memory it is undefined behaviour.\<close>

theorem fabric_dma_past_binding:
  assumes "f_init s" and "\<not> f_dma_lock s" and "len \<noteq> 0" and "ch_flags c AND 4 \<noteq> 0"
    and "node_at s (ch_src_node c) = Some a" and "region_valid a sa len" and "fabric_translate a sa = Some p"
    and "node_at s (ch_dst_node c) = Some b" and "region_valid b da len" and "fabric_translate b da \<noteq> None"
    and "n_mem a = Some base" and "base + unat (n_mem_len a) < p + unat len" and "m (base + unat (n_mem_len a)) = None"
    and "p \<le> base + unat (n_mem_len a)"
  shows "fabric_dma (Some c) sa da len s m = Undefined"
proof -
  have "\<not> mapped m p (unat len)"
    using assms(12,13,14) unfolding mapped_def by (metis le_add_diff_inverse less_diff_conv2 add.commute nat_add_left_cancel_less)
  then have "peek m p (unat len) = None" by (simp add: peek_eq)
  then have "dma_copy a sa b da len m = None"
    using assms(7,10) by (auto simp: dma_copy_def)
  then show ?thesis using assms by (simp add: fabric_dma_def)
qed

text \<open>A window of 16 addresses with 8 bytes of memory behind it.\<close>

definition short_fabric :: fabric where
  "short_fabric = demo_fabric\<lparr> f_nodes := (f_nodes demo_fabric)[0 := (f_nodes demo_fabric ! 0)\<lparr> n_mem := Some 56, n_mem_len := 8 \<rparr>] \<rparr>"

theorem fabric_dma_past_binding_witness:
  "fabric_dma (Some demo_channel) 6 0x104 4 short_fabric demo_host = Undefined"
proof -
  let ?a = "f_nodes short_fabric ! 0" and ?b = "f_nodes short_fabric ! 1"
  show ?thesis
    by (rule fabric_dma_past_binding [where a = ?a and b = ?b and p = 62 and base = 56])
      (simp_all add: short_fabric_def demo_fabric_def demo_channel_def demo_node_def demo_host_def fabric_init_def
        node_at_def region_valid_def fabric_translate_def)
qed

section \<open>Atomics\<close>

lemma exchange_n_eq:
  assumes "mapped m p 8"
  obtains old m' where "peek64 m p = Some old" "poke64 m p v = Some m'" "exchange_n m p v = Some (old, m')"
  using peek64_total [OF assms] poke64_total [OF assms, of v] by (auto simp: exchange_n_def)

lemma exchange_back:
  assumes "peek64 m p = Some old" "poke64 m p v = Some m'"
  shows "exchange_n m' p old = Some (v, m)"
  using assms by (simp add: exchange_n_def peek64_poke64 [OF assms(2)] poke64_poke64 [OF assms(2)] poke64_peek64)

text \<open>With no other thread, \<open>fabric_atomic_cas\<close> is a compare-and-swap of the 64-bit word: it reports the old
  value, stores the new one and returns 0 when the old value is the expected one, and otherwise leaves
  the memory as it was and returns 1.\<close>

theorem fabric_cas_spec:
  assumes "atomic_target ch addr s = Returns (Inr p)" and "mapped m p 8"
  shows "\<exists>old m'. peek64 m p = Some old \<and> poke64 m p desired = Some m' \<and>
    fabric_atomic_cas ch addr expected desired s m =
      (if old = expected then Returns (Inr (0, old), count_atomic s, m') else Returns (Inr (1, old), s, m))"
proof -
  obtain old m' where m: "peek64 m p = Some old" "poke64 m p desired = Some m'" "exchange_n m p desired = Some (old, m')"
    using exchange_n_eq [OF assms(2)] by blast
  then show ?thesis
    using assms(1) exchange_back [OF m(1,2)] by (simp add: fabric_atomic_cas_def cas_finish_def)
qed

lemma demo_target: "atomic_target (Some demo_channel) 0x100 demo_fabric = Returns (Inr 24)"
  by (simp add: atomic_target_def demo_fabric_def demo_channel_def demo_node_def fabric_init_def node_at_def
      region_valid_def fabric_translate_def fabric_atomic_ref_def node_valid_def)

theorem fabric_cas_spec_witness:
  "\<exists>old s' m'. peek64 demo_host 24 = Some old \<and>
     fabric_atomic_cas (Some demo_channel) 0x100 0x1F1E1D1C1B1A1918 5 demo_fabric demo_host = Returns (Inr (0, old), s', m')"
proof -
  have "peek64 demo_host 24 = Some 0x1F1E1D1C1B1A1918" by code_simp
  then show ?thesis
    using fabric_cas_spec [OF demo_target demo_mapped [of 24 8], of 5 "0x1F1E1D1C1B1A1918"] by auto
qed

text \<open>With another thread it is not: when an atomic addition on the same word runs between the two memory
  accesses of a compare-and-swap that fails, the roll back restores the old word, and the addition,
  which has returned success, is lost.\<close>

theorem fabric_cas_loses_add:
  assumes "atomic_target ch addr s = Returns (Inr p)" and "exchange_n m p desired = Some (old, m1)"
    and "old \<noteq> expected" and "fabric_atomic_add ch addr v s m1 = Returns (Inr 0, s2, m2)"
  shows "cas_finish p expected old s2 m2 = Returns (Inr (1, old), s2, m)"
proof -
  have m1: "peek64 m p = Some old" "poke64 m p desired = Some m1"
    using assms(2) by (auto simp: exchange_n_def split: option.splits)
  have "poke64 m1 p (desired + v) = Some m2"
    using assms(1,4) peek64_poke64 [OF m1(2)] by (auto simp: fabric_atomic_add_def split: option.splits)
  then have "poke64 m p (desired + v) = Some m2"
    using poke64_poke64 [OF m1(2)] by simp
  then show ?thesis
    using exchange_back [OF m1(1)] assms(3) by (simp add: cas_finish_def)
qed

theorem fabric_cas_loses_add_witness:
  "\<exists>old m1 s2 m2. exchange_n demo_host 24 5 = Some (old, m1) \<and>
     fabric_atomic_add (Some demo_channel) 0x100 7 demo_fabric m1 = Returns (Inr 0, s2, m2) \<and>
     cas_finish 24 9 old s2 m2 = Returns (Inr (1, old), s2, demo_host)"
proof -
  obtain old m1 where e: "peek64 demo_host 24 = Some old" "poke64 demo_host 24 5 = Some m1"
    "exchange_n demo_host 24 5 = Some (old, m1)"
    using exchange_n_eq [OF demo_mapped [of 24 8]] by auto
  have old: "peek64 demo_host 24 = Some 0x1F1E1D1C1B1A1918" by code_simp
  then have ne: "old \<noteq> 9" using e(1) by simp
  obtain m2 where m2: "poke64 m1 24 12 = Some m2"
    using poke64_poke64 [OF e(2), of 12] poke64_total [OF demo_mapped [of 24 8], of 12] by auto
  have add: "fabric_atomic_add (Some demo_channel) 0x100 7 demo_fabric m1 = Returns (Inr 0, count_atomic demo_fabric, m2)"
    using m2 peek64_poke64 [OF e(2)] by (simp add: fabric_atomic_add_def demo_target)
  show ?thesis using e(3) add fabric_cas_loses_add [OF demo_target e(3) ne add] by blast
qed

end
