(* ===== verification/BvcommProps.thy ===== *)
theory BvcommProps
  imports Bvcomm FabricProps
begin

text \<open>
  Properties of the collectives: what the ring computes, on every rank, from the inputs of all ranks.
  The bytes that the transfers and the local loops move are described first, then the words, then the
  chunks that travel around the ring.
\<close>

section \<open>Words in host memory\<close>

definition word_at :: "host \<Rightarrow> nat \<Rightarrow> u32" where
  "word_at m a = le_word32 (map (\<lambda>i. the (m (a + i))) [0..<4])"

lemma peek32_eq: "mapped m a 4 \<Longrightarrow> peek32 m a = Some (word_at m a)"
  by (simp add: peek32_def peek_eq word_at_def)

lemma word_at_cong: "(\<And>i. i < 4 \<Longrightarrow> m (a + i) = m' (b + i)) \<Longrightarrow> word_at m a = word_at m' b"
  unfolding word_at_def by (rule arg_cong [of _ _ le_word32], rule map_cong) auto

lemma poke32_ok:
  assumes "mapped m a 4"
  obtains m' where "poke32 m a v = Some m'" "word_at m' a = v" "\<And>x. x < a \<or> a + 4 \<le> x \<Longrightarrow> m' x = m x"
    "\<And>x. m' x = None \<longleftrightarrow> m x = None"
proof -
  obtain m' where m': "poke m a (le_bytes32 v) = Some m'"
    using poke_total [of m a "le_bytes32 v"] assms by auto
  have "peek m' a 4 = Some (le_bytes32 v)" using peek_poke [OF m'] by simp
  then have "map (\<lambda>i. the (m' (a + i))) [0..<4] = le_bytes32 v" by (metis peek_eq option.inject option.distinct(1))
  then have "word_at m' a = v"
    using c32.dec_enc [of v "[]"] by (simp only: word_at_def append_Nil2)
  then show ?thesis
    using that [of m'] m' poke_outside [OF m'] poke_dom [OF m'] by (simp add: poke32_def)
qed

section \<open>Local loops\<close>

text \<open>What the local loops have in common: they rewrite \<open>k\<close> words at \<open>dst\<close> from themselves and the inbox.\<close>

definition works_in :: "(u32 \<Rightarrow> u32 \<Rightarrow> u32) \<Rightarrow> (host \<Rightarrow> host option) \<Rightarrow> nat \<Rightarrow> nat \<Rightarrow> nat \<Rightarrow> host \<Rightarrow> bool" where
  "works_in F g dst inbox k m \<longleftrightarrow> (\<exists>m'. g m = Some m' \<and> (\<forall>x. m' x = None \<longleftrightarrow> m x = None)
     \<and> (\<forall>x. x < dst \<or> dst + 4 * k \<le> x \<longrightarrow> m' x = m x)
     \<and> (\<forall>j < k. word_at m' (dst + 4 * j) = F (word_at m (dst + 4 * j)) (word_at m (inbox + 4 * j))))"

lemma add_words_works:
  assumes "mapped m dst (4 * k)" "mapped m inbox (4 * k)" "dst + 4 * k \<le> inbox \<or> inbox + 4 * k \<le> dst"
    and "dst mod 4 = 0" "inbox mod 4 = 0"
  shows "works_in (f32_add fp) (add_words fp dst inbox k) dst inbox k m"
proof -
  let ?I = "\<lambda>i t. (\<forall>x. t x = None \<longleftrightarrow> m x = None) \<and> (\<forall>x. x < dst \<or> dst + 4 * i \<le> x \<longrightarrow> t x = m x)
    \<and> (\<forall>j < i. word_at t (dst + 4 * j) = f32_add fp (word_at m (dst + 4 * j)) (word_at m (inbox + 4 * j)))"
  have "\<exists>t. run_each (add_word fp dst inbox) [0..<k] m = Some t \<and> ?I k t"
  proof (rule run_each_upto [where I = ?I])
    fix i t assume i: "i < k" and I: "?I i t"
    have I1: "t x = None \<longleftrightarrow> m x = None" for x using I by blast
    have out: "t x = m x" if "x < dst \<or> dst + 4 * i \<le> x" for x using I that by blast
    have I3: "word_at t (dst + 4 * j) = f32_add fp (word_at m (dst + 4 * j)) (word_at m (inbox + 4 * j))" if "j < i" for j
      using I that by blast
    have dom: "mapped t a n = mapped m a n" for a n unfolding mapped_def by (simp only: I1)
    have ma: "mapped t (dst + 4 * i) 4" "mapped t (inbox + 4 * i) 4"
      unfolding dom by (rule mapped_sub [OF assms(1)], use i in linarith) (rule mapped_sub [OF assms(2)], use i in linarith)
    have same: "word_at t (dst + 4 * i) = word_at m (dst + 4 * i)" "word_at t (inbox + 4 * i) = word_at m (inbox + 4 * i)"
      using assms(3) i by (intro word_at_cong out; linarith)+
    obtain t' where t': "poke32 t (dst + 4 * i) (f32_add fp (word_at m (dst + 4 * i)) (word_at m (inbox + 4 * i))) = Some t'"
      "word_at t' (dst + 4 * i) = f32_add fp (word_at m (dst + 4 * i)) (word_at m (inbox + 4 * i))"
      "\<And>x. x < dst + 4 * i \<or> dst + 4 * i + 4 \<le> x \<Longrightarrow> t' x = t x" "\<And>x. t' x = None \<longleftrightarrow> t x = None"
      by (rule poke32_ok [OF ma(1)]) blast
    have w: "add_word fp dst inbox i t = Some t'"
      using ma t'(1) same by (simp add: add_word_def peek32_eq)
    have old: "word_at t' (dst + 4 * j) = word_at t (dst + 4 * j)" if "j < i" for j
      using that by (intro word_at_cong t'(3)) auto
    have "\<forall>j < Suc i. word_at t' (dst + 4 * j) = f32_add fp (word_at m (dst + 4 * j)) (word_at m (inbox + 4 * j))"
      using I3 old t'(2) by (simp add: less_Suc_eq)
    moreover have "\<forall>x. x < dst \<or> dst + 4 * Suc i \<le> x \<longrightarrow> t' x = m x"
    proof (intro allI impI)
      fix x assume "x < dst \<or> dst + 4 * Suc i \<le> x"
      then have "x < dst + 4 * i \<or> dst + 4 * i + 4 \<le> x" "x < dst \<or> dst + 4 * i \<le> x" by auto
      then show "t' x = m x" using t'(3) [of x] out [of x] by simp
    qed
    ultimately show "\<exists>t'. add_word fp dst inbox i t = Some t' \<and> ?I (Suc i) t'"
      using w t'(4) I1 by simp
  qed simp
  then obtain t where "run_each (add_word fp dst inbox) [0..<k] m = Some t" "?I k t" by blast
  then show ?thesis using assms(4,5) unfolding works_in_def add_words_def by (intro exI [of _ t]) simp
qed

lemma memcpy_works:
  assumes "mapped m dst (4 * k)" "mapped m inbox (4 * k)" "dst + 4 * k \<le> inbox \<or> inbox + 4 * k \<le> dst"
  shows "works_in (\<lambda>a b. b) (host_memcpy dst inbox (4 * k)) dst inbox k m"
proof -
  obtain bs where bs: "peek m inbox (4 * k) = Some bs" "length bs = 4 * k"
    using peek_total [OF assms(2)] by blast
  obtain m' where m': "poke m dst bs = Some m'" using poke_total [of m dst bs] assms(1) bs(2) by auto
  have "m' (dst + i) = m (inbox + i)" if "i < 4 * k" for i
  proof -
    have "m' (dst + i) = Some (bs ! i)" using m' bs(2) that by (auto simp: poke_eq split: if_splits)
    also have "\<dots> = m (inbox + i)" using bs(1) assms(2) that by (auto simp: peek_eq mapped_def)
    finally show ?thesis .
  qed
  then have "word_at m' (dst + 4 * j) = word_at m (inbox + 4 * j)" if "j < k" for j
    using that by (intro word_at_cong) (simp add: add.assoc)
  then show ?thesis
    using bs m' assms(3) poke_outside [OF m'] poke_dom [OF m']
    by (auto simp: works_in_def host_memcpy_def)
qed

section \<open>Worlds\<close>

text \<open>
  A world of \<open>n\<close> ranks with memories at \<open>adr\<close>, buffers of \<open>B\<close> and inboxes of \<open>S\<close> bytes, as \<open>bvcomm_init\<close>
  builds it: node \<open>r\<close> is bound to the memory of rank \<open>r\<close>, memories are disjoint, all channels may do DMA.
\<close>

definition rank_ok :: "nat \<Rightarrow> (nat \<Rightarrow> nat) \<Rightarrow> nat \<Rightarrow> comm \<Rightarrow> nat \<Rightarrow> bool" where
  "rank_ok n adr W c r \<longleftrightarrow> bw_mem (cm_w c) r = Some (adr r) \<and> bw_base (cm_w c) r = of_nat r * 0x100000000
     \<and> mapped (cm_m c) (adr r) W
     \<and> (\<exists>x. node_at (cm_f c) (of_nat r) = Some x \<and> node_ok r x \<and> ni_base (n_info x) = of_nat r * 0x100000000
          \<and> n_mem x = Some (adr r) \<and> unat (n_mem_len x) = W)
     \<and> (\<forall>d < n. ch_src_node (bw_ch (cm_w c) r d) = of_nat r \<and> ch_dst_node (bw_ch (cm_w c) r d) = of_nat d
          \<and> ch_flags (bw_ch (cm_w c) r d) AND 4 \<noteq> 0)"

definition separate :: "nat \<Rightarrow> (nat \<Rightarrow> nat) \<Rightarrow> nat \<Rightarrow> bool" where
  "separate n adr W \<longleftrightarrow> (\<forall>r < n. \<forall>q < n. r \<noteq> q \<longrightarrow> adr r + W \<le> adr q \<or> adr q + W \<le> adr r)"

definition comm_ok :: "nat \<Rightarrow> (nat \<Rightarrow> nat) \<Rightarrow> u64 \<Rightarrow> u64 \<Rightarrow> comm \<Rightarrow> bool" where
  "comm_ok n adr B S c \<longleftrightarrow> 1 \<le> n \<and> n \<le> 64 \<and> bw_nranks (cm_w c) = int n \<and> bw_buf_bytes (cm_w c) = B
     \<and> bw_scratch_bytes (cm_w c) = S \<and> unat B + unat S < 2 ^ 32 \<and> f_init (cm_f c) \<and> \<not> f_dma_lock (cm_f c)
     \<and> separate n adr (unat B + unat S) \<and> (\<forall>r < n. rank_ok n adr (unat B + unat S) c r)"

lemma separate_neq:
  "separate n adr W \<Longrightarrow> r < n \<Longrightarrow> q < n \<Longrightarrow> r \<noteq> q \<Longrightarrow> i < W \<Longrightarrow> j < W \<Longrightarrow> adr r + i \<noteq> adr q + j"
  unfolding separate_def by fastforce

lemma window_base:
  assumes "r < 64" "unat off < 2 ^ 32"
  shows "unat ((of_nat r * 0x100000000 :: u64) + off) = r * 2 ^ 32 + unat off"
    and "unat (of_nat r * 0x100000000 :: u64) = r * 2 ^ 32"
proof -
  have "r * 2 ^ 32 \<le> 63 * 2 ^ 32" using assms(1) by simp
  then have b: "r * 2 ^ 32 + unat off < 2 ^ 64" "r * 2 ^ 32 < 2 ^ 64" using assms(2) by simp_all
  have eq: "(of_nat r * 0x100000000 :: u64) = of_nat (r * 2 ^ 32)" by simp
  show u: "unat (of_nat r * 0x100000000 :: u64) = r * 2 ^ 32"
    unfolding eq unsigned_of_nat take_bit_eq_mod of_nat_id by (rule mod_less) (use b(2) in simp)
  show "unat ((of_nat r * 0x100000000 :: u64) + off) = r * 2 ^ 32 + unat off"
    using b by (subst unat_add_lem [THEN iffD1]) (simp_all only: u, simp)
qed

lemma rank_backed:
  assumes "comm_ok n adr B S c" "r < n" "unat off + unat len \<le> unat B + unat S"
  obtains x where "node_at (cm_f c) (of_nat r) = Some x" "node_ok r x"
    "backed x (bw_base (cm_w c) r + off) len (cm_m c) (adr r + unat off)"
proof -
  have ok: "rank_ok n adr (unat B + unat S) c r" "n \<le> 64" "unat B + unat S < 2 ^ 32"
    using assms by (auto simp: comm_ok_def)
  then obtain x where x: "node_at (cm_f c) (of_nat r) = Some x" "node_ok r x" "ni_base (n_info x) = of_nat r * 0x100000000"
    "n_mem x = Some (adr r)" "unat (n_mem_len x) = unat B + unat S"
    by (auto simp: rank_ok_def)
  have r: "r < 64" using assms(2) ok(2) by simp
  have off: "unat off < 2 ^ 32" using assms(3) ok(3) by linarith
  note w = window_base [OF r off]
  have "backed x (bw_base (cm_w c) r + off) len (cm_m c) (adr r + unat off)"
    unfolding backed_def using x ok(1) assms(3) w by (auto simp: rank_ok_def word_le_nat_alt)
  then show ?thesis using that x by blast
qed

text \<open>A transfer between ranks copies bytes and keeps the world.\<close>

definition copied :: "nat \<Rightarrow> nat \<Rightarrow> nat \<Rightarrow> host \<Rightarrow> host \<Rightarrow> bool" where
  "copied dst src k m m' \<longleftrightarrow> (\<forall>a. m' a = (if dst \<le> a \<and> a < dst + k then m (src + (a - dst)) else m a))"

lemma copied_at: "copied dst src k m m' \<Longrightarrow> i < k \<Longrightarrow> m' (dst + i) = m (src + i)"
  by (simp add: copied_def)

lemma copied_out: "copied dst src k m m' \<Longrightarrow> \<not> (dst \<le> a \<and> a < dst + k) \<Longrightarrow> m' a = m a"
  unfolding copied_def by metis

lemma peek_poke_copied:
  assumes "peek m src k = Some bs" "poke m dst bs = Some m'"
  shows "copied dst src k m m'"
proof -
  have k: "length bs = k" using peek_length [OF assms(1)] .
  have b: "Some (bs ! i) = m (src + i)" if "i < k" for i
    using assms(1) that by (auto simp: peek_eq mapped_def split: if_splits)
  show ?thesis unfolding copied_def
    using assms(2) k b by (auto simp: poke_eq split: if_splits)
qed

lemma rank_ok_dom:
  "rank_ok n adr W c r \<Longrightarrow> (\<And>x. m x = None \<longleftrightarrow> cm_m c x = None) \<Longrightarrow> rank_ok n adr W (c\<lparr> cm_m := m \<rparr>) r"
  unfolding rank_ok_def by (auto simp: mapped_def)

lemma comm_ok_mem:
  "comm_ok n adr B S c \<Longrightarrow> (\<And>x. m x = None \<longleftrightarrow> cm_m c x = None) \<Longrightarrow> comm_ok n adr B S (c\<lparr> cm_m := m \<rparr>)"
  unfolding comm_ok_def using rank_ok_dom by auto

lemma dma_between_ok:
  assumes ok: "comm_ok n adr B S c" and sd: "s < n" "d < n" and len: "len \<noteq> 0"
    and fit: "unat so + unat len \<le> unat B + unat S" "unat dof + unat len \<le> unat B + unat S"
  shows "\<exists>c'. dma_between s d so dof len c = Some c' \<and> comm_ok n adr B S c'
    \<and> copied (adr d + unat dof) (adr s + unat so) (unat len) (cm_m c) (cm_m c')"
proof -
  let ?w = "cm_w c" and ?ch = "bw_ch (cm_w c) s d"
  obtain x where x: "node_at (cm_f c) (of_nat s) = Some x" "node_ok s x"
    "backed x (bw_base ?w s + so) len (cm_m c) (adr s + unat so)"
    by (rule rank_backed [OF ok sd(1) fit(1)])
  obtain y where y: "node_at (cm_f c) (of_nat d) = Some y" "node_ok d y"
    "backed y (bw_base ?w d + dof) len (cm_m c) (adr d + unat dof)"
    by (rule rank_backed [OF ok sd(2) fit(2)])
  have f: "f_init (cm_f c)" "\<not> f_dma_lock (cm_f c)" using ok by (auto simp: comm_ok_def)
  have "rank_ok n adr (unat B + unat S) c s" using ok sd(1) by (simp add: comm_ok_def)
  then have ch: "ch_src_node ?ch = of_nat s" "ch_dst_node ?ch = of_nat d" "ch_flags ?ch AND 4 \<noteq> 0"
    using sd(2) by (auto simp: rank_ok_def)
  obtain bs m' where r: "peek (cm_m c) (adr s + unat so) (unat len) = Some bs" "poke (cm_m c) (adr d + unat dof) bs = Some m'"
    "fabric_dma (Some ?ch) (bw_base ?w s + so) (bw_base ?w d + dof) len (cm_f c) (cm_m c)
      = Returns (Inr (int_result len), Some (?ch\<lparr> ch_bytes_tx := ch_bytes_tx ?ch + len \<rparr>), after_dma x y len (cm_f c), m')"
    using dma_copies [OF f len ch(3) _ x(2,3) _ y(2,3)] x(1) y(1) ch(1,2) by metis
  let ?c' = "\<lparr> cm_w = ?w\<lparr> bw_ch := (bw_ch ?w)(s := (bw_ch ?w s)(d := ?ch\<lparr> ch_bytes_tx := ch_bytes_tx ?ch + len \<rparr>)) \<rparr>,
    cm_f = after_dma x y len (cm_f c), cm_m = m' \<rparr>"
  have "dma_between s d so dof len c = Some ?c'" by (simp add: dma_between_def r(3) Let_def)
  moreover have "comm_ok n adr B S ?c'"
    using ok ch poke_dom [OF r(2)]
    by (auto simp: comm_ok_def rank_ok_def after_dma_def node_at_def mapped_def)
  ultimately show ?thesis using peek_poke_copied [OF r(1,2)] by auto
qed

section \<open>Chunks\<close>

definition border :: "nat \<Rightarrow> nat \<Rightarrow> nat \<Rightarrow> nat" where
  "border cnt n i = i * (cnt div n) + min i (cnt mod n)"

lemma border_ends: "0 < n \<Longrightarrow> border cnt n 0 = 0 \<and> border cnt n n = cnt"
  by (simp add: border_def min_absorb2 less_imp_le)

lemma border_Suc: "border cnt n (Suc i) = border cnt n i + cnt div n + (if i < cnt mod n then 1 else 0)"
  by (simp add: border_def min_def)

lemma border_mono: "i \<le> j \<Longrightarrow> border cnt n i \<le> border cnt n j"
  by (rule lift_Suc_mono_le [of "border cnt n"]) (simp_all add: border_Suc)

lemma border_le: "0 < n \<Longrightarrow> i \<le> n \<Longrightarrow> border cnt n i \<le> cnt"
  using border_mono [of i n cnt n] border_ends [of n cnt] by simp

lemma unat_small: "k < 2 ^ 64 \<Longrightarrow> unat (of_nat k :: u64) = k"
  by (simp add: unsigned_of_nat take_bit_eq_mod)

lemma chunk_offsets_eq:
  assumes "0 < n" "n \<le> 64"
  shows "chunk_offsets count n = map (\<lambda>i. of_nat (border (unat count) n i)) [0..<Suc n]"
proof -
  let ?f = "\<lambda>out i. out @ [last out + count div of_nat n + (if of_nat i < count mod of_nat n then 1 else 0)]"
  have un: "unat (of_nat n :: u64) = n" using assms by (intro unat_small) simp
  have base: "count div of_nat n = of_nat (unat count div n)"
    by (simp add: word_arith_nat_div un)
  have rem: "of_nat i < count mod of_nat n \<longleftrightarrow> i < unat count mod n" if "i < n" for i
  proof -
    have "unat (of_nat i :: u64) = i" using assms that by (intro unat_small) simp
    then show ?thesis by (simp add: word_less_nat_alt unat_mod un)
  qed
  have "k \<le> n \<Longrightarrow> foldl ?f [0] [0..<k] = map (\<lambda>i. of_nat (border (unat count) n i)) [0..<Suc k]" for k
  proof (induction k)
    case 0
    then show ?case by (simp add: border_def)
  next
    case (Suc k)
    then have "k < n" by simp
    then show ?case using Suc by (simp add: base rem border_Suc)
  qed
  then show ?thesis by (simp add: chunk_offsets_def Let_def)
qed

text \<open>What the ring needs of the region, the inbox and the chunk borders.\<close>

definition ring_fit :: "nat \<Rightarrow> u64 \<Rightarrow> u64 \<Rightarrow> u64 \<Rightarrow> u64 list \<Rightarrow> nat \<Rightarrow> bool" where
  "ring_fit n B S off cs cnt \<longleftrightarrow> 2 \<le> n \<and> n \<le> 64 \<and> unat B + unat S < 2 ^ 32 \<and> 4 * (unat off + cnt) \<le> unat B
     \<and> (\<forall>q \<le> n. unat (cs ! q) = border cnt n q) \<and> (\<forall>q < n. 4 * (border cnt n (Suc q) - border cnt n q) \<le> unat S)"

abbreviation clen :: "nat \<Rightarrow> nat \<Rightarrow> nat \<Rightarrow> nat" where
  "clen cnt n q \<equiv> border cnt n (Suc q) - border cnt n q"

lemma ring_fit_chunk:
  assumes "ring_fit n B S off cs cnt" "q < n"
  shows "unat (chunk_len cs q) = 4 * clen cnt n q" "chunk_len cs q = 0 \<longleftrightarrow> clen cnt n q = 0"
    "unat ((off + cs ! q) * 4) = 4 * (unat off + border cnt n q)"
    "unat off * 4 + 4 * border cnt n q + 4 * clen cnt n q \<le> unat B"
    "4 * clen cnt n q \<le> unat S" "unat B + unat S < 2 ^ 32"
proof -
  have c: "unat (cs ! q) = border cnt n q" "unat (cs ! Suc q) = border cnt n (Suc q)" "2 \<le> n"
    "unat B + unat S < 2 ^ 32" "4 * (unat off + cnt) \<le> unat B"
    using assms by (auto simp: ring_fit_def)
  have le: "border cnt n q \<le> border cnt n (Suc q)" "border cnt n (Suc q) \<le> cnt"
    using border_mono [of q "Suc q"] border_le [of n "Suc q"] assms(2) c(3) by auto
  have sub: "unat (cs ! Suc q - cs ! q) = clen cnt n q"
    using c le by (subst unat_sub) (simp_all add: word_le_nat_alt)
  have four: "unat (4 :: u64) = 4" by simp
  show l: "unat (chunk_len cs q) = 4 * clen cnt n q"
    unfolding chunk_len_def unat_word_ariths sub four using le c(4,5) by (simp add: mult.commute)
  show "chunk_len cs q = 0 \<longleftrightarrow> clen cnt n q = 0"
    by (simp only: unsigned_eq_0_iff [symmetric, where ?'a = nat] l) simp
  have s: "unat (off + cs ! q) = unat off + border cnt n q"
    unfolding unat_word_ariths using c le by simp
  show "unat ((off + cs ! q) * 4) = 4 * (unat off + border cnt n q)"
  proof -
    have "unat ((off + cs ! q) * 4) = unat (off + cs ! q) * unat (4 :: u64)"
      by (rule unat_mult_lem [THEN iffD1]) (use s four c le in simp)
    then show ?thesis using s four by simp
  qed
  show "unat off * 4 + 4 * border cnt n q + 4 * clen cnt n q \<le> unat B"
  proof -
    define d where "d = clen cnt n q"
    have "border cnt n q + d = border cnt n (Suc q)" using le by (simp add: d_def)
    then have "4 * (unat off + (border cnt n q + d)) \<le> 4 * (unat off + cnt)" using le(2) by simp
    then show ?thesis using c(5) unfolding d_def [symmetric] by simp
  qed
  show "4 * clen cnt n q \<le> unat S" "unat B + unat S < 2 ^ 32" using assms by (auto simp: ring_fit_def)
qed

section \<open>A step of the ring\<close>

definition in_inbox :: "nat \<Rightarrow> (nat \<Rightarrow> nat) \<Rightarrow> u64 \<Rightarrow> u64 \<Rightarrow> nat \<Rightarrow> bool" where
  "in_inbox n adr B S a \<longleftrightarrow> (\<exists>r < n. adr r + unat B \<le> a \<and> a < adr r + unat B + unat S)"

lemma not_in_inbox:
  assumes "separate n adr (unat B + unat S)" "r < n" "i < unat B"
  shows "\<not> in_inbox n adr B S (adr r + i)"
proof
  assume "in_inbox n adr B S (adr r + i)"
  then obtain q where q: "q < n" "adr q + unat B \<le> adr r + i" "adr r + i < adr q + unat B + unat S"
    by (auto simp: in_inbox_def)
  show False
  proof (cases "q = r")
    case True
    then show ?thesis using q assms(3) by simp
  next
    case False
    have "adr r + i - adr q < unat B + unat S" "adr r + i = adr q + (adr r + i - adr q)" "i < unat B + unat S"
      using q assms(3) by linarith+
    then show ?thesis
      using separate_neq [OF assms(1) assms(2) q(1), of i "adr r + i - adr q"] False by metis
  qed
qed

lemma inboxes_apart:
  assumes "separate n adr (b + k)" "r < n" "q < n" "r \<noteq> q" "i < k"
  shows "\<not> (adr q + b \<le> adr r + (b + i) \<and> adr r + (b + i) < adr q + b + k)"
proof
  assume a: "adr q + b \<le> adr r + (b + i) \<and> adr r + (b + i) < adr q + b + k"
  then have "adr r + (b + i) - adr q < b + k" "adr r + (b + i) = adr q + (adr r + (b + i) - adr q)" "b + i < b + k"
    using assms(5) by linarith+
  then show False
    using separate_neq [OF assms(1-4), of "b + i" "adr r + (b + i) - adr q"] by metis
qed

lemma ring_send_phase:
  assumes ok: "comm_ok n adr B S c" and fit: "ring_fit n B S off cs cnt"
  shows "\<exists>c'. run_each (ring_send n off cs e s) [0..<n] c = Some c' \<and> comm_ok n adr B S c'
    \<and> (\<forall>a. \<not> in_inbox n adr B S a \<longrightarrow> cm_m c' a = cm_m c a)
    \<and> (\<forall>r < n. \<forall>i < 4 * clen cnt n ((r + e + n - s) mod n). cm_m c' (adr ((r + 1) mod n) + (unat B + i))
        = cm_m c (adr r + (4 * (unat off + border cnt n ((r + e + n - s) mod n)) + i)))"
proof -
  let ?q = "\<lambda>r. (r + e + n - s) mod n" and ?nxt = "\<lambda>r. (r + 1) mod n"
  let ?src = "\<lambda>r. 4 * (unat off + border cnt n (?q r))"
  let ?I = "\<lambda>k t. comm_ok n adr B S t \<and> (\<forall>a. \<not> in_inbox n adr B S a \<longrightarrow> cm_m t a = cm_m c a)
    \<and> (\<forall>r < k. \<forall>i < 4 * clen cnt n (?q r). cm_m t (adr (?nxt r) + (unat B + i)) = cm_m c (adr r + (?src r + i)))"
  have n: "2 \<le> n" using fit by (simp add: ring_fit_def)
  have sep: "separate n adr (unat B + unat S)" using ok by (simp add: comm_ok_def)
  have "\<exists>c'. run_each (ring_send n off cs e s) [0..<n] c = Some c' \<and> ?I n c'"
  proof (rule run_each_upto [where I = ?I])
    show "?I 0 c" using ok by simp
    fix k t assume k: "k < n" and I: "?I k t"
    then have tok: "comm_ok n adr B S t" and out: "\<And>a. \<not> in_inbox n adr B S a \<Longrightarrow> cm_m t a = cm_m c a"
      and sent: "\<And>r i. r < k \<Longrightarrow> i < 4 * clen cnt n (?q r) \<Longrightarrow> cm_m t (adr (?nxt r) + (unat B + i)) = cm_m c (adr r + (?src r + i))"
      by blast+
    have q: "?q k < n" "?nxt k < n" using n by simp_all
    note ch = ring_fit_chunk [OF fit q(1)]
    have buf: "bw_buf_bytes (cm_w t) = B" using tok by (simp add: comm_ok_def)
    show "\<exists>t'. ring_send n off cs e s k t = Some t' \<and> ?I (Suc k) t'"
    proof (cases "clen cnt n (?q k) = 0")
      case True
      then have "ring_send n off cs e s k t = Some t" using ch(2) by (simp add: ring_send_def Let_def)
      then show ?thesis using tok out sent True by (simp add: less_Suc_eq)
    next
      case False
      then have len: "chunk_len cs (?q k) \<noteq> 0" using ch(2) by simp
      obtain t' where t': "dma_between k (?nxt k) ((off + cs ! ?q k) * 4) B (chunk_len cs (?q k)) t = Some t'"
        "comm_ok n adr B S t'"
        "copied (adr (?nxt k) + unat B) (adr k + ?src k) (4 * clen cnt n (?q k)) (cm_m t) (cm_m t')"
        using dma_between_ok [OF tok k q(2) len, of "(off + cs ! ?q k) * 4" B] ch by auto
      have r: "ring_send n off cs e s k t = Some t'"
        using t'(1) len buf by (simp add: ring_send_def Let_def)
      have out': "cm_m t' a = cm_m c a" if "\<not> in_inbox n adr B S a" for a
      proof -
        have "\<not> (adr (?nxt k) + unat B \<le> a \<and> a < adr (?nxt k) + unat B + 4 * clen cnt n (?q k))"
          using that q(2) ch(5) unfolding in_inbox_def by fastforce
        then show ?thesis using copied_out [OF t'(3)] out [OF that] by simp
      qed
      have new: "cm_m t' (adr (?nxt k) + (unat B + i)) = cm_m c (adr k + (?src k + i))" if "i < 4 * clen cnt n (?q k)" for i
      proof -
        have "?src k + i < unat B" using ch(4) that by simp
        then show ?thesis
          using copied_at [OF t'(3) that] out [OF not_in_inbox [OF sep k, of "?src k + i"]] by (simp add: add.assoc)
      qed
      have old: "cm_m t' (adr (?nxt r) + (unat B + i)) = cm_m c (adr r + (?src r + i))"
        if "r < k" "i < 4 * clen cnt n (?q r)" for r i
      proof -
        have "?nxt r \<noteq> ?nxt k" using that(1) k by (cases "Suc k = n") auto
        moreover have "i < unat S" using that(2) ring_fit_chunk(5) [OF fit, of "?q r"] n by simp
        ultimately have "\<not> (adr (?nxt k) + unat B \<le> adr (?nxt r) + (unat B + i)
            \<and> adr (?nxt r) + (unat B + i) < adr (?nxt k) + unat B + 4 * clen cnt n (?q k))"
          using inboxes_apart [OF sep, of "?nxt r" "?nxt k" i] n ch(5) by auto
        then show ?thesis using copied_out [OF t'(3)] sent [OF that] by simp
      qed
      show ?thesis using r t'(2) out' new old by (auto simp: less_Suc_eq)
    qed
  qed
  then show ?thesis by blast
qed

lemma outside_range: "\<not> (a \<le> x \<and> x < b) \<Longrightarrow> x < a \<or> b \<le> (x :: nat)"
  by auto

lemma not_in_region_other:
  assumes "separate n adr W" "r < n" "q < n" "r \<noteq> q" "i < W" "a = adr r + i" "lo + len \<le> W"
  shows "\<not> (adr q + lo \<le> a \<and> a < adr q + lo + len)"
proof
  assume a: "adr q + lo \<le> a \<and> a < adr q + lo + len"
  then have "a - adr q < W" "a = adr q + (a - adr q)" using assms(7) by linarith+
  then show False using separate_neq [OF assms(1-4) assms(5), of "a - adr q"] assms(6) by metis
qed

text \<open>The second half of a step: every rank reworks the chunk \<open>q r\<close> of its region from its inbox.\<close>

lemma ring_local_phase:
  assumes ok: "comm_ok n adr B S c" and fit: "ring_fit n B S off cs cnt"
    and q: "\<And>r. r < n \<Longrightarrow> q r < n"
    and f: "\<And>r t. r < n \<Longrightarrow> comm_ok n adr B S t \<Longrightarrow>
      f r t = (if clen cnt n (q r) = 0 then Some t else with_mem (g r) t)"
    and g: "\<And>r t. r < n \<Longrightarrow> comm_ok n adr B S t \<Longrightarrow>
      works_in F (g r) (adr r + 4 * (unat off + border cnt n (q r))) (adr r + unat B) (clen cnt n (q r)) (cm_m t)"
  shows "\<exists>c'. run_each f [0..<n] c = Some c' \<and> comm_ok n adr B S c'
    \<and> (\<forall>a. (\<forall>r < n. \<not> (adr r + 4 * (unat off + border cnt n (q r)) \<le> a
          \<and> a < adr r + 4 * (unat off + border cnt n (q r)) + 4 * clen cnt n (q r))) \<longrightarrow> cm_m c' a = cm_m c a)
    \<and> (\<forall>r < n. \<forall>j < clen cnt n (q r). word_at (cm_m c') (adr r + 4 * (unat off + border cnt n (q r)) + 4 * j)
        = F (word_at (cm_m c) (adr r + 4 * (unat off + border cnt n (q r)) + 4 * j)) (word_at (cm_m c) (adr r + unat B + 4 * j)))"
proof -
  let ?lo = "\<lambda>r. 4 * (unat off + border cnt n (q r))" and ?len = "\<lambda>r. 4 * clen cnt n (q r)"
  let ?out = "\<lambda>k a. \<forall>r < k. \<not> (adr r + ?lo r \<le> a \<and> a < adr r + ?lo r + ?len r)"
  let ?I = "\<lambda>k t. comm_ok n adr B S t \<and> (\<forall>a. ?out k a \<longrightarrow> cm_m t a = cm_m c a)
    \<and> (\<forall>r < k. \<forall>j < clen cnt n (q r). word_at (cm_m t) (adr r + ?lo r + 4 * j)
        = F (word_at (cm_m c) (adr r + ?lo r + 4 * j)) (word_at (cm_m c) (adr r + unat B + 4 * j)))"
  have sep: "separate n adr (unat B + unat S)" using ok by (simp add: comm_ok_def)
  have "\<exists>c'. run_each f [0..<n] c = Some c' \<and> ?I n c'"
  proof (rule run_each_upto [where I = ?I])
    show "?I 0 c" using ok by simp
    fix k t assume k: "k < n" and I: "?I k t"
    then have tok: "comm_ok n adr B S t" and out: "\<And>a. ?out k a \<Longrightarrow> cm_m t a = cm_m c a"
      and fin: "\<And>r j. r < k \<Longrightarrow> j < clen cnt n (q r) \<Longrightarrow> word_at (cm_m t) (adr r + ?lo r + 4 * j)
        = F (word_at (cm_m c) (adr r + ?lo r + 4 * j)) (word_at (cm_m c) (adr r + unat B + 4 * j))"
      by blast+
    have fits: "?lo r + ?len r \<le> unat B" "?len r \<le> unat S" if "r < n" for r
      using ring_fit_chunk(4,5) [OF fit q [OF that]] by simp_all
    have mine: "cm_m t (adr k + i) = cm_m c (adr k + i)" if "i < unat B + unat S" for i
    proof (rule out, intro allI impI)
      fix r assume "r < k"
      then show "\<not> (adr r + ?lo r \<le> adr k + i \<and> adr k + i < adr r + ?lo r + ?len r)"
        using not_in_region_other [OF sep k _ _ that refl, of r "?lo r" "?len r"] fits(1) [of r] k by simp
    qed
    show "\<exists>t'. f k t = Some t' \<and> ?I (Suc k) t'"
    proof (cases "clen cnt n (q k) = 0")
      case True
      then have "f k t = Some t" using f [OF k tok] by simp
      then show ?thesis using tok out fin True by (simp add: less_Suc_eq)
    next
      case False
      obtain m' where m': "g k (cm_m t) = Some m'" "\<And>x. m' x = None \<longleftrightarrow> cm_m t x = None"
        "\<And>x. x < adr k + ?lo k \<or> adr k + ?lo k + ?len k \<le> x \<Longrightarrow> m' x = cm_m t x"
        "\<And>j. j < clen cnt n (q k) \<Longrightarrow> word_at m' (adr k + ?lo k + 4 * j)
          = F (word_at (cm_m t) (adr k + ?lo k + 4 * j)) (word_at (cm_m t) (adr k + unat B + 4 * j))"
        using g [OF k tok] unfolding works_in_def by blast
      let ?t = "t\<lparr> cm_m := m' \<rparr>"
      have mt: "cm_m ?t = m'" by simp
      have r: "f k t = Some ?t" using f [OF k tok] False m'(1) by (simp add: with_mem_def)
      have tok': "comm_ok n adr B S ?t" using comm_ok_mem [OF tok m'(2)] .
      have out': "cm_m ?t a = cm_m c a" if "?out (Suc k) a" for a
      proof -
        have "a < adr k + ?lo k \<or> adr k + ?lo k + ?len k \<le> a" using that by (meson lessI not_le)
        moreover have "?out k a" using that by simp
        ultimately show ?thesis using m'(3) out by simp
      qed
      have w: "word_at (cm_m t) (adr k + i) = word_at (cm_m c) (adr k + i)" if "i + 4 \<le> unat B + unat S" for i
        using that by (intro word_at_cong) (simp add: add.assoc mine)
      have new: "word_at (cm_m ?t) (adr k + ?lo k + 4 * j)
          = F (word_at (cm_m c) (adr k + ?lo k + 4 * j)) (word_at (cm_m c) (adr k + unat B + 4 * j))"
        if "j < clen cnt n (q k)" for j
      proof -
        have "?lo k + 4 * j + 4 \<le> unat B + unat S" "unat B + 4 * j + 4 \<le> unat B + unat S"
          using fits [OF k] that by linarith+
        then show ?thesis using m'(4) [OF that] w [of "?lo k + 4 * j"] w [of "unat B + 4 * j"] by (simp add: add.assoc)
      qed
      have old: "word_at (cm_m ?t) (adr r + ?lo r + 4 * j) = word_at (cm_m t) (adr r + ?lo r + 4 * j)"
        if "r < k" "j < clen cnt n (q r)" for r j
      proof (rule word_at_cong)
        fix i :: nat assume "i < 4"
        then have "?lo r + 4 * j + i < unat B + unat S" using fits(1) [of r] that k by linarith
        then have h: "\<not> (adr k + ?lo k \<le> adr r + (?lo r + 4 * j + i) \<and> adr r + (?lo r + 4 * j + i) < adr k + ?lo k + ?len k)"
          using not_in_region_other [OF sep _ k _ _ refl, of r "?lo r + 4 * j + i" "?lo k" "?len k"] fits(1) [OF k] that(1) k by simp
        have "cm_m ?t (adr r + (?lo r + 4 * j + i)) = cm_m t (adr r + (?lo r + 4 * j + i))"
          unfolding mt by (rule m'(3)) (rule outside_range [OF h])
        then show "cm_m ?t (adr r + ?lo r + 4 * j + i) = cm_m t (adr r + ?lo r + 4 * j + i)"
          by (simp only: add.assoc)
      qed
      show ?thesis using r tok' out' new old fin by (auto simp: less_Suc_eq)
    qed
  qed
  then show ?thesis by blast
qed

lemma chunks_apart:
  assumes "border cnt n x \<le> j" "j < border cnt n (Suc x)" "x \<noteq> y"
  shows "j < border cnt n y \<or> border cnt n (Suc y) \<le> j"
proof (cases "x < y")
  case True
  then show ?thesis using border_mono [of "Suc x" y cnt n] assms(2) by simp
next
  case False
  then show ?thesis using border_mono [of "Suc y" x cnt n] assms(1,3) by simp
qed

lemma prev_next: "(r :: nat) < n \<Longrightarrow> ((r + n - 1) mod n + 1) mod n = r" "r < n \<Longrightarrow> (r + n - 1) mod n < n"
proof -
  assume r: "r < n"
  then have "r + n - 1 + 1 = r + n" by linarith
  then have "((r + n - 1) mod n + 1) mod n = (r + n) mod n" by (metis mod_add_left_eq)
  then show "((r + n - 1) mod n + 1) mod n = r" using r by simp
  show "(r + n - 1) mod n < n" using r by (intro mod_less_divisor) simp
qed

text \<open>Bytes that an all-reduce of the region may touch: the region and the inbox of every rank.\<close>

definition touched :: "nat \<Rightarrow> (nat \<Rightarrow> nat) \<Rightarrow> u64 \<Rightarrow> u64 \<Rightarrow> nat \<Rightarrow> nat \<Rightarrow> nat \<Rightarrow> bool" where
  "touched n adr B S lo cnt a \<longleftrightarrow> in_inbox n adr B S a \<or> (\<exists>r < n. adr r + 4 * lo \<le> a \<and> a < adr r + 4 * (lo + cnt))"

abbreviation region_word :: "(nat \<Rightarrow> nat) \<Rightarrow> u64 \<Rightarrow> comm \<Rightarrow> nat \<Rightarrow> nat \<Rightarrow> u32" where
  "region_word adr off c r j \<equiv> word_at (cm_m c) (adr r + 4 * (unat off + j))"

lemma ring_full_step:
  assumes ok: "comm_ok n adr B S c" and fit: "ring_fit n B S off cs cnt"
    and q: "\<And>r. r < n \<Longrightarrow> q r < n" and send: "\<And>p. p < n \<Longrightarrow> (p + e + n - s) mod n = q ((p + 1) mod n)"
    and f: "\<And>r t. r < n \<Longrightarrow> comm_ok n adr B S t \<Longrightarrow>
      f r t = (if clen cnt n (q r) = 0 then Some t else with_mem (g r) t)"
    and g: "\<And>r t. r < n \<Longrightarrow> comm_ok n adr B S t \<Longrightarrow>
      works_in F (g r) (adr r + 4 * (unat off + border cnt n (q r))) (adr r + unat B) (clen cnt n (q r)) (cm_m t)"
  shows "\<exists>c'. Option.bind (run_each (ring_send n off cs e s) [0..<n] c) (run_each f [0..<n]) = Some c'
    \<and> comm_ok n adr B S c' \<and> (\<forall>a. \<not> touched n adr B S (unat off) cnt a \<longrightarrow> cm_m c' a = cm_m c a)
    \<and> (\<forall>r < n. \<forall>x < n. \<forall>j. border cnt n x \<le> j \<and> j < border cnt n (Suc x) \<longrightarrow>
        region_word adr off c' r j = (if x = q r then F (region_word adr off c r j) (region_word adr off c ((r + n - 1) mod n) j)
          else region_word adr off c r j))"
proof -
  let ?lo = "\<lambda>r. 4 * (unat off + border cnt n (q r))" and ?len = "\<lambda>r. 4 * clen cnt n (q r)"
  have n: "2 \<le> n" "4 * (unat off + cnt) \<le> unat B" using fit by (simp_all add: ring_fit_def)
  have sep: "separate n adr (unat B + unat S)" using ok by (simp add: comm_ok_def)
  obtain c1 where c1: "run_each (ring_send n off cs e s) [0..<n] c = Some c1" "comm_ok n adr B S c1"
    "\<And>a. \<not> in_inbox n adr B S a \<Longrightarrow> cm_m c1 a = cm_m c a"
    "\<And>r i. r < n \<Longrightarrow> i < 4 * clen cnt n ((r + e + n - s) mod n) \<Longrightarrow> cm_m c1 (adr ((r + 1) mod n) + (unat B + i))
        = cm_m c (adr r + (4 * (unat off + border cnt n ((r + e + n - s) mod n)) + i))"
    using ring_send_phase [OF ok fit, of e s] by blast
  obtain c' where c': "run_each f [0..<n] c1 = Some c'" "comm_ok n adr B S c'"
    "\<And>a. (\<And>r. r < n \<Longrightarrow> \<not> (adr r + ?lo r \<le> a \<and> a < adr r + ?lo r + ?len r)) \<Longrightarrow> cm_m c' a = cm_m c1 a"
    "\<And>r j. r < n \<Longrightarrow> j < clen cnt n (q r) \<Longrightarrow> word_at (cm_m c') (adr r + ?lo r + 4 * j)
        = F (word_at (cm_m c1) (adr r + ?lo r + 4 * j)) (word_at (cm_m c1) (adr r + unat B + 4 * j))"
    using ring_local_phase [OF c1(2) fit q f g] by blast
  have border: "border cnt n (q r) + clen cnt n (q r) = border cnt n (Suc (q r))" "border cnt n (Suc x) \<le> cnt" if "r < n" "x < n" for r x
    using border_mono [of "q r" "Suc (q r)" cnt n] border_le [of n "Suc x" cnt] that by auto
  have fits: "?lo r + ?len r \<le> 4 * (unat off + cnt)" if "r < n" for r
    using border(1) [OF that that] border(2) [OF that q [OF that]] by (simp add: algebra_simps)
  have buf: "word_at (cm_m c1) (adr r + i) = word_at (cm_m c) (adr r + i)" if "r < n" "i + 4 \<le> unat B" for r i
  proof (rule word_at_cong)
    fix k :: nat assume "k < 4"
    then show "cm_m c1 (adr r + i + k) = cm_m c (adr r + i + k)"
      using c1(3) [OF not_in_inbox [OF sep that(1), of "i + k"]] that(2) by (simp add: add.assoc)
  qed
  have word: "region_word adr off c' r j = (if x = q r then F (region_word adr off c r j) (region_word adr off c ((r + n - 1) mod n) j)
          else region_word adr off c r j)"
    if r: "r < n" and x: "x < n" and j: "border cnt n x \<le> j" "j < border cnt n (Suc x)" for r x j
  proof -
    have jc: "4 * (unat off + j) + 4 \<le> unat B" using j(2) border(2) [OF r x] n(2) by simp
    show ?thesis
    proof (cases "x = q r")
      case True
      let ?p = "(r + n - 1) mod n" and ?j = "j - border cnt n x"
      have p: "?p < n" "(?p + 1) mod n = r" using prev_next [OF r] by auto
      have qp: "(?p + e + n - s) mod n = x" using send [OF p(1)] p(2) True by simp
      have jj: "?j < clen cnt n x" "4 * (unat off + j) = 4 * (unat off + border cnt n x) + 4 * ?j" using j by auto
      have "word_at (cm_m c1) (adr r + unat B + 4 * ?j) = region_word adr off c ?p j"
      proof (rule word_at_cong)
        fix k :: nat assume k: "k < 4"
        then have "4 * ?j + k < 4 * clen cnt n x" using jj(1) by linarith
        then show "cm_m c1 (adr r + unat B + 4 * ?j + k) = cm_m c (adr ?p + 4 * (unat off + j) + k)"
          using c1(4) [OF p(1), of "4 * ?j + k"] unfolding qp p(2) jj(2) by (simp add: add.assoc)
      qed
      moreover have "word_at (cm_m c1) (adr r + 4 * (unat off + j)) = region_word adr off c r j"
        using buf [OF r jc] .
      ultimately show ?thesis
        using c'(4) [OF r, of ?j] jj True by (simp add: add.assoc)
    next
      case False
      have "region_word adr off c' r j = word_at (cm_m c1) (adr r + 4 * (unat off + j))"
      proof (rule word_at_cong)
        fix k :: nat assume k: "k < 4"
        show "cm_m c' (adr r + 4 * (unat off + j) + k) = cm_m c1 (adr r + 4 * (unat off + j) + k)"
        proof (rule c'(3))
          fix r' assume r': "r' < n"
          show "\<not> (adr r' + ?lo r' \<le> adr r + 4 * (unat off + j) + k \<and> adr r + 4 * (unat off + j) + k < adr r' + ?lo r' + ?len r')"
          proof (cases "r' = r")
            case True
            have "j < border cnt n (q r) \<or> border cnt n (Suc (q r)) \<le> j" by (rule chunks_apart [OF j False])
            then have "4 * (unat off + j) + k < ?lo r \<or> ?lo r + ?len r \<le> 4 * (unat off + j) + k"
              using k border(1) [OF r r] by auto
            then show ?thesis using True by auto
          next
            case False
            then show ?thesis
              using not_in_region_other [OF sep r r' _ _ _, of "4 * (unat off + j) + k" _ "?lo r'" "?len r'"] fits [OF r'] jc k n(2)
              by (simp add: add.assoc)
          qed
        qed
      qed
      then show ?thesis using False buf [OF r jc] by simp
    qed
  qed
  have kept: "cm_m c' a = cm_m c a" if "\<not> touched n adr B S (unat off) cnt a" for a
  proof -
    have "cm_m c' a = cm_m c1 a"
    proof (rule c'(3))
      fix r assume r: "r < n"
      then show "\<not> (adr r + ?lo r \<le> a \<and> a < adr r + ?lo r + ?len r)"
        using that fits [OF r] unfolding touched_def by fastforce
    qed
    then show ?thesis using c1(3) that by (simp add: touched_def)
  qed
  show ?thesis using c1(1) c'(1,2) kept word by (intro exI [of _ c']) simp
qed

section \<open>The two phases\<close>

definition aligned :: "nat \<Rightarrow> (nat \<Rightarrow> nat) \<Rightarrow> u64 \<Rightarrow> bool" where
  "aligned n adr B \<longleftrightarrow> unat B mod 4 = 0 \<and> (\<forall>r < n. adr r mod 4 = 0)"

lemma local_ranges:
  assumes ok: "comm_ok n adr B S t" and fit: "ring_fit n B S off cs cnt" and r: "r < n" and x: "x < n"
  shows "mapped (cm_m t) (adr r + 4 * (unat off + border cnt n x)) (4 * clen cnt n x)"
    and "mapped (cm_m t) (adr r + unat B) (4 * clen cnt n x)"
    and "adr r + 4 * (unat off + border cnt n x) + 4 * clen cnt n x \<le> adr r + unat B"
    and "in_mem (cm_w t) r ((off + cs ! x) * 4) = Some (adr r + 4 * (unat off + border cnt n x))"
    and "in_mem (cm_w t) r (bw_buf_bytes (cm_w t)) = Some (adr r + unat B)"
proof -
  have m: "mapped (cm_m t) (adr r) (unat B + unat S)" "bw_mem (cm_w t) r = Some (adr r)" "bw_buf_bytes (cm_w t) = B"
    using ok r by (auto simp: comm_ok_def rank_ok_def)
  note ch = ring_fit_chunk [OF fit x]
  show le: "adr r + 4 * (unat off + border cnt n x) + 4 * clen cnt n x \<le> adr r + unat B" using ch(4) by simp
  show "mapped (cm_m t) (adr r + 4 * (unat off + border cnt n x)) (4 * clen cnt n x)"
    by (rule mapped_sub [OF m(1)]) (use le in linarith)
  show "mapped (cm_m t) (adr r + unat B) (4 * clen cnt n x)"
    by (rule mapped_sub [OF m(1)]) (use ch(5) in simp)
  show "in_mem (cm_w t) r ((off + cs ! x) * 4) = Some (adr r + 4 * (unat off + border cnt n x))"
    using m(2) ch(3) by (simp add: in_mem_def)
  show "in_mem (cm_w t) r (bw_buf_bytes (cm_w t)) = Some (adr r + unat B)"
    using m(2,3) by (simp add: in_mem_def)
qed

abbreviation ring_result :: "nat \<Rightarrow> (nat \<Rightarrow> nat) \<Rightarrow> u64 \<Rightarrow> u64 \<Rightarrow> u64 \<Rightarrow> nat \<Rightarrow> (u32 \<Rightarrow> u32 \<Rightarrow> u32) \<Rightarrow> (nat \<Rightarrow> nat) \<Rightarrow> comm \<Rightarrow> comm \<Rightarrow> bool" where
  "ring_result n adr B S off cnt F q c c' \<equiv> comm_ok n adr B S c'
    \<and> (\<forall>a. \<not> touched n adr B S (unat off) cnt a \<longrightarrow> cm_m c' a = cm_m c a)
    \<and> (\<forall>r < n. \<forall>x < n. \<forall>j. border cnt n x \<le> j \<and> j < border cnt n (Suc x) \<longrightarrow>
        region_word adr off c' r j = (if x = q r then F (region_word adr off c r j) (region_word adr off c ((r + n - 1) mod n) j)
          else region_word adr off c r j))"

lemma mod_add_n: "(k :: nat) < n \<Longrightarrow> s \<le> n \<Longrightarrow> (k + n - s) mod n = (if s \<le> k then k - s else k + n - s)"
proof -
  assume a: "k < n" "s \<le> n"
  show ?thesis
  proof (cases "s \<le> k")
    case True
    then have "k + n - s = (k - s) + n" by simp
    then show ?thesis using True a by (simp only: mod_add_self2) simp
  next
    case False
    then have "k + n - s < n" using a by linarith
    then show ?thesis using False by simp
  qed
qed

lemma reduce_step_ok:
  assumes ok: "comm_ok n adr B S c" and fit: "ring_fit n B S off cs cnt" and al: "aligned n adr B" and s: "Suc s < n"
  shows "\<exists>c'. reduce_step fp n off cs s c = Some c'
    \<and> ring_result n adr B S off cnt (f32_add fp) (\<lambda>r. (r + n - Suc s) mod n) c c'"
  unfolding reduce_step_def
proof (rule ring_full_step [OF ok fit, where g = "\<lambda>r. add_words fp (adr r + 4 * (unat off + border cnt n ((r + n - Suc s) mod n)))
    (adr r + unat B) (clen cnt n ((r + n - Suc s) mod n))"])
  have n: "0 < n" using s by simp
  show "(r + n - Suc s) mod n < n" for r using n by simp
  show "(p + 0 + n - s) mod n = ((p + 1) mod n + n - Suc s) mod n" if "p < n" for p
    using that s mod_add_n [of p n s] mod_add_n [of "(p + 1) mod n" n "Suc s"] by (cases "Suc p = n") auto
  fix r t assume r: "r < n" and t: "comm_ok n adr B S t"
  let ?x = "(r + n - Suc s) mod n"
  have x: "?x < n" using n by simp
  note l = local_ranges [OF t fit r x] and ch = ring_fit_chunk [OF fit x]
  have four: "unat (4 :: u64) = 4" by simp
  have "unat (chunk_len cs ?x div 4) = clen cnt n ?x" by (simp add: unat_div ch(1))
  then show "ring_add fp n off cs s r t = (if clen cnt n ?x = 0 then Some t
      else with_mem (add_words fp (adr r + 4 * (unat off + border cnt n ?x)) (adr r + unat B) (clen cnt n ?x)) t)"
    using l(4,5) ch(2) by (simp add: ring_add_def Let_def)
  show "works_in (f32_add fp) (add_words fp (adr r + 4 * (unat off + border cnt n ?x)) (adr r + unat B) (clen cnt n ?x))
      (adr r + 4 * (unat off + border cnt n ?x)) (adr r + unat B) (clen cnt n ?x) (cm_m t)"
  proof (rule add_words_works [OF l(1,2)])
    show "adr r + 4 * (unat off + border cnt n ?x) + 4 * clen cnt n ?x \<le> adr r + unat B
      \<or> adr r + unat B + 4 * clen cnt n ?x \<le> adr r + 4 * (unat off + border cnt n ?x)" using l(3) by blast
    show "(adr r + 4 * (unat off + border cnt n ?x)) mod 4 = 0"
      unfolding mod_mult_self2 using al r by (simp add: aligned_def)
    show "(adr r + unat B) mod 4 = 0" using al r by (simp add: aligned_def mod_add_eq [symmetric])
  qed
qed

lemma gather_step_ok:
  assumes ok: "comm_ok n adr B S c" and fit: "ring_fit n B S off cs cnt" and s: "s < n"
  shows "\<exists>c'. gather_step n off cs s c = Some c'
    \<and> ring_result n adr B S off cnt (\<lambda>a b. b) (\<lambda>r. (r + n - s) mod n) c c'"
  unfolding gather_step_def
proof (rule ring_full_step [OF ok fit, where g = "\<lambda>r. host_memcpy (adr r + 4 * (unat off + border cnt n ((r + n - s) mod n)))
    (adr r + unat B) (4 * clen cnt n ((r + n - s) mod n))"])
  have n: "0 < n" using s by simp
  show "(r + n - s) mod n < n" for r using n by simp
  show "(p + 1 + n - s) mod n = ((p + 1) mod n + n - s) mod n" if "p < n" for p
  proof (cases "Suc p = n")
    case True
    then have "p + 1 + n - s = n - s + n" using s by linarith
    then show ?thesis using True by (simp only: mod_add_self2) simp
  next
    case False
    then have "Suc p < n" using that by simp
    then show ?thesis by simp
  qed
  fix r t assume r: "r < n" and t: "comm_ok n adr B S t"
  let ?x = "(r + n - s) mod n"
  have x: "?x < n" using n by simp
  note l = local_ranges [OF t fit r x] and ch = ring_fit_chunk [OF fit x]
  show "ring_copy n off cs s r t = (if clen cnt n ?x = 0 then Some t
      else with_mem (host_memcpy (adr r + 4 * (unat off + border cnt n ?x)) (adr r + unat B) (4 * clen cnt n ?x)) t)"
    using l(4,5) ch(1,2) by (simp add: ring_copy_def Let_def)
  show "works_in (\<lambda>a b. b) (host_memcpy (adr r + 4 * (unat off + border cnt n ?x)) (adr r + unat B) (4 * clen cnt n ?x))
      (adr r + 4 * (unat off + border cnt n ?x)) (adr r + unat B) (clen cnt n ?x) (cm_m t)"
    by (rule memcpy_works [OF l(1,2)]) (use l(3) in blast)
qed

section \<open>The sum around the ring\<close>

text \<open>The sum of \<open>x q, x (q + 1), ...\<close> around the ring in the order in which it is computed, \<open>d\<close> additions.\<close>

fun ring_sum :: "fpu \<Rightarrow> nat \<Rightarrow> (nat \<Rightarrow> u32) \<Rightarrow> nat \<Rightarrow> nat \<Rightarrow> u32" where
  "ring_sum fp n x q 0 = x q"
| "ring_sum fp n x q (Suc d) = f32_add fp (x ((q + Suc d) mod n)) (ring_sum fp n x q d)"

text \<open>How far rank \<open>r\<close> is behind rank \<open>q\<close>.\<close>

definition behind :: "nat \<Rightarrow> nat \<Rightarrow> nat \<Rightarrow> nat" where
  "behind n r q = (if q \<le> r then r - q else r + n - q)"

lemma behind_less: "r < n \<Longrightarrow> q < n \<Longrightarrow> behind n r q < n"
  by (auto simp: behind_def)

lemma behind_from: "r < n \<Longrightarrow> q < n \<Longrightarrow> (q + behind n r q) mod n = r"
  by (auto simp: behind_def)

lemma behind_iff: "r < n \<Longrightarrow> q < n \<Longrightarrow> s < n \<Longrightarrow> q = (r + n - s) mod n \<longleftrightarrow> behind n r q = s"
  by (auto simp: behind_def mod_add_n)

lemma behind_prev: "r < n \<Longrightarrow> q < n \<Longrightarrow> behind n ((r + n - 1) mod n) q = (if behind n r q = 0 then n - 1 else behind n r q - 1)"
  by (auto simp: behind_def mod_add_n)

abbreviation in_chunk :: "nat \<Rightarrow> nat \<Rightarrow> nat \<Rightarrow> nat \<Rightarrow> bool" where
  "in_chunk cnt n x j \<equiv> border cnt n x \<le> j \<and> j < border cnt n (Suc x)"

lemma reduce_phase:
  assumes ok: "comm_ok n adr B S c" and fit: "ring_fit n B S off cs cnt" and al: "aligned n adr B"
  shows "\<exists>c'. run_each (reduce_step fp n off cs) [0..<n - 1] c = Some c' \<and> comm_ok n adr B S c'
    \<and> (\<forall>a. \<not> touched n adr B S (unat off) cnt a \<longrightarrow> cm_m c' a = cm_m c a)
    \<and> (\<forall>r < n. \<forall>x < n. \<forall>j. in_chunk cnt n x j \<longrightarrow> region_word adr off c' r j
        = ring_sum fp n (\<lambda>k. region_word adr off c k j) x (behind n r x))"
proof -
  let ?val = "\<lambda>s r x j. if behind n r x \<le> s then ring_sum fp n (\<lambda>k. region_word adr off c k j) x (behind n r x)
    else region_word adr off c r j"
  let ?I = "\<lambda>s t. comm_ok n adr B S t \<and> (\<forall>a. \<not> touched n adr B S (unat off) cnt a \<longrightarrow> cm_m t a = cm_m c a)
    \<and> (\<forall>r < n. \<forall>x < n. \<forall>j. in_chunk cnt n x j \<longrightarrow> region_word adr off t r j = ?val s r x j)"
  have "\<exists>c'. run_each (reduce_step fp n off cs) [0..<n - 1] c = Some c' \<and> ?I (n - 1) c'"
  proof (rule run_each_upto [where I = ?I])
    have "behind n r x = 0 \<Longrightarrow> r = x" if "r < n" "x < n" for r x using that by (auto simp: behind_def split: if_splits)
    then show "?I 0 c" using ok by auto
    fix s t assume s: "s < n - 1" and I: "?I s t"
    then have sn: "Suc s < n" by simp
    obtain t' where t': "reduce_step fp n off cs s t = Some t'" "comm_ok n adr B S t'"
      "\<And>a. \<not> touched n adr B S (unat off) cnt a \<Longrightarrow> cm_m t' a = cm_m t a"
      "\<And>r x j. r < n \<Longrightarrow> x < n \<Longrightarrow> in_chunk cnt n x j \<Longrightarrow>
        region_word adr off t' r j = (if x = (r + n - Suc s) mod n
          then f32_add fp (region_word adr off t r j) (region_word adr off t ((r + n - 1) mod n) j) else region_word adr off t r j)"
      using reduce_step_ok [OF conjunct1 [OF I] fit al sn, of fp] by blast
    have "region_word adr off t' r j = ?val (Suc s) r x j" if r: "r < n" and x: "x < n" and j: "in_chunk cnt n x j" for r x j
    proof (cases "behind n r x = Suc s")
      case True
      have p: "(r + n - 1) mod n < n" "behind n ((r + n - 1) mod n) x = s"
        using prev_next(2) [OF r] behind_prev [OF r x] True by auto
      have "region_word adr off t' r j = f32_add fp (region_word adr off t r j) (region_word adr off t ((r + n - 1) mod n) j)"
        using t'(4) [OF r x j] behind_iff [OF r x sn] True by simp
      also have "region_word adr off t r j = region_word adr off c r j" using I r x j True by simp
      also have "region_word adr off t ((r + n - 1) mod n) j = ring_sum fp n (\<lambda>k. region_word adr off c k j) x s"
        using I p x j by simp
      finally show ?thesis using True behind_from [OF r x] by simp
    next
      case False
      then show ?thesis using t'(4) [OF r x j] behind_iff [OF r x sn] I r x j by auto
    qed
    then show "\<exists>t'. reduce_step fp n off cs s t = Some t' \<and> ?I (Suc s) t'"
      using t'(1,2,3) I by (intro exI [of _ t']) simp
  qed
  then obtain c' where "run_each (reduce_step fp n off cs) [0..<n - 1] c = Some c'" "?I (n - 1) c'" by blast
  moreover have "behind n r x \<le> n - 1" if "r < n" "x < n" for r x using behind_less [OF that] by simp
  ultimately show ?thesis by (intro exI [of _ c']) simp
qed

lemma gather_phase:
  assumes ok: "comm_ok n adr B S c" and fit: "ring_fit n B S off cs cnt"
    and own: "\<And>r x j. r < n \<Longrightarrow> x < n \<Longrightarrow> in_chunk cnt n x j \<Longrightarrow> behind n r x = n - 1 \<Longrightarrow> region_word adr off c r j = V x j"
  shows "\<exists>c'. run_each (gather_step n off cs) [0..<n - 1] c = Some c' \<and> comm_ok n adr B S c'
    \<and> (\<forall>a. \<not> touched n adr B S (unat off) cnt a \<longrightarrow> cm_m c' a = cm_m c a)
    \<and> (\<forall>r < n. \<forall>x < n. \<forall>j. in_chunk cnt n x j \<longrightarrow> region_word adr off c' r j = V x j)"
proof -
  let ?I = "\<lambda>s t. comm_ok n adr B S t \<and> (\<forall>a. \<not> touched n adr B S (unat off) cnt a \<longrightarrow> cm_m t a = cm_m c a)
    \<and> (\<forall>r < n. \<forall>x < n. \<forall>j. in_chunk cnt n x j \<and> (behind n r x = n - 1 \<or> behind n r x < s) \<longrightarrow> region_word adr off t r j = V x j)"
  have "\<exists>c'. run_each (gather_step n off cs) [0..<n - 1] c = Some c' \<and> ?I (n - 1) c'"
  proof (rule run_each_upto [where I = ?I])
    show "?I 0 c" using ok own by simp
    fix s t assume s: "s < n - 1" and I: "?I s t"
    then have sn: "s < n" by simp
    obtain t' where t': "gather_step n off cs s t = Some t'" "comm_ok n adr B S t'"
      "\<And>a. \<not> touched n adr B S (unat off) cnt a \<Longrightarrow> cm_m t' a = cm_m t a"
      "\<And>r x j. r < n \<Longrightarrow> x < n \<Longrightarrow> in_chunk cnt n x j \<Longrightarrow>
        region_word adr off t' r j = (if x = (r + n - s) mod n then region_word adr off t ((r + n - 1) mod n) j else region_word adr off t r j)"
      using gather_step_ok [OF conjunct1 [OF I] fit sn] by blast
    have "region_word adr off t' r j = V x j"
      if r: "r < n" and x: "x < n" and j: "in_chunk cnt n x j" and b: "behind n r x = n - 1 \<or> behind n r x < Suc s" for r x j
    proof (cases "behind n r x = s")
      case True
      have p: "(r + n - 1) mod n < n" "behind n ((r + n - 1) mod n) x = n - 1 \<or> behind n ((r + n - 1) mod n) x < s"
        using prev_next(2) [OF r] behind_prev [OF r x] True by auto
      have "region_word adr off t' r j = region_word adr off t ((r + n - 1) mod n) j"
        using t'(4) [OF r x j] behind_iff [OF r x sn] True by simp
      then show ?thesis using I p x j by simp
    next
      case False
      then have "behind n r x = n - 1 \<or> behind n r x < s" using b by auto
      then have "region_word adr off t r j = V x j" using I r x j by blast
      then show ?thesis using t'(4) [OF r x j] behind_iff [OF r x sn] False by simp
    qed
    then show "\<exists>t'. gather_step n off cs s t = Some t' \<and> ?I (Suc s) t'"
      using t'(1,2,3) I by (intro exI [of _ t']) simp
  qed
  then obtain c' where "run_each (gather_step n off cs) [0..<n - 1] c = Some c'" "?I (n - 1) c'" by blast
  moreover have "behind n r x = n - 1 \<or> behind n r x < n - 1" if "r < n" "x < n" for r x
    using behind_less [OF that] by auto
  ultimately show ?thesis by (intro exI [of _ c']) simp
qed

lemma border_chunk: "j < border cnt n k \<Longrightarrow> \<exists>x < k. in_chunk cnt n x j"
proof (induction k)
  case 0
  then show ?case by (simp add: border_def)
next
  case (Suc k)
  then show ?case by (cases "j < border cnt n k") (auto intro: less_SucI)
qed

lemma max_chunk_fits:
  assumes "0 < n" "n \<le> 64" "unat (max_chunk_bytes count n) \<le> S" "unat count * 4 < 2 ^ 32"
  shows "4 * clen (unat count) n q \<le> S"
proof -
  have un: "unat (of_nat n :: u64) = n" using assms by (intro unat_small) simp
  have d: "unat (count div of_nat n) = unat count div n" "unat (count mod of_nat n) = unat count mod n"
    by (simp_all add: unat_div unat_mod un)
  have le: "unat count div n \<le> unat count" by simp
  let ?e = "if count mod of_nat n \<noteq> 0 then 1 else 0 :: u64"
  have e: "unat ?e = (if unat count mod n \<noteq> 0 then 1 else 0)"
  proof -
    have "count mod of_nat n = 0 \<longleftrightarrow> unat (count mod of_nat n) = 0" by (simp only: unsigned_eq_0_iff)
    then show ?thesis unfolding d(2) by simp
  qed
  have small: "unat count div n + 1 < 2 ^ 32"
    using le_less_trans [OF le, of "2 ^ 30"] assms(4) by simp
  have s: "unat (count div of_nat n + ?e) = unat count div n + unat ?e"
    unfolding d(1) [symmetric] by (rule unat_add_lem [THEN iffD1]) (use d(1) e small in \<open>auto split: if_splits\<close>)
  have "unat (max_chunk_bytes count n) = unat (count div of_nat n + ?e) * unat (4 :: u64)"
    unfolding max_chunk_bytes_def by (rule unat_mult_lem [THEN iffD1]) (use s e small in \<open>auto split: if_splits\<close>)
  then have m: "unat (max_chunk_bytes count n) = (unat count div n + (if unat count mod n \<noteq> 0 then 1 else 0)) * 4"
    using s d(1) e by simp
  have "clen (unat count) n q = unat count div n + (if q < unat count mod n then 1 else 0)" by (simp add: border_Suc)
  then show ?thesis using m assms(3) by (auto split: if_splits)
qed

section \<open>What \<open>bvcomm_init\<close> builds\<close>

definition node_for :: "(nat \<Rightarrow> nat) \<Rightarrow> u64 \<Rightarrow> nat \<Rightarrow> fabric_node" where
  "node_for adr W r = \<lparr> n_info = (rank_info (of_nat r * 0x100000000) W)\<lparr> ni_id := of_nat r \<rparr>, n_registered = True,
     n_mem = Some (adr r), n_mem_len = W \<rparr>"

lemma window_limit:
  assumes "r < 64" "0 < unat W" "unat W < 2 ^ 32"
  shows "unat (of_nat r * 0x100000000 + W - 1 :: u64) = r * 2 ^ 32 + unat W - 1"
    and "of_nat r * 0x100000000 + W - 1 + 1 = (of_nat r * 0x100000000 + W :: u64)"
proof -
  have u: "unat (of_nat r * 0x100000000 + W :: u64) = r * 2 ^ 32 + unat W"
    using window_base(1) [OF assms(1,3)] .
  then show "unat (of_nat r * 0x100000000 + W - 1 :: u64) = r * 2 ^ 32 + unat W - 1"
    using assms(2) by (subst unat_sub) (simp_all add: word_le_nat_alt)
qed simp

lemma node_for_ok:
  assumes "r < 64" "0 < unat W" "unat W < 2 ^ 32"
  shows "node_ok r (node_for adr W r)"
proof -
  have "r * 2 ^ 32 + unat W < 64 * 2 ^ 32" using assms by simp
  then have "unat (of_nat r * 0x100000000 + W - 1 :: u64) \<noteq> unat (- 1 :: u64)"
    unfolding window_limit(1) [OF assms] by (simp add: unsigned_minus_1_eq_mask mask_eq_exp_minus_1)
  then have "(of_nat r * 0x100000000 + W - 1 :: u64) \<noteq> - 1" by metis
  then show ?thesis
    using window_limit(1) [OF assms] window_base(2) [OF assms(1), of 0] assms(2)
    by (simp add: node_ok_def node_for_def rank_info_def word_le_nat_alt)
qed

lemma windows_apart:
  assumes "r < k" "k < 64" "0 < unat W" "unat W < 2 ^ 32"
  shows "\<not> windows_meet (rank_info (of_nat k * 0x100000000) W) (node_for adr W r)"
proof -
  have "unat (of_nat r * 0x100000000 + W :: u64) = r * 2 ^ 32 + unat W" "unat (of_nat k * 0x100000000 :: u64) = k * 2 ^ 32"
    using window_base(1) [of r W] window_base(2) [of k 0] assms by auto
  moreover have "Suc r * 2 ^ 32 \<le> k * 2 ^ 32" using assms(1) by simp
  ultimately show ?thesis
    using assms(4) by (simp add: windows_meet_def node_for_def rank_info_def word_less_nat_alt)
qed

text \<open>After \<open>k\<close> ranks: their nodes are the node table, their memories are fresh zeroed objects.\<close>

definition ranks_ready :: "(nat \<Rightarrow> nat) \<Rightarrow> u64 \<Rightarrow> host \<Rightarrow> nat \<Rightarrow> comm \<Rightarrow> bool" where
  "ranks_ready adr W m0 k c \<longleftrightarrow> f_init (cm_f c) \<and> \<not> f_dma_lock (cm_f c) \<and> f_nodes (cm_f c) = map (node_for adr W) [0..<k]
     \<and> bw_window_bytes (cm_w c) = W
     \<and> (\<forall>r < k. bw_mem (cm_w c) r = Some (adr r) \<and> bw_base (cm_w c) r = of_nat r * 0x100000000)
     \<and> cm_m c = (\<lambda>a. if \<exists>r < k. adr r \<le> a \<and> a < adr r + unat W then Some 0 else m0 a)"

lemma init_rank_ready:
  assumes rdy: "ranks_ready adr W m0 k c" and k: "k < 64" and W: "0 < unat W" "unat W < 2 ^ 32" and pl: "place k = Some (adr k)"
  shows "\<exists>c'. init_rank place k c = (True, c') \<and> ranks_ready adr W m0 (Suc k) c'
    \<and> bw_nranks (cm_w c') = bw_nranks (cm_w c) \<and> bw_buf_bytes (cm_w c') = bw_buf_bytes (cm_w c)
    \<and> bw_scratch_bytes (cm_w c') = bw_scratch_bytes (cm_w c)"
proof -
  let ?b = "of_nat k * 0x100000000 :: u64"
  let ?info = "rank_info ?b W"
  let ?f1 = "(cm_f c)\<lparr> f_nodes := f_nodes (cm_f c) @ [zero_node\<lparr> n_info := ?info\<lparr> ni_id := of_nat k \<rparr>, n_registered := True \<rparr>] \<rparr>"
  have f: "f_init (cm_f c)" "f_nodes (cm_f c) = map (node_for adr W) [0..<k]" using rdy by (auto simp: ranks_ready_def)
  have "\<not> list_ex (windows_meet ?info) (f_nodes (cm_f c))"
    unfolding f(2) using windows_apart [OF _ k W] by (auto simp: list_ex_iff)
  then have reg: "fabric_register_node (Some ?info) (cm_f c) = (Inr (?info\<lparr> ni_id := of_nat k \<rparr>), ?f1)"
    using f k by (simp add: fabric_register_node_def Let_def)
  have uk: "unat (of_nat k :: u32) = k" using k by (simp add: unsigned_of_nat take_bit_eq_mod)
  have lim: "ni_limit ?info - ni_base ?info + 1 = W" by (simp add: rank_info_def)
  have bind: "fabric_bind_memory (of_nat k) (Some (adr k)) W ?f1 = (Inr (), ?f1\<lparr> f_nodes := f_nodes (cm_f c) @ [node_for adr W k] \<rparr>)"
    using f W(1) uk lim by (simp add: fabric_bind_memory_def node_valid_def nth_append list_update_append Let_def node_for_def zero_node_def unat_gt_0)
  let ?c' = "\<lparr> cm_w = (cm_w c)\<lparr> bw_base := (bw_base (cm_w c))(k := ?b), bw_mem := (bw_mem (cm_w c))(k := Some (adr k)) \<rparr>,
    cm_f = ?f1\<lparr> f_nodes := f_nodes (cm_f c) @ [node_for adr W k] \<rparr>, cm_m = host_calloc (adr k) (unat W) (cm_m c) \<rparr>"
  have "init_rank place k c = (True, ?c')"
    using rdy reg bind pl by (simp add: init_rank_def Let_def ranks_ready_def)
  moreover have "ranks_ready adr W m0 (Suc k) ?c'"
    using rdy by (auto simp: ranks_ready_def host_calloc_def less_Suc_eq fun_eq_iff)
  ultimately show ?thesis by (intro exI [of _ ?c']) simp
qed

lemma init_ranks_append:
  "init_ranks place (rs @ qs) c = (case init_ranks place rs c of (True, c') \<Rightarrow> init_ranks place qs c' | (False, c') \<Rightarrow> (False, c'))"
  by (induction rs arbitrary: c) (auto split: prod.splits bool.splits)

lemma init_ranks_ready:
  assumes "ranks_ready adr W m0 0 c" and "0 < unat W" "unat W < 2 ^ 32" and "\<And>r. r < k \<Longrightarrow> place r = Some (adr r)" and "k \<le> 64"
  shows "\<exists>c'. init_ranks place [0..<k] c = (True, c') \<and> ranks_ready adr W m0 k c'
    \<and> bw_nranks (cm_w c') = bw_nranks (cm_w c) \<and> bw_buf_bytes (cm_w c') = bw_buf_bytes (cm_w c)
    \<and> bw_scratch_bytes (cm_w c') = bw_scratch_bytes (cm_w c)"
  using assms(4,5)
proof (induction k)
  case 0
  then show ?case using assms(1) by simp
next
  case (Suc k)
  then obtain c1 where c1: "init_ranks place [0..<k] c = (True, c1)" "ranks_ready adr W m0 k c1"
    "bw_nranks (cm_w c1) = bw_nranks (cm_w c)" "bw_buf_bytes (cm_w c1) = bw_buf_bytes (cm_w c)"
    "bw_scratch_bytes (cm_w c1) = bw_scratch_bytes (cm_w c)"
    by auto
  obtain c2 where "init_rank place k c1 = (True, c2)" "ranks_ready adr W m0 (Suc k) c2"
    "bw_nranks (cm_w c2) = bw_nranks (cm_w c1)" "bw_buf_bytes (cm_w c2) = bw_buf_bytes (cm_w c1)"
    "bw_scratch_bytes (cm_w c2) = bw_scratch_bytes (cm_w c1)"
    using init_rank_ready [OF c1(2) _ assms(2,3), of place] Suc.prems by auto
  then show ?case using c1 by (simp add: init_ranks_append)
qed

text \<open>Opening the channels changes nothing but the channel array.\<close>

lemma open_channels_ok:
  assumes "f_init (cm_f c)" and "\<And>s d. (s, d) \<in> set ps \<Longrightarrow> node_valid (cm_f c) (of_nat s) \<and> node_valid (cm_f c) (of_nat d)"
  shows "\<exists>g. open_channels ps c = (True, c\<lparr> cm_w := (cm_w c)\<lparr> bw_ch := g \<rparr> \<rparr>)
    \<and> (\<forall>s d. (s, d) \<in> set ps \<longrightarrow> ch_src_node (g s d) = of_nat s \<and> ch_dst_node (g s d) = of_nat d \<and> ch_flags (g s d) = 7)
    \<and> (\<forall>s d. (s, d) \<notin> set ps \<longrightarrow> g s d = bw_ch (cm_w c) s d)"
  using assms
proof (induction ps arbitrary: c)
  case Nil
  show ?case by (intro exI [of _ "bw_ch (cm_w c)"]) simp
next
  case (Cons p ps)
  obtain s d where p: "p = (s, d)" by (cases p)
  let ?ch = "\<lparr> ch_src_node = of_nat s, ch_dst_node = of_nat d, ch_flags = 7, ch_mtu = 4096, ch_bytes_tx = 0, ch_bytes_rx = 0 \<rparr>"
  let ?c = "c\<lparr> cm_w := (cm_w c)\<lparr> bw_ch := (bw_ch (cm_w c))(s := (bw_ch (cm_w c) s)(d := ?ch)) \<rparr> \<rparr>"
  have "fabric_channel_open (of_nat s) (of_nat d) 7 True (cm_f c) = Inr ?ch"
    using Cons.prems(1) Cons.prems(2) [of s d] p by (simp add: fabric_channel_open_def fabric_valid_flags_def)
  then have o: "open_channels (p # ps) c = open_channels ps ?c" by (simp add: p)
  obtain g where g: "open_channels ps ?c = (True, ?c\<lparr> cm_w := (cm_w ?c)\<lparr> bw_ch := g \<rparr> \<rparr>)"
    "\<And>s d. (s, d) \<in> set ps \<Longrightarrow> ch_src_node (g s d) = of_nat s \<and> ch_dst_node (g s d) = of_nat d \<and> ch_flags (g s d) = 7"
    "\<And>s d. (s, d) \<notin> set ps \<Longrightarrow> g s d = bw_ch (cm_w ?c) s d"
  proof -
    have f: "f_init (cm_f ?c)" using Cons.prems(1) by simp
    have v: "node_valid (cm_f ?c) (of_nat s') \<and> node_valid (cm_f ?c) (of_nat d')" if "(s', d') \<in> set ps" for s' d'
      using Cons.prems(2) [of s' d'] that by simp
    show ?thesis using Cons.IH [OF f v] that by blast
  qed
  have own: "ch_src_node (g s d) = of_nat s \<and> ch_dst_node (g s d) = of_nat d \<and> ch_flags (g s d) = 7"
    using g(2) [of s d] g(3) [of s d] by (cases "(s, d) \<in> set ps") auto
  show ?case
    by (intro exI [of _ g]) (use o g p own in auto)
qed

lemma ranks_mapped:
  assumes "ranks_ready adr W m0 k c" "r < k"
  shows "mapped (cm_m c) (adr r) (unat W)"
  unfolding mapped_def
proof (intro allI impI)
  fix i assume "i < unat W"
  then have "\<exists>q < k. adr q \<le> adr r + i \<and> adr r + i < adr q + unat W"
    using assms(2) by (intro exI [of _ r]) simp
  then show "cm_m c (adr r + i) \<noteq> None" using assms(1) by (simp add: ranks_ready_def)
qed

lemma bvcomm_init_world:
  assumes n: "1 \<le> n" "n \<le> 64" and B: "B \<noteq> 0" and W: "unat B + unat S < 2 ^ 32"
    and pl: "\<And>r. r < n \<Longrightarrow> place r = Some (adr r)" and sep: "separate n adr (unat B + unat S)"
  shows "\<exists>w f m'. bvcomm_init True place (int n) B S f0 m = (Some w, f, m')
    \<and> comm_ok n adr B S \<lparr> cm_w = w, cm_f = f, cm_m = m' \<rparr>
    \<and> m' = (\<lambda>a. if \<exists>r < n. adr r \<le> a \<and> a < adr r + (unat B + unat S) then Some 0 else m a)"
proof -
  have uw: "unat (B + S) = unat B + unat S" by (rule unat_add_lem [THEN iffD1]) (use W in simp)
  have "0 < unat B" using B by (simp add: unat_gt_0)
  then have W0: "0 < unat (B + S)" "unat (B + S) < 2 ^ 32" using uw W by simp_all
  let ?c0 = "\<lparr> cm_w = \<lparr> bw_nranks = int n, bw_buf_bytes = B, bw_scratch_bytes = S, bw_window_bytes = B + S,
    bw_mem = (\<lambda>_. None), bw_base = (\<lambda>_. 0), bw_ch = (\<lambda>_ _. zero_channel) \<rparr>, cm_f = snd fabric_init, cm_m = m \<rparr>"
  have r0: "ranks_ready adr (B + S) m 0 ?c0" by (simp add: ranks_ready_def fabric_init_def)
  obtain c1 where c1: "init_ranks place [0..<n] ?c0 = (True, c1)" "ranks_ready adr (B + S) m n c1"
    "bw_nranks (cm_w c1) = int n" "bw_buf_bytes (cm_w c1) = B" "bw_scratch_bytes (cm_w c1) = S"
    using init_ranks_ready [OF r0 W0, of n place] pl n(2) by auto
  have nodes: "f_nodes (cm_f c1) = map (node_for adr (B + S)) [0..<n]" "f_init (cm_f c1)" "\<not> f_dma_lock (cm_f c1)"
    using c1(2) by (auto simp: ranks_ready_def)
  have u32: "unat (of_nat r :: u32) = r" if "r < n" for r using that n(2) by (simp add: unsigned_of_nat take_bit_eq_mod)
  obtain g where g: "open_channels (List.product [0..<n] [0..<n]) c1 = (True, c1\<lparr> cm_w := (cm_w c1)\<lparr> bw_ch := g \<rparr> \<rparr>)"
    "\<And>s d. s < n \<Longrightarrow> d < n \<Longrightarrow> ch_src_node (g s d) = of_nat s \<and> ch_dst_node (g s d) = of_nat d \<and> ch_flags (g s d) = 7"
    using open_channels_ok [OF nodes(2), of "List.product [0..<n] [0..<n]"] nodes(1) u32
    by (auto simp: node_valid_def node_for_def)
  let ?c2 = "c1\<lparr> cm_w := (cm_w c1)\<lparr> bw_ch := g \<rparr> \<rparr>"
  have "\<not> BVCOMM_WINDOW_STRIDE \<le> B + S" using W0(2) by (simp add: word_le_nat_alt)
  then have i: "bvcomm_init True place (int n) B S f0 m = (Some (cm_w ?c2), cm_f ?c2, cm_m ?c2)"
    using n B c1(1) g(1) by (simp add: bvcomm_init_def Let_def)
  have rk: "rank_ok n adr (unat B + unat S) ?c2 r" if r: "r < n" for r
  proof -
    have "node_at (cm_f c1) (of_nat r) = Some (node_for adr (B + S) r)"
      using r nodes(1) u32 [OF r] by (simp add: node_at_def)
    moreover have "node_ok r (node_for adr (B + S) r)" using r n(2) W0 by (intro node_for_ok) auto
    ultimately show ?thesis
      unfolding rank_ok_def using r c1(2) g(2) [OF r] ranks_mapped [OF c1(2) r] uw
      by (simp add: ranks_ready_def node_for_def rank_info_def)
  qed
  have mm: "cm_m ?c2 = (\<lambda>a. if \<exists>r < n. adr r \<le> a \<and> a < adr r + (unat B + unat S) then Some 0 else m a)"
    using c1(2) uw by (simp add: ranks_ready_def)
  have ok: "comm_ok n adr B S ?c2"
    using n W sep nodes(2,3) c1(3-5) rk by (simp add: comm_ok_def)
  have rc: "\<lparr> cm_w = cm_w ?c2, cm_f = cm_f ?c2, cm_m = cm_m ?c2 \<rparr> = ?c2" by simp
  show ?thesis
    by (rule exI [of _ "cm_w ?c2"], rule exI [of _ "cm_f ?c2"], rule exI [of _ "cm_m ?c2"], unfold rc)
      (intro conjI i ok mm)
qed

text \<open>C5: The ring all-reduce is exact and deterministic: on a world of at least two ranks, with the region inside the
  buffers, aligned memory and an inbox that holds a chunk, it returns 0; afterwards every rank holds, for every
  element, the same word: the sum of the inputs of all ranks, added in ring order starting at the rank with the
  number of the element's chunk. No byte outside the regions and the inboxes changes.\<close>

theorem allreduce_ring_sum:
  assumes "comm_ok n adr B S c" and "aligned n adr B" and "2 \<le> n" and "count \<noteq> 0"
    and "4 * (unat off + unat count) \<le> unat B" and "unat (max_chunk_bytes count n) \<le> unat S"
  shows "\<exists>c'. bvcomm_allreduce_sum_f32 fp True c off count = Some (0, c') \<and> comm_ok n adr B S c'
    \<and> (\<forall>j < unat count. \<exists>x < n. in_chunk (unat count) n x j \<and> (\<forall>r < n. region_word adr off c' r j
        = ring_sum fp n (\<lambda>k. region_word adr off c k j) x (n - 1)))
    \<and> (\<forall>a. \<not> touched n adr B S (unat off) (unat count) a \<longrightarrow> cm_m c' a = cm_m c a)"
proof -
  let ?cs = "chunk_offsets count n" and ?k = "unat count"
  have c: "n \<le> 64" "unat B + unat S < 2 ^ 32" "bw_nranks (cm_w c) = int n" "bw_buf_bytes (cm_w c) = B" "bw_scratch_bytes (cm_w c) = S"
    using assms(1) by (auto simp: comm_ok_def)
  have small: "?k * 4 < 2 ^ 32" using assms(5) c(2) by simp
  have n: "0 < n" using assms(3) by simp
  have fit: "ring_fit n B S off ?cs ?k"
    unfolding ring_fit_def
  proof (intro conjI allI impI)
    fix q assume q: "q \<le> n"
    have "border ?k n q < 2 ^ 64" using border_le [OF n q, of ?k] unat_u64 [of count] by linarith
    then show "unat (?cs ! q) = border ?k n q"
      using q by (simp add: chunk_offsets_eq [OF n c(1)] unat_small del: upt_Suc)
  next
    fix q show "4 * clen ?k n q \<le> unat S" by (rule max_chunk_fits [OF n c(1) assms(6) small])
  qed (use assms c in auto)
  obtain c1 where c1: "run_each (reduce_step fp n off ?cs) [0..<n - 1] c = Some c1" "comm_ok n adr B S c1"
    "\<And>a. \<not> touched n adr B S (unat off) ?k a \<Longrightarrow> cm_m c1 a = cm_m c a"
    "\<And>r x j. r < n \<Longrightarrow> x < n \<Longrightarrow> in_chunk ?k n x j \<Longrightarrow> region_word adr off c1 r j
      = ring_sum fp n (\<lambda>k. region_word adr off c k j) x (behind n r x)"
    using reduce_phase [OF assms(1) fit assms(2), of fp] by blast
  obtain c2 where c2: "run_each (gather_step n off ?cs) [0..<n - 1] c1 = Some c2" "comm_ok n adr B S c2"
    "\<And>a. \<not> touched n adr B S (unat off) ?k a \<Longrightarrow> cm_m c2 a = cm_m c1 a"
    "\<And>r x j. r < n \<Longrightarrow> x < n \<Longrightarrow> in_chunk ?k n x j \<Longrightarrow> region_word adr off c2 r j
      = ring_sum fp n (\<lambda>k. region_word adr off c k j) x (n - 1)"
    using gather_phase [OF c1(2) fit, where V = "\<lambda>x j. ring_sum fp n (\<lambda>k. region_word adr off c k j) x (n - 1)"] c1(4) by fastforce
  have sum: "unat (off + count) = unat off + ?k"
    by (rule unat_add_lem [THEN iffD1]) (use assms(5) c(2) in simp)
  have "unat ((off + count) * 4) = unat (off + count) * unat (4 :: u64)"
    by (rule unat_mult_lem [THEN iffD1]) (use sum assms(5) c(2) in simp)
  then have "\<not> B < (off + count) * 4" using sum assms(5) by (simp add: word_less_nat_alt)
  moreover have "\<not> S < max_chunk_bytes count n" using assms(6) by (simp add: word_less_nat_alt)
  ultimately have "bvcomm_allreduce_sum_f32 fp True c off count = Some (0, c2)"
    using assms(3,4) c c1(1) c2(1) by (simp add: bvcomm_allreduce_sum_f32_def Let_def)
  moreover have "\<exists>x < n. in_chunk ?k n x j" if "j < ?k" for j
    using border_chunk [of j ?k n n] border_ends [OF n, of ?k] that by simp
  ultimately show ?thesis using c2 c1(3) by (intro exI [of _ c2]) (metis (no_types, lifting))
qed

text \<open>Two ranks with two words of buffer and one of inbox each; the memory holds other bytes than zeros.\<close>

definition two_place :: "nat \<Rightarrow> nat" where
  "two_place r = 16 * (r + 1)"

theorem allreduce_ring_sum_witness:
  "\<exists>w f m c'. bvcomm_init True (\<lambda>r. Some (two_place r)) 2 8 4 (snd fabric_init) (\<lambda>_. None) = (Some w, f, m)
     \<and> bvcomm_allreduce_sum_f32 sample_fpu True \<lparr> cm_w = w, cm_f = f, cm_m = m(20 \<mapsto> 7) \<rparr> 0 2 = Some (0, c')
     \<and> region_word two_place 0 c' 0 1 = region_word two_place 0 c' 1 1"
proof -
  have sep: "separate 2 two_place (unat (8 :: u64) + unat (4 :: u64))" by (auto simp: separate_def two_place_def)
  obtain w f m where i: "bvcomm_init True (\<lambda>r. Some (two_place r)) (int 2) 8 4 (snd fabric_init) (\<lambda>_. None) = (Some w, f, m)"
    and ok: "comm_ok 2 two_place 8 4 \<lparr> cm_w = w, cm_f = f, cm_m = m \<rparr>"
    and m: "m = (\<lambda>a. if \<exists>r < 2. two_place r \<le> a \<and> a < two_place r + (unat (8 :: u64) + unat (4 :: u64)) then Some 0 else None)"
    using bvcomm_init_world [OF _ _ _ _ _ sep, of "\<lambda>r. Some (two_place r)" "snd fabric_init" "\<lambda>_. None"] by auto
  let ?c = "\<lparr> cm_w = w, cm_f = f, cm_m = m(20 \<mapsto> 7) \<rparr>"
  have "\<exists>r < 2. two_place r \<le> 20 \<and> 20 < two_place r + (unat (8 :: u64) + unat (4 :: u64))"
    by (intro exI [of _ 0]) (simp add: two_place_def)
  then have "m 20 \<noteq> None" unfolding m by simp
  then have ok': "comm_ok 2 two_place 8 4 ?c" using comm_ok_mem [OF ok, of "m(20 \<mapsto> 7)"] by auto
  have al: "aligned 2 two_place 8" by (simp add: aligned_def two_place_def)
  have fits: "4 * (unat (0 :: u64) + unat (2 :: u64)) \<le> unat (8 :: u64)" "unat (max_chunk_bytes 2 2) \<le> unat (4 :: u64)"
    by (simp_all add: max_chunk_bytes_def)
  obtain c' where c': "bvcomm_allreduce_sum_f32 sample_fpu True ?c 0 2 = Some (0, c')"
    "\<forall>j < unat (2 :: u64). \<exists>x < 2. in_chunk (unat (2 :: u64)) 2 x j \<and> (\<forall>r < 2. region_word two_place 0 c' r j
        = ring_sum sample_fpu 2 (\<lambda>k. region_word two_place 0 ?c k j) x (2 - 1))"
    using allreduce_ring_sum [OF ok' al _ _ fits, of sample_fpu] by auto
  from c'(2) [rule_format, of 1] obtain v where "\<forall>r < 2. region_word two_place 0 c' r 1 = v" by auto
  then have "region_word two_place 0 c' 0 1 = v" "region_word two_place 0 c' 1 1 = v" by auto
  then show ?thesis using i c'(1) by (intro exI [of _ w] exI [of _ f] exI [of _ m] exI [of _ c']) simp
qed

section \<open>Broadcast\<close>

text \<open>A broadcast of a region inside the buffers returns 0 and every rank holds the bytes of the root.\<close>

theorem broadcast_delivers:
  assumes "comm_ok n adr B S c" and "root < n" and "count \<noteq> 0" and "4 * (unat off + unat count) \<le> unat B"
  shows "\<exists>c'. bvcomm_broadcast_f32 True c (int root) off count = Some (0, c') \<and> comm_ok n adr B S c'
    \<and> (\<forall>r < n. \<forall>i < 4 * unat count. cm_m c' (adr r + (4 * unat off + i)) = cm_m c (adr root + (4 * unat off + i)))"
proof -
  let ?lo = "4 * unat off" and ?len = "4 * unat count"
  let ?f = "\<lambda>r c. if r = root then Some c else dma_between root r (off * 4) (off * 4) (count * 4) c"
  let ?I = "\<lambda>k t. comm_ok n adr B S t \<and> (\<forall>i < ?len. cm_m t (adr root + (?lo + i)) = cm_m c (adr root + (?lo + i)))
    \<and> (\<forall>r < k. \<forall>i < ?len. cm_m t (adr r + (?lo + i)) = cm_m c (adr root + (?lo + i)))"
  have w: "unat B + unat S < 2 ^ 32" "separate n adr (unat B + unat S)" "bw_nranks (cm_w c) = int n" "bw_buf_bytes (cm_w c) = B"
    using assms(1) by (auto simp: comm_ok_def)
  have four: "unat (4 :: u64) = 4" by simp
  have u: "unat (off * 4) = ?lo" "unat (count * 4) = ?len" "unat (off + count) = unat off + unat count"
    using unat_mult_lem [of off 4] unat_mult_lem [of count 4] unat_add_lem [of off count] assms(4) w(1) unfolding four
    by (simp_all add: mult.commute)
  have "unat ((off + count) * 4) = unat (off + count) * unat (4 :: u64)"
    by (rule unat_mult_lem [THEN iffD1]) (use u(3) assms(4) w(1) in simp)
  then have fits: "\<not> B < (off + count) * 4" using u(3) assms(4) by (simp add: word_less_nat_alt)
  have "0 < unat count" using assms(3) by (simp add: unat_gt_0)
  then have len: "count * 4 \<noteq> 0" using u(2) by (metis mult_eq_0_iff unsigned_0 zero_neq_numeral less_irrefl)
  have "\<exists>c'. run_each ?f [0..<n] c = Some c' \<and> ?I n c'"
  proof (rule run_each_upto [where I = ?I])
    show "?I 0 c" using assms(1) by simp
    fix k t assume k: "k < n" and I: "?I k t"
    show "\<exists>t'. ?f k t = Some t' \<and> ?I (Suc k) t'"
    proof (cases "k = root")
      case True
      then show ?thesis using I by (auto simp: less_Suc_eq)
    next
      case False
      obtain t' where t': "dma_between root k (off * 4) (off * 4) (count * 4) t = Some t'" "comm_ok n adr B S t'"
        "copied (adr k + ?lo) (adr root + ?lo) ?len (cm_m t) (cm_m t')"
        using dma_between_ok [OF conjunct1 [OF I] assms(2) k len, of "off * 4" "off * 4"] u assms(4) by auto
      have other: "cm_m t' (adr r + (?lo + i)) = cm_m t (adr r + (?lo + i))" if "r < n" "r \<noteq> k" "i < ?len" for r i
      proof (rule copied_out [OF t'(3)])
        show "\<not> (adr k + ?lo \<le> adr r + (?lo + i) \<and> adr r + (?lo + i) < adr k + ?lo + ?len)"
          by (rule not_in_region_other [OF w(2) that(1) k that(2) _ refl]) (use that(3) assms(4) in auto)
      qed
      have new: "cm_m t' (adr k + (?lo + i)) = cm_m c (adr root + (?lo + i))" if "i < ?len" for i
        using copied_at [OF t'(3) that] I that by (simp add: add.assoc)
      show ?thesis using t'(1,2) False I other new k assms(2) by (auto simp: less_Suc_eq)
    qed
  qed
  then obtain c' where "run_each ?f [0..<n] c = Some c'" "?I n c'" by blast
  then show ?thesis
    using assms(2,3) w(3,4) fits by (intro exI [of _ c']) (simp add: bvcomm_broadcast_f32_def cong: if_cong)
qed

theorem broadcast_delivers_witness:
  "\<exists>c c'. bvcomm_broadcast_f32 True c 1 0 2 = Some (0, c') \<and> cm_m c (two_place 1 + 4) = Some 7 \<and> cm_m c' (two_place 0 + 4) = Some 7"
proof -
  have sep: "separate 2 two_place (unat (8 :: u64) + unat (4 :: u64))" by (auto simp: separate_def two_place_def)
  obtain w f m where i: "bvcomm_init True (\<lambda>r. Some (two_place r)) (int 2) 8 4 (snd fabric_init) (\<lambda>_. None) = (Some w, f, m)"
    and ok: "comm_ok 2 two_place 8 4 \<lparr> cm_w = w, cm_f = f, cm_m = m \<rparr>"
    and m: "m = (\<lambda>a. if \<exists>r < 2. two_place r \<le> a \<and> a < two_place r + (unat (8 :: u64) + unat (4 :: u64)) then Some 0 else None)"
    using bvcomm_init_world [OF _ _ _ _ _ sep, of "\<lambda>r. Some (two_place r)" "snd fabric_init" "\<lambda>_. None"] by auto
  let ?c = "\<lparr> cm_w = w, cm_f = f, cm_m = m(36 \<mapsto> 7) \<rparr>"
  have "\<exists>r < 2. two_place r \<le> 36 \<and> 36 < two_place r + (unat (8 :: u64) + unat (4 :: u64))"
    by (intro exI [of _ 1]) (simp add: two_place_def)
  then have "m 36 \<noteq> None" unfolding m by simp
  then have ok': "comm_ok 2 two_place 8 4 ?c" using comm_ok_mem [OF ok, of "m(36 \<mapsto> 7)"] by auto
  obtain c' where c': "bvcomm_broadcast_f32 True ?c (int 1) 0 2 = Some (0, c')"
    "\<forall>r < 2. \<forall>i < 4 * unat (2 :: u64). cm_m c' (two_place r + (4 * unat (0 :: u64) + i)) = cm_m ?c (two_place 1 + (4 * unat (0 :: u64) + i))"
    using broadcast_delivers [OF ok', of 1 2 0] by auto
  have "cm_m c' (two_place 0 + 4) = cm_m ?c (two_place 1 + 4)" using c'(2) [rule_format, of 0 4] by simp
  then show ?thesis using c'(1) by (intro exI [of _ ?c] exI [of _ c']) (simp add: two_place_def)
qed

end
