(* ===== verification/Cache.thy ===== *)
theory Cache
  imports HostMem
begin

text \<open>
  The cache emulator \<open>emu/brad_cache_emu.c\<close>: set-associative caches without a memory behind them and the
  three-level hierarchy. An access returns the position of its line in the array of lines; \<open>None\<close> is
  undefined behaviour (a shift by 32 or more, a line outside the array, a copy of more than a line).
\<close>

section \<open>State\<close>

datatype brad_cache_level = CACHE_L1I | CACHE_L1D | CACHE_L2 | CACHE_L3

abbreviation (input) BRAD_CACHE_LINE_BITS :: nat where "BRAD_CACHE_LINE_BITS \<equiv> 6"

abbreviation (input) BRAD_CACHE_LINE_SIZE :: u32 where "BRAD_CACHE_LINE_SIZE \<equiv> 64"

record brad_cache_line =
  cl_valid :: u8
  cl_dirty :: u8
  cl_lru :: u8
  cl_tag :: u32
  cl_data :: "u8 list"

record brad_cache =
  c_level :: brad_cache_level
  c_sets :: u32
  c_ways :: u32
  c_line_size :: u32
  c_latency_hit :: u32
  c_latency_miss :: u32
  c_lines :: "brad_cache_line list option"
  c_hits :: u64
  c_misses :: u64

definition zero_line :: brad_cache_line where
  "zero_line = \<lparr> cl_valid = 0, cl_dirty = 0, cl_lru = 0, cl_tag = 0, cl_data = replicate 64 0 \<rparr>"

definition zero_cache :: brad_cache where
  "zero_cache = \<lparr> c_level = CACHE_L1I, c_sets = 0, c_ways = 0, c_line_size = 0, c_latency_hit = 0,
     c_latency_miss = 0, c_lines = None, c_hits = 0, c_misses = 0 \<rparr>"

text \<open>\<open>mem\<close> tells whether \<open>calloc\<close> succeeds. The geometry is stored before it is called.\<close>

definition brad_cache_init :: "bool \<Rightarrow> brad_cache_level \<Rightarrow> u32 \<Rightarrow> u32 \<Rightarrow> u32 \<Rightarrow> u32 \<Rightarrow> brad_cache option
    \<Rightarrow> (errno + unit) \<times> brad_cache option" where
  "brad_cache_init mem level size_kb ways latency_hit latency_miss co =
     (case co of None \<Rightarrow> (Inl EINVAL, None)
      | Some c \<Rightarrow>
        if ways = 0 \<or> size_kb = 0 then (Inl EINVAL, Some c)
        else let total_bytes = (ucast size_kb :: u64) * 1024;
                 num_lines = (ucast (total_bytes div ucast BRAD_CACHE_LINE_SIZE) :: u32);
                 sets = num_lines div ways in
          if sets = 0 then (Inl EINVAL, Some c)
          else let c1 = c\<lparr> c_level := level, c_sets := sets, c_ways := ways, c_line_size := BRAD_CACHE_LINE_SIZE,
                 c_latency_hit := latency_hit, c_latency_miss := latency_miss, c_hits := 0, c_misses := 0 \<rparr> in
            if mem then (Inr (), Some (c1\<lparr> c_lines := Some (replicate (unat num_lines) zero_line) \<rparr>))
            else (Inl ENOMEM, Some (c1\<lparr> c_lines := None \<rparr>)))"

definition brad_cache_destroy :: "brad_cache option \<Rightarrow> brad_cache option" where
  "brad_cache_destroy co = map_option (\<lambda>c. c\<lparr> c_lines := None \<rparr>) co"

section \<open>Looking up a line\<close>

lemma half_decreases: "drop_bit 1 (temp :: u32) \<noteq> 0 \<Longrightarrow> unat (drop_bit 1 temp) < unat temp"
  by (cases "temp = 0") (simp_all add: drop_bit_eq_div unat_div unat_gt_0)

text \<open>\<open>while (temp >>= 1) set_bits++\<close>\<close>

function set_bits :: "u32 \<Rightarrow> nat" where
  "set_bits temp = (let temp' = drop_bit 1 temp in if temp' = 0 then 0 else Suc (set_bits temp'))"
  by auto
termination by (relation "measure unat") (use half_decreases in auto)

declare set_bits.simps [simp del]

text \<open>The set and the tag of an address.\<close>

definition cache_index :: "u32 \<Rightarrow> u32 \<Rightarrow> (u32 \<times> u32) option" where
  "cache_index sets addr =
     (let n = set_bits sets in
      if 32 \<le> BRAD_CACHE_LINE_BITS + n then None
      else Some (drop_bit BRAD_CACHE_LINE_BITS addr AND (push_bit n 1 - 1), drop_bit (BRAD_CACHE_LINE_BITS + n) addr))"

definition line_hit :: "u32 \<Rightarrow> brad_cache_line \<Rightarrow> bool" where
  "line_hit tag cl \<longleftrightarrow> cl_valid cl \<noteq> 0 \<and> cl_tag cl = tag"

text \<open>The scan of a set: the way that hits, or the victim, the first one with the largest age.\<close>

fun scan_ways :: "u32 \<Rightarrow> brad_cache_line list \<Rightarrow> nat \<Rightarrow> nat \<Rightarrow> u8 \<Rightarrow> nat + nat" where
  "scan_ways tag [] i lru_line lru_val = Inr lru_line"
| "scan_ways tag (cl # cls) i lru_line lru_val =
     (if line_hit tag cl then Inl i
      else if lru_val < cl_lru cl then scan_ways tag cls (Suc i) i (cl_lru cl)
      else scan_ways tag cls (Suc i) lru_line lru_val)"

definition find_line :: "brad_cache \<Rightarrow> u32 \<Rightarrow> bool \<Rightarrow> (nat option \<times> brad_cache) option" where
  "find_line c addr for_write = (case cache_index (c_sets c) addr of None \<Rightarrow> None
     | Some (idx, tag) \<Rightarrow>
       if c_sets c \<le> idx then Some (None, c)
       else case c_lines c of None \<Rightarrow> None
       | Some ls \<Rightarrow>
         let line_idx = unat (idx * c_ways c); ways = slice ls line_idx (unat (c_ways c)) in
         if length ls < line_idx + max 1 (unat (c_ways c)) then None
         else case scan_ways tag ways 0 0 (cl_lru (ls ! line_idx)) of
           Inl i \<Rightarrow> Some (Some (line_idx + i), c\<lparr> c_hits := c_hits c + 1,
             c_lines := Some (ls[line_idx + i := (ls ! (line_idx + i))\<lparr> cl_lru := 0 \<rparr>]) \<rparr>)
         | Inr i \<Rightarrow> Some (Some (line_idx + i), c\<lparr> c_misses := c_misses c + 1,
             c_lines := Some (ls[line_idx + i := zero_line\<lparr> cl_valid := 1, cl_tag := tag,
               cl_dirty := (if for_write then 1 else 0) \<rparr>]) \<rparr>))"

section \<open>Accesses\<close>

text \<open>
  A read returns the bytes it stores in the caller's buffer. The copy starts at the beginning of the
  line whatever the low bits of the address are.
\<close>

definition brad_cache_read :: "brad_cache option \<Rightarrow> u32 \<Rightarrow> bool \<Rightarrow> u64 \<Rightarrow> ((errno + int \<times> u8 list) \<times> brad_cache option) option" where
  "brad_cache_read co addr have_buf sz = (case co of
       Some c \<Rightarrow>
         if \<not> have_buf then Some (Inl EINVAL, co)
         else (case find_line c addr False of None \<Rightarrow> None
           | Some (None, c') \<Rightarrow> Some (Inl EFAULT, Some c')
           | Some (Some i, c') \<Rightarrow>
             let data = cl_data (the (c_lines c') ! i) in
             if length data < unat sz then None
             else Some (Inr (sint (ucast sz :: u32), take (unat sz) data), Some c'))
     | None \<Rightarrow> Some (Inl EINVAL, co))"

definition brad_cache_write :: "brad_cache option \<Rightarrow> u32 \<Rightarrow> u8 list option \<Rightarrow> u64 \<Rightarrow> ((errno + int) \<times> brad_cache option) option" where
  "brad_cache_write co addr bufo sz = (case (co, bufo) of
       (Some c, Some buf) \<Rightarrow>
         (case find_line c addr True of None \<Rightarrow> None
           | Some (None, c') \<Rightarrow> Some (Inl EFAULT, Some c')
           | Some (Some i, c') \<Rightarrow>
             let ls = the (c_lines c'); cl = ls ! i in
             if length (cl_data cl) < unat sz \<or> length buf < unat sz then None
             else Some (Inr (sint (ucast sz :: u32)), Some (c'\<lparr> c_lines := Some (ls[i :=
               cl\<lparr> cl_dirty := 1, cl_data := blit (cl_data cl) 0 (take (unat sz) buf) \<rparr>]) \<rparr>)))
     | _ \<Rightarrow> Some (Inl EINVAL, co))"

definition clear_line :: "brad_cache_line \<Rightarrow> brad_cache_line" where
  "clear_line cl = cl\<lparr> cl_valid := 0, cl_dirty := 0, cl_lru := 0 \<rparr>"

definition brad_cache_flush :: "brad_cache option \<Rightarrow> ((errno + unit) \<times> brad_cache option) option" where
  "brad_cache_flush co = (case co of None \<Rightarrow> Some (Inl EINVAL, co)
     | Some c \<Rightarrow> (case c_lines c of None \<Rightarrow> Some (Inl EINVAL, co)
       | Some ls \<Rightarrow>
         let num_lines = unat (c_sets c * c_ways c) in
         if length ls < num_lines then None
         else Some (Inr (), Some (c\<lparr> c_lines := Some (map clear_line (take num_lines ls) @ drop num_lines ls) \<rparr>))))"

fun clear_way :: "u32 \<Rightarrow> brad_cache_line list \<Rightarrow> brad_cache_line list" where
  "clear_way tag [] = []"
| "clear_way tag (cl # cls) =
     (if line_hit tag cl then cl\<lparr> cl_valid := 0, cl_dirty := 0 \<rparr> # cls else cl # clear_way tag cls)"

definition brad_cache_flush_addr :: "brad_cache option \<Rightarrow> u32 \<Rightarrow> ((errno + unit) \<times> brad_cache option) option" where
  "brad_cache_flush_addr co addr = (case co of None \<Rightarrow> Some (Inl EINVAL, co)
     | Some c \<Rightarrow> (case cache_index (c_sets c) addr of None \<Rightarrow> None
       | Some (idx, tag) \<Rightarrow>
         if c_sets c \<le> idx then Some (Inl EINVAL, co)
         else case c_lines c of None \<Rightarrow> None
         | Some ls \<Rightarrow>
           let line_idx = unat (idx * c_ways c); n = unat (c_ways c) in
           if length ls < line_idx + n then None
           else Some (Inr (), Some (c\<lparr> c_lines := Some (take line_idx ls
             @ clear_way tag (slice ls line_idx n) @ drop (line_idx + n) ls) \<rparr>))))"

text \<open>The two counters; the hit rate is their quotient in percent, computed in \<open>double\<close> by the caller of this model.\<close>

definition brad_cache_get_stats :: "brad_cache \<Rightarrow> u64 \<times> u64" where
  "brad_cache_get_stats c = (c_hits c, c_misses c)"

section \<open>The hierarchy\<close>

abbreviation (input) BRAD_CORE_MAX_CLUSTERS :: nat where "BRAD_CORE_MAX_CLUSTERS \<equiv> 4"

text \<open>\<open>BRAD_CORE_PHX_PER_CLUSTER + BRAD_CORE_FAL_PER_CLUSTER\<close>\<close>

abbreviation (input) CORES_PER_CLUSTER :: nat where "CORES_PER_CLUSTER \<equiv> 8"

record brad_cache_hierarchy =
  h_l1i :: "brad_cache list list"
  h_l1d :: "brad_cache list list"
  h_l2 :: "brad_cache list"
  h_l3 :: brad_cache

definition zero_hierarchy :: brad_cache_hierarchy where
  "zero_hierarchy = \<lparr> h_l1i = replicate BRAD_CORE_MAX_CLUSTERS (replicate CORES_PER_CLUSTER zero_cache),
     h_l1d = replicate BRAD_CORE_MAX_CLUSTERS (replicate CORES_PER_CLUSTER zero_cache),
     h_l2 = replicate BRAD_CORE_MAX_CLUSTERS zero_cache, h_l3 = zero_cache \<rparr>"

text \<open>
  The results of the single initialisations are not checked. \<open>mem\<close> says for each level, cluster and
  core whether the allocation succeeds.
\<close>

definition init_one :: "bool \<Rightarrow> brad_cache_level \<Rightarrow> u32 \<Rightarrow> u32 \<Rightarrow> u32 \<Rightarrow> u32 \<Rightarrow> brad_cache" where
  "init_one mem level size_kb ways hit miss =
     the (snd (brad_cache_init mem level size_kb ways hit miss (Some zero_cache)))"

definition brad_hierarchy_init :: "(brad_cache_level \<Rightarrow> nat \<Rightarrow> nat \<Rightarrow> bool) \<Rightarrow> u32 \<Rightarrow> u32
    \<Rightarrow> brad_cache_hierarchy option \<Rightarrow> (errno + unit) \<times> brad_cache_hierarchy option" where
  "brad_hierarchy_init mem num_clusters cores_per_cluster ho = (case ho of None \<Rightarrow> (Inl EINVAL, None)
     | Some h \<Rightarrow>
       if BRAD_CORE_MAX_CLUSTERS < unat num_clusters then (Inl EINVAL, ho)
       else if CORES_PER_CLUSTER < unat cores_per_cluster then (Inl EINVAL, ho)
       else (Inr (), Some \<lparr>
         h_l1i = map (\<lambda>k. map (\<lambda>i. if k < unat num_clusters \<and> i < unat cores_per_cluster
             then init_one (mem CACHE_L1I k i) CACHE_L1I 32 4 1 8 else zero_cache) [0..<CORES_PER_CLUSTER]) [0..<BRAD_CORE_MAX_CLUSTERS],
         h_l1d = map (\<lambda>k. map (\<lambda>i. if k < unat num_clusters \<and> i < unat cores_per_cluster
             then init_one (mem CACHE_L1D k i) CACHE_L1D 32 8 2 10 else zero_cache) [0..<CORES_PER_CLUSTER]) [0..<BRAD_CORE_MAX_CLUSTERS],
         h_l2 = map (\<lambda>k. if k < unat num_clusters
             then init_one (mem CACHE_L2 k 0) CACHE_L2 512 8 8 25 else zero_cache) [0..<BRAD_CORE_MAX_CLUSTERS],
         h_l3 = init_one (mem CACHE_L3 0 0) CACHE_L3 8192 16 25 80 \<rparr>))"

text \<open>A negative result of a level is an error, or a size that is negative as an \<open>int\<close>.\<close>

fun res_ok :: "(errno + int \<times> u8 list) \<times> brad_cache option \<Rightarrow> bool" where
  "res_ok (Inl e, c) \<longleftrightarrow> False"
| "res_ok (Inr (k, bs), c) \<longleftrightarrow> 0 \<le> k"

definition put2 :: "'a list list \<Rightarrow> nat \<Rightarrow> nat \<Rightarrow> 'a \<Rightarrow> 'a list list" where
  "put2 xss k i x = xss[k := (xss ! k)[i := x]]"

text \<open>Cluster and core are not checked: beyond the arrays the access is undefined.\<close>

definition brad_hierarchy_read :: "brad_cache_hierarchy option \<Rightarrow> u32 \<Rightarrow> u32 \<Rightarrow> bool \<Rightarrow> u32 \<Rightarrow> bool \<Rightarrow> u64
    \<Rightarrow> ((errno + int \<times> u8 list) \<times> brad_cache_hierarchy option) option" where
  "brad_hierarchy_read ho cluster core is_data addr have_buf sz = (case ho of None \<Rightarrow> Some (Inl EINVAL, ho)
     | Some h \<Rightarrow>
       if \<not> have_buf then Some (Inl EINVAL, ho)
       else let k = unat cluster; i = unat core; l1 = (if is_data then h_l1d h else h_l1i h) in
         if BRAD_CORE_MAX_CLUSTERS \<le> k \<or> CORES_PER_CLUSTER \<le> i then None
         else case brad_cache_read (Some (l1 ! k ! i)) addr True sz of None \<Rightarrow> None
         | Some (r1, c1) \<Rightarrow>
           let h1 = (if is_data then h\<lparr> h_l1d := put2 (h_l1d h) k i (the c1) \<rparr>
                     else h\<lparr> h_l1i := put2 (h_l1i h) k i (the c1) \<rparr>) in
           if res_ok (r1, c1) then Some (r1, Some h1)
           else case brad_cache_read (Some (h_l2 h1 ! k)) addr True sz of None \<Rightarrow> None
           | Some (r2, c2) \<Rightarrow>
             let h2 = h1\<lparr> h_l2 := (h_l2 h1)[k := the c2] \<rparr> in
             if res_ok (r2, c2) then Some (r2, Some h2)
             else case brad_cache_read (Some (h_l3 h2)) addr True sz of None \<Rightarrow> None
             | Some (r3, c3) \<Rightarrow>
               let h3 = h2\<lparr> h_l3 := the c3 \<rparr> in
               if res_ok (r3, c3) then Some (r3, Some h3)
               else Some (Inr (sint (ucast sz :: u32), replicate (unat sz) 0), Some h3))"

text \<open>The result of the write is not checked either.\<close>

definition brad_hierarchy_write :: "brad_cache_hierarchy option \<Rightarrow> u32 \<Rightarrow> u32 \<Rightarrow> u32 \<Rightarrow> u8 list option \<Rightarrow> u64
    \<Rightarrow> ((errno + int) \<times> brad_cache_hierarchy option) option" where
  "brad_hierarchy_write ho cluster core addr bufo sz = (case (ho, bufo) of
       (Some h, Some buf) \<Rightarrow>
         let k = unat cluster; i = unat core in
         if BRAD_CORE_MAX_CLUSTERS \<le> k \<or> CORES_PER_CLUSTER \<le> i then None
         else (case brad_cache_write (Some (h_l1d h ! k ! i)) addr (Some buf) sz of None \<Rightarrow> None
           | Some (_, c) \<Rightarrow> Some (Inr (sint (ucast sz :: u32)), Some (h\<lparr> h_l1d := put2 (h_l1d h) k i (the c) \<rparr>)))
     | _ \<Rightarrow> Some (Inl EINVAL, ho))"

definition brad_hierarchy_get_stats :: "brad_cache_hierarchy \<Rightarrow> u64 \<times> u64" where
  "brad_hierarchy_get_stats h =
     (let all_caches = concat (h_l1i h) @ concat (h_l1d h) @ h_l2 h @ [h_l3 h] in
      (sum_list (map c_hits all_caches), sum_list (map c_misses all_caches)))"

end
