(* ===== verification/CacheProps.thy ===== *)
theory CacheProps
  imports Cache Machine
begin

text \<open>
  Properties of the cache emulator: the scan of a set, reading back what was written, and what the
  ages that never grow make of the replacement.
\<close>

section \<open>The scan\<close>

definition first_hit :: "u32 \<Rightarrow> brad_cache_line list \<Rightarrow> nat \<Rightarrow> bool" where
  "first_hit tag cls k \<longleftrightarrow> k < length cls \<and> line_hit tag (cls ! k) \<and> (\<forall>m < k. \<not> line_hit tag (cls ! m))"

lemma first_hit_Cons:
  "first_hit tag (cl # cls) k \<longleftrightarrow> (if line_hit tag cl then k = 0 else \<exists>j. k = Suc j \<and> first_hit tag cls j)"
  by (cases k) (auto simp: first_hit_def All_less_Suc2)

lemma first_hit_Nil: "\<not> first_hit tag [] k"
  by (simp add: first_hit_def)

lemma scan_hit: "first_hit tag cls k \<Longrightarrow> scan_ways tag cls i v l = Inl (i + k)"
  by (induction tag cls i v l arbitrary: k rule: scan_ways.induct) (auto simp: first_hit_Cons first_hit_Nil split: if_splits)

lemma scan_Inl: "scan_ways tag cls i v l = Inl j \<Longrightarrow> \<exists>k. j = i + k \<and> first_hit tag cls k"
  by (induction tag cls i v l rule: scan_ways.induct) (fastforce simp: first_hit_Cons split: if_splits)+

lemma scan_Inr:
  "scan_ways tag cls i v l = Inr j \<Longrightarrow>
    (\<forall>cl \<in> set cls. \<not> line_hit tag cl) \<and> (j = v \<or> (\<exists>k < length cls. j = i + k))"
  by (induction tag cls i v l rule: scan_ways.induct) (fastforce split: if_splits)+

lemma scan_no_age:
  "scan_ways tag cls i v l = Inr j \<Longrightarrow> (\<And>cl. cl \<in> set cls \<Longrightarrow> cl_lru cl = 0) \<Longrightarrow> j = v"
  by (induction tag cls i v l rule: scan_ways.induct) (auto split: if_splits)

section \<open>Looking up\<close>

abbreviation set_base :: "brad_cache \<Rightarrow> u32 \<Rightarrow> nat" where
  "set_base c idx \<equiv> unat (idx * c_ways c)"

text \<open>A found line is in the set of its address, carries its tag, and no earlier way does.\<close>

lemma find_line_found:
  assumes "find_line c a w = Some (Some j, c')" and "c_ways c \<noteq> 0"
  obtains idx tag ls k cl where "cache_index (c_sets c) a = Some (idx, tag)" "idx < c_sets c" "c_lines c = Some ls"
    "j = set_base c idx + k" "k < unat (c_ways c)" "set_base c idx + unat (c_ways c) \<le> length ls"
    "c_lines c' = Some (ls[j := cl])" "line_hit tag cl" "\<And>m. m < k \<Longrightarrow> \<not> line_hit tag (ls ! (set_base c idx + m))"
    "c_sets c' = c_sets c" "c_ways c' = c_ways c"
    "cl = (ls ! j)\<lparr> cl_lru := 0 \<rparr> \<or> cl = zero_line\<lparr> cl_valid := 1, cl_tag := tag, cl_dirty := (if w then 1 else 0) \<rparr>"
proof -
  have ways: "0 < unat (c_ways c)" using assms(2) by (simp add: unat_gt_0)
  obtain idx tag ls where f: "cache_index (c_sets c) a = Some (idx, tag)" "\<not> c_sets c \<le> idx" "c_lines c = Some ls"
    "\<not> length ls < set_base c idx + max 1 (unat (c_ways c))"
    using assms(1) by (auto simp: find_line_def Let_def split: option.splits if_splits)
  let ?b = "set_base c idx" and ?n = "unat (c_ways c)"
  let ?s = "slice ls ?b ?n"
  have len: "?b + ?n \<le> length ls" "length ?s = ?n" using f(4) ways by auto
  have nth: "?s ! m = ls ! (?b + m)" if "m < ?n" for m using that len by simp
  show ?thesis
  proof (cases "scan_ways tag ?s 0 0 (cl_lru (ls ! ?b))")
    case (Inl k)
    then have k: "first_hit tag ?s k" using scan_Inl by fastforce
    then have hit: "k < ?n" "line_hit tag (ls ! (?b + k))" "\<And>m. m < k \<Longrightarrow> \<not> line_hit tag (ls ! (?b + m))"
      using nth len(2) by (auto simp: first_hit_def)
    show ?thesis
      by (rule that [of idx tag ls k "(ls ! (?b + k))\<lparr> cl_lru := 0 \<rparr>"])
        (use assms(1) f len hit Inl in \<open>auto simp: find_line_def Let_def line_hit_def\<close>)
  next
    case (Inr k)
    have none: "\<forall>cl \<in> set ?s. \<not> line_hit tag cl" "k < ?n"
      using scan_Inr [OF Inr] len(2) ways by auto
    have miss: "\<not> line_hit tag (ls ! (?b + m))" if "m < ?n" for m
      using none(1) nth [OF that] nth_mem [of m ?s] that len(2) by metis
    show ?thesis
      by (rule that [of idx tag ls k "zero_line\<lparr> cl_valid := 1, cl_tag := tag, cl_dirty := (if w then 1 else 0) \<rparr>"])
        (use assms(1) f len none(2) miss Inr in \<open>auto simp: find_line_def Let_def line_hit_def\<close>)
  qed
qed

lemma find_line_hit:
  assumes "cache_index (c_sets c) a = Some (idx, tag)" "idx < c_sets c" "c_lines c = Some ls"
    "k < unat (c_ways c)" "set_base c idx + unat (c_ways c) \<le> length ls" "line_hit tag (ls ! (set_base c idx + k))"
    "\<And>m. m < k \<Longrightarrow> \<not> line_hit tag (ls ! (set_base c idx + m))"
  shows "find_line c a w = Some (Some (set_base c idx + k), c\<lparr> c_hits := c_hits c + 1,
    c_lines := Some (ls[set_base c idx + k := (ls ! (set_base c idx + k))\<lparr> cl_lru := 0 \<rparr>]) \<rparr>)"
proof -
  let ?s = "slice ls (set_base c idx) (unat (c_ways c))"
  have nth: "?s ! m = ls ! (set_base c idx + m)" if "m < unat (c_ways c)" for m
    using that assms(5) by simp
  have "first_hit tag ?s k"
    unfolding first_hit_def
  proof (intro conjI allI impI)
    show "k < length ?s" using assms(4,5) by simp
    show "line_hit tag (?s ! k)" unfolding nth [OF assms(4)] by (rule assms(6))
    show "\<not> line_hit tag (?s ! m)" if "m < k" for m
      using assms(7) [OF that] nth [of m] that assms(4) by simp
  qed
  then have scan: "scan_ways tag ?s 0 0 v = Inl k" for v
    using scan_hit by fastforce
  have len: "\<not> length ls < set_base c idx + max 1 (unat (c_ways c))" "\<not> c_sets c \<le> idx"
    using assms(2,4,5) by simp_all
  show ?thesis
    unfolding find_line_def Let_def assms(1,3) option.case prod.case if_not_P [OF len(1)] if_not_P [OF len(2)] scan
    by simp
qed

lemma cache_index_line: "drop_bit 6 a = drop_bit 6 b \<Longrightarrow> cache_index s a = cache_index s b"
proof -
  assume "drop_bit 6 a = drop_bit 6 b"
  then have "drop_bit n (drop_bit 6 a) = drop_bit n (drop_bit 6 b)" for n by (rule arg_cong)
  then have "drop_bit (6 + n) a = drop_bit (6 + n) b" for n
    using drop_bit_drop_bit [of n 6 a] drop_bit_drop_bit [of n 6 b] by (simp only: add.commute [of 6 n])
  then show ?thesis using \<open>drop_bit 6 a = drop_bit 6 b\<close> by (simp add: cache_index_def Let_def)
qed

text \<open>C36: What has been written to a cache line is read back, as a hit, by a read of any address of that line:
  the low six bits of the address do not matter, and the data starts at the beginning of the line.\<close>

theorem cache_read_after_write:
  assumes "brad_cache_write (Some c) a (Some bs) n = Some (Inr r, Some c1)" and "c_ways c \<noteq> 0"
    and "drop_bit 6 a = drop_bit 6 b" and "unat k \<le> unat n"
  shows "\<exists>c2. brad_cache_read (Some c1) b True k = Some (Inr (sint (ucast k :: u32), take (unat k) bs), Some c2)
    \<and> c_hits c2 = c_hits c1 + 1 \<and> c_misses c2 = c_misses c1"
proof -
  obtain j c' where f: "find_line c a True = Some (Some j, c')"
    and len: "unat n \<le> length (cl_data (the (c_lines c') ! j))" "unat n \<le> length bs"
    and c1: "c1 = c'\<lparr> c_lines := Some ((the (c_lines c'))[j := (the (c_lines c') ! j)\<lparr> cl_dirty := 1,
      cl_data := blit (cl_data (the (c_lines c') ! j)) 0 (take (unat n) bs) \<rparr>]) \<rparr>"
    using assms(1) by (auto simp: brad_cache_write_def Let_def not_less split: option.splits if_splits)
  obtain idx tag ls i cl where w: "cache_index (c_sets c) a = Some (idx, tag)" "idx < c_sets c" "c_lines c = Some ls"
    "j = set_base c idx + i" "i < unat (c_ways c)" "set_base c idx + unat (c_ways c) \<le> length ls"
    "c_lines c' = Some (ls[j := cl])" "line_hit tag cl" "\<And>m. m < i \<Longrightarrow> \<not> line_hit tag (ls ! (set_base c idx + m))"
    "c_sets c' = c_sets c" "c_ways c' = c_ways c"
    by (rule find_line_found [OF f assms(2)]) blast
  let ?new = "cl\<lparr> cl_dirty := 1, cl_data := blit (cl_data cl) 0 (take (unat n) bs) \<rparr>"
  have j: "j < length ls" using w(4-6) by linarith
  have lines: "c_lines c1 = Some (ls[j := ?new])" "c_sets c1 = c_sets c" "c_ways c1 = c_ways c"
    using c1 w j by simp_all
  have "find_line c1 b False = Some (Some j, c1\<lparr> c_hits := c_hits c1 + 1, c_lines := Some (ls[j := ?new\<lparr> cl_lru := 0 \<rparr>]) \<rparr>)"
    using find_line_hit [of c1 b idx tag "ls[j := ?new]" i False] w lines j assms(3)
    by (simp add: cache_index_line [OF assms(3)] line_hit_def)
  moreover have data: "cl_data cl = cl_data (the (c_lines c') ! j)" using w(7) j by simp
  have "take (unat k) (blit (cl_data cl) 0 (take (unat n) bs)) = take (unat k) bs"
    using len data assms(4) by (subst blit_at) (auto simp: min_def)
  moreover have "unat k \<le> length (blit (cl_data cl) 0 (take (unat n) bs))"
    using len data assms(4) by simp
  ultimately show ?thesis using j by (simp add: brad_cache_read_def Let_def)
qed

lemma write_result:
  assumes "case x of Some (Inr r, Some c) \<Rightarrow> r = k | _ \<Rightarrow> False"
  obtains c1 where "x = Some (Inr k, Some c1)"
  using assms by (cases x rule: option.exhaust) (auto split: prod.splits sum.splits option.splits)

definition tiny_cache :: brad_cache where
  "tiny_cache = zero_cache\<lparr> c_sets := 2, c_ways := 2, c_lines := Some (replicate 4 zero_line) \<rparr>"

theorem cache_read_after_write_witness:
  "\<exists>c1 c2. brad_cache_write (Some tiny_cache) 0x47 (Some [1, 2, 3]) 3 = Some (Inr 3, Some c1) \<and>
     brad_cache_read (Some c1) 0x40 True 2 = Some (Inr (2, [1, 2]), Some c2) \<and> c_hits c2 = c_hits c1 + 1"
proof -
  have "(case brad_cache_write (Some tiny_cache) 0x47 (Some [1, 2, 3]) 3 of Some (Inr r, Some c) \<Rightarrow> r = 3 | _ \<Rightarrow> False)"
    by code_simp
  then obtain c1 where c1: "brad_cache_write (Some tiny_cache) 0x47 (Some [1, 2, 3]) 3 = Some (Inr 3, Some c1)"
    by (elim write_result)
  have "c_ways tiny_cache \<noteq> 0" "drop_bit 6 (0x47 :: u32) = drop_bit 6 0x40" "unat (2 :: u64) \<le> unat (3 :: u64)"
    by (simp_all add: tiny_cache_def drop_bit_eq_div)
  from cache_read_after_write [OF c1 this] c1 show ?thesis by auto
qed

section \<open>Replacement\<close>

datatype cache_op =
    CInit bool brad_cache_level u32 u32 u32 u32
  | CDestroy
  | CRead u32 u64
  | CWrite u32 "u8 list" u64
  | CFlush
  | CFlushAddr u32

fun cache_next :: "cache_op \<Rightarrow> brad_cache \<Rightarrow> brad_cache option" where
  "cache_next (CInit mem l sz w h m) c = snd (brad_cache_init mem l sz w h m (Some c))"
| "cache_next CDestroy c = brad_cache_destroy (Some c)"
| "cache_next (CRead a n) c = Option.bind (brad_cache_read (Some c) a True n) snd"
| "cache_next (CWrite a bs n) c = Option.bind (brad_cache_write (Some c) a (Some bs) n) snd"
| "cache_next CFlush c = Option.bind (brad_cache_flush (Some c)) snd"
| "cache_next (CFlushAddr a) c = Option.bind (brad_cache_flush_addr (Some c) a) snd"

definition cache_exec :: "cache_op \<Rightarrow> brad_cache \<Rightarrow> brad_cache" where
  "cache_exec op c = (case cache_next op c of Some c' \<Rightarrow> c' | None \<Rightarrow> c)"

definition cache_safe :: "cache_op \<Rightarrow> brad_cache \<Rightarrow> bool" where
  "cache_safe op c \<longleftrightarrow> cache_next op c \<noteq> None"

text \<open>Lines have no age, and only the first way of a set is ever valid.\<close>

definition line_ok :: "nat \<Rightarrow> nat \<Rightarrow> brad_cache_line \<Rightarrow> bool" where
  "line_ok ways i cl \<longleftrightarrow> cl_lru cl = 0 \<and> (cl_valid cl \<noteq> 0 \<longrightarrow> i mod ways = 0)"

definition lines_ok :: "nat \<Rightarrow> brad_cache_line list \<Rightarrow> bool" where
  "lines_ok ways ls \<longleftrightarrow> (\<forall>i < length ls. line_ok ways i (ls ! i))"

definition cache_inv :: "brad_cache \<Rightarrow> bool" where
  "cache_inv c \<longleftrightarrow> (\<forall>ls. c_lines c = Some ls \<longrightarrow>
     c_ways c \<noteq> 0 \<and> unat (c_sets c) * unat (c_ways c) < 2 ^ 32 \<and> lines_ok (unat (c_ways c)) ls)"

lemma lines_ok_update: "lines_ok w ls \<Longrightarrow> line_ok w i cl \<Longrightarrow> lines_ok w (ls[i := cl])"
  unfolding lines_ok_def by (metis length_list_update nth_list_update_eq nth_list_update_neq)

lemma lines_ok_weaker:
  assumes "lines_ok w ls" "length ls' = length ls"
    "\<And>i. i < length ls \<Longrightarrow> cl_lru (ls' ! i) = 0 \<or> cl_lru (ls' ! i) = cl_lru (ls ! i)"
    "\<And>i. i < length ls \<Longrightarrow> cl_valid (ls' ! i) = 0 \<or> cl_valid (ls' ! i) = cl_valid (ls ! i)"
  shows "lines_ok w ls'"
  using assms unfolding lines_ok_def line_ok_def by metis

lemma set_base_exact:
  assumes "unat (c_sets c) * unat (c_ways c) < 2 ^ 32" "idx < c_sets c"
  shows "set_base c idx = unat idx * unat (c_ways c)"
proof -
  have "unat idx * unat (c_ways c) \<le> unat (c_sets c) * unat (c_ways c)"
    using assms(2) by (intro mult_right_mono) (simp_all add: word_less_nat_alt)
  then have "unat idx * unat (c_ways c) < 2 ^ 32" using assms(1) by linarith
  then show ?thesis by (simp add: unat_word_ariths)
qed

lemma find_line_inv:
  assumes inv: "cache_inv c" and f: "find_line c a w = Some (r, c')"
  shows "cache_inv c'"
proof (cases r)
  case None
  then show ?thesis using inv f by (auto simp: find_line_def Let_def split: option.splits if_splits sum.splits)
next
  case (Some j)
  obtain idx tag ls where w: "\<not> c_sets c \<le> idx" "c_lines c = Some ls" "cache_index (c_sets c) a = Some (idx, tag)"
    "\<not> length ls < set_base c idx + max 1 (unat (c_ways c))"
    using f Some by (auto simp: find_line_def Let_def split: option.splits if_splits)
  note f' = f [unfolded find_line_def Let_def w(2,3) option.case prod.case if_not_P [OF w(4)]]
  let ?b = "set_base c idx" and ?n = "unat (c_ways c)"
  have ok: "lines_ok ?n ls" "unat (c_sets c) * ?n < 2 ^ 32" "c_ways c \<noteq> 0"
    using inv w(2) by (auto simp: cache_inv_def)
  have age: "cl_lru x = 0" if "x \<in> set (slice ls ?b ?n)" for x
    using ok(1) in_set_dropD [OF in_set_takeD [OF that]] by (auto simp: lines_ok_def line_ok_def in_set_conv_nth)
  show ?thesis
  proof (cases "scan_ways tag (slice ls ?b ?n) 0 0 (cl_lru (ls ! ?b))")
    case (Inl i)
    then have "i < length (slice ls ?b ?n)" using scan_Inl [OF Inl] by (auto simp: first_hit_def)
    then have "line_ok ?n (?b + i) ((ls ! (?b + i))\<lparr> cl_lru := 0 \<rparr>)"
      using ok(1) by (auto simp: lines_ok_def line_ok_def)
    then show ?thesis using f' w(1) Inl ok lines_ok_update by (auto simp: cache_inv_def)
  next
    case (Inr i)
    then have "i = 0" using scan_no_age age by blast
    then have "line_ok ?n (?b + i) (zero_line\<lparr> cl_valid := 1, cl_tag := tag, cl_dirty := (if w then 1 else 0) \<rparr>)"
      using set_base_exact [OF ok(2)] w(1) by (simp add: line_ok_def zero_line_def not_le)
    then show ?thesis using f' w(1) Inr ok lines_ok_update by (auto simp: cache_inv_def)
  qed
qed

lemma clear_way_weaker:
  "length (clear_way tag ls) = length ls \<and> (\<forall>i < length ls. cl_lru (clear_way tag ls ! i) = cl_lru (ls ! i)
     \<and> (cl_valid (clear_way tag ls ! i) = 0 \<or> cl_valid (clear_way tag ls ! i) = cl_valid (ls ! i)))"
  by (induction ls) (auto simp: nth_Cons' All_less_Suc2)

lemma write_inv: "cache_inv c \<Longrightarrow> c_lines c = Some ls \<Longrightarrow>
  cache_inv (c\<lparr> c_lines := Some (ls[i := (ls ! i)\<lparr> cl_dirty := d, cl_data := x \<rparr>]) \<rparr>)"
proof -
  assume a: "cache_inv c" "c_lines c = Some ls"
  have "lines_ok (unat (c_ways c)) (ls[i := (ls ! i)\<lparr> cl_dirty := d, cl_data := x \<rparr>])"
  proof (rule lines_ok_weaker [of _ ls])
    fix k assume k: "k < length ls"
    let ?new = "ls[i := (ls ! i)\<lparr> cl_dirty := d, cl_data := x \<rparr>]"
    show "cl_lru (?new ! k) = 0 \<or> cl_lru (?new ! k) = cl_lru (ls ! k)"
      using k by (cases "i = k") auto
    show "cl_valid (?new ! k) = 0 \<or> cl_valid (?new ! k) = cl_valid (ls ! k)"
      using k by (cases "i = k") auto
  qed (use a in \<open>auto simp: cache_inv_def\<close>)
  then show ?thesis using a by (simp add: cache_inv_def)
qed

lemma flush_inv:
  assumes "cache_inv c" "brad_cache_flush (Some c) = Some (r, Some c')"
  shows "cache_inv c'"
proof (cases "c_lines c")
  case (Some ls)
  let ?n = "unat (c_sets c * c_ways c)"
  have "lines_ok (unat (c_ways c)) (map clear_line (take ?n ls) @ drop ?n ls)"
    by (rule lines_ok_weaker [of _ ls])
      (use assms(1) Some in \<open>auto simp: cache_inv_def clear_line_def nth_append\<close>)
  then show ?thesis using assms Some by (auto simp: brad_cache_flush_def Let_def cache_inv_def split: if_splits)
qed (use assms in \<open>auto simp: brad_cache_flush_def\<close>)

lemma flush_addr_inv:
  assumes "cache_inv c" "brad_cache_flush_addr (Some c) a = Some (r, Some c')"
  shows "cache_inv c'"
proof (cases "c' = c")
  case False
  then obtain idx tag ls where f: "c_lines c = Some ls" "set_base c idx + unat (c_ways c) \<le> length ls"
    "c' = c\<lparr> c_lines := Some (take (set_base c idx) ls @ clear_way tag (slice ls (set_base c idx) (unat (c_ways c)))
       @ drop (set_base c idx + unat (c_ways c)) ls) \<rparr>"
    using assms(2) by (auto simp: brad_cache_flush_addr_def Let_def not_less split: option.splits if_splits)
  let ?b = "set_base c idx" and ?n = "unat (c_ways c)"
  let ?s = "slice ls ?b ?n"
  let ?new = "take ?b ls @ clear_way tag ?s @ drop (?b + ?n) ls"
  have cw: "length (clear_way tag ?s) = ?n"
    "\<And>i. i < ?n \<Longrightarrow> cl_lru (clear_way tag ?s ! i) = cl_lru (ls ! (?b + i)) \<and>
      (cl_valid (clear_way tag ?s ! i) = 0 \<or> cl_valid (clear_way tag ?s ! i) = cl_valid (ls ! (?b + i)))"
    using clear_way_weaker [of tag ?s] f(2) by auto
  have at: "cl_lru (?new ! i) = cl_lru (ls ! i) \<and> (cl_valid (?new ! i) = 0 \<or> cl_valid (?new ! i) = cl_valid (ls ! i))"
    if "i < length ls" for i
    using that f(2) cw(1) cw(2) [of "i - ?b"] by (auto simp: nth_append min_absorb2 less_diff_conv2)
  have "lines_ok ?n ?new"
    by (rule lines_ok_weaker [of _ ls]) (use assms(1) f cw at in \<open>auto simp: cache_inv_def min_absorb2\<close>)
  then show ?thesis using assms(1) f by (auto simp: cache_inv_def)
qed (use assms in simp)

lemma init_inv:
  assumes "cache_inv c" "snd (brad_cache_init mem l sz w h m (Some c)) = Some c'"
  shows "cache_inv c'"
proof -
  have "unat (x div w) * unat w < 2 ^ 32" for x
    unfolding unat_div by (rule le_less_trans [OF div_times_less_eq_dividend unat_u32])
  moreover have "lines_ok n (replicate k zero_line)" for n k
    by (simp add: lines_ok_def line_ok_def zero_line_def)
  ultimately show ?thesis
    using assms by (auto simp: brad_cache_init_def Let_def cache_inv_def split: if_splits)
qed

lemma read_exec_inv:
  assumes "cache_inv c" "brad_cache_read (Some c) a True n = Some (r, Some c')"
  shows "cache_inv c'"
  using assms find_line_inv [OF assms(1)]
  by (auto simp: brad_cache_read_def Let_def split: option.splits if_splits)

lemma write_exec_inv:
  assumes inv: "cache_inv c" and w: "brad_cache_write (Some c) a (Some bs) n = Some (r, Some c')"
  shows "cache_inv c'"
proof -
  obtain jo c1 where f: "find_line c a True = Some (jo, c1)"
    using w by (auto simp: brad_cache_write_def split: option.splits)
  have i1: "cache_inv c1" by (rule find_line_inv [OF inv f])
  show ?thesis
  proof (cases jo)
    case None
    then show ?thesis using w f i1 by (simp add: brad_cache_write_def)
  next
    case (Some j)
    then have "c_lines c1 \<noteq> None"
      using f by (auto simp: find_line_def Let_def split: option.splits if_splits sum.splits)
    then obtain ls where ls: "c_lines c1 = Some ls" by auto
    then show ?thesis using w f Some write_inv [OF i1 ls]
      by (auto simp: brad_cache_write_def Let_def split: if_splits)
  qed
qed

lemma cache_next_inv: "cache_inv c \<Longrightarrow> cache_next op c = Some c' \<Longrightarrow> cache_inv c'"
proof (cases op)
  case (CInit mem l sz w h m)
  assume "cache_inv c" "cache_next op c = Some c'"
  then show ?thesis using CInit init_inv by simp
qed (auto simp: brad_cache_destroy_def cache_inv_def [of "_\<lparr> c_lines := None \<rparr>"] bind_eq_Some_conv
    intro: read_exec_inv write_exec_inv flush_inv flush_addr_inv)

interpretation cache: op_machine cache_exec cache_safe cache_inv zero_cache
proof unfold_locales
  show "cache_inv zero_cache" by (simp add: cache_inv_def zero_cache_def)
  fix c op assume "cache_inv c" "cache_safe op c"
  then show "cache_inv (cache_exec op c)"
    by (cases "cache_next op c") (auto simp: cache_exec_def intro: cache_next_inv)
qed

text \<open>The ages of the lines are never increased, so the victim of a miss is always the first way of its set:
  after any sequence of initialisations, reads, writes and flushes only lines at multiples of the number
  of ways are valid. A cache of any associativity behaves as a direct-mapped one.\<close>

theorem cache_one_way_used:
  assumes "cache.run_safe ops zero_cache" and "c = cache.run ops zero_cache"
    and "c_lines c = Some ls" and "i < length ls" and "cl_valid (ls ! i) \<noteq> 0"
  shows "i mod unat (c_ways c) = 0"
proof -
  have "cache_inv c" unfolding assms(2) by (rule cache.run_inv [OF cache.init_inv assms(1)])
  then show ?thesis using assms(3-5) by (auto simp: cache_inv_def lines_ok_def line_ok_def)
qed

text \<open>One kilobyte in four sets of four ways; the two addresses share a set.\<close>

definition cache_ops :: "cache_op list" where
  "cache_ops = [CInit True CACHE_L1D 1 4 1 8, CWrite 0 [7] 1, CRead 0x100 1, CRead 0 1]"

theorem cache_one_way_used_witness:
  "c_misses (cache.run cache_ops zero_cache) = 3 \<and> cl_valid (the (c_lines (cache.run cache_ops zero_cache)) ! 1) = 0"
proof -
  let ?c = "cache.run cache_ops zero_cache"
  have s: "cache.run_safe cache_ops zero_cache"
    unfolding cache_ops_def cache.run_safe.simps by (intro conjI; code_simp)
  have e: "c_misses ?c = 3 \<and> c_ways ?c = 4 \<and> c_lines ?c \<noteq> None \<and> length (the (c_lines ?c)) = 16"
    unfolding cache_ops_def cache.run.simps by code_simp
  then have "\<not> cl_valid (the (c_lines ?c) ! 1) \<noteq> 0"
    using cache_one_way_used [OF s refl, of "the (c_lines ?c)" 1] by auto
  then show ?thesis using e by simp
qed

end
