(* ===== verification/Bradcompress.thy ===== *)
theory Bradcompress
  imports Spmp HostMem
begin

text \<open>
  The compression model \<open>drivers/bradcompress.c\<close>: profile table, counters, the calls on host memory and
  the stream into a mapped SPMP region. A profile is the unsigned value of the enumeration type.
\<close>

section \<open>Profiles\<close>

record hdb_profile_cfg =
  pc_name :: string
  pc_avg_ratio_x100 :: u32
  pc_decomp_gbs :: u32
  pc_compress_gbs :: u32
  pc_dict_preload :: string
  pc_dict_len :: u32

abbreviation (input) HDB_PROFILE_GENERAL :: u32 where "HDB_PROFILE_GENERAL \<equiv> 6"

definition profile_cfgs :: "hdb_profile_cfg list" where
  "profile_cfgs =
    [\<lparr> pc_name = ''mesh'', pc_avg_ratio_x100 = 350, pc_decomp_gbs = 56, pc_compress_gbs = 12,
       pc_dict_preload = ''BRAD_MESH_DICT_v1:vertex:index:normal:uv:tangent:bitangent:weights'', pc_dict_len = 72 \<rparr>,
     \<lparr> pc_name = ''texture'', pc_avg_ratio_x100 = 280, pc_decomp_gbs = 62, pc_compress_gbs = 15,
       pc_dict_preload = ''BRAD_TEX_DICT_v1:BCn:RGBA:BC1:BC3:BC5:BC7:ASTC:ETC2'', pc_dict_len = 66 \<rparr>,
     \<lparr> pc_name = ''audio'', pc_avg_ratio_x100 = 220, pc_decomp_gbs = 48, pc_compress_gbs = 8,
       pc_dict_preload = ''BRAD_AUDIO_DICT_v1:WAV:PCM:FLAC:OPUS:MP3:AAC:DSD'', pc_dict_len = 62 \<rparr>,
     \<lparr> pc_name = ''mesh_detailed'', pc_avg_ratio_x100 = 350, pc_decomp_gbs = 56, pc_compress_gbs = 12,
       pc_dict_preload = ''BRAD_MESH_DICT_v1'', pc_dict_len = 20 \<rparr>,
     \<lparr> pc_name = ''video'', pc_avg_ratio_x100 = 250, pc_decomp_gbs = 45, pc_compress_gbs = 6,
       pc_dict_preload = ''BRAD_VIDEO_DICT_v1:intra:motion:temporal:ref'', pc_dict_len = 50 \<rparr>,
     \<lparr> pc_name = ''binary'', pc_avg_ratio_x100 = 180, pc_decomp_gbs = 35, pc_compress_gbs = 5,
       pc_dict_preload = ''BRAD_BIN_DICT_v1:LZ:generic:default'', pc_dict_len = 37 \<rparr>,
     \<lparr> pc_name = ''general'', pc_avg_ratio_x100 = 180, pc_decomp_gbs = 35, pc_compress_gbs = 5,
       pc_dict_preload = ''BRAD_GEN_DICT_v1:lz:default'', pc_dict_len = 26 \<rparr>]"

definition get_cfg :: "u32 \<Rightarrow> hdb_profile_cfg option" where
  "get_cfg p = (if HDB_PROFILE_GENERAL < p then None else Some (profile_cfgs ! unat p))"

section \<open>State\<close>

record hdb =
  hd_initialized :: bool
  hd_total_compressed :: u64
  hd_total_decompressed :: u64
  hd_comp_bytes_in :: u64
  hd_comp_bytes_out :: u64
  hd_decomp_bytes_in :: u64
  hd_decomp_bytes_out :: u64
  hd_stream_to_spmp_calls :: u32
  hd_errors :: u32

definition hdb_init :: "(errno + unit) \<times> hdb" where
  "hdb_init = (Inr (), \<lparr> hd_initialized = True, hd_total_compressed = 0, hd_total_decompressed = 0,
     hd_comp_bytes_in = 0, hd_comp_bytes_out = 0, hd_decomp_bytes_in = 0, hd_decomp_bytes_out = 0,
     hd_stream_to_spmp_calls = 0, hd_errors = 0 \<rparr>)"

section \<open>Compression and decompression\<close>

definition packed_len :: "u32 \<Rightarrow> u64 \<Rightarrow> u64" where
  "packed_len ratio src_len =
     (let out_len = (src_len * 100 + ucast ratio - 1) div ucast ratio in
      if out_len < src_len \<and> 0 < out_len then out_len else src_len)"

definition unpacked_len :: "u32 \<Rightarrow> u64 \<Rightarrow> u64" where
  "unpacked_len ratio src_len = (src_len * ucast ratio + 99) div 100"

text \<open>Null pointers are \<open>None\<close>; the result is the new value of \<open>*dst_len\<close>.\<close>

definition hdb_compress :: "nat option \<Rightarrow> u64 \<Rightarrow> nat option \<Rightarrow> bool \<Rightarrow> u32 \<Rightarrow> hdb \<Rightarrow> host
    \<Rightarrow> ((errno + u64) \<times> hdb \<times> host) call" where
  "hdb_compress srco src_len dsto have_len profile h m =
     (if \<not> hd_initialized h then Returns (Inl ENODEV, h, m)
      else case (srco, dsto, have_len) of
        (Some src, Some dst, True) \<Rightarrow>
          (case get_cfg profile of None \<Rightarrow> Returns (Inl EINVAL, h, m)
           | Some cfg \<Rightarrow>
             let out_len = packed_len (pc_avg_ratio_x100 cfg) src_len in
             (case host_memcpy dst src (unat out_len) m of None \<Rightarrow> Undefined
              | Some m' \<Rightarrow> Returns (Inr out_len, h\<lparr> hd_total_compressed := hd_total_compressed h + 1,
                  hd_comp_bytes_in := hd_comp_bytes_in h + src_len,
                  hd_comp_bytes_out := hd_comp_bytes_out h + out_len \<rparr>, m')))
      | _ \<Rightarrow> Returns (Inl EINVAL, h, m))"

text \<open>\<open>leno\<close> holds the capacity. The source is never read, the destination is filled with zeros.\<close>

definition hdb_decompress :: "nat option \<Rightarrow> u64 \<Rightarrow> nat option \<Rightarrow> u64 option \<Rightarrow> u32 \<Rightarrow> hdb \<Rightarrow> host
    \<Rightarrow> ((errno + u64) \<times> hdb \<times> host) call" where
  "hdb_decompress srco src_len dsto leno profile h m =
     (if \<not> hd_initialized h then Returns (Inl ENODEV, h, m)
      else case (srco, dsto, leno) of
        (Some src, Some dst, Some len) \<Rightarrow>
          (case get_cfg profile of None \<Rightarrow> Returns (Inl EINVAL, h, m)
           | Some cfg \<Rightarrow>
             let out_len = unpacked_len (pc_avg_ratio_x100 cfg) src_len in
             if 0 < out_len \<and> len < out_len then Returns (Inl ENOBUFS, h, m)
             else (case poke m dst (replicate (unat out_len) 0) of None \<Rightarrow> Undefined
              | Some m' \<Rightarrow> Returns (Inr out_len, h\<lparr> hd_total_decompressed := hd_total_decompressed h + 1,
                  hd_decomp_bytes_in := hd_decomp_bytes_in h + src_len,
                  hd_decomp_bytes_out := hd_decomp_bytes_out h + out_len \<rparr>, m')))
      | _ \<Rightarrow> Returns (Inl EINVAL, h, m))"

section \<open>Streaming into SPMP\<close>

text \<open>The region is mapped and unmapped again; the result of the unmapping is not looked at.\<close>

definition hdb_stream_to_spmp :: "bool \<Rightarrow> u64 \<Rightarrow> u64 \<Rightarrow> u32 \<Rightarrow> hdb \<Rightarrow> spmp \<Rightarrow> (errno + int) \<times> hdb \<times> spmp" where
  "hdb_stream_to_spmp have_src src_len spmp_addr profile h s =
     (if \<not> hd_initialized h then (Inl ENODEV, h, s)
      else if \<not> have_src \<or> spmp_addr = 0 then (Inl EINVAL, h, s)
      else case get_cfg profile of None \<Rightarrow> (Inl EINVAL, h, s)
      | Some cfg \<Rightarrow>
        let out_len = unpacked_len (pc_avg_ratio_x100 cfg) src_len in
        (case spmp_map spmp_addr out_len s of
           (Inl e, s1) \<Rightarrow> (Inl e, h\<lparr> hd_errors := hd_errors h + 1 \<rparr>, s1)
         | (Inr _, s1) \<Rightarrow>
           (Inr (sint (ucast out_len :: u32)),
            h\<lparr> hd_stream_to_spmp_calls := hd_stream_to_spmp_calls h + 1,
               hd_total_decompressed := hd_total_decompressed h + 1,
               hd_decomp_bytes_in := hd_decomp_bytes_in h + src_len,
               hd_decomp_bytes_out := hd_decomp_bytes_out h + out_len \<rparr>,
            snd (spmp_unmap spmp_addr out_len s1))))"

section \<open>Queries\<close>

definition hdb_query_ratio :: "u32 \<Rightarrow> bool \<Rightarrow> hdb \<Rightarrow> errno + u32" where
  "hdb_query_ratio profile have_out h =
     (if \<not> hd_initialized h then Inl ENODEV
      else if \<not> have_out then Inl EINVAL
      else case get_cfg profile of None \<Rightarrow> Inl EINVAL | Some cfg \<Rightarrow> Inr (pc_avg_ratio_x100 cfg))"

definition hdb_query_speed :: "u32 \<Rightarrow> hdb \<Rightarrow> errno + u32 \<times> u32" where
  "hdb_query_speed profile h =
     (if \<not> hd_initialized h then Inl ENODEV
      else case get_cfg profile of None \<Rightarrow> Inl EINVAL
      | Some cfg \<Rightarrow> Inr (pc_decomp_gbs cfg, pc_compress_gbs cfg))"

text \<open>The byte counts are those of decompression.\<close>

definition hdb_query_stats :: "hdb \<Rightarrow> errno + u64 \<times> u64 \<times> u64 \<times> u64 \<times> u32" where
  "hdb_query_stats h =
     (if \<not> hd_initialized h then Inl ENODEV
      else Inr (hd_total_compressed h, hd_total_decompressed h, hd_decomp_bytes_in h, hd_decomp_bytes_out h, hd_errors h))"

section \<open>What the model keeps\<close>

lemma get_cfg_ratio:
  assumes "get_cfg p = Some cfg"
  shows "180 \<le> unat (pc_avg_ratio_x100 cfg) \<and> unat (pc_avg_ratio_x100 cfg) \<le> 350"
proof -
  have p: "unat p \<le> 6" and c: "cfg = profile_cfgs ! unat p"
    using assms by (auto simp: get_cfg_def not_less word_le_nat_alt split: if_splits)
  have "\<forall>i \<in> set [0..<7]. 180 \<le> unat (pc_avg_ratio_x100 (profile_cfgs ! i)) \<and> unat (pc_avg_ratio_x100 (profile_cfgs ! i)) \<le> 350"
    by code_simp
  then show ?thesis unfolding c using p by simp
qed

text \<open>Decompressing what has been compressed gives zeros only: whatever the input was, a compression and a
  decompression that both succeed leave the buffer filled with zero bytes.\<close>

theorem hdb_roundtrip_loses:
  assumes "hdb_compress (Some src) n (Some mid) True p h m = Returns (Inr k, h1, m1)"
    and "hdb_decompress (Some mid) k (Some dst) (Some cap) p h1 m1 = Returns (Inr j, h2, m2)"
  shows "peek m2 dst (unat j) = Some (replicate (unat j) 0) \<and> unat k \<le> unat n
    \<and> hd_total_compressed h2 = hd_total_compressed h + 1 \<and> hd_total_decompressed h2 = hd_total_decompressed h + 1"
proof -
  obtain cfg where c: "get_cfg p = Some cfg" "k = packed_len (pc_avg_ratio_x100 cfg) n"
    "hd_total_compressed h1 = hd_total_compressed h + 1" "hd_total_decompressed h1 = hd_total_decompressed h"
    using assms(1) by (auto simp: hdb_compress_def Let_def split: if_splits option.splits)
  have d: "poke m1 dst (replicate (unat j) 0) = Some m2" "hd_total_compressed h2 = hd_total_compressed h1"
    "hd_total_decompressed h2 = hd_total_decompressed h1 + 1"
    using assms(2) by (auto simp: hdb_decompress_def Let_def split: if_splits option.splits)
  have "unat k \<le> unat n"
    unfolding c(2) packed_len_def by (simp add: Let_def word_less_nat_alt)
  then show ?thesis using peek_poke [OF d(1)] c d by simp
qed

definition sample_bytes :: host where
  "sample_bytes = (\<lambda>a. if a < 64 then Some (of_nat a) else None)"

theorem hdb_roundtrip_loses_witness:
  "\<exists>k h1 m1 j h2 m2. hdb_compress (Some 1) 4 (Some 16) True 0 (snd hdb_init) sample_bytes = Returns (Inr k, h1, m1) \<and>
     hdb_decompress (Some 16) k (Some 32) (Some 16) 0 h1 m1 = Returns (Inr j, h2, m2) \<and>
     0 < unat j \<and> peek m2 32 (unat j) = Some (replicate (unat j) 0)"
proof -
  have "case hdb_compress (Some 1) 4 (Some 16) True 0 (snd hdb_init) sample_bytes of
      Returns (Inr k, h1, m1) \<Rightarrow> (case hdb_decompress (Some 16) k (Some 32) (Some 16) 0 h1 m1 of
        Returns (Inr j, h2, m2) \<Rightarrow> j = 7 | _ \<Rightarrow> False) | _ \<Rightarrow> False"
    by code_simp
  from call_returns [OF this] obtain k h1 m1
    where r1: "hdb_compress (Some 1) 4 (Some 16) True 0 (snd hdb_init) sample_bytes = Returns (Inr k, h1, m1)"
      and c: "case hdb_decompress (Some 16) k (Some 32) (Some 16) 0 h1 m1 of Returns (Inr j, h2, m2) \<Rightarrow> j = 7 | _ \<Rightarrow> False"
    by blast
  from call_returns [OF c] obtain h2 m2 where "hdb_decompress (Some 16) k (Some 32) (Some 16) 0 h1 m1 = Returns (Inr 7, h2, m2)"
    by blast
  note r = r1 this
  have "0 < unat (7 :: u64)" by simp
  then show ?thesis using hdb_roundtrip_loses [OF r] r by blast
qed

lemma map_find_append_new:
  "map_find ms addr n = None \<Longrightarrow> m_active x \<Longrightarrow> addr < m_addr x + m_size x \<Longrightarrow> m_addr x < addr + n \<Longrightarrow>
    map_find (ms @ [x]) addr n = Some (length ms)"
  by (induction ms) (auto split: if_splits)

text \<open>A successful stream leaves the active regions of the map table as they were, but uses up one of its 256
  entries for good: the entry stays behind as an inactive one.\<close>

theorem hdb_stream_uses_slot:
  assumes "hdb_stream_to_spmp True n addr p h s = (Inr r, h', s')" and "get_cfg p = Some cfg"
    and "unat addr + unat (unpacked_len (pc_avg_ratio_x100 cfg) n) < 2 ^ 64"
  shows "filter m_active (sp_maps s') = filter m_active (sp_maps s) \<and> length (sp_maps s') = Suc (length (sp_maps s))
    \<and> length (sp_maps s) < 256"
proof -
  let ?n = "unpacked_len (pc_avg_ratio_x100 cfg) n"
  let ?new = "\<lparr> m_addr = addr, m_size = ?n, m_node = of_nat (length (sp_maps s)), m_active = True \<rparr>"
  obtain k s1 where m: "spmp_map addr ?n s = (Inr k, s1)" and s': "s' = snd (spmp_unmap addr ?n s1)"
    using assms(1,2) by (auto simp: hdb_stream_to_spmp_def Let_def split: if_splits prod.splits sum.splits)
  have g: "sp_init s" "addr \<noteq> 0" "?n \<noteq> 0" "map_find (sp_maps s) addr ?n = None" "length (sp_maps s) < 256"
    and s1: "sp_init s1" "sp_maps s1 = sp_maps s @ [?new]"
    using m by (auto simp: spmp_map_def Let_def split: if_splits)
  have "unat addr < unat (addr + ?n)"
    using assms(3) g(3) by (simp add: unat_word_ariths unat_gt_0)
  then have "map_find (sp_maps s1) addr ?n = Some (length (sp_maps s))"
    unfolding s1 using g by (intro map_find_append_new) (simp_all add: word_less_nat_alt)
  then show ?thesis using g s1 s' by (simp add: spmp_unmap_def)
qed

theorem hdb_stream_uses_slot_witness:
  "\<exists>r h' s'. hdb_stream_to_spmp True 10 0x1000 6 (snd hdb_init) (snd spmp_init) = (Inr r, h', s') \<and> length (sp_maps s') = 1"
proof -
  let ?r = "hdb_stream_to_spmp True 10 0x1000 6 (snd hdb_init) (snd spmp_init)"
  have f: "fst ?r = Inr 18" by code_simp
  obtain h' s' where r: "?r = (Inr 18, h', s')" using f by (cases ?r) auto
  have c: "get_cfg 6 = Some (profile_cfgs ! 6)" by (simp add: get_cfg_def)
  have n: "unat (0x1000 :: u64) + unat (unpacked_len (pc_avg_ratio_x100 (profile_cfgs ! 6)) 10) < 2 ^ 64"
    by (simp add: unpacked_len_def profile_cfgs_def)
  have "length (sp_maps s') = 1"
    using hdb_stream_uses_slot [OF r c n] by (simp add: spmp_init_def)
  then show ?thesis using r by blast
qed

end
