(* ===== verification/BradIsa.thy ===== *)
theory BradIsa
  imports Prelude
begin

text \<open>
  The instruction set of the CPU cores (\<open>include/brad/bradisa.h\<close>): opcodes, the 32-bit and the compressed
  16-bit formats with their encoders, decoding, names, the pipeline models, control registers and status flags.
  Register numbers are taken out of four bits of a word and kept as naturals. The macros shift their opcode
  into the sign bit of an \<open>int\<close>; the model wraps around at 32 bits, as the compilers the build uses do.
\<close>

type_synonym u16 = "16 word"

text \<open>An \<open>int16_t\<close> promoted and added to a \<open>uint32_t\<close>.\<close>

abbreviation sext16 :: "u16 \<Rightarrow> u32" where
  "sext16 x \<equiv> signed x"

section \<open>Registers\<close>

definition BRAD_NUM_REGS :: nat where "BRAD_NUM_REGS = 16"

definition BRAD_NUM_REGS_LITE :: nat where "BRAD_NUM_REGS_LITE = 8"

definition BRAD_REG_SP :: nat where "BRAD_REG_SP = 13"

definition BRAD_REG_LR :: nat where "BRAD_REG_LR = 14"

section \<open>32-bit instructions\<close>

definition BRAD_INSN_OPCODE :: "u32 \<Rightarrow> nat" where
  "BRAD_INSN_OPCODE i = unat (drop_bit 28 i AND 0xF)"

definition BRAD_INSN_RD :: "u32 \<Rightarrow> nat" where
  "BRAD_INSN_RD i = unat (drop_bit 24 i AND 0xF)"

definition BRAD_INSN_RS1 :: "u32 \<Rightarrow> nat" where
  "BRAD_INSN_RS1 i = unat (drop_bit 20 i AND 0xF)"

definition BRAD_INSN_RS2 :: "u32 \<Rightarrow> nat" where
  "BRAD_INSN_RS2 i = unat (drop_bit 16 i AND 0xF)"

definition BRAD_INSN_IMM :: "u32 \<Rightarrow> u16" where
  "BRAD_INSN_IMM i = ucast (i AND 0xFFFF)"

definition BRAD_RRR :: "nat \<Rightarrow> nat \<Rightarrow> nat \<Rightarrow> nat \<Rightarrow> u32" where
  "BRAD_RRR opc rd rs1 rs2 = push_bit 28 (of_nat opc) OR push_bit 24 (of_nat rd) OR push_bit 20 (of_nat rs1)
     OR push_bit 16 (of_nat rs2)"

definition BRAD_RI :: "nat \<Rightarrow> nat \<Rightarrow> nat \<Rightarrow> u32 \<Rightarrow> u32" where
  "BRAD_RI opc rd rs1 imm = push_bit 28 (of_nat opc) OR push_bit 24 (of_nat rd) OR push_bit 20 (of_nat rs1)
     OR (imm AND 0xFFFF)"

definition BRAD_BR :: "nat \<Rightarrow> nat \<Rightarrow> u32 \<Rightarrow> u32" where
  "BRAD_BR opc rs1 imm = push_bit 28 (of_nat opc) OR push_bit 20 (of_nat rs1) OR ((imm * 4) AND 0xFFFF)"

definition BRAD_JMP :: "nat \<Rightarrow> u32 \<Rightarrow> u32" where
  "BRAD_JMP opc imm = push_bit 28 (of_nat opc) OR ((imm * 4) AND 0xFFFF)"

definition BRAD_RET_RAW :: u32 where "BRAD_RET_RAW = 0xF0000000"

datatype brad_isa_opcode = OP_ADD | OP_SUB | OP_MUL | OP_AND | OP_OR | OP_XOR | OP_SHL | OP_SHR
  | OP_ADDI | OP_LDW | OP_STW | OP_BZ | OP_BNZ | OP_JMP | OP_CALL | OP_RET

fun opcode_num :: "brad_isa_opcode \<Rightarrow> nat" where
  "opcode_num OP_ADD = 0x0"
| "opcode_num OP_SUB = 0x1"
| "opcode_num OP_MUL = 0x2"
| "opcode_num OP_AND = 0x3"
| "opcode_num OP_OR = 0x4"
| "opcode_num OP_XOR = 0x5"
| "opcode_num OP_SHL = 0x6"
| "opcode_num OP_SHR = 0x7"
| "opcode_num OP_ADDI = 0x8"
| "opcode_num OP_LDW = 0x9"
| "opcode_num OP_STW = 0xA"
| "opcode_num OP_BZ = 0xB"
| "opcode_num OP_BNZ = 0xC"
| "opcode_num OP_JMP = 0xD"
| "opcode_num OP_CALL = 0xE"
| "opcode_num OP_RET = 0xF"

definition all_opcodes :: "brad_isa_opcode list" where
  "all_opcodes = [OP_ADD, OP_SUB, OP_MUL, OP_AND, OP_OR, OP_XOR, OP_SHL, OP_SHR,
     OP_ADDI, OP_LDW, OP_STW, OP_BZ, OP_BNZ, OP_JMP, OP_CALL, OP_RET]"

text \<open>The cast of a four-bit field to the enumeration.\<close>

definition opcode_of :: "nat \<Rightarrow> brad_isa_opcode" where
  "opcode_of n = all_opcodes ! n"

lemma opcode_of_num [simp]: "opcode_of (opcode_num opc) = opc"
  by (cases opc) (simp_all add: opcode_of_def all_opcodes_def)

lemma opcode_num_less [simp]: "opcode_num opc < 16"
  by (cases opc) simp_all

lemma opcode_num_of [simp]: "n < 16 \<Longrightarrow> opcode_num (opcode_of n) = n"
  unfolding opcode_of_def all_opcodes_def
  by (simp add: numeral_nat less_Suc_eq) (elim disjE; simp)

definition BRAD_IS_BRANCH :: "brad_isa_opcode \<Rightarrow> bool" where
  "BRAD_IS_BRANCH opc \<longleftrightarrow> opcode_num OP_BZ \<le> opcode_num opc \<and> opcode_num opc \<le> opcode_num OP_RET"

definition brad_isa_opcode_name :: "brad_isa_opcode \<Rightarrow> string" where
  "brad_isa_opcode_name opc = (case opc of
     OP_ADD \<Rightarrow> ''ADD'' | OP_SUB \<Rightarrow> ''SUB'' | OP_MUL \<Rightarrow> ''MUL'' | OP_AND \<Rightarrow> ''AND'' | OP_OR \<Rightarrow> ''OR''
   | OP_XOR \<Rightarrow> ''XOR'' | OP_SHL \<Rightarrow> ''SHL'' | OP_SHR \<Rightarrow> ''SHR'' | OP_ADDI \<Rightarrow> ''ADDI'' | OP_LDW \<Rightarrow> ''LDW''
   | OP_STW \<Rightarrow> ''STW'' | OP_BZ \<Rightarrow> ''BZ'' | OP_BNZ \<Rightarrow> ''BNZ'' | OP_JMP \<Rightarrow> ''JMP'' | OP_CALL \<Rightarrow> ''CALL''
   | OP_RET \<Rightarrow> ''RET'')"

record brad_isa_insn =
  d_raw :: u32
  d_opcode :: brad_isa_opcode
  d_rd :: nat
  d_rs1 :: nat
  d_rs2 :: nat
  d_imm :: u16

definition brad_isa_decode :: "u32 \<Rightarrow> brad_isa_insn" where
  "brad_isa_decode raw = \<lparr> d_raw = raw, d_opcode = opcode_of (BRAD_INSN_OPCODE raw), d_rd = BRAD_INSN_RD raw,
     d_rs1 = BRAD_INSN_RS1 raw, d_rs2 = BRAD_INSN_RS2 raw, d_imm = BRAD_INSN_IMM raw \<rparr>"

section \<open>Compressed 16-bit instructions\<close>

definition BRAD_CINSN_OP :: "u16 \<Rightarrow> nat" where
  "BRAD_CINSN_OP i = unat (drop_bit 12 i AND 0xF)"

definition BRAD_CINSN_RD :: "u16 \<Rightarrow> nat" where
  "BRAD_CINSN_RD i = unat (drop_bit 8 i AND 0xF)"

definition BRAD_CINSN_RS1 :: "u16 \<Rightarrow> nat" where
  "BRAD_CINSN_RS1 i = unat (drop_bit 4 i AND 0xF)"

definition BRAD_CINSN_RS2 :: "u16 \<Rightarrow> nat" where
  "BRAD_CINSN_RS2 i = unat (i AND 0xF)"

definition BRAD_CRRR :: "nat \<Rightarrow> nat \<Rightarrow> nat \<Rightarrow> nat \<Rightarrow> u16" where
  "BRAD_CRRR opc rd rs1 rs2 = push_bit 12 (of_nat opc) OR push_bit 8 (of_nat rd) OR push_bit 4 (of_nat rs1)
     OR of_nat rs2"

definition BRAD_CRI :: "nat \<Rightarrow> nat \<Rightarrow> nat \<Rightarrow> u32 \<Rightarrow> u16" where
  "BRAD_CRI opc rd rs1 imm4 = push_bit 12 (of_nat opc) OR push_bit 8 (of_nat rd) OR push_bit 4 (of_nat rs1)
     OR ucast (imm4 AND 0xF)"

definition BRAD_CBR :: "nat \<Rightarrow> nat \<Rightarrow> u32 \<Rightarrow> u16" where
  "BRAD_CBR opc rs1 off8 = push_bit 12 (of_nat opc) OR push_bit 8 (of_nat rs1) OR ucast (off8 AND 0xFF)"

definition BRAD_CMV :: "nat \<Rightarrow> u32 \<Rightarrow> u16" where
  "BRAD_CMV rd imm8 = push_bit 12 0xC OR push_bit 8 (of_nat rd) OR ucast (imm8 AND 0xFF)"

definition BRAD_CNOP :: u16 where "BRAD_CNOP = 0xD000"

datatype brad_isa_cop = COP_ADD | COP_SUB | COP_AND | COP_OR | COP_XOR | COP_SHL | COP_SHR
  | COP_ADDI | COP_LDW | COP_STW | COP_BZ | COP_BNZ | COP_MV | COP_NOP | COP_JMP | COP_CALL

fun cop_num :: "brad_isa_cop \<Rightarrow> nat" where
  "cop_num COP_ADD = 0x0"
| "cop_num COP_SUB = 0x1"
| "cop_num COP_AND = 0x2"
| "cop_num COP_OR = 0x3"
| "cop_num COP_XOR = 0x4"
| "cop_num COP_SHL = 0x5"
| "cop_num COP_SHR = 0x6"
| "cop_num COP_ADDI = 0x7"
| "cop_num COP_LDW = 0x8"
| "cop_num COP_STW = 0x9"
| "cop_num COP_BZ = 0xA"
| "cop_num COP_BNZ = 0xB"
| "cop_num COP_MV = 0xC"
| "cop_num COP_NOP = 0xD"
| "cop_num COP_JMP = 0xE"
| "cop_num COP_CALL = 0xF"

definition all_cops :: "brad_isa_cop list" where
  "all_cops = [COP_ADD, COP_SUB, COP_AND, COP_OR, COP_XOR, COP_SHL, COP_SHR,
     COP_ADDI, COP_LDW, COP_STW, COP_BZ, COP_BNZ, COP_MV, COP_NOP, COP_JMP, COP_CALL]"

definition cop_of :: "nat \<Rightarrow> brad_isa_cop" where
  "cop_of n = all_cops ! n"

lemma cop_of_num [simp]: "cop_of (cop_num c) = c"
  by (cases c) (simp_all add: cop_of_def all_cops_def)

lemma cop_num_less [simp]: "cop_num c < 16"
  by (cases c) simp_all

fun brad_isa_cop_to_op :: "brad_isa_cop \<Rightarrow> brad_isa_opcode" where
  "brad_isa_cop_to_op COP_ADD = OP_ADD"
| "brad_isa_cop_to_op COP_SUB = OP_SUB"
| "brad_isa_cop_to_op COP_AND = OP_AND"
| "brad_isa_cop_to_op COP_OR = OP_OR"
| "brad_isa_cop_to_op COP_XOR = OP_XOR"
| "brad_isa_cop_to_op COP_SHL = OP_SHL"
| "brad_isa_cop_to_op COP_SHR = OP_SHR"
| "brad_isa_cop_to_op COP_ADDI = OP_ADDI"
| "brad_isa_cop_to_op COP_LDW = OP_LDW"
| "brad_isa_cop_to_op COP_STW = OP_STW"
| "brad_isa_cop_to_op COP_BZ = OP_BZ"
| "brad_isa_cop_to_op COP_BNZ = OP_BNZ"
| "brad_isa_cop_to_op COP_MV = OP_ADDI"
| "brad_isa_cop_to_op COP_NOP = OP_ADD"
| "brad_isa_cop_to_op COP_JMP = OP_JMP"
| "brad_isa_cop_to_op COP_CALL = OP_CALL"

record brad_isa_cinsn =
  cd_raw :: u16
  cd_cop :: brad_isa_cop
  cd_rd :: nat
  cd_rs1 :: nat
  cd_rs2 :: nat
  cd_imm :: u16

definition brad_isa_cdecode :: "u16 \<Rightarrow> brad_isa_cinsn" where
  "brad_isa_cdecode raw = \<lparr> cd_raw = raw, cd_cop = cop_of (BRAD_CINSN_OP raw), cd_rd = BRAD_CINSN_RD raw,
     cd_rs1 = BRAD_CINSN_RS1 raw, cd_rs2 = BRAD_CINSN_RS2 raw, cd_imm = 0 \<rparr>"

definition brad_isa_cop_name :: "brad_isa_cop \<Rightarrow> string" where
  "brad_isa_cop_name c = (case c of
     COP_ADD \<Rightarrow> ''C.ADD'' | COP_SUB \<Rightarrow> ''C.SUB'' | COP_AND \<Rightarrow> ''C.AND'' | COP_OR \<Rightarrow> ''C.OR''
   | COP_XOR \<Rightarrow> ''C.XOR'' | COP_SHL \<Rightarrow> ''C.SHL'' | COP_SHR \<Rightarrow> ''C.SHR'' | COP_ADDI \<Rightarrow> ''C.ADDI''
   | COP_LDW \<Rightarrow> ''C.LDW'' | COP_STW \<Rightarrow> ''C.STW'' | COP_BZ \<Rightarrow> ''C.BZ'' | COP_BNZ \<Rightarrow> ''C.BNZ''
   | COP_MV \<Rightarrow> ''C.MV'' | COP_NOP \<Rightarrow> ''C.NOP'' | COP_JMP \<Rightarrow> ''C.JMP'' | COP_CALL \<Rightarrow> ''C.CALL'')"

section \<open>Pipeline models\<close>

datatype brad_isa_pipeline_model = PIPE_PHOENIX | PIPE_FALCON | PIPE_KESTREL | PIPE_FALCON_LITE

fun pipe_depth :: "brad_isa_pipeline_model \<Rightarrow> nat" where
  "pipe_depth PIPE_PHOENIX = 10"
| "pipe_depth PIPE_FALCON = 5"
| "pipe_depth PIPE_KESTREL = 8"
| "pipe_depth PIPE_FALCON_LITE = 3"

fun pipe_exec_stage :: "brad_isa_pipeline_model \<Rightarrow> nat" where
  "pipe_exec_stage PIPE_PHOENIX = 6"
| "pipe_exec_stage PIPE_FALCON = 3"
| "pipe_exec_stage PIPE_KESTREL = 4"
| "pipe_exec_stage PIPE_FALCON_LITE = 1"

section \<open>Control registers\<close>

datatype brad_msr = MSR_STATUS | MSR_CAUSE | MSR_EPC | MSR_EAR | MSR_PAGE_BASE | MSR_TICK | MSR_CORE_ID
  | MSR_CLUSTER_ID | MSR_PM_CTRL | MSR_PSTATE | MSR_PSTATES | MSR_VOLTAGE | MSR_FREQ | MSR_ENERGY
  | MSR_PWR_CAP | MSR_TEMP | MSR_PERF_CNT0 | MSR_PERF_CNT1 | MSR_PERF_CNT_CTRL | MSR_L2_PART | MSR_L3_PART
  | MSR_CG_MASK | MSR_DBG_CTRL

definition all_msrs :: "brad_msr list" where
  "all_msrs = [MSR_STATUS, MSR_CAUSE, MSR_EPC, MSR_EAR, MSR_PAGE_BASE, MSR_TICK, MSR_CORE_ID,
     MSR_CLUSTER_ID, MSR_PM_CTRL, MSR_PSTATE, MSR_PSTATES, MSR_VOLTAGE, MSR_FREQ, MSR_ENERGY,
     MSR_PWR_CAP, MSR_TEMP, MSR_PERF_CNT0, MSR_PERF_CNT1, MSR_PERF_CNT_CTRL, MSR_L2_PART, MSR_L3_PART,
     MSR_CG_MASK, MSR_DBG_CTRL]"

text \<open>The register an index names: the indices are 0 to 22 in the order of the header.\<close>

definition msr_at :: "u32 \<Rightarrow> brad_msr option" where
  "msr_at i = (if unat i < length all_msrs then Some (all_msrs ! unat i) else None)"

definition BRAD_STATUS_C :: u32 where "BRAD_STATUS_C = push_bit 4 1"

definition BRAD_PM_CSTATE_MASK :: u32 where "BRAD_PM_CSTATE_MASK = 0xF"

definition BRAD_PM_C1 :: u32 where "BRAD_PM_C1 = 1"

definition BRAD_PM_C2 :: u32 where "BRAD_PM_C2 = 3"

section \<open>Encoding and decoding\<close>

lemma and_15_nat: "(n :: nat) AND 15 = n mod 16"
  using take_bit_eq_mask [of 4 n] by (simp add: take_bit_eq_mod mask_eq_exp_minus_1)

lemma nibble_of_nat [simp]:
  assumes "n < 16"
  shows "unat ((of_nat n :: u32) AND 0xF) = n" "unat ((of_nat n :: u16) AND 0xF) = n"
  using assms by (simp_all add: unsigned_and_eq unat_of_nat and_15_nat)

lemma nibble_32: "(x :: u32) AND 0xF = take_bit 4 x" and nibble_16: "(y :: u16) AND 0xF = take_bit 4 y"
  by (simp_all add: take_bit_eq_mask mask_eq_exp_minus_1)

lemma half_32: "(x :: u32) AND 0xFFFF = take_bit 16 x"
  by (simp add: take_bit_eq_mask mask_eq_exp_minus_1)

lemma byte_32: "(x :: u32) AND 0xFF = take_bit 8 x"
  by (simp add: take_bit_eq_mask mask_eq_exp_minus_1)

text \<open>Registers and opcodes as fields of four bits.\<close>

lemma nat_bit_16: "n < 16 \<Longrightarrow> bit (n :: nat) k \<Longrightarrow> k < 4"
  using bit_take_bit_iff [of 4 n k] by (simp add: take_bit_eq_mod)

lemmas field_defs = BRAD_INSN_OPCODE_def BRAD_INSN_RD_def BRAD_INSN_RS1_def BRAD_INSN_RS2_def
  BRAD_INSN_IMM_def nibble_32 half_32

lemma unat_fieldI:
  assumes "n < 16" and "\<And>k. k < 4 \<Longrightarrow> bit (x :: u32) (k + j) \<longleftrightarrow> bit n k" and "j + 4 \<le> 32"
  shows "unat (take_bit 4 (drop_bit j x)) = n"
proof (rule bit_eqI)
  fix k
  show "bit (unat (take_bit 4 (drop_bit j x))) k \<longleftrightarrow> bit n k"
    using assms nat_bit_16 [of n k]
    by (cases "k < 4") (auto simp: bit_unsigned_iff bit_take_bit_iff bit_drop_bit_eq add.commute [of j])
qed

lemma RRR_fields:
  assumes "opc < 16" "rd < 16" "rs1 < 16" "rs2 < 16"
  shows "BRAD_INSN_OPCODE (BRAD_RRR opc rd rs1 rs2) = opc" "BRAD_INSN_RD (BRAD_RRR opc rd rs1 rs2) = rd"
    "BRAD_INSN_RS1 (BRAD_RRR opc rd rs1 rs2) = rs1" "BRAD_INSN_RS2 (BRAD_RRR opc rd rs1 rs2) = rs2"
    "BRAD_INSN_IMM (BRAD_RRR opc rd rs1 rs2) = 0"
  unfolding field_defs BRAD_RRR_def
      apply (rule unat_fieldI; (simp add: assms)?; auto simp: bit_simps dest: assms [THEN nat_bit_16])+
  apply (rule bit_word_eqI; auto simp: bit_simps)
  done

lemma RI_fields:
  assumes "opc < 16" "rd < 16" "rs1 < 16"
  shows "BRAD_INSN_OPCODE (BRAD_RI opc rd rs1 imm) = opc" "BRAD_INSN_RD (BRAD_RI opc rd rs1 imm) = rd"
    "BRAD_INSN_RS1 (BRAD_RI opc rd rs1 imm) = rs1" "BRAD_INSN_IMM (BRAD_RI opc rd rs1 imm) = ucast imm"
  unfolding field_defs BRAD_RI_def
     apply (rule unat_fieldI; (simp add: assms)?; auto simp: bit_simps dest: assms [THEN nat_bit_16])+
  apply (rule bit_word_eqI; auto simp: bit_simps)
  done

lemma BR_RI: "BRAD_BR opc rs1 imm = BRAD_RI opc 0 rs1 (imm * 4)"
  by (simp add: BRAD_BR_def BRAD_RI_def)

lemma JMP_RI: "BRAD_JMP opc imm = BRAD_RI opc 0 0 (imm * 4)"
  by (simp add: BRAD_JMP_def BRAD_RI_def)

end
