(* ===== verification/CoreEmu.thy ===== *)
theory CoreEmu
  imports BradIsa CString HostMem
begin

text \<open>
  The CPU core emulator \<open>emu/brad_core_emu.c\<close>: execution of one instruction, fetching, the four pipeline models,
  the system of clusters with its shared memory, stepping and running, register and control register access,
  disassembly.

  The memory is one \<open>calloc\<close>ed object: a partial map from offsets to bytes, where an access outside of it is
  undefined (the outer \<open>None\<close> of every result). Each stage owns the instruction its pointer points to, so a
  stage holds the instruction itself, \<open>None\<close> for a null pointer; the allocation of an instruction is taken to
  succeed. Flags that hold 0 or 1 are booleans. The fields that no function reads or writes (\<open>head\<close> and \<open>tail\<close> of a
  pipeline, the cache counters, the pending halfword) are left out.
\<close>

section \<open>State\<close>

record brad_pipeline_stall =
  st_structural :: u32
  st_data_hazard :: u32
  st_control_hazard :: u32
  st_mem_stall :: u32

record brad_core_pipeline =
  p_insn :: "brad_isa_insn option list"
  p_pc :: "u32 list"
  p_valid :: "bool list"
  p_depth :: nat
  p_exec :: nat
  p_drain :: bool

record brad_core_state =
  c_regs :: "u32 list"
  c_pc :: u32
  c_sp :: u32
  c_lr :: u32
  c_running :: bool
  c_cycles :: u64
  c_retired :: u64
  c_branches :: u64
  c_taken :: u64
  c_stalls :: brad_pipeline_stall
  c_pipe :: brad_core_pipeline
  c_model :: brad_isa_pipeline_model
  c_status :: u32
  c_cause :: u32
  c_pm_ctrl :: u32
  c_pstate :: u32
  c_voltage :: u32
  c_freq :: u32
  c_energy :: u64
  c_perf_cnt :: "u32 list"
  c_perf_ctrl :: u32
  c_cg_mask :: u32
  c_compress :: bool

record brad_soc_emu =
  s_cores :: "brad_core_state list list"
  s_memory :: host
  s_mem_size :: u64
  s_num_clusters :: u32
  s_phoenix :: u32
  s_falcon :: u32
  s_kestrel :: u32
  s_falcon_lite :: u32
  s_total_cycles :: u64

definition BRAD_MEM_SIZE :: u64 where "BRAD_MEM_SIZE = 64 * 1024 * 1024"

definition BRAD_PIPELINE_DEPTH :: nat where "BRAD_PIPELINE_DEPTH = 16"

definition BRAD_CORES_PER_CLUSTER :: nat where "BRAD_CORES_PER_CLUSTER = 16"

definition BRAD_CORE_MAX_CLUSTERS :: nat where "BRAD_CORE_MAX_CLUSTERS = 4"

section \<open>One instruction\<close>

definition alu_exec :: "brad_isa_opcode \<Rightarrow> u32 \<Rightarrow> u32 \<Rightarrow> u32" where
  "alu_exec opc a b = (case opc of
     OP_ADD \<Rightarrow> a + b
   | OP_SUB \<Rightarrow> a - b
   | OP_MUL \<Rightarrow> a * b
   | OP_AND \<Rightarrow> a AND b
   | OP_OR \<Rightarrow> a OR b
   | OP_XOR \<Rightarrow> a XOR b
   | OP_SHL \<Rightarrow> push_bit (unat (b AND 0x1F)) a
   | OP_SHR \<Rightarrow> drop_bit (unat (b AND 0x1F)) a
   | _ \<Rightarrow> 0)"

definition num_regs :: "brad_isa_pipeline_model \<Rightarrow> nat" where
  "num_regs md = (if md = PIPE_FALCON_LITE then BRAD_NUM_REGS_LITE else BRAD_NUM_REGS)"

definition get_reg :: "brad_core_state \<Rightarrow> nat \<Rightarrow> u32" where
  "get_reg c r = (if r < num_regs (c_model c) then c_regs c ! r else 0)"

definition poke_reg :: "nat \<Rightarrow> u32 \<Rightarrow> brad_core_state \<Rightarrow> brad_core_state" where
  "poke_reg r v c = c\<lparr> c_regs := (c_regs c)[r := v] \<rparr>"

definition set_reg :: "nat \<Rightarrow> u32 \<Rightarrow> brad_core_state \<Rightarrow> brad_core_state" where
  "set_reg r v c = (if r < num_regs (c_model c) then poke_reg r v c else c)"

text \<open>\<open>addr + 4 > mem_size\<close>: the sum has 32 bits and is then widened.\<close>

definition beyond :: "u32 \<Rightarrow> u64 \<Rightarrow> bool" where
  "beyond addr sz \<longleftrightarrow> sz < ucast (addr + 4)"

definition jump_to :: "u32 \<Rightarrow> brad_core_state \<Rightarrow> brad_core_state" where
  "jump_to target c = c\<lparr> c_pc := target, c_taken := c_taken c + 1 \<rparr>"

definition count_insn :: "brad_isa_insn \<Rightarrow> brad_core_state \<Rightarrow> brad_core_state" where
  "count_insn d c = c\<lparr> c_retired := c_retired c + 1,
     c_branches := (if BRAD_IS_BRANCH (d_opcode d) \<and> d_opcode d \<noteq> OP_RET then c_branches c + 1 else c_branches c) \<rparr>"

text \<open>The state, the memory, what is returned (\<open>None\<close> for 0) and the value of \<open>*taken\<close>.\<close>

definition execute :: "brad_core_state \<Rightarrow> brad_isa_insn \<Rightarrow> host \<Rightarrow> u64 \<Rightarrow> u32 \<Rightarrow>
    (brad_core_state \<times> host \<times> errno option \<times> bool) option" where
  "execute c0 d m sz insn_pc =
    (let c = count_insn d c0;
         a = get_reg c (d_rs1 d); b = get_reg c (d_rs2 d); imm = sext16 (d_imm d) in
     case d_opcode d of
       OP_ADDI \<Rightarrow> Some (set_reg (d_rd d) (a + imm) c, m, None, False)
     | OP_LDW \<Rightarrow>
         if beyond (a + imm) sz then Some (c, m, Some EFAULT, False)
         else (case peek32 m (unat (a + imm)) of None \<Rightarrow> None
           | Some v \<Rightarrow> Some (set_reg (d_rd d) v c, m, None, False))
     | OP_STW \<Rightarrow>
         if beyond (a + imm) sz then Some (c, m, Some EFAULT, False)
         else (case poke32 m (unat (a + imm)) b of None \<Rightarrow> None
           | Some m' \<Rightarrow> Some (c, m', None, False))
     | OP_BZ \<Rightarrow> Some (if a = 0 then jump_to (insn_pc + 4 + imm) c else c, m, None, a = 0)
     | OP_BNZ \<Rightarrow> Some (if a \<noteq> 0 then jump_to (insn_pc + 4 + imm) c else c, m, None, a \<noteq> 0)
     | OP_JMP \<Rightarrow> Some (jump_to (insn_pc + 4 + imm) c, m, None, True)
     | OP_CALL \<Rightarrow> Some (jump_to (insn_pc + 4 + imm) (poke_reg BRAD_REG_LR (insn_pc + 4) c), m, None, True)
     | OP_RET \<Rightarrow> Some (jump_to a c, m, None, True)
     | opc \<Rightarrow>
         if opc = OP_MUL \<and> c_model c = PIPE_FALCON_LITE
         then Some (poke_reg (d_rd d) 0 c, m, None, False)
         else Some (set_reg (d_rd d) (alu_exec opc a b) c, m, None, False))"

section \<open>Fetching\<close>

definition compressed :: "brad_core_state \<Rightarrow> bool" where
  "compressed c \<longleftrightarrow> c_status c AND BRAD_STATUS_C \<noteq> 0 \<or> c_compress c"

text \<open>The 32-bit instruction a compressed halfword stands for.\<close>

definition expand :: "u16 \<Rightarrow> brad_isa_insn" where
  "expand lo =
    (let cd = brad_isa_cdecode lo; imm4 = cd_raw cd AND 0xF; off8 = signed (ucast (cd_raw cd AND 0xFF) :: u8) in
     (brad_isa_decode 0)\<lparr> d_opcode := brad_isa_cop_to_op (cd_cop cd), d_rd := cd_rd cd, d_rs1 := cd_rs1 cd,
       d_rs2 := cd_rs2 cd,
       d_imm := (if cd_cop cd \<in> {COP_ADDI, COP_LDW, COP_STW} then push_bit 2 imm4
                 else if cd_cop cd \<in> {COP_BZ, COP_BNZ, COP_JMP, COP_CALL} then off8 * 4
                 else if cd_cop cd = COP_MV then cd_raw cd AND 0xFF
                 else 0) \<rparr>)"

definition fetch :: "brad_core_state \<Rightarrow> host \<Rightarrow> u64 \<Rightarrow> (errno + brad_isa_insn \<times> brad_core_state) option" where
  "fetch c m sz =
    (if compressed c then
       if beyond (c_pc c) sz then Some (Inl EFAULT)
       else (case peek32 m (unat (c_pc c)) of None \<Rightarrow> None
         | Some raw_pair \<Rightarrow> Some (Inr (expand (ucast (raw_pair AND 0xFFFF)),
             c\<lparr> c_pc := (c_pc c AND NOT 3) + 4 \<rparr>)))
     else if beyond (c_pc c) sz then Some (Inl EFAULT)
     else (case peek32 m (unat (c_pc c)) of None \<Rightarrow> None
       | Some raw \<Rightarrow> Some (Inr (brad_isa_decode raw, c\<lparr> c_pc := c_pc c + 4 \<rparr>))))"

section \<open>Pipelines\<close>

text \<open>One place to the right within the first \<open>n\<close> entries, \<open>x\<close> in the first.\<close>

definition shift_in :: "nat \<Rightarrow> 'a \<Rightarrow> 'a list \<Rightarrow> 'a list" where
  "shift_in n x xs = (if n = 0 then xs[0 := x] else x # take (n - 1) xs @ drop n xs)"

definition advance_pipeline :: "brad_core_state \<Rightarrow> brad_core_state" where
  "advance_pipeline c = (let p = c_pipe c in
     c\<lparr> c_pipe := p\<lparr> p_insn := shift_in (p_depth p) None (p_insn p), p_pc := shift_in (p_depth p) 0 (p_pc p),
       p_valid := shift_in (p_depth p) False (p_valid p) \<rparr> \<rparr>)"

text \<open>Every stage is emptied; the stage that executes keeps its address.\<close>

definition pipeline_flush :: "brad_core_state \<Rightarrow> brad_core_state" where
  "pipeline_flush c = (let p = c_pipe c in
     c\<lparr> c_pipe := p\<lparr> p_insn := (replicate (p_depth p) None @ drop (p_depth p) (p_insn p))[p_exec p := None],
       p_pc := (replicate (p_depth p) 0 @ drop (p_depth p) (p_pc p))[p_exec p := p_pc p ! p_exec p],
       p_valid := (replicate (p_depth p) False @ drop (p_depth p) (p_valid p))[p_exec p := False] \<rparr> \<rparr>)"

definition update_energy :: "brad_core_state \<Rightarrow> brad_core_state" where
  "update_energy c = c\<lparr> c_energy := c_energy c + ucast (c_voltage c) * ucast (c_freq c) div 1000000 \<rparr>"

definition clear_exec :: "brad_core_state \<Rightarrow> brad_core_state" where
  "clear_exec c = (let p = c_pipe c in
     c\<lparr> c_pipe := p\<lparr> p_insn := (p_insn p)[p_exec p := None], p_valid := (p_valid p)[p_exec p := False] \<rparr> \<rparr>)"

definition set_drain :: "bool \<Rightarrow> brad_core_state \<Rightarrow> brad_core_state" where
  "set_drain b c = c\<lparr> c_pipe := (c_pipe c)\<lparr> p_drain := b \<rparr> \<rparr>"

definition taken_branch :: "brad_core_state \<Rightarrow> brad_core_state" where
  "taken_branch c = set_drain False (pipeline_flush
     (c\<lparr> c_stalls := (c_stalls c)\<lparr> st_control_hazard := st_control_hazard (c_stalls c) + 1 \<rparr> \<rparr>))"

definition enter_stage0 :: "brad_isa_insn \<Rightarrow> brad_core_state \<Rightarrow> brad_core_state" where
  "enter_stage0 d c = (let p = c_pipe c in
     c\<lparr> c_pipe := p\<lparr> p_insn := (p_insn p)[0 := Some d], p_pc := (p_pc p)[0 := c_pc c - 4],
       p_valid := (p_valid p)[0 := True] \<rparr> \<rparr>)"

text \<open>The part of a cycle after execution that the four models share: fetch, count, stop when drained.\<close>

definition fetch_stage :: "host \<Rightarrow> u64 \<Rightarrow> brad_core_state \<Rightarrow> brad_core_state option" where
  "fetch_stage m sz c =
    (if p_insn (c_pipe c) ! 0 = None \<and> c_running c \<and> \<not> p_drain (c_pipe c) then
       (case fetch c m sz of None \<Rightarrow> None
        | Some (Inl e) \<Rightarrow> Some (set_drain True c)
        | Some (Inr (d, c')) \<Rightarrow> Some (enter_stage0 d c'))
     else Some c)"

definition count_cycle :: "brad_core_state \<Rightarrow> brad_core_state" where
  "count_cycle c = (let c1 = update_energy (c\<lparr> c_cycles := c_cycles c + 1 \<rparr>); p = c_pipe c1 in
     if p_drain p \<and> (\<forall>v \<in> set (take (p_depth p) (p_valid p)). \<not> v) then c1\<lparr> c_running := False \<rparr> else c1)"

definition rest_of_cycle :: "u64 \<Rightarrow> brad_core_state \<times> host \<Rightarrow> (brad_core_state \<times> host) option" where
  "rest_of_cycle sz = (\<lambda>(c, m). map_option (\<lambda>c'. (count_cycle c', m)) (fetch_stage m sz c))"

text \<open>The instruction in the stage that executes.\<close>

definition at_exec :: "brad_core_state \<Rightarrow> (brad_isa_insn \<times> u32) option" where
  "at_exec c = (let p = c_pipe c; e = p_exec p in
     if p_valid p ! e then map_option (\<lambda>d. (d, p_pc p ! e)) (p_insn p ! e) else None)"

definition run_phoenix_pipeline :: "brad_core_state \<Rightarrow> host \<Rightarrow> u64 \<Rightarrow> (brad_core_state \<times> host) option" where
  "run_phoenix_pipeline c0 m sz = (let c = advance_pipeline c0 in
     case at_exec c of
       None \<Rightarrow> rest_of_cycle sz (c, m)
     | Some (d, insn_pc) \<Rightarrow>
        (case execute c d m sz insn_pc of None \<Rightarrow> None
         | Some (c1, m1, ret, taken) \<Rightarrow>
             if ret = None \<and> taken then Some (taken_branch c1, m1) else rest_of_cycle sz (c1, m1)))"

definition run_falcon_pipeline :: "brad_core_state \<Rightarrow> host \<Rightarrow> u64 \<Rightarrow> (brad_core_state \<times> host) option" where
  "run_falcon_pipeline c0 m sz = (let c = advance_pipeline c0 in
     case at_exec c of
       None \<Rightarrow> rest_of_cycle sz (c, m)
     | Some (d, insn_pc) \<Rightarrow>
        (case execute c d m sz insn_pc of None \<Rightarrow> None
         | Some (c1, m1, ret, taken) \<Rightarrow>
             if taken then Some (taken_branch (clear_exec c1), m1) else rest_of_cycle sz (clear_exec c1, m1)))"

definition run_kestrel_pipeline :: "brad_core_state \<Rightarrow> host \<Rightarrow> u64 \<Rightarrow> (brad_core_state \<times> host) option" where
  "run_kestrel_pipeline c0 m sz = (let c = advance_pipeline c0 in
     case at_exec c of
       None \<Rightarrow> rest_of_cycle sz (c, m)
     | Some (d, insn_pc) \<Rightarrow>
        (case execute c d m sz insn_pc of None \<Rightarrow> None
         | Some (c1, m1, ret, taken) \<Rightarrow>
             if taken then Some (taken_branch c1, m1) else rest_of_cycle sz (c1, m1)))"

definition run_falcon_lite_pipeline :: "brad_core_state \<Rightarrow> host \<Rightarrow> u64 \<Rightarrow> (brad_core_state \<times> host) option" where
  "run_falcon_lite_pipeline c0 m sz = (let c = advance_pipeline c0 in
     case at_exec c of
       None \<Rightarrow> rest_of_cycle sz (c, m)
     | Some (d, insn_pc) \<Rightarrow>
        (case execute c d m sz insn_pc of None \<Rightarrow> None
         | Some (c1, m1, ret, taken) \<Rightarrow>
             if taken then Some (taken_branch (clear_exec c1), m1) else rest_of_cycle sz (clear_exec c1, m1)))"

fun run_pipeline :: "brad_isa_pipeline_model \<Rightarrow> brad_core_state \<Rightarrow> host \<Rightarrow> u64 \<Rightarrow> (brad_core_state \<times> host) option" where
  "run_pipeline PIPE_PHOENIX = run_phoenix_pipeline"
| "run_pipeline PIPE_FALCON = run_falcon_pipeline"
| "run_pipeline PIPE_KESTREL = run_kestrel_pipeline"
| "run_pipeline PIPE_FALCON_LITE = run_falcon_lite_pipeline"

section \<open>Cores and clusters\<close>

definition zero_stall :: brad_pipeline_stall where
  "zero_stall = \<lparr> st_structural = 0, st_data_hazard = 0, st_control_hazard = 0, st_mem_stall = 0 \<rparr>"

definition zero_pipeline :: brad_core_pipeline where
  "zero_pipeline = \<lparr> p_insn = replicate BRAD_PIPELINE_DEPTH None, p_pc = replicate BRAD_PIPELINE_DEPTH 0,
     p_valid = replicate BRAD_PIPELINE_DEPTH False, p_depth = 0, p_exec = 0, p_drain = False \<rparr>"

text \<open>A core whose bytes are all zero.\<close>

definition zero_core :: brad_core_state where
  "zero_core = \<lparr> c_regs = replicate BRAD_NUM_REGS 0, c_pc = 0, c_sp = 0, c_lr = 0, c_running = False,
     c_cycles = 0, c_retired = 0, c_branches = 0, c_taken = 0, c_stalls = zero_stall, c_pipe = zero_pipeline,
     c_model = PIPE_PHOENIX, c_status = 0, c_cause = 0, c_pm_ctrl = 0, c_pstate = 0, c_voltage = 0, c_freq = 0,
     c_energy = 0, c_perf_cnt = [0, 0], c_perf_ctrl = 0, c_cg_mask = 0, c_compress = False \<rparr>"

text \<open>Frequency in MHz and voltage in mV of a model.\<close>

fun model_freq :: "brad_isa_pipeline_model \<Rightarrow> u32" where
  "model_freq PIPE_PHOENIX = 3000"
| "model_freq PIPE_FALCON = 2400"
| "model_freq PIPE_KESTREL = 3500"
| "model_freq PIPE_FALCON_LITE = 1200"

fun model_voltage :: "brad_isa_pipeline_model \<Rightarrow> u32" where
  "model_voltage PIPE_PHOENIX = 1200"
| "model_voltage PIPE_FALCON = 700"
| "model_voltage PIPE_KESTREL = 900"
| "model_voltage PIPE_FALCON_LITE = 500"

text \<open>The core that is left behind the pointer; \<open>None\<close> is the null pointer.\<close>

definition brad_core_emu_init :: "brad_core_state option \<Rightarrow> brad_isa_pipeline_model \<Rightarrow> u32 \<Rightarrow> u32 \<Rightarrow>
    errno + brad_core_state" where
  "brad_core_emu_init core md entry_pc sp = (case core of None \<Rightarrow> Inl EINVAL
     | Some _ \<Rightarrow> Inr (zero_core\<lparr> c_model := md, c_pc := entry_pc, c_sp := sp, c_running := True,
         c_regs := (c_regs zero_core)[BRAD_REG_SP := sp, BRAD_REG_LR := 0],
         c_pipe := zero_pipeline\<lparr> p_depth := pipe_depth md, p_exec := pipe_exec_stage md \<rparr>,
         c_freq := model_freq md, c_voltage := model_voltage md \<rparr>))"

definition zero_soc :: brad_soc_emu where
  "zero_soc = \<lparr> s_cores = replicate BRAD_CORE_MAX_CLUSTERS (replicate BRAD_CORES_PER_CLUSTER zero_core),
     s_memory = Map.empty, s_mem_size = 0, s_num_clusters = 0, s_phoenix = 0, s_falcon = 0, s_kestrel = 0,
     s_falcon_lite = 0, s_total_cycles = 0 \<rparr>"

definition cores_per_cluster :: "brad_soc_emu \<Rightarrow> u32" where
  "cores_per_cluster s = s_phoenix s + s_falcon s + s_kestrel s + s_falcon_lite s"

definition core_at :: "brad_soc_emu \<Rightarrow> nat \<Rightarrow> nat \<Rightarrow> brad_core_state option" where
  "core_at s c i = (if c < length (s_cores s) \<and> i < length (s_cores s ! c) then Some (s_cores s ! c ! i) else None)"

definition put_core :: "nat \<Rightarrow> nat \<Rightarrow> brad_core_state \<Rightarrow> brad_soc_emu \<Rightarrow> brad_soc_emu" where
  "put_core c i core s = s\<lparr> s_cores := (s_cores s)[c := (s_cores s ! c)[i := core]] \<rparr>"

text \<open>\<open>brad_core_emu_init(&soc->cores[c][idx], model, 0, 0)\<close>\<close>

definition init_core_at :: "nat \<Rightarrow> brad_isa_pipeline_model \<Rightarrow> nat \<Rightarrow> brad_soc_emu \<Rightarrow> brad_soc_emu option" where
  "init_core_at c md idx s = (case brad_core_emu_init (core_at s c idx) md 0 0 of
     Inl e \<Rightarrow> None | Inr core \<Rightarrow> Some (put_core c idx core s))"

text \<open>The four loops of a cluster, \<open>idx\<close> counting on from one to the next.\<close>

definition init_cluster :: "nat \<Rightarrow> nat \<Rightarrow> nat \<Rightarrow> nat \<Rightarrow> nat \<Rightarrow> brad_soc_emu \<Rightarrow> brad_soc_emu option" where
  "init_cluster ph fa ke fl c s0 =
    (case run_each (init_core_at c PIPE_PHOENIX) [0..<ph] s0 of None \<Rightarrow> None
     | Some s1 \<Rightarrow> (case run_each (init_core_at c PIPE_FALCON) [ph..<ph + fa] s1 of None \<Rightarrow> None
     | Some s2 \<Rightarrow> (case run_each (init_core_at c PIPE_KESTREL) [ph + fa..<ph + fa + ke] s2 of None \<Rightarrow> None
     | Some s3 \<Rightarrow> run_each (init_core_at c PIPE_FALCON_LITE) [ph + fa + ke..<ph + fa + ke + fl] s3)))"

definition calloc_memory :: "u64 \<Rightarrow> host" where
  "calloc_memory sz = (\<lambda>a. if a < unat sz then Some 0 else None)"

text \<open>
  \<open>alloc\<close> tells whether \<open>calloc\<close> succeeds. What is returned (\<open>None\<close> for 0) with the object behind the pointer.
\<close>

definition brad_soc_emu_init_ex :: "bool \<Rightarrow> brad_soc_emu option \<Rightarrow> u32 \<Rightarrow> u32 \<Rightarrow> u32 \<Rightarrow> u32 \<Rightarrow> u32 \<Rightarrow>
    (errno option \<times> brad_soc_emu option) option" where
  "brad_soc_emu_init_ex alloc soc nc ph fa ke fl =
    (if soc = None then Some (Some EINVAL, soc)
     else if BRAD_CORE_MAX_CLUSTERS < unat nc then Some (Some EINVAL, soc)
     else if BRAD_CORES_PER_CLUSTER < unat (ph + fa + ke + fl) then Some (Some EINVAL, soc)
     else let s0 = zero_soc\<lparr> s_num_clusters := nc, s_phoenix := ph, s_falcon := fa, s_kestrel := ke,
            s_falcon_lite := fl \<rparr> in
       if \<not> alloc then Some (Some ENOMEM, Some s0)
       else map_option (\<lambda>s. (None, Some s))
         (run_each (init_cluster (unat ph) (unat fa) (unat ke) (unat fl)) [0..<unat nc]
           (s0\<lparr> s_memory := calloc_memory BRAD_MEM_SIZE, s_mem_size := BRAD_MEM_SIZE \<rparr>)))"

definition brad_soc_emu_init :: "bool \<Rightarrow> brad_soc_emu option \<Rightarrow> u32 \<Rightarrow> u32 \<Rightarrow> u32 \<Rightarrow>
    (errno option \<times> brad_soc_emu option) option" where
  "brad_soc_emu_init alloc soc nc ph fa = brad_soc_emu_init_ex alloc soc nc ph fa 0 0"

definition brad_soc_emu_free :: "brad_soc_emu option \<Rightarrow> brad_soc_emu option" where
  "brad_soc_emu_free soc = map_option (\<lambda>s. s\<lparr> s_memory := Map.empty, s_mem_size := 0 \<rparr>) soc"

text \<open>\<open>num_words * 4\<close> and the sum with the address have 64 bits; a program shorter than that is read beyond its end.\<close>

definition brad_core_emu_load :: "brad_soc_emu option \<Rightarrow> u32 list option \<Rightarrow> u64 \<Rightarrow> u32 \<Rightarrow>
    (errno option \<times> brad_soc_emu option) option" where
  "brad_core_emu_load soc prog num_words addr =
    (case (soc, prog) of
       (Some s, Some ws) \<Rightarrow>
         let n = num_words * 4; bytes = concat (map le_bytes32 ws) in
         if s_mem_size s < ucast addr + n then Some (Some ENOMEM, soc)
         else if length bytes < unat n then None
         else (case poke (s_memory s) (unat addr) (take (unat n) bytes) of None \<Rightarrow> None
           | Some m \<Rightarrow> Some (None, Some (s\<lparr> s_memory := m \<rparr>)))
     | _ \<Rightarrow> Some (Some EINVAL, soc))"

section \<open>Stepping and running\<close>

definition core_step :: "brad_soc_emu \<Rightarrow> nat \<Rightarrow> nat \<Rightarrow> (errno option \<times> brad_soc_emu) option" where
  "core_step s cluster core_idx =
    (if unat (s_num_clusters s) \<le> cluster then Some (Some EINVAL, s)
     else if unat (cores_per_cluster s) \<le> core_idx then Some (Some EINVAL, s)
     else case core_at s cluster core_idx of None \<Rightarrow> None
     | Some core \<Rightarrow>
       if \<not> c_running core then Some (None, s)
       else (case run_pipeline (c_model core) core (s_memory s) (s_mem_size s) of None \<Rightarrow> None
         | Some (core', m) \<Rightarrow> Some (None, put_core cluster core_idx core' (s\<lparr> s_memory := m \<rparr>))))"

definition brad_core_emu_step :: "brad_soc_emu option \<Rightarrow> nat \<Rightarrow> nat \<Rightarrow>
    (errno option \<times> brad_soc_emu option) option" where
  "brad_core_emu_step soc cluster core_idx = (case soc of None \<Rightarrow> Some (Some EINVAL, soc)
     | Some s \<Rightarrow> map_option (map_prod id Some) (core_step s cluster core_idx))"

text \<open>
  The loop of \<open>brad_core_emu_run\<close> may run for ever: the outer \<open>None\<close> is a loop that does not end, the inner one
  undefined behaviour.
\<close>

partial_function (option) core_run_loop :: "nat \<Rightarrow> nat \<Rightarrow> u64 \<Rightarrow> u64 \<Rightarrow> brad_soc_emu \<Rightarrow> brad_soc_emu option option" where
  "core_run_loop cluster core_idx start max_cycles s =
    (case core_at s cluster core_idx of None \<Rightarrow> Some None
     | Some core \<Rightarrow>
       if \<not> c_running core then Some (Some s)
       else (case core_step s cluster core_idx of None \<Rightarrow> Some None
         | Some (ret, s') \<Rightarrow> (case core_at s' cluster core_idx of None \<Rightarrow> Some None
             | Some core' \<Rightarrow>
               if max_cycles \<le> c_cycles core' - start then Some (Some s')
               else core_run_loop cluster core_idx start max_cycles s')))"

definition brad_core_emu_run :: "brad_soc_emu option \<Rightarrow> nat \<Rightarrow> nat \<Rightarrow> u64 \<Rightarrow>
    (errno option \<times> brad_soc_emu option) option option" where
  "brad_core_emu_run soc cluster core_idx max_cycles = (case soc of None \<Rightarrow> Some (Some (Some EINVAL, soc))
     | Some s \<Rightarrow> (case core_at s cluster core_idx of None \<Rightarrow> Some None
         | Some core \<Rightarrow> map_option (map_option (\<lambda>s'. (None, Some s')))
             (core_run_loop cluster core_idx (c_cycles core) max_cycles s)))"

text \<open>One round of \<open>brad_core_emu_run_all\<close>: every running core takes a step.\<close>

definition step_if_running :: "nat \<times> nat \<Rightarrow> bool \<times> brad_soc_emu \<Rightarrow> (bool \<times> brad_soc_emu) option" where
  "step_if_running = (\<lambda>(c, i) (any, s). case core_at s c i of None \<Rightarrow> None
     | Some core \<Rightarrow>
       if c_running core then map_option (\<lambda>(ret, s'). (True, s')) (core_step s c i) else Some (any, s))"

definition run_all_round :: "brad_soc_emu \<Rightarrow> (bool \<times> brad_soc_emu) option" where
  "run_all_round s =
     run_each step_if_running
       [(c, i). c \<leftarrow> [0..<unat (s_num_clusters s)], i \<leftarrow> [0..<unat (cores_per_cluster s)]] (False, s)"

lemma core_step_frame:
  "core_step s c i = Some (ret, s') \<Longrightarrow>
     s_total_cycles s' = s_total_cycles s \<and> s_num_clusters s' = s_num_clusters s \<and>
     cores_per_cluster s' = cores_per_cluster s \<and> s_mem_size s' = s_mem_size s"
  by (auto simp: core_step_def put_core_def cores_per_cluster_def split: if_splits option.splits)

lemma run_each_step_frame:
  "run_each step_if_running cis (any, s) = Some (any', s') \<Longrightarrow>
     s_total_cycles s' = s_total_cycles s \<and> s_num_clusters s' = s_num_clusters s \<and>
     cores_per_cluster s' = cores_per_cluster s \<and> s_mem_size s' = s_mem_size s"
proof (induction cis arbitrary: any s)
  case (Cons ci cis)
  obtain any1 s1 where st: "step_if_running ci (any, s) = Some (any1, s1)"
      "run_each step_if_running cis (any1, s1) = Some (any', s')"
    using Cons.prems by (auto split: option.splits)
  then have "s_total_cycles s1 = s_total_cycles s \<and> s_num_clusters s1 = s_num_clusters s \<and>
     cores_per_cluster s1 = cores_per_cluster s \<and> s_mem_size s1 = s_mem_size s"
    by (auto simp: step_if_running_def split: prod.splits option.splits if_splits dest: core_step_frame)
  then show ?case using Cons.IH [OF st(2)] by simp
qed simp

function run_all_loop :: "u64 \<Rightarrow> u64 \<Rightarrow> bool \<Rightarrow> brad_soc_emu \<Rightarrow> brad_soc_emu option" where
  "run_all_loop start max_cycles any s =
    (if any \<and> s_total_cycles s - start < max_cycles then
       (case run_all_round s of None \<Rightarrow> None
        | Some (any', s') \<Rightarrow> run_all_loop start max_cycles any' (s'\<lparr> s_total_cycles := s_total_cycles s' + 1 \<rparr>))
     else Some s)"
  by pat_completeness auto
termination
proof (relation "measure (\<lambda>(start, max_cycles, any, s). unat (max_cycles - (s_total_cycles s - start)))"; clarsimp)
  fix start max_cycles :: u64 and s s' any'
  assume lt: "s_total_cycles s - start < max_cycles" and "run_all_round s = Some (any', s')"
  then have "s_total_cycles s' = s_total_cycles s" by (auto simp: run_all_round_def dest: run_each_step_frame)
  define d where "d = s_total_cycles s - start"
  have "max_cycles - (s_total_cycles s' + 1 - start) = max_cycles - d - 1"
    using \<open>s_total_cycles s' = s_total_cycles s\<close> by (simp add: d_def)
  moreover have "max_cycles - d \<noteq> 0" using lt by (auto simp: d_def)
  ultimately show "unat (max_cycles - (s_total_cycles s' + 1 - start)) < unat (max_cycles - (s_total_cycles s - start))"
    unfolding d_def [symmetric] using measure_unat by metis
qed

declare run_all_loop.simps [simp del]

definition brad_core_emu_run_all :: "brad_soc_emu option \<Rightarrow> u64 \<Rightarrow> (errno option \<times> brad_soc_emu option) option" where
  "brad_core_emu_run_all soc max_cycles = (case soc of None \<Rightarrow> Some (Some EINVAL, soc)
     | Some s \<Rightarrow> map_option (\<lambda>s'. (None, Some s')) (run_all_loop (s_total_cycles s) max_cycles True s))"

section \<open>Registers from outside\<close>

text \<open>\<open>None\<close> is the null pointer.\<close>

definition brad_core_read_reg :: "brad_core_state option \<Rightarrow> nat \<Rightarrow> u32" where
  "brad_core_read_reg core r = (case core of None \<Rightarrow> 0
     | Some c \<Rightarrow> if num_regs (c_model c) \<le> r then 0 else c_regs c ! r)"

definition brad_core_write_reg :: "brad_core_state option \<Rightarrow> nat \<Rightarrow> u32 \<Rightarrow> brad_core_state option" where
  "brad_core_write_reg core r v = (case core of None \<Rightarrow> None
     | Some c \<Rightarrow> Some (if num_regs (c_model c) \<le> r then c else if r = 0 then c
         else c\<lparr> c_regs := (c_regs c)[r := v] \<rparr>))"

definition brad_core_read_msr :: "brad_core_state option \<Rightarrow> u32 \<Rightarrow> u32" where
  "brad_core_read_msr core i = (case core of None \<Rightarrow> 0
     | Some c \<Rightarrow> (case msr_at i of
         Some MSR_STATUS \<Rightarrow> c_status c
       | Some MSR_CAUSE \<Rightarrow> c_cause c
       | Some MSR_PM_CTRL \<Rightarrow> c_pm_ctrl c
       | Some MSR_PSTATE \<Rightarrow> c_pstate c
       | Some MSR_VOLTAGE \<Rightarrow> c_voltage c
       | Some MSR_FREQ \<Rightarrow> c_freq c
       | Some MSR_ENERGY \<Rightarrow> ucast (c_energy c AND 0xFFFFFFFF)
       | Some MSR_PERF_CNT0 \<Rightarrow> c_perf_cnt c ! 0
       | Some MSR_PERF_CNT1 \<Rightarrow> c_perf_cnt c ! 1
       | Some MSR_PERF_CNT_CTRL \<Rightarrow> c_perf_ctrl c
       | Some MSR_CG_MASK \<Rightarrow> c_cg_mask c
       | _ \<Rightarrow> 0))"

definition write_msr :: "brad_msr \<Rightarrow> u32 \<Rightarrow> brad_core_state \<Rightarrow> brad_core_state" where
  "write_msr r v c = (case r of
     MSR_STATUS \<Rightarrow> c\<lparr> c_status := v, c_compress := (v AND BRAD_STATUS_C \<noteq> 0) \<rparr>
   | MSR_PM_CTRL \<Rightarrow> c\<lparr> c_pm_ctrl := v,
       c_voltage := (if BRAD_PM_C2 \<le> v AND BRAD_PM_CSTATE_MASK then 500
         else if BRAD_PM_C1 \<le> v AND BRAD_PM_CSTATE_MASK then c_voltage c * 8 div 10
         else c_voltage c) \<rparr>
   | MSR_PSTATE \<Rightarrow> c\<lparr> c_pstate := v AND 0x1F \<rparr>
   | MSR_VOLTAGE \<Rightarrow> if 300 \<le> v \<and> v \<le> 1500 then c\<lparr> c_voltage := v \<rparr> else c
   | MSR_FREQ \<Rightarrow> if 100 \<le> v \<and> v \<le> 10000 then c\<lparr> c_freq := v \<rparr> else c
   | MSR_PERF_CNT_CTRL \<Rightarrow> c\<lparr> c_perf_ctrl := v \<rparr>
   | MSR_CG_MASK \<Rightarrow> c\<lparr> c_cg_mask := v \<rparr>
   | _ \<Rightarrow> c)"

definition brad_core_write_msr :: "brad_core_state option \<Rightarrow> u32 \<Rightarrow> u32 \<Rightarrow> brad_core_state option" where
  "brad_core_write_msr core i v =
     map_option (\<lambda>c. case msr_at i of None \<Rightarrow> c | Some r \<Rightarrow> write_msr r v c) core"

section \<open>Disassembly\<close>

definition reg_text :: "nat \<Rightarrow> string" where
  "reg_text r = CHR ''r'' # show_nat r"

definition insn_text :: "brad_isa_insn \<Rightarrow> string" where
  "insn_text d = (let opname = brad_isa_opcode_name (d_opcode d); imm = show_int (sint (d_imm d)) in
     case d_opcode d of
       OP_ADDI \<Rightarrow> opname @ '' '' @ reg_text (d_rd d) @ '', '' @ reg_text (d_rs1 d) @ '', '' @ imm
     | OP_LDW \<Rightarrow> opname @ '' '' @ reg_text (d_rd d) @ '', ['' @ reg_text (d_rs1 d) @ '' + '' @ imm @ '']''
     | OP_STW \<Rightarrow> opname @ '' '' @ reg_text (d_rs2 d) @ '', ['' @ reg_text (d_rs1 d) @ '' + '' @ imm @ '']''
     | OP_BZ \<Rightarrow> opname @ '' '' @ reg_text (d_rs1 d) @ '', '' @ imm
     | OP_BNZ \<Rightarrow> opname @ '' '' @ reg_text (d_rs1 d) @ '', '' @ imm
     | OP_JMP \<Rightarrow> opname @ '' '' @ imm
     | OP_CALL \<Rightarrow> opname @ '' '' @ imm
     | OP_RET \<Rightarrow> opname
     | _ \<Rightarrow> opname @ '' '' @ reg_text (d_rd d) @ '', '' @ reg_text (d_rs1 d) @ '', '' @ reg_text (d_rs2 d))"

text \<open>\<open>buf\<close> tells whether the pointer is not null; the result is the string left in the buffer.\<close>

definition brad_core_emu_disasm :: "u32 \<Rightarrow> bool \<Rightarrow> nat \<Rightarrow> errno + string" where
  "brad_core_emu_disasm insn buf buf_size =
     (if \<not> buf \<or> buf_size < 32 then Inl EINVAL
      else Inr (snd (snprintf buf_size (insn_text (brad_isa_decode insn)))))"

end
