(* ===== verification/Stutter.thy ===== *)
theory Stutter
  imports Main
begin

text \<open>
  Simulation of a machine that takes several steps for each step of its specification: the interface an
  implementation meets step by step, and what follows for runs. Both machines are partial functions, \<open>None\<close>
  is undefined behaviour.
\<close>

fun iterate :: "nat \<Rightarrow> ('s \<Rightarrow> 's option) \<Rightarrow> 's \<Rightarrow> 's option" where
  "iterate 0 f s = Some s"
| "iterate (Suc n) f s = (case f s of None \<Rightarrow> None | Some s' \<Rightarrow> iterate n f s')"

lemma iterate_add: "iterate (m + n) f s = (case iterate m f s of None \<Rightarrow> None | Some t \<Rightarrow> iterate n f t)"
  by (induction m arbitrary: s) (auto split: option.splits)

lemma iterate_fixed: "f s = Some s \<Longrightarrow> iterate n f s = Some s"
  by (induction n) auto

lemma iterate_prefix: "iterate n f s = Some t \<Longrightarrow> m \<le> n \<Longrightarrow> \<exists>u. iterate m f s = Some u"
  using iterate_add [of m "n - m" f s] by (auto split: option.splits)

text \<open>
  \<open>good\<close> are the states of the specification from which a step is defined and allowed; \<open>wait\<close> bounds the number of
  steps the implementation takes before it performs the next step of the specification or stops.
\<close>

locale stuttering =
  fixes cstep :: "'c \<Rightarrow> 'c option" and astep :: "'a \<Rightarrow> 'a option" and abst :: "'c \<Rightarrow> 'a"
    and inv :: "'c \<Rightarrow> bool" and running :: "'c \<Rightarrow> bool" and wait :: "'c \<Rightarrow> nat" and bound :: nat
    and good :: "'a \<Rightarrow> bool" and halted :: "'a \<Rightarrow> bool"
  assumes step: "inv c \<Longrightarrow> running c \<Longrightarrow> good (abst c) \<Longrightarrow> \<exists>c'. cstep c = Some c' \<and> inv c' \<and>
      (abst c' = abst c \<and> wait c' < wait c \<or> \<not> halted (abst c) \<and> astep (abst c) = Some (abst c'))"
    and stopped: "inv c \<Longrightarrow> \<not> running c \<Longrightarrow> halted (abst c) \<and> cstep c = Some c"
    and wait_bound: "inv c \<Longrightarrow> wait c \<le> bound"
    and halted_fixed: "halted a \<Longrightarrow> astep a = Some a"
begin

definition good_run :: "nat \<Rightarrow> 'a \<Rightarrow> bool" where
  "good_run n a \<longleftrightarrow> (\<forall>j \<le> n. case iterate j astep a of None \<Rightarrow> False | Some b \<Rightarrow> good b)"

lemma good_run_0: "good_run n a \<Longrightarrow> good a"
  by (auto simp: good_run_def dest: spec [of _ 0])

lemma good_run_step: "good_run (Suc n) a \<Longrightarrow> astep a = Some b \<Longrightarrow> good_run n b"
  unfolding good_run_def by (metis Suc_le_mono iterate.simps(2) option.simps(5))

lemma good_run_less: "good_run n a \<Longrightarrow> m \<le> n \<Longrightarrow> good_run m a"
  by (auto simp: good_run_def)

lemma good_run_iterate: "good_run n a \<Longrightarrow> j \<le> n \<Longrightarrow> \<exists>b. iterate j astep a = Some b \<and> good b"
  by (fastforce simp: good_run_def split: option.splits)

text \<open>After any number of steps the implementation stands at some point of the run of the specification.\<close>

lemma run_refines:
  assumes "inv c" "good_run n (abst c)"
  shows "\<exists>c' j. j \<le> n \<and> iterate n cstep c = Some c' \<and> inv c' \<and> iterate j astep (abst c) = Some (abst c')"
  using assms
proof (induction n arbitrary: c)
  case 0
  then show ?case by simp
next
  case (Suc n)
  show ?case
  proof (cases "running c")
    case True
    then obtain c1 where c1: "cstep c = Some c1" "inv c1"
        and alt: "abst c1 = abst c \<or> astep (abst c) = Some (abst c1)"
      using step [OF Suc.prems(1) True good_run_0 [OF Suc.prems(2)]] by blast
    from alt show ?thesis
    proof
      assume same: "abst c1 = abst c"
      have "good_run n (abst c1)" using good_run_less [OF Suc.prems(2)] same by simp
      from Suc.IH [OF c1(2) this] obtain c' j where
        "j \<le> n" "iterate n cstep c1 = Some c'" "inv c'" "iterate j astep (abst c1) = Some (abst c')" by blast
      then have "j \<le> Suc n \<and> iterate (Suc n) cstep c = Some c' \<and> inv c' \<and> iterate j astep (abst c) = Some (abst c')"
        using c1 same by simp
      then show ?thesis by blast
    next
      assume ahead: "astep (abst c) = Some (abst c1)"
      from Suc.IH [OF c1(2) good_run_step [OF Suc.prems(2) ahead]] obtain c' j
        where "j \<le> n" "iterate n cstep c1 = Some c'" "inv c'" "iterate j astep (abst c1) = Some (abst c')" by blast
      then have "Suc j \<le> Suc n \<and> iterate (Suc n) cstep c = Some c' \<and> inv c' \<and>
          iterate (Suc j) astep (abst c) = Some (abst c')"
        using c1 ahead by simp
      then show ?thesis by blast
    qed
  next
    case False
    then have "iterate (Suc n) cstep c = Some c" using stopped [OF Suc.prems(1) False] by (intro iterate_fixed) simp
    then have "0 \<le> Suc n \<and> iterate (Suc n) cstep c = Some c \<and> inv c \<and> iterate 0 astep (abst c) = Some (abst c)"
      using Suc.prems(1) by simp
    then show ?thesis by (intro exI)
  qed
qed

text \<open>When the specification halts, the implementation stops there, within a bound.\<close>

lemma run_halts:
  assumes "inv c" "good_run n (abst c)" "iterate n astep (abst c) = Some a" "halted a"
  shows "\<exists>k c'. k \<le> wait c + n * (bound + 1) \<and> iterate k cstep c = Some c' \<and> inv c' \<and> \<not> running c' \<and> abst c' = a"
  using assms
proof (induction "wait c + n * (bound + 1)" arbitrary: c n rule: less_induct)
  case less
  show ?case
  proof (cases "running c")
    case True
    then obtain c1 where c1: "cstep c = Some c1" "inv c1"
        and alt: "abst c1 = abst c \<and> wait c1 < wait c \<or> \<not> halted (abst c) \<and> astep (abst c) = Some (abst c1)"
      using step [OF less.prems(1) True good_run_0 [OF less.prems(2)]] by blast
    from alt show ?thesis
    proof
      assume same: "abst c1 = abst c \<and> wait c1 < wait c"
      with less.hyps [of c1 n] less.prems c1 obtain k c' where
        "k \<le> wait c1 + n * (bound + 1)" "iterate k cstep c1 = Some c'" "inv c'" "\<not> running c'" "abst c' = a" by auto
      then have "Suc k \<le> wait c + n * (bound + 1) \<and> iterate (Suc k) cstep c = Some c' \<and> inv c' \<and> \<not> running c' \<and> abst c' = a"
        using same c1 by simp
      then show ?thesis by blast
    next
      assume ahead: "\<not> halted (abst c) \<and> astep (abst c) = Some (abst c1)"
      then obtain n1 where n: "n = Suc n1" using less.prems(3,4) by (cases n) auto
      have w: "wait c1 < wait c + (bound + 1)" using wait_bound [OF c1(2)] by simp
      have "good_run n1 (abst c1)" using good_run_step less.prems(2) ahead n by blast
      moreover have "iterate n1 astep (abst c1) = Some a" using less.prems(3) ahead n by simp
      ultimately obtain k c' where
        "k \<le> wait c1 + n1 * (bound + 1)" "iterate k cstep c1 = Some c'" "inv c'" "\<not> running c'" "abst c' = a"
        using less.hyps [of c1 n1] less.prems(4) c1 w n by auto
      then have "Suc k \<le> wait c + n * (bound + 1) \<and> iterate (Suc k) cstep c = Some c' \<and> inv c' \<and> \<not> running c' \<and> abst c' = a"
        using c1 w n by simp
      then show ?thesis by blast
    qed
  next
    case False
    then have "halted (abst c)" using stopped less.prems(1) by blast
    then have "iterate n astep (abst c) = Some (abst c)" by (intro iterate_fixed halted_fixed)
    then have "abst c = a" using less.prems(3) by simp
    then have "0 \<le> wait c + n * (bound + 1) \<and> iterate 0 cstep c = Some c \<and> inv c \<and> \<not> running c \<and> abst c = a"
      using False less.prems(1) by simp
    then show ?thesis by (intro exI)
  qed
qed

end

end
