(* ===== verification/CoreProps.thy ===== *)
theory CoreProps
  imports CoreEmu Stutter
begin

text \<open>
  Properties of the core emulator. The reference is the machine without a pipeline: fetch at the program counter,
  execute, repeat (\<open>seq_step\<close>). A pipelined core holds the instructions between the fetch stage and the stage that
  executes; its program counter runs ahead by as many instructions. \<open>arch\<close> is what the reference machine sees of a core.
\<close>

named_theorems pipe_simps

section \<open>The shape of a core\<close>

definition regs_ok :: "brad_isa_insn \<Rightarrow> bool" where
  "regs_ok d \<longleftrightarrow> d_rd d < 16 \<and> d_rs1 d < 16 \<and> d_rs2 d < 16"

definition core_wf :: "brad_core_state \<Rightarrow> bool" where
  "core_wf c \<longleftrightarrow> length (c_regs c) = BRAD_NUM_REGS \<and> length (c_perf_cnt c) = 2 \<and>
     length (p_insn (c_pipe c)) = BRAD_PIPELINE_DEPTH \<and> length (p_pc (c_pipe c)) = BRAD_PIPELINE_DEPTH \<and>
     length (p_valid (c_pipe c)) = BRAD_PIPELINE_DEPTH \<and>
     p_depth (c_pipe c) = pipe_depth (c_model c) \<and> p_exec (c_pipe c) = pipe_exec_stage (c_model c) \<and>
     (\<forall>i < BRAD_PIPELINE_DEPTH. p_valid (c_pipe c) ! i \<longrightarrow> p_insn (c_pipe c) ! i \<noteq> None) \<and>
     (\<forall>d. Some d \<in> set (p_insn (c_pipe c)) \<longrightarrow> regs_ok d)"

lemma pipe_stages: "0 < pipe_exec_stage md" "pipe_exec_stage md < pipe_depth md" "pipe_depth md \<le> 10"
  by (cases md; simp)+

lemma decode_regs: "regs_ok (brad_isa_decode raw)"
proof -
  have "unat (x AND 0xF) < 16" for x :: u32
    using word_and_le1 [of x "0xF"] by (simp add: word_le_nat_alt)
  then show ?thesis
    by (simp add: regs_ok_def brad_isa_decode_def BRAD_INSN_RD_def BRAD_INSN_RS1_def BRAD_INSN_RS2_def)
qed

lemma expand_regs: "regs_ok (expand h)"
proof -
  have "unat (x AND 0xF) < 16" for x :: u16
    using word_and_le1 [of x "0xF"] by (simp add: word_le_nat_alt)
  then show ?thesis
    by (simp add: regs_ok_def expand_def Let_def brad_isa_cdecode_def BRAD_CINSN_RD_def BRAD_CINSN_RS1_def
        BRAD_CINSN_RS2_def)
qed

lemma shift_in_nth:
  assumes "i < length xs" "n \<le> length xs" "0 < n"
  shows "shift_in n x xs ! i = (if i = 0 then x else if i < n then xs ! (i - 1) else xs ! i)"
  using assms by (auto simp: shift_in_def nth_Cons' nth_append min_def)

lemma shift_in_length [simp]: "n \<le> length xs \<Longrightarrow> 0 < n \<Longrightarrow> length (shift_in n x xs) = length xs"
  by (auto simp: shift_in_def)

lemma shift_in_set: "set (shift_in n x xs) \<subseteq> insert x (set xs)"
  by (auto simp: shift_in_def dest: in_set_takeD in_set_dropD set_update_subset_insert [THEN subsetD])

section \<open>One instruction\<close>

definition same_frame :: "brad_core_state \<Rightarrow> brad_core_state \<Rightarrow> bool" where
  "same_frame c c1 \<longleftrightarrow> c_pipe c1 = c_pipe c \<and> c_model c1 = c_model c \<and> c_running c1 = c_running c \<and>
     c_cycles c1 = c_cycles c \<and> c_status c1 = c_status c \<and> c_compress c1 = c_compress c \<and>
     c_perf_cnt c1 = c_perf_cnt c \<and> length (c_regs c1) = length (c_regs c)"

lemma same_frame_steps:
  "same_frame c (count_insn d c)" "same_frame c c1 \<Longrightarrow> same_frame c (set_reg r v c1)"
  "same_frame c c1 \<Longrightarrow> same_frame c (poke_reg r v c1)" "same_frame c c1 \<Longrightarrow> same_frame c (jump_to a c1)"
  by (simp_all add: same_frame_def set_reg_def poke_reg_def jump_to_def count_insn_def)

lemma pc_steps [simp]:
  "c_pc (count_insn d c) = c_pc c" "c_pc (set_reg r v c) = c_pc c" "c_pc (poke_reg r v c) = c_pc c"
  by (simp_all add: set_reg_def poke_reg_def count_insn_def)

lemma execute_frame:
  assumes "execute c d m sz p = Some (c1, m1, r, t)"
  shows "same_frame c c1" "\<not> t \<Longrightarrow> c_pc c1 = c_pc c" "t \<Longrightarrow> r = None"
proof -
  have "same_frame c c1 \<and> (\<not> t \<longrightarrow> c_pc c1 = c_pc c) \<and> (t \<longrightarrow> r = None)"
    using assms unfolding execute_def Let_def
    by (cases "d_opcode d") (auto intro: same_frame_steps split: if_splits option.splits)
  then show "same_frame c c1" "\<not> t \<Longrightarrow> c_pc c1 = c_pc c" "t \<Longrightarrow> r = None" by auto
qed

text \<open>Execution does not look at the pipeline, the cycle and energy counters or the run flag.\<close>

definition reframe :: "brad_core_state \<Rightarrow> brad_core_state \<Rightarrow> brad_core_state" where
  "reframe f c = c\<lparr> c_pipe := c_pipe f, c_cycles := c_cycles f, c_energy := c_energy f, c_stalls := c_stalls f,
     c_running := c_running f \<rparr>"

lemma reframe_simps [pipe_simps]:
  "get_reg (reframe f c) r = get_reg c r" "c_model (reframe f c) = c_model c" "c_pc (reframe f c) = c_pc c"
  "set_reg r v (reframe f c) = reframe f (set_reg r v c)" "poke_reg r v (reframe f c) = reframe f (poke_reg r v c)"
  "jump_to a (reframe f c) = reframe f (jump_to a c)" "count_insn d (reframe f c) = reframe f (count_insn d c)"
  "c_pc_update g (reframe f c) = reframe f (c_pc_update g c)"
  by (simp_all add: reframe_def get_reg_def set_reg_def poke_reg_def jump_to_def count_insn_def)

lemma execute_reframe:
  "execute (reframe f c) d m sz p = map_option (\<lambda>(c1, x). (reframe f c1, x)) (execute c d m sz p)"
  unfolding execute_def Let_def pipe_simps by (cases "d_opcode d") (simp_all add: pipe_simps split: option.splits)

lemma at_pc_simps:
  "get_reg (c_pc_update g c) r = get_reg c r" "c_model (c_pc_update g c) = c_model c"
  "set_reg r v (c_pc_update g c) = c_pc_update g (set_reg r v c)"
  "poke_reg r v (c_pc_update g c) = c_pc_update g (poke_reg r v c)"
  "jump_to a (c_pc_update g c) = jump_to a c" "count_insn d (c_pc_update g c) = c_pc_update g (count_insn d c)"
  by (simp_all add: get_reg_def set_reg_def poke_reg_def jump_to_def count_insn_def)

lemma execute_pc:
  "execute (c\<lparr> c_pc := q \<rparr>) d m sz p
     = map_option (\<lambda>(c1, m1, r, t). (if t then c1 else c1\<lparr> c_pc := q \<rparr>, m1, r, t)) (execute c d m sz p)"
  unfolding execute_def Let_def at_pc_simps by (cases "d_opcode d") (simp_all add: at_pc_simps split: option.splits)

lemma compressed_cong: "c_status c = c_status c' \<Longrightarrow> c_compress c = c_compress c' \<Longrightarrow> compressed c = compressed c'"
  by (simp add: compressed_def)

lemma fetch_plain:
  "\<not> compressed c \<Longrightarrow> fetch c m sz = (if beyond (c_pc c) sz then Some (Inl EFAULT)
     else (case peek32 m (unat (c_pc c)) of None \<Rightarrow> None
       | Some raw \<Rightarrow> Some (Inr (brad_isa_decode raw, c\<lparr> c_pc := c_pc c + 4 \<rparr>))))"
  by (simp add: fetch_def)

section \<open>The machine without a pipeline\<close>

definition seq_step :: "u64 \<Rightarrow> brad_core_state \<times> host \<Rightarrow> (brad_core_state \<times> host) option" where
  "seq_step sz = (\<lambda>(c, m). case fetch c m sz of None \<Rightarrow> None
     | Some (Inl e) \<Rightarrow> Some (c, m)
     | Some (Inr (d, c1)) \<Rightarrow> (case execute c1 d m sz (c_pc c1 - 4) of None \<Rightarrow> None
         | Some (c2, m2, r, t) \<Rightarrow> Some (c2, m2)))"

definition seq_halted :: "u64 \<Rightarrow> brad_core_state \<times> host \<Rightarrow> bool" where
  "seq_halted sz = (\<lambda>(c, m). beyond (c_pc c) sz)"

text \<open>The step is defined and does not overwrite one of the instructions a pipeline has already fetched.\<close>

definition window_kept :: "u64 \<Rightarrow> brad_core_state \<times> host \<Rightarrow> bool" where
  "window_kept sz = (\<lambda>(c, m). case seq_step sz (c, m) of None \<Rightarrow> False
     | Some (c', m') \<Rightarrow> (\<forall>j \<in> set [1..<pipe_exec_stage (c_model c)].
         peek32 m' (unat (c_pc c + 4 * of_nat j)) = peek32 m (unat (c_pc c + 4 * of_nat j))))"

section \<open>The four pipelines\<close>

definition retire :: "brad_isa_pipeline_model \<Rightarrow> brad_core_state \<Rightarrow> brad_core_state" where
  "retire md = (if md = PIPE_FALCON \<or> md = PIPE_FALCON_LITE then clear_exec else id)"

lemma run_pipeline_eq:
  "run_pipeline md c0 m sz = (let c = advance_pipeline c0 in
     case at_exec c of
       None \<Rightarrow> rest_of_cycle sz (c, m)
     | Some (d, p) \<Rightarrow> (case execute c d m sz p of None \<Rightarrow> None
         | Some (c1, m1, r, t) \<Rightarrow>
             if t then Some (taken_branch (retire md c1), m1) else rest_of_cycle sz (retire md c1, m1)))"
  by (cases md)
    (auto simp: run_phoenix_pipeline_def run_falcon_pipeline_def run_kestrel_pipeline_def run_falcon_lite_pipeline_def
      retire_def Let_def split: option.splits prod.splits dest: execute_frame(3))

lemma outside_simps [simp]:
  "c_model (advance_pipeline c) = c_model c" "c_pc (advance_pipeline c) = c_pc c" "c_running (advance_pipeline c) = c_running c"
  "c_status (advance_pipeline c) = c_status c" "c_compress (advance_pipeline c) = c_compress c" "c_regs (advance_pipeline c) = c_regs c"
  "c_cycles (advance_pipeline c) = c_cycles c" "c_perf_cnt (advance_pipeline c) = c_perf_cnt c"
  "c_model (clear_exec c) = c_model c" "c_pc (clear_exec c) = c_pc c" "c_running (clear_exec c) = c_running c"
  "c_status (clear_exec c) = c_status c" "c_compress (clear_exec c) = c_compress c" "c_regs (clear_exec c) = c_regs c"
  "c_cycles (clear_exec c) = c_cycles c" "c_perf_cnt (clear_exec c) = c_perf_cnt c"
  "c_model (set_drain b c) = c_model c" "c_pc (set_drain b c) = c_pc c" "c_running (set_drain b c) = c_running c"
  "c_status (set_drain b c) = c_status c" "c_compress (set_drain b c) = c_compress c" "c_regs (set_drain b c) = c_regs c"
  "c_cycles (set_drain b c) = c_cycles c" "c_perf_cnt (set_drain b c) = c_perf_cnt c"
  "c_model (enter_stage0 d c) = c_model c" "c_pc (enter_stage0 d c) = c_pc c" "c_running (enter_stage0 d c) = c_running c"
  "c_status (enter_stage0 d c) = c_status c" "c_compress (enter_stage0 d c) = c_compress c" "c_regs (enter_stage0 d c) = c_regs c"
  "c_cycles (enter_stage0 d c) = c_cycles c" "c_perf_cnt (enter_stage0 d c) = c_perf_cnt c"
  "c_model (taken_branch c) = c_model c" "c_pc (taken_branch c) = c_pc c" "c_running (taken_branch c) = c_running c"
  "c_status (taken_branch c) = c_status c" "c_compress (taken_branch c) = c_compress c" "c_regs (taken_branch c) = c_regs c"
  "c_cycles (taken_branch c) = c_cycles c" "c_perf_cnt (taken_branch c) = c_perf_cnt c"
  by (simp_all add: advance_pipeline_def clear_exec_def set_drain_def enter_stage0_def taken_branch_def
      pipeline_flush_def Let_def)

lemma count_cycle_simps [simp]:
  "c_model (count_cycle c) = c_model c" "c_pc (count_cycle c) = c_pc c" "c_pipe (count_cycle c) = c_pipe c"
  "c_status (count_cycle c) = c_status c" "c_compress (count_cycle c) = c_compress c" "c_regs (count_cycle c) = c_regs c"
  "c_cycles (count_cycle c) = c_cycles c + 1" "c_perf_cnt (count_cycle c) = c_perf_cnt c"
  "c_running (count_cycle c) \<longleftrightarrow> c_running c \<and> \<not> (p_drain (c_pipe c) \<and>
     (\<forall>v \<in> set (take (p_depth (c_pipe c)) (p_valid (c_pipe c))). \<not> v))"
  by (auto simp: count_cycle_def update_energy_def Let_def)

text \<open>What the cycle makes of the part that the reference machine sees.\<close>

definition hidden :: brad_core_state where
  "hidden = zero_core\<lparr> c_running := True \<rparr>"

abbreviation visible :: "brad_core_state \<Rightarrow> brad_core_state" where
  "visible c \<equiv> reframe hidden c"

lemma visible_simps [pipe_simps]:
  "visible (advance_pipeline c) = visible c" "visible (clear_exec c) = visible c" "visible (set_drain b c) = visible c"
  "visible (enter_stage0 d c) = visible c" "visible (taken_branch c) = visible c" "visible (count_cycle c) = visible c"
  "visible (retire md c) = visible c" "reframe f (visible c) = reframe f c"
  by (simp_all add: reframe_def advance_pipeline_def clear_exec_def set_drain_def enter_stage0_def taken_branch_def
      pipeline_flush_def count_cycle_def update_energy_def retire_def Let_def)

section \<open>Every cycle keeps the shape\<close>

lemma nth_cleared:
  assumes "\<forall>i < k. vs ! i \<longrightarrow> (\<exists>y. xs ! i = Some y)" "length vs = k" "i < k" "vs[n := False] ! i"
  shows "\<exists>y. xs[n := z] ! i = Some y"
  using assms by (cases "i = n") auto

lemma core_wf_steps:
  assumes "core_wf c"
  shows "core_wf (advance_pipeline c)" "core_wf (clear_exec c)" "core_wf (set_drain b c)" "core_wf (count_cycle c)"
    "core_wf (retire md c)" "core_wf (taken_branch c)" "regs_ok d \<Longrightarrow> core_wf (enter_stage0 d c)"
proof -
  let ?p = "c_pipe c"
  have d: "0 < p_depth ?p" "p_depth ?p \<le> 16" "p_exec ?p < 16"
    using assms pipe_stages [of "c_model c"] by (simp_all add: core_wf_def)
  have drop_some: "Some x \<in> set (drop n xs) \<Longrightarrow> Some x \<in> set xs" for x :: brad_isa_insn and n xs by (rule in_set_dropD)
  show "core_wf (advance_pipeline c)"
    using assms d shift_in_set [of "p_depth ?p" None "p_insn ?p"]
    by (auto simp: core_wf_def advance_pipeline_def Let_def BRAD_PIPELINE_DEPTH_def shift_in_nth)
  show cl: "core_wf (clear_exec c)"
    using assms
    by (auto simp: core_wf_def clear_exec_def Let_def intro: nth_cleared dest: set_update_subset_insert [THEN subsetD])
  show "core_wf (set_drain b c)" using assms by (simp add: core_wf_def set_drain_def)
  show "core_wf (count_cycle c)" using assms by (simp add: core_wf_def)
  show "core_wf (retire md c)" using assms cl by (simp add: retire_def)
  show "core_wf (taken_branch c)"
    using assms d
    by (auto simp: core_wf_def taken_branch_def set_drain_def pipeline_flush_def Let_def nth_list_update nth_append
        BRAD_PIPELINE_DEPTH_def dest!: set_update_subset_insert [THEN subsetD] drop_some)
  show "core_wf (enter_stage0 d c)" if "regs_ok d"
    using assms that
    by (auto simp: core_wf_def enter_stage0_def Let_def nth_list_update dest: set_update_subset_insert [THEN subsetD])
qed

lemma core_wf_frame: "core_wf c \<Longrightarrow> same_frame c c1 \<Longrightarrow> core_wf c1"
  by (simp add: core_wf_def same_frame_def)

lemma fetch_wf:
  assumes "core_wf c" "fetch c m sz = Some (Inr (d, c1))"
  shows "core_wf c1" "regs_ok d"
  using assms decode_regs expand_regs
  by (auto simp: fetch_def core_wf_def split: if_splits option.splits)

lemma rest_of_cycle_wf:
  assumes "core_wf c" "rest_of_cycle sz (c, m) = Some (c1, m1)"
  shows "core_wf c1" "m1 = m" "c_model c1 = c_model c"
  using assms fetch_wf [of c m sz]
  by (auto simp: rest_of_cycle_def fetch_stage_def fetch_def intro!: core_wf_steps(3,4,7) split: if_splits option.splits sum.splits)

lemma run_pipeline_wf:
  assumes "core_wf c" "run_pipeline md c m sz = Some (c1, m1)"
  shows "core_wf c1 \<and> c_model c1 = c_model c"
proof -
  let ?c = "advance_pipeline c"
  have wf: "core_wf ?c" by (rule core_wf_steps) (rule assms)
  show ?thesis
  proof (cases "at_exec ?c")
    case None
    then show ?thesis using assms(2) rest_of_cycle_wf [OF wf] by (auto simp: run_pipeline_eq)
  next
    case (Some dp)
    then obtain d p where dp: "at_exec ?c = Some (d, p)" by (cases dp) auto
    then obtain c2 m2 r t where ex: "execute ?c d m sz p = Some (c2, m2, r, t)"
        and res: "(if t then Some (taken_branch (retire md c2), m2) else rest_of_cycle sz (retire md c2, m2)) = Some (c1, m1)"
      using assms(2) by (auto simp: run_pipeline_eq split: option.splits)
    have sf: "same_frame ?c c2" by (rule execute_frame(1) [OF ex])
    have wf2: "core_wf (retire md c2)" by (intro core_wf_steps(5) core_wf_frame [OF wf sf])
    have md: "c_model (retire md c2) = c_model c" using sf by (simp add: same_frame_def retire_def)
    show ?thesis
      using res core_wf_steps(6) [OF wf2] rest_of_cycle_wf [OF wf2] md by (auto split: if_splits)
  qed
qed

section \<open>The instructions in flight\<close>

text \<open>The address of the \<open>j\<close>-th instruction before the program counter.\<close>

definition prior :: "u32 \<Rightarrow> nat \<Rightarrow> u32" where
  "prior pc j = pc - 4 * of_nat j"

lemma prior_step [simp]: "prior (pc + 4) (Suc j) = prior pc j" "prior pc 0 = pc" "prior pc (Suc 0) = pc - 4"
  by (simp_all add: prior_def algebra_simps)

lemma prior_prior: "prior (prior pc n + 4 * of_nat j) k = prior pc (n + k) + 4 * of_nat j"
  by (simp add: prior_def algebra_simps)

text \<open>
  The stages \<open>lo, ..., lo + n - 1\<close> before the one that executes hold the \<open>n\<close> instructions before the program
  counter, the last fetched one first.
\<close>

definition holds :: "host \<Rightarrow> u64 \<Rightarrow> u32 \<Rightarrow> brad_isa_insn option \<Rightarrow> bool" where
  "holds m sz a x \<longleftrightarrow> \<not> beyond a sz \<and> (\<exists>raw. peek32 m (unat a) = Some raw \<and> x = Some (brad_isa_decode raw))"

definition waiting :: "host \<Rightarrow> u64 \<Rightarrow> brad_core_state \<Rightarrow> nat \<Rightarrow> nat \<Rightarrow> bool" where
  "waiting m sz c lo n \<longleftrightarrow> (let p = c_pipe c; e = p_exec p in
     lo + n \<le> e \<and> (\<forall>i < e. p_valid p ! i \<longleftrightarrow> lo \<le> i \<and> i < lo + n) \<and>
     (\<forall>j < n. p_pc p ! (lo + j) = prior (c_pc c) (Suc j) \<and> holds m sz (prior (c_pc c) (Suc j)) (p_insn p ! (lo + j))))"

lemma waiting_cong: "c_pipe c = c_pipe c' \<Longrightarrow> c_pc c = c_pc c' \<Longrightarrow> waiting m sz c lo n = waiting m sz c' lo n"
  by (simp add: waiting_def)

lemma waiting_none: "waiting m sz c lo 0 \<Longrightarrow> waiting m sz c 0 0"
  by (auto simp: waiting_def Let_def)

lemma core_wf_exec:
  assumes "core_wf c"
  shows "0 < p_exec (c_pipe c)" "p_exec (c_pipe c) < p_depth (c_pipe c)" "p_depth (c_pipe c) \<le> 10"
  using assms pipe_stages [of "c_model c"] by (simp_all add: core_wf_def)

lemma advance_nth:
  assumes "core_wf c" "i < p_depth (c_pipe c)"
  shows "p_valid (c_pipe (advance_pipeline c)) ! i \<longleftrightarrow> 0 < i \<and> p_valid (c_pipe c) ! (i - 1)"
    "0 < i \<Longrightarrow> p_insn (c_pipe (advance_pipeline c)) ! i = p_insn (c_pipe c) ! (i - 1)"
    "0 < i \<Longrightarrow> p_pc (c_pipe (advance_pipeline c)) ! i = p_pc (c_pipe c) ! (i - 1)"
    "p_insn (c_pipe (advance_pipeline c)) ! 0 = None"
    "p_exec (c_pipe (advance_pipeline c)) = p_exec (c_pipe c)"
    "p_depth (c_pipe (advance_pipeline c)) = p_depth (c_pipe c)"
    "p_drain (c_pipe (advance_pipeline c)) = p_drain (c_pipe c)"
  using assms core_wf_exec [OF assms(1)]
  by (simp_all add: advance_pipeline_def Let_def shift_in_nth core_wf_def BRAD_PIPELINE_DEPTH_def)

lemma waiting_advance:
  assumes wf: "core_wf c" and w: "waiting m sz c lo n" and room: "lo + n < p_exec (c_pipe c)"
  shows "waiting m sz (advance_pipeline c) (Suc lo) n" "at_exec (advance_pipeline c) = None"
proof -
  note ex = core_wf_exec [OF wf]
  have adv: "p_exec (c_pipe (advance_pipeline c)) = p_exec (c_pipe c)"
    using advance_nth(5) [OF wf, of 0] ex by simp
  have "p_valid (c_pipe (advance_pipeline c)) ! i \<longleftrightarrow> Suc lo \<le> i \<and> i < Suc lo + n" if "i < p_exec (c_pipe c)" for i
    using advance_nth(1) [OF wf, of i] w that ex by (cases i) (auto simp: waiting_def Let_def)
  moreover have "p_pc (c_pipe (advance_pipeline c)) ! (Suc lo + j) = p_pc (c_pipe c) ! (lo + j)"
    "p_insn (c_pipe (advance_pipeline c)) ! (Suc lo + j) = p_insn (c_pipe c) ! (lo + j)" if "j < n" for j
    using advance_nth(2,3) [OF wf, of "Suc lo + j"] that room ex by simp_all
  ultimately show "waiting m sz (advance_pipeline c) (Suc lo) n"
    using w room by (simp add: waiting_def Let_def adv)
  have "\<not> p_valid (c_pipe c) ! (p_exec (c_pipe c) - 1)"
    using w room ex(1) by (auto simp: waiting_def Let_def)
  then show "at_exec (advance_pipeline c) = None"
    using advance_nth(1) [OF wf ex(2)] by (simp add: at_exec_def Let_def adv)
qed

lemma waiting_execute:
  assumes wf: "core_wf c" and w: "waiting m sz c lo (Suc n)" and full: "lo + Suc n = p_exec (c_pipe c)"
  shows "waiting m sz (advance_pipeline c) (Suc lo) n"
    "\<exists>d. at_exec (advance_pipeline c) = Some (d, prior (c_pc c) (Suc n)) \<and> holds m sz (prior (c_pc c) (Suc n)) (Some d)"
proof -
  note ex = core_wf_exec [OF wf]
  have adv: "p_exec (c_pipe (advance_pipeline c)) = p_exec (c_pipe c)"
    using advance_nth(5) [OF wf, of 0] ex by simp
  have "p_valid (c_pipe (advance_pipeline c)) ! i \<longleftrightarrow> Suc lo \<le> i \<and> i < Suc lo + n" if "i < p_exec (c_pipe c)" for i
    using advance_nth(1) [OF wf, of i] w that full ex by (cases i) (auto simp: waiting_def Let_def)
  moreover have shift: "p_pc (c_pipe (advance_pipeline c)) ! (Suc lo + j) = p_pc (c_pipe c) ! (lo + j)"
    "p_insn (c_pipe (advance_pipeline c)) ! (Suc lo + j) = p_insn (c_pipe c) ! (lo + j)" if "j < Suc n" for j
    using advance_nth(2,3) [OF wf, of "Suc lo + j"] that full ex by simp_all
  ultimately show "waiting m sz (advance_pipeline c) (Suc lo) n"
    using w full by (simp add: waiting_def Let_def adv)
  have v: "p_valid (c_pipe (advance_pipeline c)) ! p_exec (c_pipe c)"
    using advance_nth(1) [OF wf ex(2)] w full ex by (auto simp: waiting_def Let_def)
  have "holds m sz (prior (c_pc c) (Suc n)) (p_insn (c_pipe (advance_pipeline c)) ! p_exec (c_pipe c))"
    "p_pc (c_pipe (advance_pipeline c)) ! p_exec (c_pipe c) = prior (c_pc c) (Suc n)"
    using w full shift [of n] by (auto simp: waiting_def Let_def)
  then show "\<exists>d. at_exec (advance_pipeline c) = Some (d, prior (c_pc c) (Suc n)) \<and> holds m sz (prior (c_pc c) (Suc n)) (Some d)"
    using v by (auto simp: at_exec_def Let_def adv holds_def)
qed

text \<open>A fetch prepends an instruction, or sets the drain flag at the end of the memory.\<close>

definition mem_ok :: "host \<Rightarrow> u64 \<Rightarrow> bool" where
  "mem_ok m sz \<longleftrightarrow> unat sz < 2 ^ 31 \<and> (\<forall>a. m a \<noteq> None \<longleftrightarrow> a < unat sz)"

lemma waiting_fetch:
  assumes wf: "core_wf c" and w: "waiting m sz c lo n" and plain: "\<not> compressed c"
    and stage0: "p_insn (c_pipe c) ! 0 = None" and lo: "n = 0 \<or> lo = 1" and nd: "\<not> p_drain (c_pipe c)"
    and run: "c_running c" and safe: "\<not> beyond (c_pc c) sz \<Longrightarrow> peek32 m (unat (c_pc c)) \<noteq> None"
  shows "\<exists>c1. fetch_stage m sz c = Some c1 \<and>
     (if beyond (c_pc c) sz then c1 = set_drain True c
      else waiting m sz c1 0 (Suc n) \<and> c_pc c1 = c_pc c + 4 \<and> \<not> p_drain (c_pipe c1) \<and>
        visible c1 = visible c\<lparr> c_pc := c_pc c + 4 \<rparr> \<and> core_wf c1)"
proof (cases "beyond (c_pc c) sz")
  case True
  then show ?thesis by (simp add: fetch_stage_def fetch_plain plain stage0 nd run)
next
  case False
  then obtain raw where raw: "peek32 m (unat (c_pc c)) = Some raw" using safe by auto
  let ?c = "c\<lparr> c_pc := c_pc c + 4 \<rparr>"
  let ?c1 = "enter_stage0 (brad_isa_decode raw) ?c"
  have f: "fetch_stage m sz c = Some ?c1"
    by (simp add: fetch_stage_def fetch_plain plain stage0 nd run False raw)
  have wf0: "core_wf ?c" using wf by (simp add: core_wf_def)
  have len: "0 < length (p_insn (c_pipe c))" "0 < length (p_pc (c_pipe c))" "0 < length (p_valid (c_pipe c))"
    using wf by (simp_all add: core_wf_def BRAD_PIPELINE_DEPTH_def)
  have "waiting m sz ?c1 0 (Suc n)"
    unfolding waiting_def Let_def
  proof (intro conjI allI impI)
    show "0 + Suc n \<le> p_exec (c_pipe ?c1)"
      using w lo core_wf_exec [OF wf] by (auto simp: waiting_def Let_def enter_stage0_def)
    show "p_valid (c_pipe ?c1) ! i \<longleftrightarrow> 0 \<le> i \<and> i < 0 + Suc n" if "i < p_exec (c_pipe ?c1)" for i
      using that w lo len by (cases i) (auto simp: waiting_def Let_def enter_stage0_def)
    show "p_pc (c_pipe ?c1) ! (0 + j) = prior (c_pc ?c1) (Suc j)" if "j < Suc n" for j
      using that w lo len by (cases j) (auto simp: waiting_def Let_def enter_stage0_def)
    show "holds m sz (prior (c_pc ?c1) (Suc j)) (p_insn (c_pipe ?c1) ! (0 + j))" if "j < Suc n" for j
      using that w lo len raw False by (cases j) (auto simp: waiting_def Let_def enter_stage0_def holds_def)
  qed
  moreover have "\<not> p_drain (c_pipe ?c1)" using nd by (simp add: enter_stage0_def Let_def)
  moreover have "visible ?c1 = visible c\<lparr> c_pc := c_pc c + 4 \<rparr>" by (simp add: pipe_simps)
  ultimately show ?thesis
    using f False core_wf_steps(7) [OF wf0 decode_regs] by simp
qed

lemma waiting_mem:
  assumes "waiting m sz c lo n" "\<And>j. j < n \<Longrightarrow> peek32 m1 (unat (prior (c_pc c) (Suc j))) = peek32 m (unat (prior (c_pc c) (Suc j)))"
  shows "waiting m1 sz c lo n"
  using assms by (simp add: waiting_def Let_def holds_def)

lemma waiting_flush:
  assumes "core_wf c"
  shows "waiting m sz (taken_branch c) 0 0" "\<forall>v \<in> set (take (p_depth (c_pipe (taken_branch c))) (p_valid (c_pipe (taken_branch c)))). \<not> v"
    "\<not> p_drain (c_pipe (taken_branch c))"
proof -
  let ?d = "p_depth (c_pipe c)" and ?v = "p_valid (c_pipe (taken_branch c))"
  note ex = core_wf_exec [OF assms]
  have len: "length (p_valid (c_pipe c)) = 16" using assms by (simp add: core_wf_def BRAD_PIPELINE_DEPTH_def)
  have "\<not> ?v ! i" if "i < ?d" for i
    using that ex len
    by (simp add: taken_branch_def set_drain_def pipeline_flush_def Let_def nth_list_update nth_append)
  moreover have "p_depth (c_pipe (taken_branch c)) = ?d" "p_exec (c_pipe (taken_branch c)) = p_exec (c_pipe c)"
      "length ?v = 16"
    using ex len by (simp_all add: taken_branch_def set_drain_def pipeline_flush_def Let_def)
  ultimately show "waiting m sz (taken_branch c) 0 0" "\<forall>v \<in> set (take (p_depth (c_pipe (taken_branch c))) ?v). \<not> v"
    using ex by (auto simp: waiting_def Let_def in_set_conv_nth)
  show "\<not> p_drain (c_pipe (taken_branch c))" by (simp add: taken_branch_def set_drain_def)
qed

lemma waiting_retire:
  assumes "core_wf c" "waiting m sz c lo n"
  shows "waiting m sz (retire md c) lo n" "p_insn (c_pipe (retire md c)) ! 0 = p_insn (c_pipe c) ! 0"
    "p_drain (c_pipe (retire md c)) = p_drain (c_pipe c)"
  using assms core_wf_exec [OF assms(1)]
  by (auto simp: retire_def clear_exec_def waiting_def Let_def)

section \<open>Pipelined and sequential execution\<close>

text \<open>The stage, below \<open>e\<close>, of the oldest instruction that has not been executed, and its address.\<close>

fun oldest :: "bool list \<Rightarrow> nat \<Rightarrow> nat option" where
  "oldest vs 0 = None"
| "oldest vs (Suc i) = (if vs ! i then Some i else oldest vs i)"

definition next_pc :: "brad_core_state \<Rightarrow> u32" where
  "next_pc c = (case oldest (p_valid (c_pipe c)) (p_exec (c_pipe c)) of None \<Rightarrow> c_pc c
     | Some h \<Rightarrow> p_pc (c_pipe c) ! h)"

definition arch :: "brad_core_state \<Rightarrow> brad_core_state" where
  "arch c = (visible c)\<lparr> c_pc := next_pc c \<rparr>"

lemma oldest_none: "\<forall>i < e. \<not> vs ! i \<Longrightarrow> oldest vs e = None"
  by (induction e) auto

lemma oldest_interval:
  "(\<forall>i < e. vs ! i \<longleftrightarrow> lo \<le> i \<and> i < lo + Suc n) \<Longrightarrow> lo + Suc n \<le> e \<Longrightarrow> oldest vs e = Some (lo + n)"
proof (induction e)
  case (Suc e)
  then show ?case by (cases "lo + Suc n = Suc e") auto
qed simp

lemma oldest_waiting:
  assumes "waiting m sz c lo n"
  shows "oldest (p_valid (c_pipe c)) (p_exec (c_pipe c)) = (if n = 0 then None else Some (lo + n - 1))"
proof (cases n)
  case 0
  then show ?thesis using assms by (auto simp: waiting_def Let_def intro!: oldest_none)
next
  case (Suc k)
  then show ?thesis using assms oldest_interval [of _ _ lo k] by (simp add: waiting_def Let_def)
qed

lemma next_pc_waiting:
  assumes "waiting m sz c lo n"
  shows "next_pc c = prior (c_pc c) n"
  unfolding next_pc_def oldest_waiting [OF assms] using assms by (cases n) (auto simp: waiting_def Let_def)

definition drained :: "brad_core_state \<Rightarrow> bool" where
  "drained c \<longleftrightarrow> p_drain (c_pipe c) \<and> (\<forall>v \<in> set (take (p_depth (c_pipe c)) (p_valid (c_pipe c))). \<not> v)"

text \<open>
  The invariant of a core that is not in compressed mode: only an unreadable address sets the drain flag, until then
  the fetch stage is never empty while instructions are in flight, and the core runs until it is drained.
\<close>

definition pipe_ok :: "u64 \<Rightarrow> brad_core_state \<times> host \<Rightarrow> bool" where
  "pipe_ok sz = (\<lambda>(c, m). core_wf c \<and> \<not> compressed c \<and> mem_ok m sz \<and> c_running c = (\<not> drained c) \<and>
     (\<exists>lo n. waiting m sz c lo n \<and> (if p_drain (c_pipe c) then beyond (c_pc c) sz else n = 0 \<or> lo = 0)))"

lemma unat_ucast64: "unat (ucast (x :: u32) :: u64) = unat x"
  using unat_u32 [of x] by (simp add: unsigned_ucast_eq take_bit_nat_eq_self)

lemma holds_next:
  assumes "holds m sz q x" "mem_ok m sz" "\<not> beyond (q + 4) sz"
  shows "peek32 m (unat (q + 4)) \<noteq> None"
proof -
  have mp: "mapped m (unat q) 4" using assms(1) by (auto simp: holds_def peek32_def peek_eq split: if_splits)
  then have "m (unat q + 3) \<noteq> None" by (simp add: mapped_def)
  then have le: "unat q + 4 \<le> unat sz" "unat sz < 2 ^ 31" using assms(2) by (auto simp: mem_ok_def)
  have q4: "unat (q + 4) = unat q + 4" and q8: "unat (q + 4 + 4) = unat q + 8"
    using le by (subst unat_add_lem [THEN iffD1], simp_all)+
  have "unat q + 8 \<le> unat sz"
    using assms(3) q8 by (simp add: beyond_def word_less_nat_alt unat_ucast64)
  then have "mapped m (unat (q + 4)) 4"
    using assms(2) q4 by (auto simp: mapped_def mem_ok_def)
  then show ?thesis by (simp add: peek32_def peek_eq)
qed

text \<open>The part of a cycle after execution, from a state whose fetch stage is empty.\<close>

lemma drained_count [simp]: "drained (count_cycle c) = drained c"
  by (simp add: drained_def)

lemma running_count: "c_running (count_cycle c) \<longleftrightarrow> c_running c \<and> \<not> drained c"
  by (simp add: drained_def)

lemma rest_sim:
  assumes wf: "core_wf c" and w: "waiting m sz c lo n" and plain: "\<not> compressed c" and mem: "mem_ok m sz"
    and stage0: "p_insn (c_pipe c) ! 0 = None" and run: "c_running c"
    and front: "if p_drain (c_pipe c) then beyond (c_pc c) sz else n = 0 \<or> lo = 1"
    and safe: "\<not> beyond (c_pc c) sz \<Longrightarrow> peek32 m (unat (c_pc c)) \<noteq> None"
  shows "\<exists>c1. rest_of_cycle sz (c, m) = Some (c1, m) \<and> pipe_ok sz (c1, m) \<and>
     arch c1 = (visible c)\<lparr> c_pc := prior (c_pc c) n \<rparr> \<and>
     (if p_drain (c_pipe c) \<or> beyond (c_pc c) sz then c_pipe c1 = (c_pipe c)\<lparr> p_drain := True \<rparr>
      else waiting m sz c1 0 (Suc n))"
proof -
  consider (drain) "p_drain (c_pipe c)" | (last) "\<not> p_drain (c_pipe c)" "beyond (c_pc c) sz"
    | (fetch) "\<not> p_drain (c_pipe c)" "\<not> beyond (c_pc c) sz" by blast
  then show ?thesis
  proof cases
    case fetch
    then have "n = 0 \<or> lo = 1" using front by simp
    from waiting_fetch [OF wf w plain stage0 this fetch(1) run safe] fetch
    obtain c1 where c1: "fetch_stage m sz c = Some c1" "waiting m sz c1 0 (Suc n)" "c_pc c1 = c_pc c + 4"
        "\<not> p_drain (c_pipe c1)" "visible c1 = visible c\<lparr> c_pc := c_pc c + 4 \<rparr>" "core_wf c1" by auto
    have fr: "c_status c1 = c_status c" "c_compress c1 = c_compress c"
      using arg_cong [OF c1(5), of c_status] arg_cong [OF c1(5), of c_compress] by (simp_all add: reframe_def)
    have run1: "c_running c1" using c1(1) run plain
      by (auto simp: fetch_stage_def fetch_plain enter_stage0_def set_drain_def Let_def split: if_splits option.splits)
    have w1: "waiting m sz (count_cycle c1) 0 (Suc n)" using c1(2) waiting_cong [of "count_cycle c1" c1] by simp
    have nd: "\<not> drained c1" using c1(4) by (simp add: drained_def)
    have "pipe_ok sz (count_cycle c1, m)"
      using core_wf_steps(4) [OF c1(6)] w1 c1(4) plain fr mem run1 nd
      by (auto simp: pipe_ok_def compressed_def running_count simp del: count_cycle_simps(9))
    moreover have "arch (count_cycle c1) = (visible c)\<lparr> c_pc := prior (c_pc c) n \<rparr>"
      unfolding arch_def next_pc_waiting [OF w1] by (simp add: pipe_simps c1(3,5))
    ultimately show ?thesis using c1(1) w1 fetch by (auto simp: rest_of_cycle_def)
  next
    case drain
    have c1: "fetch_stage m sz c = Some c" using drain by (simp add: fetch_stage_def)
    have w1: "waiting m sz (count_cycle c) lo n" using w waiting_cong [of "count_cycle c" c] by simp
    have "pipe_ok sz (count_cycle c, m)"
      using core_wf_steps(4) [OF wf] w1 drain plain mem run front
      by (auto simp: pipe_ok_def compressed_def running_count simp del: count_cycle_simps(9))
    moreover have "arch (count_cycle c) = (visible c)\<lparr> c_pc := prior (c_pc c) n \<rparr>"
      unfolding arch_def next_pc_waiting [OF w1] by (simp add: pipe_simps)
    ultimately show ?thesis using c1 drain by (auto simp: rest_of_cycle_def)
  next
    case last
    let ?c = "set_drain True c"
    have c1: "fetch_stage m sz c = Some ?c"
      using last by (simp add: fetch_stage_def fetch_plain plain stage0 run)
    have w1: "waiting m sz (count_cycle ?c) lo n"
      using w by (simp add: waiting_def Let_def set_drain_def)
    have "pipe_ok sz (count_cycle ?c, m)"
      using core_wf_steps(4) [OF core_wf_steps(3) [OF wf]] w1 last plain mem run
      by (auto simp: pipe_ok_def compressed_def running_count simp del: count_cycle_simps(9))
        (auto simp: set_drain_def)
    moreover have "arch (count_cycle ?c) = (visible c)\<lparr> c_pc := prior (c_pc c) n \<rparr>"
      unfolding arch_def next_pc_waiting [OF w1] by (simp add: pipe_simps)
    moreover have "c_pipe (count_cycle ?c) = (c_pipe c)\<lparr> p_drain := True \<rparr>" by (simp add: set_drain_def)
    ultimately show ?thesis using c1 last by (auto simp: rest_of_cycle_def)
  qed
qed

text \<open>The lowest stage that is occupied, and a bound on the cycles until the next instruction or the stop.\<close>

definition lowest :: "brad_core_state \<Rightarrow> nat" where
  "lowest c = (LEAST i. p_depth (c_pipe c) \<le> i \<or> p_valid (c_pipe c) ! i)"

definition pipe_wait :: "brad_core_state \<Rightarrow> nat" where
  "pipe_wait c = (if \<not> c_running c then 0
     else case oldest (p_valid (c_pipe c)) (p_exec (c_pipe c)) of
       Some h \<Rightarrow> p_exec (c_pipe c) - h
     | None \<Rightarrow> if p_drain (c_pipe c) then p_depth (c_pipe c) - lowest c
         else p_exec (c_pipe c) + p_depth (c_pipe c) + 2)"

lemma pipe_wait_waiting:
  assumes "waiting m sz c lo (Suc n)"
  shows "pipe_wait c \<le> p_exec (c_pipe c) - (lo + n)" "lo + n < p_exec (c_pipe c)"
  using assms oldest_waiting [OF assms] by (simp_all add: pipe_wait_def waiting_def Let_def)

lemma lowest_advance:
  assumes wf: "core_wf c" and occ: "\<not> (\<forall>v \<in> set (take (p_depth (c_pipe c)) (p_valid (c_pipe c))). \<not> v)"
    and p: "c_pipe c1 = (c_pipe (advance_pipeline c))\<lparr> p_drain := True \<rparr>"
  shows "p_depth (c_pipe c1) - lowest c1 < p_depth (c_pipe c) - lowest c"
proof -
  let ?d = "p_depth (c_pipe c)"
  let ?P = "\<lambda>i. ?d \<le> i \<or> p_valid (c_pipe c) ! i" and ?Q = "\<lambda>i. ?d \<le> i \<or> p_valid (c_pipe c1) ! i"
  note ex = core_wf_exec [OF wf]
  obtain k where k: "k < ?d" "p_valid (c_pipe c) ! k"
    using occ by (auto simp: in_set_conv_nth)
  have low: "lowest c \<le> i" if "?P i" for i
    unfolding lowest_def using that by (rule Least_le)
  have "lowest c < ?d" using low [of k] k by simp
  have dep: "p_depth (c_pipe c1) = ?d" using p advance_nth(6) [OF wf k(1)] by simp
  have shift: "p_valid (c_pipe c1) ! i \<longleftrightarrow> 0 < i \<and> p_valid (c_pipe c) ! (i - 1)" if "i < ?d" for i
    using advance_nth(1) [OF wf that] p by simp
  have "?Q ?d" by simp
  then have "?Q (lowest c1)" unfolding lowest_def dep by (rule LeastI)
  then have "lowest c < lowest c1"
  proof (cases "?d \<le> lowest c1")
    case False
    then have "0 < lowest c1" "?P (lowest c1 - 1)" using \<open>?Q (lowest c1)\<close> shift [of "lowest c1"] by auto
    then show ?thesis using low [of "lowest c1 - 1"] by simp
  qed (use \<open>lowest c < ?d\<close> in simp)
  then show ?thesis using dep \<open>lowest c < ?d\<close> by simp
qed

lemma mem_ok_peek: "mem_ok m sz \<Longrightarrow> peek32 m a \<noteq> None \<longleftrightarrow> a + 4 \<le> unat sz"
proof -
  assume ok: "mem_ok m sz"
  have "mapped m a 4 \<longleftrightarrow> a + 4 \<le> unat sz"
    using ok unfolding mem_ok_def mapped_def by (auto dest: spec [of _ "3::nat"])
  then show ?thesis by (simp add: peek32_def peek_eq)
qed

lemma execute_mem_ok:
  assumes "execute c d m sz p = Some (c1, m1, r, t)" "mem_ok m sz"
  shows "mem_ok m1 sz"
proof -
  have "mem_ok m' sz" if "poke32 m a v = Some m'" for m' a v
    using that assms(2) poke_dom by (fastforce simp: mem_ok_def poke32_def)
  then show ?thesis using assms
    by (cases "d_opcode d") (auto simp: execute_def Let_def split: if_splits option.splits)
qed

text \<open>The reference machine executes the oldest waiting instruction as the core does.\<close>

lemma seq_step_arch:
  assumes plain: "\<not> compressed c" and q: "next_pc c = q" and h: "holds m sz q (Some d)"
  shows "seq_step sz (arch c, m) = (case execute c d m sz q of None \<Rightarrow> None
     | Some (c2, m2, r, t) \<Rightarrow> Some (if t then visible c2 else (visible c2)\<lparr> c_pc := q + 4 \<rparr>, m2))"
proof -
  obtain raw where raw: "peek32 m (unat q) = Some raw" "d = brad_isa_decode raw" "\<not> beyond q sz"
    using h by (auto simp: holds_def)
  have pl: "\<not> compressed (arch c)" using plain by (simp add: compressed_def arch_def reframe_def)
  have pc: "c_pc (arch c) = q" by (simp add: arch_def q)
  have "fetch (arch c) m sz = Some (Inr (d, (visible c)\<lparr> c_pc := q + 4 \<rparr>))"
    unfolding fetch_plain [OF pl] pc using raw by (simp add: arch_def)
  then show ?thesis
    by (simp add: seq_step_def execute_pc execute_reframe split: option.splits)
qed

lemma execute_advance:
  "execute (advance_pipeline c) d m sz p = map_option (\<lambda>(c1, x). (reframe (advance_pipeline c) c1, x)) (execute c d m sz p)"
proof -
  have "advance_pipeline c = reframe (advance_pipeline c) c" by (simp add: reframe_def advance_pipeline_def Let_def)
  then show ?thesis using execute_reframe [of "advance_pipeline c" c] by simp
qed

lemma pipe_okD:
  assumes "pipe_ok sz (c, m)"
  shows "core_wf c" "\<not> compressed c" "mem_ok m sz" "c_running c = (\<not> drained c)"
    "\<exists>lo n. waiting m sz c lo n \<and> (if p_drain (c_pipe c) then beyond (c_pc c) sz else n = 0 \<or> lo = 0)"
  using assms by (auto simp: pipe_ok_def)

text \<open>A cycle in which nothing reaches the stage that executes.\<close>

lemma pipe_stall:
  assumes ok: "pipe_ok sz (c, m)" and run: "c_running c" and w: "waiting m sz c lo n"
    and front: "if p_drain (c_pipe c) then beyond (c_pc c) sz else n = 0 \<or> lo = 0"
    and room: "lo + n < p_exec (c_pipe c)"
    and safe: "\<not> beyond (c_pc c) sz \<Longrightarrow> peek32 m (unat (c_pc c)) \<noteq> None"
  shows "\<exists>c1. run_pipeline (c_model c) c m sz = Some (c1, m) \<and> pipe_ok sz (c1, m) \<and> arch c1 = arch c \<and>
    pipe_wait c1 < pipe_wait c"
proof -
  let ?a = "advance_pipeline c"
  note wf = pipe_okD(1) [OF ok] and ex = core_wf_exec [OF pipe_okD(1) [OF ok]]
  have depth: "0 < p_depth (c_pipe c)" using ex by simp
  note adv = waiting_advance [OF wf w room] and anth = advance_nth [OF wf depth]
  have plain: "\<not> compressed ?a" using pipe_okD(2) [OF ok] by (simp add: compressed_def)
  obtain lo' where w': "waiting m sz ?a lo' n" and lo': "if p_drain (c_pipe c) then True else n = 0 \<or> lo' = 1"
      and lo'': "0 < n \<Longrightarrow> lo' = Suc lo"
    using adv(1) front by (cases "n = 0") (auto split: if_splits)
  have "\<exists>c1. rest_of_cycle sz (?a, m) = Some (c1, m) \<and> pipe_ok sz (c1, m) \<and>
     arch c1 = (visible ?a)\<lparr> c_pc := prior (c_pc ?a) n \<rparr> \<and>
     (if p_drain (c_pipe ?a) \<or> beyond (c_pc ?a) sz then c_pipe c1 = (c_pipe ?a)\<lparr> p_drain := True \<rparr>
      else waiting m sz c1 0 (Suc n))"
    by (rule rest_sim [OF core_wf_steps(1) [OF wf] w' plain pipe_okD(3) [OF ok]])
      (use run front lo' anth safe in \<open>auto split: if_splits\<close>)
  then obtain c1 where c1: "rest_of_cycle sz (?a, m) = Some (c1, m)" "pipe_ok sz (c1, m)"
      "arch c1 = (visible c)\<lparr> c_pc := prior (c_pc c) n \<rparr>"
      "if p_drain (c_pipe c) \<or> beyond (c_pc c) sz then c_pipe c1 = (c_pipe ?a)\<lparr> p_drain := True \<rparr>
       else waiting m sz c1 0 (Suc n)"
    by (auto simp: pipe_simps anth)
  have exe: "p_exec (c_pipe c1) = p_exec (c_pipe c)" "p_depth (c_pipe c1) = p_depth (c_pipe c)"
    using c1(2) run_pipeline_wf [OF wf, of "c_model c" m sz c1 m] pipe_okD(1) [OF c1(2)] wf
    using c1(1) adv(2) by (auto simp: core_wf_def run_pipeline_eq)
  have "pipe_wait c1 < pipe_wait c"
  proof (cases "p_drain (c_pipe c) \<or> beyond (c_pc c) sz")
    case True
    then have p: "c_pipe c1 = (c_pipe ?a)\<lparr> p_drain := True \<rparr>" using c1(4) by simp
    have w1: "waiting m sz c1 lo' n" if "c_pc c1 = c_pc c" using w' p that by (simp add: waiting_def Let_def)
    have "c_pc c1 = c_pc c" using c1(1) True
      by (auto simp: rest_of_cycle_def fetch_stage_def fetch_plain plain anth(7) split: if_splits option.splits)
    note w1 = w1 [OF this]
    show ?thesis
    proof (cases n)
      case 0
      show ?thesis
      proof (cases "p_drain (c_pipe c)")
        case True
        have "\<not> (\<forall>v \<in> set (take (p_depth (c_pipe c)) (p_valid (c_pipe c))). \<not> v)"
          using run pipe_okD(4) [OF ok] True by (simp add: drained_def)
        note low = lowest_advance [OF wf this p]
        show ?thesis using low oldest_waiting [OF w] oldest_waiting [OF w1] 0 True run p
          by (auto simp: pipe_wait_def)
      next
        case False
        then show ?thesis using oldest_waiting [OF w] oldest_waiting [OF w1] 0 run p exe
          by (simp add: pipe_wait_def) linarith
      qed
    next
      case (Suc k)
      have "pipe_wait c1 \<le> p_exec (c_pipe c) - (Suc lo + k)" using pipe_wait_waiting(1) [of m sz c1 lo' k] w1 Suc lo'' exe by simp
      then show ?thesis using oldest_waiting [OF w] Suc run room by (simp add: pipe_wait_def)
    qed
  next
    case False
    then have "waiting m sz c1 0 (Suc n)" using c1(4) by simp
    note pw = pipe_wait_waiting [OF this]
    show ?thesis
    proof (cases n)
      case 0
      then show ?thesis using pw oldest_waiting [OF w] exe False run by (simp add: pipe_wait_def)
    next
      case (Suc k)
      then show ?thesis using pw oldest_waiting [OF w] exe False run front by (simp add: pipe_wait_def)
    qed
  qed
  moreover have "arch c1 = arch c" unfolding c1(3) arch_def [of c] next_pc_waiting [OF w] ..
  ultimately show ?thesis using c1(1,2) adv(2) by (auto simp: run_pipeline_eq)
qed

text \<open>A cycle in which an instruction is executed.\<close>

lemma pipe_exec_step:
  assumes ok: "pipe_ok sz (c, m)" and run: "c_running c" and w: "waiting m sz c lo (Suc n)"
    and front: "if p_drain (c_pipe c) then beyond (c_pc c) sz else lo = 0"
    and full: "lo + Suc n = p_exec (c_pipe c)"
    and good: "window_kept sz (arch c, m)"
  shows "\<exists>c1 m1. run_pipeline (c_model c) c m sz = Some (c1, m1) \<and> pipe_ok sz (c1, m1) \<and>
    \<not> beyond (c_pc (arch c)) sz \<and> seq_step sz (arch c, m) = Some (arch c1, m1)"
proof -
  let ?a = "advance_pipeline c" and ?q = "prior (c_pc c) (Suc n)" and ?md = "c_model c"
  note wf = pipe_okD(1) [OF ok] and ex = core_wf_exec [OF pipe_okD(1) [OF ok]]
  have depth: "0 < p_depth (c_pipe c)" using ex by simp
  note adv = waiting_execute [OF wf w full] and anth = advance_nth [OF wf depth]
  obtain d where d: "at_exec ?a = Some (d, ?q)" "holds m sz ?q (Some d)" using adv(2) by blast
  note q = next_pc_waiting [OF w]
  obtain c2 m2 r t where e0: "execute c d m sz ?q = Some (c2, m2, r, t)"
      and seq: "seq_step sz (arch c, m) = Some (if t then visible c2 else (visible c2)\<lparr> c_pc := ?q + 4 \<rparr>, m2)"
    using good seq_step_arch [OF pipe_okD(2) [OF ok] q d(2)] by (auto simp: window_kept_def split: option.splits)
  define c3 where "c3 = reframe ?a c2"
  have e: "execute ?a d m sz ?q = Some (c3, m2, r, t)" using execute_advance [of c d m sz ?q] e0 by (simp add: c3_def)
  note fr = execute_frame [OF e] and wfa = core_wf_steps(1) [OF wf]
  have wf3: "core_wf c3" by (rule core_wf_frame [OF wfa fr(1)])
  have vis: "visible c3 = visible c2" by (simp add: c3_def reframe_def)
  have m2: "mem_ok m2 sz" by (rule execute_mem_ok [OF e pipe_okD(3) [OF ok]])
  have plain: "\<not> compressed (retire ?md c3)"
    using pipe_okD(2) [OF ok] fr(1) by (simp add: compressed_def same_frame_def retire_def)
  have run3: "c_running (retire ?md c3)" using fr(1) run by (simp add: same_frame_def retire_def)
  have pcq: "c_pc (arch c) = ?q" by (simp add: arch_def q)
  have nb: "\<not> beyond (c_pc (arch c)) sz" using d(2) pcq by (simp add: holds_def)
  show ?thesis
  proof (cases t)
    case True
    let ?f = "taken_branch (retire ?md c3)"
    note wfr = core_wf_steps(5) [OF wf3, of ?md]
    note fl = waiting_flush(1) [OF wfr, of m2 sz] waiting_flush(2,3) [OF wfr]
    have run_eq: "run_pipeline ?md c m sz = Some (?f, m2)" using d e True by (simp add: run_pipeline_eq)
    have "pipe_ok sz (?f, m2)"
      using core_wf_steps(6) [OF wfr] plain m2 run3 fl by (auto simp: pipe_ok_def compressed_def drained_def)
    moreover have "arch ?f = visible c2"
    proof -
      have "visible ?f = visible c2" by (simp only: pipe_simps vis)
      moreover have "c_pc ?f = c_pc c2" by (simp add: retire_def c3_def pipe_simps)
      moreover have "(visible c2)\<lparr> c_pc := c_pc c2 \<rparr> = visible c2" by (simp add: reframe_def)
      ultimately show ?thesis unfolding arch_def next_pc_waiting [OF fl(1)] by simp
    qed
    ultimately show ?thesis using run_eq seq True nb by simp
  next
    case False
    have pc3: "c_pc c3 = c_pc c" using fr(2) False by simp
    have keep: "peek32 m2 (unat (prior (c_pc c) (Suc j))) = peek32 m (unat (prior (c_pc c) (Suc j)))" if "j < n" for j
    proof -
      have "n - j \<in> set [1..<pipe_exec_stage (c_model (arch c))]"
        using that full wf by (auto simp: core_wf_def arch_def reframe_def)
      then have "peek32 m2 (unat (?q + 4 * of_nat (n - j))) = peek32 m (unat (?q + 4 * of_nat (n - j)))"
        using good seq pcq by (simp add: window_kept_def)
      moreover have "?q + 4 * of_nat (n - j) = prior (c_pc c) (Suc j)"
        using that by (simp add: prior_def of_nat_diff algebra_simps)
      ultimately show ?thesis by simp
    qed
    have "waiting m2 sz ?a (Suc lo) n" by (rule waiting_mem [OF adv(1)]) (use keep in simp)
    then have w3: "waiting m2 sz c3 (Suc lo) n"
      using waiting_cong [of c3 ?a m2 sz "Suc lo" n] fr(1) pc3 by (simp add: same_frame_def)
    note wr = waiting_retire [OF wf3 w3, of ?md]
    have pipe3: "c_pipe c3 = c_pipe ?a" using fr(1) by (simp add: same_frame_def)
    have pcr: "c_pc (retire ?md c3) = c_pc c" by (simp add: retire_def pc3)
    have safe: "peek32 m2 (unat (c_pc c)) \<noteq> None" if "\<not> beyond (c_pc c) sz"
    proof -
      have "holds m sz (c_pc c - 4) (p_insn (c_pipe c) ! lo)" using w by (auto simp: waiting_def Let_def dest: spec [of _ "0::nat"])
      from holds_next [OF this pipe_okD(3) [OF ok]] that have "peek32 m (unat (c_pc c)) \<noteq> None" by simp
      then show ?thesis using mem_ok_peek m2 pipe_okD(3) [OF ok] by blast
    qed
    have "\<exists>c1. rest_of_cycle sz (retire ?md c3, m2) = Some (c1, m2) \<and> pipe_ok sz (c1, m2) \<and>
       arch c1 = (visible (retire ?md c3))\<lparr> c_pc := prior (c_pc (retire ?md c3)) n \<rparr> \<and>
       (if p_drain (c_pipe (retire ?md c3)) \<or> beyond (c_pc (retire ?md c3)) sz
        then c_pipe c1 = (c_pipe (retire ?md c3))\<lparr> p_drain := True \<rparr> else waiting m2 sz c1 0 (Suc n))"
      by (rule rest_sim [OF core_wf_steps(5) [OF wf3] wr(1) plain m2])
        (use run3 front wr anth pcr pipe3 safe in \<open>auto split: if_splits\<close>)
    then obtain c1 where c1: "rest_of_cycle sz (retire ?md c3, m2) = Some (c1, m2)" "pipe_ok sz (c1, m2)"
        "arch c1 = (visible c2)\<lparr> c_pc := prior (c_pc c) n \<rparr>"
      by (auto simp: pipe_simps vis pcr)
    have "?q + 4 = prior (c_pc c) n" by (simp add: prior_def algebra_simps)
    then show ?thesis using c1 seq False d e nb by (simp add: run_pipeline_eq)
  qed
qed

end
