(* ===== verification/CoreRun.thy ===== *)
theory CoreRun
  imports CoreProps
begin

text \<open>
  Runs of one core: the pipelined core simulates the machine without a pipeline (an interpretation of the interface
  \<open>stuttering\<close>), \<open>brad_core_emu_run\<close> returns, and where it stops.
\<close>

section \<open>The simulation\<close>

text \<open>What \<open>brad_core_emu_step\<close> does to a core and the memory.\<close>

definition core_cycle :: "u64 \<Rightarrow> brad_core_state \<times> host \<Rightarrow> (brad_core_state \<times> host) option" where
  "core_cycle sz = (\<lambda>(c, m). if c_running c then run_pipeline (c_model c) c m sz else Some (c, m))"

definition arch_mem :: "brad_core_state \<times> host \<Rightarrow> brad_core_state \<times> host" where
  "arch_mem = (\<lambda>(c, m). (arch c, m))"

lemma pipe_cycle:
  assumes ok: "pipe_ok sz (c, m)" and run: "c_running c" and good: "window_kept sz (arch c, m)"
  shows "\<exists>c1 m1. run_pipeline (c_model c) c m sz = Some (c1, m1) \<and> pipe_ok sz (c1, m1) \<and>
    (arch c1 = arch c \<and> m1 = m \<and> pipe_wait c1 < pipe_wait c \<or>
     \<not> beyond (c_pc (arch c)) sz \<and> seq_step sz (arch c, m) = Some (arch c1, m1))"
proof -
  obtain lo n where w: "waiting m sz c lo n"
      and front: "if p_drain (c_pipe c) then beyond (c_pc c) sz else n = 0 \<or> lo = 0"
    using pipe_okD(5) [OF ok] by blast
  note ex = core_wf_exec [OF pipe_okD(1) [OF ok]]
  show ?thesis
  proof (cases n)
    case 0
    note w0 = waiting_none [OF w [unfolded 0]]
    have "arch c = (visible c)\<lparr> c_pc := c_pc c \<rparr>" using next_pc_waiting [OF w0] by (simp add: arch_def)
    moreover have "\<not> compressed ((visible c)\<lparr> c_pc := c_pc c \<rparr>)"
      using pipe_okD(2) [OF ok] by (simp add: compressed_def reframe_def)
    ultimately have safe: "peek32 m (unat (c_pc c)) \<noteq> None" if "\<not> beyond (c_pc c) sz"
      using good that by (auto simp: window_kept_def seq_step_def fetch_plain split: option.splits)
    have "\<exists>c1. run_pipeline (c_model c) c m sz = Some (c1, m) \<and> pipe_ok sz (c1, m) \<and> arch c1 = arch c \<and>
        pipe_wait c1 < pipe_wait c"
      by (rule pipe_stall [OF ok run w0]) (use front ex safe in auto)
    then show ?thesis by blast
  next
    case (Suc k)
    have "holds m sz (c_pc c - 4) (p_insn (c_pipe c) ! lo)"
      using w Suc by (auto simp: waiting_def Let_def dest: spec [of _ "0::nat"])
    from holds_next [OF this pipe_okD(3) [OF ok]]
    have safe: "peek32 m (unat (c_pc c)) \<noteq> None" if "\<not> beyond (c_pc c) sz" using that by simp
    show ?thesis
    proof (cases "lo + n < p_exec (c_pipe c)")
      case True
      from pipe_stall [OF ok run w front True safe] show ?thesis by blast
    next
      case False
      then have full: "lo + Suc k = p_exec (c_pipe c)" using w Suc by (simp add: waiting_def Let_def)
      have "if p_drain (c_pipe c) then beyond (c_pc c) sz else lo = 0" using front Suc by (simp split: if_splits)
      from pipe_exec_step [OF ok run w [unfolded Suc] this full good] show ?thesis by blast
    qed
  qed
qed

lemma pipe_wait_bound:
  assumes "core_wf c"
  shows "pipe_wait c \<le> 20"
proof -
  have "pipe_exec_stage md + pipe_depth md \<le> 16" for md by (cases md) simp_all
  then have "p_exec (c_pipe c) + p_depth (c_pipe c) \<le> 16" using assms by (simp add: core_wf_def)
  then have "p_depth (c_pipe c) - k \<le> 20" "p_exec (c_pipe c) - k \<le> 20"
    "p_exec (c_pipe c) + p_depth (c_pipe c) + 2 \<le> 20" for k by simp_all
  then show ?thesis by (simp add: pipe_wait_def split: option.split)
qed

interpretation core_sim: stuttering "core_cycle sz" "seq_step sz" arch_mem "pipe_ok sz" "\<lambda>(c, m). c_running c"
  "\<lambda>(c, m). pipe_wait c" 20 "window_kept sz" "seq_halted sz"
  for sz
proof unfold_locales
  fix s :: "brad_core_state \<times> host"
  obtain c m where s: "s = (c, m)" by (cases s)
  show "\<exists>s'. core_cycle sz s = Some s' \<and> pipe_ok sz s' \<and>
      (arch_mem s' = arch_mem s \<and> (\<lambda>(c, m). pipe_wait c) s' < (\<lambda>(c, m). pipe_wait c) s \<or>
       \<not> seq_halted sz (arch_mem s) \<and> seq_step sz (arch_mem s) = Some (arch_mem s'))"
    if "pipe_ok sz s" "(\<lambda>(c, m). c_running c) s" "window_kept sz (arch_mem s)"
    using that pipe_cycle [of sz c m] by (auto simp: s core_cycle_def arch_mem_def seq_halted_def)
  show "seq_halted sz (arch_mem s) \<and> core_cycle sz s = Some s" if ok: "pipe_ok sz s" and st: "\<not> (\<lambda>(c, m). c_running c) s"
  proof -
    have ok: "pipe_ok sz (c, m)" "\<not> c_running c" using ok st by (simp_all add: s)
    obtain lo n where w: "waiting m sz c lo n" "if p_drain (c_pipe c) then beyond (c_pc c) sz else n = 0 \<or> lo = 0"
      using pipe_okD(5) [OF ok(1)] by blast
    have dr: "drained c" using pipe_okD(4) [OF ok(1)] ok(2) by simp
    note ex = core_wf_exec [OF pipe_okD(1) [OF ok(1)]]
    have "n = 0"
    proof (rule ccontr)
      assume "n \<noteq> 0"
      then have "p_valid (c_pipe c) ! lo" "lo < p_depth (c_pipe c)" using w(1) ex by (auto simp: waiting_def Let_def)
      moreover have "length (p_valid (c_pipe c)) = 16"
        using pipe_okD(1) [OF ok(1)] by (simp add: core_wf_def BRAD_PIPELINE_DEPTH_def)
      ultimately show False using dr ex by (auto simp: drained_def in_set_conv_nth)
    qed
    then show ?thesis
      using w dr next_pc_waiting [OF w(1)] ok(2)
      by (simp add: s seq_halted_def arch_mem_def arch_def core_cycle_def drained_def)
  qed
  show "(\<lambda>(c, m). pipe_wait c) s \<le> 20" if "pipe_ok sz s"
    using that pipe_wait_bound pipe_okD(1) by (auto simp: s)
  show "seq_step sz s = Some s" if "seq_halted sz s"
    using that by (simp add: s seq_step_def seq_halted_def fetch_def)
qed

section \<open>The run loop\<close>

lemma core_at_put [simp]:
  "core_at s cl i = Some c \<Longrightarrow> core_at (put_core cl i c' (s\<lparr> s_memory := m \<rparr>)) cl i = Some c'"
  by (auto simp: core_at_def put_core_def split: if_splits)

lemma put_core_put [simp]:
  "put_core cl i c2 ((put_core cl i c1 (s\<lparr> s_memory := m1 \<rparr>))\<lparr> s_memory := m2 \<rparr>) = put_core cl i c2 (s\<lparr> s_memory := m2 \<rparr>)"
  by (cases "cl < length (s_cores s)") (simp_all add: put_core_def not_less list_update_beyond)

definition in_soc :: "brad_soc_emu \<Rightarrow> nat \<Rightarrow> nat \<Rightarrow> bool" where
  "in_soc s cl i \<longleftrightarrow> cl < unat (s_num_clusters s) \<and> i < unat (cores_per_cluster s)"

lemma in_soc_put [simp]: "in_soc (put_core cl' i' c (s\<lparr> s_memory := m \<rparr>)) cl i = in_soc s cl i"
  by (simp add: in_soc_def put_core_def cores_per_cluster_def)

lemma put_core_frame [simp]:
  "s_memory (put_core cl i c s) = s_memory s" "s_mem_size (put_core cl i c s) = s_mem_size s"
  by (simp_all add: put_core_def)

lemma core_step_running:
  assumes "in_soc s cl i" "core_at s cl i = Some c" "c_running c"
  shows "core_step s cl i = (case core_cycle (s_mem_size s) (c, s_memory s) of None \<Rightarrow> None
    | Some (c', m) \<Rightarrow> Some (None, put_core cl i c' (s\<lparr> s_memory := m \<rparr>)))"
  using assms by (simp add: core_step_def in_soc_def core_cycle_def)

text \<open>A cycle is counted, or it is a taken branch, after which the pipeline is empty.\<close>

definition exec_next :: "brad_core_state \<Rightarrow> nat" where
  "exec_next c = (if at_exec (advance_pipeline c) = None then 0 else 1)"

lemma rest_of_cycle_counts: "rest_of_cycle sz (c, m) = Some (c1, m1) \<Longrightarrow> c_cycles c1 = c_cycles c + 1"
  by (auto simp: rest_of_cycle_def fetch_stage_def fetch_def split: if_splits option.splits sum.splits)

lemma cycle_counts:
  assumes "core_wf c" "run_pipeline md c m sz = Some (c1, m1)"
  shows "c_cycles c1 = c_cycles c + 1 \<or> c_cycles c1 = c_cycles c \<and> exec_next c1 < exec_next c"
proof (cases "at_exec (advance_pipeline c)")
  case None
  then show ?thesis using assms(2) rest_of_cycle_counts by (fastforce simp: run_pipeline_eq)
next
  case (Some dp)
  then obtain d p where dp: "at_exec (advance_pipeline c) = Some (d, p)" by (cases dp) auto
  then obtain c2 m2 r t where ex: "execute (advance_pipeline c) d m sz p = Some (c2, m2, r, t)"
      and res: "(if t then Some (taken_branch (retire md c2), m2) else rest_of_cycle sz (retire md c2, m2)) = Some (c1, m1)"
    using assms(2) by (auto simp: run_pipeline_eq split: option.splits)
  have cyc: "c_cycles (retire md c2) = c_cycles c"
    using execute_frame(1) [OF ex] by (simp add: same_frame_def retire_def)
  show ?thesis
  proof (cases t)
    case True
    let ?f = "taken_branch (retire md c2)"
    have wf2: "core_wf (retire md c2)"
      by (intro core_wf_steps(5) core_wf_frame [OF core_wf_steps(1) [OF assms(1)] execute_frame(1) [OF ex]])
    note wff = core_wf_steps(6) [OF wf2]
    have "waiting m2 sz ?f 0 0" by (rule waiting_flush(1) [OF wf2])
    then have "at_exec (advance_pipeline ?f) = None"
      by (rule waiting_advance(2) [OF wff]) (use core_wf_exec [OF wff] in simp)
    then show ?thesis using res True cyc dp by (auto simp: exec_next_def)
  next
    case False
    then show ?thesis using res cyc rest_of_cycle_counts by fastforce
  qed
qed

text \<open>
  The loop stops after a number of cycles: at undefined behaviour, when the core stops, or when the counter has advanced
  by \<open>max_cycles\<close>.
\<close>

lemma core_run_loop_cycles:
  assumes "in_soc s cl i" "core_at s cl i = Some c" "core_wf c"
    and "c_cycles c - start < max_cycles \<or> c_cycles c = start"
  shows "\<exists>k. case iterate k (core_cycle (s_mem_size s)) (c, s_memory s) of
      None \<Rightarrow> core_run_loop cl i start max_cycles s = Some None
    | Some (c', m) \<Rightarrow> core_run_loop cl i start max_cycles s = Some (Some (put_core cl i c' (s\<lparr> s_memory := m \<rparr>))) \<and>
        core_wf c' \<and> (c_running c' \<longrightarrow> max_cycles \<le> c_cycles c' - start)"
  using assms
proof (induction "2 * unat (max_cycles - (c_cycles c - start)) + exec_next c" arbitrary: s c rule: less_induct)
  case less
  let ?m = "s_memory s" and ?sz = "s_mem_size s"
  note unfold = core_run_loop.simps [of cl i start max_cycles s]
  show ?case
  proof (cases "c_running c")
    case False
    have "put_core cl i c (s\<lparr> s_memory := ?m \<rparr>) = s"
      using less.prems(2) by (auto simp: put_core_def core_at_def split: if_splits)
    then show ?thesis
      using False less.prems unfold by (intro exI [of _ "0::nat"]) simp
  next
    case True
    note step = core_step_running [OF less.prems(1,2) True]
    show ?thesis
    proof (cases "core_cycle ?sz (c, ?m)")
      case None
      then show ?thesis using unfold less.prems(2) True step by (intro exI [of _ "1::nat"]) simp
    next
      case (Some cm)
      then obtain c1 m1 where c1: "core_cycle ?sz (c, ?m) = Some (c1, m1)" by (cases cm) auto
      then have run: "run_pipeline (c_model c) c ?m ?sz = Some (c1, m1)" using True by (simp add: core_cycle_def)
      note wf1 = run_pipeline_wf [OF less.prems(3) run, THEN conjunct1]
        and cnt = cycle_counts [OF less.prems(3) run]
      let ?s1 = "put_core cl i c1 (s\<lparr> s_memory := m1 \<rparr>)"
      have loop: "core_run_loop cl i start max_cycles s =
          (if max_cycles \<le> c_cycles c1 - start then Some (Some ?s1) else core_run_loop cl i start max_cycles ?s1)"
        using unfold less.prems(2) True step c1 by simp
      show ?thesis
      proof (cases "max_cycles \<le> c_cycles c1 - start")
        case True
        then show ?thesis using loop c1 wf1 by (intro exI [of _ "1::nat"]) simp
      next
        case False
        have "2 * unat (max_cycles - (c_cycles c1 - start)) + exec_next c1
            < 2 * unat (max_cycles - (c_cycles c - start)) + exec_next c"
        proof (cases "c_cycles c1 = c_cycles c")
          case True
          have "exec_next c1 < exec_next c" using cnt True by auto
          then show ?thesis using True by simp
        next
          case nc: False
          then have c1c: "c_cycles c1 = c_cycles c + 1" using cnt by simp
          have lt: "c_cycles c - start < max_cycles"
            using less.prems(4) False by (auto simp: not_le word_neq_0_conv dest: order_le_less_trans [OF word_zero_le])
          define d where "d = c_cycles c - start"
          have "max_cycles - (c_cycles c1 - start) = max_cycles - d - 1" by (simp add: c1c d_def)
          moreover have "max_cycles - d \<noteq> 0" using lt by (auto simp: d_def)
          ultimately have "unat (max_cycles - (c_cycles c1 - start)) < unat (max_cycles - (c_cycles c - start))"
            unfolding d_def [symmetric] using measure_unat by metis
          moreover have "exec_next c1 \<le> 1" by (simp add: exec_next_def)
          ultimately show ?thesis by linarith
        qed
        note meas = this
        have pre: "c_cycles c1 - start < max_cycles \<or> c_cycles c1 = start" using False by (simp add: not_le)
        from less.hyps [OF meas _ _ wf1 pre, of ?s1] less.prems(1,2) obtain k where
          "case iterate k (core_cycle ?sz) (c1, m1) of
              None \<Rightarrow> core_run_loop cl i start max_cycles ?s1 = Some None
            | Some (c', m) \<Rightarrow> core_run_loop cl i start max_cycles ?s1 = Some (Some (put_core cl i c' (?s1\<lparr> s_memory := m \<rparr>))) \<and>
                core_wf c' \<and> (c_running c' \<longrightarrow> max_cycles \<le> c_cycles c' - start)"
          by auto
        then show ?thesis using loop False c1 by (intro exI [of _ "Suc k"]) (auto split: option.splits)
      qed
    qed
  qed
qed

lemma core_cycle_wf:
  assumes "core_wf c" "core_cycle sz (c, m) = Some (c1, m1)"
  shows "core_wf c1"
  using assms run_pipeline_wf [of c "c_model c" m sz c1 m1] by (auto simp: core_cycle_def split: if_splits)

lemma iterate_cycles:
  "core_wf c \<Longrightarrow> iterate k (core_cycle sz) (c, m) = Some (c', m') \<Longrightarrow> \<exists>d \<le> k. c_cycles c' = c_cycles c + of_nat d"
proof (induction k arbitrary: c m)
  case 0
  then show ?case by simp
next
  case (Suc k)
  then obtain c1 m1 where c1: "core_cycle sz (c, m) = Some (c1, m1)" "iterate k (core_cycle sz) (c1, m1) = Some (c', m')"
    by (auto split: option.splits)
  have wf1: "core_wf c1" by (rule core_cycle_wf [OF Suc.prems(1) c1(1)])
  have one: "c_cycles c1 = c_cycles c \<or> c_cycles c1 = c_cycles c + 1"
    using c1(1) cycle_counts [OF Suc.prems(1), of "c_model c" m sz c1 m1] by (auto simp: core_cycle_def split: if_splits)
  obtain d where d: "d \<le> k" "c_cycles c' = c_cycles c1 + of_nat d" using Suc.IH [OF wf1 c1(2)] by blast
  show ?case
  proof (cases "c_cycles c1 = c_cycles c")
    case True
    then show ?thesis using d by (intro exI [of _ d]) simp
  next
    case False
    then show ?thesis using d one by (intro exI [of _ "Suc d"]) simp
  qed
qed

lemma iterate_stopped:
  assumes "iterate k (core_cycle sz) x = Some (c, m)" "\<not> c_running c" "k \<le> j"
  shows "iterate j (core_cycle sz) x = Some (c, m)"
proof -
  have "core_cycle sz (c, m) = Some (c, m)" using assms(2) by (simp add: core_cycle_def)
  from iterate_fixed [of "core_cycle sz", OF this] show ?thesis
    using iterate_add [of k "j - k" "core_cycle sz" x] assms by simp
qed

text \<open>A run with a budget that is large enough ends where the core stops.\<close>

lemma run_to_stop:
  assumes soc: "in_soc s cl i" "core_at s cl i = Some c" "core_wf c"
    and stop: "iterate k (core_cycle (s_mem_size s)) (c, s_memory s) = Some (c1, m1)" "\<not> c_running c1"
    and budget: "k < unat max_cycles"
  shows "brad_core_emu_run (Some s) cl i max_cycles = Some (Some (None, Some (put_core cl i c1 (s\<lparr> s_memory := m1 \<rparr>))))"
proof -
  let ?it = "\<lambda>j. iterate j (core_cycle (s_mem_size s)) (c, s_memory s)"
  obtain j where j: "case ?it j of
      None \<Rightarrow> core_run_loop cl i (c_cycles c) max_cycles s = Some None
    | Some (c', m) \<Rightarrow> core_run_loop cl i (c_cycles c) max_cycles s = Some (Some (put_core cl i c' (s\<lparr> s_memory := m \<rparr>))) \<and>
        core_wf c' \<and> (c_running c' \<longrightarrow> max_cycles \<le> c_cycles c' - c_cycles c)"
    using core_run_loop_cycles [OF soc, of "c_cycles c" max_cycles] by auto
  have "?it j = Some (c1, m1)"
  proof (cases "k \<le> j")
    case True
    then show ?thesis using iterate_stopped [OF stop] by simp
  next
    case False
    then obtain c' m' where it: "?it j = Some (c', m')" using iterate_prefix [OF stop(1), of j] by auto
    obtain d where d: "d \<le> j" "c_cycles c' = c_cycles c + of_nat d" using iterate_cycles [OF soc(3) it] by blast
    have "unat (of_nat d :: u64) \<le> d" by (simp add: unat_of_nat)
    then have "\<not> max_cycles \<le> c_cycles c' - c_cycles c" using d False budget by (simp add: word_le_nat_alt)
    then have "\<not> c_running c'" using j it by simp
    from iterate_stopped [OF it this] stop(1) False show ?thesis using it by simp
  qed
  then have "core_run_loop cl i (c_cycles c) max_cycles s = Some (Some (put_core cl i c1 (s\<lparr> s_memory := m1 \<rparr>)))"
    using j by simp
  then show ?thesis using soc(2) by (simp add: brad_core_emu_run_def)
qed

section \<open>Reset\<close>

lemma init_fields:
  assumes "brad_core_emu_init (Some c0) md pc sp = Inr c"
  shows "core_wf c" "c_model c = md" "c_running c" "next_pc c = pc" "c_pc c = pc"
proof -
  have md: "pipe_exec_stage md \<le> 6" "pipe_depth md \<le> 10" by (cases md; simp)+
  have none: "oldest (replicate 16 False) e = None" if "e \<le> 16" for e
    using that by (intro oldest_none) simp
  show "core_wf c" "c_model c = md" "c_running c" "next_pc c = pc" "c_pc c = pc"
    using assms md none [of "pipe_exec_stage md"]
    by (auto simp: brad_core_emu_init_def core_wf_def zero_core_def zero_pipeline_def next_pc_def BRAD_PIPELINE_DEPTH_def)
qed

lemma init_pipe_ok:
  assumes "brad_core_emu_init (Some c0) md pc sp = Inr c" "mem_ok m sz"
  shows "pipe_ok sz (c, m)"
proof -
  have le: "pipe_exec_stage md \<le> 16" by (cases md) simp_all
  have pipe: "c_pipe c = zero_pipeline\<lparr> p_depth := pipe_depth md, p_exec := pipe_exec_stage md \<rparr>"
    and st: "c_status c = 0" "\<not> c_compress c"
    using assms(1) by (auto simp: brad_core_emu_init_def zero_core_def)
  have w: "waiting m sz c 0 0" using le by (simp add: waiting_def pipe zero_pipeline_def BRAD_PIPELINE_DEPTH_def)
  have "\<not> drained c" "\<not> p_drain (c_pipe c)" by (simp_all add: drained_def pipe zero_pipeline_def)
  moreover have "\<not> compressed c" using st by (simp add: compressed_def)
  ultimately show ?thesis using init_fields [OF assms(1)] assms(2) w by (auto simp: pipe_ok_def)
qed

text \<open>C3: A program run on a pipelined core computes what the machine without a pipeline computes. When the sequential
  machine, from the reset state, leaves the memory after \<open>n\<close> instructions without undefined behaviour and without
  overwriting an instruction that a pipeline may already have fetched, \<open>brad_core_emu_run\<close> with a budget of more than
  20 + 21 n cycles returns with the core stopped; the memory and everything the program can see of the core (registers,
  program counter, counts of instructions and branches) are those of the sequential machine, for all four pipeline models.
\<close>

theorem core_run_sequential:
  fixes s :: brad_soc_emu
  assumes "brad_core_emu_init (Some c0) md pc sp = Inr c" "in_soc s cl i" "core_at s cl i = Some c"
    and "mem_ok (s_memory s) (s_mem_size s)"
    and "\<forall>j \<le> n. case iterate j (seq_step (s_mem_size s)) (arch c, s_memory s) of None \<Rightarrow> False
      | Some x \<Rightarrow> window_kept (s_mem_size s) x"
    and "iterate n (seq_step (s_mem_size s)) (arch c, s_memory s) = Some (a, m)" "beyond (c_pc a) (s_mem_size s)"
    and "20 + 21 * n < unat max_cycles"
  shows "\<exists>s' c'. brad_core_emu_run (Some s) cl i max_cycles = Some (Some (None, Some s')) \<and>
    core_at s' cl i = Some c' \<and> \<not> c_running c' \<and> arch c' = a \<and> s_memory s' = m"
proof -
  let ?sz = "s_mem_size s" and ?x = "(c, s_memory s)"
  note ok = init_pipe_ok [OF assms(1,4)]
  have good: "core_sim.good_run ?sz n (arch_mem ?x)"
    using assms(5) by (simp add: core_sim.good_run_def arch_mem_def)
  have it: "iterate n (seq_step ?sz) (arch_mem ?x) = Some (a, m)" using assms(6) by (simp add: arch_mem_def)
  have halt: "seq_halted ?sz (a, m)" using assms(7) by (simp add: seq_halted_def)
  obtain k x' where k: "k \<le> pipe_wait c + n * (20 + 1)" "iterate k (core_cycle ?sz) ?x = Some x'"
      "pipe_ok ?sz x'" "\<not> (\<lambda>(c, m). c_running c) x'" "arch_mem x' = (a, m)"
    using core_sim.run_halts [OF ok good it halt] by auto
  obtain c1 m1 where x': "x' = (c1, m1)" by (cases x')
  have "k < unat max_cycles" using k(1) pipe_wait_bound [OF init_fields(1) [OF assms(1)]] assms(8) by simp
  from run_to_stop [OF assms(2,3) init_fields(1) [OF assms(1)] k(2) [unfolded x'] _ this] k x'
  have "brad_core_emu_run (Some s) cl i max_cycles = Some (Some (None, Some (put_core cl i c1 (s\<lparr> s_memory := m1 \<rparr>))))"
    by simp
  then show ?thesis using k x' assms(3) by (auto simp: arch_mem_def)
qed

text \<open>Two instructions, \<open>ADDI r1, r0, 5\<close> and \<open>ADD r2, r1, r1\<close>, in a memory of eight bytes.\<close>

definition demo_mem :: host where
  "demo_mem = map_of (zip [0..<8] (le_bytes32 (BRAD_RI 8 1 0 5) @ le_bytes32 (BRAD_RRR 0 2 1 1)))"

definition demo_core :: brad_core_state where
  "demo_core = (case brad_core_emu_init (Some zero_core) PIPE_PHOENIX 0 0 of Inl e \<Rightarrow> zero_core | Inr c \<Rightarrow> c)"

definition demo_soc :: brad_soc_emu where
  "demo_soc = put_core 0 0 demo_core (zero_soc\<lparr> s_num_clusters := 1, s_phoenix := 1, s_memory := demo_mem,
     s_mem_size := 8 \<rparr>)"

lemma demo_seq:
  "\<forall>j \<in> {0, 1, 2}. case iterate j (seq_step 8) (arch demo_core, demo_mem) of None \<Rightarrow> False
      | Some x \<Rightarrow> window_kept 8 x"
  "case iterate 2 (seq_step 8) (arch demo_core, demo_mem) of None \<Rightarrow> False | Some (a, m) \<Rightarrow> beyond (c_pc a) 8 \<and> c_regs a ! 2 = 10"
  by code_simp+
lemma demo_setup:
  "brad_core_emu_init (Some zero_core) PIPE_PHOENIX 0 0 = Inr demo_core" "core_at demo_soc 0 0 = Some demo_core"
  "in_soc demo_soc 0 0" "s_memory demo_soc = demo_mem" "s_mem_size demo_soc = 8" "mem_ok demo_mem 8"
proof -
  have "dom demo_mem = {0..<8}" by (simp add: demo_mem_def dom_map_of_zip)
  then have "demo_mem a \<noteq> None \<longleftrightarrow> a < 8" for a by (auto simp: dom_def)
  then show "mem_ok demo_mem 8" by (simp add: mem_ok_def)
  show "in_soc demo_soc 0 0" by (simp add: in_soc_def demo_soc_def put_core_def zero_soc_def cores_per_cluster_def)
qed (simp_all add: demo_core_def brad_core_emu_init_def demo_soc_def core_at_def put_core_def zero_soc_def
    BRAD_CORE_MAX_CLUSTERS_def BRAD_CORES_PER_CLUSTER_def)

lemma core_run_sequential_witness:
  "\<exists>s' c'. brad_core_emu_run (Some demo_soc) 0 0 100 = Some (Some (None, Some s')) \<and>
     core_at s' 0 0 = Some c' \<and> \<not> c_running c' \<and> c_regs c' ! 2 = 10"
proof -
  obtain a m where am: "iterate 2 (seq_step 8) (arch demo_core, demo_mem) = Some (a, m)" "beyond (c_pc a) 8" "c_regs a ! 2 = 10"
    using demo_seq(2) by (auto split: option.splits)
  have prog: "\<forall>j \<le> 2. case iterate j (seq_step (s_mem_size demo_soc)) (arch demo_core, s_memory demo_soc) of None \<Rightarrow> False
      | Some x \<Rightarrow> window_kept (s_mem_size demo_soc) x"
  proof -
    have "j \<in> {0, 1, 2}" if "j \<le> 2" for j :: nat using that by auto
    then show ?thesis using demo_seq(1) unfolding demo_setup by blast
  qed
  obtain s' c' where r: "brad_core_emu_run (Some demo_soc) 0 0 100 = Some (Some (None, Some s'))"
      "core_at s' 0 0 = Some c'" "\<not> c_running c'" "arch c' = a"
    using core_run_sequential [OF demo_setup(1,3,2) _ prog, of a m 100] am by (auto simp: demo_setup)
  then have "c_regs c' ! 2 = 10" using am(3) by (auto simp: arch_def reframe_def)
  then show ?thesis using r by blast
qed

lemma refused_step: "\<not> in_soc s cl i \<Longrightarrow> core_step s cl i = Some (Some EINVAL, s)"
  by (auto simp: core_step_def in_soc_def)

lemma refused_loop:
  "core_run_loop cl i start max_cycles s = Some r \<Longrightarrow> core_at s cl i = Some c \<Longrightarrow> c_running c \<Longrightarrow> \<not> in_soc s cl i \<Longrightarrow>
     c_cycles c - start < max_cycles \<Longrightarrow> False"
proof (induction arbitrary: c rule: core_run_loop.raw_induct [rotated, consumes 1])
  case (1 loop cl i start max_cycles s r)
  then have "loop cl i start max_cycles s = Some r" by (simp add: refused_step not_le [symmetric])
  then show False using 1 by blast
qed

text \<open>\<open>brad_core_emu_run\<close> on a core outside of the configured clusters and cores, which only \<open>brad_core_emu_init\<close> has
  set running, never returns: the step is refused with \<open>-EINVAL\<close>, the result is ignored and the cycle counter stands
  still.
\<close>

theorem core_run_diverges:
  assumes "core_at s cl i = Some c" "c_running c" "\<not> in_soc s cl i" "0 < max_cycles"
  shows "brad_core_emu_run (Some s) cl i max_cycles = None"
proof -
  have "core_run_loop cl i (c_cycles c) max_cycles s = None"
    using refused_loop [of cl i "c_cycles c" max_cycles s _ c] assms by (cases "core_run_loop cl i (c_cycles c) max_cycles s") auto
  then show ?thesis using assms(1) by (simp add: brad_core_emu_run_def)
qed

lemma core_run_diverges_witness:
  "brad_core_emu_run (Some (put_core 0 1 demo_core demo_soc)) 0 1 100 = None"
  by (rule core_run_diverges [of _ _ _ demo_core])
    (simp_all add: demo_soc_def core_at_def put_core_def zero_soc_def in_soc_def cores_per_cluster_def demo_core_def
      brad_core_emu_init_def BRAD_CORE_MAX_CLUSTERS_def BRAD_CORES_PER_CLUSTER_def)

end
