(* ===== verification/CoreMachine.thy ===== *)
theory CoreMachine
  imports CoreRun Machine
begin

text \<open>
  The core emulator as a component reached through its operations: what every sequence of them keeps, and that
  runs return.
\<close>

section \<open>Operations\<close>

datatype soc_op = SInit bool u32 u32 u32 u32 u32 | SReset nat nat brad_isa_pipeline_model u32 u32
  | SLoad "u32 list" u64 u32 | SStep nat nat | SRun nat nat u64 | SRunAll u64
  | SWriteReg nat nat nat u32 | SWriteMsr nat nat u32 u32 | SFree

definition on_core :: "nat \<Rightarrow> nat \<Rightarrow> (brad_core_state option \<Rightarrow> brad_core_state option) \<Rightarrow> brad_soc_emu \<Rightarrow> brad_soc_emu option" where
  "on_core cl i f s = (case core_at s cl i of None \<Rightarrow> None
     | Some c \<Rightarrow> map_option (\<lambda>c'. put_core cl i c' s) (f (Some c)))"

text \<open>The state after the call; \<open>None\<close> when it is undefined or does not return.\<close>

definition ret_soc :: "(errno option \<times> brad_soc_emu option) option \<Rightarrow> brad_soc_emu option" where
  "ret_soc r = (case r of Some (_, Some s) \<Rightarrow> Some s | _ \<Rightarrow> None)"

definition soc_next :: "soc_op \<Rightarrow> brad_soc_emu \<Rightarrow> brad_soc_emu option" where
  "soc_next opn s = (case opn of
     SInit alloc nc ph fa ke fl \<Rightarrow> ret_soc (brad_soc_emu_init_ex alloc (Some s) nc ph fa ke fl)
   | SReset cl i md pc sp \<Rightarrow> on_core cl i (\<lambda>c. case brad_core_emu_init c md pc sp of Inl _ \<Rightarrow> None | Inr c' \<Rightarrow> Some c') s
   | SLoad ws n a \<Rightarrow> ret_soc (brad_core_emu_load (Some s) (Some ws) n a)
   | SStep cl i \<Rightarrow> ret_soc (brad_core_emu_step (Some s) cl i)
   | SRun cl i n \<Rightarrow> Option.bind (brad_core_emu_run (Some s) cl i n) ret_soc
   | SRunAll n \<Rightarrow> ret_soc (brad_core_emu_run_all (Some s) n)
   | SWriteReg cl i r v \<Rightarrow> on_core cl i (\<lambda>c. brad_core_write_reg c r v) s
   | SWriteMsr cl i r v \<Rightarrow> on_core cl i (\<lambda>c. brad_core_write_msr c r v) s
   | SFree \<Rightarrow> brad_soc_emu_free (Some s))"

definition soc_exec :: "soc_op \<Rightarrow> brad_soc_emu \<Rightarrow> brad_soc_emu" where
  "soc_exec opn s = (case soc_next opn s of None \<Rightarrow> s | Some s' \<Rightarrow> s')"

definition soc_safe :: "soc_op \<Rightarrow> brad_soc_emu \<Rightarrow> bool" where
  "soc_safe opn s \<longleftrightarrow> soc_next opn s \<noteq> None"

section \<open>The invariant\<close>

definition core_typed :: "brad_core_state \<Rightarrow> bool" where
  "core_typed c \<longleftrightarrow> length (c_regs c) = 16 \<and> length (p_insn (c_pipe c)) = 16 \<and> length (p_pc (c_pipe c)) = 16 \<and>
     length (p_valid (c_pipe c)) = 16 \<and> (c_running c \<longrightarrow> core_wf c)"

definition soc_typed :: "brad_soc_emu \<Rightarrow> bool" where
  "soc_typed s \<longleftrightarrow> length (s_cores s) = 4 \<and> (\<forall>cs \<in> set (s_cores s). length cs = 16 \<and> (\<forall>c \<in> set cs. core_typed c)) \<and>
     unat (s_num_clusters s) \<le> 4 \<and> unat (cores_per_cluster s) \<le> 16 \<and> mem_ok (s_memory s) (s_mem_size s)"

lemma wf_typed: "core_wf c \<Longrightarrow> core_typed c"
  by (simp add: core_typed_def core_wf_def BRAD_NUM_REGS_def BRAD_PIPELINE_DEPTH_def)

lemma typed_core:
  assumes "soc_typed s" "core_at s cl i = Some c"
  shows "core_typed c"
proof -
  have "s_cores s ! cl \<in> set (s_cores s)" "c \<in> set (s_cores s ! cl)"
    using assms(2) by (auto simp: core_at_def split: if_splits)
  then show ?thesis using assms(1) by (auto simp: soc_typed_def)
qed

lemma typed_at: "soc_typed s \<Longrightarrow> in_soc s cl i \<Longrightarrow> \<exists>c. core_at s cl i = Some c"
  by (auto simp: soc_typed_def core_at_def in_soc_def)

lemma typed_put:
  assumes "soc_typed s" "core_typed c" "mem_ok m (s_mem_size s)"
  shows "soc_typed (put_core cl i c (s\<lparr> s_memory := m \<rparr>))"
proof (cases "cl < length (s_cores s)")
  case True
  then have "length (s_cores s ! cl) = 16" "\<forall>c \<in> set (s_cores s ! cl). core_typed c"
    using assms(1) by (auto simp: soc_typed_def)
  then show ?thesis using assms
    by (auto simp: soc_typed_def put_core_def cores_per_cluster_def dest!: set_update_subset_insert [THEN subsetD])
next
  case False
  then show ?thesis using assms by (simp add: soc_typed_def put_core_def cores_per_cluster_def list_update_beyond)
qed

lemma typed_put0: "soc_typed s \<Longrightarrow> core_typed c \<Longrightarrow> soc_typed (put_core cl i c s)"
  using typed_put [of s c "s_memory s" cl i] by (simp add: soc_typed_def)

lemma rest_of_cycle_mem: "rest_of_cycle sz (c, m) = Some (c1, m1) \<Longrightarrow> m1 = m"
  by (auto simp: rest_of_cycle_def)

lemma run_pipeline_mem:
  assumes "run_pipeline md c m sz = Some (c1, m1)" "mem_ok m sz"
  shows "mem_ok m1 sz"
proof (cases "at_exec (advance_pipeline c)")
  case None
  then show ?thesis using assms rest_of_cycle_mem by (fastforce simp: run_pipeline_eq)
next
  case (Some dp)
  then obtain d p where dp: "at_exec (advance_pipeline c) = Some (d, p)" by (cases dp) auto
  then obtain c2 m2 r t where ex: "execute (advance_pipeline c) d m sz p = Some (c2, m2, r, t)"
      and res: "(if t then Some (taken_branch (retire md c2), m2) else rest_of_cycle sz (retire md c2, m2)) = Some (c1, m1)"
    using assms(1) by (auto simp: run_pipeline_eq split: option.splits)
  have "m1 = m2" using res rest_of_cycle_mem by (fastforce split: if_splits)
  then show ?thesis using execute_mem_ok [OF ex assms(2)] by simp
qed

lemma core_step_cases:
  assumes "core_step s cl i = Some (r, s')"
  obtains "s' = s" | c c1 m1 where "core_at s cl i = Some c" "c_running c"
    "run_pipeline (c_model c) c (s_memory s) (s_mem_size s) = Some (c1, m1)" "s' = put_core cl i c1 (s\<lparr> s_memory := m1 \<rparr>)"
proof (cases "in_soc s cl i")
  case False
  then show ?thesis using assms that(1) refused_step by simp
next
  case True
  then obtain c where c: "core_at s cl i = Some c" using assms by (auto simp: core_step_def in_soc_def split: option.splits)
  show ?thesis
  proof (cases "c_running c")
    case False
    then show ?thesis using assms that(1) c True by (simp add: core_step_def in_soc_def)
  next
    case run: True
    then show ?thesis
      using assms that(2) [OF c run] c core_step_running [OF True c run]
      by (auto simp: core_cycle_def split: option.splits)
  qed
qed

lemma core_step_typed:
  assumes "soc_typed s" "core_step s cl i = Some (r, s')"
  shows "soc_typed s'"
  using assms(2)
proof (cases rule: core_step_cases)
  case (2 c c1 m1)
  have "core_wf c" using typed_core [OF assms(1) 2(1)] 2(2) by (simp add: core_typed_def)
  then have "core_typed c1" using run_pipeline_wf [OF _ 2(3)] wf_typed by blast
  moreover have "mem_ok m1 (s_mem_size s)" using run_pipeline_mem [OF 2(3)] assms(1) by (simp add: soc_typed_def)
  ultimately show ?thesis unfolding 2(4) by (intro typed_put assms(1))
qed (use assms(1) in simp)

lemma core_run_loop_inv:
  "core_run_loop cl i start max_cycles s = Some r \<Longrightarrow> soc_typed s \<Longrightarrow> r = Some s' \<Longrightarrow> soc_typed s'"
proof (induction rule: core_run_loop.raw_induct [rotated, consumes 1])
  case (1 loop cl i start max_cycles s r)
  then show ?case by (auto split: option.splits if_splits dest: core_step_typed)
qed

lemma step_if_running_typed:
  "step_if_running ci (any, s) = Some (any', s') \<Longrightarrow> soc_typed s \<Longrightarrow> soc_typed s'"
  by (auto simp: step_if_running_def split: prod.splits option.splits if_splits dest: core_step_typed)

lemma round_typed:
  "run_each step_if_running cis (any, s) = Some (any', s') \<Longrightarrow> soc_typed s \<Longrightarrow> soc_typed s'"
proof (induction cis arbitrary: any s)
  case (Cons ci cis)
  then show ?case using step_if_running_typed by (fastforce split: option.splits)
qed simp

lemma run_all_typed: "run_all_loop start max_cycles any s = Some s' \<Longrightarrow> soc_typed s \<Longrightarrow> soc_typed s'"
proof (induction start max_cycles any s rule: run_all_loop.induct)
  case (1 start max_cycles any s)
  show ?case
  proof (cases "any \<and> s_total_cycles s - start < max_cycles")
    case True
    then obtain any1 s1 where r: "run_all_round s = Some (any1, s1)"
        "run_all_loop start max_cycles any1 (s1\<lparr> s_total_cycles := s_total_cycles s1 + 1 \<rparr>) = Some s'"
      using 1(2) by (subst (asm) run_all_loop.simps) (auto split: option.splits)
    have "soc_typed s1" using r(1) round_typed 1(3) by (auto simp: run_all_round_def)
    then have "soc_typed (s1\<lparr> s_total_cycles := s_total_cycles s1 + 1 \<rparr>)" by (simp add: soc_typed_def cores_per_cluster_def)
    then show ?thesis using 1(1) [OF True r(1) refl] r(2) by simp
  next
    case False
    then show ?thesis using 1(2,3) by (subst (asm) run_all_loop.simps) auto
  qed
qed

lemma init_core_typed: "brad_core_emu_init c0 md pc sp = Inr c \<Longrightarrow> core_typed c"
  using init_fields(1) wf_typed by (cases c0) (auto simp: brad_core_emu_init_def)

lemma init_core_at_typed: "init_core_at cl md i s = Some s' \<Longrightarrow> soc_typed s \<Longrightarrow> soc_typed s'"
  by (auto simp: init_core_at_def split: sum.splits intro: typed_put0 init_core_typed)

lemma run_each_typed:
  assumes "\<And>x s s'. f x s = Some s' \<Longrightarrow> soc_typed s \<Longrightarrow> soc_typed s'"
  shows "run_each f xs s = Some s' \<Longrightarrow> soc_typed s \<Longrightarrow> soc_typed s'"
  using assms by (induction xs arbitrary: s) (auto split: option.splits)

lemma init_cluster_typed:
  assumes "init_cluster ph fa ke fl cl s = Some s'" "soc_typed s"
  shows "soc_typed s'"
proof -
  have each: "run_each (init_core_at cl md) xs t = Some t' \<Longrightarrow> soc_typed t \<Longrightarrow> soc_typed t'" for md xs t t'
    by (rule run_each_typed) (rule init_core_at_typed)
  obtain s1 s2 s3 where "run_each (init_core_at cl PIPE_PHOENIX) [0..<ph] s = Some s1"
      "run_each (init_core_at cl PIPE_FALCON) [ph..<ph + fa] s1 = Some s2"
      "run_each (init_core_at cl PIPE_KESTREL) [ph + fa..<ph + fa + ke] s2 = Some s3"
      "run_each (init_core_at cl PIPE_FALCON_LITE) [ph + fa + ke..<ph + fa + ke + fl] s3 = Some s'"
    using assms(1) by (auto simp: init_cluster_def split: option.splits)
  from each [OF this(4) each [OF this(3) each [OF this(2) each [OF this(1) assms(2)]]]] show ?thesis .
qed

lemma zero_typed: "core_typed zero_core"
  by (simp add: core_typed_def zero_core_def zero_pipeline_def BRAD_NUM_REGS_def BRAD_PIPELINE_DEPTH_def)

lemma init_ex_typed:
  assumes "brad_soc_emu_init_ex alloc (Some s0) nc ph fa ke fl = Some (r, Some s)" "soc_typed s0"
  shows "soc_typed s"
proof -
  let ?z = "zero_soc\<lparr> s_num_clusters := nc, s_phoenix := ph, s_falcon := fa, s_kestrel := ke, s_falcon_lite := fl \<rparr>"
  have z: "soc_typed (?z\<lparr> s_memory := m, s_mem_size := sz \<rparr>)"
    if "unat nc \<le> 4" "unat (ph + fa + ke + fl) \<le> 16" "mem_ok m sz" for m sz
    using that zero_typed
    by (simp add: soc_typed_def zero_soc_def cores_per_cluster_def BRAD_CORE_MAX_CLUSTERS_def BRAD_CORES_PER_CLUSTER_def)
  have each: "run_each (init_cluster a b x y) xs t = Some t' \<Longrightarrow> soc_typed t \<Longrightarrow> soc_typed t'" for a b x y xs t t'
    by (rule run_each_typed) (rule init_cluster_typed)
  have m0: "mem_ok Map.empty 0" by (simp add: mem_ok_def)
  have m1: "mem_ok (calloc_memory BRAD_MEM_SIZE) BRAD_MEM_SIZE" by (simp add: mem_ok_def calloc_memory_def BRAD_MEM_SIZE_def)
  have "?z\<lparr> s_memory := Map.empty, s_mem_size := 0 \<rparr> = ?z" by (simp add: zero_soc_def)
  then show ?thesis
    using assms z [OF _ _ m0] z [OF _ _ m1] each
    by (auto simp: brad_soc_emu_init_ex_def Let_def BRAD_CORE_MAX_CLUSTERS_def BRAD_CORES_PER_CLUSTER_def not_less
        split: if_splits)
qed

lemma on_core_typed:
  assumes "on_core cl i f s = Some s'" "soc_typed s" "\<And>c c'. core_typed c \<Longrightarrow> f (Some c) = Some c' \<Longrightarrow> core_typed c'"
  shows "soc_typed s'"
  using assms by (auto simp: on_core_def split: option.splits intro!: typed_put0 dest: typed_core)

lemma write_reg_typed: "core_typed c \<Longrightarrow> brad_core_write_reg (Some c) r v = Some c' \<Longrightarrow> core_typed c'"
  unfolding brad_core_write_reg_def by (cases "num_regs (c_model c) \<le> r"; cases "r = 0") (auto simp: core_typed_def core_wf_def)

lemma write_msr_frame:
  "c_regs (write_msr r v c) = c_regs c" "c_pipe (write_msr r v c) = c_pipe c" "c_running (write_msr r v c) = c_running c"
  "c_model (write_msr r v c) = c_model c" "c_perf_cnt (write_msr r v c) = c_perf_cnt c"
  by (cases r; simp add: write_msr_def)+

lemma write_msr_typed: "core_typed c \<Longrightarrow> brad_core_write_msr (Some c) r v = Some c' \<Longrightarrow> core_typed c'"
  by (auto simp: brad_core_write_msr_def core_typed_def core_wf_def write_msr_frame split: option.splits)

lemma load_typed:
  assumes "brad_core_emu_load (Some s) (Some ws) n a = Some (r, Some s')" "soc_typed s"
  shows "soc_typed s'"
proof -
  have "soc_typed (s\<lparr> s_memory := m \<rparr>)" if "poke (s_memory s) b bs = Some m" for b bs m
    using that assms(2) poke_dom by (fastforce simp: soc_typed_def mem_ok_def cores_per_cluster_def)
  then show ?thesis using assms by (auto simp: brad_core_emu_load_def Let_def split: if_splits option.splits)
qed

lemma soc_next_typed:
  assumes "soc_next opn s = Some s'" "soc_typed s"
  shows "soc_typed s'"
proof (cases opn)
  case (SInit alloc nc ph fa ke fl)
  then show ?thesis using assms init_ex_typed by (fastforce simp: soc_next_def ret_soc_def split: option.splits)
next
  case (SReset cl i md pc sp)
  then have "on_core cl i (\<lambda>c. case brad_core_emu_init c md pc sp of Inl _ \<Rightarrow> None | Inr c' \<Rightarrow> Some c') s = Some s'"
    using assms(1) by (simp add: soc_next_def)
  then show ?thesis by (rule on_core_typed) (auto intro: assms(2) init_core_typed split: sum.splits)
next
  case (SLoad ws n a)
  then show ?thesis using assms load_typed by (fastforce simp: soc_next_def ret_soc_def split: option.splits)
next
  case (SStep cl i)
  then show ?thesis using assms core_step_typed
    by (auto simp: soc_next_def ret_soc_def brad_core_emu_step_def split: option.splits)
next
  case (SRun cl i n)
  obtain c where "core_at s cl i = Some c" "core_run_loop cl i (c_cycles c) n s = Some (Some s')"
    using assms(1) by (auto simp: SRun soc_next_def ret_soc_def brad_core_emu_run_def bind_eq_Some_conv
        split: option.splits prod.splits)
  then show ?thesis using core_run_loop_inv assms(2) by blast
next
  case (SRunAll n)
  then show ?thesis using assms run_all_typed
    by (auto simp: soc_next_def ret_soc_def brad_core_emu_run_all_def split: option.splits)
next
  case (SWriteReg cl i r v)
  then have "on_core cl i (\<lambda>c. brad_core_write_reg c r v) s = Some s'" using assms(1) by (simp add: soc_next_def)
  then show ?thesis by (rule on_core_typed) (auto intro: assms(2) write_reg_typed)
next
  case (SWriteMsr cl i r v)
  then have "on_core cl i (\<lambda>c. brad_core_write_msr c r v) s = Some s'" using assms(1) by (simp add: soc_next_def)
  then show ?thesis by (rule on_core_typed) (auto intro: assms(2) write_msr_typed)
next
  case SFree
  then show ?thesis using assms
    by (auto simp: soc_next_def brad_soc_emu_free_def soc_typed_def cores_per_cluster_def mem_ok_def)
qed

interpretation soc: op_machine soc_exec soc_safe soc_typed zero_soc
proof unfold_locales
  show "soc_typed zero_soc"
    using zero_typed by (simp add: soc_typed_def zero_soc_def cores_per_cluster_def mem_ok_def BRAD_CORE_MAX_CLUSTERS_def
        BRAD_CORES_PER_CLUSTER_def)
  fix s opn assume "soc_typed s" "soc_safe opn s"
  then show "soc_typed (soc_exec opn s)"
    using soc_next_typed by (auto simp: soc_exec_def soc_safe_def)
qed

section \<open>What every sequence of calls keeps\<close>

text \<open>C19: After any sequence of calls that are defined and return, starting from an object of zero bytes, the register
 
  files and the stages of all cores have their sizes, the memory object has exactly the announced size, and a core
  that runs has the depth and execution stage of its model, an instruction in every stage marked valid, and register
  numbers below 16 in all of them.
\<close>

theorem soc_calls_typed:
  assumes "soc.run_safe ops zero_soc" and "s = soc.run ops zero_soc" and "core_at s cl i = Some c"
  shows "length (c_regs c) = BRAD_NUM_REGS \<and> (c_running c \<longrightarrow> core_wf c) \<and>
    (s_memory s a \<noteq> None \<longleftrightarrow> a < unat (s_mem_size s))"
proof -
  have t: "soc_typed s" unfolding assms(2) by (rule soc.run_inv [OF soc.init_inv assms(1)])
  from typed_core [OF t assms(3)] show ?thesis
    using t by (simp add: core_typed_def BRAD_NUM_REGS_def soc_typed_def mem_ok_def)
qed

definition demo_ops :: "soc_op list" where
  "demo_ops = [SInit True 1 1 0 0 0, SWriteReg 0 0 3 7]"

definition demo_started :: brad_soc_emu where
  "demo_started = put_core 0 0 demo_core (zero_soc\<lparr> s_num_clusters := 1, s_phoenix := 1,
     s_memory := calloc_memory BRAD_MEM_SIZE, s_mem_size := BRAD_MEM_SIZE \<rparr>)"

lemma demo_init: "soc_next (SInit True 1 1 0 0 0) zero_soc = Some demo_started"
proof -
  let ?z = "zero_soc\<lparr> s_num_clusters := 1, s_phoenix := 1, s_falcon := 0, s_kestrel := 0, s_falcon_lite := 0,
    s_memory := calloc_memory BRAD_MEM_SIZE, s_mem_size := BRAD_MEM_SIZE \<rparr>"
  have z: "?z = zero_soc\<lparr> s_num_clusters := 1, s_phoenix := 1,
      s_memory := calloc_memory BRAD_MEM_SIZE, s_mem_size := BRAD_MEM_SIZE \<rparr>"
    by (simp add: zero_soc_def)
  have "core_at ?z 0 0 = Some zero_core"
    by (simp add: core_at_def zero_soc_def BRAD_CORE_MAX_CLUSTERS_def BRAD_CORES_PER_CLUSTER_def)
  then have "init_core_at 0 PIPE_PHOENIX 0 ?z = Some demo_started"
    unfolding init_core_at_def using demo_setup(1) by (simp add: demo_started_def z)
  then have "init_cluster 1 0 0 0 0 ?z = Some demo_started" by (simp add: init_cluster_def)
  then show ?thesis
    by (simp add: soc_next_def ret_soc_def brad_soc_emu_init_ex_def Let_def BRAD_CORE_MAX_CLUSTERS_def
        BRAD_CORES_PER_CLUSTER_def)
qed

lemma demo_started_core: "core_at demo_started 0 0 = Some demo_core"
  by (simp add: demo_started_def core_at_def put_core_def zero_soc_def BRAD_CORE_MAX_CLUSTERS_def BRAD_CORES_PER_CLUSTER_def)

lemma demo_write: "\<exists>c. soc_next (SWriteReg 0 0 3 7) demo_started = Some (put_core 0 0 c demo_started) \<and> c_running c"
proof -
  define c where "c = demo_core\<lparr> c_regs := (c_regs demo_core)[3 := 7] \<rparr>"
  have "c_running demo_core" "c_model demo_core = PIPE_PHOENIX" by (simp_all add: demo_core_def brad_core_emu_init_def)
  then have "soc_next (SWriteReg 0 0 3 7) demo_started = Some (put_core 0 0 c demo_started)" "c_running c"
    by (simp_all add: soc_next_def on_core_def demo_started_core brad_core_write_reg_def num_regs_def BRAD_NUM_REGS_def c_def)
  then show ?thesis by blast
qed

lemma demo_ops_run:
  "soc.run_safe demo_ops zero_soc" "\<exists>c. core_at (soc.run demo_ops zero_soc) 0 0 = Some c \<and> c_running c"
  "in_soc (soc.run demo_ops zero_soc) 0 0"
proof -
  obtain c where c: "soc_next (SWriteReg 0 0 3 7) demo_started = Some (put_core 0 0 c demo_started)" "c_running c"
    using demo_write by blast
  have run: "soc.run demo_ops zero_soc = put_core 0 0 c demo_started"
    by (simp add: demo_ops_def soc_exec_def demo_init c(1))
  show "soc.run_safe demo_ops zero_soc" by (simp add: demo_ops_def soc_exec_def soc_safe_def demo_init c(1))
  show "\<exists>c. core_at (soc.run demo_ops zero_soc) 0 0 = Some c \<and> c_running c"
    using core_at_put [OF demo_started_core, of c "s_memory demo_started"] c(2) by (simp add: run)
  show "in_soc (soc.run demo_ops zero_soc) 0 0"
    unfolding run by (simp add: in_soc_def put_core_def demo_started_def zero_soc_def cores_per_cluster_def)
qed

lemma soc_calls_typed_witness:
  "\<exists>c. core_at (soc.run demo_ops zero_soc) 0 0 = Some c \<and> core_wf c"
proof -
  obtain c where "core_at (soc.run demo_ops zero_soc) 0 0 = Some c" "c_running c" using demo_ops_run(2) by blast
  then show ?thesis using soc_calls_typed [OF demo_ops_run(1) refl, of 0 0 c] by blast
qed

section \<open>Runs return\<close>

text \<open>
  Where a run can have undefined behaviour: the bounds check of an access adds four to the address in 32 bits, so an address in the last
  four bytes of the address space passes it. The core fetches from such an address, or the load or store it executes has it.
\<close>

definition wrapped_access :: "brad_core_state \<Rightarrow> bool" where
  "wrapped_access c \<longleftrightarrow> 2 ^ 32 - 4 \<le> unat (c_pc c) \<or>
     (\<exists>d p. at_exec (advance_pipeline c) = Some (d, p) \<and> d_opcode d \<in> {OP_LDW, OP_STW} \<and>
        2 ^ 32 - 4 \<le> unat (get_reg c (d_rs1 d) + sext16 (d_imm d)))"

lemma checked_access_defined:
  assumes "mem_ok m sz" "\<not> beyond a sz" "unat a < 2 ^ 32 - 4"
  shows "peek32 m (unat a) \<noteq> None" "poke32 m (unat a) v \<noteq> None"
proof -
  have "unat (a + 4) = unat a + 4" using assms(3) by (simp add: unat_word_ariths)
  then have "unat (ucast (a + 4) :: u64) = unat a + 4" by (simp add: unat_ucast64)
  then have le: "unat a + 4 \<le> unat sz" using assms(2) by (simp add: beyond_def word_less_nat_alt)
  then show "peek32 m (unat a) \<noteq> None" using mem_ok_peek [OF assms(1)] by blast
  have "mapped m (unat a) 4" using le assms(1) by (auto simp: mapped_def mem_ok_def)
  then show "poke32 m (unat a) v \<noteq> None" by (simp add: poke32_def poke_eq le_bytes32_def eval_nat_numeral)
qed

lemma execute_undefined:
  assumes "execute c d m sz p = None" "mem_ok m sz"
  shows "d_opcode d \<in> {OP_LDW, OP_STW} \<and> 2 ^ 32 - 4 \<le> unat (get_reg c (d_rs1 d) + sext16 (d_imm d))"
proof -
  have g: "get_reg (count_insn d c) r = get_reg c r" for r by (simp add: get_reg_def count_insn_def)
  have "d_opcode d \<in> {OP_LDW, OP_STW}" "\<not> beyond (get_reg c (d_rs1 d) + sext16 (d_imm d)) sz"
    "peek32 m (unat (get_reg c (d_rs1 d) + sext16 (d_imm d))) = None \<or>
     poke32 m (unat (get_reg c (d_rs1 d) + sext16 (d_imm d))) (get_reg c (d_rs2 d)) = None"
    using assms(1) by (auto simp: execute_def g Let_def split: brad_isa_opcode.splits if_splits option.splits)
  then show ?thesis using checked_access_defined [OF assms(2)] by (meson not_le)
qed

lemma get_reg_advance: "get_reg (advance_pipeline c) r = get_reg c r"
  by (simp add: get_reg_def)

lemma fetch_undefined:
  assumes "rest_of_cycle sz (c, m) = None" "mem_ok m sz"
  shows "2 ^ 32 - 4 \<le> unat (c_pc c)"
proof -
  have "\<not> beyond (c_pc c) sz" "peek32 m (unat (c_pc c)) = None"
    using assms(1) by (auto simp: rest_of_cycle_def fetch_stage_def fetch_def split: if_splits option.splits sum.splits)
  then show ?thesis using checked_access_defined(1) [OF assms(2)] by (meson not_le)
qed

lemma cycle_undefined:
  assumes "core_cycle sz (c, m) = None" "mem_ok m sz"
  shows "wrapped_access c"
proof -
  have run: "run_pipeline (c_model c) c m sz = None" using assms(1) by (simp add: core_cycle_def split: if_splits)
  show ?thesis
  proof (cases "at_exec (advance_pipeline c)")
    case None
    then show ?thesis using run fetch_undefined [OF _ assms(2), of "advance_pipeline c"]
      by (simp add: run_pipeline_eq wrapped_access_def)
  next
    case (Some dp)
    then obtain d p where dp: "at_exec (advance_pipeline c) = Some (d, p)" by (cases dp) auto
    show ?thesis
    proof (cases "execute (advance_pipeline c) d m sz p")
      case None
      then show ?thesis using execute_undefined [OF None assms(2)] dp by (simp add: wrapped_access_def get_reg_advance)
    next
      case (Some x)
      then obtain c2 m2 r t where ex: "execute (advance_pipeline c) d m sz p = Some (c2, m2, r, t)" by (cases x) auto
      then have t: "\<not> t" and "rest_of_cycle sz (retire (c_model c) c2, m2) = None"
        using run dp by (auto simp: run_pipeline_eq split: if_splits)
      moreover have "c_pc (retire (c_model c) c2) = c_pc c" using execute_frame(2) [OF ex] t by (simp add: retire_def)
      ultimately show ?thesis using fetch_undefined [OF _ execute_mem_ok [OF ex assms(2)], of "retire (c_model c) c2"] by (simp add: wrapped_access_def)
    qed
  qed
qed

lemma iterate_undefined:
  assumes "iterate k (core_cycle sz) (c, m) = None" "mem_ok m sz"
  shows "\<exists>j c' m'. iterate j (core_cycle sz) (c, m) = Some (c', m') \<and> wrapped_access c'"
  using assms
proof (induction k arbitrary: c m)
  case (Suc k)
  show ?case
  proof (cases "core_cycle sz (c, m)")
    case None
    then show ?thesis using cycle_undefined [OF None Suc.prems(2)] by (intro exI [of _ "0::nat"]) simp
  next
    case (Some x)
    then obtain c1 m1 where x: "core_cycle sz (c, m) = Some (c1, m1)" by (cases x) auto
    then have "mem_ok m1 sz" using Suc.prems(2) run_pipeline_mem by (auto simp: core_cycle_def split: if_splits)
    then obtain j c' m' where "iterate j (core_cycle sz) (c1, m1) = Some (c', m')" "wrapped_access c'"
      using Suc.IH [of c1 m1] Suc.prems(1) x by auto
    then show ?thesis using x by (intro exI [of _ "Suc j"]) simp
  qed
qed simp

lemma run_loop_returns:
  assumes "in_soc s cl i" "core_at s cl i = Some c" "core_typed c" "mem_ok (s_memory s) (s_mem_size s)"
  shows "\<exists>r. core_run_loop cl i (c_cycles c) max_cycles s = Some r \<and>
    (case r of None \<Rightarrow> \<exists>k c' m. iterate k (core_cycle (s_mem_size s)) (c, s_memory s) = Some (c', m) \<and> wrapped_access c'
     | Some s' \<Rightarrow> \<exists>c'. core_at s' cl i = Some c' \<and> (c_running c' \<longrightarrow> max_cycles \<le> c_cycles c' - c_cycles c))"
proof (cases "c_running c")
  case True
  then have "core_wf c" using assms(3) by (simp add: core_typed_def)
  then obtain k where "case iterate k (core_cycle (s_mem_size s)) (c, s_memory s) of
      None \<Rightarrow> core_run_loop cl i (c_cycles c) max_cycles s = Some None
    | Some (c', m) \<Rightarrow> core_run_loop cl i (c_cycles c) max_cycles s = Some (Some (put_core cl i c' (s\<lparr> s_memory := m \<rparr>))) \<and>
        core_wf c' \<and> (c_running c' \<longrightarrow> max_cycles \<le> c_cycles c' - c_cycles c)"
    using core_run_loop_cycles [OF assms(1,2), of "c_cycles c" max_cycles] by auto
  then show ?thesis using iterate_undefined [OF _ assms(4)] core_at_put [OF assms(2)]
    by (cases "iterate k (core_cycle (s_mem_size s)) (c, s_memory s)") auto
next
  case False
  then show ?thesis using assms(2) by (simp add: core_run_loop.simps [of cl])
qed

text \<open>C29: In every state reached by calls that are defined, \<open>brad_core_emu_run\<close> on a configured core returns for every budget: a
  cycle that is not counted empties the pipeline, so the next one is. When it returns, the core has stopped or its counter
  has advanced by the budget at least. It does not return but has undefined behaviour only where the core gets to an
  access whose bounds check wraps around.
\<close>

theorem core_run_returns:
  assumes "soc.run_safe ops zero_soc" and "s = soc.run ops zero_soc" and "in_soc s cl i" and "core_at s cl i = Some c"
  shows "\<exists>r. brad_core_emu_run (Some s) cl i max_cycles = Some r \<and>
    (case r of None \<Rightarrow> \<exists>k c' m. iterate k (core_cycle (s_mem_size s)) (c, s_memory s) = Some (c', m) \<and> wrapped_access c'
     | Some (e, s') \<Rightarrow> e = None \<and> (\<exists>s1 c'. s' = Some s1 \<and> core_at s1 cl i = Some c' \<and>
         (c_running c' \<longrightarrow> max_cycles \<le> c_cycles c' - c_cycles c)))"
proof -
  have t: "soc_typed s" unfolding assms(2) by (rule soc.run_inv [OF soc.init_inv assms(1)])
  obtain r where "core_run_loop cl i (c_cycles c) max_cycles s = Some r"
    "case r of None \<Rightarrow> \<exists>k c' m. iterate k (core_cycle (s_mem_size s)) (c, s_memory s) = Some (c', m) \<and> wrapped_access c'
     | Some s' \<Rightarrow> \<exists>c'. core_at s' cl i = Some c' \<and> (c_running c' \<longrightarrow> max_cycles \<le> c_cycles c' - c_cycles c)"
    using run_loop_returns [OF assms(3,4) typed_core [OF t assms(4)], of max_cycles] t unfolding soc_typed_def by blast
  then show ?thesis using assms(4) by (cases r) (auto simp: brad_core_emu_run_def)
qed

lemma core_run_returns_witness:
  "\<exists>r. brad_core_emu_run (Some (soc.run demo_ops zero_soc)) 0 0 50 = Some r \<and> (case r of Some (e, s') \<Rightarrow> e = None | None \<Rightarrow> True)"
proof -
  obtain c where "core_at (soc.run demo_ops zero_soc) 0 0 = Some c" using demo_ops_run(2) by blast
  from core_run_returns [OF demo_ops_run(1) refl demo_ops_run(3) this, of 50] show ?thesis by (fastforce split: option.splits)
qed

end
