(* ===== verification/Bradasm.thy ===== *)
theory Bradasm
  imports BradIsa CString
begin

text \<open>
  The assembler of the CPU cores, \<open>asm/bradasm.c\<close>: lexer, expressions, the two passes.

  The lexer position is what is left of the source. \<open>out->code\<close> is the list of the words counted by \<open>out_idx\<close>,
  with the half-filled word at that index (\<open>half_pos\<close> is 1) beside it. Arithmetic on \<open>int\<close> that overflows is undefined:
  the outer \<open>None\<close> of parser results. Error texts are constructors.
\<close>

section \<open>Tokens\<close>

text \<open>
  The tokens of opcodes are numbered in the order of the instruction set, which the emission relies on: they carry the
  opcode.
\<close>

datatype token_kind = T_EOF | T_ID | T_NUM | T_COLON | T_COMMA | T_LBRACK | T_RBRACK | T_PLUS | T_MINUS | T_NEWLINE
  | T_DIR_ORG | T_DIR_WORD | T_DIR_BYTE | T_DIR_ENTRY | T_DIR_COMPRESS | T_DIR_NOCOMPRESS | T_DIR_HALF
  | T_OP brad_isa_opcode | T_OP_C brad_isa_cop

record token =
  tk_kind :: token_kind
  tk_text :: string
  tk_ival :: int

record as_lexer =
  al_p :: string
  al_line :: nat
  al_tok :: token

definition zero_token :: token where
  "zero_token = \<lparr> tk_kind = T_EOF, tk_text = [], tk_ival = 0 \<rparr>"

definition tok :: "token_kind \<Rightarrow> token" where
  "tok k = zero_token\<lparr> tk_kind := k \<rparr>"

abbreviation al_kind :: "as_lexer \<Rightarrow> token_kind" where
  "al_kind lx \<equiv> tk_kind (al_tok lx)"

abbreviation al_text :: "as_lexer \<Rightarrow> string" where
  "al_text lx \<equiv> tk_text (al_tok lx)"

definition lex_init :: "string \<Rightarrow> as_lexer" where
  "lex_init src = \<lparr> al_p = src, al_line = 1, al_tok = zero_token \<rparr>"

definition is_ws :: "char \<Rightarrow> bool" where
  "is_ws c \<longleftrightarrow> c = CHR '' '' \<or> chr_code c = 9"

definition is_nl :: "char \<Rightarrow> bool" where
  "is_nl c \<longleftrightarrow> chr_code c = 10"

definition lex_skip_ws :: "as_lexer \<Rightarrow> as_lexer" where
  "lex_skip_ws lx = lx\<lparr> al_p := dropWhile is_ws (al_p lx) \<rparr>"

definition directive_kind :: "string \<Rightarrow> token_kind" where
  "directive_kind name =
     (if name = ''word'' then T_DIR_WORD else if name = ''byte'' then T_DIR_BYTE else if name = ''org'' then T_DIR_ORG
      else if name = ''entry'' then T_DIR_ENTRY else if name = ''compress'' then T_DIR_COMPRESS
      else if name = ''nocompress'' then T_DIR_NOCOMPRESS else if name = ''half'' then T_DIR_HALF else T_DIR_ORG)"

definition op_table :: "(string \<times> token_kind) list" where
  "op_table = [(''ADD'', T_OP OP_ADD), (''SUB'', T_OP OP_SUB), (''MUL'', T_OP OP_MUL), (''AND'', T_OP OP_AND),
     (''OR'', T_OP OP_OR), (''XOR'', T_OP OP_XOR), (''SHL'', T_OP OP_SHL), (''SHR'', T_OP OP_SHR),
     (''ADDI'', T_OP OP_ADDI), (''LDW'', T_OP OP_LDW), (''STW'', T_OP OP_STW), (''BZ'', T_OP OP_BZ),
     (''BNZ'', T_OP OP_BNZ), (''JMP'', T_OP OP_JMP), (''CALL'', T_OP OP_CALL), (''RET'', T_OP OP_RET),
     (''C.ADD'', T_OP_C COP_ADD), (''C.SUB'', T_OP_C COP_SUB), (''C.AND'', T_OP_C COP_AND), (''C.OR'', T_OP_C COP_OR),
     (''C.XOR'', T_OP_C COP_XOR), (''C.SHL'', T_OP_C COP_SHL), (''C.SHR'', T_OP_C COP_SHR),
     (''C.ADDI'', T_OP_C COP_ADDI), (''C.LDW'', T_OP_C COP_LDW), (''C.STW'', T_OP_C COP_STW),
     (''C.BZ'', T_OP_C COP_BZ), (''C.BNZ'', T_OP_C COP_BNZ), (''C.MV'', T_OP_C COP_MV), (''C.NOP'', T_OP_C COP_NOP),
     (''C.JMP'', T_OP_C COP_JMP), (''C.CALL'', T_OP_C COP_CALL)]"

definition word_kind :: "string \<Rightarrow> token_kind" where
  "word_kind name = (case map_of op_table name of None \<Rightarrow> T_ID | Some k \<Rightarrow> k)"

definition punct_kind :: "char \<Rightarrow> token_kind option" where
  "punct_kind c = (if c = CHR '':'' then Some T_COLON else if c = CHR '','' then Some T_COMMA
     else if c = CHR ''['' then Some T_LBRACK else if c = CHR '']'' then Some T_RBRACK
     else if c = CHR ''+'' then Some T_PLUS else if c = CHR ''-'' then Some T_MINUS else None)"

text \<open>The characters of a number: digits and single dots.\<close>

fun number_chars :: "string \<Rightarrow> string" where
  "number_chars [] = []"
| "number_chars (c # s) =
     (if isdigit c \<or> c = CHR ''.''
      then (if c = CHR ''.'' \<and> peek_chr s = CHR ''.'' then [] else c # number_chars s)
      else [])"

definition name_chr :: "char \<Rightarrow> bool" where
  "name_chr c \<longleftrightarrow> isalnum c \<or> c = CHR ''_'' \<or> c = CHR ''.''"

definition as_int :: "int \<Rightarrow> int" where
  "as_int v = sint (of_int v :: u32)"

text \<open>The branches of \<open>lex_next\<close>, each with the lexer at the first character of the token.\<close>

definition lex_comment :: "as_lexer \<Rightarrow> as_lexer" where
  "lex_comment lx =
     (let q = dropWhile (\<lambda>d. d \<noteq> nul \<and> \<not> is_nl d) (al_p lx) in
      if is_nl (peek_chr q) then lx\<lparr> al_p := tl q, al_line := al_line lx + 1, al_tok := tok T_NEWLINE \<rparr>
      else lx\<lparr> al_p := q, al_tok := tok T_NEWLINE \<rparr>)"

definition lex_directive :: "as_lexer \<Rightarrow> as_lexer" where
  "lex_directive lx =
     (let name = take 31 (takeWhile (\<lambda>d. isalpha d \<or> d = CHR ''_'') (tl (al_p lx))) in
      lx\<lparr> al_p := drop (length name) (tl (al_p lx)),
          al_tok := (tok (directive_kind name))\<lparr> tk_text := CHR ''.'' # name \<rparr> \<rparr>)"

definition lex_number :: "as_lexer \<Rightarrow> as_lexer" where
  "lex_number lx =
     (let ds = number_chars (al_p lx) in
      lx\<lparr> al_p := drop (length ds) (al_p lx),
          al_tok := (tok T_NUM)\<lparr> tk_ival := as_int (fst (strtol (take 31 ds) 0)) \<rparr> \<rparr>)"

definition lex_name :: "as_lexer \<Rightarrow> as_lexer" where
  "lex_name lx =
     (let name = take 63 (takeWhile name_chr (al_p lx)) in
      lx\<lparr> al_p := drop (length name) (al_p lx), al_tok := (tok (word_kind name))\<lparr> tk_text := name \<rparr> \<rparr>)"

definition lex_next :: "as_lexer \<Rightarrow> as_lexer" where
  "lex_next lx0 =
     (let lx = lex_skip_ws lx0; p = al_p lx; c = peek_chr p in
      if c = nul then lx\<lparr> al_tok := tok T_EOF \<rparr>
      else if is_nl c then lx\<lparr> al_p := tl p, al_line := al_line lx + 1, al_tok := tok T_NEWLINE \<rparr>
      else if c = CHR '';'' then lex_comment lx
      else case punct_kind c of
        Some k \<Rightarrow> lx\<lparr> al_p := tl p, al_tok := tok k \<rparr>
      | None \<Rightarrow>
        if c = CHR ''.'' \<and> peek_chr (tl p) \<noteq> nul then lex_directive lx
        else if c = CHR ''.'' \<or> isdigit c then lex_number lx
        else if isalpha c \<or> c = CHR ''_'' then lex_name lx
        else lx\<lparr> al_tok := (tok T_EOF)\<lparr> tk_text := ''unexpected char '' @ [CHR 0x27, c, CHR 0x27] \<rparr> \<rparr>)"

section \<open>Progress of the lexer\<close>

text \<open>Every token but the end consumes input.\<close>

lemma lex_comment_less: "al_p lx = CHR '';'' # q \<Longrightarrow> length (al_p (lex_comment lx)) < length (al_p lx)"
  using length_dropWhile_le [of "\<lambda>d. d \<noteq> nul \<and> \<not> is_nl d" q]
  by (auto simp: lex_comment_def Let_def nul_def is_nl_def chr_code_def less_Suc_eq_le)

lemma lex_directive_less: "al_p lx \<noteq> [] \<Longrightarrow> length (al_p (lex_directive lx)) < length (al_p lx)"
  by (cases "al_p lx") (auto simp: lex_directive_def Let_def less_Suc_eq_le)

lemma lex_number_less:
  assumes "al_p lx = c # q" "c = CHR ''.'' \<and> peek_chr q = nul \<or> isdigit c"
  shows "length (al_p (lex_number lx)) < length (al_p lx)"
proof -
  have "number_chars (al_p lx) \<noteq> []" using assms by (auto simp: nul_def isdigit_def chr_code_def)
  then have "0 < length (number_chars (al_p lx))" by simp
  then show ?thesis using assms(1) by (simp add: lex_number_def Let_def)
qed

lemma lex_name_less:
  assumes "al_p lx = c # q" "isalpha c \<or> c = CHR ''_''"
  shows "length (al_p (lex_name lx)) < length (al_p lx)"
proof -
  have "0 < length (take 63 (takeWhile name_chr (al_p lx)))"
    using assms by (auto simp: name_chr_def isalnum_def)
  then show ?thesis using assms(1) by (simp add: lex_name_def Let_def)
qed

lemma lex_next_progress:
  assumes "al_kind (lex_next lx) \<noteq> T_EOF"
  shows "length (al_p (lex_next lx)) < length (al_p lx)"
proof -
  let ?lx = "lex_skip_ws lx"
  have len: "length (al_p ?lx) \<le> length (al_p lx)" unfolding lex_skip_ws_def by (simp add: length_dropWhile_le)
  have "peek_chr (al_p ?lx) \<noteq> nul"
    using assms by (auto simp: lex_next_def Let_def tok_def zero_token_def)
  then obtain c q where p: "al_p ?lx = c # q" "peek_chr (al_p ?lx) = c" using peek_chr_not_nul by blast
  have c: "c \<noteq> nul" using p \<open>peek_chr (al_p ?lx) \<noteq> nul\<close> by simp
  consider "is_nl c" | "\<not> is_nl c" "c = CHR '';''" | k where "\<not> is_nl c" "c \<noteq> CHR '';''" "punct_kind c = Some k"
    | "\<not> is_nl c" "c \<noteq> CHR '';''" "punct_kind c = None" "c = CHR ''.''" "peek_chr q \<noteq> nul"
    | "\<not> is_nl c" "c \<noteq> CHR '';''" "punct_kind c = None" "c = CHR ''.'' \<and> peek_chr q = nul \<or> c \<noteq> CHR ''.'' \<and> isdigit c"
    | "\<not> is_nl c" "c \<noteq> CHR '';''" "punct_kind c = None" "\<not> (c = CHR ''.'' \<or> isdigit c)" "isalpha c \<or> c = CHR ''_''"
    | "\<not> is_nl c" "c \<noteq> CHR '';''" "punct_kind c = None" "\<not> (c = CHR ''.'' \<or> isdigit c)" "\<not> (isalpha c \<or> c = CHR ''_'')"
    by (cases "punct_kind c") blast+
  then have "length (al_p (lex_next lx)) < length (al_p ?lx)"
  proof cases
    case 2
    then show ?thesis using p c lex_comment_less [of ?lx q] by (simp add: lex_next_def Let_def)
  next
    case 4
    then show ?thesis using p c lex_directive_less [of ?lx] by (simp add: lex_next_def Let_def)
  next
    case 5
    then show ?thesis using p c lex_number_less [of ?lx c q] by (auto simp: lex_next_def Let_def)
  next
    case 6
    then show ?thesis using p c lex_name_less [of ?lx c q] by (auto simp: lex_next_def Let_def)
  next
    case 7
    then have "al_kind (lex_next lx) = T_EOF" using p c by (auto simp: lex_next_def Let_def tok_def)
    then show ?thesis using assms by simp
  qed (use p c in \<open>auto simp: lex_next_def Let_def\<close>)
  then show ?thesis using len by simp
qed

lemma lex_next_le: "length (al_p (lex_next lx)) \<le> length (al_p lx)"
proof (cases "al_kind (lex_next lx) = T_EOF")
  case True
  have len: "length (al_p (lex_skip_ws lx)) \<le> length (al_p lx)"
    unfolding lex_skip_ws_def by (simp add: length_dropWhile_le)
  let ?p = "al_p (lex_skip_ws lx)"
  have k: "directive_kind s \<noteq> T_EOF" for s by (simp add: directive_kind_def)
  have w: "word_kind s \<noteq> T_EOF" for s
    unfolding word_kind_def by (auto simp: op_table_def split: option.split)
  have pk: "punct_kind c \<noteq> Some T_EOF" for c by (auto simp: punct_kind_def)
  have "al_p (lex_next lx) = ?p"
    using True k w pk
    by (auto simp: lex_next_def Let_def tok_def zero_token_def lex_comment_def lex_directive_def lex_number_def
        lex_name_def split: option.splits if_splits)
  then show ?thesis using len by simp
next
  case False
  then show ?thesis using lex_next_progress less_imp_le by blast
qed

text \<open>\<open>while (kind != T_NEWLINE && kind != T_EOF) lex_next;\<close>\<close>

function skip_eol :: "as_lexer \<Rightarrow> as_lexer" where
  "skip_eol lx = (if al_kind lx = T_NEWLINE \<or> al_kind lx = T_EOF then lx else skip_eol (lex_next lx))"
  by pat_completeness auto
termination
proof (relation "measure (\<lambda>lx. if al_kind lx = T_EOF then 0 else Suc (length (al_p lx)))"; clarsimp)
  fix lx assume "al_kind (lex_next lx) \<noteq> T_EOF"
  then show "length (al_p (lex_next lx)) < length (al_p lx)" by (rule lex_next_progress)
qed

declare skip_eol.simps [simp del]

lemma skip_eol_le: "length (al_p (skip_eol lx)) \<le> length (al_p lx)"
proof (induction lx rule: skip_eol.induct)
  case (1 lx)
  then show ?case using lex_next_le [of lx] by (subst skip_eol.simps) (auto intro: order_trans)
qed

section \<open>Operands\<close>

record brad_as_symbol =
  sy_name :: string
  sy_addr :: u32

definition BRAD_ASM_MAX_SYMBOLS :: nat where "BRAD_ASM_MAX_SYMBOLS = 1024"

definition BRAD_ASM_MAX_OUTPUT :: nat where "BRAD_ASM_MAX_OUTPUT = 65536"

datatype as_error = SyntaxError nat | UndefinedSymbol nat | NoCompressedForm brad_isa_opcode nat
  | ImmediateRange int brad_isa_opcode nat

text \<open>A parser moves the lexer, stops the assembly with an error, or is undefined.\<close>

type_synonym 'a parser = "as_lexer \<Rightarrow> (as_error + 'a \<times> as_lexer) option"

definition p_return :: "'a \<Rightarrow> 'a parser" where
  "p_return a = (\<lambda>lx. Some (Inr (a, lx)))"

definition p_bind :: "'a parser \<Rightarrow> ('a \<Rightarrow> 'b parser) \<Rightarrow> 'b parser" where
  "p_bind f g = (\<lambda>lx. case f lx of None \<Rightarrow> None | Some (Inl e) \<Rightarrow> Some (Inl e) | Some (Inr (a, lx')) \<Rightarrow> g a lx')"

text \<open>\<open>goto err\<close>\<close>

definition p_fail :: "'a parser" where
  "p_fail = (\<lambda>lx. Some (Inl (SyntaxError (al_line lx))))"

definition p_next :: "unit parser" where
  "p_next = (\<lambda>lx. Some (Inr ((), lex_next lx)))"

definition p_kind :: "token_kind parser" where
  "p_kind = (\<lambda>lx. Some (Inr (al_kind lx, lx)))"

text \<open>\<open>if (kind == k) lex_next\<close>, for one of some kinds.\<close>

definition p_skip :: "token_kind list \<Rightarrow> unit parser" where
  "p_skip ks = (\<lambda>lx. Some (Inr ((), if al_kind lx \<in> set ks then lex_next lx else lx)))"

text \<open>A result of \<open>int\<close> arithmetic.\<close>

definition int_range :: "int \<Rightarrow> bool" where
  "int_range v \<longleftrightarrow> - (2 ^ 31) \<le> v \<and> v < 2 ^ 31"

definition c_int :: "int \<Rightarrow> int parser" where
  "c_int v = (\<lambda>lx. if int_range v then Some (Inr (v, lx)) else None)"

definition find_symbol :: "brad_as_symbol list \<Rightarrow> string \<Rightarrow> brad_as_symbol option" where
  "find_symbol syms name = List.find (\<lambda>s. sy_name s = name) syms"

text \<open>
  The value and the lexer; an unknown name or another token is the \<open>None\<close> within (\<open>ec->error\<close> is set), with the lexer
  where it stood.
\<close>

definition eval_expr :: "brad_as_symbol list \<Rightarrow> u32 \<Rightarrow> as_lexer \<Rightarrow> (int option \<times> as_lexer) option" where
  "eval_expr syms pc lx0 =
    (let neg = (al_kind lx0 = T_MINUS); lx = (if al_kind lx0 = T_PLUS \<or> neg then lex_next lx0 else lx0);
         val = (if al_kind lx = T_NUM then Some (tk_ival (al_tok lx))
           else if al_kind lx = T_ID then
             (if al_text lx = ''$'' then Some (sint pc) else map_option (\<lambda>s. sint (sy_addr s)) (find_symbol syms (al_text lx)))
           else None) in
     case val of None \<Rightarrow> Some (None, lx)
     | Some v \<Rightarrow> if neg \<and> \<not> int_range (- v) then None else Some (Some (if neg then - v else v), lex_next lx))"

definition p_expr :: "brad_as_symbol list \<Rightarrow> u32 \<Rightarrow> int parser" where
  "p_expr syms pc = (\<lambda>lx. case eval_expr syms pc lx of None \<Rightarrow> None
     | Some (None, lx') \<Rightarrow> p_fail lx' | Some (Some v, lx') \<Rightarrow> Some (Inr (v, lx')))"

definition parse_reg :: "nat parser" where
  "parse_reg = (\<lambda>lx.
     let r = unat (of_int (fst (strtol (tl (al_text lx)) 10)) :: u32) in
     if al_kind lx = T_ID \<and> peek_chr (al_text lx) = CHR ''r'' \<and> peek_chr (tl (al_text lx)) \<noteq> nul \<and> r < 16
     then Some (Inr (r, lex_next lx)) else p_fail lx)"

abbreviation p_comma :: "unit parser" where
  "p_comma \<equiv> p_skip [T_COMMA]"

definition p_rrr :: "(nat \<times> nat \<times> nat) parser" where
  "p_rrr = p_bind parse_reg (\<lambda>rd. p_bind p_comma (\<lambda>_. p_bind parse_reg (\<lambda>rs1. p_bind p_comma (\<lambda>_.
     p_bind parse_reg (\<lambda>rs2. p_return (rd, rs1, rs2))))))"

definition p_rri :: "brad_as_symbol list \<Rightarrow> u32 \<Rightarrow> (nat \<times> nat \<times> int) parser" where
  "p_rri syms pc = p_bind parse_reg (\<lambda>rd. p_bind p_comma (\<lambda>_. p_bind parse_reg (\<lambda>rs1. p_bind p_comma (\<lambda>_.
     p_bind (p_expr syms pc) (\<lambda>imm. p_return (rd, rs1, imm))))))"

text \<open>\<open>r, [rs1 + imm]\<close> or \<open>r, rs1, imm\<close>.\<close>

definition p_mem :: "brad_as_symbol list \<Rightarrow> u32 \<Rightarrow> (nat \<times> nat \<times> int) parser" where
  "p_mem syms pc = p_bind parse_reg (\<lambda>r. p_bind p_comma (\<lambda>_. p_bind p_kind (\<lambda>k.
     if k = T_LBRACK then
       p_bind p_next (\<lambda>_. p_bind parse_reg (\<lambda>rs1. p_bind (p_skip [T_PLUS, T_COMMA]) (\<lambda>_.
         p_bind (p_expr syms pc) (\<lambda>imm. p_bind (p_skip [T_RBRACK]) (\<lambda>_. p_return (r, rs1, imm))))))
     else
       p_bind parse_reg (\<lambda>rs1. p_bind p_comma (\<lambda>_. p_bind (p_expr syms pc) (\<lambda>imm. p_return (r, rs1, imm)))))))"

text \<open>C division by a positive number.\<close>

definition c_div :: "int \<Rightarrow> int \<Rightarrow> int" where
  "c_div a b = (if a < 0 then - (- a div b) else a div b)"

text \<open>The distance from the next instruction in units of \<open>w\<close> bytes, rounded away from zero.\<close>

definition p_distance :: "int \<Rightarrow> u32 \<Rightarrow> int \<Rightarrow> int parser" where
  "p_distance w pc target = p_bind (c_int (sint pc + w)) (\<lambda>next_pc. p_bind (c_int (target - next_pc)) (\<lambda>d.
     if d mod w \<noteq> 0 then
       (if d < 0 then p_bind (c_int (d - (w - 1))) (\<lambda>e. p_return (c_div e w))
        else p_bind (c_int (d + (w - 1))) (\<lambda>e. p_return (c_div e w)))
     else p_return (c_div d w)))"

definition p_range :: "brad_isa_opcode \<Rightarrow> int \<Rightarrow> int \<Rightarrow> int \<Rightarrow> unit parser" where
  "p_range opc lo hi imm = (\<lambda>lx. if imm < lo \<or> hi < imm then Some (Inl (ImmediateRange imm opc (al_line lx)))
     else Some (Inr ((), lx)))"

section \<open>Instructions\<close>

datatype emitted = Half u16 | Word u32

text \<open>The compressed form of an arithmetic opcode; \<open>MUL\<close>, which has none, maps to 0 in the table.\<close>

definition v1_to_cop :: "brad_isa_opcode \<Rightarrow> nat" where
  "v1_to_cop opc = (case opc of OP_ADD \<Rightarrow> cop_num COP_ADD | OP_SUB \<Rightarrow> cop_num COP_SUB | OP_AND \<Rightarrow> cop_num COP_AND
     | OP_OR \<Rightarrow> cop_num COP_OR | OP_XOR \<Rightarrow> cop_num COP_XOR | OP_SHL \<Rightarrow> cop_num COP_SHL | OP_SHR \<Rightarrow> cop_num COP_SHR
     | _ \<Rightarrow> 0)"

definition p_cbranch :: "brad_as_symbol list \<Rightarrow> u32 \<Rightarrow> brad_isa_cop \<Rightarrow> nat \<Rightarrow> emitted parser" where
  "p_cbranch syms pc c rs1 = p_bind (p_expr syms pc) (\<lambda>target. p_bind (p_distance 2 pc target) (\<lambda>d.
     p_return (Half (BRAD_CBR (cop_num c) rs1 (of_int d AND 0xFF)))))"

definition p_cop :: "brad_as_symbol list \<Rightarrow> u32 \<Rightarrow> brad_isa_cop \<Rightarrow> emitted parser" where
  "p_cop syms pc c = (case c of
     COP_ADDI \<Rightarrow> p_bind (p_rri syms pc) (\<lambda>(rd, rs1, imm). p_return (Half (BRAD_CRI (cop_num COP_ADDI) rd rs1 (of_int imm AND 0xF))))
   | COP_LDW \<Rightarrow> p_bind (p_mem syms pc) (\<lambda>(rd, rs1, imm). p_return (Half (BRAD_CRI (cop_num COP_LDW) rd rs1 (of_int imm AND 0xF))))
   | COP_STW \<Rightarrow> p_bind (p_mem syms pc) (\<lambda>(rs2, rs1, imm). p_return (Half (BRAD_CRI (cop_num COP_STW) rs2 rs1 (of_int imm AND 0xF))))
   | COP_BZ \<Rightarrow> p_bind parse_reg (\<lambda>rs1. p_bind p_comma (\<lambda>_. p_cbranch syms pc COP_BZ rs1))
   | COP_BNZ \<Rightarrow> p_bind parse_reg (\<lambda>rs1. p_bind p_comma (\<lambda>_. p_cbranch syms pc COP_BNZ rs1))
   | COP_MV \<Rightarrow> p_bind parse_reg (\<lambda>rd. p_bind p_comma (\<lambda>_. p_bind (p_expr syms pc) (\<lambda>imm.
       p_return (Half (BRAD_CMV rd (of_int imm AND 0xFF))))))
   | COP_NOP \<Rightarrow> p_return (Half BRAD_CNOP)
   | COP_JMP \<Rightarrow> p_cbranch syms pc COP_JMP 0
   | COP_CALL \<Rightarrow> p_cbranch syms pc COP_CALL 0
   | _ \<Rightarrow> p_bind p_rrr (\<lambda>(rd, rs1, rs2). p_return (Half (BRAD_CRRR (cop_num c) rd rs1 rs2))))"

text \<open>A jump or branch with the address of its target, in the current mode.\<close>

definition p_branch :: "brad_as_symbol list \<Rightarrow> u32 \<Rightarrow> bool \<Rightarrow> brad_isa_cop \<Rightarrow> (u32 \<Rightarrow> u32) \<Rightarrow> nat \<Rightarrow> emitted parser" where
  "p_branch syms pc cm c enc rs1 = p_bind (p_expr syms pc) (\<lambda>target.
     if cm then p_bind (p_distance 2 pc target) (\<lambda>d. p_return (Half (BRAD_CBR (cop_num c) rs1 (of_int d AND 0xFF))))
     else p_bind (p_distance 4 pc target) (\<lambda>d. p_return (Word (enc (of_int d)))))"

definition p_op :: "brad_as_symbol list \<Rightarrow> u32 \<Rightarrow> bool \<Rightarrow> brad_isa_opcode \<Rightarrow> emitted parser" where
  "p_op syms pc cm opc = (case opc of
     OP_ADDI \<Rightarrow> p_bind (p_rri syms pc) (\<lambda>(rd, rs1, imm).
       if cm then p_bind (p_range OP_ADDI (-8) 7 imm) (\<lambda>_. p_return (Half (BRAD_CRI (cop_num COP_ADDI) rd rs1 (of_int imm AND 0xF))))
       else p_return (Word (BRAD_RI (opcode_num OP_ADDI) rd rs1 (of_int imm))))
   | OP_LDW \<Rightarrow> p_bind (p_mem syms pc) (\<lambda>(rd, rs1, imm).
       if cm then p_bind (p_range OP_LDW 0 15 imm) (\<lambda>_. p_return (Half (BRAD_CRI (cop_num COP_LDW) rd rs1 (of_int imm))))
       else p_return (Word (BRAD_RI (opcode_num OP_LDW) rd rs1 (of_int imm))))
   | OP_STW \<Rightarrow> p_bind (p_mem syms pc) (\<lambda>(rs2, rs1, imm).
       if cm then p_bind (p_range OP_STW 0 15 imm) (\<lambda>_. p_return (Half (BRAD_CRI (cop_num COP_STW) rs2 rs1 (of_int imm))))
       else p_return (Word (push_bit 28 (of_nat (opcode_num OP_STW)) OR push_bit 20 (of_nat rs1) OR push_bit 16 (of_nat rs2)
         OR ucast (ucast (of_int imm AND 0xFFFF :: u32) :: u16))))
   | OP_BZ \<Rightarrow> p_bind parse_reg (\<lambda>rs1. p_bind p_comma (\<lambda>_. p_branch syms pc cm COP_BZ (BRAD_BR (opcode_num OP_BZ) rs1) rs1))
   | OP_BNZ \<Rightarrow> p_bind parse_reg (\<lambda>rs1. p_bind p_comma (\<lambda>_. p_branch syms pc cm COP_BNZ (BRAD_BR (opcode_num OP_BNZ) rs1) rs1))
   | OP_JMP \<Rightarrow> p_branch syms pc cm COP_JMP (BRAD_JMP (opcode_num OP_JMP)) 0
   | OP_CALL \<Rightarrow> p_branch syms pc cm COP_CALL (BRAD_JMP (opcode_num OP_CALL)) 0
   | OP_RET \<Rightarrow> (if cm then (\<lambda>lx. Some (Inl (NoCompressedForm OP_RET (al_line lx)))) else p_return (Word BRAD_RET_RAW))
   | _ \<Rightarrow> p_bind p_rrr (\<lambda>(rd, rs1, rs2).
       if cm then (if opc = OP_MUL then (\<lambda>lx. Some (Inl (NoCompressedForm OP_MUL (al_line lx))))
         else p_return (Half (BRAD_CRRR (v1_to_cop opc) rd rs1 rs2)))
       else p_return (Word (BRAD_RRR (opcode_num opc) rd rs1 rs2))))"

definition p_instruction :: "brad_as_symbol list \<Rightarrow> u32 \<Rightarrow> bool \<Rightarrow> token_kind \<Rightarrow> emitted parser" where
  "p_instruction syms pc cm k = (case k of T_OP_C c \<Rightarrow> p_cop syms pc c | T_OP opc \<Rightarrow> p_op syms pc cm opc | _ \<Rightarrow> p_fail)"

section \<open>Emission\<close>

record as_out =
  o_code :: "u32 list"
  o_half :: "u32 option"
  o_entry :: u32

definition emit_half :: "u16 \<Rightarrow> as_out \<Rightarrow> as_out option" where
  "emit_half h out = (if BRAD_ASM_MAX_OUTPUT \<le> length (o_code out) then None
     else case o_half out of None \<Rightarrow> Some (out\<lparr> o_half := Some (ucast h) \<rparr>)
     | Some lo \<Rightarrow> Some (out\<lparr> o_code := o_code out @ [lo OR push_bit 16 (ucast h)], o_half := None \<rparr>))"

definition flush_half :: "as_out \<Rightarrow> as_out" where
  "flush_half out = (case o_half out of None \<Rightarrow> out
     | Some lo \<Rightarrow> out\<lparr> o_code := o_code out @ [lo OR push_bit 16 (ucast BRAD_CNOP)], o_half := None \<rparr>)"

text \<open>\<open>flush_half\<close>, then \<open>if (out_idx < BRAD_ASM_MAX_OUTPUT) code[out_idx++] = w\<close>.\<close>

definition emit_word :: "u32 \<Rightarrow> as_out \<Rightarrow> as_out" where
  "emit_word w out = (let out' = flush_half out in
     if length (o_code out') < BRAD_ASM_MAX_OUTPUT then out'\<lparr> o_code := o_code out' @ [w] \<rparr> else out')"

section \<open>First pass\<close>

definition add_symbol :: "string \<Rightarrow> u32 \<Rightarrow> brad_as_symbol list \<Rightarrow> brad_as_symbol list" where
  "add_symbol name pc syms = (if length syms < BRAD_ASM_MAX_SYMBOLS
     then syms @ [\<lparr> sy_name = take 63 name, sy_addr = pc \<rparr>] else syms)"

definition at_label :: "as_lexer \<Rightarrow> bool" where
  "at_label lx \<longleftrightarrow> al_kind lx = T_ID \<and> peek_chr (al_p lx) = CHR '':''"

text \<open>What one round of the loop makes of lexer, \<open>pc\<close>, mode and symbols, at a token that is neither the end nor a newline.\<close>

definition pass1_line :: "as_lexer \<Rightarrow> u32 \<Rightarrow> bool \<Rightarrow> brad_as_symbol list \<Rightarrow> as_lexer \<times> u32 \<times> bool \<times> brad_as_symbol list" where
  "pass1_line lx pc cm syms =
    (if at_label lx then (lex_next (lex_next lx), pc, cm, add_symbol (al_text lx) pc syms)
     else case al_kind lx of
       T_COLON \<Rightarrow> (lex_next lx, pc, cm, syms)
     | T_DIR_ORG \<Rightarrow> (let l1 = lex_next lx in
         if al_kind l1 = T_NUM then (lex_next l1, of_int (tk_ival (al_tok l1)), cm, syms) else (l1, pc, cm, syms))
     | T_DIR_WORD \<Rightarrow> (skip_eol (lex_next lx), pc + 4, cm, syms)
     | T_DIR_BYTE \<Rightarrow> (skip_eol (lex_next lx), pc + 1, cm, syms)
     | T_DIR_HALF \<Rightarrow> (skip_eol (lex_next lx), pc + 2, cm, syms)
     | T_DIR_ENTRY \<Rightarrow> (lex_next lx, pc, cm, syms)
     | T_DIR_COMPRESS \<Rightarrow> (lx, pc, True, syms)
     | T_DIR_NOCOMPRESS \<Rightarrow> (lx, pc, False, syms)
     | T_OP_C c \<Rightarrow> (skip_eol lx, pc + 2, cm, syms)
     | _ \<Rightarrow> (skip_eol lx, pc + (if cm then 2 else 4), cm, syms))"

lemma lex_next_le2: "length (al_p lx) \<le> n \<Longrightarrow> length (al_p (lex_next lx)) \<le> n"
  using lex_next_le order_trans by blast

lemma lex_next_less2: "al_kind (lex_next lx) \<noteq> T_EOF \<Longrightarrow> length (al_p (lex_next (lex_next lx))) < length (al_p lx)"
  using lex_next_progress [of lx] lex_next_le [of "lex_next lx"] by simp

lemma skip_eol_le2: "length (al_p lx) \<le> n \<Longrightarrow> length (al_p (skip_eol lx)) \<le> n"
  using skip_eol_le order_trans by blast

lemma pass1_line_le: "length (al_p (fst (pass1_line lx pc cm syms))) \<le> length (al_p lx)"
  unfolding pass1_line_def Let_def
  by (auto intro: lex_next_le2 skip_eol_le2 split: token_kind.split)

function pass1 :: "as_lexer \<Rightarrow> u32 \<Rightarrow> bool \<Rightarrow> brad_as_symbol list \<Rightarrow> brad_as_symbol list" where
  "pass1 lx0 pc cm syms =
    (let lx = lex_next lx0 in
     if al_kind lx = T_EOF then syms
     else if al_kind lx = T_NEWLINE then pass1 lx pc cm syms
     else case pass1_line lx pc cm syms of (lx', pc', cm', syms') \<Rightarrow> pass1 lx' pc' cm' syms')"
  by pat_completeness auto
termination
proof (relation "measure (\<lambda>(lx, pc, cm, syms). length (al_p lx))"; clarsimp)
  fix lx0 :: as_lexer
  assume "al_kind (lex_next lx0) = T_NEWLINE"
  then show "length (al_p (lex_next lx0)) < length (al_p lx0)" using lex_next_progress [of lx0] by simp
next
  fix lx0 :: as_lexer and pc :: u32 and cm syms
  assume "al_kind (lex_next lx0) \<noteq> T_EOF"
  then show "(case pass1_line (lex_next lx0) pc cm syms of (lx, pc, cm, syms) \<Rightarrow> length (al_p lx)) < length (al_p lx0)"
    using lex_next_progress [of lx0] pass1_line_le [of "lex_next lx0" pc cm syms]
    by (cases "pass1_line (lex_next lx0) pc cm syms") simp
qed

declare pass1.simps [simp del]

section \<open>Second pass\<close>

type_synonym as_state = "u32 \<times> bool \<times> as_out"

text \<open>An undefined symbol in a directive is reported after the rest of the line has been read.\<close>

definition p_undefined :: "'a parser" where
  "p_undefined = (\<lambda>lx. Some (Inl (UndefinedSymbol (al_line (skip_eol lx)))))"

text \<open>\<open>if (eval_expr(...) == 0) ...\<close> of a directive.\<close>

definition p_value :: "brad_as_symbol list \<Rightarrow> u32 \<Rightarrow> (int \<Rightarrow> as_state) \<Rightarrow> as_state parser" where
  "p_value syms pc f = (\<lambda>lx. case eval_expr syms pc lx of None \<Rightarrow> None
     | Some (None, lx') \<Rightarrow> p_undefined lx' | Some (Some v, lx') \<Rightarrow> Some (Inr (f v, lx')))"

definition emit :: "emitted \<Rightarrow> as_state \<Rightarrow> as_state parser" where
  "emit e = (\<lambda>(pc, cm, out). case e of
     Half h \<Rightarrow> (case emit_half h out of None \<Rightarrow> p_fail | Some out' \<Rightarrow> p_return (pc + 2, cm, out'))
   | Word w \<Rightarrow> p_return (pc + 4, cm, emit_word w out))"

text \<open>A line that is not a label, up to where the rest of it is skipped.\<close>

definition pass2_line :: "brad_as_symbol list \<Rightarrow> as_state \<Rightarrow> as_state parser" where
  "pass2_line syms = (\<lambda>(pc, cm, out). p_bind p_kind (\<lambda>k. case k of
     T_DIR_ORG \<Rightarrow> p_bind p_next (\<lambda>_ lx.
       if al_kind lx = T_NUM then Some (Inr ((of_int (tk_ival (al_tok lx)), cm, out), lex_next lx))
       else Some (Inr ((pc, cm, out), lx)))
   | T_DIR_ENTRY \<Rightarrow> p_bind p_next (\<lambda>_ lx.
       if al_kind lx = T_NUM \<or> al_kind lx = T_ID
       then p_value syms pc (\<lambda>v. (pc, cm, out\<lparr> o_entry := of_int v \<rparr>)) lx
       else Some (Inr ((pc, cm, out), lx)))
   | T_DIR_COMPRESS \<Rightarrow> p_return (pc, True, out)
   | T_DIR_NOCOMPRESS \<Rightarrow> p_return (pc, False, flush_half out)
   | T_DIR_HALF \<Rightarrow> p_bind p_next (\<lambda>_. p_value syms pc (\<lambda>v. (pc + 2, cm,
       case emit_half (of_int v) out of None \<Rightarrow> out | Some out' \<Rightarrow> out')))
   | T_DIR_WORD \<Rightarrow> p_bind p_next (\<lambda>_. p_value syms pc (\<lambda>v. (pc + 4, cm, emit_word (of_int v) out)))
   | T_DIR_BYTE \<Rightarrow> p_bind p_next (\<lambda>_. p_value syms pc (\<lambda>v. (pc + 1, cm, emit_word (of_int v AND 0xFF) out)))
   | _ \<Rightarrow> p_bind p_next (\<lambda>_. p_bind (p_instruction syms pc cm k) (\<lambda>e. emit e (pc, cm, out)))))"

lemma p_bind_Inr:
  "p_bind f g lx = Some (Inr (b, lx2)) \<longleftrightarrow> (\<exists>a lx1. f lx = Some (Inr (a, lx1)) \<and> g a lx1 = Some (Inr (b, lx2)))"
  by (auto simp: p_bind_def split: option.splits sum.splits)

text \<open>Parsers that only move forward.\<close>

definition forward :: "'a parser \<Rightarrow> bool" where
  "forward f \<longleftrightarrow> (\<forall>lx a lx'. f lx = Some (Inr (a, lx')) \<longrightarrow> length (al_p lx') \<le> length (al_p lx))"

named_theorems forward

lemma forward_bind [forward]: "forward f \<Longrightarrow> (\<And>a. forward (g a)) \<Longrightarrow> forward (p_bind f g)"
  unfolding forward_def p_bind_Inr by (meson order_trans)

lemma forward_basic [forward]:
  "forward (p_return x)" "forward p_fail" "forward p_next" "forward p_kind" "forward (p_skip ks)" "forward (c_int v)"
  "forward p_undefined" "forward (\<lambda>lx. Some (Inl (e lx)))"
  by (auto simp: forward_def p_return_def p_fail_def p_next_def p_kind_def p_skip_def c_int_def p_undefined_def
      lex_next_le split: if_splits)

lemma eval_expr_le: "eval_expr syms pc lx = Some (v, lx') \<Longrightarrow> length (al_p lx') \<le> length (al_p lx)"
  by (auto simp: eval_expr_def Let_def lex_next_le intro: lex_next_le2 split: option.splits if_splits)

lemma forward_expr [forward]: "forward (p_expr syms pc)" "forward (p_value syms pc f)" "forward parse_reg" "forward (p_range opc lo hi v)"
  by (auto simp: forward_def p_expr_def p_value_def p_fail_def p_undefined_def parse_reg_def p_range_def Let_def lex_next_le
      split: option.splits if_splits dest: eval_expr_le)

lemma forward_if [forward]: "forward f \<Longrightarrow> forward g \<Longrightarrow> forward (if b then f else g)"
  by simp

lemma forward_operands [forward]:
  "forward p_rrr" "forward (p_rri syms pc)" "forward (p_mem syms pc)" "forward (p_distance w pc t)"
  unfolding p_rrr_def p_rri_def p_mem_def p_distance_def by (intro forward)+

lemma forward_cop [forward]: "forward (p_cbranch syms pc c r)" "forward (p_cop syms pc c)"
proof -
  show br: "forward (p_cbranch syms pc c r)" for c r unfolding p_cbranch_def by (intro forward)
  show "forward (p_cop syms pc c)"
    unfolding p_cop_def by (cases c) (auto intro!: forward br split: prod.split)
qed

lemma forward_op [forward]: "forward (p_branch syms pc cm c enc r)" "forward (p_op syms pc cm opc)"
proof -
  have br: "forward (p_branch syms pc cm c enc r)" for cm c enc r
    unfolding p_branch_def by (cases cm) (simp_all, (intro forward)+)
  show "forward (p_branch syms pc cm c enc r)" by (rule br)
  show "forward (p_op syms pc cm opc)"
    unfolding p_op_def by (cases opc; cases cm) (auto intro!: forward br split: prod.split)
qed

lemma forward_emit [forward]: "forward (emit e st)"
  by (auto simp: emit_def intro!: forward split: prod.split emitted.split option.split)

lemma forward_pass2_line [forward]: "forward (pass2_line syms st)"
proof -
  obtain pc cm out where st: "st = (pc, cm, out)" by (cases st)
  have insn: "forward (p_instruction syms pc cm k)" for k
    unfolding p_instruction_def by (cases k) (auto intro: forward)
  have org: "forward (\<lambda>lx. if al_kind lx = T_NUM then Some (Inr ((of_int (tk_ival (al_tok lx)), cm, out), lex_next lx))
       else Some (Inr ((pc, cm, out), lx)))"
    by (auto simp: forward_def lex_next_le)
  have entry: "forward (\<lambda>lx. if al_kind lx = T_NUM \<or> al_kind lx = T_ID then p_value syms pc f lx
       else Some (Inr ((pc, cm, out), lx)))" for f
    using forward_expr(2) [of syms pc f] by (auto simp: forward_def)
  show ?thesis unfolding st pass2_line_def prod.case
    by (intro forward_bind forward_basic, rename_tac k, case_tac k)
      (auto intro!: forward insn org entry)
qed

text \<open>The loop of the second pass.\<close>

function pass2 :: "brad_as_symbol list \<Rightarrow> as_lexer \<Rightarrow> as_state \<Rightarrow> (as_error + as_out) option" where
  "pass2 syms lx0 st =
    (let lx = lex_next lx0 in
     if al_kind lx = T_EOF then Some (Inr (flush_half (snd (snd st))))
     else if al_kind lx = T_NEWLINE then pass2 syms lx st
     else if at_label lx then pass2 syms (lex_next (lex_next lx)) st
     else if al_kind lx = T_COLON then pass2 syms (lex_next lx) st
     else case pass2_line syms st lx of
       None \<Rightarrow> None
     | Some (Inl e) \<Rightarrow> Some (Inl e)
     | Some (Inr (st', lx')) \<Rightarrow> pass2 syms (skip_eol lx') st')"
  by pat_completeness auto
termination
proof (relation "measure (\<lambda>(syms, lx, st). length (al_p lx))"; clarsimp)
  fix syms lx0 st st' lx'
  assume ne: "al_kind (lex_next lx0) \<noteq> T_EOF" and l: "pass2_line syms st (lex_next lx0) = Some (Inr (st', lx'))"
  have "length (al_p lx') \<le> length (al_p (lex_next lx0))"
    using forward_pass2_line [of syms st] l unfolding forward_def by blast
  then show "length (al_p (skip_eol lx')) < length (al_p lx0)"
    using lex_next_progress [OF ne] skip_eol_le [of lx'] by simp
next
  fix lx0 :: as_lexer
  show "length (al_p (lex_next (lex_next (lex_next lx0)))) < length (al_p lx0)" if "al_kind (lex_next lx0) \<noteq> T_EOF"
    using lex_next_less2 [OF that] lex_next_le [of "lex_next (lex_next lx0)"] by simp
  show "length (al_p (lex_next (lex_next lx0))) < length (al_p lx0)" if "al_kind (lex_next lx0) = T_COLON"
    using that by (intro lex_next_less2) simp
  show "length (al_p (lex_next lx0)) < length (al_p lx0)" if "al_kind (lex_next lx0) = T_NEWLINE"
    using that by (intro lex_next_progress) simp
qed

declare pass2.simps [simp del]

record brad_as_output =
  ao_code :: "u32 list"
  ao_entry :: u32
  ao_symbols :: "brad_as_symbol list"

text \<open>The words counted by \<open>out->count\<close>, or the error that is stored with \<open>ok = 0\<close> (the count is then 0).\<close>

definition brad_as_assemble :: "string \<Rightarrow> (as_error + brad_as_output) option" where
  "brad_as_assemble source =
    (let syms = pass1 (lex_init source) 0 False [] in
     case pass2 syms (lex_init source) (0, False, \<lparr> o_code = [], o_half = None, o_entry = 0 \<rparr>) of
       None \<Rightarrow> None
     | Some (Inl e) \<Rightarrow> Some (Inl e)
     | Some (Inr out) \<Rightarrow> Some (Inr \<lparr> ao_code = o_code out, ao_entry = o_entry out, ao_symbols = syms \<rparr>))"

end
