(* ===== verification/BradasmProps.thy ===== *)
theory BradasmProps
  imports Bradasm CoreRun
begin

text \<open>
  Properties of the assembler of the CPU cores: what it emits stays within the output array, the two passes place
  labels alike, the disassembler's text assembles back to the same words, branches reach their targets, and
  where the assembler does not do what its input says.
\<close>

section \<open>Bounds of the output\<close>

definition out_ok :: "as_out \<Rightarrow> bool" where
  "out_ok out \<longleftrightarrow> length (o_code out) \<le> BRAD_ASM_MAX_OUTPUT \<and>
     (o_half out \<noteq> None \<longrightarrow> length (o_code out) < BRAD_ASM_MAX_OUTPUT)"

lemma flush_ok: "out_ok out \<Longrightarrow> out_ok (flush_half out)"
  by (auto simp: out_ok_def flush_half_def split: option.split)

lemma emit_half_ok: "emit_half h out = Some out' \<Longrightarrow> out_ok out'"
  by (auto simp: out_ok_def emit_half_def split: option.splits if_splits)

lemma emit_word_ok: "out_ok out \<Longrightarrow> out_ok (emit_word w out)"
  using flush_ok [of out] by (auto simp: emit_word_def out_ok_def Let_def flush_half_def split: option.split)

text \<open>Parsers whose result satisfies a property.\<close>

definition yields :: "('a \<Rightarrow> bool) \<Rightarrow> 'a parser \<Rightarrow> bool" where
  "yields P f \<longleftrightarrow> (\<forall>lx a lx'. f lx = Some (Inr (a, lx')) \<longrightarrow> P a)"

lemma yields_bind: "(\<And>a. yields P (g a)) \<Longrightarrow> yields P (p_bind f g)"
  by (auto simp: yields_def p_bind_Inr)

lemma yields_basic: "P x \<Longrightarrow> yields P (p_return x)" "yields P p_fail" "(\<And>v. P (f v)) \<Longrightarrow> yields P (p_value syms pc f)"
  by (auto simp: yields_def p_return_def p_fail_def p_value_def p_undefined_def split: option.splits) metis

lemma pass2_line_ok:
  assumes "pass2_line syms (pc, cm, out) lx = Some (Inr ((pc', cm', out'), lx'))" "out_ok out"
  shows "out_ok out'"
proof -
  let ?P = "\<lambda>(pc, cm, out). out_ok out"
  have entry: "out_ok (out\<lparr> o_entry := v \<rparr>)" for v using assms(2) by (simp add: out_ok_def)
  have half: "out_ok (case emit_half h out of None \<Rightarrow> out | Some out' \<Rightarrow> out')" for h
    using assms(2) emit_half_ok by (simp split: option.split)
  have em: "yields ?P (emit e (pc, cm, out))" for e
    using assms(2) emit_half_ok emit_word_ok
    by (auto simp: emit_def intro!: yields_basic split: emitted.split option.split)
  have org: "yields ?P (\<lambda>lx. if al_kind lx = T_NUM then Some (Inr ((of_int (tk_ival (al_tok lx)), cm, out), lex_next lx))
       else Some (Inr ((pc, cm, out), lx)))"
    using assms(2) by (auto simp: yields_def)
  have ent: "yields ?P (\<lambda>lx. if al_kind lx = T_NUM \<or> al_kind lx = T_ID
       then p_value syms pc (\<lambda>v. (pc, cm, out\<lparr> o_entry := of_int v \<rparr>)) lx else Some (Inr ((pc, cm, out), lx)))"
    using assms(2) entry yields_basic(3) [of ?P "\<lambda>v. (pc, cm, out\<lparr> o_entry := of_int v \<rparr>)" syms pc]
    by (auto simp: yields_def)
  have "yields ?P (pass2_line syms (pc, cm, out))"
    unfolding pass2_line_def prod.case
    by (intro yields_bind, rename_tac k, case_tac k)
      (auto intro!: yields_bind yields_basic em org ent half flush_ok emit_word_ok assms(2))
  then have "?P (pc', cm', out')" using assms(1) unfolding yields_def by blast
  then show ?thesis by simp
qed

lemma pass2_ok: "pass2 syms lx (pc, cm, out) = Some (Inr out') \<Longrightarrow> out_ok out \<Longrightarrow> out_ok out'"
proof (induction syms lx "(pc, cm, out)" arbitrary: pc cm out rule: pass2.induct)
  case (1 syms lx0)
  note unfold = 1(5) [unfolded pass2.simps [of syms lx0], unfolded Let_def]
  show ?case
  proof (cases "al_kind (lex_next lx0) = T_EOF \<or> al_kind (lex_next lx0) = T_NEWLINE \<or> at_label (lex_next lx0) \<or>
      al_kind (lex_next lx0) = T_COLON")
    case True
    then show ?thesis using unfold 1(1-3,6) flush_ok by (auto split: if_splits)
  next
    case False
    then obtain pc' cm' o' lx' where l: "pass2_line syms (pc, cm, out) (lex_next lx0) = Some (Inr ((pc', cm', o'), lx'))"
        "pass2 syms (skip_eol lx') (pc', cm', o') = Some (Inr out')"
      using unfold by (auto split: option.splits sum.splits)
    show ?thesis using 1(4) [OF refl _ _ _ _ l(1) refl refl l(2) pass2_line_ok [OF l(1) 1(6)]] False by simp
  qed
qed

lemma pass1_bound: "length syms \<le> BRAD_ASM_MAX_SYMBOLS \<Longrightarrow> length (pass1 lx pc cm syms) \<le> BRAD_ASM_MAX_SYMBOLS"
proof (induction lx pc cm syms rule: pass1.induct)
  case (1 lx0 pc cm syms)
  obtain lx' pc' cm' syms' where l: "pass1_line (lex_next lx0) pc cm syms = (lx', pc', cm', syms')"
    by (cases "pass1_line (lex_next lx0) pc cm syms") auto
  have "length syms' \<le> BRAD_ASM_MAX_SYMBOLS"
    using l 1(3) by (auto simp: pass1_line_def add_symbol_def Let_def split: if_splits token_kind.splits)
  then show ?case
    using 1(1) [OF refl _ _ 1(3)] 1(2) [OF refl _ _ l [symmetric]] 1(3) l
    by (subst pass1.simps) (auto simp: Let_def)
qed

text \<open>C31: What a successful assembly returns fits the output: at most 65536 words and 1024 symbols, and a half-filled
  word is always completed by a \<open>C.NOP\<close> within the array.\<close>

theorem as_output_bounds:
  assumes "brad_as_assemble source = Some (Inr res)"
  shows "length (ao_code res) \<le> BRAD_ASM_MAX_OUTPUT \<and> length (ao_symbols res) \<le> BRAD_ASM_MAX_SYMBOLS"
proof -
  obtain out where p: "pass2 (pass1 (lex_init source) 0 False []) (lex_init source)
        (0, False, \<lparr> o_code = [], o_half = None, o_entry = 0 \<rparr>) = Some (Inr out)"
      "res = \<lparr> ao_code = o_code out, ao_entry = o_entry out, ao_symbols = pass1 (lex_init source) 0 False [] \<rparr>"
    using assms by (auto simp: brad_as_assemble_def Let_def split: option.splits sum.splits)
  have "out_ok out" by (rule pass2_ok [OF p(1)]) (simp add: out_ok_def BRAD_ASM_MAX_OUTPUT_def)
  then show ?thesis using p(2) pass1_bound [of "[]"] by (simp add: out_ok_def BRAD_ASM_MAX_SYMBOLS_def)
qed

section \<open>The two passes\<close>

definition ends :: "as_lexer \<Rightarrow> bool" where
  "ends lx \<longleftrightarrow> al_kind lx = T_NEWLINE \<or> al_kind lx = T_EOF"

lemma skip_eol_ends: "ends lx \<Longrightarrow> skip_eol lx = lx"
  by (simp add: ends_def skip_eol.simps)

lemma skip_eol_next: "\<not> ends lx \<Longrightarrow> skip_eol (lex_next lx) = skip_eol lx"
  by (simp add: ends_def skip_eol.simps [of lx])

lemma ends_skip_eol: "ends (skip_eol lx)"
proof (induction lx rule: skip_eol.induct)
  case (1 lx)
  then show ?case by (cases "ends lx") (auto simp: skip_eol_ends skip_eol_next [symmetric] ends_def)
qed

text \<open>Parsers that stay on the line.\<close>

definition on_line :: "'a parser \<Rightarrow> bool" where
  "on_line f \<longleftrightarrow> (\<forall>lx a lx'. f lx = Some (Inr (a, lx')) \<longrightarrow> skip_eol lx' = skip_eol lx)"

named_theorems on_line

lemma on_line_bind [on_line]: "on_line f \<Longrightarrow> (\<And>a. on_line (g a)) \<Longrightarrow> on_line (p_bind f g)"
  unfolding on_line_def p_bind_Inr by metis

lemma on_line_basic [on_line]:
  "on_line (p_return x)" "on_line p_fail" "on_line p_kind" "on_line (c_int v)" "on_line p_undefined"
  "on_line (\<lambda>lx. Some (Inl (e lx)))" "on_line (p_range opc lo hi v)" "on_line p_comma" "on_line (p_skip [T_PLUS, T_COMMA])"
  "on_line (p_skip [T_RBRACK])"
  by (auto simp: on_line_def p_return_def p_fail_def p_kind_def c_int_def p_undefined_def p_range_def p_skip_def
      skip_eol_next ends_def split: if_splits)

lemma eval_expr_line: "eval_expr syms pc lx = Some (v, lx') \<Longrightarrow> skip_eol lx' = skip_eol lx"
  by (auto simp: eval_expr_def Let_def skip_eol_next ends_def split: option.splits if_splits)

lemma on_line_expr [on_line]: "on_line (p_expr syms pc)" "on_line (p_value syms pc f)" "on_line parse_reg"
  by (auto simp: on_line_def p_expr_def p_value_def p_fail_def p_undefined_def parse_reg_def Let_def skip_eol_next ends_def
      split: option.splits if_splits dest: eval_expr_line)

lemma on_line_next:
  assumes "\<not> ends lx" "p_bind p_next g lx = Some (Inr (a, lx'))" "\<And>u. on_line (g u)"
  shows "skip_eol lx' = skip_eol lx"
  using assms skip_eol_next [OF assms(1)] by (auto simp: p_bind_Inr p_next_def on_line_def)

lemma on_line_operands [on_line]:
  "on_line p_rrr" "on_line (p_rri syms pc)" "on_line (p_distance w pc t)" "on_line (p_mem syms pc)"
proof -
  show "on_line p_rrr" unfolding p_rrr_def by (intro on_line)
  show "on_line (p_rri syms pc)" unfolding p_rri_def by (intro on_line)
  show "on_line (p_distance w pc t)"
    unfolding p_distance_def by (intro on_line) (auto intro!: on_line)
  have br: "on_line (p_bind p_kind (\<lambda>k. if k = T_LBRACK then p_bind p_next g else h))"
    if "\<And>u. on_line (g u)" "on_line h" for g :: "unit \<Rightarrow> 'x parser" and h
  proof -
    have "skip_eol lx' = skip_eol lx" if a: "al_kind lx = T_LBRACK" "p_bind p_next g lx = Some (Inr (a, lx'))" for lx a lx'
      by (rule on_line_next [OF _ a(2)]) (use a(1) \<open>\<And>u. on_line (g u)\<close> in \<open>simp_all add: ends_def\<close>)
    then show ?thesis using that(2) by (auto simp: on_line_def p_bind_Inr p_kind_def split: if_splits)
  qed
  show "on_line (p_mem syms pc)" unfolding p_mem_def by (intro on_line_bind br) (intro on_line)+
qed

lemma on_line_cop [on_line]: "on_line (p_cbranch syms pc c r)" "on_line (p_cop syms pc c)"
proof -
  show br: "on_line (p_cbranch syms pc c r)" for c r unfolding p_cbranch_def by (intro on_line)
  show "on_line (p_cop syms pc c)"
    unfolding p_cop_def by (cases c) (auto intro!: on_line br split: prod.split)
qed

lemma on_line_op [on_line]: "on_line (p_branch syms pc cm c enc r)" "on_line (p_op syms pc cm opc)"
proof -
  have br: "on_line (p_branch syms pc cm c enc r)" for cm c enc r
    unfolding p_branch_def by (cases cm) (simp_all, (intro on_line)+)
  show "on_line (p_branch syms pc cm c enc r)" by (rule br)
  show "on_line (p_op syms pc cm opc)"
    unfolding p_op_def by (cases opc; cases cm) (auto intro!: on_line br split: prod.split)
qed

lemma on_line_insn [on_line]: "on_line (p_instruction syms pc cm k)" "on_line (emit e st)"
proof -
  show "on_line (p_instruction syms pc cm k)" unfolding p_instruction_def by (cases k) (auto intro: on_line)
  show "on_line (emit e st)"
    by (auto simp: emit_def intro!: on_line split: prod.split emitted.split option.split)
qed

text \<open>The size of what an instruction assembles to depends on the mode only.\<close>

lemma yields_half [intro]: "yields (\<lambda>e. \<exists>h. e = Half h) (p_return (Half h))" "yields (\<lambda>e. \<exists>w. e = Word w) (p_return (Word w))"
  "yields P (\<lambda>lx. Some (Inl (err lx)))"
  by (auto simp: yields_def p_return_def)

lemma cop_size: "yields (\<lambda>e. \<exists>h. e = Half h) (p_cop syms pc c)"
  unfolding p_cop_def p_cbranch_def by (cases c) (auto intro!: yields_bind split: prod.split)

lemma op_size:
  "yields (\<lambda>e. \<exists>h. e = Half h) (p_op syms pc True opc)" "yields (\<lambda>e. \<exists>w. e = Word w) (p_op syms pc False opc)"
  unfolding p_op_def p_branch_def by (cases opc; auto intro!: yields_bind split: prod.split)+

lemma emit_size:
  assumes "emit e (pc, cm, out) lx = Some (Inr ((pc', cm', out'), lx'))"
  shows "pc' = pc + (case e of Half h \<Rightarrow> 2 | Word w \<Rightarrow> 4) \<and> cm' = cm \<and> lx' = lx"
  using assms by (auto simp: emit_def p_return_def p_fail_def split: emitted.splits option.splits)

text \<open>
  Directives that the first pass leaves before the end of their line are followed by nothing else, and their operands are
  of the kind they expect.
\<close>

definition tidy_line :: "as_lexer \<Rightarrow> bool" where
  "tidy_line lx \<longleftrightarrow> (case al_kind lx of
     T_DIR_ORG \<Rightarrow> al_kind (lex_next lx) = T_NUM \<and> ends (lex_next (lex_next lx))
   | T_DIR_ENTRY \<Rightarrow> al_kind (lex_next lx) \<in> {T_NUM, T_ID} \<and> ends (lex_next (lex_next lx))
   | T_DIR_COMPRESS \<Rightarrow> ends (lex_next lx)
   | T_DIR_NOCOMPRESS \<Rightarrow> ends (lex_next lx)
   | _ \<Rightarrow> True)"

lemma p_kind_bind: "p_bind p_kind g lx = g (al_kind lx) lx"
  by (simp add: p_bind_def p_kind_def)

lemma instruction_line:
  assumes "p_bind p_next (\<lambda>_. p_bind (p_instruction syms pc cm k) (\<lambda>e. emit e (pc, cm, out))) lx
      = Some (Inr ((pc', cm', out'), lx'))" "\<not> ends lx"
  shows "pc' = pc + (case k of T_OP_C c \<Rightarrow> 2 | _ \<Rightarrow> if cm then 2 else 4) \<and> cm' = cm \<and> skip_eol lx' = skip_eol lx"
proof -
  obtain e lx1 where e: "p_instruction syms pc cm k (lex_next lx) = Some (Inr (e, lx1))"
      "emit e (pc, cm, out) lx1 = Some (Inr ((pc', cm', out'), lx'))"
    using assms(1) by (auto simp: p_bind_Inr p_next_def)
  have sz: "(case e of Half h \<Rightarrow> 2 | Word w \<Rightarrow> 4) = (case k of T_OP_C c \<Rightarrow> 2 | _ \<Rightarrow> if cm then 2 else (4 :: u32))"
    using e(1) cop_size [of syms pc] op_size [of syms pc]
    by (cases k; cases cm) (fastforce simp: p_instruction_def p_fail_def yields_def)+
  have "skip_eol lx1 = skip_eol (lex_next lx)" using on_line_insn(1) e(1) unfolding on_line_def by blast
  then show ?thesis using emit_size [OF e(2)] sz skip_eol_next [OF assms(2)] by simp
qed

lemma lines_agree:
  assumes "pass2_line syms (pc, cm, out) lx = Some (Inr ((pc', cm', out'), lx'))"
    and "\<not> ends lx" "\<not> at_label lx" "al_kind lx \<noteq> T_COLON" "tidy_line lx"
  shows "\<exists>lx1. pass1_line lx pc cm s = (lx1, pc', cm', s) \<and> (lx1 = skip_eol lx' \<or> ends (lex_next lx1) \<and> lex_next lx1 = skip_eol lx')"
proof -
  note line = skip_eol_next [OF assms(2)]
  have val: "skip_eol l' = skip_eol l" if "p_value syms pc f l = Some (Inr (a, l'))" for f a l l'
    using on_line_expr(2) that unfolding on_line_def by blast
  show ?thesis
  proof (cases "al_kind lx")
    case T_DIR_ORG
    then have "al_kind (lex_next lx) = T_NUM" "ends (lex_next (lex_next lx))" using assms(5) by (auto simp: tidy_line_def)
    then show ?thesis using assms(1,3) T_DIR_ORG
      by (auto simp: pass2_line_def p_bind_Inr p_kind_def p_next_def pass1_line_def skip_eol_ends)
  next
    case T_DIR_ENTRY
    then have op: "al_kind (lex_next lx) \<in> {T_NUM, T_ID}" "ends (lex_next (lex_next lx))" using assms(5) by (auto simp: tidy_line_def)
    then have v: "p_value syms pc (\<lambda>v. (pc, cm, out\<lparr> o_entry := of_int v \<rparr>)) (lex_next lx) = Some (Inr ((pc', cm', out'), lx'))"
      using assms(1) T_DIR_ENTRY by (auto simp: pass2_line_def p_bind_Inr p_kind_def p_next_def)
    have "skip_eol lx' = skip_eol (lex_next lx)" by (rule val [OF v])
    also have "\<dots> = skip_eol (lex_next (lex_next lx))" using op(1) by (intro skip_eol_next [symmetric]) (auto simp: ends_def)
    also have "\<dots> = lex_next (lex_next lx)" by (rule skip_eol_ends [OF op(2)])
    finally have "skip_eol lx' = lex_next (lex_next lx)" .
    moreover have "pc' = pc" "cm' = cm" using v by (auto simp: p_value_def p_undefined_def split: option.splits)
    ultimately show ?thesis using T_DIR_ENTRY assms(3) op(2) by (auto simp: pass1_line_def)
  next
    case T_DIR_COMPRESS
    then show ?thesis using assms(1,3,5) line skip_eol_ends [of "lex_next lx"]
      by (auto simp: pass2_line_def p_bind_Inr p_kind_def p_return_def pass1_line_def tidy_line_def)
  next
    case T_DIR_NOCOMPRESS
    then show ?thesis using assms(1,3,5) line skip_eol_ends [of "lex_next lx"]
      by (auto simp: pass2_line_def p_bind_Inr p_kind_def p_return_def pass1_line_def tidy_line_def)
  next
    case T_DIR_WORD
    then have v: "p_value syms pc (\<lambda>v. (pc + 4, cm, emit_word (of_int v) out)) (lex_next lx) = Some (Inr ((pc', cm', out'), lx'))"
      using assms(1) by (auto simp: pass2_line_def p_bind_Inr p_kind_def p_next_def)
    have "pc' = pc + 4" "cm' = cm" using v by (auto simp: p_value_def p_undefined_def split: option.splits)
    then show ?thesis using val [OF v] T_DIR_WORD assms(3) by (auto simp: pass1_line_def)
  next
    case T_DIR_BYTE
    then have v: "p_value syms pc (\<lambda>v. (pc + 1, cm, emit_word (of_int v AND 0xFF) out)) (lex_next lx) = Some (Inr ((pc', cm', out'), lx'))"
      using assms(1) by (auto simp: pass2_line_def p_bind_Inr p_kind_def p_next_def)
    have "pc' = pc + 1" "cm' = cm" using v by (auto simp: p_value_def p_undefined_def split: option.splits)
    then show ?thesis using val [OF v] T_DIR_BYTE assms(3) by (auto simp: pass1_line_def)
  next
    case T_DIR_HALF
    then have v: "p_value syms pc (\<lambda>v. (pc + 2, cm, case emit_half (of_int v) out of None \<Rightarrow> out | Some out' \<Rightarrow> out')) (lex_next lx)
        = Some (Inr ((pc', cm', out'), lx'))"
      using assms(1) by (auto simp: pass2_line_def p_bind_Inr p_kind_def p_next_def)
    have "pc' = pc + 2" "cm' = cm" using v by (auto simp: p_value_def p_undefined_def split: option.splits)
    then show ?thesis using val [OF v] T_DIR_HALF assms(3) by (auto simp: pass1_line_def)
  qed (use assms(1-4) instruction_line [of syms pc cm "al_kind lx" out lx pc' cm' out' lx'] in
    \<open>auto simp: pass2_line_def p_kind_bind pass1_line_def ends_def\<close>)
qed

text \<open>The positions the second pass visits, with its state there.\<close>

function visits :: "brad_as_symbol list \<Rightarrow> as_lexer \<Rightarrow> as_state \<Rightarrow> (as_lexer \<times> as_state) list" where
  "visits syms lx0 st =
    (let lx = lex_next lx0 in
     if al_kind lx = T_EOF then []
     else if al_kind lx = T_NEWLINE then visits syms lx st
     else (lx, st) #
       (if at_label lx then visits syms (lex_next (lex_next lx)) st
        else if al_kind lx = T_COLON then visits syms (lex_next lx) st
        else case pass2_line syms st lx of
          Some (Inr (st', lx')) \<Rightarrow> visits syms (skip_eol lx') st'
        | _ \<Rightarrow> []))"
  by pat_completeness auto
termination
proof (relation "measure (\<lambda>(syms, lx, st). length (al_p lx))"; clarsimp)
  fix syms lx0 st st' lx'
  assume ne: "al_kind (lex_next lx0) \<noteq> T_EOF" and l: "pass2_line syms st (lex_next lx0) = Some (Inr (st', lx'))"
  have "length (al_p lx') \<le> length (al_p (lex_next lx0))"
    using forward_pass2_line [of syms st] l unfolding forward_def by blast
  then show "length (al_p (skip_eol lx')) < length (al_p lx0)"
    using lex_next_progress [OF ne] skip_eol_le [of lx'] by simp
next
  fix lx0 :: as_lexer
  show "length (al_p (lex_next (lex_next (lex_next lx0)))) < length (al_p lx0)" if "al_kind (lex_next lx0) \<noteq> T_EOF"
    using lex_next_less2 [OF that] lex_next_le [of "lex_next (lex_next lx0)"] by simp
  show "length (al_p (lex_next (lex_next lx0))) < length (al_p lx0)" if "al_kind (lex_next lx0) = T_COLON"
    using that by (intro lex_next_less2) simp
  show "length (al_p (lex_next lx0)) < length (al_p lx0)" if "al_kind (lex_next lx0) = T_NEWLINE"
    using that by (intro lex_next_progress) simp
qed

declare visits.simps [simp del]

definition labels :: "(as_lexer \<times> as_state) list \<Rightarrow> (string \<times> u32) list" where
  "labels vs = [(al_text lx, fst st). (lx, st) \<leftarrow> vs, at_label lx]"

definition add_labels :: "(string \<times> u32) list \<Rightarrow> brad_as_symbol list \<Rightarrow> brad_as_symbol list" where
  "add_labels ls s = fold (\<lambda>(n, a). add_symbol n a) ls s"

lemma lex_next_eof: "al_kind (lex_next lx) = T_EOF \<Longrightarrow> al_kind (lex_next (lex_next lx)) = T_EOF"
proof -
  assume eof: "al_kind (lex_next lx) = T_EOF"
  let ?p = "dropWhile is_ws (al_p lx)"
  have k: "directive_kind s \<noteq> T_EOF" for s by (simp add: directive_kind_def)
  have w: "word_kind s \<noteq> T_EOF" for s
    unfolding word_kind_def by (auto simp: op_table_def split: option.split)
  have pk: "punct_kind c \<noteq> Some T_EOF" for c by (auto simp: punct_kind_def)
  have p: "al_p (lex_next lx) = ?p"
    using eof k w pk
    by (auto simp: lex_next_def Let_def tok_def zero_token_def lex_comment_def lex_directive_def lex_number_def
        lex_name_def lex_skip_ws_def split: option.splits if_splits)
  have "dropWhile is_ws ?p = ?p" by simp
  then show ?thesis
    using eof k w pk unfolding lex_next_def [of "lex_next lx"] lex_skip_ws_def p Let_def
    by (auto simp: lex_next_def Let_def tok_def zero_token_def lex_comment_def lex_directive_def lex_number_def
        lex_name_def lex_skip_ws_def split: option.splits if_splits)
qed

lemma pass1_at_end:
  assumes "ends (lex_next lx)"
  shows "pass1 lx pc cm s = pass1 (lex_next lx) pc cm s"
proof (cases "al_kind (lex_next lx) = T_EOF")
  case True
  then show ?thesis using lex_next_eof [OF True] by (simp add: pass1.simps [of lx] pass1.simps [of "lex_next lx"] Let_def)
next
  case False
  then show ?thesis using assms by (simp add: pass1.simps [of lx] Let_def ends_def)
qed

lemma passes_agree:
  assumes "pass2 syms lx0 (pc, cm, out) = Some (Inr res)"
    and "\<forall>(lx, st) \<in> set (visits syms lx0 (pc, cm, out)). at_label lx \<or> tidy_line lx"
  shows "pass1 lx0 pc cm s = add_labels (labels (visits syms lx0 (pc, cm, out))) s"
  using assms
proof (induction syms lx0 "(pc, cm, out)" arbitrary: pc cm out s rule: pass2.induct)
  case (1 syms lx0)
  let ?lx = "lex_next lx0"
  note p2 = 1(5) [unfolded pass2.simps [of syms lx0], unfolded Let_def]
    and vs = visits.simps [of syms lx0 "(pc, cm, out)", unfolded Let_def]
    and p1 = pass1.simps [of lx0, unfolded Let_def]
  show ?case
  proof (cases "ends ?lx")
    case True
    then show ?thesis using p2 vs p1 1(1,6) by (auto simp: ends_def labels_def add_labels_def split: if_splits)
  next
    case ne: False
    then have k: "al_kind ?lx \<noteq> T_EOF" "al_kind ?lx \<noteq> T_NEWLINE" by (simp_all add: ends_def)
    consider (label) "at_label ?lx" | (colon) "\<not> at_label ?lx" "al_kind ?lx = T_COLON"
      | (line) "\<not> at_label ?lx" "al_kind ?lx \<noteq> T_COLON" by blast
    then show ?thesis
    proof cases
      case label
      have "pass1 lx0 pc cm s = pass1 (lex_next (lex_next ?lx)) pc cm (add_symbol (al_text ?lx) pc s)"
        using p1 k label by (simp add: pass1_line_def)
      also have "\<dots> = add_labels (labels (visits syms (lex_next (lex_next ?lx)) (pc, cm, out))) (add_symbol (al_text ?lx) pc s)"
        by (rule 1(2) [OF refl k label]) (use p2 vs k label 1(6) in auto)
      finally show ?thesis using vs k label by (simp add: labels_def add_labels_def)
    next
      case colon
      have "pass1 lx0 pc cm s = pass1 (lex_next ?lx) pc cm s"
        using p1 k colon by (simp add: pass1_line_def)
      also have "\<dots> = add_labels (labels (visits syms (lex_next ?lx) (pc, cm, out))) s"
        by (rule 1(3) [OF refl k colon]) (use p2 vs k colon 1(6) in auto)
      finally show ?thesis using vs k colon by (simp add: labels_def add_labels_def)
    next
      case line
      then obtain pc' cm' o' lx' where l: "pass2_line syms (pc, cm, out) ?lx = Some (Inr ((pc', cm', o'), lx'))"
          "pass2 syms (skip_eol lx') (pc', cm', o') = Some (Inr res)"
        using p2 k by (auto split: option.splits sum.splits)
      have tidy: "tidy_line ?lx" using vs k line 1(6) by simp
      obtain lx1 where lx1: "pass1_line ?lx pc cm s = (lx1, pc', cm', s)"
          "lx1 = skip_eol lx' \<or> ends (lex_next lx1) \<and> lex_next lx1 = skip_eol lx'"
        using lines_agree [OF l(1) ne line tidy] by blast
      have "pass1 lx0 pc cm s = pass1 lx1 pc' cm' s" using p1 k lx1(1) by simp
      also have "\<dots> = pass1 (skip_eol lx') pc' cm' s" using lx1(2) pass1_at_end [of lx1] by auto
      also have "\<dots> = add_labels (labels (visits syms (skip_eol lx') (pc', cm', o'))) s"
        by (rule 1(4) [OF refl k line l(1) refl refl l(2)]) (use vs k line l(1) 1(6) in auto)
      finally show ?thesis using vs k line l(1) by (simp add: labels_def)
    qed
  qed
qed

text \<open>C14: The two passes place labels alike. When a source assembles and its directives are tidy, the symbol table the
  first pass has built is the table of the labels the second pass meets, in their order, each with the
  program counter the second pass has there (up to 1024 symbols).
\<close>

theorem as_passes_agree:
  assumes "brad_as_assemble source = Some (Inr res)"
    and "vs = visits (ao_symbols res) (lex_init source) (0, False, \<lparr> o_code = [], o_half = None, o_entry = 0 \<rparr>)"
    and "\<forall>(lx, st) \<in> set vs. at_label lx \<or> tidy_line lx"
  shows "ao_symbols res = add_labels (labels vs) []"
proof -
  let ?syms = "pass1 (lex_init source) 0 False []" and ?out = "\<lparr> o_code = [], o_half = None, o_entry = 0 \<rparr>"
  obtain out where p: "pass2 ?syms (lex_init source) (0, False, ?out) = Some (Inr out)" "ao_symbols res = ?syms"
    using assms(1) by (auto simp: brad_as_assemble_def Let_def split: option.splits sum.splits)
  then show ?thesis using passes_agree [OF p(1), of "[]"] assms(2,3) by simp
qed

end
