(* ===== verification/BradasmText.thy ===== *)
theory BradasmText
  imports BradasmProps
begin

text \<open>
  The text of the disassembler of the core emulator and the assembler: instructions other than branches assemble back to
  the words they were printed from.
\<close>

section \<open>Decimal numbers\<close>

lemma chr_code_of [simp]: "n < 256 \<Longrightarrow> chr_code (char_of n) = n"
  by (simp add: chr_code_def)

lemma digit_chr: "n < 10 \<Longrightarrow> isdigit (char_of (48 + n))" "n < 10 \<Longrightarrow> digit_value (char_of (48 + n)) = int n"
  by (simp_all add: isdigit_def digit_value_def)

lemma show_nat_digits: "c \<in> set (show_nat n) \<Longrightarrow> isdigit c"
proof (induction n rule: show_nat.induct)
  case (1 n)
  then show ?case by (subst (asm) show_nat.simps) (auto split: if_splits simp: digit_chr)
qed

lemma show_nat_not_Nil [simp]: "show_nat n \<noteq> []"
  by (subst show_nat.simps) simp

lemma show_nat_value: "foldl (\<lambda>acc c. acc * 10 + digit_value c) 0 (show_nat n) = int n"
proof (induction n rule: show_nat.induct)
  case (1 n)
  have "int (n div 10) * 10 + int (n mod 10) = int n" by (metis div_mult_mod_eq of_nat_add of_nat_mult of_nat_numeral)
  then show ?case using 1 by (subst show_nat.simps) (auto simp: digit_chr)
qed

lemma show_nat_length: "n < 10 ^ k \<Longrightarrow> 0 < k \<Longrightarrow> length (show_nat n) \<le> k"
proof (induction n arbitrary: k rule: show_nat.induct)
  case (1 n)
  show ?case
  proof (cases "n < 10")
    case True
    then show ?thesis using 1(3) by (subst show_nat.simps) simp
  next
    case False
    then obtain j where k: "k = Suc j" "0 < j" using 1(2,3) by (cases k; cases "k - 1") auto
    then have "n div 10 < 10 ^ j" using 1(2) by (simp add: less_mult_imp_div_less mult.commute)
    then show ?thesis using 1(1) [OF False] k False by (subst show_nat.simps) simp
  qed
qed

lemma show_nat_head: "0 < n \<Longrightarrow> hd (show_nat n) \<noteq> CHR ''0''"
proof (induction n rule: show_nat.induct)
  case (1 n)
  have "char_of (48 + n) \<noteq> CHR ''0''" if "n < 10"
  proof
    assume "char_of (48 + n) = CHR ''0''"
    then have "chr_code (char_of (48 + n)) = 48" by (simp add: chr_code_def)
    then show False using that 1(2) by simp
  qed
  then show ?case using 1 by (subst show_nat.simps) (auto simp: hd_append)
qed

lemma strtol_show_nat:
  assumes "n < 2 ^ 31" "b = 0 \<or> b = 10"
  shows "fst (strtol (show_nat n) b) = int n"
proof (cases "n = 0")
  case True
  have "show_nat 0 = ''0''" by (subst show_nat.simps) code_simp
  then show ?thesis using True assms(2)
    by (auto simp: strtol_def strtol_base_def Let_def peek_chr_def isspace_def digit_value_def isdigit_def chr_code_def
        clamp_long_def nul_def)
next
  case False
  obtain c q where s: "show_nat n = c # q" by (cases "show_nat n") simp_all
  have c: "isdigit c" using show_nat_digits [of c n] s by simp
  have c0: "c \<noteq> CHR ''0''" using show_nat_head [of n] s False by simp
  have sp: "dropWhile isspace (show_nat n) = show_nat n" using s isdigit_not_space [OF c] by simp
  have pk: "peek_chr (show_nat n) = c" by (simp add: s peek_chr_def)
  have pm: "c \<noteq> CHR ''-''" "c \<noteq> CHR ''+''" using c by (auto simp: isdigit_def chr_code_def)
  have base: "strtol_base b (show_nat n) = (10, show_nat n)" using assms(2) pk c0 by (auto simp: strtol_base_def)
  have ds: "takeWhile (\<lambda>c. digit_value c < 10) (show_nat n) = show_nat n"
    using show_nat_digits digit_value_isdigit by (auto simp: takeWhile_eq_all_conv)
  show ?thesis unfolding strtol_def sp Let_def pk using assms(1)
    by (simp add: pm base ds show_nat_value clamp_long_def)
qed

lemma number_chars_digits:
  assumes "\<forall>c \<in> set ds. isdigit c" "\<not> isdigit (peek_chr p)" "peek_chr p \<noteq> CHR ''.''"
  shows "number_chars (ds @ p) = ds"
  using assms
proof (induction ds)
  case Nil
  then show ?case by (cases p) (auto simp: peek_chr_def)
next
  case (Cons c ds)
  have "\<not> isdigit (CHR ''.'')" by (simp add: isdigit_def chr_code_def)
  then show ?case using Cons by (auto)
qed

section \<open>Tokens of the text\<close>

lemma peek_chr_simps [simp]: "peek_chr (c # s) = c" "peek_chr [] = nul"
  by (simp_all add: peek_chr_def)

definition here :: "string \<Rightarrow> nat \<Rightarrow> token \<Rightarrow> as_lexer" where
  "here p n t = \<lparr> al_p = p, al_line = n, al_tok = t \<rparr>"

lemma here_simps [simp]: "al_p (here p n t) = p" "al_line (here p n t) = n" "al_tok (here p n t) = t"
  "(here p n t)\<lparr> al_p := p' \<rparr> = here p' n t" "(here p n t)\<lparr> al_tok := t' \<rparr> = here p n t'"
  "(here p n t)\<lparr> al_line := n' \<rparr> = here p n' t"
  by (simp_all add: here_def)

lemma tok_simps [simp]: "tk_kind (tok k) = k" "tk_text (tok k) = []"
  by (simp_all add: tok_def zero_token_def)

definition num_token :: "nat \<Rightarrow> token" where
  "num_token v = (tok T_NUM)\<lparr> tk_ival := int v \<rparr>"

definition name_token :: "string \<Rightarrow> token" where
  "name_token s = (tok (word_kind s))\<lparr> tk_text := s \<rparr>"

lemma lex_space: "lex_next (here (CHR '' '' # p) n t) = lex_next (here p n t)"
  by (simp add: lex_next_def lex_skip_ws_def is_ws_def)

lemma not_ws: "\<not> is_ws c \<Longrightarrow> lex_skip_ws (here (c # p) n t) = here (c # p) n t"
  by (simp add: lex_skip_ws_def)

lemma lex_punct: 
  "lex_next (here (CHR '','' # p) n t) = here p n (tok T_COMMA)"
  "lex_next (here (CHR ''['' # p) n t) = here p n (tok T_LBRACK)"
  "lex_next (here (CHR '']'' # p) n t) = here p n (tok T_RBRACK)"
  "lex_next (here (CHR ''+'' # p) n t) = here p n (tok T_PLUS)"
  "lex_next (here (CHR ''-'' # p) n t) = here p n (tok T_MINUS)"
  "lex_next (here (CHR 0x0A # p) n t) = here p (Suc n) (tok T_NEWLINE)"
  "lex_next (here [] n t) = here [] n (tok T_EOF)"
  by (simp_all add: lex_next_def lex_skip_ws_def is_ws_def chr_code_def peek_chr_def nul_def is_nl_def punct_kind_def)

text \<open>Letters and digits are none of the characters that \<open>lex_next\<close> tests before.\<close>

lemma punct_kind_char: "c \<notin> set '':,[]+-'' \<Longrightarrow> punct_kind c = None"
  by (simp add: punct_kind_def)

lemma alnum_codes:
  assumes "isalpha c \<or> isdigit c"
  shows "c \<noteq> nul \<and> \<not> is_nl c \<and> c \<noteq> CHR '';'' \<and> punct_kind c = None \<and> c \<noteq> CHR ''.'' \<and> \<not> is_ws c"
proof -
  have no: "\<not> (isalpha d \<or> isdigit d)" if "d \<in> set (nul # ''; .:,[]+-'')" for d
    using that by (simp, elim disjE; simp add: isalpha_def isdigit_def chr_code_def nul_def)
  have ws: "\<not> (chr_code c = 9 \<or> chr_code c = 10)" using assms by (auto simp: isalpha_def isdigit_def)
  have "c \<notin> set (nul # ''; .:,[]+-'')" using no [of c] assms by blast
  then show ?thesis using ws punct_kind_char [of c] by (auto simp: is_nl_def is_ws_def)
qed

lemma alpha_not_digit: "isalpha c \<Longrightarrow> \<not> isdigit c"
  by (auto simp: isalpha_def isdigit_def)

lemma lex_name_token:
  assumes "isalpha c" "\<forall>d \<in> set s. name_chr d" "length s < 63" "\<not> name_chr (peek_chr p)"
  shows "lex_next (here (c # s @ p) n t) = here p n (name_token (c # s))"
proof -
  have tw: "takeWhile name_chr p = []" using assms(4) by (cases p) simp_all
  have "name_chr c" using assms(1) by (simp add: name_chr_def isalnum_def)
  then have "takeWhile name_chr ((c # s) @ p) = (c # s) @ takeWhile name_chr p"
    using assms(2) by (intro takeWhile_append2) auto
  then have "lex_name (here (c # s @ p) n t) = here p n (name_token (c # s))"
    using tw assms(3) by (simp add: lex_name_def name_token_def Let_def)
  moreover have "lex_next (here (c # s @ p) n t) = lex_name (here (c # s @ p) n t)"
    using alnum_codes [of c] alpha_not_digit [OF assms(1)] assms(1) not_ws [of c "s @ p" n t]
    by (simp add: lex_next_def)
  ultimately show ?thesis by simp
qed

lemma lex_number_token:
  assumes "v < 2 ^ 31" "\<not> isdigit (peek_chr p)" "peek_chr p \<noteq> CHR ''.''"
  shows "lex_next (here (show_nat v @ p) n t) = here p n (num_token v)"
proof -
  obtain c q where s: "show_nat v = c # q" by (cases "show_nat v") simp_all
  have c: "isdigit c" using show_nat_digits [of c v] s by simp
  have nc: "number_chars (show_nat v @ p) = show_nat v"
    using number_chars_digits [OF _ assms(2,3)] show_nat_digits by blast
  have "v < 10 ^ 31" using assms(1) by (rule less_trans) simp
  then have len: "length (show_nat v) \<le> 31" by (rule show_nat_length) simp
  have "as_int (int v) = int v" using assms(1)
    by (simp add: as_int_def signed_of_nat signed_take_bit_int_eq_self)
  then have "lex_number (here (show_nat v @ p) n t) = here p n (num_token v)"
    using nc len strtol_show_nat [OF assms(1), of 0] by (simp add: lex_number_def Let_def num_token_def)
  then show ?thesis using alnum_codes [of c] c s not_ws [of c "q @ p" n t] by (simp add: lex_next_def)
qed

section \<open>Operands\<close>

lemma stops [simp]: "\<not> name_chr (CHR '','')" "\<not> name_chr (CHR '' '')" "\<not> name_chr (CHR 0x0A)" "\<not> name_chr (CHR '']'')"
  "\<not> isdigit (CHR '']'')" "\<not> isdigit (CHR 0x0A)"
  by (simp_all add: name_chr_def isalnum_def isalpha_def isdigit_def chr_code_def)

lemma lex_reg:
  assumes "r < 16" "\<not> name_chr (peek_chr p)"
  shows "lex_next (here (reg_text r @ p) n t) = here p n (name_token (reg_text r))"
proof -
  have "r < 10 ^ 2" using assms(1) by simp
  then have "length (show_nat r) < 63" using show_nat_length [of r 2] by simp
  then show ?thesis unfolding reg_text_def append_Cons
    using show_nat_digits by (intro lex_name_token assms(2)) (auto simp: isalpha_def chr_code_def name_chr_def isalnum_def)
qed

lemma word_kind_reg: "word_kind (reg_text r) = T_ID"
  by (simp add: word_kind_def op_table_def reg_text_def)

lemma parse_reg_token:
  assumes "r < 16"
  shows "parse_reg (here p n (name_token (reg_text r))) = Some (Inr (r, lex_next (here p n (name_token (reg_text r)))))"
proof -
  obtain c q where s: "show_nat r = c # q" by (cases "show_nat r") simp_all
  have "isdigit c" using show_nat_digits [of c r] s by simp
  then have c: "c \<noteq> nul" using alnum_codes by blast
  have "fst (strtol (show_nat r) 10) = int r" using assms by (intro strtol_show_nat) simp_all
  then show ?thesis using assms s c word_kind_reg [of r]
    by (simp add: parse_reg_def name_token_def reg_text_def unat_of_nat)
qed

lemma p_comma_token: "p_comma (here p n (tok T_COMMA)) = Some (Inr ((), lex_next (here p n (tok T_COMMA))))"
  by (simp add: p_skip_def)

text \<open>A 16-bit immediate as the disassembler prints it.\<close>

lemma expr_text:
  assumes "\<not> isdigit (peek_chr p)" "peek_chr p \<noteq> CHR ''.''"
  shows "p_expr syms pc (lex_next (here (show_int (sint (i :: u16)) @ p) n t)) = Some (Inr (sint i, lex_next (here p n (num_token (nat \<bar>sint i\<bar>)))))"
proof -
  have rng: "- (2 ^ 15) \<le> sint i" "sint i < 2 ^ 15" using sint_greater_eq [of i] sint_less [of i] by simp_all
  then have v: "nat \<bar>sint i\<bar> < 2 ^ 31" by simp
  have num: "lex_next (here (show_nat (nat \<bar>sint i\<bar>) @ p) n t') = here p n (num_token (nat \<bar>sint i\<bar>))" for t'
    by (rule lex_number_token [OF v assms])
  show ?thesis
  proof (cases "sint i < 0")
    case True
    then have "show_int (sint i) @ p = CHR ''-'' # show_nat (nat \<bar>sint i\<bar>) @ p" by (simp add: show_int_def)
    then show ?thesis using True num rng
      by (simp add: lex_punct p_expr_def eval_expr_def num_token_def int_range_def)
  next
    case False
    then have "show_int (sint i) @ p = show_nat (nat \<bar>sint i\<bar>) @ p" by (simp add: show_int_def)
    then show ?thesis using False num rng by (simp add: p_expr_def eval_expr_def num_token_def int_range_def)
  qed
qed

lemmas operand_simps = p_bind_def p_return_def p_kind_def p_next_def lex_space lex_punct lex_reg parse_reg_token
  p_comma_token expr_text

lemma p_rrr_text:
  assumes "rd < 16" "rs1 < 16" "rs2 < 16" "\<not> name_chr (peek_chr p)"
  shows "p_rrr (lex_next (here (reg_text rd @ '', '' @ reg_text rs1 @ '', '' @ reg_text rs2 @ p) n t))
    = Some (Inr ((rd, rs1, rs2), lex_next (here p n (name_token (reg_text rs2)))))"
  using assms by (simp add: p_rrr_def operand_simps)

lemma p_rri_text:
  assumes "rd < 16" "rs1 < 16" "\<not> isdigit (peek_chr p)" "peek_chr p \<noteq> CHR ''.''"
  shows "p_rri syms pc (lex_next (here (reg_text rd @ '', '' @ reg_text rs1 @ '', '' @ show_int (sint (i :: u16)) @ p) n t))
    = Some (Inr ((rd, rs1, sint i), lex_next (here p n (num_token (nat \<bar>sint i\<bar>)))))"
  using assms by (simp add: p_rri_def operand_simps)

lemma p_mem_text:
  assumes "r < 16" "rs1 < 16"
  shows "p_mem syms pc (lex_next (here (reg_text r @ '', ['' @ reg_text rs1 @ '' + '' @ show_int (sint (i :: u16)) @ CHR '']'' # p) n t))
    = Some (Inr ((r, rs1, sint i), lex_next (here p n (tok T_RBRACK))))"
  using assms by (simp add: p_mem_def p_skip_def operand_simps)

lemmas operands_simps = p_rrr_text [simplified] p_rri_text [simplified] p_mem_text [simplified]

section \<open>Instructions\<close>

text \<open>The words that the assembler can produce from the disassembler's text: the bits no operand stands for are zero.\<close>

definition canonical :: "u32 \<Rightarrow> bool" where
  "canonical w \<longleftrightarrow> (case d_opcode (brad_isa_decode w) of
     OP_ADDI \<Rightarrow> d_rs2 (brad_isa_decode w) = 0
   | OP_LDW \<Rightarrow> d_rs2 (brad_isa_decode w) = 0
   | OP_STW \<Rightarrow> d_rd (brad_isa_decode w) = 0
   | OP_BZ \<Rightarrow> False | OP_BNZ \<Rightarrow> False | OP_JMP \<Rightarrow> False | OP_CALL \<Rightarrow> False
   | OP_RET \<Rightarrow> w = BRAD_RET_RAW
   | _ \<Rightarrow> d_imm (brad_isa_decode w) = 0)"

text \<open>A word put together from its fields.\<close>

lemma word_fields:
  "push_bit 28 (of_nat (BRAD_INSN_OPCODE w)) OR push_bit 24 (of_nat (BRAD_INSN_RD w)) OR push_bit 20 (of_nat (BRAD_INSN_RS1 w))
    OR push_bit 16 (of_nat (BRAD_INSN_RS2 w)) OR ucast (BRAD_INSN_IMM w) = w"
proof (rule bit_word_eqI)
  fix k
  assume "k < LENGTH(32)"
  then consider "k < 16" | "16 \<le> k" "k < 20" | "20 \<le> k" "k < 24" | "24 \<le> k" "k < 28" | "28 \<le> k" "k < 32"
    by (simp add: not_le [symmetric]) linarith
  then show "bit (push_bit 28 (of_nat (BRAD_INSN_OPCODE w) :: u32) OR push_bit 24 (of_nat (BRAD_INSN_RD w))
      OR push_bit 20 (of_nat (BRAD_INSN_RS1 w)) OR push_bit 16 (of_nat (BRAD_INSN_RS2 w)) OR ucast (BRAD_INSN_IMM w)) k
      \<longleftrightarrow> bit w k"
    unfolding field_defs by cases (auto simp: bit_simps)
qed

lemma sext_imm: "sext16 i AND 0xFFFF = ucast i"
  unfolding half_32
proof (rule bit_word_eqI)
  fix k
  show "bit (take_bit 16 (sext16 i)) k \<longleftrightarrow> bit (ucast i :: u32) k" if "k < LENGTH(32)"
    using that bit_imp_le_length [of i k] by (cases "k < 16") (auto simp: bit_simps min.absorb2)
qed

lemma lex_op:
  assumes "\<not> name_chr (peek_chr p)"
  shows "lex_next (here (brad_isa_opcode_name opc @ p) n t) = here p n (name_token (brad_isa_opcode_name opc))"
    and "word_kind (brad_isa_opcode_name opc) = T_OP opc"
proof -
  have "isalpha (hd (brad_isa_opcode_name opc)) \<and> brad_isa_opcode_name opc \<noteq> [] \<and>
      (\<forall>d \<in> set (tl (brad_isa_opcode_name opc)). name_chr d) \<and> length (tl (brad_isa_opcode_name opc)) < 63"
    by (cases opc) (simp_all add: brad_isa_opcode_name_def isalpha_def name_chr_def isalnum_def chr_code_def)
  then show "lex_next (here (brad_isa_opcode_name opc @ p) n t) = here p n (name_token (brad_isa_opcode_name opc))"
    using lex_name_token [OF _ _ _ assms, of "hd (brad_isa_opcode_name opc)" "tl (brad_isa_opcode_name opc)" n t]
    by (cases "brad_isa_opcode_name opc") simp_all
  show "word_kind (brad_isa_opcode_name opc) = T_OP opc"
    by (cases opc) (simp_all add: brad_isa_opcode_name_def word_kind_def op_table_def)
qed

definition operands_text :: "brad_isa_insn \<Rightarrow> string" where
  "operands_text d = (let imm = show_int (sint (d_imm d)) in
     case d_opcode d of
       OP_ADDI \<Rightarrow> '' '' @ reg_text (d_rd d) @ '', '' @ reg_text (d_rs1 d) @ '', '' @ imm
     | OP_LDW \<Rightarrow> '' '' @ reg_text (d_rd d) @ '', ['' @ reg_text (d_rs1 d) @ '' + '' @ imm @ '']''
     | OP_STW \<Rightarrow> '' '' @ reg_text (d_rs2 d) @ '', ['' @ reg_text (d_rs1 d) @ '' + '' @ imm @ '']''
     | OP_BZ \<Rightarrow> '' '' @ reg_text (d_rs1 d) @ '', '' @ imm
     | OP_BNZ \<Rightarrow> '' '' @ reg_text (d_rs1 d) @ '', '' @ imm
     | OP_JMP \<Rightarrow> '' '' @ imm
     | OP_CALL \<Rightarrow> '' '' @ imm
     | OP_RET \<Rightarrow> []
     | _ \<Rightarrow> '' '' @ reg_text (d_rd d) @ '', '' @ reg_text (d_rs1 d) @ '', '' @ reg_text (d_rs2 d))"

lemma insn_text_split: "insn_text d = brad_isa_opcode_name (d_opcode d) @ operands_text d"
  by (cases "d_opcode d") (simp_all add: insn_text_def operands_text_def Let_def)

lemma field_less [simp]: "BRAD_INSN_RD w < 16" "BRAD_INSN_RS1 w < 16" "BRAD_INSN_RS2 w < 16" "BRAD_INSN_OPCODE w < 16"
proof -
  have "unat (x AND 0xF) < 16" for x :: u32 using word_and_le1 [of x 15] by (simp add: word_le_nat_alt)
  then show "BRAD_INSN_RD w < 16" "BRAD_INSN_RS1 w < 16" "BRAD_INSN_RS2 w < 16" "BRAD_INSN_OPCODE w < 16"
    by (simp_all add: BRAD_INSN_RD_def BRAD_INSN_RS1_def BRAD_INSN_RS2_def BRAD_INSN_OPCODE_def)
qed

lemma instruction_text:
  assumes "canonical w" "d = brad_isa_decode w"
  shows "p_instruction syms pc False (T_OP (d_opcode d)) (lex_next (here (operands_text d @ CHR 0x0A # p) n t))
    = Some (Inr (Word w, here p (Suc n) (tok T_NEWLINE)))"
proof -
  define opc where "opc = d_opcode d"
  have num: "opcode_num opc = BRAD_INSN_OPCODE w" using assms(2) by (simp add: opc_def brad_isa_decode_def)
  have w: "w = push_bit 28 (of_nat (opcode_num opc)) OR push_bit 24 (of_nat (d_rd d)) OR push_bit 20 (of_nat (d_rs1 d))
      OR push_bit 16 (of_nat (d_rs2 d)) OR ucast (d_imm d)"
    using word_fields [of w] num assms(2) by (simp add: brad_isa_decode_def)
  have r: "d_rd d < 16" "d_rs1 d < 16" "d_rs2 d < 16" using assms(2) by (simp_all add: brad_isa_decode_def)
  have c: "case opc of OP_ADDI \<Rightarrow> d_rs2 d = 0 | OP_LDW \<Rightarrow> d_rs2 d = 0 | OP_STW \<Rightarrow> d_rd d = 0
     | OP_BZ \<Rightarrow> False | OP_BNZ \<Rightarrow> False | OP_JMP \<Rightarrow> False | OP_CALL \<Rightarrow> False | OP_RET \<Rightarrow> w = BRAD_RET_RAW
     | _ \<Rightarrow> d_imm d = 0"
    using assms(1) unfolding canonical_def opc_def assms(2) .
  have dot: "CHR 0x0A \<noteq> CHR ''.''" by simp
  show ?thesis
  proof (cases opc)
    case OP_ADDI
    then have "w = BRAD_RI 8 (d_rd d) (d_rs1 d) (of_int (sint (d_imm d)))" using w c by (simp add: BRAD_RI_def sext_imm)
    then show ?thesis using OP_ADDI r opc_def
      by (simp add: p_instruction_def p_op_def operands_text_def p_bind_def p_return_def lex_space operands_simps lex_punct)
  next
    case OP_LDW
    then have "w = BRAD_RI 9 (d_rd d) (d_rs1 d) (of_int (sint (d_imm d)))" using w c by (simp add: BRAD_RI_def sext_imm)
    then show ?thesis using OP_LDW r opc_def
      by (simp add: p_instruction_def p_op_def operands_text_def p_bind_def p_return_def lex_space operands_simps lex_punct)
  next
    case OP_STW
    have "(ucast (ucast (ucast (d_imm d) :: u32) :: u16) :: u32) = ucast (d_imm d)" 
      by (rule bit_word_eqI) (auto simp: bit_simps dest: bit_imp_le_length)
    then have "w = push_bit 28 (of_nat (opcode_num OP_STW)) OR push_bit 20 (of_nat (d_rs1 d)) OR push_bit 16 (of_nat (d_rs2 d))
         OR ucast (ucast (of_int (sint (d_imm d)) AND 0xFFFF :: u32) :: u16)"
      using w c OP_STW by (simp add: sext_imm)
    then show ?thesis using OP_STW r opc_def
      by (simp add: p_instruction_def p_op_def operands_text_def p_bind_def p_return_def lex_space operands_simps lex_punct)
  next
    case OP_RET
    then show ?thesis using c opc_def
      by (simp add: p_instruction_def p_op_def operands_text_def p_return_def lex_punct)
  qed (use w c r opc_def in \<open>simp_all add: p_instruction_def p_op_def operands_text_def p_bind_def p_return_def lex_space
      operands_simps lex_punct BRAD_RRR_def\<close>)
qed

lemma operands_head: "\<not> name_chr (peek_chr (operands_text d @ CHR 0x0A # p))" "peek_chr (operands_text d @ CHR 0x0A # p) \<noteq> CHR '':''"
  by (cases "d_opcode d"; simp add: operands_text_def Let_def)+

text \<open>A line of text, as both passes read it.\<close>

lemma line_text:
  assumes "canonical w" "d = brad_isa_decode w"
    and lx: "lx = lex_next (here (insn_text d @ CHR 0x0A # p) n t)"
  shows "al_kind lx = T_OP (d_opcode d)" "\<not> at_label lx"
    and "pass2_line syms (pc, False, out) lx = Some (Inr ((pc + 4, False, emit_word w out), here p (Suc n) (tok T_NEWLINE)))"
    and "skip_eol lx = here p (Suc n) (tok T_NEWLINE)"
proof -
  have l: "lx = here (operands_text d @ CHR 0x0A # p) n (name_token (brad_isa_opcode_name (d_opcode d)))"
    using lex_op(1) [OF operands_head(1)] lx by (simp add: insn_text_split)
  show k: "al_kind lx = T_OP (d_opcode d)" by (simp add: l name_token_def lex_op(2) [OF operands_head(1)])
  then show "\<not> at_label lx" by (simp add: at_label_def)
  have p2: "pass2_line syms (pc, False, out) lx = Some (Inr ((pc + 4, False, emit_word w out), here p (Suc n) (tok T_NEWLINE)))"
    for syms pc out
    using k instruction_text [OF assms(1,2), of syms pc p n] unfolding l
    by (simp add: pass2_line_def p_bind_def p_kind_def p_next_def emit_def p_return_def)
  then show "pass2_line syms (pc, False, out) lx = Some (Inr ((pc + 4, False, emit_word w out), here p (Suc n) (tok T_NEWLINE)))" .
  have "p_bind p_next (\<lambda>_. p_bind (p_instruction [] 0 False (T_OP (d_opcode d))) (\<lambda>e. emit e (0, False, out))) lx
      = Some (Inr ((0 + 4, False, emit_word w out), here p (Suc n) (tok T_NEWLINE)))"
    using p2 [of "[]" 0 out] k by (simp add: pass2_line_def p_kind_bind)
  from instruction_line [OF this] have "skip_eol (here p (Suc n) (tok T_NEWLINE)) = skip_eol lx"
    using k by (simp add: ends_def)
  then show "skip_eol lx = here p (Suc n) (tok T_NEWLINE)"
    by (simp add: skip_eol_ends ends_def)
qed

section \<open>Programs\<close>

definition disassembly :: "u32 list \<Rightarrow> string" where
  "disassembly ws = concat (map (\<lambda>w. projr (brad_core_emu_disasm w True 32) @ [CHR 0x0A]) ws)"

lemma show_int_length: "length (show_int (sint (i :: u16))) \<le> 6"
proof -
  have rng: "- (2 ^ 15) \<le> sint i" "sint i < 2 ^ 15" using sint_greater_eq [of i] sint_less [of i] by simp_all
  then have "nat (sint i) < 10 ^ 5" "nat (- sint i) < 10 ^ 5" by simp_all
  then show ?thesis using show_nat_length [of "nat (sint i)" 5] show_nat_length [of "nat (- sint i)" 5]
    by (simp add: show_int_def)
qed

lemma reg_text_length: "r < 16 \<Longrightarrow> length (reg_text r) \<le> 3"
  using show_nat_length [of r 2] by (simp add: reg_text_def)

lemma disasm_text: "brad_core_emu_disasm w True 32 = Inr (insn_text (brad_isa_decode w))"
proof -
  let ?d = "brad_isa_decode w"
  have r: "length (reg_text (d_rd ?d)) \<le> 3" "length (reg_text (d_rs1 ?d)) \<le> 3" "length (reg_text (d_rs2 ?d)) \<le> 3"
    by (simp_all add: brad_isa_decode_def reg_text_length)
  have "length (insn_text ?d) \<le> 31" using r show_int_length [of "d_imm ?d"]
    by (cases "d_opcode ?d") (simp_all add: insn_text_def brad_isa_opcode_name_def Let_def)
  then show ?thesis by (simp add: brad_core_emu_disasm_def snprintf_def)
qed

lemma disassembly_simps: "disassembly [] = []"
  "disassembly (w # ws) = insn_text (brad_isa_decode w) @ CHR 0x0A # disassembly ws"
  by (simp_all add: disassembly_def disasm_text)

text \<open>What follows the text ends both passes when it starts with the end of the source or an unexpected character.\<close>

definition stops_lexer :: "string \<Rightarrow> bool" where
  "stops_lexer p \<longleftrightarrow> (\<forall>n t. al_kind (lex_next (here p n t)) = T_EOF)"

lemma pass1_text:
  "(\<forall>w \<in> set ws. canonical w) \<Longrightarrow> stops_lexer p \<Longrightarrow> pass1 (here (disassembly ws @ p) n t) pc False syms = syms"
proof (induction ws arbitrary: n t pc)
  case Nil
  then show ?case by (subst pass1.simps) (simp add: disassembly_simps stops_lexer_def)
next
  case (Cons w ws)
  have c: "canonical w" using Cons.prems by simp
  note l = line_text [OF c refl refl, where p = "disassembly ws @ p" and n = n and t = t]
  have "pass1 (here (disassembly ws @ p) (Suc n) (tok T_NEWLINE)) (pc + 4) False syms = syms" using Cons by simp
  then show ?case using l by (subst pass1.simps) (simp add: disassembly_simps pass1_line_def)
qed

lemma pass2_text:
  assumes "\<forall>w \<in> set ws. canonical w" "o_half out = None" "length (o_code out) + length ws \<le> BRAD_ASM_MAX_OUTPUT" "stops_lexer p"
  shows "pass2 syms (here (disassembly ws @ p) n t) (pc, False, out) = Some (Inr (out\<lparr> o_code := o_code out @ ws \<rparr>))"
  using assms
proof (induction ws arbitrary: n t pc out)
  case Nil
  then show ?case by (subst pass2.simps) (simp add: disassembly_simps stops_lexer_def flush_half_def)
next
  case (Cons w ws)
  have c: "canonical w" using Cons.prems by simp
  note l = line_text [OF c refl refl, where p = "disassembly ws @ p" and n = n and t = t]
  have e: "emit_word w out = out\<lparr> o_code := o_code out @ [w] \<rparr>"
    using Cons.prems by (simp add: emit_word_def flush_half_def)
  let ?nl = "here (disassembly ws @ p) (Suc n) (tok T_NEWLINE)"
  have nl: "skip_eol ?nl = ?nl" by (simp add: skip_eol_ends ends_def)
  have "pass2 syms ?nl (pc + 4, False, emit_word w out) = Some (Inr (out\<lparr> o_code := o_code out @ w # ws \<rparr>))"
    using Cons.IH [of "emit_word w out"] Cons.prems by (simp add: e)
  then show ?case using l nl by (subst pass2.simps) (simp add: disassembly_simps)
qed

lemma assemble_text:
  assumes "\<forall>w \<in> set ws. canonical w" "length ws \<le> BRAD_ASM_MAX_OUTPUT" "stops_lexer p"
  shows "brad_as_assemble (disassembly ws @ p) = Some (Inr \<lparr> ao_code = ws, ao_entry = 0, ao_symbols = [] \<rparr>)"
proof -
  have i: "lex_init (disassembly ws @ p) = here (disassembly ws @ p) 1 zero_token" by (simp add: lex_init_def here_def)
  show ?thesis unfolding brad_as_assemble_def Let_def i pass1_text [OF assms(1,3)]
    using pass2_text [OF assms(1), of "\<lparr> o_code = [], o_half = None, o_entry = 0 \<rparr>"] assms(2,3) by simp
qed

text \<open>
  What of a word the text of its instruction keeps: the fields no operand stands for are not printed, and \<open>RET\<close> is printed without its
  register, which the assembler takes to be 0.
\<close>

definition is_branch :: "u32 \<Rightarrow> bool" where
  "is_branch w \<longleftrightarrow> d_opcode (brad_isa_decode w) \<in> {OP_BZ, OP_BNZ, OP_JMP, OP_CALL}"

definition printed_word :: "u32 \<Rightarrow> u32" where
  "printed_word w = (case d_opcode (brad_isa_decode w) of
     OP_ADDI \<Rightarrow> w AND 0xFFF0FFFF
   | OP_LDW \<Rightarrow> w AND 0xFFF0FFFF
   | OP_STW \<Rightarrow> w AND 0xF0FFFFFF
   | OP_RET \<Rightarrow> BRAD_RET_RAW
   | _ \<Rightarrow> w AND 0xFFFF0000)"

lemma masked_fields:
  "BRAD_INSN_OPCODE (w AND 0xFFF0FFFF) = BRAD_INSN_OPCODE w" "BRAD_INSN_OPCODE (w AND 0xF0FFFFFF) = BRAD_INSN_OPCODE w"
  "BRAD_INSN_OPCODE (w AND 0xFFFF0000) = BRAD_INSN_OPCODE w"
  "BRAD_INSN_RD (w AND 0xFFF0FFFF) = BRAD_INSN_RD w" "BRAD_INSN_RD (w AND 0xF0FFFFFF) = 0" "BRAD_INSN_RD (w AND 0xFFFF0000) = BRAD_INSN_RD w"
  "BRAD_INSN_RS1 (w AND 0xFFF0FFFF) = BRAD_INSN_RS1 w" "BRAD_INSN_RS1 (w AND 0xF0FFFFFF) = BRAD_INSN_RS1 w"
  "BRAD_INSN_RS1 (w AND 0xFFFF0000) = BRAD_INSN_RS1 w"
  "BRAD_INSN_RS2 (w AND 0xFFF0FFFF) = 0" "BRAD_INSN_RS2 (w AND 0xF0FFFFFF) = BRAD_INSN_RS2 w" "BRAD_INSN_RS2 (w AND 0xFFFF0000) = BRAD_INSN_RS2 w"
  "BRAD_INSN_IMM (w AND 0xFFF0FFFF) = BRAD_INSN_IMM w" "BRAD_INSN_IMM (w AND 0xF0FFFFFF) = BRAD_INSN_IMM w" "BRAD_INSN_IMM (w AND 0xFFFF0000) = 0"
  by (simp_all add: BRAD_INSN_OPCODE_def BRAD_INSN_RD_def BRAD_INSN_RS1_def BRAD_INSN_RS2_def BRAD_INSN_IMM_def drop_bit_and and.assoc)

lemma printed_opcode: "\<not> is_branch w \<Longrightarrow> d_opcode (brad_isa_decode (printed_word w)) = d_opcode (brad_isa_decode w)"
proof (cases "d_opcode (brad_isa_decode w)")
  case OP_RET
  moreover have "d_opcode (brad_isa_decode BRAD_RET_RAW) = OP_RET" by code_simp
  ultimately show ?thesis by (simp add: printed_word_def)
qed (simp_all add: printed_word_def brad_isa_decode_def masked_fields)

lemma printed_canonical: "\<not> is_branch w \<Longrightarrow> canonical (printed_word w)"
  using printed_opcode [of w]
  by (cases "d_opcode (brad_isa_decode w)")
    (simp_all add: canonical_def is_branch_def, simp_all add: printed_word_def brad_isa_decode_def masked_fields)

lemma printed_text: "\<not> is_branch w \<Longrightarrow> insn_text (brad_isa_decode (printed_word w)) = insn_text (brad_isa_decode w)"
  using printed_opcode [of w] unfolding insn_text_split
  by (cases "d_opcode (brad_isa_decode w)")
    (simp_all add: operands_text_def is_branch_def, simp_all add: printed_word_def brad_isa_decode_def masked_fields)

lemma canonical_printed:
  assumes "canonical w"
  shows "printed_word w = w"
proof -
  have keep: "w AND 0xFFF0FFFF = w" if "BRAD_INSN_RS2 w = 0"
    using that word_fields [of w] word_fields [of "w AND 0xFFF0FFFF"] by (simp add: masked_fields)
  have "w AND 0xF0FFFFFF = w" if "BRAD_INSN_RD w = 0"
    using that word_fields [of w] word_fields [of "w AND 0xF0FFFFFF"] by (simp add: masked_fields)
  moreover have "w AND 0xFFFF0000 = w" if "BRAD_INSN_IMM w = 0"
    using that word_fields [of w] word_fields [of "w AND 0xFFFF0000"] by (simp add: masked_fields)
  ultimately show ?thesis using assms keep
    by (cases "d_opcode (brad_isa_decode w)") (simp_all add: canonical_def printed_word_def, simp_all add: brad_isa_decode_def)
qed

lemma printed_disassembly: "\<forall>w \<in> set ws. \<not> is_branch w \<Longrightarrow> disassembly (map printed_word ws) = disassembly ws"
  by (induction ws) (simp_all add: disassembly_simps printed_text)

text \<open>C8: Assembling what the disassembler printed gives the program back, for programs of instructions other than branches up to the size of
  the output, one instruction per line: every word comes back as \<open>printed_word\<close>, that is, with the fields that are not operands of the
  instruction set to zero and every RET as the one through register 0. So a program of words that are of this form already
  comes back unchanged.\<close>

theorem disassembly_assembles:
  assumes "\<forall>w \<in> set ws. \<not> is_branch w" "length ws \<le> BRAD_ASM_MAX_OUTPUT"
  shows "brad_as_assemble (disassembly ws) = Some (Inr \<lparr> ao_code = map printed_word ws, ao_entry = 0, ao_symbols = [] \<rparr>) \<and>
    ((\<forall>w \<in> set ws. canonical w) \<longrightarrow> brad_as_assemble (disassembly ws) = Some (Inr \<lparr> ao_code = ws, ao_entry = 0, ao_symbols = [] \<rparr>))"
proof -
  have "brad_as_assemble (disassembly (map printed_word ws) @ []) = Some (Inr \<lparr> ao_code = map printed_word ws, ao_entry = 0, ao_symbols = [] \<rparr>)"
    using assms by (intro assemble_text) (auto simp: printed_canonical stops_lexer_def lex_punct)
  moreover have "map printed_word ws = ws" if "\<forall>w \<in> set ws. canonical w"
    using that by (simp add: canonical_printed map_idI)
  ultimately show ?thesis using printed_disassembly [OF assms(1)] by simp
qed

text \<open>\<open>ADDI r1, r0, -5\<close>, \<open>MUL r2, r1, r1\<close>, \<open>STW r2, [r1 + 12]\<close>, \<open>RET\<close>.\<close>

definition demo_words :: "u32 list" where
  "demo_words = [0x8100FFFB, 0x22110000, 0xA012000C, 0xF0000000]"

lemma demo_words_canonical: "\<forall>w \<in> set demo_words. canonical w" "\<forall>w \<in> set demo_words. \<not> is_branch w"
  "length demo_words \<le> BRAD_ASM_MAX_OUTPUT"
proof -
  show "\<forall>w \<in> set demo_words. canonical w" "\<forall>w \<in> set demo_words. \<not> is_branch w"
    by code_simp+
qed (simp add: demo_words_def BRAD_ASM_MAX_OUTPUT_def)

lemma disassembly_assembles_witness:
  "brad_as_assemble (disassembly demo_words) = Some (Inr \<lparr> ao_code = demo_words, ao_entry = 0, ao_symbols = [] \<rparr>) \<and>
   brad_as_assemble (disassembly [0xF0E00000]) = Some (Inr \<lparr> ao_code = [0xF0000000], ao_entry = 0, ao_symbols = [] \<rparr>)"
proof -
  have "\<not> is_branch 0xF0E00000" "printed_word 0xF0E00000 = 0xF0000000" by code_simp+
  then have "brad_as_assemble (disassembly [0xF0E00000]) = Some (Inr \<lparr> ao_code = [0xF0000000], ao_entry = 0, ao_symbols = [] \<rparr>)"
    using disassembly_assembles [of "[0xF0E00000]"] by (simp add: BRAD_ASM_MAX_OUTPUT_def)
  then show ?thesis using disassembly_assembles [OF demo_words_canonical(2,3)] demo_words_canonical(1) by blast
qed

definition unexpected :: "char \<Rightarrow> bool" where
  "unexpected c \<longleftrightarrow> \<not> isalnum c \<and> c \<notin> set '' ;:,[]+-._'' \<and> chr_code c \<notin> {0, 9, 10}"

lemma unexpected_stops: "unexpected c \<Longrightarrow> stops_lexer (c # q)"
proof -
  assume u: "unexpected c"
  have "punct_kind c = None" using u by (intro punct_kind_char) (auto simp: unexpected_def)
  moreover have "chr_code nul = 0" by (simp add: chr_code_def nul_def)
  then have "c \<noteq> nul" using u unfolding unexpected_def by blast
  moreover have "\<not> is_ws c" "\<not> is_nl c" using u by (simp_all add: unexpected_def is_ws_def is_nl_def)
  ultimately show ?thesis using u not_ws [of c]
    by (simp add: stops_lexer_def lex_next_def unexpected_def isalnum_def)
qed

text \<open>A character outside of the syntax ends the assembly as if it were the end of the source: everything that follows it
  is dropped, and the result is a success.\<close>

theorem unexpected_char_truncates:
  assumes "\<forall>w \<in> set ws. canonical w" "length ws \<le> BRAD_ASM_MAX_OUTPUT" "unexpected c"
  shows "brad_as_assemble (disassembly ws @ c # rest) = Some (Inr \<lparr> ao_code = ws, ao_entry = 0, ao_symbols = [] \<rparr>)"
  by (rule assemble_text [OF assms(1,2) unexpected_stops [OF assms(3)]])

lemma unexpected_char_truncates_witness:
  "brad_as_assemble (disassembly demo_words @ CHR 0x0D # CHR 0x0A # disassembly demo_words)
    = Some (Inr \<lparr> ao_code = demo_words, ao_entry = 0, ao_symbols = [] \<rparr>)"
  by (rule unexpected_char_truncates [OF demo_words_canonical(1,3)]) code_simp

section \<open>Branches\<close>

text \<open>The register (0 if there is none) and the target of a branch.\<close>

definition branch_operands :: "brad_as_symbol list \<Rightarrow> u32 \<Rightarrow> brad_isa_opcode \<Rightarrow> (nat \<times> int) parser" where
  "branch_operands syms pc opc =
    (if opc = OP_BZ \<or> opc = OP_BNZ
     then p_bind parse_reg (\<lambda>rs1. p_bind p_comma (\<lambda>_. p_bind (p_expr syms pc) (\<lambda>target. p_return (rs1, target))))
     else p_bind (p_expr syms pc) (\<lambda>target. p_return (0, target)))"

definition branch_taken :: "brad_isa_opcode \<Rightarrow> u32 \<Rightarrow> bool" where
  "branch_taken opc a \<longleftrightarrow> (case opc of OP_BZ \<Rightarrow> a = 0 | OP_BNZ \<Rightarrow> a \<noteq> 0 | _ \<Rightarrow> True)"

lemma parse_reg_less: "parse_reg lx = Some (Inr (r, lx')) \<Longrightarrow> r < 16"
  by (auto simp: parse_reg_def p_fail_def Let_def split: if_splits)

lemma distance_exact:
  assumes "p_distance 4 pc target lx = Some (Inr (d, lx'))" "(target - (sint pc + 4)) mod 4 = 0"
  shows "d * 4 = target - (sint pc + 4)"
proof -
  let ?d = "target - (sint pc + 4)"
  have d: "d = c_div ?d 4" using assms by (auto simp: p_distance_def p_bind_Inr c_int_def p_return_def split: if_splits)
  obtain k where k: "?d = 4 * k" using assms(2) using mod_0_imp_dvd dvdE by metis
  have "c_div (4 * k) 4 = k" using nonzero_mult_div_cancel_left [of 4 "- k"] by (simp add: c_div_def)
  then show ?thesis using d k by simp
qed

lemma branch_operands_word:
  assumes "branch_operands syms pc opc lx = Some (Inr ((rs1, target), lx1))" "p_op syms pc False opc lx = Some (Inr (Word w, lx'))"
    and "opc \<in> {OP_BZ, OP_BNZ, OP_JMP, OP_CALL}"
  shows "rs1 < 16 \<and> (\<exists>d lx2. p_distance 4 pc target lx1 = Some (Inr (d, lx2)) \<and> w = BRAD_RI (opcode_num opc) 0 rs1 (of_int d * 4))"
  using assms
  by (auto simp: branch_operands_def p_op_def p_branch_def p_bind_Inr p_return_def BR_RI JMP_RI dest: parse_reg_less)

lemma imm_value:
  assumes "- (2 ^ 15) \<le> d" "d < 2 ^ 15"
  shows "sext16 (ucast (of_int d :: u32)) = of_int d"
proof -
  have "(ucast (of_int d :: u32) :: u16) = of_int d" by (rule bit_word_eqI) (simp add: bit_simps)
  moreover have "sint (of_int d :: u16) = d" using assms by (simp add: signed_of_int signed_take_bit_int_eq_self)
  moreover have "(of_int (sint x) :: u32) = sext16 x" for x :: u16 by simp
  ultimately show ?thesis by metis
qed

text \<open>C20: A branch in 32-bit mode reaches its target. When the target is a multiple of four bytes away from the next instruction
  and within 16 bits, the word that is assembled at \<open>pc\<close> and executed there leaves the program counter at the target
  exactly when the branch is taken, and behind the branch otherwise.\<close>

theorem asm_branch_lands:
  assumes "branch_operands syms pc opc lx = Some (Inr ((rs1, target), lx1))" "p_op syms pc False opc lx = Some (Inr (Word w, lx'))"
    and "opc \<in> {OP_BZ, OP_BNZ, OP_JMP, OP_CALL}" "(target - (sint pc + 4)) mod 4 = 0"
    and "- (2 ^ 15) \<le> target - (sint pc + 4)" "target - (sint pc + 4) < 2 ^ 15"
    and "c_pc c = pc + 4"
  shows "\<exists>c'. execute c (brad_isa_decode w) m sz pc = Some (c', m, None, branch_taken opc (get_reg c rs1)) \<and>
    c_pc c' = (if branch_taken opc (get_reg c rs1) then of_int target else pc + 4)"
proof -
  obtain d lx2 where d: "p_distance 4 pc target lx1 = Some (Inr (d, lx2))" "rs1 < 16" "w = BRAD_RI (opcode_num opc) 0 rs1 (of_int d * 4)"
    using branch_operands_word [OF assms(1-3)] by blast
  note f = RI_fields [OF opcode_num_less _ d(2), of 0 opc "of_int d * 4", folded d(3)]
  have off: "d * 4 = target - (sint pc + 4)" by (rule distance_exact [OF d(1) assms(4)])
  have "sext16 (ucast (of_int (d * 4) :: u32)) = of_int (d * 4)" by (rule imm_value) (use assms(5,6) off in simp_all)
  then have "sext16 (BRAD_INSN_IMM w) = of_int (d * 4)" using f(4) by simp
  then have t: "pc + 4 + sext16 (BRAD_INSN_IMM w) = of_int target" unfolding off by simp
  have dec: "d_opcode (brad_isa_decode w) = opc" "d_rs1 (brad_isa_decode w) = rs1" "d_imm (brad_isa_decode w) = BRAD_INSN_IMM w"
    using f(1,3) by (simp_all add: brad_isa_decode_def)
  have run: "execute c (brad_isa_decode w) m sz pc = Some (if branch_taken opc (get_reg c rs1)
      then jump_to (pc + 4 + sext16 (BRAD_INSN_IMM w)) (if opc = OP_CALL then poke_reg BRAD_REG_LR (pc + 4) (count_insn (brad_isa_decode w) c)
        else count_insn (brad_isa_decode w) c) else count_insn (brad_isa_decode w) c, m, None, branch_taken opc (get_reg c rs1))"
    using assms(3) dec by (cases opc) (simp_all add: execute_def branch_taken_def Let_def get_reg_def count_insn_def)
  show ?thesis unfolding run t using assms(7) by (simp add: jump_to_def poke_reg_def count_insn_def)
qed

lemma asm_branch_lands_witness:
  "\<exists>w c'. p_op [] 8 False OP_JMP (here [] 1 (num_token 0)) = Some (Inr (Word w, lex_next (here [] 1 (num_token 0)))) \<and>
     execute (demo_core\<lparr> c_pc := 12 \<rparr>) (brad_isa_decode w) demo_mem 8 8 = Some (c', demo_mem, None, True) \<and> c_pc c' = 0"
proof -
  let ?lx = "here [] 1 (num_token 0)" and ?w = "0xD000FFF4 :: u32"
  have o: "branch_operands [] 8 OP_JMP ?lx = Some (Inr ((0, 0), lex_next ?lx))" by code_simp
  have p: "p_op [] 8 False OP_JMP ?lx = Some (Inr (Word ?w, lex_next ?lx))" by code_simp
  obtain c' where "execute (demo_core\<lparr> c_pc := 12 \<rparr>) (brad_isa_decode ?w) demo_mem 8 8
        = Some (c', demo_mem, None, branch_taken OP_JMP (get_reg (demo_core\<lparr> c_pc := 12 \<rparr>) 0))"
      "c_pc c' = (if branch_taken OP_JMP (get_reg (demo_core\<lparr> c_pc := 12 \<rparr>) 0) then of_int 0 else 8 + 4)"
    using asm_branch_lands [OF o p, of "demo_core\<lparr> c_pc := 12 \<rparr>" demo_mem 8] by auto
  then show ?thesis using p by (auto simp: branch_taken_def)
qed

section \<open>A source with a label\<close>

text \<open>The sizes compared as integers, for evaluation.\<close>

lemma sizes_code [code]:
  "emit_half h out = (if 65536 \<le> int (length (o_code out)) then None
     else case o_half out of None \<Rightarrow> Some (out\<lparr> o_half := Some (ucast h) \<rparr>)
     | Some lo \<Rightarrow> Some (out\<lparr> o_code := o_code out @ [lo OR push_bit 16 (ucast h)], o_half := None \<rparr>))"
  "emit_word w out = (let out' = flush_half out in
     if int (length (o_code out')) < 65536 then out'\<lparr> o_code := o_code out' @ [w] \<rparr> else out')"
  "add_symbol name pc syms = (if int (length syms) < 1024 then syms @ [\<lparr> sy_name = take 63 name, sy_addr = pc \<rparr>] else syms)"
  by (simp_all add: emit_half_def emit_word_def add_symbol_def BRAD_ASM_MAX_OUTPUT_def BRAD_ASM_MAX_SYMBOLS_def Let_def
      split: option.split)

definition line_end :: string where "line_end = [CHR 0x0A]"

definition demo_source :: string where
  "demo_source = ''.entry l'' @ line_end @ ''l:'' @ line_end @ ''BNZ r1, l ; again'' @ line_end"

definition demo_output :: brad_as_output where
  "demo_output = \<lparr> ao_code = [0xC010FFFC], ao_entry = 0, ao_symbols = [\<lparr> sy_name = ''l'', sy_addr = 0 \<rparr>] \<rparr>"

lemma demo_assembles: "brad_as_assemble demo_source = Some (Inr demo_output)"
  by code_simp

lemma as_output_bounds_witness:
  "brad_as_assemble demo_source = Some (Inr demo_output) \<and> length (ao_code demo_output) \<le> BRAD_ASM_MAX_OUTPUT"
  using as_output_bounds [OF demo_assembles] demo_assembles by blast

lemma as_passes_agree_witness:
  "ao_symbols demo_output = add_labels (labels (visits (ao_symbols demo_output) (lex_init demo_source)
     (0, False, \<lparr> o_code = [], o_half = None, o_entry = 0 \<rparr>))) []"
proof (rule as_passes_agree [OF demo_assembles refl])
  show "\<forall>(lx, st) \<in> set (visits (ao_symbols demo_output) (lex_init demo_source)
      (0, False, \<lparr> o_code = [], o_half = None, o_entry = 0 \<rparr>)). at_label lx \<or> tidy_line lx"
    by code_simp
qed

section \<open>Where the tool chain does not do what the source says\<close>

text \<open>An instruction behind a label on the same line loses its mnemonic.\<close>

lemma label_line_rejected: "brad_as_assemble (''a: ADD r1, r2, r3'' @ line_end) = Some (Inl (SyntaxError 1))"
  by code_simp

text \<open>Hexadecimal numbers read as 0; the rest of the line is skipped.\<close>

lemma hex_reads_zero:
  "brad_as_assemble (''.word 0x10'' @ line_end @ ''ADDI r1, r0, 0x7F'' @ line_end)
    = Some (Inr \<lparr> ao_code = [0, 0x81000000], ao_entry = 0, ao_symbols = [] \<rparr>)"
  by code_simp

text \<open>
  The program counter of the assembler is not the place in the output: a label behind a byte (which takes a word), behind
  a half-filled word or behind \<open>.org\<close> is not the address of the word that follows it.
\<close>

lemma labels_off_words:
  "brad_as_assemble (''.byte 1'' @ line_end @ ''l:'' @ line_end) = Some (Inr \<lparr> ao_code = [1], ao_entry = 0, ao_symbols = [\<lparr> sy_name = ''l'', sy_addr = 1 \<rparr>] \<rparr>)"
  "brad_as_assemble (''.compress'' @ line_end @ ''C.NOP'' @ line_end @ ''.nocompress'' @ line_end @ ''l:'' @ line_end)
    = Some (Inr \<lparr> ao_code = [0xD000D000], ao_entry = 0, ao_symbols = [\<lparr> sy_name = ''l'', sy_addr = 2 \<rparr>] \<rparr>)"
  "brad_as_assemble (''.org 64'' @ line_end @ ''l:'' @ line_end) = Some (Inr \<lparr> ao_code = [], ao_entry = 0, ao_symbols = [\<lparr> sy_name = ''l'', sy_addr = 64 \<rparr>] \<rparr>)"
  by code_simp+

text \<open>A branch that is too far is not refused: \<open>JMP 40000\<close> at address 0 goes 25536 bytes back.\<close>

lemma far_jump_wraps:
  "brad_as_assemble (''JMP 40000'' @ line_end) = Some (Inr \<lparr> ao_code = [0xD0009C3C], ao_entry = 0, ao_symbols = [] \<rparr>)"
  "sext16 (d_imm (brad_isa_decode 0xD0009C3C)) + 4 = - 25536"
  by code_simp+

text \<open>The disassembler prints the offset of a branch where the assembler expects its target.\<close>

lemma branch_text_differs:
  "brad_core_emu_disasm 0xB0100008 True 32 = Inr ''BZ r1, 8''"
  "brad_as_assemble (''BZ r1, 8'' @ line_end) = Some (Inr \<lparr> ao_code = [0xB0100004], ao_entry = 0, ao_symbols = [] \<rparr>)"
  by code_simp+

text \<open>\<open>RET\<close> assembles to the return through register 0, while \<open>CALL\<close> leaves the return address in register 14.\<close>

lemma ret_through_r0: "execute c (brad_isa_decode BRAD_RET_RAW) m sz pc = Some (c', m', e, b) \<Longrightarrow> c_pc c' = get_reg c 0"
proof -
  have "d_opcode (brad_isa_decode BRAD_RET_RAW) = OP_RET" "d_rs1 (brad_isa_decode BRAD_RET_RAW) = 0" by code_simp+
  then show "execute c (brad_isa_decode BRAD_RET_RAW) m sz pc = Some (c', m', e, b) \<Longrightarrow> c_pc c' = get_reg c 0"
    by (auto simp: execute_def jump_to_def get_reg_def count_insn_def Let_def)
qed

text \<open>
  In compressed mode the core executes the first of the two instructions of a word only, and an immediate means four
  times as much to it as to the assembler.
\<close>

lemma compressed_program_runs_half:
  "brad_as_assemble (''.compress'' @ line_end @ ''ADDI r1, r0, 1'' @ line_end @ ''ADDI r2, r0, 1'' @ line_end)
    = Some (Inr \<lparr> ao_code = [0x72017101], ao_entry = 0, ao_symbols = [] \<rparr>)"
  "case seq_step 4 (demo_core\<lparr> c_compress := True \<rparr>, map_of (zip [0..<4] (le_bytes32 0x72017101))) of None \<Rightarrow> False
   | Some (c, m) \<Rightarrow> c_regs c ! 1 = 4 \<and> c_regs c ! 2 = 0 \<and> beyond (c_pc c) 4"
  by code_simp+

end
