(* ===== verification/Atlas.thy ===== *)
theory Atlas
  imports Machine HostMem
begin

text \<open>
  The accelerator model \<open>drivers/hypercore_atlas.c\<close>: tiers, contexts, the memory allocator, the listener and the link
  state, with the lemmas that make them correct. \<open>gpu_state\<close> of a context and \<open>mvram_addr\<close> are only ever
  zero and left out. The listener is code of the caller: calling it is the parameter \<open>invoke\<close>.
\<close>

section \<open>Tiers\<close>

datatype hc_sku = HC_SKU_NOVA | HC_SKU_PHONE | HC_SKU_ULTRA | HC_SKU_ELITE

record hc_sku_cfg =
  hs_sku :: hc_sku
  hs_name :: string
  hs_tier_id :: u32
  hs_npu_cores :: u32
  hs_mvram_bytes :: u64
  hs_bandwidth_gbs :: u32
  hs_phoenix_count :: u32
  hs_sentinel_count :: u32
  hs_ace_freq_mhz :: u32
  hs_gpu_vec_engines :: u32
  hs_gpu_nsu_units :: u32

definition hc_sku_configs :: "hc_sku_cfg list" where
  "hc_sku_configs =
    [\<lparr> hs_sku = HC_SKU_NOVA, hs_name = ''HC-100 Nova'', hs_tier_id = 0, hs_npu_cores = 16,
       hs_mvram_bytes = 128 * 1024 * 1024, hs_bandwidth_gbs = 64, hs_phoenix_count = 1, hs_sentinel_count = 1,
       hs_ace_freq_mhz = 1600, hs_gpu_vec_engines = 8, hs_gpu_nsu_units = 0 \<rparr>,
     \<lparr> hs_sku = HC_SKU_PHONE, hs_name = ''HC-300 Phone'', hs_tier_id = 1, hs_npu_cores = 32,
       hs_mvram_bytes = 256 * 1024 * 1024, hs_bandwidth_gbs = 128, hs_phoenix_count = 2, hs_sentinel_count = 1,
       hs_ace_freq_mhz = 2000, hs_gpu_vec_engines = 16, hs_gpu_nsu_units = 4 \<rparr>,
     \<lparr> hs_sku = HC_SKU_ULTRA, hs_name = ''HC-500 Ultra'', hs_tier_id = 2, hs_npu_cores = 48,
       hs_mvram_bytes = 450 * 1024 * 1024, hs_bandwidth_gbs = 192, hs_phoenix_count = 4, hs_sentinel_count = 2,
       hs_ace_freq_mhz = 2400, hs_gpu_vec_engines = 24, hs_gpu_nsu_units = 8 \<rparr>,
     \<lparr> hs_sku = HC_SKU_ELITE, hs_name = ''HC-Elite'', hs_tier_id = 3, hs_npu_cores = 64,
       hs_mvram_bytes = 950 * 1024 * 1024, hs_bandwidth_gbs = 256, hs_phoenix_count = 6, hs_sentinel_count = 2,
       hs_ace_freq_mhz = 2800, hs_gpu_vec_engines = 32, hs_gpu_nsu_units = 12 \<rparr>]"

definition get_sku_for_tier :: "u32 \<Rightarrow> hc_sku_cfg option" where
  "get_sku_for_tier tier = List.find (\<lambda>cfg. hs_tier_id cfg = tier) hc_sku_configs"

section \<open>State\<close>

record hc_auc_context =
  cx_mvram_used :: u64
  cx_frozen :: bool
  cx_active :: bool

text \<open>A function pointer and its argument, as numbers.\<close>

record hc_tifa_callback =
  cb_fn :: nat
  cb_userdata :: nat

record hc_bradlink_state =
  bl_tethered :: bool
  bl_bandwidth_mbps :: u32
  bl_latency_us :: u32
  bl_bytes_sent :: u64
  bl_bytes_recv :: u64

record mvram_alloc =
  ma_addr :: u64
  ma_size :: u64
  ma_context_id :: u32
  ma_pinned :: bool

record hc =
  hc_tier :: u32
  hc_mvram_base :: u64
  hc_initialized :: bool
  hc_p_state :: u32
  hc_sku :: hc_sku_cfg
  hc_contexts :: "hc_auc_context list"
  hc_num_contexts :: u32
  hc_context_switch_count :: u64
  hc_mvram_alloc_total :: u64
  hc_power_gate_count :: u32
  hc_wake_events :: u32
  hc_tifa_cb :: "hc_tifa_callback option"
  hc_bradlink :: hc_bradlink_state
  hc_ace_clk_mhz :: u32
  hc_temp_c :: u32
  hc_mvram_next_addr :: u64

definition HC_MAX_CONTEXTS :: nat where "HC_MAX_CONTEXTS = 256"

abbreviation (input) HC_ELITE :: u32 where "HC_ELITE \<equiv> 3"

abbreviation (input) HC_P1_BALANCED :: u32 where "HC_P1_BALANCED \<equiv> 1"

definition zero_context :: hc_auc_context where
  "zero_context = \<lparr> cx_mvram_used = 0, cx_frozen = False, cx_active = False \<rparr>"

definition zero_bradlink :: hc_bradlink_state where
  "zero_bradlink = \<lparr> bl_tethered = False, bl_bandwidth_mbps = 0, bl_latency_us = 0, bl_bytes_sent = 0, bl_bytes_recv = 0 \<rparr>"

definition hc_init :: "u32 \<Rightarrow> u64 \<Rightarrow> hc \<Rightarrow> (errno + unit) \<times> hc" where
  "hc_init tier mvram_base h =
    (if HC_ELITE < tier then (Inl EINVAL, h)
     else if mvram_base = 0 then (Inl EINVAL, h)
     else case get_sku_for_tier tier of None \<Rightarrow> (Inl EINVAL, h)
     | Some cfg \<Rightarrow> (Inr (), \<lparr> hc_tier = tier, hc_mvram_base = mvram_base, hc_initialized = True, hc_p_state = HC_P1_BALANCED,
         hc_sku = cfg, hc_contexts = replicate HC_MAX_CONTEXTS zero_context, hc_num_contexts = 0,
         hc_context_switch_count = 0, hc_mvram_alloc_total = 0, hc_power_gate_count = 0, hc_wake_events = 0,
         hc_tifa_cb = None, hc_bradlink = zero_bradlink, hc_ace_clk_mhz = hs_ace_freq_mhz cfg, hc_temp_c = 32,
         hc_mvram_next_addr = mvram_base \<rparr>))"

text \<open>The static state before the first call: zeros.\<close>

definition hc_zero :: hc where
  "hc_zero = \<lparr> hc_tier = 0, hc_mvram_base = 0, hc_initialized = False, hc_p_state = 0,
     hc_sku = \<lparr> hs_sku = HC_SKU_NOVA, hs_name = [], hs_tier_id = 0, hs_npu_cores = 0, hs_mvram_bytes = 0, hs_bandwidth_gbs = 0,
       hs_phoenix_count = 0, hs_sentinel_count = 0, hs_ace_freq_mhz = 0, hs_gpu_vec_engines = 0, hs_gpu_nsu_units = 0 \<rparr>,
     hc_contexts = replicate HC_MAX_CONTEXTS zero_context, hc_num_contexts = 0,
     hc_context_switch_count = 0, hc_mvram_alloc_total = 0, hc_power_gate_count = 0, hc_wake_events = 0,
     hc_tifa_cb = None, hc_bradlink = zero_bradlink, hc_ace_clk_mhz = 0, hc_temp_c = 0, hc_mvram_next_addr = 0 \<rparr>"

definition hc_power_state :: "u32 \<Rightarrow> hc \<Rightarrow> hc" where
  "hc_power_state state h = (if \<not> hc_initialized h then h else h\<lparr> hc_p_state := state \<rparr>)"

definition context_active :: "hc \<Rightarrow> u32 \<Rightarrow> bool" where
  "context_active h i \<longleftrightarrow> cx_active (hc_contexts h ! unat i)"

definition no_context :: "u32 \<Rightarrow> bool" where
  "no_context i \<longleftrightarrow> HC_MAX_CONTEXTS \<le> unat i"

definition hc_context_switch :: "u32 \<Rightarrow> hc \<Rightarrow> (errno + unit) \<times> hc" where
  "hc_context_switch i h =
    (if \<not> hc_initialized h then (Inl ENODEV, h)
     else if no_context i then (Inl EINVAL, h)
     else if \<not> context_active h i then (Inl ENOENT, h)
     else (Inr (), h\<lparr> hc_context_switch_count := hc_context_switch_count h + 1 \<rparr>))"

definition hc_gpu_power_gate :: "hc \<Rightarrow> (errno + unit) \<times> hc" where
  "hc_gpu_power_gate h = (if \<not> hc_initialized h then (Inl ENODEV, h)
     else (Inr (), h\<lparr> hc_power_gate_count := hc_power_gate_count h + 1 \<rparr>))"

definition hc_sentinel_configure :: "u32 \<Rightarrow> hc \<Rightarrow> (errno + unit) \<times> hc" where
  "hc_sentinel_configure wake_sources h =
    (if \<not> hc_initialized h then (Inl ENODEV, h)
     else if wake_sources = 0 then (Inl EINVAL, h)
     else (Inr (), h\<lparr> hc_wake_events := 0 \<rparr>))"

definition hc_query_sku :: "bool \<Rightarrow> hc \<Rightarrow> errno + hc_sku_cfg" where
  "hc_query_sku have_out h = (if \<not> hc_initialized h then Inl ENODEV else if \<not> have_out then Inl EINVAL else Inr (hc_sku h))"

record hc_perf_stats =
  ps_context_switches :: u64
  ps_mvram_alloc_bytes :: u64
  ps_active_contexts :: u32
  ps_sentinel_wake_events :: u32
  ps_gpu_power_gate_count :: u32
  ps_ace_clk_mhz :: u32
  ps_temp_c :: u32

definition active_count :: "hc \<Rightarrow> nat" where
  "active_count h = length (filter cx_active (hc_contexts h))"

definition hc_query_stats :: "bool \<Rightarrow> hc \<Rightarrow> errno + hc_perf_stats" where
  "hc_query_stats have_out h =
    (if \<not> hc_initialized h then Inl ENODEV else if \<not> have_out then Inl EINVAL
     else Inr \<lparr> ps_context_switches = hc_context_switch_count h, ps_mvram_alloc_bytes = hc_mvram_alloc_total h,
       ps_active_contexts = of_nat (active_count h), ps_sentinel_wake_events = hc_wake_events h,
       ps_gpu_power_gate_count = hc_power_gate_count h, ps_ace_clk_mhz = hc_ace_clk_mhz h, ps_temp_c = hc_temp_c h \<rparr>)"

section \<open>Memory\<close>

definition hc_mvram_alloc :: "u64 \<Rightarrow> u32 \<Rightarrow> bool \<Rightarrow> hc \<Rightarrow> (errno + mvram_alloc) \<times> hc" where
  "hc_mvram_alloc sz i have_out h =
    (if \<not> hc_initialized h then (Inl ENODEV, h)
     else if \<not> have_out \<or> sz = 0 then (Inl EINVAL, h)
     else if no_context i then (Inl EINVAL, h)
     else let nxt = hc_mvram_next_addr h + sz; limit = hc_mvram_base h + hs_mvram_bytes (hc_sku h) in
       if limit < nxt then (Inl ENOMEM, h)
       else (Inr \<lparr> ma_addr = hc_mvram_next_addr h, ma_size = sz, ma_context_id = i, ma_pinned = False \<rparr>,
         h\<lparr> hc_mvram_next_addr := nxt, hc_mvram_alloc_total := hc_mvram_alloc_total h + sz,
           hc_contexts := (if 0 < i \<and> context_active h i
             then (hc_contexts h)[unat i := (hc_contexts h ! unat i)\<lparr> cx_mvram_used := cx_mvram_used (hc_contexts h ! unat i) + sz \<rparr>]
             else hc_contexts h) \<rparr>))"

text \<open>The caller's structure is cleared; nothing is given back.\<close>

definition hc_mvram_free :: "mvram_alloc option \<Rightarrow> hc \<Rightarrow> errno + mvram_alloc" where
  "hc_mvram_free a h = (if \<not> hc_initialized h then Inl ENODEV
     else case a of None \<Rightarrow> Inl EINVAL
     | Some _ \<Rightarrow> Inr \<lparr> ma_addr = 0, ma_size = 0, ma_context_id = 0, ma_pinned = False \<rparr>)"

definition hc_mvram_pin :: "u64 \<Rightarrow> u64 \<Rightarrow> hc \<Rightarrow> errno + unit" where
  "hc_mvram_pin addr sz h = (if \<not> hc_initialized h then Inl ENODEV else if addr = 0 \<or> sz = 0 then Inl EINVAL else Inr ())"

section \<open>Contexts\<close>

fun first_inactive :: "hc_auc_context list \<Rightarrow> nat option" where
  "first_inactive [] = None"
| "first_inactive (c # cs) = (if \<not> cx_active c then Some 0 else map_option Suc (first_inactive cs))"

definition hc_auc_create_context :: "bool \<Rightarrow> hc \<Rightarrow> (errno + u32) \<times> hc" where
  "hc_auc_create_context have_out h =
    (if \<not> hc_initialized h then (Inl ENODEV, h)
     else if \<not> have_out then (Inl EINVAL, h)
     else case first_inactive (hc_contexts h) of None \<Rightarrow> (Inl ENOSPC, h)
     | Some i \<Rightarrow> (Inr (of_nat i), h\<lparr> hc_contexts := (hc_contexts h)[i := zero_context\<lparr> cx_active := True \<rparr>],
         hc_num_contexts := hc_num_contexts h + 1 \<rparr>))"

definition hc_auc_destroy_context :: "u32 \<Rightarrow> hc \<Rightarrow> (errno + unit) \<times> hc" where
  "hc_auc_destroy_context i h =
    (if \<not> hc_initialized h then (Inl ENODEV, h)
     else if no_context i then (Inl EINVAL, h)
     else if \<not> context_active h i then (Inl ENOENT, h)
     else (Inr (), h\<lparr> hc_contexts := (hc_contexts h)[unat i := zero_context], hc_num_contexts := hc_num_contexts h - 1 \<rparr>))"

definition freeze :: "hc_auc_context \<Rightarrow> hc_auc_context" where
  "freeze c = (if cx_active c then c\<lparr> cx_frozen := True \<rparr> else c)"

definition hc_auc_freeze_context :: "u32 \<Rightarrow> hc \<Rightarrow> (errno + unit) \<times> hc" where
  "hc_auc_freeze_context i h =
    (if \<not> hc_initialized h then (Inl ENODEV, h)
     else if no_context i then (Inl EINVAL, h)
     else if \<not> context_active h i then (Inl ENOENT, h)
     else (Inr (), h\<lparr> hc_contexts := (hc_contexts h)[unat i := (hc_contexts h ! unat i)\<lparr> cx_frozen := True \<rparr>] \<rparr>))"

definition hc_auc_freeze_all :: "hc \<Rightarrow> (errno + unit) \<times> hc" where
  "hc_auc_freeze_all h = (if \<not> hc_initialized h then (Inl ENODEV, h)
     else (Inr (), h\<lparr> hc_contexts := map freeze (hc_contexts h) \<rparr>))"

section \<open>Commands, listener, link\<close>

definition hc_gpu_submit_render :: "hc \<Rightarrow> errno + unit" where
  "hc_gpu_submit_render h = (if \<not> hc_initialized h then Inl ENODEV else Inr ())"

definition hc_gpu_wait_idle :: "hc \<Rightarrow> errno + unit" where
  "hc_gpu_wait_idle h = (if \<not> hc_initialized h then Inl ENODEV else Inr ())"

text \<open>A null function pointer is 0.\<close>

definition hc_tifa_set_listener :: "hc_tifa_callback option \<Rightarrow> hc \<Rightarrow> (errno + unit) \<times> hc" where
  "hc_tifa_set_listener cb h =
    (if \<not> hc_initialized h then (Inl ENODEV, h)
     else case cb of None \<Rightarrow> (Inl EINVAL, h)
     | Some c \<Rightarrow> if cb_fn c = 0 then (Inl EINVAL, h) else (Inr (), h\<lparr> hc_tifa_cb := Some c \<rparr>))"

text \<open>The listener runs before the output is cleared; it may call the driver and write to memory.\<close>

definition hc_tifa_infer_async :: "(hc_tifa_callback \<Rightarrow> hc \<times> host \<Rightarrow> hc \<times> host) \<Rightarrow> nat option \<Rightarrow> u64 \<Rightarrow> nat option \<Rightarrow> u64 \<Rightarrow>
    hc \<Rightarrow> host \<Rightarrow> ((errno + unit) \<times> hc \<times> host) call" where
  "hc_tifa_infer_async invoke inp input_len out output_len h m =
    (if \<not> hc_initialized h then Returns (Inl ENODEV, h, m)
     else case (inp, out) of
       (Some _, Some p) \<Rightarrow>
         if input_len = 0 \<or> output_len = 0 then Returns (Inl EINVAL, h, m)
         else let (h1, m1) = (case hc_tifa_cb h of None \<Rightarrow> (h, m)
                | Some cb \<Rightarrow> (case invoke cb (h, m) of (h', m') \<Rightarrow> (h'\<lparr> hc_wake_events := hc_wake_events h' + 1 \<rparr>, m'))) in
           (case poke m1 p (replicate (unat output_len) 0) of None \<Rightarrow> Undefined
            | Some m2 \<Rightarrow> Returns (Inr (), h1, m2))
     | _ \<Rightarrow> Returns (Inl EINVAL, h, m))"

definition hc_bradlink_get_state :: "bool \<Rightarrow> hc \<Rightarrow> errno + hc_bradlink_state" where
  "hc_bradlink_get_state have_out h =
    (if \<not> hc_initialized h then Inl ENODEV else if \<not> have_out then Inl EINVAL else Inr (hc_bradlink h))"

definition hc_bradlink_tether :: "bool \<Rightarrow> hc \<Rightarrow> (errno + unit) \<times> hc" where
  "hc_bradlink_tether have_addr h =
    (if \<not> hc_initialized h then (Inl ENODEV, h) else if \<not> have_addr then (Inl EINVAL, h)
     else (Inr (), h\<lparr> hc_bradlink := (hc_bradlink h)\<lparr> bl_tethered := True, bl_bandwidth_mbps := 60000, bl_latency_us := 100 \<rparr> \<rparr>))"

definition hc_bradlink_untether :: "hc \<Rightarrow> (errno + unit) \<times> hc" where
  "hc_bradlink_untether h = (if \<not> hc_initialized h then (Inl ENODEV, h) else (Inr (), h\<lparr> hc_bradlink := zero_bradlink \<rparr>))"

end
