(* ===== verification/AtlasProps.thy ===== *)
theory AtlasProps
  imports Atlas
begin

text \<open>
  Properties of the accelerator model: what is handed out of its memory never overlaps as long as no request wraps
  around, and the number of contexts is counted right, in every state its operations reach.
\<close>

section \<open>Operations\<close>

datatype hc_op = HInit u32 u64 | HPower u32 | HSwitch u32 | HGate | HSentinel u32 | HAlloc u64 u32 | HCreate | HDestroy u32
  | HFreeze u32 | HFreezeAll | HListen "hc_tifa_callback option" | HTether | HUntether

text \<open>The state with the allocations since the last successful initialisation.\<close>

type_synonym hc_world = "hc \<times> mvram_alloc list"

fun hc_exec :: "hc_op \<Rightarrow> hc_world \<Rightarrow> hc_world" where
  "hc_exec (HInit t b) (h, log) = (case hc_init t b h of (Inl _, h') \<Rightarrow> (h', log) | (Inr _, h') \<Rightarrow> (h', []))"
| "hc_exec (HPower p) (h, log) = (hc_power_state p h, log)"
| "hc_exec (HSwitch i) (h, log) = (snd (hc_context_switch i h), log)"
| "hc_exec HGate (h, log) = (snd (hc_gpu_power_gate h), log)"
| "hc_exec (HSentinel w) (h, log) = (snd (hc_sentinel_configure w h), log)"
| "hc_exec (HAlloc n i) (h, log) = (case hc_mvram_alloc n i True h of (Inl _, h') \<Rightarrow> (h', log) | (Inr a, h') \<Rightarrow> (h', log @ [a]))"
| "hc_exec HCreate (h, log) = (snd (hc_auc_create_context True h), log)"
| "hc_exec (HDestroy i) (h, log) = (snd (hc_auc_destroy_context i h), log)"
| "hc_exec (HFreeze i) (h, log) = (snd (hc_auc_freeze_context i h), log)"
| "hc_exec HFreezeAll (h, log) = (snd (hc_auc_freeze_all h), log)"
| "hc_exec (HListen cb) (h, log) = (snd (hc_tifa_set_listener cb h), log)"
| "hc_exec HTether (h, log) = (snd (hc_bradlink_tether True h), log)"
| "hc_exec HUntether (h, log) = (snd (hc_bradlink_untether h), log)"

text \<open>The memory does not reach the end of the address space, and no request wraps around.\<close>

fun hc_safe :: "hc_op \<Rightarrow> hc_world \<Rightarrow> bool" where
  "hc_safe (HInit t b) w \<longleftrightarrow> unat b + 2 ^ 30 \<le> 2 ^ 64"
| "hc_safe (HAlloc n i) (h, log) \<longleftrightarrow> unat (hc_mvram_next_addr h) + unat n < 2 ^ 64"
| "hc_safe _ w \<longleftrightarrow> True"

section \<open>Invariant\<close>

text \<open>The allocations follow one another from \<open>lo\<close> to \<open>hi\<close>.\<close>

fun consecutive :: "nat \<Rightarrow> mvram_alloc list \<Rightarrow> nat \<Rightarrow> bool" where
  "consecutive lo [] hi \<longleftrightarrow> lo = hi"
| "consecutive lo (a # as) hi \<longleftrightarrow> unat (ma_addr a) = lo \<and> consecutive (lo + unat (ma_size a)) as hi"

definition extent :: "mvram_alloc \<Rightarrow> nat set" where
  "extent a = {unat (ma_addr a) ..< unat (ma_addr a) + unat (ma_size a)}"

lemma consecutive_append:
  "consecutive lo (as @ [a]) hi \<longleftrightarrow> consecutive lo as (unat (ma_addr a)) \<and> hi = unat (ma_addr a) + unat (ma_size a)"
  by (induction as arbitrary: lo) auto

lemma consecutive_le: "consecutive lo as hi \<Longrightarrow> lo \<le> hi"
  by (induction as arbitrary: lo) force+

lemma consecutive_extent: "consecutive lo as hi \<Longrightarrow> a \<in> set as \<Longrightarrow> extent a \<subseteq> {lo ..< hi}"
proof (induction as arbitrary: lo)
  case (Cons b as)
  then show ?case using consecutive_le [of "lo + unat (ma_size b)" as hi] by (fastforce simp: extent_def)
qed simp

lemma consecutive_apart:
  "consecutive lo as hi \<Longrightarrow> i < j \<Longrightarrow> j < length as \<Longrightarrow> extent (as ! i) \<inter> extent (as ! j) = {}"
proof (induction as arbitrary: lo i j)
  case (Cons b as)
  show ?case
  proof (cases i)
    case 0
    then obtain k where k: "j = Suc k" "k < length as" using Cons.prems by (cases j) auto
    have "extent (as ! k) \<subseteq> {lo + unat (ma_size b) ..< hi}"
      using Cons.prems k by (intro consecutive_extent [of _ as]) simp_all
    then show ?thesis using Cons.prems k 0 by (auto simp: extent_def)
  next
    case (Suc m)
    then obtain k where k: "j = Suc k" "m < k" "k < length as" using Cons.prems by (cases j) auto
    have "consecutive (lo + unat (ma_size b)) as hi" using Cons.prems(1) by simp
    from Cons.IH [OF this k(2,3)] show ?thesis using k(1) Suc by simp
  qed
qed simp

lemma consecutive_sum: "consecutive lo as hi \<Longrightarrow> lo + (\<Sum>a \<leftarrow> as. unat (ma_size a)) = hi"
  by (induction as arbitrary: lo) force+

definition mvram_end :: "hc \<Rightarrow> nat" where
  "mvram_end h = unat (hc_mvram_base h) + unat (hs_mvram_bytes (hc_sku h))"

definition hc_inv :: "hc_world \<Rightarrow> bool" where
  "hc_inv = (\<lambda>(h, log). length (hc_contexts h) = HC_MAX_CONTEXTS \<and> unat (hc_num_contexts h) = active_count h \<and>
     mvram_end h < 2 ^ 64 \<and> unat (hc_mvram_next_addr h) \<le> mvram_end h \<and>
     consecutive (unat (hc_mvram_base h)) log (unat (hc_mvram_next_addr h)) \<and>
     unat (hc_mvram_alloc_total h) = (\<Sum>a \<leftarrow> log. unat (ma_size a)))"

lemma active_le: "length (hc_contexts h) = HC_MAX_CONTEXTS \<Longrightarrow> active_count h \<le> 256"
  using length_filter_le [of cx_active "hc_contexts h"] by (simp add: active_count_def HC_MAX_CONTEXTS_def)

lemma count_update:
  assumes "i < length cs"
  shows "length (filter cx_active (cs[i := c])) + (if cx_active (cs ! i) then 1 else 0)
    = length (filter cx_active cs) + (if cx_active c then 1 else 0)"
  using assms
proof (induction cs arbitrary: i)
  case (Cons b cs)
  then show ?case by (cases i) auto
qed simp

lemma first_inactive_Some: "first_inactive cs = Some i \<Longrightarrow> i < length cs \<and> \<not> cx_active (cs ! i)"
  by (induction cs arbitrary: i) (auto split: if_splits)

lemma init_hc_inv:
  assumes "hc_init t b h = (Inr u, h')" "unat b + 2 ^ 30 \<le> 2 ^ 64"
  shows "hc_inv (h', [])"
proof -
  obtain cfg where cfg: "get_sku_for_tier t = Some cfg" and h': "hc_sku h' = cfg" "hc_mvram_base h' = b" "hc_mvram_next_addr h' = b"
      "hc_contexts h' = replicate HC_MAX_CONTEXTS zero_context" "hc_num_contexts h' = 0" "hc_mvram_alloc_total h' = 0"
    using assms(1) by (auto simp: hc_init_def split: if_splits option.splits)
  have "cfg \<in> set hc_sku_configs" using cfg by (auto simp: get_sku_for_tier_def find_Some_iff)
  then have "unat (hs_mvram_bytes cfg) < 2 ^ 30" by (auto simp: hc_sku_configs_def)
  then have "mvram_end h' < 2 ^ 64" using assms(2) h' by (simp add: mvram_end_def)
  then show ?thesis using h' by (simp add: hc_inv_def mvram_end_def active_count_def zero_context_def)
qed

lemma unat_add_fits: "unat (a :: u64) + unat b < 2 ^ 64 \<Longrightarrow> unat (a + b) = unat a + unat b"
  by (simp add: unat_word_ariths)

lemma alloc_hc_inv:
  assumes "hc_inv (h, log)" "hc_mvram_alloc n i True h = (Inr a, h')" "unat (hc_mvram_next_addr h) + unat n < 2 ^ 64"
  shows "hc_inv (h', log @ [a])"
proof -
  have sum: "unat (hc_mvram_next_addr h + n) = unat (hc_mvram_next_addr h) + unat n" by (rule unat_add_fits [OF assms(3)])
  have lim: "unat (hc_mvram_base h + hs_mvram_bytes (hc_sku h)) = mvram_end h"
    unfolding mvram_end_def by (rule unat_add_fits) (use assms(1) in \<open>simp add: hc_inv_def mvram_end_def\<close>)
  have ok: "\<not> no_context i" "unat (hc_mvram_next_addr h) + unat n \<le> mvram_end h"
      "a = \<lparr> ma_addr = hc_mvram_next_addr h, ma_size = n, ma_context_id = i, ma_pinned = False \<rparr>"
      "hc_mvram_next_addr h' = hc_mvram_next_addr h + n" "hc_mvram_alloc_total h' = hc_mvram_alloc_total h + n"
      "mvram_end h' = mvram_end h" "hc_mvram_base h' = hc_mvram_base h" "hc_num_contexts h' = hc_num_contexts h"
    using assms(2) by (auto simp: hc_mvram_alloc_def Let_def not_less word_le_nat_alt sum lim mvram_end_def split: if_splits)
  have "length (hc_contexts h') = length (hc_contexts h) \<and> active_count h' = active_count h"
    using assms(1,2) ok(1) count_update [of "unat i" "hc_contexts h"
      "(hc_contexts h ! unat i)\<lparr> cx_mvram_used := cx_mvram_used (hc_contexts h ! unat i) + n \<rparr>"]
    by (auto simp: hc_mvram_alloc_def Let_def active_count_def hc_inv_def no_context_def split: if_splits)
  moreover have "unat (hc_mvram_alloc_total h + n) = unat (hc_mvram_alloc_total h) + unat n"
    by (rule unat_add_fits) (use assms(1,3) consecutive_sum in \<open>fastforce simp: hc_inv_def\<close>)
  ultimately show ?thesis using assms(1) ok sum by (simp add: hc_inv_def consecutive_append)
qed

lemma hc_inv_frame:
  assumes "hc_inv (h, log)" "hc_contexts h' = hc_contexts h" "hc_num_contexts h' = hc_num_contexts h" "hc_sku h' = hc_sku h"
    "hc_mvram_base h' = hc_mvram_base h" "hc_mvram_next_addr h' = hc_mvram_next_addr h" "hc_mvram_alloc_total h' = hc_mvram_alloc_total h"
  shows "hc_inv (h', log)"
  using assms by (simp add: hc_inv_def mvram_end_def active_count_def)

lemma hc_inv_contexts:
  assumes "hc_inv (h, log)" "length cs = HC_MAX_CONTEXTS" "unat n = length (filter cx_active cs)"
  shows "hc_inv (h\<lparr> hc_contexts := cs, hc_num_contexts := n \<rparr>, log)"
  using assms by (simp add: hc_inv_def mvram_end_def active_count_def)

lemma create_hc_inv: "hc_inv (h, log) \<Longrightarrow> hc_inv (snd (hc_auc_create_context True h), log)"
proof -
  assume inv: "hc_inv (h, log)"
  then have len: "length (hc_contexts h) = HC_MAX_CONTEXTS" "unat (hc_num_contexts h) = length (filter cx_active (hc_contexts h))"
    by (simp_all add: hc_inv_def active_count_def)
  have "unat (hc_num_contexts h) + 1 < 2 ^ 32" using active_le [OF len(1)] len(2) by (simp add: active_count_def)
  then have n: "unat (hc_num_contexts h + 1) = Suc (unat (hc_num_contexts h))" by (simp add: unat_word_ariths)
  show ?thesis
  proof (cases "first_inactive (hc_contexts h)")
    case (Some i)
    note f = first_inactive_Some [OF Some]
    have "unat (hc_num_contexts h + 1) = length (filter cx_active ((hc_contexts h)[i := zero_context\<lparr> cx_active := True \<rparr>]))"
      using count_update [of i "hc_contexts h" "zero_context\<lparr> cx_active := True \<rparr>"] f n len(2) by simp
    then show ?thesis using inv len Some hc_inv_contexts [OF inv] by (simp add: hc_auc_create_context_def)
  qed (use inv in \<open>simp add: hc_auc_create_context_def\<close>)
qed

lemma destroy_hc_inv: "hc_inv (h, log) \<Longrightarrow> hc_inv (snd (hc_auc_destroy_context i h), log)"
proof -
  assume inv: "hc_inv (h, log)"
  then have len: "length (hc_contexts h) = HC_MAX_CONTEXTS" "unat (hc_num_contexts h) = length (filter cx_active (hc_contexts h))"
    by (simp_all add: hc_inv_def active_count_def)
  show ?thesis
  proof (cases "hc_initialized h \<and> \<not> no_context i \<and> context_active h i")
    case True
    then have i: "unat i < length (hc_contexts h)" "cx_active (hc_contexts h ! unat i)"
      using len by (auto simp: no_context_def context_active_def)
    have c: "Suc (length (filter cx_active ((hc_contexts h)[unat i := zero_context]))) = unat (hc_num_contexts h)"
      using count_update [OF i(1), of zero_context] i len(2) by (simp add: zero_context_def)
    then have "unat (hc_num_contexts h - 1) = length (filter cx_active ((hc_contexts h)[unat i := zero_context]))"
      by (subst unat_sub) (simp_all add: word_le_nat_alt)
    then show ?thesis using True inv len hc_inv_contexts [OF inv] by (simp add: hc_auc_destroy_context_def)
  qed (use inv in \<open>auto simp: hc_auc_destroy_context_def\<close>)
qed

lemma freeze_hc_inv: "hc_inv (h, log) \<Longrightarrow> hc_inv (snd (hc_auc_freeze_context i h), log)"
  "hc_inv (h, log) \<Longrightarrow> hc_inv (snd (hc_auc_freeze_all h), log)"
proof -
  assume inv: "hc_inv (h, log)"
  have all: "cx_active \<circ> freeze = cx_active" by (rule ext) (simp add: freeze_def)
  show "hc_inv (snd (hc_auc_freeze_all h), log)" using inv by (auto simp: hc_auc_freeze_all_def hc_inv_def active_count_def all mvram_end_def filter_map)
  show "hc_inv (snd (hc_auc_freeze_context i h), log)"
    using inv count_update [of "unat i" "hc_contexts h" "(hc_contexts h ! unat i)\<lparr> cx_frozen := True \<rparr>"]
    by (auto simp: hc_auc_freeze_context_def hc_inv_def active_count_def mvram_end_def no_context_def context_active_def)
qed

lemma hc_step_inv: "hc_inv w \<Longrightarrow> hc_safe c w \<Longrightarrow> hc_inv (hc_exec c w)"
proof -
  assume inv: "hc_inv w" and safe: "hc_safe c w"
  obtain h log where w: "w = (h, log)" by (cases w)
  note i = inv [unfolded w]
  show ?thesis unfolding w
  proof (cases c)
    case (HInit t b)
    then show "hc_inv (hc_exec c (h, log))" using safe w i init_hc_inv [of t b h]
      by (cases "fst (hc_init t b h)"; cases "hc_init t b h")
        (auto simp: hc_init_def split: if_splits option.splits)
  next
    case (HAlloc n j)
    then show "hc_inv (hc_exec c (h, log))" using safe w i alloc_hc_inv [OF i, of n j]
      by (cases "fst (hc_mvram_alloc n j True h)"; cases "hc_mvram_alloc n j True h")
        (auto simp: hc_mvram_alloc_def Let_def split: if_splits)
  qed (use i hc_inv_frame [OF i] create_hc_inv destroy_hc_inv freeze_hc_inv in
    \<open>auto simp: hc_power_state_def hc_context_switch_def hc_gpu_power_gate_def hc_sentinel_configure_def hc_tifa_set_listener_def
      hc_bradlink_tether_def hc_bradlink_untether_def split: option.split\<close>)
qed

interpretation atlas: op_machine hc_exec hc_safe hc_inv "(hc_zero, [])"
proof
  show "hc_inv (hc_zero, [])" by (simp add: hc_inv_def hc_zero_def mvram_end_def active_count_def zero_context_def)
qed (rule hc_step_inv)

text \<open>C30: In every state that calls reach from the start, none of whose requests wraps around, the allocations handed out since
  the initialisation are pairwise disjoint and inside the memory of the tier, their sizes add up to the reported
  total, and the number of contexts is the number of active ones.\<close>

theorem hc_mvram_disjoint:
  assumes "atlas.run_safe ops (hc_zero, [])" "(h, log) = atlas.run ops (hc_zero, [])"
  shows "(\<forall>i j. i < j \<longrightarrow> j < length log \<longrightarrow> extent (log ! i) \<inter> extent (log ! j) = {}) \<and>
    (\<forall>a \<in> set log. extent a \<subseteq> {unat (hc_mvram_base h) ..< unat (hc_mvram_base h) + unat (hs_mvram_bytes (hc_sku h))}) \<and>
    unat (hc_mvram_alloc_total h) = (\<Sum>a \<leftarrow> log. unat (ma_size a)) \<and> unat (hc_num_contexts h) = active_count h"
proof -
  have inv: "hc_inv (h, log)" unfolding assms(2) by (rule atlas.run_inv [OF atlas.init_inv assms(1)])
  then have c: "consecutive (unat (hc_mvram_base h)) log (unat (hc_mvram_next_addr h))"
    and e: "unat (hc_mvram_next_addr h) \<le> unat (hc_mvram_base h) + unat (hs_mvram_bytes (hc_sku h))"
    by (simp_all add: hc_inv_def mvram_end_def)
  have "extent a \<subseteq> {unat (hc_mvram_base h) ..< unat (hc_mvram_base h) + unat (hs_mvram_bytes (hc_sku h))}" if "a \<in> set log" for a
    using consecutive_extent [OF c that] e by fastforce
  then show ?thesis using inv consecutive_apart [OF c] by (auto simp: hc_inv_def)
qed

definition demo_hc_ops :: "hc_op list" where
  "demo_hc_ops = [HInit 1 0x10000000, HCreate, HAlloc 4096 1, HAlloc 100 0]"

lemma first_inactive_zeros: "\<not> cx_active c \<Longrightarrow> first_inactive (replicate n c) = (if n = 0 then None else Some 0)"
  by (cases n) simp_all

lemmas demo_hc_simps = demo_hc_ops_def atlas.run_safe.simps atlas.run.simps hc_zero_def hc_init_def get_sku_for_tier_def
  hc_sku_configs_def hc_auc_create_context_def hc_mvram_alloc_def no_context_def context_active_def HC_MAX_CONTEXTS_def
  first_inactive_zeros zero_context_def Let_def

lemma hc_mvram_disjoint_witness:
  "\<exists>h log. (h, log) = atlas.run demo_hc_ops (hc_zero, []) \<and> length log = 2 \<and> extent (log ! 0) \<inter> extent (log ! 1) = {} \<and>
     unat (hc_num_contexts h) = active_count h"
proof -
  have safe: "atlas.run_safe demo_hc_ops (hc_zero, [])" by (simp add: demo_hc_simps)
  obtain h log where r: "(h, log) = atlas.run demo_hc_ops (hc_zero, [])" by (cases "atlas.run demo_hc_ops (hc_zero, [])") simp
  have "length (snd (atlas.run demo_hc_ops (hc_zero, []))) = 2" by (simp add: demo_hc_simps)
  then have len: "length log = 2" by (simp flip: r)
  note p = hc_mvram_disjoint [OF safe r]
  have "extent (log ! 0) \<inter> extent (log ! 1) = {}" using p len by simp
  then show ?thesis using p r len by blast
qed

text \<open>A request that wraps around succeeds and moves the allocator back: the memory handed out before is handed out again.\<close>

lemma alloc_wraps:
  "case hc_init 0 0x1000 hc_zero of (_, h0) \<Rightarrow> case hc_mvram_alloc 64 0 True h0 of (r1, h1) \<Rightarrow>
     case hc_mvram_alloc (- 64) 0 True h1 of (r2, h2) \<Rightarrow> case hc_mvram_alloc 64 0 True h2 of (r3, h3) \<Rightarrow>
       (\<exists>a. r2 = Inr a) \<and> r1 = Inr \<lparr> ma_addr = 0x1000, ma_size = 64, ma_context_id = 0, ma_pinned = False \<rparr> \<and> r3 = r1"
  by (simp add: hc_init_def get_sku_for_tier_def hc_sku_configs_def hc_mvram_alloc_def no_context_def HC_MAX_CONTEXTS_def)

end
