(* ===== verification/BradSoc.thy ===== *)
theory BradSoc
  imports Prelude HostMem
begin

text \<open>
  The configuration model of the CPU chips, \<open>drivers/bradcore.c\<close>: the table of products, clusters and cores, names and
  product codes. The cores are the two-dimensional array of the code in the order of memory: the code indexes the
  rows of four beyond their end, which reaches into the next row; beyond the last row the access is undefined
  (\<open>None\<close>). Counters and settings that are written but never read are kept where another operation returns them.
\<close>

section \<open>Products\<close>

datatype brad_core_type = BRAD_CORE_PHOENIX | BRAD_CORE_FALCON | BRAD_CORE_SENTINEL

datatype brad_core_series = BRAD_SERIES_C | BRAD_SERIES_G | BRAD_SERIES_W

datatype brad_core_suffix = BRAD_SUFFIX_NONE | BRAD_SUFFIX_E | BRAD_SUFFIX_U | BRAD_SUFFIX_FP

datatype brad_core_sku = BRAD_CORE_P1E4 | BRAD_CORE_P2E4 | BRAD_CORE_P4E4 | BRAD_CORE_P6E4 | BRAD_CORE_P4E8
  | BRAD_CORE_P8E4 | BRAD_CORE_P8E8 | BRAD_CORE_G60 | BRAD_CORE_G80 | BRAD_CORE_W88 | BRAD_CORE_W816

datatype brad_platform_tier = BRAD_PLATFORM_MIND_LITE | BRAD_PLATFORM_MIND_STANDARD | BRAD_PLATFORM_MIND_PRO
  | BRAD_PLATFORM_MIND_ELITE | BRAD_PLATFORM_NEURO_ULTRA | BRAD_PLATFORM_NEURO_ELITE | BRAD_PLATFORM_XON

datatype brad_process_node = BRAD_PROCESS_4NM | BRAD_PROCESS_3NM | BRAD_PROCESS_2NM

datatype brad_gen = BRAD_GEN_KINETIC | BRAD_GEN_SYNAPTIC | BRAD_GEN_QUANTUM

datatype brad_core_consumer_tier = BRAD_CONSUMER_K3 | BRAD_CONSUMER_K5 | BRAD_CONSUMER_K7 | BRAD_CONSUMER_K9
  | BRAD_CONSUMER_ULTRA5 | BRAD_CONSUMER_ULTRA7 | BRAD_CONSUMER_ULTRA9

datatype brad_core_power_state = BRAD_PSTATE_TURBO | BRAD_PSTATE_BALANCED | BRAD_PSTATE_EFFICIENT
  | BRAD_PSTATE_RETENTION | BRAD_PSTATE_OFF

text \<open>Enumerations from their numbers.\<close>

definition all_skus :: "brad_core_sku list" where
  "all_skus = [BRAD_CORE_P1E4, BRAD_CORE_P2E4, BRAD_CORE_P4E4, BRAD_CORE_P6E4, BRAD_CORE_P4E8, BRAD_CORE_P8E4,
     BRAD_CORE_P8E8, BRAD_CORE_G60, BRAD_CORE_G80, BRAD_CORE_W88, BRAD_CORE_W816]"

definition all_platforms :: "brad_platform_tier list" where
  "all_platforms = [BRAD_PLATFORM_MIND_LITE, BRAD_PLATFORM_MIND_STANDARD, BRAD_PLATFORM_MIND_PRO,
     BRAD_PLATFORM_MIND_ELITE, BRAD_PLATFORM_NEURO_ULTRA, BRAD_PLATFORM_NEURO_ELITE, BRAD_PLATFORM_XON]"

fun platform_num :: "brad_platform_tier \<Rightarrow> u32" where
  "platform_num BRAD_PLATFORM_MIND_LITE = 0"
| "platform_num BRAD_PLATFORM_MIND_STANDARD = 1"
| "platform_num BRAD_PLATFORM_MIND_PRO = 2"
| "platform_num BRAD_PLATFORM_MIND_ELITE = 3"
| "platform_num BRAD_PLATFORM_NEURO_ULTRA = 4"
| "platform_num BRAD_PLATFORM_NEURO_ELITE = 5"
| "platform_num BRAD_PLATFORM_XON = 6"

definition all_power_states :: "brad_core_power_state list" where
  "all_power_states = [BRAD_PSTATE_TURBO, BRAD_PSTATE_BALANCED, BRAD_PSTATE_EFFICIENT, BRAD_PSTATE_RETENTION, BRAD_PSTATE_OFF]"

record brad_core_sku_cfg =
  kc_sku :: brad_core_sku
  kc_name :: string
  kc_model_code :: string
  kc_phoenix_count :: u32
  kc_falcon_count :: u32
  kc_platform :: brad_platform_tier
  kc_process :: brad_process_node
  kc_freq_max_mhz :: u32
  kc_freq_falcon_mhz :: u32
  kc_tdp_w :: u32
  kc_l3_cache_kb :: u32
  kc_series :: brad_core_series
  kc_suffix :: brad_core_suffix

text \<open>An entry of the table; the suffix is the same everywhere.\<close>

definition sku_entry :: "brad_core_sku \<Rightarrow> string \<Rightarrow> string \<Rightarrow> u32 \<Rightarrow> u32 \<Rightarrow> brad_platform_tier \<Rightarrow> brad_process_node \<Rightarrow>
    u32 \<Rightarrow> u32 \<Rightarrow> u32 \<Rightarrow> u32 \<Rightarrow> brad_core_series \<Rightarrow> brad_core_sku_cfg" where
  "sku_entry sku name code p f pl proc fmax ffal tdp l3 series =
    \<lparr> kc_sku = sku, kc_name = name, kc_model_code = code, kc_phoenix_count = p, kc_falcon_count = f, kc_platform = pl,
      kc_process = proc, kc_freq_max_mhz = fmax, kc_freq_falcon_mhz = ffal, kc_tdp_w = tdp, kc_l3_cache_kb = l3,
      kc_series = series, kc_suffix = BRAD_SUFFIX_NONE \<rparr>"

definition sku_configs :: "brad_core_sku_cfg list" where
  "sku_configs =
    [sku_entry BRAD_CORE_P1E4 ''BradCore P1+E4'' ''C11-4'' 1 4 BRAD_PLATFORM_MIND_LITE BRAD_PROCESS_4NM 2400 1800 10 4096 BRAD_SERIES_C,
     sku_entry BRAD_CORE_P2E4 ''BradCore P2+E4'' ''C12-4'' 2 4 BRAD_PLATFORM_MIND_STANDARD BRAD_PROCESS_4NM 2800 1900 15 8192 BRAD_SERIES_C,
     sku_entry BRAD_CORE_P4E4 ''BradCore P4+E4'' ''C14-4'' 4 4 BRAD_PLATFORM_MIND_PRO BRAD_PROCESS_3NM 3200 2000 25 12288 BRAD_SERIES_C,
     sku_entry BRAD_CORE_P6E4 ''BradCore P6+E4'' ''C16-4'' 6 4 BRAD_PLATFORM_MIND_ELITE BRAD_PROCESS_3NM 3600 2000 40 16384 BRAD_SERIES_C,
     sku_entry BRAD_CORE_P4E8 ''BradCore P4+E8'' ''C14-8'' 4 8 BRAD_PLATFORM_NEURO_ULTRA BRAD_PROCESS_2NM 3800 2200 55 24576 BRAD_SERIES_C,
     sku_entry BRAD_CORE_P8E4 ''BradCore P8+E4'' ''C18-4'' 8 4 BRAD_PLATFORM_NEURO_ELITE BRAD_PROCESS_2NM 4000 2200 65 32768 BRAD_SERIES_C,
     sku_entry BRAD_CORE_P8E8 ''BradCore P8+E8'' ''C18-8'' 8 8 BRAD_PLATFORM_XON BRAD_PROCESS_2NM 4200 2400 95 49152 BRAD_SERIES_C,
     sku_entry BRAD_CORE_G60 ''BradCore G6+E0'' ''G16-0'' 6 0 BRAD_PLATFORM_XON BRAD_PROCESS_2NM 5000 0 85 24576 BRAD_SERIES_G,
     sku_entry BRAD_CORE_G80 ''BradCore G8+E0'' ''G18-0'' 8 0 BRAD_PLATFORM_XON BRAD_PROCESS_2NM 5200 0 120 32768 BRAD_SERIES_G,
     sku_entry BRAD_CORE_W88 ''BradCore W8+E8'' ''W18-8'' 8 8 BRAD_PLATFORM_XON BRAD_PROCESS_2NM 4000 2600 125 65536 BRAD_SERIES_W,
     sku_entry BRAD_CORE_W816 ''BradCore W8+E16'' ''W18-16'' 8 16 BRAD_PLATFORM_XON BRAD_PROCESS_2NM 3800 2600 150 98304 BRAD_SERIES_W]"

record sku_naming =
  nm_sku :: brad_core_sku
  nm_consumer_name :: string
  nm_model_code :: string
  nm_gen :: brad_gen
  nm_consumer_tier :: brad_core_consumer_tier
  nm_series :: brad_core_series
  nm_suffix :: brad_core_suffix
  nm_hidden_sku_code :: u32

definition naming_entry :: "brad_core_sku \<Rightarrow> string \<Rightarrow> string \<Rightarrow> brad_core_consumer_tier \<Rightarrow> brad_core_series \<Rightarrow> u32 \<Rightarrow> sku_naming" where
  "naming_entry sku name code tier series hidden =
    \<lparr> nm_sku = sku, nm_consumer_name = name, nm_model_code = code, nm_gen = BRAD_GEN_KINETIC, nm_consumer_tier = tier,
      nm_series = series, nm_suffix = BRAD_SUFFIX_NONE, nm_hidden_sku_code = hidden \<rparr>"

definition sku_namings :: "sku_naming list" where
  "sku_namings =
    [naming_entry BRAD_CORE_P1E4 ''BradCore K3-141'' ''C11-4'' BRAD_CONSUMER_K3 BRAD_SERIES_C 141,
     naming_entry BRAD_CORE_P2E4 ''BradCore K5-242'' ''C12-4'' BRAD_CONSUMER_K5 BRAD_SERIES_C 242,
     naming_entry BRAD_CORE_P4E4 ''BradCore K5-443'' ''C14-4'' BRAD_CONSUMER_K5 BRAD_SERIES_C 443,
     naming_entry BRAD_CORE_P6E4 ''BradCore K7-644'' ''C16-4'' BRAD_CONSUMER_K7 BRAD_SERIES_C 644,
     naming_entry BRAD_CORE_P4E8 ''BradCore K9-485'' ''C14-8'' BRAD_CONSUMER_K9 BRAD_SERIES_C 485,
     naming_entry BRAD_CORE_P8E4 ''BradCore Ultra 5-846'' ''C18-4'' BRAD_CONSUMER_ULTRA5 BRAD_SERIES_C 846,
     naming_entry BRAD_CORE_P8E8 ''BradCore Ultra 7-887'' ''C18-8'' BRAD_CONSUMER_ULTRA7 BRAD_SERIES_C 887,
     naming_entry BRAD_CORE_G60 ''BradCore GameForce G1-60'' ''G16-0'' BRAD_CONSUMER_ULTRA7 BRAD_SERIES_G 960,
     naming_entry BRAD_CORE_G80 ''BradCore GameForce G1-80'' ''G18-0'' BRAD_CONSUMER_ULTRA9 BRAD_SERIES_G 980,
     naming_entry BRAD_CORE_W88 ''BradCore ProForge W1-88'' ''W18-8'' BRAD_CONSUMER_ULTRA9 BRAD_SERIES_W 188,
     naming_entry BRAD_CORE_W816 ''BradCore ProForge W1-816'' ''W18-16'' BRAD_CONSUMER_ULTRA9 BRAD_SERIES_W 816]"

definition get_sku_cfg :: "brad_core_sku \<Rightarrow> brad_core_sku_cfg option" where
  "get_sku_cfg sku = List.find (\<lambda>cfg. kc_sku cfg = sku) sku_configs"

definition get_naming :: "brad_core_sku \<Rightarrow> sku_naming option" where
  "get_naming sku = List.find (\<lambda>n. nm_sku n = sku) sku_namings"

section \<open>State\<close>

record core_state =
  cs_type :: brad_core_type
  cs_freq_mhz :: u32
  cs_volt_mv :: u32
  cs_p_state :: brad_core_power_state
  cs_initialized :: bool
  cs_running :: bool
  cs_cycles :: u64

record cluster_state =
  cl_num_phoenix :: u32
  cl_num_falcon :: u32
  cl_l2_size_kb :: u32
  cl_l2_way_mask :: u32
  cl_snoop_enabled :: int
  cl_initialized :: bool

record bc =
  bc_sku :: brad_core_sku
  bc_initialized :: bool
  bc_cores :: "core_state list"
  bc_clusters :: "cluster_state list"
  bc_active_clusters :: u32
  bc_freq_current :: u32
  bc_p_state :: brad_core_power_state
  bc_temp_c :: u32

text \<open>\<open>BRAD_CORE_PHX_PER_CLUSTER\<close> and \<open>BRAD_CORE_FAL_PER_CLUSTER\<close> are both 4, the clusters are 4 at most.\<close>

definition BRAD_CORE_PHX_PER_CLUSTER :: nat where "BRAD_CORE_PHX_PER_CLUSTER = 4"

definition BRAD_CORE_FAL_PER_CLUSTER :: nat where "BRAD_CORE_FAL_PER_CLUSTER = 4"

definition MAX_CLUSTERS :: nat where "MAX_CLUSTERS = 4"

definition zero_core_state :: core_state where
  "zero_core_state = \<lparr> cs_type = BRAD_CORE_PHOENIX, cs_freq_mhz = 0, cs_volt_mv = 0, cs_p_state = BRAD_PSTATE_TURBO,
     cs_initialized = False, cs_running = False, cs_cycles = 0 \<rparr>"

definition zero_cluster :: cluster_state where
  "zero_cluster = \<lparr> cl_num_phoenix = 0, cl_num_falcon = 0, cl_l2_size_kb = 0, cl_l2_way_mask = 0, cl_snoop_enabled = 0,
     cl_initialized = False \<rparr>"

definition bc_zero :: bc where
  "bc_zero = \<lparr> bc_sku = BRAD_CORE_P1E4, bc_initialized = False,
     bc_cores = replicate (MAX_CLUSTERS * BRAD_CORE_PHX_PER_CLUSTER) zero_core_state,
     bc_clusters = replicate MAX_CLUSTERS zero_cluster, bc_active_clusters = 0, bc_freq_current = 0,
     bc_p_state = BRAD_PSTATE_TURBO, bc_temp_c = 0 \<rparr>"

text \<open>\<open>cores[c][i]\<close>, read and written in place.\<close>

definition core_slot :: "nat \<Rightarrow> nat \<Rightarrow> nat" where
  "core_slot c i = c * BRAD_CORE_PHX_PER_CLUSTER + i"

definition upd_core :: "nat \<Rightarrow> nat \<Rightarrow> (core_state \<Rightarrow> core_state) \<Rightarrow> bc \<Rightarrow> bc option" where
  "upd_core c i f s = (if core_slot c i < length (bc_cores s)
     then Some (s\<lparr> bc_cores := (bc_cores s)[core_slot c i := f (bc_cores s ! core_slot c i)] \<rparr>) else None)"

definition upd_cluster :: "nat \<Rightarrow> (cluster_state \<Rightarrow> cluster_state) \<Rightarrow> bc \<Rightarrow> bc" where
  "upd_cluster c f s = s\<lparr> bc_clusters := (bc_clusters s)[c := f (bc_clusters s ! c)] \<rparr>"

section \<open>Initialisation\<close>

definition phoenix_core :: "u32 \<Rightarrow> core_state \<Rightarrow> core_state" where
  "phoenix_core freq k = k\<lparr> cs_type := BRAD_CORE_PHOENIX, cs_freq_mhz := freq, cs_volt_mv := 950,
     cs_p_state := BRAD_PSTATE_BALANCED, cs_initialized := True \<rparr>"

definition falcon_core :: "u32 \<Rightarrow> core_state \<Rightarrow> core_state" where
  "falcon_core freq k = k\<lparr> cs_type := BRAD_CORE_FALCON, cs_freq_mhz := freq, cs_volt_mv := 700,
     cs_p_state := BRAD_PSTATE_EFFICIENT, cs_initialized := True \<rparr>"

text \<open>A cluster of \<open>np\<close> and \<open>nf\<close> cores.\<close>

definition init_soc_cluster :: "brad_core_sku_cfg \<Rightarrow> nat \<Rightarrow> nat \<Rightarrow> nat \<Rightarrow> bc \<Rightarrow> bc option" where
  "init_soc_cluster cfg c np nf s =
    (let s0 = upd_cluster c (\<lambda>k. k\<lparr> cl_num_phoenix := of_nat np, cl_num_falcon := of_nat nf, cl_l2_size_kb := 512,
           cl_l2_way_mask := 0xFF, cl_snoop_enabled := 1, cl_initialized := True \<rparr>) s in
     Option.bind (run_each (\<lambda>i. upd_core c i (phoenix_core (kc_freq_max_mhz cfg))) [0..<np] s0) (\<lambda>s1.
     Option.bind (run_each (\<lambda>i. upd_core c (np + i) (falcon_core (kc_freq_falcon_mhz cfg))) [0..<nf] s1) (\<lambda>s2.
     Option.bind (run_each (\<lambda>i. upd_core c i (\<lambda>k. k\<lparr> cs_initialized := False \<rparr>))
         [np + nf..<BRAD_CORE_PHX_PER_CLUSTER + BRAD_CORE_FAL_PER_CLUSTER] s2) (\<lambda>s3.
     Some (s3\<lparr> bc_active_clusters := bc_active_clusters s3 + 1 \<rparr>)))))"

text \<open>The loop over the clusters, with the cores that are left.\<close>

definition soc_cluster_round :: "brad_core_sku_cfg \<Rightarrow> nat \<Rightarrow> nat \<times> nat \<times> bc \<Rightarrow> (nat \<times> nat \<times> bc) option" where
  "soc_cluster_round cfg c = (\<lambda>(total_p, total_f, s).
     if total_p = 0 \<and> total_f = 0 then Some (total_p, total_f, s)
     else let np = min total_p BRAD_CORE_PHX_PER_CLUSTER; nf = min total_f BRAD_CORE_FAL_PER_CLUSTER in
       map_option (\<lambda>s'. (total_p - np, total_f - nf, s')) (init_soc_cluster cfg c np nf s))"

definition brad_soc_init :: "u32 \<Rightarrow> bc \<Rightarrow> ((errno + unit) \<times> bc) option" where
  "brad_soc_init sku s =
    (if length all_skus \<le> unat sku then Some (Inl EINVAL, s)
     else case get_sku_cfg (all_skus ! unat sku) of None \<Rightarrow> Some (Inl EINVAL, s)
     | Some cfg \<Rightarrow>
       let s0 = bc_zero\<lparr> bc_sku := all_skus ! unat sku, bc_freq_current := kc_freq_max_mhz cfg,
             bc_p_state := BRAD_PSTATE_BALANCED, bc_temp_c := 35 \<rparr> in
       map_option (\<lambda>(_, _, s'). (Inr (), s'\<lparr> bc_initialized := True \<rparr>))
         (run_each (soc_cluster_round cfg) [0..<MAX_CLUSTERS] (unat (kc_phoenix_count cfg), unat (kc_falcon_count cfg), s0)))"

section \<open>Cores\<close>

definition cluster_at :: "bc \<Rightarrow> u32 \<Rightarrow> cluster_state" where
  "cluster_at s cluster = bc_clusters s ! unat cluster"

definition cluster_has_core :: "bc \<Rightarrow> u32 \<Rightarrow> u32 \<Rightarrow> brad_core_type \<Rightarrow> bool" where
  "cluster_has_core s cluster core_id ty =
    (if bc_active_clusters s \<le> cluster then False
     else case get_sku_cfg (bc_sku s) of None \<Rightarrow> False
     | Some _ \<Rightarrow> if ty = BRAD_CORE_PHOENIX then core_id < cl_num_phoenix (cluster_at s cluster)
         else core_id < cl_num_falcon (cluster_at s cluster))"

definition brad_core_init :: "brad_core_type \<Rightarrow> u32 \<Rightarrow> u32 \<Rightarrow> bc \<Rightarrow> ((errno + unit) \<times> bc) option" where
  "brad_core_init ty cluster core_in_cluster s =
    (if \<not> bc_initialized s then Some (Inl ENODEV, s)
     else if bc_active_clusters s \<le> cluster then Some (Inl EINVAL, s)
     else if \<not> cluster_has_core s cluster core_in_cluster ty then Some (Inl EINVAL, s)
     else let idx = (if ty = BRAD_CORE_FALCON then core_in_cluster + cl_num_phoenix (cluster_at s cluster) else core_in_cluster) in
       map_option (Pair (Inr ())) (upd_core (unat cluster) (unat idx) (\<lambda>k. k\<lparr> cs_initialized := True, cs_running := False,
         cs_cycles := 0, cs_p_state := (if ty = BRAD_CORE_PHOENIX then BRAD_PSTATE_BALANCED else BRAD_PSTATE_EFFICIENT) \<rparr>) s))"

text \<open>The checks that the operations on a core share.\<close>

definition core_refused :: "bc \<Rightarrow> u32 \<Rightarrow> u32 \<Rightarrow> errno option" where
  "core_refused s cluster core =
    (if \<not> bc_initialized s then Some ENODEV
     else if bc_active_clusters s \<le> cluster then Some EINVAL
     else if BRAD_CORE_PHX_PER_CLUSTER + BRAD_CORE_FAL_PER_CLUSTER \<le> unat core then Some EINVAL
     else None)"

definition set_running :: "bool \<Rightarrow> u32 \<Rightarrow> u32 \<Rightarrow> bc \<Rightarrow> ((errno + unit) \<times> bc) option" where
  "set_running b cluster core s =
    (case core_refused s cluster core of Some e \<Rightarrow> Some (Inl e, s)
     | None \<Rightarrow> if length (bc_cores s) \<le> core_slot (unat cluster) (unat core) then None
       else if \<not> cs_initialized (bc_cores s ! core_slot (unat cluster) (unat core)) then Some (Inl ENODEV, s)
       else map_option (Pair (Inr ())) (upd_core (unat cluster) (unat core) (\<lambda>k. k\<lparr> cs_running := b \<rparr>) s))"

definition brad_core_start :: "u32 \<Rightarrow> u32 \<Rightarrow> bc \<Rightarrow> ((errno + unit) \<times> bc) option" where
  "brad_core_start = set_running True"

definition brad_core_halt :: "u32 \<Rightarrow> u32 \<Rightarrow> bc \<Rightarrow> ((errno + unit) \<times> bc) option" where
  "brad_core_halt = set_running False"

definition set_core :: "bool \<Rightarrow> (core_state \<Rightarrow> core_state) \<Rightarrow> u32 \<Rightarrow> u32 \<Rightarrow> bc \<Rightarrow> ((errno + unit) \<times> bc) option" where
  "set_core ok f cluster core s =
    (case core_refused s cluster core of Some e \<Rightarrow> Some (Inl e, s)
     | None \<Rightarrow> if \<not> ok then Some (Inl EINVAL, s)
       else map_option (Pair (Inr ())) (upd_core (unat cluster) (unat core) f s))"

definition brad_core_set_freq :: "u32 \<Rightarrow> u32 \<Rightarrow> u32 \<Rightarrow> bc \<Rightarrow> ((errno + unit) \<times> bc) option" where
  "brad_core_set_freq cluster core freq_mhz =
     set_core (\<not> (freq_mhz < 100 \<or> 5000 < freq_mhz)) (\<lambda>k. k\<lparr> cs_freq_mhz := freq_mhz \<rparr>) cluster core"

definition brad_core_set_volt :: "u32 \<Rightarrow> u32 \<Rightarrow> u32 \<Rightarrow> bc \<Rightarrow> ((errno + unit) \<times> bc) option" where
  "brad_core_set_volt cluster core volt_mv =
     set_core (\<not> (volt_mv < 500 \<or> 1500 < volt_mv)) (\<lambda>k. k\<lparr> cs_volt_mv := volt_mv \<rparr>) cluster core"

definition brad_core_set_power_state :: "u32 \<Rightarrow> u32 \<Rightarrow> u32 \<Rightarrow> bc \<Rightarrow> ((errno + unit) \<times> bc) option" where
  "brad_core_set_power_state cluster core state =
     set_core (unat state < length all_power_states) (\<lambda>k. k\<lparr> cs_p_state := all_power_states ! unat state \<rparr>) cluster core"

definition brad_core_flush_cache :: "u32 \<Rightarrow> u32 \<Rightarrow> bc \<Rightarrow> errno + unit" where
  "brad_core_flush_cache cluster core s = (case core_refused s cluster core of Some e \<Rightarrow> Inl e | None \<Rightarrow> Inr ())"

definition brad_core_get_temp :: "u32 \<Rightarrow> u32 \<Rightarrow> bool \<Rightarrow> bc \<Rightarrow> errno + u32" where
  "brad_core_get_temp cluster core have_out s = (case core_refused s cluster core of Some e \<Rightarrow> Inl e
     | None \<Rightarrow> if \<not> have_out then Inl EINVAL else Inr (bc_temp_c s))"

section \<open>Clusters\<close>

definition brad_cluster_init :: "u32 \<Rightarrow> bc \<Rightarrow> (errno + unit) \<times> bc" where
  "brad_cluster_init cluster s =
    (if \<not> bc_initialized s then (Inl ENODEV, s)
     else if MAX_CLUSTERS \<le> unat cluster then (Inl EINVAL, s)
     else (Inr (), upd_cluster (unat cluster) (\<lambda>k. k\<lparr> cl_initialized := True, cl_l2_way_mask := 0xFF, cl_snoop_enabled := 1 \<rparr>) s))"

definition brad_cluster_set_l2_way :: "u32 \<Rightarrow> u32 \<Rightarrow> bc \<Rightarrow> (errno + unit) \<times> bc" where
  "brad_cluster_set_l2_way cluster way_mask s =
    (if \<not> bc_initialized s then (Inl ENODEV, s)
     else if bc_active_clusters s \<le> cluster then (Inl EINVAL, s)
     else (Inr (), upd_cluster (unat cluster) (\<lambda>k. k\<lparr> cl_l2_way_mask := way_mask \<rparr>) s))"

record brad_core_cluster_cfg =
  cc_cluster_id :: u32
  cc_num_phoenix :: u32
  cc_num_falcon :: u32
  cc_l2_size_kb :: u32
  cc_snoop_enabled :: int

definition brad_cluster_configure :: "brad_core_cluster_cfg option \<Rightarrow> bc \<Rightarrow> (errno + unit) \<times> bc" where
  "brad_cluster_configure cfgo s =
    (if \<not> bc_initialized s then (Inl ENODEV, s)
     else case cfgo of None \<Rightarrow> (Inl EINVAL, s)
     | Some cfg \<Rightarrow>
       if MAX_CLUSTERS \<le> unat (cc_cluster_id cfg) then (Inl EINVAL, s)
       else if BRAD_CORE_PHX_PER_CLUSTER < unat (cc_num_phoenix cfg) \<or> BRAD_CORE_FAL_PER_CLUSTER < unat (cc_num_falcon cfg) then (Inl EINVAL, s)
       else (Inr (), upd_cluster (unat (cc_cluster_id cfg)) (\<lambda>k. k\<lparr> cl_num_phoenix := cc_num_phoenix cfg,
         cl_num_falcon := cc_num_falcon cfg, cl_l2_size_kb := cc_l2_size_kb cfg, cl_snoop_enabled := cc_snoop_enabled cfg,
         cl_initialized := True \<rparr>) s))"

definition brad_core_set_l3_partition :: "u32 \<Rightarrow> bc \<Rightarrow> errno + unit" where
  "brad_core_set_l3_partition cluster s =
    (if \<not> bc_initialized s then Inl ENODEV else if bc_active_clusters s \<le> cluster then Inl EINVAL else Inr ())"

section \<open>Queries\<close>

definition with_sku :: "bool \<Rightarrow> bc \<Rightarrow> (brad_core_sku_cfg \<Rightarrow> errno + 'a) \<Rightarrow> errno + 'a" where
  "with_sku have_out s f =
    (if \<not> bc_initialized s then Inl ENODEV
     else if \<not> have_out then Inl EINVAL
     else case get_sku_cfg (bc_sku s) of None \<Rightarrow> Inl ENODEV | Some cfg \<Rightarrow> f cfg)"

definition brad_core_query_sku :: "bool \<Rightarrow> bc \<Rightarrow> errno + brad_core_sku_cfg" where
  "brad_core_query_sku have_out s = with_sku have_out s Inr"

record brad_core_info =
  ci_sku :: brad_core_sku
  ci_cfg :: brad_core_sku_cfg
  ci_active_clusters :: u32
  ci_total_phoenix :: u32
  ci_total_falcon :: u32
  ci_freq_current_mhz :: u32
  ci_p_state :: brad_core_power_state
  ci_cycles_total :: u64
  ci_temp_c :: u32

definition active_list :: "bc \<Rightarrow> nat list" where
  "active_list s = [0..<unat (bc_active_clusters s)]"

text \<open>The sum over the cycles reads \<open>cores[c][i]\<close> for eight \<open>i\<close>; the outer \<open>None\<close> is an access beyond the array.\<close>

definition brad_core_query_info :: "bool \<Rightarrow> bc \<Rightarrow> (errno + brad_core_info) option" where
  "brad_core_query_info have_out s =
    (let slots = [core_slot c i. c \<leftarrow> active_list s, i \<leftarrow> [0..<BRAD_CORE_PHX_PER_CLUSTER + BRAD_CORE_FAL_PER_CLUSTER]] in
     if bc_initialized s \<and> have_out \<and> list_ex (\<lambda>k. length (bc_cores s) \<le> k) slots then None
     else Some (with_sku have_out s (\<lambda>cfg. Inr \<lparr> ci_sku = bc_sku s, ci_cfg = cfg, ci_active_clusters = bc_active_clusters s,
       ci_total_phoenix = sum_list (map (\<lambda>c. cl_num_phoenix (bc_clusters s ! c)) (active_list s)),
       ci_total_falcon = sum_list (map (\<lambda>c. cl_num_falcon (bc_clusters s ! c)) (active_list s)),
       ci_freq_current_mhz = bc_freq_current s, ci_p_state = bc_p_state s,
       ci_cycles_total = sum_list (map (\<lambda>k. cs_cycles (bc_cores s ! k)) slots), ci_temp_c = bc_temp_c s \<rparr>)))"

text \<open>\<open>counto\<close> holds the capacity of the caller's array; the entries written are the result.\<close>

definition brad_core_query_freq_table :: "bool \<Rightarrow> u32 option \<Rightarrow> bc \<Rightarrow> errno + u32 list" where
  "brad_core_query_freq_table have_out counto s =
    (case counto of None \<Rightarrow> with_sku False s (\<lambda>_. Inl EINVAL)
     | Some count \<Rightarrow> with_sku have_out s (\<lambda>cfg.
       let f = kc_freq_max_mhz cfg;
           tbl = [f, (f * 85 + 50) div 100, (f * 70 + 50) div 100, (f * 50 + 50) div 100, kc_freq_falcon_mhz cfg];
           n = (if 0 < kc_falcon_count cfg then 5 else 4) in
       Inr (take (unat (if count < n then count else n)) tbl)))"

record brad_core_naming =
  na_consumer_name :: string
  na_model_code :: string
  na_gen :: brad_gen
  na_consumer_tier :: brad_core_consumer_tier
  na_series :: brad_core_series
  na_suffix :: brad_core_suffix
  na_hidden_sku_code :: u32
  na_hidden_phoenix :: u32
  na_hidden_falcon :: u32
  na_hidden_platform :: u32

definition brad_core_query_naming :: "bool \<Rightarrow> bc \<Rightarrow> errno + brad_core_naming" where
  "brad_core_query_naming have_out s =
    (if \<not> bc_initialized s then Inl ENODEV
     else if \<not> have_out then Inl EINVAL
     else case get_naming (bc_sku s) of None \<Rightarrow> Inl ENODEV
     | Some n \<Rightarrow> with_sku have_out s (\<lambda>cfg. Inr \<lparr> na_consumer_name = take 63 (nm_consumer_name n),
         na_model_code = take 15 (nm_model_code n), na_gen = nm_gen n, na_consumer_tier = nm_consumer_tier n,
         na_series = nm_series n, na_suffix = kc_suffix cfg, na_hidden_sku_code = nm_hidden_sku_code n,
         na_hidden_phoenix = kc_phoenix_count cfg, na_hidden_falcon = kc_falcon_count cfg,
         na_hidden_platform = platform_num (kc_platform cfg) \<rparr>))"

definition brad_core_decode_sku :: "u32 \<Rightarrow> errno + u32 \<times> u32 \<times> brad_platform_tier" where
  "brad_core_decode_sku hidden_code =
    (if hidden_code < 100 \<or> 999 < hidden_code then Inl EINVAL
     else let p = hidden_code div 100; f = (hidden_code div 10) mod 10; pl = hidden_code mod 10 in
       if p < 1 \<or> 8 < p then Inl EINVAL
       else if f < 4 \<or> 8 < f then Inl EINVAL
       else if pl < 1 \<or> 7 < pl then Inl EINVAL
       else Inr (p, f, all_platforms ! unat (pl - 1)))"

definition suffix_text :: "brad_core_suffix \<Rightarrow> string" where
  "suffix_text x = (case x of BRAD_SUFFIX_E \<Rightarrow> ''E'' | BRAD_SUFFIX_U \<Rightarrow> ''U'' | BRAD_SUFFIX_FP \<Rightarrow> ''FP'' | BRAD_SUFFIX_NONE \<Rightarrow> '''')"

text \<open>The string in the buffer.\<close>

definition brad_core_query_model_code :: "bool \<Rightarrow> nat \<Rightarrow> bc \<Rightarrow> errno + string" where
  "brad_core_query_model_code have_buf buf_size s =
    with_sku (have_buf \<and> 2 \<le> buf_size) s (\<lambda>cfg.
      let code = take (buf_size - 1) (kc_model_code cfg); suffix = suffix_text (kc_suffix cfg) in
      Inr (if length code + length suffix < buf_size then code @ suffix else code))"

definition brad_core_query_series :: "bc \<Rightarrow> errno + brad_core_series \<times> brad_core_suffix" where
  "brad_core_query_series s = with_sku True s (\<lambda>cfg. Inr (kc_series cfg, kc_suffix cfg))"

end
