(* ===== verification/BradSocProps.thy ===== *)
theory BradSocProps
  imports BradSoc Machine
begin

text \<open>
  Properties of the configuration model of the CPU chips: which products can be set up and with what totals, that no
  call leaves the array of cores, and that the product codes of the C series decode to their table entries.
\<close>

section \<open>The tables\<close>

lemma sku_cases: "unat sku < length all_skus \<Longrightarrow> sku \<in> set [0 :: u32, 1, 2, 3, 4, 5, 6, 7, 8, 9, 10]"
proof -
  assume "unat sku < length all_skus"
  then have "unat sku \<in> {0, 1, 2, 3, 4, 5, 6, 7, 8, 9, 10}" by (simp add: all_skus_def) arith
  then have "of_nat (unat sku) \<in> (of_nat :: nat \<Rightarrow> u32) ` {0, 1, 2, 3, 4, 5, 6, 7, 8, 9, 10}" by (rule imageI)
  then show ?thesis by (simp only: of_nat_unat image_insert image_empty) simp
qed

lemma get_sku_cfg_all: "get_sku_cfg k = Some (sku_configs ! (case k of BRAD_CORE_P1E4 \<Rightarrow> 0 | BRAD_CORE_P2E4 \<Rightarrow> 1
    | BRAD_CORE_P4E4 \<Rightarrow> 2 | BRAD_CORE_P6E4 \<Rightarrow> 3 | BRAD_CORE_P4E8 \<Rightarrow> 4 | BRAD_CORE_P8E4 \<Rightarrow> 5 | BRAD_CORE_P8E8 \<Rightarrow> 6
    | BRAD_CORE_G60 \<Rightarrow> 7 | BRAD_CORE_G80 \<Rightarrow> 8 | BRAD_CORE_W88 \<Rightarrow> 9 | BRAD_CORE_W816 \<Rightarrow> 10))"
  by (cases k) (simp_all add: get_sku_cfg_def sku_configs_def sku_entry_def)

section \<open>Set up\<close>

text \<open>What a set up leaves, by evaluation of the loops.\<close>

definition init_ok :: "u32 \<Rightarrow> bool" where
  "init_ok sku = (case brad_soc_init sku bc_zero of
     None \<Rightarrow> sku = 10
   | Some (Inl _, _) \<Rightarrow> False
   | Some (Inr _, s) \<Rightarrow> sku \<noteq> 10 \<and> length (bc_cores s) = 16 \<and> length (bc_clusters s) = 4 \<and> unat (bc_active_clusters s) \<le> 2 \<and>
       list_all (\<lambda>k. unat (cl_num_phoenix k) \<le> 4 \<and> unat (cl_num_falcon k) \<le> 4) (bc_clusters s) \<and>
       (case (brad_core_query_info True s, get_sku_cfg (all_skus ! unat sku)) of
          (Some (Inr info), Some cfg) \<Rightarrow> ci_sku info = kc_sku cfg \<and> ci_total_phoenix info = kc_phoenix_count cfg \<and>
            ci_total_falcon info = kc_falcon_count cfg
        | _ \<Rightarrow> False))"

lemma init_all:
  "init_ok 0"
  "init_ok 1"
  "init_ok 2"
  "init_ok 3"
  "init_ok 4"
  "init_ok 5"
  "init_ok 6"
  "init_ok 7"
  "init_ok 8"
  "init_ok 9"
  "init_ok 10"
  by code_simp+

text \<open>A set up that succeeds.\<close>

lemma init_okE:
  assumes "init_ok sku" "sku \<noteq> 10"
  obtains s' info cfg where "brad_soc_init sku bc_zero = Some (Inr (), s')" "length (bc_cores s') = 16" "length (bc_clusters s') = 4"
    "unat (bc_active_clusters s') \<le> 2"
    "list_all (\<lambda>k. unat (cl_num_phoenix k) \<le> 4 \<and> unat (cl_num_falcon k) \<le> 4) (bc_clusters s')"
    "brad_core_query_info True s' = Some (Inr info)" "get_sku_cfg (all_skus ! unat sku) = Some cfg" "ci_sku info = kc_sku cfg"
    "ci_total_phoenix info = kc_phoenix_count cfg" "ci_total_falcon info = kc_falcon_count cfg"
proof -
  obtain r s' where r: "brad_soc_init sku bc_zero = Some (r, s')"
    using assms by (cases "brad_soc_init sku bc_zero") (auto simp: init_ok_def)
  show ?thesis
    using assms r that [of s']
    by (cases r; cases "brad_core_query_info True s'"; cases "the (brad_core_query_info True s')"; cases "get_sku_cfg (all_skus ! unat sku)")
      (simp_all add: init_ok_def)
qed

lemma init_w816: "brad_soc_init 10 bc_zero = None"
  by code_simp

lemma init_any: "unat sku < length all_skus \<Longrightarrow> init_ok sku"
  using init_all sku_cases [of sku] by auto

lemma init_ignores: "unat sku < length all_skus \<Longrightarrow> brad_soc_init sku s = brad_soc_init sku bc_zero"
  by (simp add: brad_soc_init_def get_sku_cfg_all)

text \<open>Setting up a product gives, for every product number but that of the W816, a chip whose clusters hold exactly the
  number of Phoenix and Falcon cores of its table entry, whatever was set up before; a number beyond the table
  is refused and changes nothing, and setting up the W816 writes beyond the array of cores.\<close>

theorem soc_init_spec:
  "case brad_soc_init sku s of
     None \<Rightarrow> sku = 10
   | Some (Inl e, s') \<Rightarrow> 10 < sku \<and> e = EINVAL \<and> s' = s
   | Some (Inr _, s') \<Rightarrow> sku < 10 \<and> (\<exists>info cfg. brad_core_query_info True s' = Some (Inr info) \<and>
       get_sku_cfg (all_skus ! unat sku) = Some cfg \<and> ci_sku info = kc_sku cfg \<and>
       ci_total_phoenix info = kc_phoenix_count cfg \<and> ci_total_falcon info = kc_falcon_count cfg)"
proof (cases "unat sku < length all_skus")
  case True
  show ?thesis
  proof (cases "sku = 10")
    case ten: True
    have "brad_soc_init sku s = None" unfolding init_ignores [OF True, of s] unfolding ten by (rule init_w816)
    then show ?thesis using ten by simp
  next
    case ten: False
    have lt: "sku < 10" using sku_cases [OF True] ten by auto
    obtain s' info cfg where *: "brad_soc_init sku bc_zero = Some (Inr (), s')" "brad_core_query_info True s' = Some (Inr info)"
        "get_sku_cfg (all_skus ! unat sku) = Some cfg" "ci_sku info = kc_sku cfg" "ci_total_phoenix info = kc_phoenix_count cfg"
        "ci_total_falcon info = kc_falcon_count cfg"
      by (rule init_okE [OF init_any [OF True] ten])
    show ?thesis unfolding init_ignores [OF True, of s] *(1) using lt * by auto
  qed
next
  case False
  then have "brad_soc_init sku s = Some (Inl EINVAL, s)" by (simp add: brad_soc_init_def)
  moreover have "10 < sku" using False by (simp add: all_skus_def word_less_nat_alt)
  ultimately show ?thesis by simp
qed

section \<open>Calls\<close>

datatype chip_op = KInit u32 | KCore brad_core_type u32 u32 | KStart u32 u32 | KHalt u32 u32 | KFreq u32 u32 u32
  | KVolt u32 u32 u32 | KPower u32 u32 u32 | KCluster u32 | KWay u32 u32 | KConfigure "brad_core_cluster_cfg option" | KInfo

text \<open>The state, or none after an access beyond an array.\<close>

fun chip_exec :: "chip_op \<Rightarrow> bc option \<Rightarrow> bc option" where
  "chip_exec c None = None"
| "chip_exec (KInit sku) (Some s) = map_option snd (brad_soc_init sku s)"
| "chip_exec (KCore ty c i) (Some s) = map_option snd (brad_core_init ty c i s)"
| "chip_exec (KStart c i) (Some s) = map_option snd (brad_core_start c i s)"
| "chip_exec (KHalt c i) (Some s) = map_option snd (brad_core_halt c i s)"
| "chip_exec (KFreq c i f) (Some s) = map_option snd (brad_core_set_freq c i f s)"
| "chip_exec (KVolt c i v) (Some s) = map_option snd (brad_core_set_volt c i v s)"
| "chip_exec (KPower c i p) (Some s) = map_option snd (brad_core_set_power_state c i p s)"
| "chip_exec (KCluster c) (Some s) = Some (snd (brad_cluster_init c s))"
| "chip_exec (KWay c w) (Some s) = Some (snd (brad_cluster_set_l2_way c w s))"
| "chip_exec (KConfigure cfg) (Some s) = Some (snd (brad_cluster_configure cfg s))"
| "chip_exec KInfo (Some s) = map_option (\<lambda>_. s) (brad_core_query_info True s)"

fun chip_safe :: "chip_op \<Rightarrow> bc option \<Rightarrow> bool" where
  "chip_safe (KInit sku) w \<longleftrightarrow> sku \<noteq> 10"
| "chip_safe _ w \<longleftrightarrow> True"

definition small_cluster :: "cluster_state \<Rightarrow> bool" where
  "small_cluster k \<longleftrightarrow> unat (cl_num_phoenix k) \<le> 4 \<and> unat (cl_num_falcon k) \<le> 4"

definition chip_inv :: "bc \<Rightarrow> bool" where
  "chip_inv s \<longleftrightarrow> length (bc_cores s) = 16 \<and> length (bc_clusters s) = 4 \<and> unat (bc_active_clusters s) \<le> 2 \<and>
     list_all small_cluster (bc_clusters s)"

definition chip_ok :: "bc option \<Rightarrow> bool" where
  "chip_ok w \<longleftrightarrow> (\<exists>s. w = Some s \<and> chip_inv s)"

lemma chip_ok_Some [simp]: "chip_ok (Some s) = chip_inv s" "\<not> chip_ok None"
  by (simp_all add: chip_ok_def)

lemma chip_ok_result [simp]: "chip_ok (map_option snd (map_option (Pair r) x)) = chip_ok x"
  by (cases x) simp_all

lemma upd_core_chip:
  assumes "chip_inv s" "c < 2" "i < 8"
  shows "chip_ok (upd_core c i f s)"
  using assms by (simp add: upd_core_def core_slot_def chip_inv_def BRAD_CORE_PHX_PER_CLUSTER_def)

lemma upd_cluster_chip:
  assumes "chip_inv s" "\<And>k. small_cluster k \<Longrightarrow> small_cluster (f k)"
  shows "chip_inv (upd_cluster c f s)"
proof -
  have "small_cluster ((bc_clusters s)[c := f (bc_clusters s ! c)] ! n)" if "n < 4" for n
    using assms that by (cases "n = c") (simp_all add: chip_inv_def list_all_length)
  then show ?thesis using assms by (simp add: upd_cluster_def chip_inv_def list_all_length)
qed

lemma active_low: "chip_inv s \<Longrightarrow> \<not> bc_active_clusters s \<le> cluster \<Longrightarrow> unat cluster < 2"
  by (simp add: chip_inv_def word_le_nat_alt)

lemma core_refused_None:
  "chip_inv s \<Longrightarrow> core_refused s cluster core = None \<Longrightarrow> unat cluster < 2 \<and> unat core < 8"
  using active_low [of s cluster]
  by (auto simp: core_refused_def BRAD_CORE_PHX_PER_CLUSTER_def BRAD_CORE_FAL_PER_CLUSTER_def split: if_splits)

lemma core_slot_bound: "chip_inv s \<Longrightarrow> c < 2 \<Longrightarrow> i < 8 \<Longrightarrow> core_slot c i < length (bc_cores s)"
  by (simp add: core_slot_def BRAD_CORE_PHX_PER_CLUSTER_def chip_inv_def)

lemma set_running_chip: "chip_inv s \<Longrightarrow> chip_ok (map_option snd (set_running b c i s))"
  using core_refused_None [of s c i] upd_core_chip [of s "unat c" "unat i"]
  by (cases "core_refused s c i") (auto simp: set_running_def not_le core_slot_bound)

lemma set_core_chip: "chip_inv s \<Longrightarrow> chip_ok (map_option snd (set_core ok f c i s))"
  using core_refused_None [of s c i] upd_core_chip [of s "unat c" "unat i" f]
  by (cases "core_refused s c i") (auto simp: set_core_def)

lemma core_init_chip: "chip_inv s \<Longrightarrow> chip_ok (map_option snd (brad_core_init ty c i s))"
proof -
  assume inv: "chip_inv s"
  show ?thesis
  proof (cases "bc_initialized s \<and> \<not> bc_active_clusters s \<le> c \<and> cluster_has_core s c i ty")
    case True
    then have c: "unat c < 2" using active_low [OF inv] by blast
    then have k: "small_cluster (cluster_at s c)" using inv by (simp add: cluster_at_def chip_inv_def list_all_length)
    let ?j = "if ty = BRAD_CORE_FALCON then i + cl_num_phoenix (cluster_at s c) else i"
    have "unat i < 4" using True k
      by (auto simp: cluster_has_core_def small_cluster_def word_less_nat_alt split: if_splits option.splits)
    then have "unat ?j < 8" using k by (auto simp: small_cluster_def unat_word_ariths)
    from upd_core_chip [OF inv c this] show ?thesis
      using True by (auto simp: brad_core_init_def Let_def)
  qed (use inv in \<open>auto simp: brad_core_init_def\<close>)
qed

lemma init_chip: "chip_inv s \<Longrightarrow> sku \<noteq> 10 \<Longrightarrow> chip_ok (map_option snd (brad_soc_init sku s))"
proof (cases "unat sku < length all_skus")
  case True
  assume "sku \<noteq> 10"
  then obtain s' where "brad_soc_init sku bc_zero = Some (Inr (), s')" "chip_inv s'"
    by (rule init_okE [OF init_any [OF True]]) (simp add: chip_inv_def small_cluster_def [abs_def])
  then show ?thesis unfolding init_ignores [OF True, of s] by simp
qed (simp add: brad_soc_init_def)

lemma info_chip: "chip_inv s \<Longrightarrow> brad_core_query_info h s \<noteq> None"
  by (auto simp: brad_core_query_info_def Let_def list_ex_iff active_list_def core_slot_def chip_inv_def
    BRAD_CORE_PHX_PER_CLUSTER_def BRAD_CORE_FAL_PER_CLUSTER_def)

lemma cluster_chip:
  assumes "chip_inv s"
  shows "chip_inv (snd (brad_cluster_init c s))" "chip_inv (snd (brad_cluster_set_l2_way c w s))"
    "chip_inv (snd (brad_cluster_configure cfg s))"
  using assms by (auto simp: brad_cluster_init_def brad_cluster_set_l2_way_def brad_cluster_configure_def small_cluster_def
    BRAD_CORE_PHX_PER_CLUSTER_def BRAD_CORE_FAL_PER_CLUSTER_def split: option.split intro!: upd_cluster_chip)

interpretation chip: op_machine chip_exec chip_safe chip_ok "Some bc_zero"
proof
  show "chip_ok (Some bc_zero)" by (simp add: chip_inv_def bc_zero_def small_cluster_def zero_cluster_def MAX_CLUSTERS_def
    BRAD_CORE_PHX_PER_CLUSTER_def numeral_eq_Suc)
next
  fix w c assume "chip_ok w" and safe: "chip_safe c w"
  then obtain s where w: "w = Some s" and inv: "chip_inv s" by (auto simp: chip_ok_def)
  show "chip_ok (chip_exec c w)" using inv safe info_chip [OF inv, of True] unfolding w
    by (cases c) (auto simp: brad_core_start_def brad_core_halt_def brad_core_set_freq_def brad_core_set_volt_def
      brad_core_set_power_state_def set_running_chip set_core_chip core_init_chip init_chip cluster_chip)
qed

text \<open>C34: No sequence of calls on the chip that never sets up the W816 accesses the array of cores out of bounds, although the
  rows are indexed by core numbers twice their length and clusters are reconfigured at will.\<close>

theorem chip_calls_in_bounds:
  assumes "chip.run_safe ops (Some bc_zero)"
  shows "\<exists>s. chip.run ops (Some bc_zero) = Some s \<and> length (bc_cores s) = 16 \<and> unat (bc_active_clusters s) \<le> 2"
  using chip.run_inv [OF chip.init_inv assms] by (auto simp: chip_ok_def chip_inv_def)

lemma chip_calls_in_bounds_witness:
  "\<exists>s. chip.run [KInit 6, KFreq 1 7 2000, KStart 1 7, KInfo] (Some bc_zero) = Some s \<and> length (bc_cores s) = 16"
  using chip_calls_in_bounds [of "[KInit 6, KFreq 1 7 2000, KStart 1 7, KInfo]"]
  by (auto simp: chip.run_safe.simps)

section \<open>Product codes\<close>

text \<open>The hidden code of every product of the C series decodes to exactly the core counts and the platform of its table entry, those
  of the other series are refused.\<close>

theorem sku_code_roundtrip:
  "\<exists>n cfg. get_naming sku = Some n \<and> get_sku_cfg sku = Some cfg \<and> nm_series n = kc_series cfg \<and>
     nm_model_code n = kc_model_code cfg \<and>
     brad_core_decode_sku (nm_hidden_sku_code n) = (if kc_series cfg = BRAD_SERIES_C
       then Inr (kc_phoenix_count cfg, kc_falcon_count cfg, kc_platform cfg) else Inl EINVAL)"
  by (cases sku) (simp_all add: get_naming_def sku_namings_def naming_entry_def get_sku_cfg_def sku_configs_def
    sku_entry_def brad_core_decode_sku_def all_platforms_def)

section \<open>Shared entries\<close>

text \<open>The Falcon cores of a cluster are the Phoenix cores of the next one: with two clusters, starting core 4 of cluster 0 starts
  core 0 of cluster 1, and after setting up a P8E8 the Falcon cores of cluster 0 are Phoenix cores at 4200 MHz.\<close>

lemma falcon_is_next_phoenix: "1 < bc_active_clusters s \<Longrightarrow> brad_core_start 0 4 s = brad_core_start 1 0 s"
  by (simp add: brad_core_start_def set_running_def core_refused_def BRAD_CORE_PHX_PER_CLUSTER_def BRAD_CORE_FAL_PER_CLUSTER_def
    core_slot_def upd_core_def word_le_nat_alt word_less_nat_alt split: option.split)

lemma falcons_overwritten:
  "case brad_soc_init 6 bc_zero of Some (_, s') \<Rightarrow> list_all (\<lambda>i. cs_type (bc_cores s' ! core_slot 0 i) = BRAD_CORE_PHOENIX \<and>
     cs_freq_mhz (bc_cores s' ! core_slot 0 i) = 4200) [0..<8] | None \<Rightarrow> False"
  by code_simp

text \<open>The frequency of the table of the G80 cannot be set.\<close>

lemma g80_frequency_refused:
  "case brad_soc_init 8 bc_zero of Some (_, s') \<Rightarrow>
     (case brad_core_set_freq 0 0 (kc_freq_max_mhz (sku_configs ! 8)) s' of Some (Inl e, _) \<Rightarrow> e = EINVAL | _ \<Rightarrow> False)
   | None \<Rightarrow> False"
  by code_simp

end
