(* ===== verification/BradDrive.thy ===== *)
theory BradDrive
  imports Spmp Fabric
begin

text \<open>
  The storage driver \<open>drivers/braddrive.c\<close>: capacity tiers, the sector commands, and the direct load, which allocates
  in an SPMP pool and moves the sectors there by a DMA transfer of the fabric. The static state is a record that the
  operations pass on, beside those of the pools and of the fabric.
\<close>

section \<open>Tiers\<close>

datatype brad_drive_tier = BRAD_DRIVE_STANDARD | BRAD_DRIVE_PRO | BRAD_DRIVE_ELITE | BRAD_DRIVE_ENTERPRISE

datatype brad_nand_type = BRAD_NAND_SLC | BRAD_NAND_MLC | BRAD_NAND_TLC | BRAD_NAND_QLC

record brad_drive_tier_cfg =
  dt_name :: string
  dt_capacity :: u64
  dt_seq_read_mbs :: u32
  dt_seq_write_mbs :: u32
  dt_rand_read_iops :: u32
  dt_rand_write_iops :: u32
  dt_nand_type :: brad_nand_type
  dt_nand_program_us :: u32
  dt_nand_read_us :: u32
  dt_nand_endurance :: u32

fun drive_tiers :: "brad_drive_tier \<Rightarrow> brad_drive_tier_cfg" where
  "drive_tiers BRAD_DRIVE_STANDARD = \<lparr> dt_name = ''BradDrive'', dt_capacity = 512 * 1024 * 1024 * 1024,
     dt_seq_read_mbs = 14000, dt_seq_write_mbs = 10000, dt_rand_read_iops = 1200000, dt_rand_write_iops = 800000,
     dt_nand_type = BRAD_NAND_TLC, dt_nand_program_us = 80, dt_nand_read_us = 25, dt_nand_endurance = 5000 \<rparr>"
| "drive_tiers BRAD_DRIVE_PRO = \<lparr> dt_name = ''BradDrive Pro'', dt_capacity = 2 * 1024 * 1024 * 1024 * 1024,
     dt_seq_read_mbs = 16000, dt_seq_write_mbs = 12000, dt_rand_read_iops = 1800000, dt_rand_write_iops = 1200000,
     dt_nand_type = BRAD_NAND_MLC, dt_nand_program_us = 40, dt_nand_read_us = 20, dt_nand_endurance = 30000 \<rparr>"
| "drive_tiers BRAD_DRIVE_ELITE = \<lparr> dt_name = ''BradDrive Elite'', dt_capacity = 4 * 1024 * 1024 * 1024 * 1024,
     dt_seq_read_mbs = 18000, dt_seq_write_mbs = 14000, dt_rand_read_iops = 2500000, dt_rand_write_iops = 1800000,
     dt_nand_type = BRAD_NAND_SLC, dt_nand_program_us = 20, dt_nand_read_us = 15, dt_nand_endurance = 100000 \<rparr>"
| "drive_tiers BRAD_DRIVE_ENTERPRISE = \<lparr> dt_name = ''BradDrive Enterprise'', dt_capacity = 16 * 1024 * 1024 * 1024 * 1024,
     dt_seq_read_mbs = 28000, dt_seq_write_mbs = 22000, dt_rand_read_iops = 4000000, dt_rand_write_iops = 3000000,
     dt_nand_type = BRAD_NAND_SLC, dt_nand_program_us = 15, dt_nand_read_us = 10, dt_nand_endurance = 100000 \<rparr>"

section \<open>State\<close>

datatype brad_drive_cmd_type = BRAD_DRIVE_CMD_READ | BRAD_DRIVE_CMD_WRITE | BRAD_DRIVE_CMD_TRIM | BRAD_DRIVE_CMD_FLUSH

record brad_drive_cmd =
  dc_type :: brad_drive_cmd_type
  dc_lba :: u64
  dc_count :: u64
  dc_buf :: "nat option"
  dc_completed :: bool
  dc_status :: int

record drive =
  dr_tier :: brad_drive_tier
  dr_initialized :: bool
  dr_num_drives :: u32
  dr_queue :: "brad_drive_cmd list"
  dr_queue_head :: u32
  dr_queue_tail :: u32
  dr_bytes_read :: u64
  dr_bytes_written :: u64
  dr_read_cmds :: u32
  dr_write_cmds :: u32
  dr_trim_cmds :: u32
  dr_flush_cmds :: u32
  dr_recent :: "u64 list"
  dr_write_cache_size :: u64
  dr_cache_dirty :: bool

text \<open>\<open>dr_recent\<close> is the used part of \<open>recent_access_lbas\<close>, its length \<open>recent_access_count\<close>.\<close>

definition BRAD_DRIVE_NUM_QUEUE_ENTRIES :: nat where "BRAD_DRIVE_NUM_QUEUE_ENTRIES = 32"

definition BRAD_DRIVE_SECTOR_SIZE :: u64 where "BRAD_DRIVE_SECTOR_SIZE = 512"

definition BRAD_DRIVE_CACHE_LINES :: nat where "BRAD_DRIVE_CACHE_LINES = 64"

definition zero_cmd :: brad_drive_cmd where
  "zero_cmd = \<lparr> dc_type = BRAD_DRIVE_CMD_READ, dc_lba = 0, dc_count = 0, dc_buf = None, dc_completed = False, dc_status = 0 \<rparr>"

text \<open>The static state before the first call: zeros.\<close>

definition drive_zero :: drive where
  "drive_zero = \<lparr> dr_tier = BRAD_DRIVE_STANDARD, dr_initialized = False, dr_num_drives = 0,
     dr_queue = replicate BRAD_DRIVE_NUM_QUEUE_ENTRIES zero_cmd, dr_queue_head = 0, dr_queue_tail = 0, dr_bytes_read = 0,
     dr_bytes_written = 0, dr_read_cmds = 0, dr_write_cmds = 0, dr_trim_cmds = 0, dr_flush_cmds = 0, dr_recent = [],
     dr_write_cache_size = 0, dr_cache_dirty = False \<rparr>"

definition brad_drive_init :: "drive \<Rightarrow> (errno + unit) \<times> drive" where
  "brad_drive_init d = (Inr (), drive_zero\<lparr> dr_tier := BRAD_DRIVE_STANDARD, dr_initialized := True \<rparr>)"

text \<open>The sum wraps at 64 bits.\<close>

definition is_valid_lba :: "u64 \<Rightarrow> u64 \<Rightarrow> u64 \<Rightarrow> bool" where
  "is_valid_lba lba count capacity_in_sectors \<longleftrightarrow> lba + count \<le> capacity_in_sectors \<and> 0 < count"

definition capacity_to_sectors :: "brad_drive_tier \<Rightarrow> u64" where
  "capacity_to_sectors tier = dt_capacity (drive_tiers tier) div BRAD_DRIVE_SECTOR_SIZE"

record drive_info =
  di_name :: string
  di_tier :: brad_drive_tier
  di_nand_type :: brad_nand_type
  di_capacity :: u64
  di_seq_read_mbs :: u32
  di_seq_write_mbs :: u32
  di_rand_read_iops :: u32
  di_rand_write_iops :: u32

definition brad_drive_info :: "bool \<Rightarrow> drive \<Rightarrow> errno + drive_info" where
  "brad_drive_info have_out d =
    (if \<not> dr_initialized d then Inl ENODEV
     else if \<not> have_out then Inl EINVAL
     else let cfg = drive_tiers (dr_tier d) in
       Inr \<lparr> di_name = take 63 (dt_name cfg), di_tier = dr_tier d, di_nand_type = dt_nand_type cfg, di_capacity = dt_capacity cfg,
         di_seq_read_mbs = dt_seq_read_mbs cfg, di_seq_write_mbs = dt_seq_write_mbs cfg,
         di_rand_read_iops = dt_rand_read_iops cfg, di_rand_write_iops = dt_rand_write_iops cfg \<rparr>)"

section \<open>Sector commands\<close>

text \<open>A command in the slot at the head of the queue, completed before the operation returns.\<close>

definition queue_cmd :: "brad_drive_cmd_type \<Rightarrow> u64 \<Rightarrow> u64 \<Rightarrow> nat option \<Rightarrow> drive \<Rightarrow> drive" where
  "queue_cmd ty lba count buf d =
    d\<lparr> dr_queue := (dr_queue d)[unat (dr_queue_head d) mod BRAD_DRIVE_NUM_QUEUE_ENTRIES := \<lparr> dc_type = ty, dc_lba = lba,
         dc_count = count, dc_buf = buf, dc_completed = True, dc_status = 0 \<rparr>],
       dr_queue_head := dr_queue_head d + 1 \<rparr>"

text \<open>The sectors that are read are zeros; the length is returned as an \<open>int\<close>.\<close>

definition brad_drive_read :: "u64 \<Rightarrow> nat option \<Rightarrow> u64 \<Rightarrow> drive \<Rightarrow> host \<Rightarrow> ((errno + int) \<times> drive \<times> host) call" where
  "brad_drive_read lba bufo count d m =
    (if \<not> dr_initialized d then Returns (Inl ENODEV, d, m)
     else case bufo of None \<Rightarrow> Returns (Inl EINVAL, d, m)
     | Some buf \<Rightarrow>
       if \<not> is_valid_lba lba count (capacity_to_sectors (dr_tier d)) then Returns (Inl EINVAL, d, m)
       else let bytes = count * BRAD_DRIVE_SECTOR_SIZE in
         case poke m buf (replicate (unat bytes) 0) of None \<Rightarrow> Undefined
         | Some m' \<Rightarrow>
           let d1 = (queue_cmd BRAD_DRIVE_CMD_READ lba count bufo d)\<lparr> dr_bytes_read := dr_bytes_read d + bytes,
                 dr_read_cmds := dr_read_cmds d + 1 \<rparr>;
               d2 = (if length (dr_recent d) < BRAD_DRIVE_CACHE_LINES then d1\<lparr> dr_recent := dr_recent d @ [lba] \<rparr> else d1) in
           Returns (Inr (int_result bytes), d2, m'))"

text \<open>The data that is written is dropped.\<close>

definition brad_drive_write :: "u64 \<Rightarrow> nat option \<Rightarrow> u64 \<Rightarrow> drive \<Rightarrow> (errno + int) \<times> drive" where
  "brad_drive_write lba bufo count d =
    (if \<not> dr_initialized d then (Inl ENODEV, d)
     else if bufo = None then (Inl EINVAL, d)
     else if \<not> is_valid_lba lba count (capacity_to_sectors (dr_tier d)) then (Inl EINVAL, d)
     else let bytes = count * BRAD_DRIVE_SECTOR_SIZE in
       (Inr (int_result bytes), (queue_cmd BRAD_DRIVE_CMD_WRITE lba count None d)\<lparr> dr_bytes_written := dr_bytes_written d + bytes,
          dr_write_cmds := dr_write_cmds d + 1, dr_cache_dirty := True, dr_write_cache_size := dr_write_cache_size d + bytes \<rparr>))"

definition brad_drive_trim :: "u64 \<Rightarrow> u64 \<Rightarrow> drive \<Rightarrow> (errno + unit) \<times> drive" where
  "brad_drive_trim lba count d =
    (if \<not> dr_initialized d then (Inl ENODEV, d)
     else if \<not> is_valid_lba lba count (capacity_to_sectors (dr_tier d)) then (Inl EINVAL, d)
     else (Inr (), d\<lparr> dr_trim_cmds := dr_trim_cmds d + 1 \<rparr>))"

definition brad_drive_flush :: "drive \<Rightarrow> (errno + unit) \<times> drive" where
  "brad_drive_flush d =
    (if \<not> dr_initialized d then (Inl ENODEV, d)
     else (Inr (), d\<lparr> dr_flush_cmds := dr_flush_cmds d + 1, dr_cache_dirty := False, dr_write_cache_size := 0 \<rparr>))"

section \<open>Direct load\<close>

text \<open>
  A failure is an error number, or the negative number that the DMA transfer returns for its length when the length does
  not fit an \<open>int\<close>: the bytes have been moved then, and the allocation is given back all the same.
\<close>

type_synonym drive_error = "errno + int"

record load_state =
  ls_drive :: drive
  ls_chan :: "fabric_channel option"
  ls_spmp :: spmp
  ls_fabric :: fabric
  ls_host :: host

definition brad_drive_direct_load :: "u64 \<Rightarrow> u64 \<Rightarrow> u32 \<Rightarrow> bool \<Rightarrow> load_state \<Rightarrow> ((drive_error + u64) \<times> load_state) call" where
  "brad_drive_direct_load lba count spmp_pool_id have_out w =
    (if \<not> dr_initialized (ls_drive w) then Returns (Inl (Inl ENODEV), w)
     else if ls_chan w = None \<or> \<not> have_out then Returns (Inl (Inl EINVAL), w)
     else if spmp_pool_id = 0 then Returns (Inl (Inl EINVAL), w)
     else let bytes = count * BRAD_DRIVE_SECTOR_SIZE in
       case spmp_alloc spmp_pool_id bytes 4096 True (ls_spmp w) of
         (Inl e, sp) \<Rightarrow> Returns (Inl (Inl e), w\<lparr> ls_spmp := sp \<rparr>)
       | (Inr a, sp) \<Rightarrow>
         let nand_addr = lba * BRAD_DRIVE_SECTOR_SIZE; give_back = snd (spmp_free (Some a) sp) in
         case fabric_dma (ls_chan w) nand_addr (al_addr a) bytes (ls_fabric w) (ls_host w) of
           Undefined \<Rightarrow> Undefined
         | Blocked \<Rightarrow> Blocked
         | Returns (Inl e, ch, f, m) \<Rightarrow>
             Returns (Inl (Inl e), w\<lparr> ls_chan := ch, ls_spmp := give_back, ls_fabric := f, ls_host := m \<rparr>)
         | Returns (Inr ret, ch, f, m) \<Rightarrow>
             if ret < 0 then Returns (Inl (Inr ret), w\<lparr> ls_chan := ch, ls_spmp := give_back, ls_fabric := f, ls_host := m \<rparr>)
             else Returns (Inr (al_addr a), \<lparr> ls_drive = (ls_drive w)\<lparr>
                 dr_bytes_read := dr_bytes_read (ls_drive w) + of_int ret, dr_read_cmds := dr_read_cmds (ls_drive w) + 1 \<rparr>,
               ls_chan = ch, ls_spmp = sp, ls_fabric = f, ls_host = m \<rparr>))"

section \<open>Queries\<close>

text \<open>Bytes read and written, then the counts of reads, writes, trims and flushes.\<close>

definition brad_drive_query_stats :: "drive \<Rightarrow> errno + u64 \<times> u64 \<times> u32 \<times> u32 \<times> u32 \<times> u32" where
  "brad_drive_query_stats d =
    (if \<not> dr_initialized d then Inl ENODEV
     else Inr (dr_bytes_read d, dr_bytes_written d, dr_read_cmds d, dr_write_cmds d, dr_trim_cmds d, dr_flush_cmds d))"

text \<open>\<open>capo\<close> holds the capacity of the caller's array; the entries written are the result.\<close>

definition brad_drive_neuro_predict :: "u64 \<Rightarrow> u32 \<Rightarrow> bool \<Rightarrow> u32 option \<Rightarrow> drive \<Rightarrow> errno + u64 list" where
  "brad_drive_neuro_predict current_lba lookahead_ms have_out capo d =
    (if \<not> dr_initialized d then Inl ENODEV
     else case capo of None \<Rightarrow> Inl EINVAL
     | Some cap \<Rightarrow>
       if \<not> have_out then Inl EINVAL
       else if lookahead_ms = 0 then Inl EINVAL
       else let predicted = map (\<lambda>lba. lba + 1) (take (unat cap) (dr_recent d)) in
         Inr (if predicted = [] \<and> 0 < cap then [current_lba + 1] else predicted))"

end
