(* ===== verification/BradDriveProps.thy ===== *)
theory BradDriveProps
  imports BradDrive SpmpProps FabricProps
begin

text \<open>
  Properties of the storage driver: a direct load is all or nothing for the memory pools, and it delivers the
  sectors to a fresh block; reading never gives back what was written.
\<close>

section \<open>What the pools hand out\<close>

text \<open>The live allocations of a pool and its counter.\<close>

definition pool_view :: "spmp \<Rightarrow> u32 \<Rightarrow> (spmp_block set \<times> u64) option" where
  "pool_view s j = map_option (\<lambda>p. (live_blocks p, p_used p)) (pool_get s j)"

lemma pool_get_frame:
  "pool_get (s\<lparr> sp_stats := z \<rparr>) j = pool_get s j" "unat j \<noteq> unat k \<Longrightarrow> pool_get (put_pool s k p) j = pool_get s j"
  by (simp_all add: pool_get_def)

lemma pool_get_put: "pool_get s k = Some p \<Longrightarrow> p_active p' \<Longrightarrow> pool_get (put_pool s k p') k = Some p'"
  by (auto simp: pool_get_Some)

lemma carve_error:
  assumes "carve k n i x p = (Inl e, p')"
  shows "live_blocks p' = live_blocks p \<and> p_used p' = p_used p \<and> p_active p' = p_active p"
  using assms by (auto simp: carve_def Let_def live_blocks_def free_block_def split: if_splits)

lemma alloc_fails_view:
  assumes "spmp_alloc k n al out s = (Inl e, s')"
  shows "pool_view s' j = pool_view s j"
proof (cases "s' = s")
  case False
  then obtain p i x p' where p: "pool_get s k = Some p" "carve k (needed_size n) i x p = (Inl e, p')" "s' = put_pool s k p'"
    using assms by (auto simp: spmp_alloc_def Let_def split: if_splits option.splits prod.splits sum.splits)
  note c = carve_error [OF p(2)]
  show ?thesis
  proof (cases "unat j = unat k")
    case True
    then have "j = k" by (simp add: word_unat_eq_iff)
    moreover have "p_active p'" using p(1) c by (simp add: pool_get_Some)
    ultimately show ?thesis using pool_get_put [OF p(1)] p(1,3) c by (simp add: pool_view_def)
  qed (simp add: p(3) pool_view_def pool_get_frame)
qed simp

lemma alloc_other_view:
  assumes "spmp_alloc k n al out s = (Inr a, s')" "j \<noteq> k"
  shows "pool_get s' j = pool_get s j"
proof -
  have "unat j \<noteq> unat k" using assms(2) by (simp add: word_unat_eq_iff)
  then show ?thesis using assms(1) by (elim alloc_success) (simp add: pool_get_frame)
qed

lemma free_other_view:
  assumes "spmp_free (Some a) s = (r, s')" "j \<noteq> al_pool_id a"
  shows "pool_get s' j = pool_get s j"
proof -
  have "unat j \<noteq> unat (al_pool_id a)" using assms(2) by (simp add: word_unat_eq_iff)
  then show ?thesis using assms(1) by (elim spmp_free_cases) (simp_all add: pool_get_frame)
qed

lemma alloc_free_view:
  assumes "spmp_inv s" and "spmp_alloc k n al True s = (Inr a, s1)"
  shows "pool_view (snd (spmp_free (Some a) s1)) j = pool_view s j"
proof -
  obtain s2 p p2 where r: "spmp_free (Some a) s1 = (Inr (), s2)" "pool_get s k = Some p" "pool_get s2 k = Some p2"
      "live_blocks p2 = live_blocks p" "p_used p2 = p_used p"
    using alloc_free_restores [OF assms] by blast
  have k: "al_pool_id a = k" using assms(2) by (elim alloc_success) simp
  show ?thesis
  proof (cases "j = k")
    case False
    then show ?thesis using free_other_view [OF r(1)] alloc_other_view [OF assms(2)] r(1) k by (simp add: pool_view_def)
  qed (use r in \<open>simp add: pool_view_def\<close>)
qed

section \<open>Direct load\<close>

text \<open>The outcomes of a call.\<close>

lemma direct_load_cases:
  assumes "brad_drive_direct_load lba n k out w = Returns (r, w')"
  obtains (refused) e where "r = Inl (Inl e)" "w' = w"
  | (no_room) e sp where "spmp_alloc k (n * 512) 4096 True (ls_spmp w) = (Inl e, sp)" "r = Inl (Inl e)" "w' = w\<lparr> ls_spmp := sp \<rparr>"
  | (not_moved) a sp e ch f m where "spmp_alloc k (n * 512) 4096 True (ls_spmp w) = (Inr a, sp)" "r = Inl e"
      "w' = w\<lparr> ls_chan := ch, ls_spmp := snd (spmp_free (Some a) sp), ls_fabric := f, ls_host := m \<rparr>"
  | (loaded) a sp ret ch f m where "spmp_alloc k (n * 512) 4096 True (ls_spmp w) = (Inr a, sp)" "r = Inr (al_addr a)" "0 \<le> ret"
      "fabric_dma (ls_chan w) (lba * 512) (al_addr a) (n * 512) (ls_fabric w) (ls_host w) = Returns (Inr ret, ch, f, m)"
      "w' = \<lparr> ls_drive = (ls_drive w)\<lparr> dr_bytes_read := dr_bytes_read (ls_drive w) + of_int ret,
         dr_read_cmds := dr_read_cmds (ls_drive w) + 1 \<rparr>, ls_chan = ch, ls_spmp = sp, ls_fabric = f, ls_host = m \<rparr>"
proof (cases "dr_initialized (ls_drive w) \<and> ls_chan w \<noteq> None \<and> out \<and> k \<noteq> 0")
  case False
  then have "\<exists>e. r = Inl (Inl e) \<and> w' = w" using assms by (auto simp: brad_drive_direct_load_def split: if_splits)
  then show ?thesis using refused by blast
next
  case True
  obtain x sp where x: "spmp_alloc k (n * 512) 4096 True (ls_spmp w) = (x, sp)"
    by (cases "spmp_alloc k (n * 512) 4096 True (ls_spmp w)")
  note d = assms [unfolded brad_drive_direct_load_def BRAD_DRIVE_SECTOR_SIZE_def Let_def x]
  show ?thesis
  proof (cases x)
    case (Inl e)
    show ?thesis by (rule no_room [OF x [unfolded Inl]]) (use d True Inl in simp_all)
  next
    case (Inr a)
    let ?dma = "fabric_dma (ls_chan w) (lba * 512) (al_addr a) (n * 512) (ls_fabric w) (ls_host w)"
    obtain v ch f m where v: "?dma = Returns (v, ch, f, m)"
      using d True Inr by (cases ?dma) auto
    show ?thesis
    proof (cases "\<exists>ret. v = Inr ret \<and> 0 \<le> ret")
      case False
      then obtain e where "r = Inl e \<and> w' = w\<lparr> ls_chan := ch, ls_spmp := snd (spmp_free (Some a) sp), ls_fabric := f, ls_host := m \<rparr>"
        using d True Inr v by (cases v) (auto split: if_splits)
      then show ?thesis using not_moved [OF x [unfolded Inr]] by blast
    next
      case True
      then obtain ret where ret: "v = Inr ret" "0 \<le> ret" by blast
      show ?thesis
        by (rule loaded [OF x [unfolded Inr] _ ret(2) v [unfolded ret(1)]])
          (use d \<open>dr_initialized _ \<and> _\<close> Inr v ret in auto)
    qed
  qed
qed

text \<open>A multiple of 512 stays clear of the end of the address space.\<close>

lemma sectors_fit: "unat (n * 512 :: u64) + 15 < 2 ^ 64"
proof -
  have "unat (n * 512) = (unat n * 512) mod (2 ^ 55 * 512)" by (simp add: unat_word_ariths)
  also have "\<dots> = (unat n mod 2 ^ 55) * 512" by (rule mult_mod_left [symmetric])
  finally have "unat (n * 512) = (unat n mod 2 ^ 55) * 512" .
  moreover have "unat n mod 2 ^ 55 < (2 :: nat) ^ 55" by (rule mod_less_divisor) simp
  ultimately show ?thesis by simp
qed

lemma int_result_small: "unat (l :: u64) < 2 ^ 31 \<Longrightarrow> int_result l = int (unat l)"
proof -
  assume l: "unat l < 2 ^ 31"
  then have u: "unat (ucast l :: u32) = unat l" by (simp add: unsigned_ucast_eq take_bit_nat_eq_self)
  show ?thesis using sint_small [of "ucast l"] l u by (simp add: int_result_def)
qed

text \<open>C9: A direct load is all or nothing for the memory pools: when it returns an error, whether it was refused, found no memory or could
  not transfer, every pool has the live allocations and the counter it had before and the statistics of the drive
  are unchanged; when it succeeds, the pool holds exactly one more live block, at the returned address, on a page
  boundary, as long as the request and disjoint from all others, and no other pool has changed.\<close>

theorem direct_load_all_or_nothing:
  assumes "spmp_inv (ls_spmp w)" and "brad_drive_direct_load lba n k out w = Returns (r, w')"
  shows "case r of
      Inl e \<Rightarrow> ls_drive w' = ls_drive w \<and> (\<forall>j. pool_view (ls_spmp w') j = pool_view (ls_spmp w) j)
    | Inr x \<Rightarrow> unat x mod 4096 = 0 \<and> (\<forall>j. j \<noteq> k \<longrightarrow> pool_view (ls_spmp w') j = pool_view (ls_spmp w) j) \<and>
        (\<exists>p p' c. pool_get (ls_spmp w) k = Some p \<and> pool_get (ls_spmp w') k = Some p' \<and>
          live_blocks p' = insert c (live_blocks p) \<and> b_addr c = x \<and> unat (n * 512) \<le> unat (b_size c) \<and>
          (\<forall>b \<in> live_blocks p. span b \<inter> span c = {}))"
  using assms(2)
proof (cases rule: direct_load_cases)
  case (no_room e sp)
  then show ?thesis using alloc_fails_view [OF no_room(1)] by simp
next
  case (not_moved a sp e ch f m)
  then show ?thesis using alloc_free_view [OF assms(1) not_moved(1)] by simp
next
  case (loaded a sp ret ch f m)
  have fits: "unat (n * 512) + 15 < 2 ^ 64" by (rule sectors_fit)
  from alloc_fresh_block [OF assms(1) loaded(1)] this obtain p p' c where *: "unat (al_addr a) mod 4096 = 0"
      "unat (n * 512) \<le> unat (al_size a)" "pool_get (ls_spmp w) k = Some p" "pool_get sp k = Some p'"
      "\<forall>b \<in> live_blocks p. span b \<inter> {unat (al_addr a) ..< unat (al_addr a) + unat (al_size a)} = {}"
      "live_blocks p' = insert c (live_blocks p)" "b_addr c = al_addr a" "b_size c = al_size a"
    by auto
  then have "span c = {unat (al_addr a) ..< unat (al_addr a) + unat (al_size a)}" by (simp add: span_def)
  then have "\<exists>p p' c. pool_get (ls_spmp w) k = Some p \<and> pool_get sp k = Some p' \<and> live_blocks p' = insert c (live_blocks p) \<and>
      b_addr c = al_addr a \<and> unat (n * 512) \<le> unat (b_size c) \<and> (\<forall>b \<in> live_blocks p. span b \<inter> span c = {})"
    using * by (intro exI [of _ p] exI [of _ p'] exI [of _ c]) simp
  then show ?thesis using *(1) alloc_other_view [OF loaded(1)] loaded(2,5) by (simp add: pool_view_def)
qed simp

text \<open>C18: When the channel may do DMA between a node that holds the sectors and a node whose bound memory covers the block that the pool
  hands out, a direct load of less than 2 GiB succeeds, returns the address of the block, and the memory of the block
  then holds the bytes of the sectors; no other byte changes, and the statistics count the bytes.\<close>

theorem direct_load_delivers:
  assumes "dr_initialized (ls_drive w)" and "ls_chan w = Some c" and "k \<noteq> 0" and "unat (n * 512) < 2 ^ 31"
    and "spmp_alloc k (n * 512) 4096 True (ls_spmp w) = (Inr a, sp)"
    and "f_init (ls_fabric w)" and "\<not> f_dma_lock (ls_fabric w)" and "ch_flags c AND 4 \<noteq> 0"
    and "node_at (ls_fabric w) (ch_src_node c) = Some x" and "node_ok i x" and "backed x (lba * 512) (n * 512) (ls_host w) p"
    and "node_at (ls_fabric w) (ch_dst_node c) = Some y" and "node_ok j y" and "backed y (al_addr a) (n * 512) (ls_host w) q"
  shows "\<exists>w' bs. brad_drive_direct_load lba n k True w = Returns (Inr (al_addr a), w') \<and>
    peek (ls_host w) p (unat (n * 512)) = Some bs \<and> peek (ls_host w') q (unat (n * 512)) = Some bs \<and>
    (\<forall>z. z < q \<or> q + unat (n * 512) \<le> z \<longrightarrow> ls_host w' z = ls_host w z) \<and>
    dr_bytes_read (ls_drive w') = dr_bytes_read (ls_drive w) + n * 512"
proof -
  have n0: "n * 512 \<noteq> 0" using assms(5) by (auto simp: spmp_alloc_def split: option.splits if_splits)
  obtain bs m' where m': "peek (ls_host w) p (unat (n * 512)) = Some bs" "poke (ls_host w) q bs = Some m'"
    "fabric_dma (Some c) (lba * 512) (al_addr a) (n * 512) (ls_fabric w) (ls_host w) = Returns (Inr (int_result (n * 512)),
       Some (c\<lparr> ch_bytes_tx := ch_bytes_tx c + n * 512 \<rparr>), after_dma x y (n * 512) (ls_fabric w), m')"
    by (rule dma_copies [OF assms(6,7) n0 assms(8-14)])
  have ret: "int_result (n * 512) = int (unat (n * 512))" by (rule int_result_small [OF assms(4)])
  then have "(of_int (int_result (n * 512)) :: u64) = n * 512" by simp
  moreover have "\<not> int_result (n * 512) < 0" using ret by simp
  ultimately show ?thesis
    using assms(1-3,5) m' peek_poke [OF m'(2)] poke_outside [OF m'(2)] peek_length [OF m'(1)]
    by (simp add: brad_drive_direct_load_def BRAD_DRIVE_SECTOR_SIZE_def Let_def)
qed

section \<open>A drive, two pools and two nodes\<close>

definition demo_pools :: spmp where
  "demo_pools = snd (spmp_pool_create (Some small_pool) True (snd (spmp_pool_create (Some small_pool) True (snd spmp_init))))"

lemma demo_pools_inv: "spmp_inv demo_pools"
proof -
  have "pools.run_safe [SpmpCreate small_pool, SpmpCreate small_pool] (snd spmp_init)"
    by (simp add: spmp_init_def small_pool_def pool_lo_def spmp_pool_create_def)
  from pools.run_inv [OF pools.init_inv this] show ?thesis by (simp add: demo_pools_def)
qed

definition load_nodes :: fabric where
  "load_nodes = (snd fabric_init)\<lparr> f_nodes :=
    [\<lparr> n_info = (demo_node 0)\<lparr> ni_id := 0, ni_limit := 0xFFFF \<rparr>, n_registered = True, n_mem = Some 0, n_mem_len = 0x1000 \<rparr>,
     \<lparr> n_info = (demo_node 0x200000000)\<lparr> ni_id := 1, ni_limit := 0x20000FFFF \<rparr>, n_registered = True, n_mem = Some 0x1000,
       n_mem_len = 0x1000 \<rparr>] \<rparr>"

definition demo_load :: load_state where
  "demo_load = \<lparr> ls_drive = snd (brad_drive_init drive_zero), ls_chan = Some demo_channel, ls_spmp = demo_pools,
     ls_fabric = load_nodes, ls_host = (\<lambda>z. if z < 0x2000 then Some 7 else None) \<rparr>"

definition load_block :: spmp_allocation where
  "load_block = \<lparr> al_addr = 0x200000000, al_size = 512, al_pool_id = 1, al_encrypted = 1 \<rparr>"

lemma demo_alloc: "fst (spmp_alloc 1 512 4096 True demo_pools) = Inr load_block"
  by code_simp

lemma direct_load_delivers_witness:
  "\<exists>w' bs. brad_drive_direct_load 1 1 1 True demo_load = Returns (Inr 0x200000000, w') \<and>
     peek (ls_host w') 0x1000 512 = Some bs \<and> dr_bytes_read (ls_drive w') = 512"
proof -
  obtain sp where sp: "spmp_alloc 1 512 4096 True demo_pools = (Inr load_block, sp)" using demo_alloc by (metis prod.collapse)
  let ?a = "f_nodes load_nodes ! 0" and ?b = "f_nodes load_nodes ! 1"
  have n: "node_at load_nodes 0 = Some ?a" "node_at load_nodes 1 = Some ?b" "node_ok 0 ?a" "node_ok 1 ?b"
    by (simp_all add: node_at_def load_nodes_def node_ok_def demo_node_def)
  have b: "backed ?a 512 512 (ls_host demo_load) 512" "backed ?b 0x200000000 512 (ls_host demo_load) 0x1000"
    by (simp_all add: backed_def load_nodes_def demo_node_def demo_load_def mapped_def)
  have c: "ch_flags demo_channel AND 4 \<noteq> 0" "ch_src_node demo_channel = 0" "ch_dst_node demo_channel = 1"
    by (simp_all add: demo_channel_def)
  have f: "f_init load_nodes" "\<not> f_dma_lock load_nodes" by (simp_all add: load_nodes_def fabric_init_def)
  have d: "dr_initialized (ls_drive demo_load)" "ls_chan demo_load = Some demo_channel" "ls_spmp demo_load = demo_pools"
    "ls_fabric demo_load = load_nodes" "dr_bytes_read (ls_drive demo_load) = 0"
    by (simp_all add: demo_load_def brad_drive_init_def drive_zero_def)
  show ?thesis
    using direct_load_delivers [where w = demo_load and c = demo_channel and k = 1 and n = 1 and lba = 1 and a = load_block and sp = sp
      and x = ?a and i = 0 and p = 512 and y = ?b and j = 1 and q = 4096] sp n b c f d
    by (auto simp: load_block_def)
qed

lemma direct_load_all_or_nothing_witness:
  "\<exists>e w'. brad_drive_direct_load 0x1000 1 1 True demo_load = Returns (Inl e, w') \<and> pool_view (ls_spmp w') 1 = pool_view demo_pools 1"
proof -
  obtain sp where sp: "spmp_alloc 1 512 4096 True demo_pools = (Inr load_block, sp)" using demo_alloc by (metis prod.collapse)
  have "\<exists>w'. brad_drive_direct_load 0x1000 1 1 True demo_load = Returns (Inl (Inl EFAULT), w')"
    using sp by (simp add: brad_drive_direct_load_def demo_load_def brad_drive_init_def drive_zero_def BRAD_DRIVE_SECTOR_SIZE_def
      fabric_dma_def load_nodes_def fabric_init_def demo_channel_def node_at_def demo_node_def region_valid_def)
  then obtain w' where w': "brad_drive_direct_load 0x1000 1 1 True demo_load = Returns (Inl (Inl EFAULT), w')" ..
  have "spmp_inv (ls_spmp demo_load)" using demo_pools_inv by (simp add: demo_load_def)
  from direct_load_all_or_nothing [OF this w'] show ?thesis using w' by (simp add: demo_load_def)
qed

section \<open>What is lost\<close>

text \<open>Whatever was written to a sector before, what is read are zeros.\<close>

lemma sectors_read_zero:
  assumes "brad_drive_read lba (Some buf) n d m = Returns (Inr r, d', m')"
  shows "peek m' buf (unat (n * 512)) = Some (replicate (unat (n * 512)) 0)"
proof -
  have "poke m buf (replicate (unat (n * 512)) 0) = Some m'"
    using assms by (auto simp: brad_drive_read_def BRAD_DRIVE_SECTOR_SIZE_def Let_def split: if_splits option.splits)
  from peek_poke [OF this] show ?thesis by simp
qed

text \<open>The check of a sector range wraps around: the last address of all passes it.\<close>

lemma sector_check_wraps: "fst (brad_drive_trim (- 1) 2 (snd (brad_drive_init d))) = Inr ()"
  by (simp add: brad_drive_trim_def brad_drive_init_def drive_zero_def is_valid_lba_def capacity_to_sectors_def BRAD_DRIVE_SECTOR_SIZE_def)

text \<open>A direct load does not check the range at all: past the capacity, or with a byte address that wraps around.\<close>

lemma direct_load_unchecked:
  "brad_drive_direct_load (lba + 2 ^ 55) n k out w = brad_drive_direct_load lba n k out w"
proof -
  have "(lba + 2 ^ 55) * BRAD_DRIVE_SECTOR_SIZE = lba * BRAD_DRIVE_SECTOR_SIZE"
    by (simp add: BRAD_DRIVE_SECTOR_SIZE_def distrib_right)
  then show ?thesis unfolding brad_drive_direct_load_def Let_def by (simp only:)
qed

text \<open>From 2 GiB on the length does not fit the \<open>int\<close> of the DMA call: the load fails although the bytes have been moved.\<close>

lemma large_load_fails:
  assumes "dr_initialized (ls_drive w)" and "ls_chan w = Some c" and "k \<noteq> 0" and "spmp_alloc k (n * 512) 4096 True (ls_spmp w) = (Inr a, sp)"
    and "fabric_dma (Some c) (lba * 512) (al_addr a) (n * 512) (ls_fabric w) (ls_host w) = Returns (Inr (int_result (n * 512)), ch, f, m)"
    and "n * 512 = 0x80000000"
  shows "brad_drive_direct_load lba n k True w = Returns (Inl (Inr (- 0x80000000)),
    w\<lparr> ls_chan := ch, ls_spmp := snd (spmp_free (Some a) sp), ls_fabric := f, ls_host := m \<rparr>)"
proof -
  have "int_result 0x80000000 = - 0x80000000" by (simp add: int_result_def)
  then show ?thesis using assms by (simp add: brad_drive_direct_load_def BRAD_DRIVE_SECTOR_SIZE_def)
qed

end
