(* ===== verification/WasmShim.thy ===== *)
theory WasmShim
  imports HostMem CString "HOL-Library.Signed_Division"
begin

text \<open>
  The C library of the browser build, \<open>wasm/wasm_shim.c\<close>, for a machine with 32-bit \<open>size_t\<close>, \<open>long\<close> and addresses: memory
  and string functions, \<open>strtol\<close>, the arena allocator, formatted output and the 64-bit division helpers. Memory is the
  byte-addressed memory of \<open>HostMem\<close>, a string that is only read the list of its characters.
\<close>

section \<open>Memory\<close>

text \<open>One byte stored and one byte copied.\<close>

definition put_byte :: "nat \<Rightarrow> u8 \<Rightarrow> host \<Rightarrow> host option" where
  "put_byte d b m = poke m d [b]"

definition copy_byte :: "nat \<Rightarrow> nat \<Rightarrow> nat \<Rightarrow> host \<Rightarrow> host option" where
  "copy_byte d s i m = (case m (s + i) of None \<Rightarrow> None | Some b \<Rightarrow> put_byte (d + i) b m)"

definition memset :: "nat \<Rightarrow> u32 \<Rightarrow> nat \<Rightarrow> host \<Rightarrow> host option" where
  "memset d c n = run_each (\<lambda>i. put_byte (d + i) (ucast c)) [0..<n]"

definition memcpy :: "nat \<Rightarrow> nat \<Rightarrow> nat \<Rightarrow> host \<Rightarrow> host option" where
  "memcpy d s n = run_each (copy_byte d s) [0..<n]"

definition memmove :: "nat \<Rightarrow> nat \<Rightarrow> nat \<Rightarrow> host \<Rightarrow> host option" where
  "memmove d s n m =
    (if d < s then run_each (copy_byte d s) [0..<n] m
     else if s < d then run_each (copy_byte d s) (rev [0..<n]) m
     else Some m)"

text \<open>The outer \<open>None\<close> is a byte that cannot be read.\<close>

fun memcmp :: "host \<Rightarrow> nat \<Rightarrow> nat \<Rightarrow> nat \<Rightarrow> int option" where
  "memcmp m a b 0 = Some 0"
| "memcmp m a b (Suc n) = (case (m a, m b) of
     (Some x, Some y) \<Rightarrow> if x \<noteq> y then Some (uint x - uint y) else memcmp m (Suc a) (Suc b) n
   | _ \<Rightarrow> None)"

section \<open>Strings\<close>

text \<open>A position in a string is the rest of the string from there.\<close>

fun strlen :: "string \<Rightarrow> nat" where
  "strlen [] = 0"
| "strlen (c # s) = Suc (strlen s)"

text \<open>What \<open>strcpy\<close> and \<open>strncpy\<close> store, with the NUL bytes.\<close>

definition strcpy :: "string \<Rightarrow> string" where
  "strcpy s = s @ [nul]"

fun strncpy :: "string \<Rightarrow> nat \<Rightarrow> string" where
  "strncpy s 0 = []"
| "strncpy [] (Suc n) = nul # strncpy [] n"
| "strncpy (c # s) (Suc n) = c # strncpy s n"

fun strcmp :: "string \<Rightarrow> string \<Rightarrow> int" where
  "strcmp (c # a) (d # b) = (if c = d then strcmp a b else int (chr_code c) - int (chr_code d))"
| "strcmp a b = int (chr_code (peek_chr a)) - int (chr_code (peek_chr b))"

fun strncmp :: "string \<Rightarrow> string \<Rightarrow> nat \<Rightarrow> int" where
  "strncmp a b 0 = 0"
| "strncmp a b (Suc n) =
     (if peek_chr a \<noteq> peek_chr b then int (chr_code (peek_chr a)) - int (chr_code (peek_chr b))
      else if a = [] then 0 else strncmp (tl a) (tl b) n)"

fun strchr :: "string \<Rightarrow> char \<Rightarrow> string option" where
  "strchr [] c = None"
| "strchr (d # s) c = (if d = c then Some (d # s) else strchr s c)"

fun strrchr_from :: "string option \<Rightarrow> string \<Rightarrow> char \<Rightarrow> string option" where
  "strrchr_from r [] c = r"
| "strrchr_from r (d # s) c = strrchr_from (if d = c then Some (d # s) else r) s c"

definition strrchr :: "string \<Rightarrow> char \<Rightarrow> string option" where
  "strrchr = strrchr_from None"

text \<open>The inner loop of \<open>strstr\<close>: the needle ends first.\<close>

fun starts_with :: "string \<Rightarrow> string \<Rightarrow> bool" where
  "starts_with a [] = True"
| "starts_with [] (d # b) = False"
| "starts_with (c # a) (d # b) = (c = d \<and> starts_with a b)"

fun strstr_loop :: "string \<Rightarrow> string \<Rightarrow> string option" where
  "strstr_loop [] n = None"
| "strstr_loop (c # h) n = (if starts_with (c # h) n then Some (c # h) else strstr_loop h n)"

definition strstr :: "string \<Rightarrow> string \<Rightarrow> string option" where
  "strstr h n = (if n = [] then Some h else strstr_loop h n)"

fun strcspn :: "string \<Rightarrow> string \<Rightarrow> nat" where
  "strcspn [] rej = 0"
| "strcspn (c # s) rej = (if list_ex (\<lambda>r. r = c) rej then 0 else Suc (strcspn s rej))"

fun strspn :: "string \<Rightarrow> string \<Rightarrow> nat" where
  "strspn [] acc = 0"
| "strspn (c # s) acc = (if \<not> list_ex (\<lambda>r. r = c) acc then 0 else Suc (strspn s acc))"

section \<open>Numbers from text\<close>

definition shim_space :: "char \<Rightarrow> bool" where
  "shim_space c \<longleftrightarrow> c = CHR '' '' \<or> c = CHR 0x09 \<or> c = CHR 0x0A"

definition shim_digit :: "char \<Rightarrow> int option" where
  "shim_digit c =
    (let k = int (chr_code c) in
     if 48 \<le> k \<and> k \<le> 57 then Some (k - 48)
     else if 97 \<le> k \<and> k \<le> 102 then Some (k - 97 + 10)
     else if 65 \<le> k \<and> k \<le> 70 then Some (k - 65 + 10)
     else None)"

text \<open>The loop over the digits: the accumulator, whether there was a digit, and the rest.\<close>

fun digits_loop :: "int \<Rightarrow> u32 \<Rightarrow> bool \<Rightarrow> string \<Rightarrow> u32 \<times> bool \<times> string" where
  "digits_loop base acc any [] = (acc, any, [])"
| "digits_loop base acc any (c # p) = (case shim_digit c of None \<Rightarrow> (acc, any, c # p)
   | Some d \<Rightarrow> if base \<le> d then (acc, any, c # p) else digits_loop base (acc * of_int base + of_int d) True p)"

definition hex_prefix :: "string \<Rightarrow> bool" where
  "hex_prefix p \<longleftrightarrow> peek_chr p = CHR ''0'' \<and> (peek_chr (tl p) = CHR ''x'' \<or> peek_chr (tl p) = CHR ''X'')"

definition shim_base :: "int \<Rightarrow> string \<Rightarrow> int \<times> string" where
  "shim_base base p =
    (if base = 0 then
       (if hex_prefix p then (16, tl (tl p)) else if peek_chr p = CHR ''0'' then (8, p) else (10, p))
     else if base = 16 \<and> hex_prefix p then (16, tl (tl p))
     else (base, p))"

text \<open>The number, or \<open>None\<close> when negating it overflows, and \<open>*end\<close>.\<close>

definition shim_strtol :: "string \<Rightarrow> int \<Rightarrow> int option \<times> string" where
  "shim_strtol s base0 =
    (let p1 = dropWhile shim_space s;
         neg = (peek_chr p1 = CHR ''-'');
         p2 = (if neg \<or> peek_chr p1 = CHR ''+'' then tl p1 else p1);
         (base, p3) = shim_base base0 p2;
         (acc, any, p4) = digits_loop base 0 False p3 in
     if \<not> any then (Some 0, s)
     else (if neg then (if sint acc = - (2 ^ 31) then None else Some (- sint acc)) else Some (sint acc), p4))"

text \<open>The state of \<open>rand\<close> is \<open>g_rand_state\<close>.\<close>

definition shim_srand :: "u32 \<Rightarrow> u32" where
  "shim_srand s = (if s \<noteq> 0 then s else 1)"

definition shim_rand :: "u32 \<Rightarrow> int \<times> u32" where
  "shim_rand g = (let g' = g * 1103515245 + 12345 in (uint (drop_bit 16 g' AND 0x7FFF), g'))"

section \<open>The arena\<close>

definition ARENA :: u32 where "ARENA = 6 * 1024 * 1024"

text \<open>\<open>g_hb\<close> is passed on; a block is its offset in the arena. All sums wrap at 32 bits.\<close>

definition wasm_reset_arena :: "u32 \<Rightarrow> u32" where
  "wasm_reset_arena hb = 0"

definition shim_malloc :: "u32 \<Rightarrow> u32 \<Rightarrow> u32 option \<times> u32" where
  "shim_malloc n0 hb =
    (let n = (n0 + 15) AND NOT 15 in
     if ARENA < hb + n then (None, hb) else (Some hb, hb + n))"

text \<open>The block and the number of bytes that are cleared in it.\<close>

definition shim_calloc :: "u32 \<Rightarrow> u32 \<Rightarrow> u32 \<Rightarrow> (u32 \<times> u32) option \<times> u32" where
  "shim_calloc n s hb =
    (let t = n * s in case shim_malloc t hb of (None, hb') \<Rightarrow> (None, hb') | (Some p, hb') \<Rightarrow> (Some (p, t), hb'))"

section \<open>64-bit division\<close>

text \<open>Bit by bit from the top: quotient and remainder.\<close>

definition div_bit :: "u64 \<Rightarrow> u64 \<Rightarrow> nat \<Rightarrow> u64 \<times> u64 \<Rightarrow> u64 \<times> u64" where
  "div_bit a b i = (\<lambda>(q, r).
    let r' = push_bit 1 r OR (drop_bit i a AND 1) in
    if b \<le> r' then (q OR push_bit i 1, r' - b) else (q, r'))"

definition udivmod :: "u64 \<Rightarrow> u64 \<Rightarrow> bool \<Rightarrow> u64" where
  "udivmod a b is_div = (let (q, r) = fold (div_bit a b) (rev [0..<64]) (0, 0) in if is_div then q else r)"

definition udivdi3 :: "u64 \<Rightarrow> u64 \<Rightarrow> u64" where
  "udivdi3 a b = udivmod a b True"

definition umoddi3 :: "u64 \<Rightarrow> u64 \<Rightarrow> u64" where
  "umoddi3 a b = udivmod a b False"

text \<open>The operands and results are the bits of signed numbers.\<close>

definition divdi3 :: "u64 \<Rightarrow> u64 \<Rightarrow> u64" where
  "divdi3 a b =
    (let neg = ((sint a < 0) \<noteq> (sint b < 0));
         ua = (if sint a < 0 then - a else a);
         ub = (if sint b < 0 then - b else b);
         q = udivdi3 ua ub in
     if neg then 0 - q else q)"

definition moddi3 :: "u64 \<Rightarrow> u64 \<Rightarrow> u64" where
  "moddi3 a b =
    (let neg = (sint a < 0);
         ua = (if sint a < 0 then - a else a);
         ub = (if sint b < 0 then - b else b);
         r = umoddi3 ua ub in
     if neg then 0 - r else r)"

end
