(* ===== verification/ShimDiv.thy ===== *)
theory ShimDiv
  imports WasmShim
begin

text \<open>
  The 64-bit division helpers of the browser build compute quotient and remainder for every divisor, and their signed forms
  round towards zero.
\<close>

section \<open>Unsigned\<close>

lemma div_pow_Suc: "n div 2 ^ i div 2 = n div (2 :: nat) ^ Suc i"
  by (simp only: div_mult2_eq [symmetric] power_Suc2)

lemma unat_pow2: "i < 64 \<Longrightarrow> unat (2 ^ i :: u64) = 2 ^ i"
proof -
  assume "i < 64"
  then have "(2 :: nat) ^ i < 2 ^ 64" by (rule power_strict_increasing) simp
  moreover have "(2 ^ i :: u64) = of_nat (2 ^ i)" by simp
  ultimately show ?thesis by (simp only: unat_of_nat) simp
qed

lemma div_mod_parts: "s < (b :: nat) \<Longrightarrow> (k * b + s) div b = k \<and> (k * b + s) mod b = s"
  by simp

lemma shift_in_bit:
  assumes "unat (r :: u64) < 2 ^ 63"
  shows "unat (push_bit 1 r OR (drop_bit i a AND 1)) = 2 * unat r + (unat a div 2 ^ i) mod 2"
proof -
  have "unat (push_bit 1 r) = 2 * unat r"
    using assms by (simp add: unat_word_ariths)
  moreover have "unat (drop_bit i a AND 1) = (unat a div 2 ^ i) mod 2"
    by (simp only: unsigned_and_eq unsigned_drop_bit_eq unsigned_1) (simp add: drop_bit_eq_div and_one_eq take_bit_nat_eq_self [OF unat_u64])
  moreover have "2 * x OR y mod 2 = 2 * x + y mod 2" for x y :: nat
    by (cases "even y") (simp_all add: or_Suc_0_eq mod_2_eq_odd)
  ultimately show ?thesis by (simp add: unsigned_or_eq)
qed

lemma set_low_bit:
  assumes "unat (q :: u64) = k * 2 ^ Suc i" "i < 64"
  shows "unat (q OR push_bit i 1) = (2 * k + 1) * 2 ^ i"
proof -
  have "unat (push_bit i 1 :: u64) = 2 ^ i" using assms(2) by (simp add: unat_pow2)
  then have "unat (q OR push_bit i 1) = push_bit i (2 * k) OR push_bit i 1"
    using assms(1) by (simp add: unsigned_or_eq push_bit_eq_mult ac_simps)
  also have "\<dots> = push_bit i (2 * k OR 1)" by (rule push_bit_or [symmetric])
  also have "2 * k OR 1 = 2 * k + 1" by (simp add: or_Suc_0_eq)
  finally show ?thesis by (simp add: push_bit_eq_mult)
qed

lemma divmod_fold:
  assumes "i \<le> 64" "b \<noteq> 0"
  shows "case fold (div_bit a b) (rev [i..<64]) (0, 0) of (q, r) \<Rightarrow>
    unat q = unat a div 2 ^ i div unat b * 2 ^ i \<and> unat r = unat a div 2 ^ i mod unat b"
  using assms(1)
proof (induction i rule: inc_induct)
  case base
  have "unat a div 2 ^ 64 = 0" using unat_u64 [of a] by simp
  then show ?case by simp
next
  case (step i)
  let ?A = "unat a" and ?B = "unat b"
  obtain q r where qr: "fold (div_bit a b) (rev [Suc i..<64]) (0, 0) = (q, r)"
    by (cases "fold (div_bit a b) (rev [Suc i..<64]) (0, 0)")
  let ?n = "?A div 2 ^ Suc i"
  have q: "unat q = ?n div ?B * 2 ^ Suc i" and r: "unat r = ?n mod ?B" using step.IH qr by simp_all
  have B: "0 < ?B" using assms(2) by (simp add: unat_gt_0)
  have "?n \<le> ?A div 2" by (simp add: div_le_mono2 self_le_power)
  then have "?n < 2 ^ 63" using unat_u64 [of a] by simp
  then have r63: "unat r < 2 ^ 63" using r by (metis le_less_trans mod_less_eq_dividend)
  let ?r = "push_bit 1 r OR (drop_bit i a AND 1)"
  have m: "?A div 2 ^ i = 2 * ?n + (?A div 2 ^ i) mod 2" unfolding div_pow_Suc [symmetric] by simp
  have r': "unat ?r = 2 * (?n mod ?B) + (?A div 2 ^ i) mod 2" using shift_in_bit [OF r63] r by simp
  have split: "?A div 2 ^ i = 2 * (?n div ?B) * ?B + unat ?r"
  proof -
    have "2 * ?n = 2 * (?n div ?B) * ?B + 2 * (?n mod ?B)"
      by (metis add_mult_distrib2 div_mult_mod_eq mult.assoc)
    then show ?thesis using m r' by simp
  qed
  have "?n mod ?B < ?B" "(?A div 2 ^ i) mod 2 < 2" using B by simp_all
  then have small: "unat ?r < 2 * ?B" unfolding r' by linarith
  have step1: "fold (div_bit a b) (rev [i..<64]) (0, 0) = div_bit a b i (q, r)"
    using qr step.hyps by (simp add: upt_conv_Cons)
  show ?case
  proof (cases "b \<le> ?r")
    case True
    then have le: "?B \<le> unat ?r" by (simp add: word_le_nat_alt)
    have "unat (?r - b) = unat ?r - ?B" using True by (rule unat_sub)
    moreover have "?A div 2 ^ i div ?B = 2 * (?n div ?B) + 1 \<and> ?A div 2 ^ i mod ?B = unat ?r - ?B"
    proof -
      have *: "?A div 2 ^ i = (2 * (?n div ?B) + 1) * ?B + (unat ?r - ?B)" using split le by (simp add: algebra_simps)
      have "unat ?r - ?B < ?B" using small le by simp
      from div_mod_parts [OF this] show ?thesis unfolding * .
    qed
    ultimately show ?thesis
      using True set_low_bit [OF q step.hyps(2)] unfolding step1 by (simp add: div_bit_def)
  next
    case False
    then have lt: "unat ?r < ?B" by (simp add: word_le_nat_alt)
    have "?A div 2 ^ i div ?B = 2 * (?n div ?B) \<and> ?A div 2 ^ i mod ?B = unat ?r"
      unfolding split using div_mod_parts [OF lt] .
    then show ?thesis using False q unfolding step1 by (simp add: div_bit_def)
  qed
qed

lemma udivmod_eq:
  assumes "b \<noteq> 0"
  shows "udivdi3 a b = a div b" "umoddi3 a b = a mod b"
proof -
  obtain q r where qr: "fold (div_bit a b) (rev [0..<64]) (0, 0) = (q, r)"
    by (cases "fold (div_bit a b) (rev [0..<64]) (0, 0)")
  have "unat q = unat a div unat b" "unat r = unat a mod unat b" using divmod_fold [of 0 b a] assms qr by simp_all
  then have "q = a div b" "r = a mod b" by (simp_all add: word_unat_eq_iff unat_div unat_mod)
  then show "udivdi3 a b = a div b" "umoddi3 a b = a mod b" using qr by (simp_all add: udivdi3_def umoddi3_def udivmod_def)
qed

section \<open>Signed\<close>

lemma sint_of:
  assumes "- (2 ^ 63) \<le> i" "i < 2 ^ 63"
  shows "sint (word_of_int i :: u64) = i"
proof -
  have "sint (word_of_int i :: u64) = (i + 2 ^ 63) mod 2 ^ 64 - 2 ^ 63" by (simp add: int_word_sint)
  also have "(i + 2 ^ 63) mod 2 ^ 64 = i + 2 ^ 63" using assms by (intro mod_pos_pos_trivial) simp_all
  finally show ?thesis by simp
qed

lemma sint_small64: "unat (w :: u64) < 2 ^ 63 \<Longrightarrow> sint w = int (unat w)"
proof -
  assume "unat w < 2 ^ 63"
  then have "- (2 ^ 63) \<le> int (unat w)" "int (unat w) < 2 ^ 63" by (simp_all only: of_nat_less_numeral_power_cancel_iff) (rule order_trans [OF _ of_nat_0_le_iff], simp)
  from sint_of [OF this] show ?thesis by simp
qed

lemma sint_minus64: "unat (w :: u64) \<le> 2 ^ 63 \<Longrightarrow> sint (- w) = - int (unat w)"
proof -
  assume "unat w \<le> 2 ^ 63"
  then have "int (unat w) \<le> 2 ^ 63" by (simp only: of_nat_le_numeral_power_cancel_iff)
  then have "- (2 ^ 63) \<le> - int (unat w)" by linarith
  moreover have "- int (unat w) < 2 ^ 63" by (rule order.strict_trans1 [of _ 0]) simp_all
  ultimately have "sint (word_of_int (- int (unat w)) :: u64) = - int (unat w)" by (rule sint_of)
  then show ?thesis by simp
qed

lemma sint_range64: "- (2 ^ 63) \<le> sint (a :: u64)" "sint (a :: u64) < 2 ^ 63"
  using sint_ge [of a] sint_lt [of a] by simp_all

lemma unat_of:
  assumes "0 \<le> i" "i < 2 ^ 64"
  shows "int (unat (word_of_int i :: u64)) = i"
  using assms by (simp add: uint_word_of_int)

lemma magnitude: "int (unat (if sint a < 0 then - a else a)) = \<bar>sint (a :: u64)\<bar>"
proof (cases "sint a < 0")
  case True
  have "- a = word_of_int (- sint a)" by simp
  then show ?thesis using unat_of [of "- sint a"] True sint_range64 [of a] by simp
next
  case False
  have "a = word_of_int (sint a)" by simp
  then show ?thesis using unat_of [of "sint a"] False sint_range64 [of a] by simp
qed

definition trunc_div :: "int \<Rightarrow> int \<Rightarrow> int" where
  "trunc_div a b = (if (a < 0) \<noteq> (b < 0) then - (\<bar>a\<bar> div \<bar>b\<bar>) else \<bar>a\<bar> div \<bar>b\<bar>)"

lemma trunc_div_sdiv: "trunc_div a b = a sdiv b"
  by (auto simp: trunc_div_def signed_divide_int_def sgn_if)

lemma trunc_rem:
  "(if a < 0 then - (\<bar>a\<bar> mod \<bar>b\<bar>) else \<bar>a\<bar> mod \<bar>b\<bar>) = a - trunc_div a b * (b :: int)"
proof -
  define m where "m = \<bar>a\<bar> div \<bar>b\<bar>"
  have "\<bar>a\<bar> mod \<bar>b\<bar> = \<bar>a\<bar> - \<bar>b\<bar> * m" by (simp add: m_def minus_mult_div_eq_mod)
  then show ?thesis unfolding trunc_div_def m_def [symmetric] by (auto simp: abs_if algebra_simps)
qed

lemma signed_parts:
  assumes "b \<noteq> 0" "\<not> (sint a = - (2 ^ 63) \<and> sint b = - 1)"
  shows "sint (divdi3 a b) = trunc_div (sint a) (sint b)"
    "sint (moddi3 a b) = (if sint a < 0 then - (\<bar>sint a\<bar> mod \<bar>sint b\<bar>) else \<bar>sint a\<bar> mod \<bar>sint b\<bar>)"
proof -
  let ?a = "if sint a < 0 then - a else a" and ?b = "if sint b < 0 then - b else b"
  have b0: "?b \<noteq> 0" using assms(1) by auto
  let ?q = "?a div ?b" and ?r = "?a mod ?b"
  have q: "int (unat ?q) = \<bar>sint a\<bar> div \<bar>sint b\<bar>" and r: "int (unat ?r) = \<bar>sint a\<bar> mod \<bar>sint b\<bar>"
    using magnitude [of a] magnitude [of b] by (simp_all only: unat_div unat_mod of_nat_div of_nat_mod)
  have a63: "\<bar>sint a\<bar> \<le> 2 ^ 63" using sint_range64 [of a] by simp
  have sb: "sint b \<noteq> 0"
  proof -
    have "unat ?b \<noteq> 0" using b0 by (simp only: unat_eq_0 not_False_eq_True)
    then show ?thesis using magnitude [of b] by linarith
  qed
  have q63: "unat ?q \<le> 2 ^ 63"
  proof -
    have "\<bar>sint a\<bar> div \<bar>sint b\<bar> \<le> \<bar>sint a\<bar>" using zdiv_mono2 [of "\<bar>sint a\<bar>" 1 "\<bar>sint b\<bar>"] sb by simp
    then have "int (unat ?q) \<le> 2 ^ 63" using q a63 by linarith
    then show ?thesis by (simp only: of_nat_le_numeral_power_cancel_iff)
  qed
  have q_pos: "unat ?q < 2 ^ 63" if "(sint a < 0) = (sint b < 0)"
  proof -
    have "\<bar>sint a\<bar> div \<bar>sint b\<bar> < 2 ^ 63"
    proof (cases "\<bar>sint b\<bar> = 1")
      case True
      then have "\<bar>sint a\<bar> < 2 ^ 63" using that assms(2) sint_range64 [of a] by (auto split: abs_split)
      then show ?thesis using True by simp
    next
      case False
      then have "\<bar>sint a\<bar> div \<bar>sint b\<bar> \<le> \<bar>sint a\<bar> div 2" using sb by (intro zdiv_mono2) auto
      also have "\<bar>sint a\<bar> div 2 \<le> 2 ^ 63 div 2" using a63 by (intro zdiv_mono1) simp_all
      finally show ?thesis by simp
    qed
    then have "int (unat ?q) < 2 ^ 63" using q by linarith
    then show ?thesis by (simp only: of_nat_less_numeral_power_cancel_iff)
  qed
  have r63: "unat ?r < 2 ^ 63"
  proof -
    have "\<bar>sint a\<bar> mod \<bar>sint b\<bar> < \<bar>sint b\<bar>" using sb by simp
    moreover have "\<bar>sint b\<bar> \<le> 2 ^ 63" using sint_range64 [of b] by simp
    ultimately have "int (unat ?r) < 2 ^ 63" using r by linarith
    then show ?thesis by (simp only: of_nat_less_numeral_power_cancel_iff)
  qed
  show "sint (divdi3 a b) = trunc_div (sint a) (sint b)"
    unfolding divdi3_def Let_def udivmod_eq(1) [OF b0]
    using sint_minus64 [OF q63] sint_small64 [OF q_pos] q by (auto simp: trunc_div_def)
  show "sint (moddi3 a b) = (if sint a < 0 then - (\<bar>sint a\<bar> mod \<bar>sint b\<bar>) else \<bar>sint a\<bar> mod \<bar>sint b\<bar>)"
    unfolding moddi3_def Let_def udivmod_eq(2) [OF b0]
    using sint_minus64 [of ?r] sint_small64 [OF r63] r r63 by auto
qed


text \<open>C38: The division helpers compute quotient and remainder bit by bit without losing one, for every divisor other than zero; the
  signed ones round towards zero, with a remainder of the sign of the dividend, except for the one quotient
  that is not representable.\<close>

theorem division_helpers:
  assumes "b \<noteq> 0"
  shows "udivdi3 a b = a div b \<and> umoddi3 a b = a mod b \<and>
    (sint a = - (2 ^ 63) \<and> sint b = - 1 \<or>
     sint (divdi3 a b) = sint a sdiv sint b \<and> sint (moddi3 a b) = sint a - sint a sdiv sint b * sint b)"
proof (cases "sint a = - (2 ^ 63) \<and> sint b = - 1")
  case False
  show ?thesis using signed_parts [OF assms False] udivmod_eq [OF assms] by (simp only: trunc_rem trunc_div_sdiv) simp
qed (use udivmod_eq [OF assms] in simp)

lemma division_helpers_witness:
  "udivdi3 (- 1) 10 = 1844674407370955161 \<and> sint (divdi3 (- 7) 2) = - 3 \<and> sint (moddi3 (- 7) 2) = - 1"
  using division_helpers [of 10 "- 1"] division_helpers [of 2 "- 7"] by (simp add: signed_divide_int_def)

end
