(* ===== verification/ShimProps.thy ===== *)
theory ShimProps
  imports WasmShim Machine
begin

text \<open>
  Properties of the C library of the browser build: moving overlapping memory, searching and comparing strings, the
  agreement of its number parser with the C library, and what the arena hands out.
\<close>

section \<open>Moving memory\<close>

text \<open>After some bytes have been copied: these are at the destination, and the rest of the memory is as before.\<close>

definition copied :: "nat set \<Rightarrow> nat \<Rightarrow> nat \<Rightarrow> host \<Rightarrow> host \<Rightarrow> bool" where
  "copied I d s m m' \<longleftrightarrow> (\<forall>x. m' x = (if x \<in> (+) d ` I then m (s + (x - d)) else m x))"

lemma copied_step:
  assumes "copied I d s m m'" "i \<notin> I" "m (s + i) \<noteq> None" "m (d + i) \<noteq> None" "\<And>j. j \<in> I \<Longrightarrow> d + j \<noteq> s + i"
  shows "\<exists>m''. copy_byte d s i m' = Some m'' \<and> copied (insert i I) d s m m''"
proof -
  have src: "m' (s + i) = m (s + i)" using assms(1,5) by (auto simp: copied_def image_iff) (metis)
  have dst: "m' (d + i) = m (d + i)" using assms(1,2) by (auto simp: copied_def image_iff)
  obtain b where b: "m (s + i) = Some b" using assms(3) by blast
  have "copy_byte d s i m' = Some (m'(d + i \<mapsto> b))" using src dst b assms(4) by (simp add: copy_byte_def put_byte_def)
  moreover have "copied (insert i I) d s m (m'(d + i \<mapsto> b))" using assms(1) b by (auto simp: copied_def)
  ultimately show ?thesis by blast
qed

lemma copied_run:
  assumes "copied I d s m m'" "distinct is" "set is \<inter> I = {}"
    and "\<And>i. i \<in> set is \<Longrightarrow> m (s + i) \<noteq> None \<and> m (d + i) \<noteq> None"
    and "\<And>k j. k < length is \<Longrightarrow> j \<in> I \<union> set (take k is) \<Longrightarrow> d + j \<noteq> s + is ! k"
  shows "\<exists>m''. run_each (copy_byte d s) is m' = Some m'' \<and> copied (I \<union> set is) d s m m''"
  using assms
proof (induction "is" arbitrary: I m')
  case Nil
  then show ?case by simp
next
  case (Cons i "is")
  obtain m1 where m1: "copy_byte d s i m' = Some m1" "copied (insert i I) d s m m1"
    using copied_step [OF Cons.prems(1), of i] Cons.prems(3,4) Cons.prems(5) [of 0] by auto
  have "\<exists>m''. run_each (copy_byte d s) is m1 = Some m'' \<and> copied (insert i I \<union> set is) d s m m''"
  proof (rule Cons.IH [OF m1(2)])
    show "distinct is" "set is \<inter> insert i I = {}" using Cons.prems(2,3) by auto
    show "m (s + j) \<noteq> None \<and> m (d + j) \<noteq> None" if "j \<in> set is" for j using Cons.prems(4) that by simp
    show "d + j \<noteq> s + is ! k" if "k < length is" "j \<in> insert i I \<union> set (take k is)" for k j
      using Cons.prems(5) [of "Suc k" j] that by auto
  qed
  then show ?case using m1(1) by simp
qed

lemma copied_all:
  assumes "copied {..<n} d s m m'" "peek m s n = Some bs"
  shows "poke m d bs = Some m' \<or> \<not> mapped m d n"
proof -
  have bs: "bs = map (\<lambda>i. the (m (s + i))) [0..<n]" "mapped m s n" using assms(2) by (auto simp: peek_eq split: if_splits)
  have "m' = (\<lambda>x. if d \<le> x \<and> x < d + n then Some (bs ! (x - d)) else m x)"
  proof
    fix x
    have "x \<in> (+) d ` {..<n} \<longleftrightarrow> d \<le> x \<and> x < d + n" by (simp add: lessThan_atLeast0 add.commute)
    moreover have "m (s + (x - d)) = Some (bs ! (x - d))" if "d \<le> x" "x < d + n"
      using bs(2) [unfolded mapped_def, rule_format, of "x - d"] bs(1) that by (auto simp del: Nat.add_diff_assoc)
    ultimately show "m' x = (if d \<le> x \<and> x < d + n then Some (bs ! (x - d)) else m x)" using assms(1) by (simp add: copied_def)
  qed
  moreover have "length bs = n" using bs(1) by simp
  ultimately show ?thesis by (simp add: poke_eq)
qed

text \<open>Moving memory byte by byte, forwards or backwards as the addresses ask for, has the effect of reading all bytes before
  any is written, for every overlap of the two ranges.\<close>

theorem memmove_moves:
  assumes "mapped m s n" and "mapped m d n"
  shows "memmove d s n m = Option.bind (peek m s n) (poke m d)"
proof -
  obtain bs where bs: "peek m s n = Some bs" using peek_total [OF assms(1)] by blast
  have start: "copied {} d s m m" by (simp add: copied_def)
  have ok: "m (s + i) \<noteq> None \<and> m (d + i) \<noteq> None" if "i < n" for i using assms that by (simp add: mapped_def)
  have fin: "poke m d bs = Some m'" if "copied {..<n} d s m m'" for m' using copied_all [OF that bs] assms(2) by blast
  consider (fwd) "d < s" | (bwd) "s < d" | (same) "d = s" by linarith
  then show ?thesis
  proof cases
    case fwd
    have "\<exists>m'. run_each (copy_byte d s) [0..<n] m = Some m' \<and> copied ({} \<union> set [0..<n]) d s m m'"
      by (rule copied_run [OF start]) (use ok fwd in auto)
    then show ?thesis using fin fwd bs by (auto simp: memmove_def lessThan_atLeast0)
  next
    case bwd
    have "\<exists>m'. run_each (copy_byte d s) (rev [0..<n]) m = Some m' \<and> copied ({} \<union> set (rev [0..<n])) d s m m'"
      by (rule copied_run [OF start]) (use ok bwd in \<open>auto simp: rev_nth in_set_conv_nth\<close>)
    then show ?thesis using fin bwd bs by (auto simp: memmove_def lessThan_atLeast0)
  next
    case same
    then show ?thesis using poke_peek [OF bs] bs by (simp add: memmove_def)
  qed
qed

lemma memmove_moves_witness:
  "memmove 1 0 3 (\<lambda>x. if x < 8 then Some (of_nat x) else None) = Option.bind (peek (\<lambda>x. if x < 8 then Some (of_nat x) else None) 0 3)
     (poke (\<lambda>x. if x < 8 then Some (of_nat x) else None) 1)"
  by (rule memmove_moves) (simp_all add: mapped_def)

section \<open>Searching and comparing\<close>

lemma starts_with_take: "starts_with a b \<longleftrightarrow> take (length b) a = b"
  by (induction a b rule: starts_with.induct) auto

lemma strstr_loop_find:
  assumes "n \<noteq> []"
  shows "strstr_loop h n = map_option (\<lambda>i. drop i h) (List.find (\<lambda>i. take (length n) (drop i h) = n) [0..<length h])"
proof (induction h)
  case (Cons c h)
  have "List.find P (0 # map Suc xs) = (if P 0 then Some 0 else map_option Suc (List.find (P \<circ> Suc) xs))" for P :: "nat \<Rightarrow> bool" and xs
  proof -
    have "List.find P (map Suc xs) = map_option Suc (List.find (P \<circ> Suc) xs)" by (induction xs) auto
    then show ?thesis by simp
  qed
  note * = this [of "\<lambda>i. take (length n) (drop i (c # h)) = n" "[0..<length h]"]
  have up: "[0..<length (c # h)] = 0 # map Suc [0..<length h]" by (simp only: list.size(4) add_Suc_right add_0_right upt_conv_Cons [OF zero_less_Suc] map_Suc_upt)
  show ?case unfolding up * strstr_loop.simps Cons.IH starts_with_take
    by (simp add: option.map_comp o_def)
qed simp

text \<open>Searching a text in another finds its first occurrence, and only then.\<close>

theorem strstr_first:
  "strstr h n = map_option (\<lambda>i. drop i h) (List.find (\<lambda>i. take (length n) (drop i h) = n) [0..<Suc (length h)])"
proof (cases "n = []")
  case False
  have "List.find P (xs @ [x]) = List.find P xs" if "\<not> P x" for P :: "nat \<Rightarrow> bool" and xs x
    using that by (induction xs) auto
  from this [of "\<lambda>i. take (length n) (drop i h) = n" "length h" "[0..<length h]"] False
  have "List.find (\<lambda>i. take (length n) (drop i h) = n) [0..<Suc (length h)]
      = List.find (\<lambda>i. take (length n) (drop i h) = n) [0..<length h]" by simp
  then show ?thesis using strstr_loop_find [OF False, of h] False by (simp only: strstr_def if_False)
next
  case True
  then show ?thesis by (simp add: strstr_def upt_conv_Cons del: upt_Suc)
qed

lemma chr_code_inj: "chr_code c = chr_code d \<longleftrightarrow> c = d"
  by (simp add: chr_code_def)

lemma chr_code_nul [simp]: "chr_code nul = 0"
  by code_simp

lemma chr_code_pos: "c \<noteq> nul \<Longrightarrow> 0 < chr_code c"
  using chr_code_inj [of c nul] by simp

text \<open>The comparison of texts is zero exactly for equal texts and negative exactly when the first comes before the second in
  the order of the character codes.\<close>

theorem strcmp_orders:
  assumes "no_nul a" and "no_nul b"
  shows "(strcmp a b = 0 \<longleftrightarrow> a = b) \<and> (strcmp a b < 0 \<longleftrightarrow> ord_class.lexordp (map chr_code a) (map chr_code b))"
  using assms
proof (induction a b rule: strcmp.induct)
  case (1 c a d b)
  then show ?case using chr_code_inj [of c d] by (auto simp: no_nul_def)
qed (auto simp: peek_chr_def no_nul_def chr_code_pos neq_Nil_conv split: list.splits)

lemma strcmp_orders_witness: "strcmp ''abc'' ''abd'' < 0 \<longleftrightarrow> ord_class.lexordp (map chr_code ''abc'') (map chr_code ''abd'')"
  using strcmp_orders [of "''abc''" "''abd''"] by (simp add: no_nul_def)

section \<open>Numbers\<close>

lemma shim_digit_value: "shim_digit c = (if digit_value c < 16 then Some (digit_value c) else None)"
  by (auto simp: shim_digit_def digit_value_def isdigit_def Let_def)

lemma digit_value_nonneg: "0 \<le> digit_value c"
  by (auto simp: digit_value_def isdigit_def)

text \<open>The loop over the digits computes the value of the longest run of digits, modulo 2 ^ 32.\<close>

lemma digits_loop_value:
  assumes "b \<le> 16"
  shows "digits_loop b (word_of_int v) any p = (let ds = takeWhile (\<lambda>c. digit_value c < b) p in
    (word_of_int (foldl (\<lambda>acc c. acc * b + digit_value c) v ds), any \<or> ds \<noteq> [], drop (length ds) p))"
proof (induction p arbitrary: v any)
  case (Cons c p)
  show ?case
  proof (cases "digit_value c < b")
    case True
    have "word_of_int v * of_int b + of_int (digit_value c) = (word_of_int (v * b + digit_value c) :: u32)" by simp
    then show ?thesis using True assms Cons.IH [of "v * b + digit_value c" True]
      by (simp add: shim_digit_value Let_def)
  qed (simp add: shim_digit_value Let_def)
qed simp

text \<open>The texts for which the C library and the parser see the same: the space is plain, and \<open>0x\<close> is followed by a digit.\<close>

definition plain_number :: "string \<Rightarrow> bool" where
  "plain_number s \<longleftrightarrow> list_all (\<lambda>c. isspace c = shim_space c) s \<and>
    (let p = dropWhile isspace s; q = (if peek_chr p = CHR ''-'' \<or> peek_chr p = CHR ''+'' then tl p else p) in
     hex_prefix q \<longrightarrow> digit_value (peek_chr (tl (tl q))) < 16)"

lemma shim_base_agrees:
  assumes "base < 16" "hex_prefix q \<longrightarrow> digit_value (peek_chr (tl (tl q))) < 16"
  shows "shim_base base q = strtol_base base q"
  using assms by (auto simp: shim_base_def strtol_base_def hex_prefix_def)

lemma sint_of32:
  assumes "- (2 ^ 31) \<le> i" "i < 2 ^ 31"
  shows "sint (word_of_int i :: u32) = i"
proof -
  have "sint (word_of_int i :: u32) = (i + 2 ^ 31) mod 2 ^ 32 - 2 ^ 31" by (simp add: int_word_sint)
  also have "(i + 2 ^ 31) mod 2 ^ 32 = i + 2 ^ 31" using assms by (intro mod_pos_pos_trivial) simp_all
  finally show ?thesis by simp
qed

lemma foldl_nonneg: "0 \<le> b \<Longrightarrow> 0 \<le> v \<Longrightarrow> 0 \<le> foldl (\<lambda>acc c. acc * b + digit_value c) v ds"
  by (induction ds arbitrary: v) (simp_all add: digit_value_nonneg)

text \<open>C37: On a text with plain space, without a lone \<open>0x\<close> and with a value below 2 ^ 31, the number parser of the browser build returns the
  number and the end position that the C library does, for base 0 and all bases below 16.\<close>

theorem strtol_agrees:
  assumes "0 \<le> base" and "base < 16" and "plain_number s" and "\<bar>fst (strtol s base)\<bar> < 2 ^ 31"
  shows "shim_strtol s base = (Some (fst (strtol s base)), snd (strtol s base))"
proof -
  have "dropWhile shim_space s = dropWhile isspace s"
    using assms(3) by (intro dropWhile_cong) (auto simp: plain_number_def list_all_iff)
  define p where "p = dropWhile isspace s"
  define q where "q = (if peek_chr p = CHR ''-'' \<or> peek_chr p = CHR ''+'' then tl p else p)"
  obtain b r where br: "strtol_base base q = (b, r)" by (cases "strtol_base base q")
  have b: "0 \<le> b" "b \<le> 16" using br assms(1,2) by (auto simp: strtol_base_def split: if_splits)
  define ds where "ds = takeWhile (\<lambda>c. digit_value c < b) r"
  define v where "v = foldl (\<lambda>acc c. acc * b + digit_value c) 0 ds"
  have sb: "shim_base base q = (b, r)"
    using shim_base_agrees [OF assms(2), of q] assms(3)
    unfolding br [symmetric] plain_number_def Let_def p_def [symmetric] q_def [symmetric] by blast
  have loop: "digits_loop b 0 False r = (word_of_int v, ds \<noteq> [], drop (length ds) r)"
    using digits_loop_value [OF b(2), of 0 False r] by (simp add: Let_def ds_def v_def)
  let ?neg = "peek_chr p = CHR ''-''"
  have lib: "strtol s base = (if ds = [] then (0, s) else (clamp_long (if ?neg then - v else v), drop (length ds) r))"
    using br by (simp add: strtol_def Let_def p_def [symmetric] q_def [symmetric] ds_def v_def)
  have shim: "shim_strtol s base = (if ds = [] then (Some 0, s)
      else (if ?neg then (if sint (word_of_int v :: u32) = - (2 ^ 31) then None else Some (- sint (word_of_int v :: u32)))
        else Some (sint (word_of_int v :: u32)), drop (length ds) r))"
    using sb loop \<open>dropWhile shim_space s = _\<close> by (simp add: shim_strtol_def Let_def p_def [symmetric] q_def [symmetric])
  show ?thesis
  proof (cases "ds = []")
    case False
    have v0: "0 \<le> v" unfolding v_def using b by (intro foldl_nonneg) simp_all
    have "\<bar>clamp_long (if ?neg then - v else v)\<bar> < 2 ^ 31" using assms(4) lib False by simp
    then have v1: "v < 2 ^ 31" using v0 by (auto simp: clamp_long_def split: if_splits)
    have "sint (word_of_int v :: u32) = v" using v0 v1 by (intro sint_of32) simp_all
    moreover have "clamp_long (if ?neg then - v else v) = (if ?neg then - v else v)" using v0 v1 by (simp add: clamp_long_def)
    ultimately show ?thesis unfolding lib shim using False v0 by simp
  qed (simp add: lib shim)
qed

lemma strtol_agrees_witness: "shim_strtol ''-0x1Fz'' 0 = (Some (- 31), ''z'')"
proof -
  have l: "strtol ''-0x1Fz'' 0 = (- 31, ''z'')" by code_simp
  have "plain_number ''-0x1Fz''" by code_simp
  from strtol_agrees [OF _ _ this, of 0] show ?thesis unfolding l by simp
qed

text \<open>Where they differ: a lone \<open>0x\<close>, other white space, and values from 2 ^ 31 on.\<close>

lemma strtol_differs:
  "shim_strtol ''0xg'' 0 = (Some 0, ''0xg'')" "strtol ''0xg'' 0 = (0, ''xg'')"
  "shim_strtol (CHR 0x0D # ''5'') 10 = (Some 0, CHR 0x0D # ''5'')" "strtol (CHR 0x0D # ''5'') 10 = (5, [])"
  "shim_strtol ''4294967297'' 10 = (Some 1, [])" "strtol ''4294967297'' 10 = (4294967297, [])"
  by code_simp+

section \<open>The arena\<close>

datatype arena_op = Malloc u32 | Reset

text \<open>The high-water mark, and the blocks handed out since the last reset: offset and requested size.\<close>

type_synonym arena = "u32 \<times> (u32 \<times> u32) list"

fun arena_exec :: "arena_op \<Rightarrow> arena \<Rightarrow> arena" where
  "arena_exec (Malloc n) (hb, log) = (case shim_malloc n hb of (None, hb') \<Rightarrow> (hb', log) | (Some p, hb') \<Rightarrow> (hb', log @ [(p, n)]))"
| "arena_exec Reset (hb, log) = (wasm_reset_arena hb, [])"

text \<open>The size rounded up, added to the mark, stays below 4 GiB.\<close>

fun arena_safe :: "arena_op \<Rightarrow> arena \<Rightarrow> bool" where
  "arena_safe (Malloc n) w \<longleftrightarrow> unat n < 2 ^ 32 - 7 * 2 ^ 20"
| "arena_safe Reset w \<longleftrightarrow> True"

definition before :: "u32 \<times> u32 \<Rightarrow> u32 \<times> u32 \<Rightarrow> bool" where
  "before b c \<longleftrightarrow> unat (fst b) + unat (snd b) \<le> unat (fst c)"

definition arena_inv :: "arena \<Rightarrow> bool" where
  "arena_inv = (\<lambda>(hb, log). hb \<le> ARENA \<and> unat hb mod 16 = 0 \<and> sorted_wrt before log \<and>
     (\<forall>b \<in> set log. unat (fst b) mod 16 = 0 \<and> unat (fst b) + unat (snd b) \<le> unat hb))"

lemma round_up_16:
  assumes "unat n < 2 ^ 32 - 7 * 2 ^ 20"
  shows "unat ((n + 15) AND NOT 15 :: u32) = (unat n + 15) div 16 * 16"
proof -
  have m: "(15 :: u32) = mask 4" by (simp add: mask_eq_exp_minus_1)
  have w: "(n + 15) AND NOT (15 :: u32) = push_bit 4 (drop_bit 4 (n + 15))"
    unfolding m by (rule bit_word_eqI) (auto simp: bit_simps)
  have u: "unat (n + 15) = unat n + 15" using assms by (simp add: unat_word_ariths)
  have "unat (push_bit 4 (drop_bit 4 (n + 15))) = (unat n + 15) div 16 * 16"
    using assms by (simp add: push_bit_eq_mult drop_bit_eq_div unat_word_ariths unat_div_distrib u)
  then show ?thesis unfolding w .
qed

lemma malloc_arena_inv:
  assumes "arena_inv (hb, log)" "unat n < 2 ^ 32 - 7 * 2 ^ 20" "shim_malloc n hb = (Some p, hb')"
  shows "arena_inv (hb', log @ [(p, n)])"
proof -
  let ?n = "(n + 15) AND NOT 15 :: u32"
  have hb: "unat hb \<le> 6291456" "unat hb mod 16 = 0" using assms(1) by (auto simp: arena_inv_def ARENA_def word_le_nat_alt)
  have p: "p = hb" "hb' = hb + ?n" "hb + ?n \<le> ARENA" using assms(3) by (auto simp: shim_malloc_def Let_def split: if_splits)
  note r = round_up_16 [OF assms(2)]
  have "(unat n + 15) div 16 * 16 < 2 ^ 32 - 7 * 2 ^ 20 + 16" using assms(2) div_times_less_eq_dividend [of "unat n + 15" 16] by linarith
  then have "unat hb + unat ?n < 2 ^ 32" using hb(1) unfolding r by simp
  then have s: "unat hb' = unat hb + unat ?n" unfolding p(2) by (simp add: unat_word_ariths)
  have "unat n \<le> unat ?n" unfolding r by simp
  moreover have "unat hb' mod 16 = 0" unfolding s r using hb(2) by (simp add: mod_add_eq [symmetric])
  ultimately show ?thesis using assms(1) p s hb(2) by (auto simp: arena_inv_def sorted_wrt_append before_def)
qed

interpretation wasm_arena: op_machine arena_exec arena_safe arena_inv "(0, [])"
proof
  show "arena_inv (0, [])" by (simp add: arena_inv_def)
next
  fix w c assume "arena_inv w" "arena_safe c w"
  then show "arena_inv (arena_exec c w)"
  proof (cases w; cases c)
    fix hb log n assume w: "w = (hb, log)" "c = Malloc n"
    obtain r hb' where r: "shim_malloc n hb = (r, hb')" by (cases "shim_malloc n hb")
    show ?thesis using malloc_arena_inv [of hb log n] \<open>arena_inv w\<close> \<open>arena_safe c w\<close> w r
      by (cases r) (auto simp: shim_malloc_def Let_def split: if_splits)
  qed (simp_all add: wasm_reset_arena_def arena_inv_def)
qed

text \<open>As long as no request comes near 4 GiB, the blocks that the arena has handed out since its last reset are aligned, lie in the
  arena in the order of the requests and are pairwise disjoint.\<close>

theorem arena_blocks_disjoint:
  assumes "wasm_arena.run_safe ops (0, [])" and "(hb, log) = wasm_arena.run ops (0, [])"
  shows "(\<forall>i j. i < j \<longrightarrow> j < length log \<longrightarrow> unat (fst (log ! i)) + unat (snd (log ! i)) \<le> unat (fst (log ! j))) \<and>
    (\<forall>b \<in> set log. unat (fst b) mod 16 = 0 \<and> unat (fst b) + unat (snd b) \<le> unat ARENA)"
proof -
  have inv: "arena_inv (hb, log)" unfolding assms(2) by (rule wasm_arena.run_inv [OF wasm_arena.init_inv assms(1)])
  then have "unat hb \<le> unat ARENA" by (simp add: arena_inv_def word_le_nat_alt)
  then show ?thesis using inv by (fastforce simp: arena_inv_def before_def sorted_wrt_iff_nth_less)
qed

lemma arena_blocks_disjoint_witness:
  "\<exists>hb log. (hb, log) = wasm_arena.run [Malloc 100, Malloc 1, Malloc 7] (0, []) \<and> length log = 3 \<and>
     unat (fst (log ! 0)) + unat (snd (log ! 0)) \<le> unat (fst (log ! 1))"
proof -
  let ?ops = "[Malloc 100, Malloc 1, Malloc 7]"
  have safe: "wasm_arena.run_safe ?ops (0, [])" by (simp add: wasm_arena.run_safe.simps)
  obtain hb log where r: "(hb, log) = wasm_arena.run ?ops (0, [])" by (cases "wasm_arena.run ?ops (0, [])") simp
  have "length (snd (wasm_arena.run ?ops (0, []))) = 3" by (simp add: shim_malloc_def ARENA_def)
  then have "length log = 3" using arg_cong [OF r, of "\<lambda>x. length (snd x)"] by simp
  then show ?thesis using arena_blocks_disjoint [OF safe r] r by fastforce
qed

text \<open>A request near 4 GiB wraps around and succeeds without any memory; so does an array whose size wraps around.\<close>

lemma malloc_wraps: "shim_malloc 0xFFFFFFFF 32 = (Some 32, 32)" "shim_calloc 0x10000 0x10000 32 = (Some (32, 0), 32)"
  by (simp_all add: shim_malloc_def shim_calloc_def ARENA_def)

text \<open>A request of almost 4 GiB moves the mark back into blocks that have been handed out.\<close>

lemma malloc_moves_back: "shim_malloc 0xFFFFFFF0 32 = (Some 32, 16)"
  by (simp add: shim_malloc_def ARENA_def)

end
