(* ===== verification/ShimPrint.thy ===== *)
theory ShimPrint
  imports Prelude CString
begin

text \<open>
  Formatted output of the browser build, \<open>vsnprintf\<close> of \<open>wasm/wasm_shim.c\<close>. The arguments are the list that \<open>va_arg\<close> takes
  from, an argument of the wrong kind or a missing one is undefined (\<open>None\<close>). The text of a double, which the code
  computes in double arithmetic (\<open>ffmt\<close>), is the parameter \<open>dbl\<close>: the sign and the digits of a bit pattern.
  A plain text is printed through a buffer with room for \<open>rem\<close> characters, the last of which is kept for the NUL.
\<close>

section \<open>Numbers\<close>

definition hex_digit :: "bool \<Rightarrow> nat \<Rightarrow> char" where
  "hex_digit upper d = (if upper then ''0123456789ABCDEF'' ! d else ''0123456789abcdef'' ! d)"

text \<open>The digits in the order of \<open>t\<close>, the lowest first.\<close>

function ufmt_rev :: "int \<Rightarrow> bool \<Rightarrow> int \<Rightarrow> string" where
  "ufmt_rev base upper v =
    (if v \<le> 0 \<or> base < 2 then [] else hex_digit upper (nat (v mod base)) # ufmt_rev base upper (v div base))"
  by pat_completeness auto
termination ufmt_rev
  by (relation "measure (\<lambda>(base, upper, v). nat v)") (auto simp: nat_less_iff int_div_less_self)

declare ufmt_rev.simps [simp del]

definition ufmt :: "u32 \<Rightarrow> int \<Rightarrow> bool \<Rightarrow> string" where
  "ufmt v base upper = (if v = 0 then ''0'' else rev (ufmt_rev base upper (uint v)))"

section \<open>Conversions\<close>

datatype fmt_arg = ArgInt u32 | ArgText "string option" | ArgDouble u64

record fmt_spec =
  fs_left :: bool
  fs_zero :: bool
  fs_width :: nat
  fs_prec :: nat
  fs_conv :: char

text \<open>A decimal number of type \<open>int\<close>: overflow is undefined.\<close>

fun fmt_int :: "nat \<Rightarrow> string \<Rightarrow> (nat \<times> string) option" where
  "fmt_int w [] = Some (w, [])"
| "fmt_int w (c # f) = (if \<not> isdigit c then Some (w, c # f)
     else let w' = w * 10 + (chr_code c - 48) in if 2 ^ 31 \<le> int w' then None else fmt_int w' f)"

text \<open>What follows a percent sign that is not doubled; the conversion character is \<open>nul\<close> at the end of the format.\<close>

definition fmt_parse :: "string \<Rightarrow> (fmt_spec \<times> string) option" where
  "fmt_parse f0 =
    (let f1 = dropWhile (\<lambda>c. c = CHR ''-'') f0; f2 = dropWhile (\<lambda>c. c = CHR ''0'') f1 in
     Option.bind (fmt_int 0 f2) (\<lambda>(width, f3).
     Option.bind (if peek_chr f3 = CHR ''.'' then fmt_int 0 (tl f3) else Some (6, f3)) (\<lambda>(prec, f4).
     let f5 = dropWhile (\<lambda>c. c = CHR ''l'' \<or> c = CHR ''z'' \<or> c = CHR ''h'') f4 in
     Some (\<lparr> fs_left = (f1 \<noteq> f0), fs_zero = (f2 \<noteq> f1), fs_width = width, fs_prec = prec, fs_conv = peek_chr f5 \<rparr>, tl f5))))"

text \<open>The sign and the digits of a conversion, and the arguments that are left; \<open>int\<close> and \<open>unsigned\<close> are passed alike.\<close>

definition fmt_number :: "char \<Rightarrow> u32 \<Rightarrow> (bool \<times> string) option" where
  "fmt_number c v =
    (if c = CHR ''d'' \<or> c = CHR ''i'' then
       (if sint v < 0 then (if sint v = - (2 ^ 31) then None else Some (True, ufmt (- v) 10 False)) else Some (False, ufmt v 10 False))
     else if c = CHR ''u'' then Some (False, ufmt v 10 False)
     else if c = CHR ''x'' then Some (False, ufmt v 16 False)
     else if c = CHR ''X'' then Some (False, ufmt v 16 True)
     else if c = CHR ''o'' then Some (False, ufmt v 8 False)
     else Some (False, [char_of (unat v)]))"

definition fmt_convert :: "(u64 \<Rightarrow> nat \<Rightarrow> bool \<times> string) \<Rightarrow> fmt_spec \<Rightarrow> fmt_arg list \<Rightarrow> ((bool \<times> string) \<times> fmt_arg list) option" where
  "fmt_convert dbl sp args =
    (let c = fs_conv sp in
     if c \<in> set ''diuxXoc'' then (case args of ArgInt v # r \<Rightarrow> map_option (\<lambda>x. (x, r)) (fmt_number c v) | _ \<Rightarrow> None)
     else if c = CHR ''f'' then (case args of ArgDouble v # r \<Rightarrow> Some (dbl v (fs_prec sp), r) | _ \<Rightarrow> None)
     else (case args of ArgText t # r \<Rightarrow> Some ((False, take 127 (case t of None \<Rightarrow> ''(null)'' | Some s \<Rightarrow> s)), r) | _ \<Rightarrow> None))"

definition fmt_known :: "char \<Rightarrow> bool" where
  "fmt_known c \<longleftrightarrow> c \<in> set ''diuxXocfs''"

section \<open>Output\<close>

text \<open>The characters written so far and the room that is left.\<close>

type_synonym out_buf = "string \<times> nat"

definition emit1 :: "char \<Rightarrow> out_buf \<Rightarrow> out_buf" where
  "emit1 c = (\<lambda>(o1, room). if 1 < room then (o1 @ [c], room - 1) else (o1, room))"

definition emit :: "string \<Rightarrow> out_buf \<Rightarrow> out_buf" where
  "emit s = fold emit1 s"

text \<open>A converted value with its padding: zeros only where there is no sign, and before the sign.\<close>

definition emit_value :: "fmt_spec \<Rightarrow> bool \<Rightarrow> string \<Rightarrow> out_buf \<Rightarrow> out_buf" where
  "emit_value sp sg t b =
    (let lead = fs_width sp - (length t + (if sg then 1 else 0));
         b1 = (if \<not> fs_left sp then emit (replicate lead (if fs_zero sp \<and> \<not> sg then CHR ''0'' else CHR '' '')) b else b);
         b2 = (if sg then emit1 CHR ''-'' b1 else b1);
         b3 = emit t b2 in
     if fs_left sp then emit (replicate lead CHR '' '') b3 else b3)"

lemma fmt_int_shorter: "fmt_int w f = Some (n, g) \<Longrightarrow> length g \<le> length f"
  by (induction w f rule: fmt_int.induct) (auto simp: Let_def le_SucI split: if_splits)

lemma fmt_parse_shorter: "fmt_parse f = Some (sp, g) \<Longrightarrow> length g \<le> length f"
proof -
  assume a: "fmt_parse f = Some (sp, g)"
  let ?f2 = "dropWhile (\<lambda>c. c = CHR ''0'') (dropWhile (\<lambda>c. c = CHR ''-'') f)"
  obtain w f3 p f4 where i: "fmt_int 0 ?f2 = Some (w, f3)"
      "(if peek_chr f3 = CHR ''.'' then fmt_int 0 (tl f3) else Some (6, f3)) = Some (p, f4)"
      "g = tl (dropWhile (\<lambda>c. c = CHR ''l'' \<or> c = CHR ''z'' \<or> c = CHR ''h'') f4)"
    using a by (auto simp: fmt_parse_def Let_def Option.bind_eq_Some_conv)
  have "length ?f2 \<le> length f" using length_dropWhile_le order_trans by blast
  moreover have "length f3 \<le> length ?f2" by (rule fmt_int_shorter [OF i(1)])
  moreover have "length f4 \<le> length f3" using i(2) fmt_int_shorter [of 0 "tl f3"] by (fastforce split: if_splits)
  moreover have "length g \<le> length f4" unfolding i(3) using length_dropWhile_le [of _ f4] by (simp add: le_diff_conv) (meson le_SucI order_trans)
  ultimately show ?thesis by linarith
qed

text \<open>The loop over the format. After a conversion that is cut off by the end of the format the code reads on behind it.\<close>

function vsn_loop :: "(u64 \<Rightarrow> nat \<Rightarrow> bool \<times> string) \<Rightarrow> string \<Rightarrow> fmt_arg list \<Rightarrow> out_buf \<Rightarrow> out_buf option" where
  "vsn_loop dbl [] args b = Some b"
| "vsn_loop dbl (c # f) args b =
    (if c \<noteq> CHR ''%'' then vsn_loop dbl f args (emit1 c b)
     else if peek_chr f = CHR ''%'' then vsn_loop dbl (tl f) args (emit1 (CHR ''%'') b)
     else case fmt_parse f of None \<Rightarrow> None
     | Some (sp, g) \<Rightarrow>
       if fs_conv sp = nul then None
       else if \<not> fmt_known (fs_conv sp) then vsn_loop dbl g args (emit1 (fs_conv sp) (emit1 (CHR ''%'') b))
       else (case fmt_convert dbl sp args of None \<Rightarrow> None
         | Some ((sg, t), r) \<Rightarrow> vsn_loop dbl g r (emit_value sp sg t b)))"
  by pat_completeness auto
termination vsn_loop
  by (relation "measure (\<lambda>(dbl, f, args, b). length f)") (auto dest: fmt_parse_shorter simp: le_imp_less_Suc)

declare vsn_loop.simps [simp del]

text \<open>The result and the text in the buffer, which is not written when it has no room.\<close>

definition vsnprintf :: "(u64 \<Rightarrow> nat \<Rightarrow> bool \<times> string) \<Rightarrow> nat \<Rightarrow> string \<Rightarrow> fmt_arg list \<Rightarrow> (int \<times> string option) option" where
  "vsnprintf dbl sz fmt args =
    (if sz = 0 then Some (0, None)
     else map_option (\<lambda>(o1, room). (int (length o1), Some o1)) (vsn_loop dbl fmt args ([], sz)))"

text \<open>\<open>printf\<close> only formats, into a buffer of its own.\<close>

definition shim_printf :: "(u64 \<Rightarrow> nat \<Rightarrow> bool \<times> string) \<Rightarrow> string \<Rightarrow> fmt_arg list \<Rightarrow> int option" where
  "shim_printf dbl fmt args = map_option fst (vsnprintf dbl 256 fmt args)"

section \<open>The text without a limit\<close>

definition value_text :: "fmt_spec \<Rightarrow> bool \<Rightarrow> string \<Rightarrow> string" where
  "value_text sp sg t =
    (let lead = fs_width sp - (length t + (if sg then 1 else 0)); body = (if sg then CHR ''-'' # t else t) in
     if fs_left sp then body @ replicate lead CHR '' ''
     else replicate lead (if fs_zero sp \<and> \<not> sg then CHR ''0'' else CHR '' '') @ body)"

function expand :: "(u64 \<Rightarrow> nat \<Rightarrow> bool \<times> string) \<Rightarrow> string \<Rightarrow> fmt_arg list \<Rightarrow> string option" where
  "expand dbl [] args = Some []"
| "expand dbl (c # f) args =
    (if c \<noteq> CHR ''%'' then map_option ((#) c) (expand dbl f args)
     else if peek_chr f = CHR ''%'' then map_option ((#) (CHR ''%'')) (expand dbl (tl f) args)
     else case fmt_parse f of None \<Rightarrow> None
     | Some (sp, g) \<Rightarrow>
       if fs_conv sp = nul then None
       else if \<not> fmt_known (fs_conv sp) then map_option (\<lambda>s. CHR ''%'' # fs_conv sp # s) (expand dbl g args)
       else (case fmt_convert dbl sp args of None \<Rightarrow> None
         | Some ((sg, t), r) \<Rightarrow> map_option ((@) (value_text sp sg t)) (expand dbl g r)))"
  by pat_completeness auto
termination expand
  by (relation "measure (\<lambda>(dbl, f, args). length f)") (auto dest: fmt_parse_shorter simp: le_imp_less_Suc)

declare expand.simps [simp del]

text \<open>The buffer after printing \<open>s\<close> in all: the part of it that fits.\<close>

definition holds :: "nat \<Rightarrow> string \<Rightarrow> out_buf" where
  "holds sz s = (take (sz - 1) s, sz - min (length s) (sz - 1))"

lemma emit1_holds: "0 < sz \<Longrightarrow> emit1 c (holds sz s) = holds sz (s @ [c])"
  by (auto simp: emit1_def holds_def take_Cons' min_def)

lemma emit_holds: "0 < sz \<Longrightarrow> emit t (holds sz s) = holds sz (s @ t)"
  by (induction t arbitrary: s) (simp_all add: emit_def emit1_holds)

lemma emit_value_holds: "0 < sz \<Longrightarrow> emit_value sp sg t (holds sz s) = holds sz (s @ value_text sp sg t)"
  by (simp add: emit_value_def value_text_def Let_def emit_holds emit1_holds)

lemma vsn_loop_holds:
  assumes "0 < sz"
  shows "vsn_loop dbl f args (holds sz s) = map_option (\<lambda>t. holds sz (s @ t)) (expand dbl f args)"
proof (induction dbl f args arbitrary: s rule: expand.induct)
  case (1 dbl args)
  then show ?case by (simp add: vsn_loop.simps expand.simps)
next
  case (2 dbl c f args)
  note IH = 2
  show ?case
  proof (cases "c = CHR ''%'' \<and> peek_chr f \<noteq> CHR ''%''")
    case False
    then show ?thesis using IH(1,2)
      by (auto simp: vsn_loop.simps(2) expand.simps(2) emit1_holds [OF assms] option.map_comp o_def)
  next
    case pc: True
    show ?thesis
    proof (cases "fmt_parse f")
      case None
      then show ?thesis using pc by (simp add: vsn_loop.simps(2) expand.simps(2))
    next
      case (Some x)
      obtain sp g where x: "x = (sp, g)" by (cases x)
      note p = Some [unfolded x]
      consider (nul) "fs_conv sp = nul" | (other) "fs_conv sp \<noteq> nul" "\<not> fmt_known (fs_conv sp)"
        | (conv) "fs_conv sp \<noteq> nul" "fmt_known (fs_conv sp)" by blast
      then show ?thesis
      proof cases
        case nul
        then show ?thesis using pc p by (simp add: vsn_loop.simps(2) expand.simps(2))
      next
        case other
        then show ?thesis using pc p IH(3) [OF _ _ p refl]
          by (simp add: vsn_loop.simps(2) expand.simps(2) emit1_holds [OF assms] option.map_comp o_def)
      next
        case conv
        then show ?thesis using pc p IH(4) [OF _ _ p refl]
          by (auto simp: vsn_loop.simps(2) expand.simps(2) emit_value_holds [OF assms] option.map_comp o_def
            split: option.splits)
      qed
    qed
  qed
qed

text \<open>What is printed into a buffer is the part that fits of the text without a limit; the result is its length.\<close>

lemma vsnprintf_holds:
  assumes "0 < sz"
  shows "vsnprintf dbl sz fmt args =
    map_option (\<lambda>s. (int (min (length s) (sz - 1)), Some (take (sz - 1) s))) (expand dbl fmt args)"
proof -
  have "vsn_loop dbl fmt args ([], sz) = map_option (holds sz) (expand dbl fmt args)"
    using vsn_loop_holds [OF assms, of dbl fmt args "[]"] by (simp add: holds_def [abs_def])
  then show ?thesis using assms by (simp add: vsnprintf_def option.map_comp o_def holds_def split_beta min.commute)
qed

section \<open>Where it differs from the C library\<close>

text \<open>Zeros before a negative number become spaces, the precision of a text is ignored, a text of more than 127 characters is cut, and the
  result is the length of what fits.\<close>

lemma printing_differs:
  "vsnprintf dbl 16 ''%05d'' [ArgInt (- 42)] = Some (5, Some ''  -42'')"
  "vsnprintf dbl 16 ''%.2s'' [ArgText (Some ''abcd'')] = Some (4, Some ''abcd'')"
  "vsnprintf dbl 4 ''%u'' [ArgInt 123456] = Some (3, Some ''123'')"
  by code_simp+

text \<open>A format that ends in a percent sign is read beyond its end.\<close>

lemma lone_percent: "vsnprintf dbl (Suc n) ''100%'' args = None"
  by (simp add: vsnprintf_def vsn_loop.simps emit1_def fmt_parse_def peek_chr_def isdigit_def chr_code_def nul_def Let_def)

end
