(* ===== verification/ShimDisasm.thy ===== *)
theory ShimDisasm
  imports ShimPrint Bradlib
begin

text \<open>
  The browser build prints an instruction as the native build does: the formatted output of the shim, applied to the format
  of \<open>bradlib_disasm\<close>, gives the text of the C library.
\<close>

lemma decimal_digit: "d < 10 \<Longrightarrow> hex_digit False d = char_of (48 + d)"
proof -
  have "list_all (\<lambda>d. hex_digit False d = char_of (48 + d)) [0..<10]" by code_simp
  then show "d < 10 \<Longrightarrow> hex_digit False d = char_of (48 + d)" by (simp only: list_all_iff set_upt) auto
qed

lemma ufmt_rev_decimal: "0 < v \<Longrightarrow> rev (ufmt_rev 10 False (int v)) = show_nat v"
proof (induction v rule: less_induct)
  case (less v)
  have d: "hex_digit False (v mod 10) = char_of (48 + v mod 10)" by (rule decimal_digit) simp
  have q: "int v mod 10 = int (v mod 10)" "int v div 10 = int (v div 10)" by (simp_all add: of_nat_mod of_nat_div)
  show ?case
  proof (cases "v < 10")
    case True
    then have "v div 10 = 0" "v mod 10 = v" by simp_all
    then show ?thesis using less.prems True d
      by (simp add: ufmt_rev.simps [of 10 False "int v"] ufmt_rev.simps [of 10 False 0] show_nat.simps [of v] q)
  next
    case False
    then have "0 < v div 10" by simp
    then show ?thesis using less.prems False d less.IH [of "v div 10"]
      by (simp add: ufmt_rev.simps [of 10 False "int v"] show_nat.simps [of v] q)
  qed
qed

lemma ufmt_decimal: "ufmt v 10 False = show_nat (unat v)"
proof (cases "v = 0")
  case True
  then show ?thesis by (simp add: ufmt_def show_nat.simps) code_simp
next
  case False
  then show ?thesis using ufmt_rev_decimal [of "unat v"] by (simp add: ufmt_def unat_gt_0)
qed

lemma fmt_steps:
  "fmt_parse (CHR ''4'' # CHR ''u'' # f) = Some (\<lparr> fs_left = False, fs_zero = False, fs_width = 4, fs_prec = 6, fs_conv = CHR ''u'' \<rparr>, f)"
  "fmt_parse (CHR ''u'' # f) = Some (\<lparr> fs_left = False, fs_zero = False, fs_width = 0, fs_prec = 6, fs_conv = CHR ''u'' \<rparr>, f)"
  "fmt_parse (CHR ''s'' # f) = Some (\<lparr> fs_left = False, fs_zero = False, fs_width = 0, fs_prec = 6, fs_conv = CHR ''s'' \<rparr>, f)"
  "fmt_parse (CHR ''d'' # f) = Some (\<lparr> fs_left = False, fs_zero = False, fs_width = 0, fs_prec = 6, fs_conv = CHR ''d'' \<rparr>, f)"
  by (simp_all add: fmt_parse_def isdigit_def chr_code_def peek_chr_def Let_def)

lemma value_text_plain: "fs_width sp = 0 \<Longrightarrow> value_text sp sg t = (if sg then CHR ''-'' # t else t)"
  by (simp add: value_text_def)

lemma print_unsigned: "fmt_number (CHR ''u'') v = Some (False, show_nat (unat v))"
  by (simp add: fmt_number_def ufmt_decimal)

lemma unat_neg_of_int: "- 128 \<le> j \<Longrightarrow> j < 0 \<Longrightarrow> unat (- (word_of_int j :: u32)) = nat (- j)"
  by (simp only: wi_hom_neg unsigned_of_int) (simp add: take_bit_int_eq_self)

lemma unat_pos_of_int: "0 \<le> j \<Longrightarrow> j < 128 \<Longrightarrow> unat (word_of_int j :: u32) = nat j"
  by (simp only: unsigned_of_int) (simp add: take_bit_int_eq_self)

lemma print_byte: "fmt_number (CHR ''d'') (signed (i :: u8)) = Some (sint i < 0, show_nat (nat \<bar>sint i\<bar>))"
proof -
  have r: "- 128 \<le> sint i" "sint i < 128" using sint_ge [of i] sint_lt [of i] by simp_all
  have w: "(signed i :: u32) = word_of_int (sint i)" by simp
  have s: "sint (signed i :: u32) = sint i" using r unfolding w by (subst int_word_sint) simp
  have u: "unat (- (signed i :: u32)) = nat (- sint i)" if "sint i < 0"
    unfolding w by (rule unat_neg_of_int) (use r that in simp_all)
  have v: "unat (signed i :: u32) = nat (sint i)" if "\<not> sint i < 0"
    unfolding w by (rule unat_pos_of_int) (use r that in simp_all)
  show ?thesis using r u v by (simp add: fmt_number_def s ufmt_decimal)
qed

lemma unat_byte: "unat (ucast (b :: u8) :: u32) = unat b"
  by transfer (simp add: take_bit_nat_def take_bit_eq_mod)

definition disasm_format :: string where
  "disasm_format = ''%4u:  %s  pred=%u dst=%u src1=%u src2=%u imm=%d''"

definition disasm_args :: "u32 \<Rightarrow> bv_insn \<Rightarrow> fmt_arg list" where
  "disasm_args pc d = [ArgInt pc, ArgText (Some (bv_opcode_name (ucast (i_op d)))), ArgInt (ucast (i_pred d)), ArgInt (ucast (i_dst d)),
     ArgInt (ucast (i_src1 d)), ArgInt (ucast (i_src2 d)), ArgInt (signed (i_imm d))]"

lemma opcode_name_short: "length (bv_opcode_name x) \<le> 127"
proof -
  have "length (opcode_mnemonic c) \<le> 127" for c
    by (cases c) (simp_all, (rule alu_op.induct int_op.induct vec_op.induct mem_op.induct ctl_op.induct rt_op.induct ns_op.induct
      sfu_op.induct; simp)+)
  then show ?thesis by (simp add: bv_opcode_name_def split: option.split)
qed

lemma expand_disasm: "expand dbl disasm_format (disasm_args pc d) = Some (disasm_text pc d)"
proof -
  have "take 127 (bv_opcode_name (ucast (i_op d))) = bv_opcode_name (ucast (i_op d))"
    using opcode_name_short [of "ucast (i_op d)"] by simp
  then show ?thesis
    by (simp add: disasm_format_def disasm_args_def disasm_text_def expand.simps fmt_steps fmt_convert_def fmt_known_def nul_def peek_chr_def
      print_unsigned print_byte value_text_def pad_left_def show_int_def unat_byte)
qed

text \<open>Whatever the C library prints as the disassembly of an instruction, cut to the buffer, the browser build prints from the
  same format and arguments; its result is the length of that text.\<close>

theorem shim_prints_disassembly:
  assumes "bradlib_disasm (Some img) pc have_buf cap = Some (n, Some s)"
  shows "vsnprintf dbl cap disasm_format (disasm_args pc (bv_decode (img_insns img ! unat pc))) = Some (int (length s), Some s)"
proof -
  let ?t = "disasm_text pc (bv_decode (img_insns img ! unat pc))"
  have "0 < cap" "s = take (cap - 1) ?t" using assms by (auto simp: bradlib_disasm_def CString.snprintf_def split: if_splits)
  then show ?thesis by (simp add: vsnprintf_holds expand_disasm)
qed

lemma shim_prints_disassembly_witness:
  "vsnprintf (\<lambda>_ _. (False, [])) 24 disasm_format (disasm_args 0 (bv_decode 0x0000000000000001)) = Some (23, Some ''   0:  ADD  pred=0 dst='')"
proof -
  have "bradlib_disasm (Some (zero_image\<lparr> img_insns := [1], img_ninsn := 1 \<rparr>)) 0 True 24 = Some (44, Some ''   0:  ADD  pred=0 dst='')"
    by code_simp
  from shim_prints_disassembly [OF this, of "\<lambda>_ _. (False, [])"] show ?thesis by simp
qed

end
