(* ===== verification/WasmBridge.thy ===== *)
theory WasmBridge
  imports ShimDisasm WasmShim
begin

text \<open>
  The functions that the browser build exports, \<open>wasm/wasm_bridge.c\<close>: the typed ones, with one program, one session, the last compile
  error and an output buffer, all static, over the operations of the host library, and the three of the demo, with an image of their
  own. Texts and argument words that JavaScript places in the linear memory are passed as lists; addresses handed back are not modelled,
  what they point to is. The flags of an operation say which allocations succeed. Formatted output is the one of the shim.

  Program and session live in the arena. \<open>brad_wasm_assemble\<close> resets it and keeps the two pointers, so that later allocations
  take the same memory: from then on the objects are stale, and a call that reads one is undefined here. Since \<open>free\<close> does nothing
  in this build, an object is otherwise never overwritten, and a session keeps the program it was created with.
\<close>

record wasm_bridge =
  wb_prog :: "bvbc_image option"
  wb_prog_stale :: bool
  wb_sess :: "bradlib_session option"
  wb_sess_stale :: bool
  wb_err_line :: nat
  wb_err_buf :: string
  wb_out :: string
  wb_img :: bvbc_image
  wb_insns :: "u64 list"

definition bridge_init :: wasm_bridge where
  "bridge_init = \<lparr> wb_prog = None, wb_prog_stale = False, wb_sess = None, wb_sess_stale = False, wb_err_line = 0,
     wb_err_buf = [], wb_out = [], wb_img = zero_image, wb_insns = replicate BVBC_MAX_INSN 0 \<rparr>"

text \<open>What \<open>g_prog\<close> and \<open>g_sess\<close> point to: \<open>Some None\<close> for a null pointer, \<open>None\<close> for an object that is stale.\<close>

definition g_prog :: "wasm_bridge \<Rightarrow> bvbc_image option option" where
  "g_prog s = (if wb_prog s \<noteq> None \<and> wb_prog_stale s then None else Some (wb_prog s))"

definition g_sess :: "wasm_bridge \<Rightarrow> bradlib_session option option" where
  "g_sess s = (if wb_sess s \<noteq> None \<and> wb_sess_stale s then None else Some (wb_sess s))"

section \<open>Output\<close>

abbreviation (input) OUT_SIZE :: nat where "OUT_SIZE \<equiv> 8192"

definition op_out :: "string \<Rightarrow> fmt_arg list \<Rightarrow> string \<Rightarrow> string option" where
  "op_out fmt args out1 =
    (if OUT_SIZE \<le> length out1 then Some out1
     else case vsnprintf (\<lambda>_ _. (False, [])) (OUT_SIZE - length out1) fmt args of None \<Rightarrow> None
       | Some (n, t) \<Rightarrow>
         if n \<le> 0 then Some out1
         else let k = length out1 + nat n in
           Some (take (if OUT_SIZE \<le> k then OUT_SIZE - 1 else k) (out1 @ (case t of None \<Rightarrow> [] | Some s \<Rightarrow> s))))"

section \<open>The messages of the assembler\<close>

abbreviation quoted :: string where
  "quoted \<equiv> CHR 0x27 # ''%s'' @ [CHR 0x27]"

definition asm_msg_format :: "asm_msg \<Rightarrow> string \<times> fmt_arg list" where
  "asm_msg_format m = (case m of
       Instruction_outside_kernel \<Rightarrow> (''instruction outside .kernel/.end'', [])
     | Stream_full \<Rightarrow> (''instruction stream full (%d)'', [ArgInt 65536])
     | Undefined_label t \<Rightarrow> (''undefined label '' @ quoted, [ArgText (Some t)])
     | Branch_out_of_range t \<Rightarrow> (''branch out of range (label %s)'', [ArgText (Some t)])
     | Expected_label_or_offset \<Rightarrow> (''expected label or offset'', [])
     | Expected_predicate \<Rightarrow> (''expected predicate after @'', [])
     | Bad_predicate p \<Rightarrow> (''bad predicate '' @ [CHR 0x27] @ ''P%ld'' @ [CHR 0x27], [ArgInt (of_int p)])
     | End_without_kernel \<Rightarrow> (''.end without .kernel'', [])
     | Nested_kernel \<Rightarrow> (''nested .kernel'', [])
     | Kernel_expects_name \<Rightarrow> (''.kernel expects a name'', [])
     | Kernel_table_full \<Rightarrow> (''kernel table full'', [])
     | Expects_S t \<Rightarrow> (''%s expects S#'', [ArgText (Some t)])
     | Unknown_opcode t \<Rightarrow> (''unknown opcode '' @ quoted, [ArgText (Some t)])
     | Bad_destination t \<Rightarrow> (''bad destination for '' @ quoted, [ArgText (Some t)])
     | Bad_destination_class t \<Rightarrow> (''bad destination class for '' @ quoted, [ArgText (Some t)])
     | Bad_source t \<Rightarrow> (''bad source for '' @ quoted, [ArgText (Some t)])
     | Cmp_destination \<Rightarrow> (''CMP destination must be P#'', [])
     | Cmp_source \<Rightarrow> (''CMP source must be S#'', [])
     | Memory_base \<Rightarrow> (''memory base must be S#'', [])
     | Bad_memory_operand \<Rightarrow> (''bad memory operand class'', [])
     | Memory_needs_offset \<Rightarrow> (''memory access needs offset'', [])
     | Expects_immediate t \<Rightarrow> (''%s expects immediate'', [ArgText (Some t)])
     | No_immediate t \<Rightarrow> (quoted @ '' does not take an immediate; use ADDi'', [ArgText (Some t)])
     | Bad_source_class t \<Rightarrow> (''bad source class for '' @ quoted, [ArgText (Some t)])
     | Missing_end \<Rightarrow> (''missing .end'', []))"

text \<open>What \<open>b_err\<close> leaves in the message of the error.\<close>

definition b_err_text :: "asm_msg \<Rightarrow> string option" where
  "b_err_text m = (case asm_msg_format m of (fmt, args) \<Rightarrow>
     (case vsnprintf (\<lambda>_ _. (False, [])) 256 fmt args of None \<Rightarrow> None | Some (n, t) \<Rightarrow> t))"

section \<open>Programs\<close>

text \<open>The characters at the source pointer are \<open>src\<close>; the copy is ended by a NUL.\<close>

definition brad_wasm_compile :: "bool \<Rightarrow> bool \<Rightarrow> string \<Rightarrow> wasm_bridge \<Rightarrow> (u32 \<times> wasm_bridge) option" where
  "brad_wasm_compile program_ok insns_ok src s =
    (if 65536 \<le> length src then Some (0, s)
     else case bradlib_compile program_ok insns_ok (Some (cstr src)) of
       CompileUndef \<Rightarrow> None
     | NoProgram e \<Rightarrow>
         Option.bind (case e of None \<Rightarrow> Some (0, []) | Some (line, m) \<Rightarrow> map_option (Pair line) (b_err_text m)) (\<lambda>(line, msg).
         Option.bind (vsnprintf (\<lambda>_ _. (False, [])) 256 ''%s'' [ArgText (Some msg)]) (\<lambda>(n, t).
         Some (0, s\<lparr> wb_err_line := line, wb_err_buf := (case t of None \<Rightarrow> wb_err_buf s | Some b \<Rightarrow> b) \<rparr>)))
     | Program img \<Rightarrow> Some (1, s\<lparr> wb_prog := Some img, wb_prog_stale := False, wb_err_line := 0, wb_err_buf := [] \<rparr>))"

definition brad_wasm_error_line :: "wasm_bridge \<Rightarrow> nat" where
  "brad_wasm_error_line s = wb_err_line s"

text \<open>A buffer without a NUL is read beyond its end.\<close>

definition brad_wasm_error_msg_len :: "wasm_bridge \<Rightarrow> nat option" where
  "brad_wasm_error_msg_len s = (if 256 \<le> length (wb_err_buf s) then None else Some (length (cstr (wb_err_buf s))))"

definition brad_wasm_kernel_count :: "wasm_bridge \<Rightarrow> nat option" where
  "brad_wasm_kernel_count s = map_option (\<lambda>p. case p of None \<Rightarrow> 0 | Some img \<Rightarrow> bradlib_kernel_count (Some img)) (g_prog s)"

definition brad_wasm_insn_count :: "wasm_bridge \<Rightarrow> nat option" where
  "brad_wasm_insn_count s = map_option (\<lambda>p. case p of None \<Rightarrow> 0 | Some img \<Rightarrow> bradlib_insn_count (Some img)) (g_prog s)"

definition brad_wasm_kernel_name :: "u32 \<Rightarrow> wasm_bridge \<Rightarrow> string option option" where
  "brad_wasm_kernel_name idx s =
    map_option (\<lambda>p. case p of None \<Rightarrow> None | Some img \<Rightarrow> bradlib_kernel_name (Some img) (unat idx)) (g_prog s)"

text \<open>\<open>bradlib_disasm\<close> of the browser build, whose \<open>snprintf\<close> is the one of the shim.\<close>

definition shim_bradlib_disasm :: "bvbc_image \<Rightarrow> u32 \<Rightarrow> nat \<Rightarrow> (int \<times> string option) option" where
  "shim_bradlib_disasm img pc cap =
    (if cap = 0 \<or> img_ninsn img \<le> unat pc then Some (-1, None)
     else if length (img_insns img) \<le> unat pc then None
     else map_option (\<lambda>(n, t). (if n < 0 then -1 else n, t))
       (vsnprintf (\<lambda>_ _. (False, [])) cap disasm_format (disasm_args pc (bv_decode (img_insns img ! unat pc)))))"

text \<open>The line is copied out of a buffer of 128 bytes, as far as the result says: beyond the text the buffer is not written.\<close>

definition brad_wasm_disasm :: "u32 \<Rightarrow> wasm_bridge \<Rightarrow> (u32 \<times> wasm_bridge) option" where
  "brad_wasm_disasm pc s = (case g_prog s of None \<Rightarrow> None
     | Some None \<Rightarrow> map_option (\<lambda>t. (1, s\<lparr> wb_out := t \<rparr>)) (op_out (''no program'' @ newline) [] [])
     | Some (Some img) \<Rightarrow> (case shim_bradlib_disasm img pc 128 of
         None \<Rightarrow> None
       | Some (n, t) \<Rightarrow>
         if n < 0 then map_option (\<lambda>t. (1, s\<lparr> wb_out := t \<rparr>)) (op_out (''bad pc'' @ newline) [] [])
         else (case t of None \<Rightarrow> None
           | Some b \<Rightarrow> if length b < nat n then None else Some (0, s\<lparr> wb_out := take (nat n) b \<rparr>))))"

section \<open>Sessions\<close>

definition brad_wasm_create :: "bool \<Rightarrow> bool \<Rightarrow> bool \<Rightarrow> (nat \<Rightarrow> u8) \<Rightarrow> u32 \<Rightarrow> wasm_bridge \<Rightarrow> (u32 \<times> wasm_bridge) option" where
  "brad_wasm_create session_ok calloc_ok malloc_ok heap mem_bytes s = (case g_prog s of None \<Rightarrow> None
     | Some None \<Rightarrow> Some (0, s)
     | Some (Some img) \<Rightarrow> (case bradlib_create session_ok calloc_ok malloc_ok heap (Some img) (ucast mem_bytes) of
         None \<Rightarrow> Some (0, s) | Some ns \<Rightarrow> Some (1, s\<lparr> wb_sess := Some ns, wb_sess_stale := False \<rparr>)))"

definition brad_wasm_launch :: "string \<Rightarrow> u32 list \<Rightarrow> u32 \<Rightarrow> wasm_bridge \<Rightarrow> (u32 \<times> wasm_bridge) option" where
  "brad_wasm_launch kname args nargs s = (case g_sess s of None \<Rightarrow> None
     | Some None \<Rightarrow> Some (0, s)
     | Some (Some ss) \<Rightarrow> map_option (\<lambda>(rc, ss'). (if rc = 0 then 1 else 0, s\<lparr> wb_sess := ss' \<rparr>)) (bradlib_launch (Some ss) (Some kname) args nargs))"

definition brad_wasm_exec :: "fpu \<Rightarrow> u32 \<Rightarrow> wasm_bridge \<Rightarrow> (bv_status \<times> wasm_bridge) option" where
  "brad_wasm_exec fp max_insns s = (case g_sess s of None \<Rightarrow> None
     | Some None \<Rightarrow> Some (BV_TRAP, s)
     | Some (Some ss) \<Rightarrow> map_option (\<lambda>(st, ss'). (st, s\<lparr> wb_sess := ss' \<rparr>)) (bradlib_run fp (Some ss) (ucast max_insns)))"

definition brad_wasm_step :: "fpu \<Rightarrow> wasm_bridge \<Rightarrow> (bv_status \<times> wasm_bridge) option" where
  "brad_wasm_step fp s = (case g_sess s of None \<Rightarrow> None
     | Some None \<Rightarrow> Some (BV_TRAP, s)
     | Some (Some ss) \<Rightarrow> map_option (\<lambda>(st, ss'). (st, s\<lparr> wb_sess := ss' \<rparr>)) (bradlib_step fp (Some ss)))"

text \<open>As in the debugger, the outer option is that the call returns.\<close>

definition brad_wasm_continue :: "fpu \<Rightarrow> wasm_bridge \<Rightarrow> (bv_status \<times> wasm_bridge) option option" where
  "brad_wasm_continue fp s = (case g_sess s of None \<Rightarrow> None
     | Some None \<Rightarrow> Some (Some (BV_TRAP, s))
     | Some (Some ss) \<Rightarrow> map_option (map_option (\<lambda>(st, ss'). (st, s\<lparr> wb_sess := ss' \<rparr>))) (bradlib_continue fp (Some ss)))"

definition brad_wasm_breakpoint :: "u32 \<Rightarrow> wasm_bridge \<Rightarrow> (u32 \<times> wasm_bridge) option" where
  "brad_wasm_breakpoint pc s = (case g_sess s of None \<Rightarrow> None
     | Some None \<Rightarrow> Some (0xFFFFFFFF, s)
     | Some (Some ss) \<Rightarrow> (case bradlib_breakpoint (Some ss) pc of (bid, ss') \<Rightarrow>
         Some (if bid < 0 then 0xFFFFFFFF else of_int bid, s\<lparr> wb_sess := ss' \<rparr>)))"

definition brad_wasm_pc :: "wasm_bridge \<Rightarrow> u32 option" where
  "brad_wasm_pc s = map_option (\<lambda>p. case p of None \<Rightarrow> 0 | Some ss \<Rightarrow> bradlib_pc (Some ss)) (g_sess s)"

definition brad_wasm_cycles :: "wasm_bridge \<Rightarrow> u32 option" where
  "brad_wasm_cycles s = map_option (\<lambda>p. case p of None \<Rightarrow> 0 | Some ss \<Rightarrow> ucast (bradlib_cycles (Some ss))) (g_sess s)"

definition brad_wasm_read_s :: "u32 \<Rightarrow> u32 \<Rightarrow> wasm_bridge \<Rightarrow> u32 option" where
  "brad_wasm_read_s lane reg s = map_option (\<lambda>p. case p of None \<Rightarrow> 0 | Some ss \<Rightarrow> bradlib_read_s (Some ss) (sint lane) (unat reg)) (g_sess s)"

definition brad_wasm_read_v :: "u32 \<Rightarrow> u32 \<Rightarrow> u32 \<Rightarrow> wasm_bridge \<Rightarrow> u32 option" where
  "brad_wasm_read_v lane reg lane16 s =
    map_option (\<lambda>p. case p of None \<Rightarrow> 0 | Some ss \<Rightarrow> bradlib_read_v (Some ss) (sint lane) (unat reg) (unat lane16)) (g_sess s)"

definition brad_wasm_read_p :: "u32 \<Rightarrow> u32 \<Rightarrow> wasm_bridge \<Rightarrow> u32 option" where
  "brad_wasm_read_p lane preg s = map_option (\<lambda>p. case p of None \<Rightarrow> 0 | Some ss \<Rightarrow> bradlib_read_p (Some ss) (sint lane) (unat preg)) (g_sess s)"

definition brad_wasm_mem :: "wasm_bridge \<Rightarrow> (nat \<Rightarrow> u8) option option" where
  "brad_wasm_mem s = map_option (\<lambda>p. case p of None \<Rightarrow> None | Some ss \<Rightarrow> bradlib_mem (Some ss)) (g_sess s)"

definition brad_wasm_mem_size :: "wasm_bridge \<Rightarrow> u32 option" where
  "brad_wasm_mem_size s = map_option (\<lambda>p. case p of None \<Rightarrow> 0 | Some ss \<Rightarrow> ucast (bradlib_mem_size (Some ss))) (g_sess s)"

section \<open>The demo\<close>

definition saxpy_src :: string where
  "saxpy_src = ''.kernel saxpy'' @ newline @ ''IADD S2, S1, S1'' @ newline @ ''IADD S2, S2, S2'' @ newline @
     ''IADD S7, S16, S2'' @ newline @ ''LOAD S3, S7, 0'' @ newline @ ''IMUL S4, S3, S18'' @ newline @
     ''IADD S8, S17, S2'' @ newline @ ''LOAD S5, S8, 0'' @ newline @ ''IADD S6, S4, S5'' @ newline @
     ''STORE S8, S6, 0'' @ newline @ ''EXIT'' @ newline @ ''.end'' @ newline"

definition put_disasm :: "bvbc_image \<Rightarrow> string \<Rightarrow> string option" where
  "put_disasm img = run_each (\<lambda>i out1.
     if length (img_insns img) \<le> i then None
     else op_out (disasm_format @ newline) (disasm_args (of_nat i) (bv_decode (img_insns img ! i))) out1) [0..<img_ninsn img]"

text \<open>The text assembles (\<open>saxpy_assembles\<close>), so that what a failure would leave of the image does not matter.\<close>

definition brad_wasm_assemble :: "wasm_bridge \<Rightarrow> (u32 \<times> wasm_bridge) option" where
  "brad_wasm_assemble s0 =
    (let s = s0\<lparr> wb_prog_stale := True, wb_sess_stale := True, wb_img := zero_image\<lparr> img_insns := wb_insns s0 \<rparr> \<rparr> in
     case bradc_assemble saxpy_src (wb_img s) of
       AsmUndef \<Rightarrow> None
     | AsmErr line m \<Rightarrow> Option.bind (b_err_text m) (\<lambda>msg.
         map_option (\<lambda>t. (1, s\<lparr> wb_out := t \<rparr>)) (op_out (''bradc: line %d: %s'' @ newline) [ArgInt (of_nat line), ArgText (Some msg)] []))
     | AsmOk img \<Rightarrow> Option.bind
         (op_out (''bradc: assembled %u instruction(s), %u byte(s) -> saxpy.bvbc'' @ newline)
            [ArgInt (of_nat (img_ninsn img)), ArgInt (of_nat (bvbc_serialize_size img))] []) (\<lambda>t.
         map_option (\<lambda>t'. (0, s\<lparr> wb_img := img, wb_insns := img_insns img, wb_out := t' \<rparr>)) (put_disasm img t)))"

definition prep_mem :: "bvrt_device \<Rightarrow> bvrt_device" where
  "prep_mem dev = fold (\<lambda>l d. mem_wr32 d (BV_WARP_SIZE * 4 + l * 4) (of_nat (l + 7))) [0..<BV_WARP_SIZE]
     (fold (\<lambda>l d. mem_wr32 d (l * 4) (of_nat (l * 3 + 1))) [0..<BV_WARP_SIZE] dev)"

abbreviation (input) demo_args :: "u32 list" where
  "demo_args \<equiv> [0, 128, 4]"

fun status_code :: "bv_status \<Rightarrow> u32" where
  "status_code BV_OK = 0" | "status_code BV_TRAP = 1" | "status_code BV_TIMEOUT = 2" | "status_code BV_HALT = 3" | "status_code BV_OOB = 4"

definition lane_report :: "bvrt_device \<Rightarrow> nat \<Rightarrow> string \<Rightarrow> string option" where
  "lane_report dev l = (let got = mem_rd32 dev (BV_WARP_SIZE * 4 + l * 4); want = 4 * of_nat (l * 3 + 1) + of_nat (l + 7) in
     op_out (''  lane %2d: y=%u (exp %u)%s'' @ newline)
       [ArgInt (of_nat l), ArgInt got, ArgInt want, ArgText (Some (if got = want then [] else ''  <-- MISMATCH''))])"

text \<open>What is printed after the run, and the result: the lanes are compared, but the last line does not depend on it.\<close>

definition run_report :: "bool \<Rightarrow> bv_status \<Rightarrow> bvrt_device \<Rightarrow> string \<Rightarrow> (int \<times> string) option" where
  "run_report trace st dev out0 =
     Option.bind (if trace then run_each (lane_report dev) [0..<BV_WARP_SIZE] out0 else Some out0) (\<lambda>out1.
     if st = BV_HALT
     then map_option (Pair 0)
       (op_out (''BVRT saxpy ok (32 lanes) - y[i] = a*x[i] + y[i] verified for all 32 lanes'' @ newline) [] out1)
     else map_option (Pair (-1)) (op_out (''BVRT status %d'' @ newline) [ArgInt (status_code st)] out1))"

text \<open>The result and the output.\<close>

definition run_bvrt :: "fpu \<Rightarrow> bool \<Rightarrow> bool \<Rightarrow> (nat \<Rightarrow> u8) \<Rightarrow> bool \<Rightarrow> bvbc_image \<Rightarrow> string \<Rightarrow> (int \<times> string) option" where
  "run_bvrt fp calloc_ok malloc_ok heap trace img out0 =
    (case bvrt_create calloc_ok malloc_ok heap 0x100000 of
       None \<Rightarrow> map_option (Pair (-1)) (op_out (''bvrt: create failed'' @ newline) [] out0)
     | Some dev0 \<Rightarrow> (case bvrt_load (Some dev0) (Some img) of
         (_, None) \<Rightarrow> map_option (Pair (-1)) (op_out (''bvrt: load failed'' @ newline) [] out0)
       | (_, Some dev1) \<Rightarrow>
         Option.bind (bvrt_launch (prep_mem dev1) ''saxpy'' demo_args 3) (\<lambda>(rc, dev2).
         if rc \<noteq> 0 then map_option (Pair (-1)) (op_out (''bvrt: no kernel'' @ newline) [] out0)
         else Option.bind (bvrt_run fp dev2 10000) (\<lambda>(st, dev). run_report trace st dev out0))))"

definition brad_wasm_run :: "fpu \<Rightarrow> bool \<Rightarrow> bool \<Rightarrow> (nat \<Rightarrow> u8) \<Rightarrow> wasm_bridge \<Rightarrow> (u32 \<times> wasm_bridge) option" where
  "brad_wasm_run fp calloc_ok malloc_ok heap s =
     map_option (\<lambda>(r, t). (if r = 0 then 0 else 2, s\<lparr> wb_out := t \<rparr>)) (run_bvrt fp calloc_ok malloc_ok heap True (wb_img s) [])"

text \<open>The loop of at most \<open>n\<close> steps up to the instruction 4.\<close>

fun gdb_loop :: "fpu \<Rightarrow> int \<Rightarrow> nat \<Rightarrow> bvrt_device \<Rightarrow> bvrt_device option" where
  "gdb_loop fp ninsn 0 dev = Some dev"
| "gdb_loop fp ninsn (Suc n) dev =
    (if ninsn \<le> sint (w_pc (d_warp dev)) \<or> w_pc (d_warp dev) = 4 then Some dev
     else case bvrt_step fp dev of None \<Rightarrow> None
       | Some (st, dev') \<Rightarrow> if st \<noteq> BV_OK then Some dev' else gdb_loop fp ninsn n dev')"

definition run_gdb :: "fpu \<Rightarrow> bool \<Rightarrow> bool \<Rightarrow> (nat \<Rightarrow> u8) \<Rightarrow> bvbc_image \<Rightarrow> string \<Rightarrow> (int \<times> string) option" where
  "run_gdb fp calloc_ok malloc_ok heap img out0 =
    (case bvrt_create calloc_ok malloc_ok heap 0x100000 of
       None \<Rightarrow> map_option (Pair (-1)) (op_out (''bradgdb: create failed'' @ newline) [] out0)
     | Some dev0 \<Rightarrow> (case bvrt_load (Some dev0) (Some img) of
         (_, None) \<Rightarrow> map_option (Pair (-1)) (op_out (''bradgdb: load failed'' @ newline) [] out0)
       | (_, Some dev1) \<Rightarrow>
         Option.bind (bvrt_launch (prep_mem dev1) ''saxpy'' demo_args 3) (\<lambda>(rc, dev2).
         Option.bind (op_out (''break 4 set (IMUL S4, S3, S18)'' @ newline) [] out0) (\<lambda>out1.
         Option.bind (gdb_loop fp (int (img_ninsn img)) 64 dev2) (\<lambda>dev.
         let pc = w_pc (d_warp dev) in
         if length (img_insns img) \<le> unat pc then None
         else Option.bind (op_out (''halt @ PC=%u (%s S4, S3, S18)'' @ newline)
             [ArgInt pc, ArgText (Some (bv_opcode_name (ucast (i_op (bv_decode (img_insns img ! unat pc))))))] out1) (\<lambda>out2.
           Option.bind (op_out (''regs: PC=%u S3=%u S18=%u'' @ newline)
             [ArgInt pc, ArgInt (w_s (d_warp dev) 0 3), ArgInt (w_s (d_warp dev) 0 18)] out2) (\<lambda>out3.
           Option.bind (bvrt_run fp dev 10000) (\<lambda>(st, _).
           map_option (Pair 0) (op_out (''continue -> %s'' @ newline)
             [ArgText (Some (if st = BV_HALT then ''BV_HALT - program completed'' else ''BVRT status: halt''))] out3)))))))))"

definition brad_wasm_gdb :: "fpu \<Rightarrow> bool \<Rightarrow> bool \<Rightarrow> (nat \<Rightarrow> u8) \<Rightarrow> wasm_bridge \<Rightarrow> (u32 \<times> wasm_bridge) option" where
  "brad_wasm_gdb fp calloc_ok malloc_ok heap s =
     map_option (\<lambda>(r, t). (if r = 0 then 0 else 3, s\<lparr> wb_out := t \<rparr>)) (run_gdb fp calloc_ok malloc_ok heap (wb_img s) [])"

definition brad_wasm_out_len :: "wasm_bridge \<Rightarrow> u32" where
  "brad_wasm_out_len s = of_nat (length (wb_out s))"

end
