(* ===== verification/WasmProps.thy ===== *)
theory WasmProps
  imports WasmBridge LibProps Machine
begin

text \<open>
  What the exported functions of the browser build promise whatever JavaScript calls in whatever order, the demo functions included:
  the compiled program and the program of the session are well-formed while they are not stale, the session runs the program it was
  created with, the error text is ended and the output fits, and the disassembly of an instruction is its whole text. After
  \<open>brad_wasm_assemble\<close> program and session are stale, and a call that reads one is undefined (\<open>assemble_makes_stale\<close>).
\<close>

section \<open>Calls\<close>

datatype bridge_op = Compile bool bool string | Disasm u32 | Create bool bool bool "nat \<Rightarrow> u8" u32 | Launch string "u32 list" u32
  | Exec u32 | StepOnce | Continue | Breakpoint u32 | Assemble | DemoRun bool bool "nat \<Rightarrow> u8" | DemoGdb bool bool "nat \<Rightarrow> u8"

text \<open>The state after a call; no state where the call is undefined or does not return.\<close>

fun bridge_call :: "fpu \<Rightarrow> bridge_op \<Rightarrow> wasm_bridge \<Rightarrow> wasm_bridge option" where
  "bridge_call fp (Compile po io src) s = map_option snd (brad_wasm_compile po io src s)"
| "bridge_call fp (Disasm pc) s = map_option snd (brad_wasm_disasm pc s)"
| "bridge_call fp (Create so co mo heap n) s = map_option snd (brad_wasm_create so co mo heap n s)"
| "bridge_call fp (Launch k args n) s = map_option snd (brad_wasm_launch k args n s)"
| "bridge_call fp (Exec n) s = map_option snd (brad_wasm_exec fp n s)"
| "bridge_call fp StepOnce s = map_option snd (brad_wasm_step fp s)"
| "bridge_call fp Continue s = (case brad_wasm_continue fp s of Some (Some (st, s')) \<Rightarrow> Some s' | _ \<Rightarrow> None)"
| "bridge_call fp (Breakpoint pc) s = map_option snd (brad_wasm_breakpoint pc s)"
| "bridge_call fp Assemble s = map_option snd (brad_wasm_assemble s)"
| "bridge_call fp (DemoRun co mo heap) s = map_option snd (brad_wasm_run fp co mo heap s)"
| "bridge_call fp (DemoGdb co mo heap) s = map_option snd (brad_wasm_gdb fp co mo heap s)"

definition bridge_exec :: "fpu \<Rightarrow> bridge_op \<Rightarrow> wasm_bridge \<Rightarrow> wasm_bridge" where
  "bridge_exec fp c s = (case bridge_call fp c s of None \<Rightarrow> s | Some s' \<Rightarrow> s')"

definition bridge_safe :: "fpu \<Rightarrow> bridge_op \<Rightarrow> wasm_bridge \<Rightarrow> bool" where
  "bridge_safe fp c s \<longleftrightarrow> bridge_call fp c s \<noteq> None"

section \<open>Sessions\<close>

definition session_ok :: "bradlib_session \<Rightarrow> bool" where
  "session_ok ss \<longleftrightarrow> build_ok (ss_prog ss) \<and> runs_program (ss_prog ss) (ss_dev ss)"

lemma session_with_dev: "session_ok ss \<Longrightarrow> runs_program (ss_prog ss) d \<Longrightarrow> session_ok (with_dev ss d)"
  by (simp add: session_ok_def)

lemma run_runs_program:
  assumes "runs_program img d" "bvrt_run fp d n = Some (st, d')"
  shows "runs_program img d'"
proof -
  have "same_program d d'" by (rule program.run_keeps [OF _ _ assms(2)]) (auto simp: same_program_def)
  moreover have "warp_ok d'"
    by (rule warp.run_keeps [OF _ _ assms(2)]) (use assms(1) in \<open>auto simp: warp_ok_def runs_program_def\<close>)
  ultimately show ?thesis using assms(1) by (simp add: runs_program_def same_program_def)
qed

lemma gdb_step_device: "bradgdb_step fp g = Some (st, g') \<Longrightarrow> bvrt_step fp (g_dev g) = Some (st, g_dev g')"
  by (auto simp: bradgdb_step_def Let_def split: option.splits if_splits prod.splits)

lemma continue_runs_program:
  assumes "bradgdb_continue fp g = Some (Some (st, g'))" "runs_program img (g_dev g)"
  shows "runs_program img (g_dev g')"
proof -
  have "r = Some (st, g') \<Longrightarrow> runs_program img (g_dev g) \<Longrightarrow> runs_program img (g_dev g')" if "bradgdb_continue fp g = Some r" for r
    using that
  proof (induction arbitrary: st g' rule: bradgdb_continue.raw_induct [rotated, consumes 1])
    case (1 cont fp g r)
    then show ?case
      by (fastforce simp: hit_break_def split: if_splits option.splits dest!: gdb_step_device dest: runs_program_step)
  qed
  then show ?thesis using assms by blast
qed

lemma create_session_ok:
  assumes "bradlib_create so co mo heap (Some img) n = Some ss" "build_ok img"
  shows "session_ok ss"
  using assms by (auto simp: session_ok_def bradlib_create_def bvrt_create_def bvrt_load_def bradgdb_attach_def bvrt_reset_def
      runs_program_def warp_ok_def zero_warp_def Let_def split: option.splits if_splits)

lemma launch_session_ok:
  assumes "bradlib_launch (Some ss) (Some k) args n = Some (rc, so)" "session_ok ss"
  obtains ss' where "so = Some ss'" "session_ok ss'"
proof -
  obtain d where d: "bvrt_launch (ss_dev ss) k args n = Some (rc, d)"
    "so = Some (if rc = 0 then (with_dev ss d)\<lparr> ss_kernel := of_int (bvbc_find_kernel (ss_prog ss) k) \<rparr> else with_dev ss d)"
    using assms(1) by (auto simp: bradlib_launch_def Let_def split: option.splits prod.splits)
  have "runs_program (ss_prog ss) d"
  proof (cases "rc = 0")
    case True
    then show ?thesis using bvrt_launch_runs [of "ss_dev ss" k args n d] d(1) assms(2)
      by (simp add: session_ok_def runs_program_def)
  next
    case False
    then have "d = ss_dev ss" using d(1) by (auto simp: bvrt_launch_def Let_def split: if_splits)
    then show ?thesis using assms(2) by (simp add: session_ok_def)
  qed
  then have "session_ok (with_dev ss d)" by (rule session_with_dev [OF assms(2)])
  then have "session_ok (if rc = 0 then (with_dev ss d)\<lparr> ss_kernel := of_int (bvbc_find_kernel (ss_prog ss) k) \<rparr> else with_dev ss d)"
    by (simp add: session_ok_def)
  then show ?thesis using that d(2) by blast
qed

lemma breakpoint_session_ok:
  "bradlib_breakpoint (Some ss) pc = (b, so) \<Longrightarrow> session_ok ss \<Longrightarrow> \<exists>ss'. so = Some ss' \<and> session_ok ss'"
  by (auto simp: bradlib_breakpoint_def session_ok_def bradgdb_add_break_def bradgdb_enable_break_def Let_def
    split: if_splits prod.splits option.splits)

section \<open>The invariant\<close>

definition bridge_ok :: "wasm_bridge \<Rightarrow> bool" where
  "bridge_ok s \<longleftrightarrow> pred_option build_ok (wb_prog s) \<and> pred_option session_ok (wb_sess s) \<and>
     length (wb_err_buf s) < 256 \<and> length (wb_out s) < OUT_SIZE \<and> length (wb_insns s) = BVBC_MAX_INSN \<and>
     (wb_img s = zero_image \<or> build_ok (wb_img s) \<and> img_ninsn (wb_img s) = 10 \<and> img_insns (wb_img s) = wb_insns s)"

lemma g_prog_simps: "g_prog s = Some (Some img) \<Longrightarrow> wb_prog s = Some img"
  and g_sess_simps: "g_sess s = Some (Some ss) \<Longrightarrow> wb_sess s = Some ss"
  and g_sess_null: "g_sess s = Some None \<Longrightarrow> wb_sess s = None"
  by (simp_all add: g_prog_def g_sess_def split: if_splits)

lemma vsnprintf_fits: "vsnprintf dbl (Suc n) f args = Some (r, t) \<Longrightarrow> \<exists>s. t = Some s \<and> length s \<le> n \<and> r = int (length s)"
  by (auto simp: vsnprintf_holds)

lemma op_out_fits: "op_out f args o1 = Some t \<Longrightarrow> length o1 < OUT_SIZE \<Longrightarrow> length t < OUT_SIZE"
  by (auto simp: op_out_def Let_def split: option.splits if_splits prod.splits)

lemma op_out_empty: "op_out f args [] = Some t \<Longrightarrow> length t < OUT_SIZE"
  by (erule op_out_fits) simp

lemma run_each_fits:
  "run_each (\<lambda>i. f i) is o1 = Some t \<Longrightarrow> (\<And>i o1 t. f i o1 = Some t \<Longrightarrow> length o1 < OUT_SIZE \<Longrightarrow> length t < OUT_SIZE) \<Longrightarrow>
    length o1 < OUT_SIZE \<Longrightarrow> length t < (OUT_SIZE :: nat)"
proof (induction "is" arbitrary: o1)
  case (Cons i "is")
  then obtain o2 where "f i o1 = Some o2" "run_each f is o2 = Some t" by (auto split: option.splits)
  then show ?case using Cons by blast
qed simp

lemma compile_bridge_ok:
  assumes "bridge_ok s" "brad_wasm_compile po io src s = Some (r, s')"
  shows "bridge_ok s'"
proof (cases "bradlib_compile po io (Some (cstr src))")
  case (Program img)
  then have "build_ok img" using assembled_build_ok(1) by (auto elim: compile_assembles)
  then show ?thesis using assms Program by (auto simp: bridge_ok_def brad_wasm_compile_def split: if_splits)
next
  case (NoProgram e)
  then show ?thesis using assms vsnprintf_fits [of _ 255 "''%s''"]
    by (fastforce simp: bridge_ok_def brad_wasm_compile_def Option.bind_eq_Some_conv split: if_splits)
qed (use assms in \<open>auto simp: brad_wasm_compile_def split: if_splits\<close>)

lemma disasm_bridge_ok:
  assumes "bridge_ok s" "brad_wasm_disasm pc s = Some (r, s')"
  shows "bridge_ok s'"
proof -
  obtain t where "s' = s\<lparr> wb_out := t \<rparr>" "length t < OUT_SIZE"
    using assms(2) vsnprintf_fits [of _ 127 disasm_format]
    by (fastforce simp: brad_wasm_disasm_def shim_bradlib_disasm_def split: option.splits if_splits prod.splits dest: op_out_empty)
  then show ?thesis using assms(1) by (simp add: bridge_ok_def)
qed

lemma with_session_ok: "bridge_ok s \<Longrightarrow> session_ok ss \<Longrightarrow> bridge_ok (s\<lparr> wb_sess := Some ss \<rparr>)"
  by (simp add: bridge_ok_def)

lemma run_session_ok: "bradlib_run fp (Some ss) n = Some (st, so) \<Longrightarrow> session_ok ss \<Longrightarrow> \<exists>ss'. so = Some ss' \<and> session_ok ss'"
  by (auto simp: bradlib_run_def session_ok_def dest: run_runs_program)

lemma step_session_ok: "bradlib_step fp (Some ss) = Some (st, so) \<Longrightarrow> session_ok ss \<Longrightarrow> \<exists>ss'. so = Some ss' \<and> session_ok ss'"
  by (auto simp: bradlib_step_def session_ok_def dest: runs_program_step)

lemma continue_session_ok:
  "bradlib_continue fp (Some ss) = Some (Some (st, so)) \<Longrightarrow> session_ok ss \<Longrightarrow> \<exists>ss'. so = Some ss' \<and> session_ok ss'"
  by (auto simp: bradlib_continue_def session_ok_def split: if_splits dest: continue_runs_program)

lemma create_bridge_ok: "bridge_ok s \<Longrightarrow> brad_wasm_create so co mo heap n s = Some (r, s') \<Longrightarrow> bridge_ok s'"
proof -
  assume a: "bridge_ok s" "brad_wasm_create so co mo heap n s = Some (r, s')"
  then have "build_ok img" if "g_prog s = Some (Some img)" for img
    using g_prog_simps [OF that] by (simp add: bridge_ok_def)
  then show "bridge_ok s'" using a create_session_ok
    by (auto simp: bridge_ok_def brad_wasm_create_def split: option.splits)
qed

text \<open>The demo text assembles, whatever the array of instructions held before.\<close>

lemma saxpy_evaluates:
  "case bradc_assemble saxpy_src (zero_image\<lparr> img_insns := a # b # c # d # e # f # g # h # i # j # xs \<rparr>) of
     AsmOk img \<Rightarrow> img_ninsn img = 10 \<and> length (drop 10 (img_insns img)) = length (drop 0 xs) | _ \<Rightarrow> False"
  by code_simp

lemma ten_words:
  assumes "length l = 10"
  obtains a b c d e f g h i j where "l = [a, b, c, d, e, f, g, h, i, j]"
  using assms that by (auto simp: length_Suc_conv eval_nat_numeral)

lemma saxpy_assembles:
  assumes "length ws = BVBC_MAX_INSN"
  obtains img where "bradc_assemble saxpy_src (zero_image\<lparr> img_insns := ws \<rparr>) = AsmOk img" "build_ok img"
    "img_ninsn img = 10" "length (img_insns img) = BVBC_MAX_INSN"
proof -
  have "length (take 10 ws) = 10" using assms by simp
  then obtain a b c d e f g h i j where "take 10 ws = [a, b, c, d, e, f, g, h, i, j]"
    by (rule ten_words)
  moreover define xs where "xs = drop 10 ws"
  ultimately have "ws = a # b # c # d # e # f # g # h # i # j # xs" "length xs = 65526"
    using append_take_drop_id [of 10 ws] assms by simp_all
  then show ?thesis using saxpy_evaluates [of xs a b c d e f g h i j] that
    by (auto split: asm_res.splits dest: assembled_build_ok(1))
qed

lemma put_disasm_fits: "put_disasm img o1 = Some t \<Longrightarrow> length o1 < OUT_SIZE \<Longrightarrow> length t < OUT_SIZE"
  unfolding put_disasm_def by (erule run_each_fits) (auto split: if_splits dest: op_out_fits)

lemma assemble_bridge_ok:
  assumes "bridge_ok s" "brad_wasm_assemble s = Some (r, s')"
  shows "bridge_ok s'"
proof -
  have "length (wb_insns s) = BVBC_MAX_INSN" using assms(1) by (simp add: bridge_ok_def)
  then obtain img where "bradc_assemble saxpy_src (zero_image\<lparr> img_insns := wb_insns s \<rparr>) = AsmOk img" "build_ok img"
    "img_ninsn img = 10" "length (img_insns img) = BVBC_MAX_INSN" by (rule saxpy_assembles)
  then show ?thesis using assms
    by (auto simp: bridge_ok_def brad_wasm_assemble_def Let_def Option.bind_eq_Some_conv dest!: op_out_empty put_disasm_fits)
qed

lemma run_report_fits:
  assumes "run_report tr st d o1 = Some (r, t)" "length o1 < OUT_SIZE"
  shows "length t < OUT_SIZE"
proof -
  obtain t1 where t1: "(if tr then run_each (lane_report d) [0..<BV_WARP_SIZE] o1 else Some o1) = Some t1"
    and t: "(if st = BV_HALT
     then map_option (Pair 0) (op_out (''BVRT saxpy ok (32 lanes) - y[i] = a*x[i] + y[i] verified for all 32 lanes'' @ newline) [] t1)
     else map_option (Pair (-1)) (op_out (''BVRT status %d'' @ newline) [ArgInt (status_code st)] t1)) = Some (r, t)"
    using assms(1) unfolding run_report_def Option.bind_eq_Some_conv by blast
  have "length t1 < OUT_SIZE"
    using t1 assms(2) by (cases tr) (auto simp: lane_report_def Let_def dest: op_out_fits elim!: run_each_fits)
  then show ?thesis using t by (cases "st = BV_HALT") (auto dest: op_out_fits)
qed

lemma run_bvrt_fits:
  assumes "run_bvrt fp co mo heap tr img o1 = Some (r, t)" "length o1 < OUT_SIZE"
  shows "length t < OUT_SIZE"
proof (cases "bvrt_create co mo heap 0x100000")
  case None
  then show ?thesis using assms by (auto simp: run_bvrt_def dest: op_out_fits)
next
  case (Some dev0)
  then obtain rc d2 where l: "bvrt_launch (prep_mem (dev0\<lparr> d_img := img, d_code := img_insns img \<rparr>)) ''saxpy'' demo_args 3 = Some (rc, d2)"
    using assms(1) by (auto simp: run_bvrt_def bvrt_load_def Option.bind_eq_Some_conv)
  show ?thesis
  proof (cases "rc = 0")
    case False
    then show ?thesis using assms l Some by (auto simp: run_bvrt_def bvrt_load_def dest: op_out_fits)
  next
    case True
    then show ?thesis using assms l Some run_report_fits by (auto simp: run_bvrt_def bvrt_load_def Option.bind_eq_Some_conv)
  qed
qed

lemma run_gdb_fits: "run_gdb fp co mo heap img o1 = Some (r, t) \<Longrightarrow> length o1 < OUT_SIZE \<Longrightarrow> length t < OUT_SIZE"
  by (auto simp: run_gdb_def bvrt_load_def Let_def Option.bind_eq_Some_conv split: option.splits if_splits dest!: op_out_fits)

lemma demo_bridge_ok:
  "bridge_ok s \<Longrightarrow> brad_wasm_run fp co mo heap s = Some (r, s') \<Longrightarrow> bridge_ok s'"
  "bridge_ok s \<Longrightarrow> brad_wasm_gdb fp co mo heap s = Some (r, s') \<Longrightarrow> bridge_ok s'"
  by (auto simp: bridge_ok_def brad_wasm_run_def brad_wasm_gdb_def dest: run_bvrt_fits run_gdb_fits)

text \<open>A call on the session leaves it alone when there is none, and replaces it by one that is as good.\<close>

lemma session_call_ok:
  assumes "bridge_ok s" "bridge_call fp c s = Some s'" "c \<in> {Launch k args n, Exec m, StepOnce, Continue, Breakpoint pc}"
  shows "bridge_ok s'"
proof (cases "g_sess s")
  case None
  then show ?thesis using assms(2,3)
    by (auto simp: brad_wasm_launch_def brad_wasm_exec_def brad_wasm_step_def brad_wasm_continue_def brad_wasm_breakpoint_def)
next
  case (Some p)
  show ?thesis
  proof (cases p)
    case None
    then show ?thesis using assms Some
      by (auto simp: brad_wasm_launch_def brad_wasm_exec_def brad_wasm_step_def brad_wasm_continue_def brad_wasm_breakpoint_def)
  next
    case (Some ss)
    then have g: "g_sess s = Some (Some ss)" using \<open>g_sess s = Some p\<close> by simp
    then have ss: "session_ok ss" using assms(1) g_sess_simps [OF g] by (simp add: bridge_ok_def)
    from assms(3) consider "c = Launch k args n" | "c = Exec m" | "c = StepOnce" | "c = Continue" | "c = Breakpoint pc" by blast
    then obtain so where "s' = s\<lparr> wb_sess := so \<rparr>" "\<exists>ss'. so = Some ss' \<and> session_ok ss'"
    proof cases
      case 1
      then show ?thesis using assms(2) g ss that by (auto simp: brad_wasm_launch_def elim!: launch_session_ok)
    next
      case 2
      then show ?thesis using assms(2) g ss that by (auto simp: brad_wasm_exec_def dest: run_session_ok)
    next
      case 3
      then show ?thesis using assms(2) g ss that by (auto simp: brad_wasm_step_def dest: step_session_ok)
    next
      case 4
      then show ?thesis using assms(2) g ss that
        by (auto simp: brad_wasm_continue_def split: option.splits dest: continue_session_ok)
    next
      case 5
      then show ?thesis using assms(2) g ss that
        by (auto simp: brad_wasm_breakpoint_def split: prod.splits dest: breakpoint_session_ok)
    qed
    then show ?thesis using assms(1) by (auto simp: bridge_ok_def)
  qed
qed

lemma call_bridge_ok:
  assumes "bridge_ok s" "bridge_call fp c s = Some s'"
  shows "bridge_ok s'"
  using assms session_call_ok [OF assms]
  by (cases c) (auto intro: compile_bridge_ok disasm_bridge_ok create_bridge_ok assemble_bridge_ok demo_bridge_ok)

interpretation bridge: op_machine "bridge_exec fp" "bridge_safe fp" bridge_ok bridge_init for fp
proof
  show "bridge_ok bridge_init" by (simp add: bridge_ok_def bridge_init_def)
next
  fix s c assume "bridge_ok s" "bridge_safe fp c s"
  then show "bridge_ok (bridge_exec fp c s)" by (auto simp: bridge_exec_def bridge_safe_def intro: call_bridge_ok)
qed

section \<open>What JavaScript relies on\<close>

lemma decimal_length: "v < 10 ^ k \<Longrightarrow> 0 < k \<Longrightarrow> length (show_nat v) \<le> k"
proof (induction k arbitrary: v)
  case (Suc k)
  then show ?case
  proof (cases "v < 10")
    case False
    moreover have "v div 10 < 10 ^ k" using Suc.prems(1) by (simp add: less_mult_imp_div_less mult.commute)
    moreover from this False have "0 < k" by (cases k) auto
    ultimately show ?thesis using Suc.IH [of "v div 10"] by (simp add: show_nat.simps [of v])
  qed (simp add: show_nat.simps)
qed simp

lemma byte_text: "length (show_nat (unat (b :: u8))) \<le> 3"
  using unsigned_less [of b, where ?'a = nat] by (intro decimal_length) simp_all

lemma imm_text: "length (show_int (sint (i :: 8 word))) \<le> 4"
proof -
  have "- 128 \<le> sint i" "sint i < 128" using sint_ge [of i] sint_lt [of i] by simp_all
  then have "length (show_nat (nat (- sint i))) \<le> 3" "length (show_nat (nat (sint i))) \<le> 3" by (auto intro!: decimal_length)
  then show ?thesis by (simp add: show_int_def)
qed

lemma mnemonic_text: "length (bv_opcode_name x) \<le> 20"
proof -
  have "length (opcode_mnemonic c) \<le> 20" for c
    by (cases c) (simp_all, (rule alu_op.induct int_op.induct vec_op.induct mem_op.induct ctl_op.induct rt_op.induct ns_op.induct
      sfu_op.induct; simp)+)
  then show ?thesis by (simp add: bv_opcode_name_def split: option.split)
qed

lemma disasm_text_length: "length (disasm_text pc d) < 128"
proof -
  have "length (show_nat (unat pc)) \<le> 10" using unsigned_less [of pc, where ?'a = nat] by (intro decimal_length) simp_all
  then have "length (pad_left 4 (show_nat (unat pc))) \<le> 10" by (simp add: pad_left_def)
  then show ?thesis using mnemonic_text [of "ucast (i_op d)"] byte_text [of "i_pred d"] byte_text [of "i_dst d"] byte_text [of "i_src1 d"]
      byte_text [of "i_src2 d"] imm_text [of "i_imm d"]
    by (simp add: disasm_text_def)
qed









text \<open>The demo resets the arena under program and session.\<close>

lemma assemble_makes_stale:
  assumes "brad_wasm_assemble s = Some (r, s')" "wb_prog s \<noteq> None"
  shows "brad_wasm_disasm pc s' = None" "brad_wasm_create so co mo heap n s' = None"
proof -
  have "wb_prog s' = wb_prog s" "wb_prog_stale s'"
    using assms(1) by (auto simp: brad_wasm_assemble_def Let_def Option.bind_eq_Some_conv split: asm_res.splits)
  then have "g_prog s' = None" using assms(2) by (simp add: g_prog_def)
  then show "brad_wasm_disasm pc s' = None" "brad_wasm_create so co mo heap n s' = None"
    by (simp_all add: brad_wasm_disasm_def brad_wasm_create_def)
qed

text \<open>The demo of the debugger before the assembly reads an instruction through a null pointer.\<close>

lemma gdb_without_assembly: "brad_wasm_gdb fp True True heap bridge_init = None"
proof -
  have "gdb_loop fp 0 64 d = Some d" if "w_pc (d_warp d) = 0" for d :: bvrt_device
    using that by (simp add: eval_nat_numeral)
  moreover have "w_pc (d_warp (prep_mem d)) = w_pc (d_warp d)" "d_img (prep_mem d) = d_img d" for d
    unfolding prep_mem_def by (rule fold_inv, rule fold_inv, simp_all add: mem_wr32_def)+
  ultimately show ?thesis
    by (simp add: brad_wasm_gdb_def run_gdb_def bridge_init_def bvrt_create_def bvrt_load_def bvrt_launch_def bvbc_find_kernel_def
      zero_image_def zero_warp_def Let_def)
qed

lemma tiny_session:
  obtains img ss where "bradlib_compile True True (Some tiny_source) = Program img" "img_ninsn img = 1"
    "img_insns img ! 0 = BVEN 0x46 0 0 0 0 0 0 0"
    "bridge_call fp (Compile True True tiny_source) bridge_init = Some (bridge_init\<lparr> wb_prog := Some img \<rparr>)"
    "bridge_call fp (Create True True True (\<lambda>_. 0) 64) (bridge_init\<lparr> wb_prog := Some img \<rparr>) =
       Some (bridge_init\<lparr> wb_prog := Some img, wb_sess := Some ss \<rparr>)"
proof -
  obtain img where img: "bradlib_compile True True (Some tiny_source) = Program img" "img_ninsn img = 1"
    "img_insns img = BVEN 0x46 0 0 0 0 0 0 0 # replicate 65535 0" using tiny_compiles by blast
  obtain ss where ss: "bradlib_create True True True (\<lambda>_. 0) (Some img) 64 = Some ss" using session_exists by blast
  have c: "cstr tiny_source = tiny_source" "length tiny_source = 19" by code_simp+
  have w: "img_insns img ! 0 = BVEN 0x46 0 0 0 0 0 0 0" unfolding img(3) by (rule nth_Cons_0)
  show ?thesis by (rule that [OF img(1,2) w]) (use c img(1) ss in \<open>simp_all add: brad_wasm_compile_def brad_wasm_create_def bridge_init_def g_prog_def\<close>)
qed


text \<open>C23: After any sequence of calls of the typed functions and of the demo that are defined, asking for the disassembly of an instruction
  of the compiled program, when no reset of the arena has made it stale, succeeds and outputs its whole text, the one of the
  native library.\<close>

theorem bridge_disassembles:
  assumes "bridge.run_safe fp calls bridge_init" and "s = bridge.run fp calls bridge_init"
    and "g_prog s = Some (Some img)" and "unat pc < img_ninsn img"
  shows "brad_wasm_disasm pc s = Some (0, s\<lparr> wb_out := disasm_text pc (bv_decode (img_insns img ! unat pc)) \<rparr>)"
proof -
  have "bridge_ok s" unfolding assms(2) by (rule bridge.run_inv [OF bridge.init_inv assms(1)])
  then have "unat pc < length (img_insns img)" using g_prog_simps [OF assms(3)] assms(4) by (simp add: bridge_ok_def build_ok_def)
  moreover have "length (disasm_text pc (bv_decode (img_insns img ! unat pc))) \<le> 127"
    using disasm_text_length [of pc "bv_decode (img_insns img ! unat pc)"] by linarith
  ultimately show ?thesis using assms(3,4)
    by (simp add: brad_wasm_disasm_def shim_bradlib_disasm_def vsnprintf_holds expand_disasm)
qed

lemma bridge_disassembles_witness:
  "\<exists>s s'. s = bridge.run sample_fpu [Compile True True tiny_source] bridge_init \<and> brad_wasm_disasm 0 s = Some (0, s') \<and>
     wb_out s' = ''   0:  EXIT  pred=0 dst=0 src1=0 src2=0 imm=0''"
proof -
  obtain img ss where t: "img_ninsn img = 1" "img_insns img ! 0 = BVEN 0x46 0 0 0 0 0 0 0"
    "bridge_call sample_fpu (Compile True True tiny_source) bridge_init = Some (bridge_init\<lparr> wb_prog := Some img \<rparr>)" by (rule tiny_session)
  have r: "bridge.run sample_fpu [Compile True True tiny_source] bridge_init = bridge_init\<lparr> wb_prog := Some img \<rparr>"
    "bridge.run_safe sample_fpu [Compile True True tiny_source] bridge_init"
    using t(3) by (simp_all add: bridge_exec_def bridge_safe_def del: bridge_call.simps)
  have "disasm_text 0 (bv_decode (BVEN 0x46 0 0 0 0 0 0 0)) = ''   0:  EXIT  pred=0 dst=0 src1=0 src2=0 imm=0''" by code_simp
  moreover have "g_prog (bridge_init\<lparr> wb_prog := Some img \<rparr>) = Some (Some img)" by (simp add: g_prog_def bridge_init_def)
  ultimately show ?thesis using bridge_disassembles [OF r(2) refl, of img 0] r(1) t(1,2) by auto
qed

end
