(* ===== verification/FloatOrder.thy ===== *)
theory FloatOrder
  imports Float32
begin

text \<open>
  Rounding is monotone, so the order of non-negative \<open>float\<close> patterns as numbers bounds the results of sums, products and
  quotients. The bounds are stated on patterns: \<open>uint\<close> of a non-negative pattern grows with its value.
\<close>

section \<open>Rounding\<close>

lemma rne_mono:
  assumes "0 < b" "a \<le> a'"
  shows "rne a b \<le> rne a' b"
proof -
  have q: "a div b \<le> a' div b" using assms by (simp add: zdiv_mono1)
  show ?thesis
  proof (cases "a div b = a' div b")
    case True
    moreover have "a = b * (a div b) + a mod b" "a' = b * (a' div b) + a' mod b" by simp_all
    ultimately have "a mod b \<le> a' mod b" using assms(2) by (metis add_le_cancel_left)
    then show ?thesis using True by (auto simp: rne_def Let_def)
  next
    case False
    then have "a div b + 1 \<le> a' div b" using q by linarith
    then show ?thesis by (auto simp: rne_def Let_def)
  qed
qed

lemma rne_scale: "0 < d \<Longrightarrow> 0 < b \<Longrightarrow> rne (d * a) (d * b) = rne a b"
  by (simp add: rne_def Let_def mult_mod_right [symmetric] algebra_simps) 

lemma bitlen_bounds: "0 < n \<Longrightarrow> 2 ^ (bitlen n - 1) \<le> n \<and> n < 2 ^ bitlen n \<and> 0 < bitlen n"
proof (induction n rule: bitlen.induct)
  case (1 n)
  show ?case
  proof (cases "n = 1")
    case True
    then show ?thesis by (simp add: bitlen.simps [of 1] bitlen.simps [of 0])
  next
    case False
    then have "0 < n div 2" using 1(2) by linarith
    with 1 have i: "2 ^ (bitlen (n div 2) - 1) \<le> n div 2" "n div 2 < 2 ^ bitlen (n div 2)" "0 < bitlen (n div 2)" by auto
    have p: "(2 :: int) ^ bitlen (n div 2) = 2 * 2 ^ (bitlen (n div 2) - 1)" using i(3) by (simp add: power_eq_if)
    have "bitlen n = Suc (bitlen (n div 2))" using 1(2) by (simp add: bitlen.simps [of n])
    moreover have "2 * (n div 2) \<le> n" "n \<le> 2 * (n div 2) + 1" by presburger+
    ultimately show ?thesis using i p by auto
  qed
qed

lemma bitlen_mono:
  assumes "n \<le> m"
  shows "bitlen n \<le> bitlen m"
proof (cases "0 < n")
  case True
  then show ?thesis using bitlen_bounds [of m] assms by (intro bitlen_le) auto
qed (simp add: bitlen.simps [of n])

text \<open>The significand before the exponent is added.\<close>

lemma rne_upper: "0 < b \<Longrightarrow> a \<le> k * b \<Longrightarrow> rne a b \<le> k"
  using rne_mono [of b a "k * b"] rne_exact [of b k] by simp

lemma rne_lower: "0 < b \<Longrightarrow> k * b \<le> a \<Longrightarrow> k \<le> rne a b"
  using rne_mono [of b "k * b" a] rne_exact [of b k] by simp

definition round_bits :: "int \<Rightarrow> int \<Rightarrow> int" where
  "round_bits n d = (let t = bitlen (n div d) - 24 in min (int t * 2 ^ 23 + rne n (d * 2 ^ t)) 0x7F800000)"

lemma round_bits_mono:
  assumes "0 < d" "0 \<le> n" "n \<le> n'"
  shows "round_bits n d \<le> round_bits n' d"
proof -
  define t t' where "t = bitlen (n div d) - 24" and "t' = bitlen (n' div d) - 24"
  have q: "n div d \<le> n' div d" "0 \<le> n div d" using assms by (simp_all add: zdiv_mono1 pos_imp_zdiv_nonneg_iff)
  have tt: "t \<le> t'" using bitlen_mono [OF q(1)] by (simp add: t_def t'_def)
  have "int t * 2 ^ 23 + rne n (d * 2 ^ t) \<le> int t' * 2 ^ 23 + rne n' (d * 2 ^ t')"
  proof (cases "t = t'")
    case True
    then show ?thesis using rne_mono [of "d * 2 ^ t" n n'] assms by simp
  next
    case False
    then have lt: "t < t'" using tt by simp
    have "n div d < 2 ^ (24 + t)"
    proof (cases "n div d = 0")
      case False
      then have "n div d < 2 ^ bitlen (n div d)" using bitlen_bounds [of "n div d"] q(2) by linarith
      also have "\<dots> \<le> 2 ^ (24 + t)" by (intro power_increasing) (simp_all add: t_def)
      finally show ?thesis .
    qed simp
    then have "n div d + 1 \<le> 2 ^ (24 + t)" by simp
    then have "(n div d + 1) * d \<le> 2 ^ (24 + t) * d" using assms(1) by (intro mult_right_mono) simp_all
    moreover have "n < (n div d + 1) * d" using assms(1) by (simp add: algebra_simps) (metis add.commute less_add_same_cancel1 mod_mult_div_eq pos_mod_bound add_strict_left_mono)
    ultimately have "rne n (d * 2 ^ t) \<le> 2 ^ 24"
      using assms(1) by (intro rne_upper) (simp_all add: power_add algebra_simps)
    have b': "bitlen (n' div d) = t' + 24" using lt by (simp add: t'_def)
    then have "0 < n' div d" using bitlen.simps [of "n' div d"] by (auto split: if_splits)
    then have "2 ^ (t' + 23) \<le> n' div d" using bitlen_bounds [of "n' div d"] b' by (simp add: add.commute)
    then have "2 ^ (t' + 23) * d \<le> (n' div d) * d" using assms(1) by (intro mult_right_mono) simp_all
    also have "\<dots> \<le> n'" using assms(1) by (simp add: minus_mod_eq_div_mult [symmetric])
    finally have "2 ^ 23 \<le> rne n' (d * 2 ^ t')"
      using assms(1) by (intro rne_lower) (simp_all add: power_add algebra_simps)
    moreover have "int t * 2 ^ 23 + 2 ^ 23 \<le> int t' * 2 ^ 23" using lt by simp
    ultimately show ?thesis using \<open>rne n (d * 2 ^ t) \<le> 2 ^ 24\<close> by simp
  qed
  then show ?thesis unfolding round_bits_def Let_def t_def [symmetric] t'_def [symmetric] by (rule min.mono) simp
qed

lemma round_bits_scale: "0 < d \<Longrightarrow> 0 \<le> m \<Longrightarrow> round_bits (m * d) d = round_bits m 1"
  using rne_scale [of d "2 ^ (bitlen m - 24)" m] by (simp add: round_bits_def Let_def mult.commute)

lemma round_bits_range: "0 < d \<Longrightarrow> 0 \<le> n \<Longrightarrow> 0 \<le> round_bits n d \<and> round_bits n d \<le> 0x7F800000"
  using rne_lower [of "d * 2 ^ (bitlen (n div d) - 24)" 0 n] by (simp add: round_bits_def Let_def)

lemma uint_round: "0 < d \<Longrightarrow> 0 \<le> n \<Longrightarrow> uint (f32_round False n d) = round_bits n d"
proof -
  assume "0 < d" "0 \<le> n"
  moreover have "f32_round False n d = word_of_int (round_bits n d)" by (simp add: f32_round_def f32_pack_def round_bits_def Let_def)
  ultimately show "uint (f32_round False n d) = round_bits n d"
    using round_bits_range [of d n] by (simp add: uint_word_of_int_eq take_bit_int_eq_self)
qed

section \<open>Non-negative patterns\<close>

text \<open>The pattern of a number that is not negative.\<close>

definition nonneg :: "u32 \<Rightarrow> bool" where
  "nonneg x \<longleftrightarrow> uint x < 0x7F800000"

lemma nonneg_fields: "nonneg x \<Longrightarrow> f32_finite x \<and> \<not> f32_neg_bit x \<and> \<not> f32_is_nan x \<and> \<not> f32_is_inf x \<and> f32_val x = f32_mag x"
proof -
  assume n: "nonneg x"
  then have "uint x div 2 ^ 23 < 255" using uint_u32_range [of x] by (simp add: nonneg_def div_less_iff_less_mult)
  moreover have "0 \<le> uint x div 2 ^ 23" by (simp add: pos_imp_zdiv_nonneg_iff)
  ultimately have "f32_exp x \<noteq> 255" by (simp add: f32_exp_def)
  moreover have "\<not> f32_neg_bit x" using n by (simp add: nonneg_def f32_neg_bit_def)
  ultimately show ?thesis by (simp add: f32_finite_def f32_is_nan_def f32_is_inf_def f32_val_def)
qed

lemma uint_round_mag: "nonneg x \<Longrightarrow> round_bits (f32_mag x) 1 = uint x"
  using f32_round_mag [of x] nonneg_fields [of x] uint_round [of 1 "f32_mag x"] f32_mag_nonneg [of x] by simp

lemma mag_mono:
  assumes "nonneg x" "nonneg y"
  shows "f32_mag x \<le> f32_mag y \<longleftrightarrow> uint x \<le> uint y"
proof -
  have "uint x \<le> uint y" if "f32_mag x \<le> f32_mag y" 
    using round_bits_mono [OF _ f32_mag_nonneg that, of 1] uint_round_mag assms by simp
  moreover have "uint y \<le> uint x" if "f32_mag y \<le> f32_mag x" 
    using round_bits_mono [OF _ f32_mag_nonneg that, of 1] uint_round_mag assms by simp
  moreover have "f32_mag x = f32_mag y" if "uint x = uint y" using word_uint_eqI [OF that] by simp
  ultimately show ?thesis by (metis order_antisym linear)
qed

text \<open>A quotient that is at most the value of a pattern is rounded to at most that pattern.\<close>

lemma round_le:
  assumes "0 < d" "0 \<le> n" "nonneg x" "n \<le> f32_mag x * d"
  shows "uint (f32_round False n d) \<le> uint x"
  using round_bits_mono [OF assms(1,2,4)] round_bits_scale [of d "f32_mag x"] uint_round_mag [OF assms(3)]
    uint_round [of d n] assms f32_mag_nonneg [of x] by simp

section \<open>Operations\<close>

lemma nonneg_le: "nonneg x \<Longrightarrow> uint y \<le> uint x \<Longrightarrow> nonneg y"
  by (simp add: nonneg_def)

lemma add_le:
  assumes "nonneg a" "nonneg b" "nonneg x" "f32_mag a + f32_mag b \<le> f32_mag x"
  shows "uint (f32_add fp a b) \<le> uint x"
  using nonneg_fields [OF assms(1)] nonneg_fields [OF assms(2)] round_le [of 1 "f32_mag a + f32_mag b" x] assms
    f32_mag_nonneg [of a] f32_mag_nonneg [of b]
  by (auto simp: f32_add_def Let_def f32_zero_def f32_pack_def)

lemma mul_le:
  assumes "nonneg a" "nonneg b" "nonneg x" "f32_mag a * f32_mag b \<le> f32_mag x * 2 ^ 149"
  shows "uint (f32_mul fp a b) \<le> uint x"
  using nonneg_fields [OF assms(1)] nonneg_fields [OF assms(2)] round_le [of "2 ^ 149" "f32_mag a * f32_mag b" x] assms
    f32_mag_nonneg [of a] f32_mag_nonneg [of b]
  by (simp add: f32_mul_def)

lemma div_le:
  assumes "nonneg a" "nonneg b" "nonneg x" "0 < f32_mag b" "f32_mag a * 2 ^ 149 \<le> f32_mag x * f32_mag b"
  shows "uint (f32_div fp a b) \<le> uint x"
  using nonneg_fields [OF assms(1)] nonneg_fields [OF assms(2)] round_le [of "f32_mag b" "f32_mag a * 2 ^ 149" x] assms
    f32_mag_nonneg [of a] f32_mag_zero [of b]
  by (simp add: f32_div_def)

end
