(* ===== verification/Eroe.thy ===== *)
theory Eroe
  imports FloatOrder
begin

text \<open>
  The power and thermal governor, \<open>drivers/eroe.c\<close>: profiles, the table of declared workloads, the budget blended from both, and
  the thermal model. A \<open>float\<close> is its pattern, every operator is rounded on its own. An enumeration passed by a caller is its number,
  because the code does not check the unit. \<open>None\<close> is undefined behaviour: a unit outside of the four, a conversion out of range, an
  \<open>int\<close> overflow.
\<close>

section \<open>State\<close>

abbreviation (input) EROE_MAX_WORKLOADS :: nat where "EROE_MAX_WORKLOADS \<equiv> 32"

definition EROE_AMBIENT_C :: u32 where "EROE_AMBIENT_C = 25"
definition EROE_THERMAL_SCALE :: u32 where "EROE_THERMAL_SCALE = 0x42F00000"
definition EROE_DEFAULT_TDP :: u32 where "EROE_DEFAULT_TDP = 65"

definition EROE_PROFILE_IDLE :: u32 where "EROE_PROFILE_IDLE = 4"
definition EROE_PROFILE_BATTERY :: u32 where "EROE_PROFILE_BATTERY = 5"
definition EROE_PROFILE_CUSTOM :: u32 where "EROE_PROFILE_CUSTOM = 6"

definition EROE_FAN_SILENT :: u32 where "EROE_FAN_SILENT = 0"
definition EROE_FAN_BALANCED :: u32 where "EROE_FAN_BALANCED = 1"
definition EROE_FAN_PERFORMANCE :: u32 where "EROE_FAN_PERFORMANCE = 2"
definition EROE_FAN_AGGRESSIVE :: u32 where "EROE_FAN_AGGRESSIVE = 3"

record workload_entry =
  w_name :: string
  w_unit :: u32
  w_load :: u32
  w_active :: bool

record eroe_power_budget =
  cpu_pct :: u32
  gpu_pct :: u32
  npu_pct :: u32
  mem_pct :: u32

record eroe =
  e_active_profile :: u32
  e_base_budget :: eroe_power_budget
  e_eff_budget :: eroe_power_budget
  e_workloads :: "workload_entry list"
  e_num_workloads :: nat
  e_initialized :: bool
  e_fan_rpm :: u32
  e_fan_curve_id :: u32
  e_junction_c :: u32
  e_hotspot_c :: u32
  e_board_c :: u32
  e_battery_pct :: u32
  e_power_cap_w :: u32
  e_temp_limit_c :: u32

definition budget_of :: "u32 \<Rightarrow> u32 \<Rightarrow> u32 \<Rightarrow> u32 \<Rightarrow> eroe_power_budget" where
  "budget_of c g n m = \<lparr> cpu_pct = c, gpu_pct = g, npu_pct = n, mem_pct = m \<rparr>"

definition default_budgets :: "eroe_power_budget list" where
  "default_budgets = [budget_of 80 10 10 60, budget_of 30 70 20 90, budget_of 10 10 80 70, budget_of 10 30 0 40,
     budget_of 5 0 0 10, budget_of 30 20 20 30, budget_of 25 25 25 50]"

definition preset :: "u32 \<Rightarrow> eroe_power_budget" where
  "preset p = (if p \<le> EROE_PROFILE_BATTERY then default_budgets ! unat p else default_budgets ! unat EROE_PROFILE_CUSTOM)"

definition zero_workload :: workload_entry where
  "zero_workload = \<lparr> w_name = [], w_unit = 0, w_load = 0, w_active = False \<rparr>"

definition no_workloads :: "workload_entry list" where
  "no_workloads = replicate EROE_MAX_WORKLOADS zero_workload"

section \<open>Profiles\<close>

text \<open>The static state before the first call, and after \<open>eroe_init\<close>.\<close>

definition eroe_zero :: eroe where
  "eroe_zero = \<lparr> e_active_profile = 0, e_base_budget = budget_of 0 0 0 0, e_eff_budget = budget_of 0 0 0 0,
     e_workloads = no_workloads, e_num_workloads = 0, e_initialized = False, e_fan_rpm = 0, e_fan_curve_id = 0,
     e_junction_c = 0, e_hotspot_c = 0, e_board_c = 0, e_battery_pct = 0, e_power_cap_w = 0, e_temp_limit_c = 0 \<rparr>"

definition eroe_init :: "eroe \<Rightarrow> eroe" where
  "eroe_init e = eroe_zero\<lparr> e_active_profile := EROE_PROFILE_IDLE, e_base_budget := preset EROE_PROFILE_IDLE,
     e_eff_budget := preset EROE_PROFILE_IDLE, e_fan_rpm := 2000, e_fan_curve_id := EROE_FAN_BALANCED,
     e_junction_c := EROE_AMBIENT_C + 10, e_hotspot_c := EROE_AMBIENT_C + 15, e_board_c := EROE_AMBIENT_C + 5,
     e_battery_pct := 85, e_power_cap_w := 0, e_temp_limit_c := 95, e_initialized := True \<rparr>"

definition with_profile :: "u32 \<Rightarrow> eroe_power_budget \<Rightarrow> eroe \<Rightarrow> eroe" where
  "with_profile p b e = e\<lparr> e_active_profile := p, e_base_budget := b, e_workloads := no_workloads, e_num_workloads := 0,
     e_eff_budget := b \<rparr>"

definition eroe_set_profile :: "u32 \<Rightarrow> eroe \<Rightarrow> (errno + unit) \<times> eroe" where
  "eroe_set_profile p e =
    (if \<not> e_initialized e then (Inl ENODEV, e)
     else if EROE_PROFILE_CUSTOM < p then (Inl EINVAL, e)
     else (Inr (), with_profile p (preset p) e))"

text \<open>Only the budget of the configuration is used.\<close>

definition eroe_set_custom_profile :: "eroe_power_budget option \<Rightarrow> eroe \<Rightarrow> (errno + unit) \<times> eroe" where
  "eroe_set_custom_profile cfg e =
    (if \<not> e_initialized e then (Inl ENODEV, e)
     else case cfg of None \<Rightarrow> (Inl EINVAL, e)
     | Some b \<Rightarrow> (Inr (), with_profile EROE_PROFILE_CUSTOM b e))"

section \<open>Workloads\<close>

text \<open>The entry of the name, or the first free one, or -1.\<close>

fun slot_loop :: "string \<Rightarrow> workload_entry list \<Rightarrow> nat \<Rightarrow> int \<Rightarrow> int" where
  "slot_loop n [] i slot = slot"
| "slot_loop n (w # ws) i slot =
    (if w_active w \<and> w_name w = n then int i
     else slot_loop n ws (Suc i) (if \<not> w_active w \<and> slot < 0 then int i else slot))"

definition eroe_declare_workload :: "string option \<Rightarrow> u32 \<Rightarrow> u32 \<Rightarrow> eroe \<Rightarrow> (errno + unit) \<times> eroe" where
  "eroe_declare_workload name unit load e =
    (if \<not> e_initialized e then (Inl ENODEV, e)
     else case name of None \<Rightarrow> (Inl EINVAL, e)
     | Some n \<Rightarrow>
       if f32_lt load 0 \<or> f32_lt f32_one load then (Inl EINVAL, e)
       else let slot = slot_loop n (e_workloads e) 0 (-1) in
         if slot < 0 then (Inl ENOSPC, e)
         else let w = \<lparr> w_name = take 31 n, w_unit = unit, w_load = load, w_active = f32_lt 0 load \<rparr>;
                  e1 = e\<lparr> e_workloads := (e_workloads e)[nat slot := w] \<rparr> in
           (Inr (), if w_active w then e1\<lparr> e_num_workloads := length (filter w_active (e_workloads e1)) \<rparr> else e1))"

text \<open>The entries reported: \<open>None\<close> for a null array.\<close>

definition eroe_get_workloads :: "bool \<Rightarrow> nat option \<Rightarrow> eroe \<Rightarrow> errno + workload_entry list" where
  "eroe_get_workloads have_out count e =
    (if \<not> e_initialized e then Inl ENODEV
     else case count of None \<Rightarrow> Inl EINVAL
     | Some c \<Rightarrow> Inr (if have_out then take c (filter w_active (e_workloads e)) else []))"

section \<open>Loads\<close>

text \<open>Conversions to integers drop the fraction; out of range they are undefined.\<close>

definition f32_trunc :: "u32 \<Rightarrow> int option" where
  "f32_trunc x = (if f32_finite x then Some (if f32_neg_bit x then - (f32_mag x div 2 ^ 149) else f32_mag x div 2 ^ 149) else None)"

definition f32_to_u32 :: "u32 \<Rightarrow> u32 option" where
  "f32_to_u32 x = (case f32_trunc x of None \<Rightarrow> None | Some v \<Rightarrow> if v < 0 \<or> 2 ^ 32 \<le> v then None else Some (of_int v))"

definition f32_to_int :: "u32 \<Rightarrow> int option" where
  "f32_to_int x = (case f32_trunc x of None \<Rightarrow> None | Some v \<Rightarrow> if v < - (2 ^ 31) \<or> 2 ^ 31 \<le> v then None else Some v)"

definition f32_of_nat :: "nat \<Rightarrow> u32" where
  "f32_of_nat n = f32_round False (int n * 2 ^ 149) 1"

text \<open>The sums and the numbers of active workloads of the four units.\<close>

fun load_loop :: "fpu \<Rightarrow> workload_entry list \<Rightarrow> u32 list \<times> nat list \<Rightarrow> (u32 list \<times> nat list) option" where
  "load_loop fp [] lc = Some lc"
| "load_loop fp (w # ws) lc =
    (if \<not> w_active w then load_loop fp ws lc
     else if 4 \<le> w_unit w then None
     else let u = unat (w_unit w) in
       load_loop fp ws ((fst lc)[u := f32_add fp (fst lc ! u) (w_load w)], (snd lc)[u := snd lc ! u + 1]))"

definition unit_loads :: "fpu \<Rightarrow> eroe \<Rightarrow> (u32 list \<times> nat list) option" where
  "unit_loads fp e = load_loop fp (e_workloads e) (replicate 4 0, replicate 4 0)"

section \<open>Thermal model\<close>

definition heat_weights :: "u32 list" where
  "heat_weights = [0x3F800000, 0x3F59999A, 0x3F733333, 0x3EB33333]"

definition heat_step :: "fpu \<Rightarrow> u32 list \<times> nat list \<Rightarrow> nat \<Rightarrow> u32 \<Rightarrow> u32" where
  "heat_step fp lc u heat = (if snd lc ! u = 0 then heat else f32_add fp heat (f32_mul fp (fst lc ! u) (heat_weights ! u)))"

definition fan_factor :: "u32 \<Rightarrow> u32" where
  "fan_factor curve = (if curve = EROE_FAN_SILENT then 0x3E19999A else if curve = EROE_FAN_BALANCED then 0x3E99999A
     else if curve = EROE_FAN_PERFORMANCE then 0x3F000000 else if curve = EROE_FAN_AGGRESSIVE then 0x3F333333 else 0x3E99999A)"

definition thermal_update :: "fpu \<Rightarrow> eroe \<Rightarrow> eroe option" where
  "thermal_update fp e =
    Option.bind (unit_loads fp e) (\<lambda>lc.
    let heat0 = fold (heat_step fp lc) [0..<4] 0;
        heat = (if f32_lt f32_one heat0 then f32_one else heat0) in
    Option.bind (f32_to_u32 (f32_mul fp (f32_mul fp EROE_THERMAL_SCALE heat) (f32_sub fp f32_one (fan_factor (e_fan_curve_id e))))) (\<lambda>delta.
    let limit_delta = (if 0 < e_power_cap_w e \<and> e_power_cap_w e < EROE_DEFAULT_TDP then (EROE_DEFAULT_TDP - e_power_cap_w e) div 2 else 0);
        j0 = EROE_AMBIENT_C + delta;
        j = (if limit_delta < j0 then j0 - limit_delta else EROE_AMBIENT_C) in
    Some (e\<lparr> e_junction_c := j, e_hotspot_c := j + 5, e_board_c := EROE_AMBIENT_C + delta div 4 \<rparr>)))"

text \<open>Junction, hot spot, board and battery.\<close>

definition eroe_get_thermal :: "fpu \<Rightarrow> eroe \<Rightarrow> ((u32 \<times> u32 \<times> u32 \<times> u32) \<times> eroe) option" where
  "eroe_get_thermal fp e = map_option (\<lambda>e. ((e_junction_c e, e_hotspot_c e, e_board_c e, e_battery_pct e), e)) (thermal_update fp e)"

section \<open>Budget\<close>

definition avg_load :: "fpu \<Rightarrow> u32 list \<times> nat list \<Rightarrow> nat \<Rightarrow> u32" where
  "avg_load fp lc u = (if 0 < snd lc ! u then f32_div fp (fst lc ! u) (f32_of_nat (snd lc ! u)) else fst lc ! u)"

text \<open>A field of the budget: the base as an \<open>int\<close>, the demand of the unit scaled and cut, limited to 0 to 100.\<close>

definition blend :: "fpu \<Rightarrow> u32 \<Rightarrow> u32 \<Rightarrow> u32 \<Rightarrow> u32 option" where
  "blend fp base avg scale =
    Option.bind (f32_to_int (f32_mul fp avg scale)) (\<lambda>adj.
    let v = sint base + adj in
    if v < - (2 ^ 31) \<or> 2 ^ 31 \<le> v then None else Some (of_int (max 0 (min 100 v))))"

definition cap_scale :: "fpu \<Rightarrow> u32 \<Rightarrow> u32 \<Rightarrow> u32 option" where
  "cap_scale fp scale pct = f32_to_u32 (f32_mul fp (f32_of_nat (unat pct)) scale)"

definition rebalance_budget :: "fpu \<Rightarrow> eroe \<Rightarrow> eroe option" where
  "rebalance_budget fp e =
    (let base = e_base_budget e in
     if e_num_workloads e = 0 then Some (e\<lparr> e_eff_budget := base \<rparr>)
     else Option.bind (unit_loads fp e) (\<lambda>lc.
       Option.bind (blend fp (cpu_pct base) (avg_load fp lc 0) 0x42480000) (\<lambda>c.
       Option.bind (blend fp (gpu_pct base) (avg_load fp lc 1) 0x42480000) (\<lambda>g.
       Option.bind (blend fp (npu_pct base) (avg_load fp lc 2) 0x42480000) (\<lambda>n.
       Option.bind (blend fp (mem_pct base) (avg_load fp lc 3) 0x41700000) (\<lambda>m.
       if 0 < e_power_cap_w e \<and> e_power_cap_w e < EROE_DEFAULT_TDP then
         let scale = f32_div fp (f32_of_nat (unat (e_power_cap_w e))) (f32_of_nat (unat EROE_DEFAULT_TDP)) in
         Option.bind (cap_scale fp scale c) (\<lambda>c'.
         Option.bind (cap_scale fp scale g) (\<lambda>g'.
         Option.bind (cap_scale fp scale n) (\<lambda>n'.
         Option.bind (cap_scale fp scale m) (\<lambda>m'.
         Some (e\<lparr> e_eff_budget := budget_of c' g' n' m' \<rparr>)))))
       else Some (e\<lparr> e_eff_budget := budget_of c g n m \<rparr>)))))))"

definition eroe_get_budget :: "fpu \<Rightarrow> eroe \<Rightarrow> (eroe_power_budget \<times> eroe) option" where
  "eroe_get_budget fp e = map_option (\<lambda>e. (e_eff_budget e, e)) (rebalance_budget fp e)"

section \<open>Control\<close>

definition eroe_set_fan_curve :: "u32 \<Rightarrow> eroe \<Rightarrow> (errno + unit) \<times> eroe" where
  "eroe_set_fan_curve curve e =
    (if \<not> e_initialized e then (Inl ENODEV, e)
     else if EROE_FAN_AGGRESSIVE < curve then (Inl EINVAL, e)
     else (Inr (), e\<lparr> e_fan_curve_id := curve,
       e_fan_rpm := (if curve = EROE_FAN_SILENT then 800 else if curve = EROE_FAN_PERFORMANCE then 3500
         else if curve = EROE_FAN_AGGRESSIVE then 5000 else 2000) \<rparr>))"

definition eroe_set_power_cap :: "u32 \<Rightarrow> eroe \<Rightarrow> (errno + unit) \<times> eroe" where
  "eroe_set_power_cap watts e = (if \<not> e_initialized e then (Inl ENODEV, e) else (Inr (), e\<lparr> e_power_cap_w := watts \<rparr>))"

definition eroe_set_temp_limit :: "u32 \<Rightarrow> eroe \<Rightarrow> (errno + unit) \<times> eroe" where
  "eroe_set_temp_limit celsius e =
    (if \<not> e_initialized e then (Inl ENODEV, e)
     else if celsius < 60 \<or> 115 < celsius then (Inl EINVAL, e)
     else (Inr (), e\<lparr> e_temp_limit_c := celsius \<rparr>))"

end
