(* ===== verification/EroeProps.thy ===== *)
theory EroeProps
  imports Eroe Machine
begin

text \<open>
  Properties of the governor: the table of workloads is a finite map from names to loads, and the budget and the
  temperatures it computes in \<open>float\<close> arithmetic are defined and bounded after every sequence of calls.
\<close>

section \<open>The table of workloads as a map\<close>

definition named :: "string \<Rightarrow> workload_entry \<Rightarrow> bool" where
  "named n w \<longleftrightarrow> w_active w \<and> w_name w = n"

definition load_of :: "eroe \<Rightarrow> string \<rightharpoonup> u32 \<times> u32" where
  "load_of e n = map_option (\<lambda>w. (w_unit w, w_load w)) (find (named n) (e_workloads e))"

definition names_unique :: "workload_entry list \<Rightarrow> bool" where
  "names_unique ws \<longleftrightarrow> (\<forall>i j n. i < length ws \<longrightarrow> j < length ws \<longrightarrow> named n (ws ! i) \<longrightarrow> named n (ws ! j) \<longrightarrow> i = j)"

lemma find_named:
  "names_unique ws \<Longrightarrow> find (named n) ws = Some w \<longleftrightarrow> (\<exists>i < length ws. ws ! i = w \<and> named n w)"
  unfolding find_Some_iff names_unique_def by (metis order.strict_trans nat_neq_iff)

text \<open>The slot that is chosen.\<close>

lemma slot_matches: "\<exists>w \<in> set ws. named n w \<Longrightarrow> \<exists>k < length ws. slot_loop n ws i s = int (i + k) \<and> named n (ws ! k)"
proof (induction ws arbitrary: i s)
  case (Cons w ws)
  show ?case
  proof (cases "named n w")
    case True
    then show ?thesis by (intro exI [of _ 0]) (simp add: named_def)
  next
    case False
    then have "\<exists>w \<in> set ws. named n w" using Cons.prems by auto
    from Cons.IH [OF this, of "Suc i" "if \<not> w_active w \<and> s < 0 then int i else s"] obtain k where
      "k < length ws" "slot_loop n ws (Suc i) (if \<not> w_active w \<and> s < 0 then int i else s) = int (Suc i + k)" "named n (ws ! k)" by blast
    then show ?thesis using False by (intro exI [of _ "Suc k"]) (auto simp: named_def)
  qed
qed simp

lemma slot_kept: "\<forall>w \<in> set ws. \<not> named n w \<Longrightarrow> 0 \<le> s \<Longrightarrow> slot_loop n ws i s = s"
  by (induction ws arbitrary: i) (auto simp: named_def)

lemma slot_free:
  "\<forall>w \<in> set ws. \<not> named n w \<Longrightarrow> s < 0 \<Longrightarrow>
    (\<exists>k < length ws. slot_loop n ws i s = int (i + k) \<and> \<not> w_active (ws ! k)) \<or> (slot_loop n ws i s = s \<and> list_all w_active ws)"
proof (induction ws arbitrary: i)
  case (Cons w ws)
  show ?case
  proof (cases "w_active w")
    case False
    then have "slot_loop n (w # ws) i s = int i" using Cons.prems slot_kept [of ws n "int i" "Suc i"] by simp
    then show ?thesis using False by (intro disjI1 exI [of _ 0]) simp
  next
    case True
    then have "slot_loop n (w # ws) i s = slot_loop n ws (Suc i) s" using Cons.prems by (simp add: named_def)
    then show ?thesis using Cons.IH [of "Suc i"] Cons.prems True by fastforce
  qed
qed simp

text \<open>Writing the entry of a name, or a free entry when the name has none.\<close>

definition slot_for :: "string \<Rightarrow> workload_entry list \<Rightarrow> nat \<Rightarrow> bool" where
  "slot_for n ws k \<longleftrightarrow> k < length ws \<and> (named n (ws ! k) \<or> \<not> w_active (ws ! k) \<and> (\<forall>w \<in> set ws. \<not> named n w))"

lemma slot_loop_cases:
  obtains k where "slot_loop n ws 0 (-1) = int k" "slot_for n ws k"
  | "slot_loop n ws 0 (-1) = - 1" "list_all w_active ws" "\<forall>w \<in> set ws. \<not> named n w"
proof (cases "\<exists>w \<in> set ws. named n w")
  case True
  then show ?thesis using slot_matches [of ws n 0 "-1"] that(1) by (auto simp: slot_for_def)
next
  case False
  then show ?thesis using slot_free [of ws n "-1" 0] that by (auto simp: slot_for_def)
qed

lemma update_unique:
  assumes "names_unique ws" "slot_for n ws k" "w_name w = n"
  shows "names_unique (ws[k := w])"
proof -
  have "i = j" if "i < length ws" "j < length ws" "named m (ws[k := w] ! i)" "named m (ws[k := w] ! j)" for i j m
  proof (rule ccontr)
    assume ij: "i \<noteq> j"
    consider "i = k" "j \<noteq> k" | "j = k" "i \<noteq> k" | "i \<noteq> k" "j \<noteq> k" using ij by blast
    then show False
    proof cases
      case 1
      then have "named n (ws ! j)" using that assms(3) by (auto simp: named_def)
      then show False using assms(1,2) that(2) 1 by (auto simp: slot_for_def names_unique_def)
    next
      case 2
      then have "named n (ws ! i)" using that assms(3) by (auto simp: named_def)
      then show False using assms(1,2) that(1) 2 by (auto simp: slot_for_def names_unique_def)
    next
      case 3
      then show False using that assms(1) ij by (auto simp: names_unique_def)
    qed
  qed
  then show ?thesis by (simp add: names_unique_def)
qed

lemma update_find:
  assumes "names_unique ws" "slot_for n ws k" "w_name w = n"
  shows "find (named m) (ws[k := w]) = (if m = n then (if w_active w then Some w else None) else find (named m) ws)"
proof -
  have u: "names_unique (ws[k := w])" by (rule update_unique [OF assms])
  have k: "k < length ws" using assms(2) by (simp add: slot_for_def)
  have "find (named m) (ws[k := w]) = Some x \<longleftrightarrow> (if m = n then (if w_active w then Some w else None) else find (named m) ws) = Some x" for x
  proof (cases "m = n")
    case True
    have "\<not> named n (ws ! i)" if "i < length ws" "i \<noteq> k" for i
      using that assms(1,2) by (auto simp: slot_for_def names_unique_def)
    then show ?thesis unfolding find_named [OF u] using True k assms(3) by (auto simp: nth_list_update named_def)
  next
    case False
    have "named m (ws ! k) \<Longrightarrow> False" using False assms(2) by (auto simp: slot_for_def named_def)
    then have "(\<exists>i < length ws. ws[k := w] ! i = x \<and> named m x) \<longleftrightarrow> (\<exists>i < length ws. ws ! i = x \<and> named m x)"
      using False k assms(3) by (auto simp: nth_list_update named_def) metis+
    then show ?thesis unfolding find_named [OF u] using False find_named [OF assms(1), of m x] by simp
  qed
  then show ?thesis by (metis not_Some_eq)
qed

section \<open>The invariant\<close>

definition workload_ok :: "workload_entry \<Rightarrow> bool" where
  "workload_ok w \<longleftrightarrow> (w_active w \<longrightarrow> w_unit w < 4 \<and> uint (w_load w) \<le> uint f32_one \<and> length (w_name w) < 32)"

definition budget_ok :: "eroe_power_budget \<Rightarrow> bool" where
  "budget_ok b \<longleftrightarrow> cpu_pct b \<le> 100 \<and> gpu_pct b \<le> 100 \<and> npu_pct b \<le> 100 \<and> mem_pct b \<le> 100"

definition eroe_ok :: "eroe \<Rightarrow> bool" where
  "eroe_ok e \<longleftrightarrow> length (e_workloads e) = EROE_MAX_WORKLOADS \<and> names_unique (e_workloads e) \<and>
     list_all workload_ok (e_workloads e) \<and> budget_ok (e_base_budget e) \<and> budget_ok (e_eff_budget e)"

lemma one_nonneg: "nonneg f32_one" "f32_mag f32_one = 2 ^ 149"
  by (simp_all add: nonneg_def f32_one_def f32_mag_def f32_exp_def f32_frac_def)

text \<open>A load that is accepted and not zero is a pattern between 0 and 1.\<close>

lemma load_range:
  assumes "\<not> f32_lt f32_one x" "f32_lt 0 x"
  shows "uint x \<le> uint f32_one"
proof -
  have v: "0 < f32_val x" "f32_val x \<le> 2 ^ 149" "\<not> f32_is_nan x" "\<not> f32_is_nan f32_one"
    using assms one_nonneg nonneg_fields [OF one_nonneg(1)] by (auto simp: f32_lt_def f32_zero_fields)
  then have n: "\<not> f32_neg_bit x" using f32_mag_nonneg [of x] by (auto simp: f32_val_def)
  then have m: "f32_mag x \<le> 2 ^ 149" using v(2) by (simp add: f32_val_def)
  have "f32_exp x \<noteq> 255"
  proof
    assume "f32_exp x = 255"
    then have "f32_mag x = (2 ^ 23 + f32_frac x) * 2 ^ 254" by (simp add: f32_mag_def)
    also have "2 ^ 23 * 2 ^ 254 \<le> (2 ^ 23 + f32_frac x) * 2 ^ 254" using f32_frac_range [of x] by (intro mult_right_mono) simp_all
    finally show False using m by simp
  qed
  then have "nonneg x" using f32_fields [of x] f32_frac_range [of x] f32_exp_range [of x] n by (simp add: nonneg_def)
  then show ?thesis using mag_mono [of x f32_one] one_nonneg m by simp
qed

section \<open>Sums and averages of loads\<close>

text \<open>Small numbers have a pattern of their own.\<close>

lemma bitlen_shift: "0 < n \<Longrightarrow> bitlen (n * 2 ^ k) = bitlen n + k"
proof -
  assume n: "0 < n"
  note b = bitlen_bounds [OF n]
  have "bitlen (n * 2 ^ k) = Suc (bitlen n - 1 + k)"
  proof (rule bitlen_unique)
    have "2 ^ (bitlen n - 1) * 2 ^ k \<le> n * 2 ^ k" using b by simp
    then show "2 ^ (bitlen n - 1 + k) \<le> n * 2 ^ k" by (simp only: power_add)
    have "n * 2 ^ k < 2 ^ bitlen n * 2 ^ k" using b by simp
    then show "n * 2 ^ k < 2 ^ Suc (bitlen n - 1 + k)" using b by (simp add: power_add [symmetric])
  qed
  then show ?thesis using b by simp
qed

lemma of_nat_exact:
  assumes "n \<le> 128"
  shows "nonneg (f32_of_nat n) \<and> f32_mag (f32_of_nat n) = int n * 2 ^ 149"
proof (cases "n = 0")
  case True
  then show ?thesis by (simp add: f32_of_nat_def f32_round_def bitlen.simps [of 0] rne_def f32_pack_def nonneg_def f32_zero_fields Let_def)
next
  case False
  define k where "k = bitlen (int n)"
  define m where "m = int n * 2 ^ (24 - k)"
  have k: "2 ^ (k - 1) \<le> int n" "int n < 2 ^ k" "0 < k" using bitlen_bounds [of "int n"] False by (simp_all add: k_def)
  have k8: "k \<le> 8" using bitlen_le [of "int n" 8] assms by (simp add: k_def)
  have m: "2 ^ 23 \<le> m" "m < 2 ^ 24"
  proof -
    have "2 ^ (k - 1) * 2 ^ (24 - k) \<le> m" "m < 2 ^ k * 2 ^ (24 - k)" using k by (simp_all add: m_def)
    then show "2 ^ 23 \<le> m" "m < 2 ^ 24" using k(3) k8 by (simp_all add: power_add [symmetric])
  qed
  have t: "bitlen (int n * 2 ^ 149) - 24 = k + 125" using bitlen_shift [of "int n" 149] False by (simp add: k_def)
  have p: "(2 :: int) ^ 149 = 2 ^ (24 - k) * 2 ^ (k + 125)" using k8 by (simp add: power_add [symmetric])
  have r: "rne (int n * 2 ^ 149) (2 ^ (k + 125)) = m" unfolding p mult.assoc [symmetric] m_def by (rule rne_exact) simp
  have u: "uint (f32_of_nat n) = int (k + 125) * 2 ^ 23 + m"
    using k8 m unfolding f32_of_nat_def by (subst uint_round) (simp_all only: round_bits_def Let_def div_by_1 t mult_1 r, simp_all)
  have e: "f32_exp (f32_of_nat n) = int k + 126" "f32_frac (f32_of_nat n) = m - 2 ^ 23"
  proof -
    have q: "uint (f32_of_nat n) = (m - 2 ^ 23) + (int k + 126) * 2 ^ 23" unfolding u by simp
    show "f32_frac (f32_of_nat n) = m - 2 ^ 23" unfolding f32_frac_def q mod_mult_self1 by (rule mod_pos_pos_trivial) (use m in simp_all)
    have "((m - 2 ^ 23) + (int k + 126) * 2 ^ 23) div 2 ^ 23 = int k + 126"
      using m by (subst div_mult_self1) (simp_all add: div_pos_pos_trivial)
    then show "f32_exp (f32_of_nat n) = int k + 126" unfolding f32_exp_def q using k8 by simp
  qed
  have "f32_mag (f32_of_nat n) = m * 2 ^ (k + 125)" using k(3) by (simp add: f32_mag_def e nat_add_distrib nat_diff_distrib)
  then show ?thesis using u m k8 by (simp add: nonneg_def m_def mult.assoc p [symmetric])
qed

definition at_most :: "u32 \<Rightarrow> nat \<Rightarrow> bool" where
  "at_most x n \<longleftrightarrow> nonneg x \<and> f32_mag x \<le> int n * 2 ^ 149"

lemma at_most_of_nat: "n \<le> 128 \<Longrightarrow> uint x \<le> uint (f32_of_nat n) \<Longrightarrow> at_most x n"
  using of_nat_exact [of n] nonneg_le [of "f32_of_nat n" x] mag_mono [of x "f32_of_nat n"] by (simp add: at_most_def)

lemma at_most_self: "n \<le> 128 \<Longrightarrow> at_most (f32_of_nat n) n"
  using of_nat_exact [of n] by (simp add: at_most_def)

lemma at_most_mono: "at_most x n \<Longrightarrow> n \<le> m \<Longrightarrow> at_most x m"
  by (auto simp: at_most_def intro: order_trans mult_right_mono)

lemma at_most_add:
  assumes "at_most x n" "at_most y m" "n + m \<le> 128"
  shows "at_most (f32_add fp x y) (n + m)"
  using assms of_nat_exact [of "n + m"]
  by (intro at_most_of_nat add_le) (auto simp: at_most_def algebra_simps)

lemma at_most_mul:
  assumes "at_most x n" "at_most y m" "n * m \<le> 128"
  shows "at_most (f32_mul fp x y) (n * m)"
proof -
  have "f32_mag x * f32_mag y \<le> (int n * 2 ^ 149) * (int m * 2 ^ 149)"
    using assms(1,2) f32_mag_nonneg by (intro mult_mono) (auto simp: at_most_def)
  then show ?thesis using assms of_nat_exact [of "n * m"]
    by (intro at_most_of_nat mul_le) (auto simp: at_most_def algebra_simps)
qed

lemma at_most_div:
  assumes "at_most x n" "0 < n" "n \<le> 128"
  shows "at_most (f32_div fp x (f32_of_nat n)) 1"
  using assms of_nat_exact [of 1] of_nat_exact [of n]
  by (intro at_most_of_nat div_le) (auto simp: at_most_def algebra_simps)

text \<open>Cutting off the fraction.\<close>

lemma at_most_trunc: "at_most x n \<Longrightarrow> \<exists>v. f32_trunc x = Some v \<and> 0 \<le> v \<and> v \<le> int n"
  using nonneg_fields [of x] f32_mag_nonneg [of x]
  by (auto simp: at_most_def f32_trunc_def pos_imp_zdiv_nonneg_iff dest: zdiv_mono1 [of _ _ "2 ^ 149"])

lemma at_most_to_int: "at_most x n \<Longrightarrow> n \<le> 128 \<Longrightarrow> \<exists>v. f32_to_int x = Some v \<and> 0 \<le> v \<and> v \<le> int n"
  by (drule at_most_trunc) (auto simp: f32_to_int_def)

lemma at_most_to_u32: "at_most x n \<Longrightarrow> n \<le> 128 \<Longrightarrow> \<exists>v. f32_to_u32 x = Some v \<and> unat v \<le> n"
  by (drule at_most_trunc) (auto simp: f32_to_u32_def unsigned_of_int take_bit_int_eq_self nat_le_iff)

definition sums_ok :: "nat \<Rightarrow> u32 list \<times> nat list \<Rightarrow> bool" where
  "sums_ok k lc \<longleftrightarrow> length (fst lc) = 4 \<and> length (snd lc) = 4 \<and> (\<forall>u < 4. at_most (fst lc ! u) (snd lc ! u) \<and> snd lc ! u \<le> k)"

lemma load_loop_ok:
  "list_all workload_ok ws \<Longrightarrow> sums_ok k lc \<Longrightarrow> k + length ws \<le> 32 \<Longrightarrow>
    \<exists>lc'. load_loop fp ws lc = Some lc' \<and> sums_ok (k + length ws) lc'"
proof (induction ws arbitrary: k lc)
  case (Cons w ws)
  show ?case
  proof (cases "w_active w")
    case False
    then have "sums_ok (Suc k) lc" using Cons.prems(2) by (auto simp: sums_ok_def le_SucI)
    then show ?thesis using Cons.IH [of "Suc k" lc] Cons.prems False by simp
  next
    case True
    define u where "u = unat (w_unit w)"
    let ?lc = "((fst lc)[u := f32_add fp (fst lc ! u) (w_load w)], (snd lc)[u := snd lc ! u + 1])"
    have w: "u < 4" "\<not> 4 \<le> w_unit w" "at_most (w_load w) 1" using True Cons.prems(1) one_nonneg
        nonneg_le [OF one_nonneg(1), of "w_load w"] mag_mono [of "w_load w" f32_one]
      by (auto simp: workload_ok_def u_def word_less_nat_alt word_le_nat_alt at_most_def)
    have "at_most (f32_add fp (fst lc ! u) (w_load w)) (snd lc ! u + 1)"
      using Cons.prems(2,3) w by (intro at_most_add) (auto simp: sums_ok_def)
    then have "sums_ok (Suc k) ?lc" using Cons.prems(2) w(1) by (auto simp: sums_ok_def nth_list_update le_SucI)
    then show ?thesis using Cons.IH [of "Suc k" ?lc] Cons.prems True w(2) by (simp add: u_def Let_def)
  qed
qed simp

lemma at_most_zero: "at_most 0 n"
  by (simp add: at_most_def nonneg_def f32_zero_fields)

lemma unit_loads_ok: "eroe_ok e \<Longrightarrow> \<exists>lc. unit_loads fp e = Some lc \<and> sums_ok 32 lc"
  using load_loop_ok [of "e_workloads e" 0 "(replicate 4 0, replicate 4 0)" fp]
  by (simp add: unit_loads_def eroe_ok_def sums_ok_def at_most_zero)

section \<open>Outputs\<close>

lemma avg_load_ok: "sums_ok 32 lc \<Longrightarrow> u < 4 \<Longrightarrow> at_most (avg_load fp lc u) 1"
  using at_most_div [of "fst lc ! u" "snd lc ! u" fp] at_most_mono [of "fst lc ! u" 0 1]
  by (auto simp: sums_ok_def avg_load_def intro: order_trans)

lemma blend_ok:
  assumes "base \<le> 100" "at_most avg 1" "at_most scale 50"
  shows "\<exists>v. blend fp base avg scale = Some v \<and> v \<le> 100"
proof -
  obtain adj where adj: "f32_to_int (f32_mul fp avg scale) = Some adj" "0 \<le> adj" "adj \<le> 50"
    using at_most_to_int [OF at_most_mul [OF assms(2,3), of fp]] by auto
  have "unat base \<le> 100" using assms(1) by (simp add: word_le_nat_alt)
  then have "sint base = uint base" using sint_small [of base] by simp
  moreover have "uint base \<le> 100" "0 \<le> uint base" using assms(1) uint_u32_range [of base] by (simp_all add: word_le_def)
  ultimately have v: "0 \<le> sint base + adj" "sint base + adj \<le> 150" using adj by linarith+
  define w where "w = max 0 (min 100 (sint base + adj))"
  have w: "0 \<le> w" "w \<le> 100" unfolding w_def by simp_all
  have "blend fp base avg scale = Some (of_int w)"
    unfolding blend_def adj(1) bind.simps Let_def w_def [symmetric] by (rule if_not_P) (use v in simp)
  moreover have "unat (of_int w :: u32) = nat w" using w by (simp add: unsigned_of_int take_bit_int_eq_self)
  then have "(of_int w :: u32) \<le> 100" using w by (simp add: word_le_nat_alt)
  ultimately show ?thesis by blast
qed

lemma cap_scale_ok:
  assumes "pct \<le> 100" "at_most scale 1"
  shows "\<exists>v. cap_scale fp scale pct = Some v \<and> v \<le> 100"
proof -
  have "unat pct \<le> 100" using assms(1) by (simp add: word_le_nat_alt)
  then have "at_most (f32_of_nat (unat pct)) 100" using of_nat_exact [of "unat pct"] assms(1) by (simp add: at_most_def word_le_def)
  from at_most_to_u32 [OF at_most_mul [OF this assms(2), of fp]] show ?thesis by (auto simp: cap_scale_def word_le_nat_alt)
qed

lemma rebalance_ok:
  assumes "eroe_ok e"
  shows "\<exists>b. rebalance_budget fp e = Some (e\<lparr> e_eff_budget := b \<rparr>) \<and> budget_ok b"
proof (cases "e_num_workloads e = 0")
  case True
  then show ?thesis using assms by (auto simp: rebalance_budget_def eroe_ok_def Let_def)
next
  case False
  obtain lc where lc: "unit_loads fp e = Some lc" "sums_ok 32 lc" using unit_loads_ok [OF assms] by blast
  let ?b = "e_base_budget e"
  have s: "at_most 0x42480000 50" "at_most 0x41700000 50"
    by (simp_all add: at_most_def nonneg_def f32_mag_def f32_exp_def f32_frac_def)
  have base: "cpu_pct ?b \<le> 100" "gpu_pct ?b \<le> 100" "npu_pct ?b \<le> 100" "mem_pct ?b \<le> 100"
    using assms by (simp_all add: eroe_ok_def budget_ok_def)
  note avg = avg_load_ok [OF lc(2)]
  obtain c where c: "blend fp (cpu_pct ?b) (avg_load fp lc 0) 0x42480000 = Some c" "c \<le> 100"
    using blend_ok [OF base(1) avg [of 0] s(1)] by auto
  obtain g where g: "blend fp (gpu_pct ?b) (avg_load fp lc 1) 0x42480000 = Some g" "g \<le> 100"
    using blend_ok [OF base(2) avg [of 1] s(1)] by auto
  obtain n where n: "blend fp (npu_pct ?b) (avg_load fp lc 2) 0x42480000 = Some n" "n \<le> 100"
    using blend_ok [OF base(3) avg [of 2] s(1)] by auto
  obtain m where m: "blend fp (mem_pct ?b) (avg_load fp lc 3) 0x41700000 = Some m" "m \<le> 100"
    using blend_ok [OF base(4) avg [of 3] s(2)] by auto
  note r = rebalance_budget_def [of fp e, unfolded Let_def lc(1) if_not_P [OF False] bind.simps c(1) g(1) n(1) m(1)]
  show ?thesis
  proof (cases "0 < e_power_cap_w e \<and> e_power_cap_w e < EROE_DEFAULT_TDP")
    case False
    then have "rebalance_budget fp e = Some (e\<lparr> e_eff_budget := budget_of c g n m \<rparr>)" unfolding r by (rule if_not_P)
    then show ?thesis using c(2) g(2) n(2) m(2) by (auto simp: budget_ok_def budget_of_def)
  next
    case True
    let ?s = "f32_div fp (f32_of_nat (unat (e_power_cap_w e))) (f32_of_nat (unat EROE_DEFAULT_TDP))"
    have "unat (e_power_cap_w e) \<le> 65" using True by (simp add: EROE_DEFAULT_TDP_def word_less_nat_alt)
    then have "at_most (f32_of_nat (unat (e_power_cap_w e))) 65" by (intro at_most_mono [OF at_most_self]) simp_all
    from at_most_div [OF this, of fp] have "at_most ?s 1" by (simp add: EROE_DEFAULT_TDP_def)
    note k = cap_scale_ok [OF _ this, of _ fp]
    obtain c' g' n' m' where "cap_scale fp ?s c = Some c'" "c' \<le> 100" "cap_scale fp ?s g = Some g'" "g' \<le> 100"
        "cap_scale fp ?s n = Some n'" "n' \<le> 100" "cap_scale fp ?s m = Some m'" "m' \<le> 100"
      using k [OF c(2)] k [OF g(2)] k [OF n(2)] k [OF m(2)] by blast
    moreover from this have "rebalance_budget fp e = Some (e\<lparr> e_eff_budget := budget_of c' g' n' m' \<rparr>)"
      unfolding r if_P [OF True] by (simp only: bind.simps)
    ultimately show ?thesis by (auto simp: budget_ok_def budget_of_def)
  qed
qed

lemma fan_ok: "at_most (f32_sub fp f32_one (fan_factor c)) 1"
proof -
  have "at_most (f32_sub fp f32_one 0x3E19999A) 1 \<and> at_most (f32_sub fp f32_one 0x3E99999A) 1 \<and>
    at_most (f32_sub fp f32_one 0x3F000000) 1 \<and> at_most (f32_sub fp f32_one 0x3F333333) 1" by code_simp
  then show ?thesis by (simp add: fan_factor_def)
qed

lemma heat_ok:
  assumes "sums_ok 32 lc"
  shows "at_most (fold (heat_step fp lc) [0..<4] 0) 128"
proof -
  have w: "at_most (heat_weights ! u) 1" if "u < 4" for u
  proof -
    have "list_all (\<lambda>x. at_most x 1) heat_weights"
      by (simp add: heat_weights_def at_most_def nonneg_def f32_mag_def f32_exp_def f32_frac_def)
    then show ?thesis using that by (simp add: list_all_length heat_weights_def)
  qed
  have step: "at_most (heat_step fp lc u h) (n + 32)" if "u < 4" "at_most h n" "n \<le> 96" for u h n
  proof (cases "snd lc ! u = 0")
    case True
    then show ?thesis using that by (simp add: heat_step_def at_most_mono [OF that(2)])
  next
    case False
    have "at_most (fst lc ! u) 32" using assms that(1) by (auto simp: sums_ok_def intro: at_most_mono)
    from at_most_mul [OF this w [OF that(1)], of fp] have "at_most (f32_mul fp (fst lc ! u) (heat_weights ! u)) 32" by simp
    from at_most_add [OF that(2) this, of fp] show ?thesis using that(3) False by (simp add: heat_step_def)
  qed
  have l: "[0..<4] = [0, 1, 2, 3 :: nat]" by (simp add: upt_rec)
  show ?thesis unfolding l fold_simps
    using step [OF _ step [OF _ step [OF _ step [OF _ at_most_zero [of 0], of 0], of 1], of 2], of 3] by (simp add: comp_def)
qed

lemma thermal_ok:
  assumes "eroe_ok e"
  shows "\<exists>j b. thermal_update fp e = Some (e\<lparr> e_junction_c := j, e_hotspot_c := j + 5, e_board_c := b \<rparr>) \<and> 0 < j \<and> j \<le> 145 \<and> b \<le> 55"
proof -
  obtain lc where lc: "unit_loads fp e = Some lc" "sums_ok 32 lc" using unit_loads_ok [OF assms] by blast
  let ?h = "fold (heat_step fp lc) [0..<4] 0"
  define heat where "heat = (if f32_lt f32_one ?h then f32_one else ?h)"
  have "at_most heat 1"
    using heat_ok [OF lc(2), of fp] one_nonneg nonneg_fields [OF one_nonneg(1)] nonneg_fields [of ?h]
    by (auto simp: heat_def at_most_def f32_lt_def)
  moreover have "at_most EROE_THERMAL_SCALE 120"
    by (simp add: EROE_THERMAL_SCALE_def at_most_def nonneg_def f32_mag_def f32_exp_def f32_frac_def)
  ultimately have "at_most (f32_mul fp EROE_THERMAL_SCALE heat) 120" using at_most_mul [of EROE_THERMAL_SCALE 120 heat 1 fp] by simp
  from at_most_mul [OF this fan_ok [of fp "e_fan_curve_id e"], of fp]
  obtain d where d: "f32_to_u32 (f32_mul fp (f32_mul fp EROE_THERMAL_SCALE heat) (f32_sub fp f32_one (fan_factor (e_fan_curve_id e)))) = Some d"
    "unat d \<le> 120" using at_most_to_u32 by fastforce
  let ?l = "if 0 < e_power_cap_w e \<and> e_power_cap_w e < EROE_DEFAULT_TDP then (EROE_DEFAULT_TDP - e_power_cap_w e) div 2 else 0"
  let ?j = "if ?l < EROE_AMBIENT_C + d then EROE_AMBIENT_C + d - ?l else EROE_AMBIENT_C"
  have "thermal_update fp e = Some (e\<lparr> e_junction_c := ?j, e_hotspot_c := ?j + 5, e_board_c := EROE_AMBIENT_C + d div 4 \<rparr>)"
    unfolding thermal_update_def lc(1) bind.simps Let_def heat_def [symmetric] d(1) by (rule refl)
  moreover have "0 < ?j \<and> ?j \<le> 145"
  proof -
    have a: "unat (EROE_AMBIENT_C + d) = 25 + unat d" using d(2) by (simp add: EROE_AMBIENT_C_def unat_word_ariths)
    have "unat (EROE_AMBIENT_C + d - l) = unat (EROE_AMBIENT_C + d) - unat l" if "l < EROE_AMBIENT_C + d" for l
      using that by (simp add: unat_sub less_imp_le)
    then show ?thesis using d(2) a by (auto simp: word_le_nat_alt word_less_nat_alt EROE_AMBIENT_C_def)
  qed
  moreover have "EROE_AMBIENT_C + d div 4 \<le> 55"
    using d(2) by (simp add: EROE_AMBIENT_C_def word_le_nat_alt unat_word_ariths unat_div_distrib)
  ultimately show ?thesis by blast
qed

section \<open>Every sequence of calls\<close>

datatype eroe_op = Init | SetProfile u32 | SetCustom "eroe_power_budget option" | Declare "string option" u32 u32
  | SetFan u32 | SetCap u32 | SetTemp u32 | GetThermal | GetBudget

fun eroe_next :: "fpu \<Rightarrow> eroe_op \<Rightarrow> eroe \<Rightarrow> eroe" where
  "eroe_next fp Init e = eroe_init e"
| "eroe_next fp (SetProfile p) e = snd (eroe_set_profile p e)"
| "eroe_next fp (SetCustom b) e = snd (eroe_set_custom_profile b e)"
| "eroe_next fp (Declare n unit load) e = snd (eroe_declare_workload n unit load e)"
| "eroe_next fp (SetFan c) e = snd (eroe_set_fan_curve c e)"
| "eroe_next fp (SetCap w) e = snd (eroe_set_power_cap w e)"
| "eroe_next fp (SetTemp c) e = snd (eroe_set_temp_limit c e)"
| "eroe_next fp GetThermal e = (case eroe_get_thermal fp e of None \<Rightarrow> e | Some (t, e') \<Rightarrow> e')"
| "eroe_next fp GetBudget e = (case eroe_get_budget fp e of None \<Rightarrow> e | Some (b, e') \<Rightarrow> e')"

text \<open>Callers name one of the four units and give names that fit and budgets in percent.\<close>

fun eroe_safe :: "eroe_op \<Rightarrow> eroe \<Rightarrow> bool" where
  "eroe_safe (Declare (Some n) unit load) e \<longleftrightarrow> length n < 32 \<and> unit < 4"
| "eroe_safe (SetCustom (Some b)) e \<longleftrightarrow> budget_ok b"
| "eroe_safe op e \<longleftrightarrow> True"

lemma no_workloads_ok: "length no_workloads = 32" "names_unique no_workloads" "list_all workload_ok no_workloads"
  by (auto simp: no_workloads_def zero_workload_def names_unique_def named_def workload_ok_def list_all_iff)

lemma preset_ok: "p \<le> EROE_PROFILE_CUSTOM \<Longrightarrow> budget_ok (preset p)"
proof -
  have "list_all budget_ok default_budgets" by code_simp
  moreover have "length default_budgets = 7" by (simp add: default_budgets_def)
  ultimately show "budget_ok (preset p)"
    by (auto simp: preset_def list_all_length EROE_PROFILE_BATTERY_def EROE_PROFILE_CUSTOM_def word_le_nat_alt)
qed

lemma zero_eroe_ok: "eroe_ok eroe_zero"
  using no_workloads_ok by (simp add: eroe_ok_def eroe_zero_def budget_ok_def budget_of_def)

lemma profile_eroe_ok: "budget_ok b \<Longrightarrow> eroe_ok (with_profile p b e)"
  using no_workloads_ok by (simp add: eroe_ok_def with_profile_def)

text \<open>What declaring a workload does to the table.\<close>

lemma declare_cases:
  assumes "eroe_ok e" "e_initialized e" "length n < 32" "unit < 4" "\<not> f32_lt load 0" "\<not> f32_lt f32_one load"
  obtains e' where "eroe_declare_workload (Some n) unit load e = (Inr (), e')" "eroe_ok e'"
      "load_of e' = (load_of e)(n := if f32_lt 0 load then Some (unit, load) else None)"
      "load_of e n \<noteq> None \<or> \<not> list_all w_active (e_workloads e)"
  | "eroe_declare_workload (Some n) unit load e = (Inl ENOSPC, e)" "load_of e n = None" "list_all w_active (e_workloads e)"
proof (rule slot_loop_cases [of n "e_workloads e"])
  fix k assume k: "slot_loop n (e_workloads e) 0 (- 1) = int k" "slot_for n (e_workloads e) k"
  define w where "w = \<lparr> w_name = take 31 n, w_unit = unit, w_load = load, w_active = f32_lt 0 load \<rparr>"
  define e' where "e' = snd (eroe_declare_workload (Some n) unit load e)"
  have n: "w_name w = n" using assms(3) by (simp add: w_def)
  have ws: "e_workloads e' = (e_workloads e)[k := w]" "e_base_budget e' = e_base_budget e" "e_eff_budget e' = e_eff_budget e"
      "eroe_declare_workload (Some n) unit load e = (Inr (), e')"
    using assms(2,5,6) k(1) by (simp_all add: e'_def eroe_declare_workload_def w_def Let_def)
  have u: "names_unique (e_workloads e)" and l: "list_all workload_ok (e_workloads e)" using assms(1) by (simp_all add: eroe_ok_def)
  have "workload_ok w" using assms load_range [of load] by (simp add: workload_ok_def w_def)
  then have "list_all workload_ok ((e_workloads e)[k := w])" using l set_update_subset_insert by (fastforce simp: list_all_iff)
  then have "eroe_ok e'" using assms(1) ws update_unique [OF u k(2) n] by (simp add: eroe_ok_def)
  moreover have "load_of e' = (load_of e)(n := if f32_lt 0 load then Some (unit, load) else None)"
    using update_find [OF u k(2) n] by (auto simp: load_of_def ws(1) w_def)
  moreover have "load_of e n \<noteq> None \<or> \<not> list_all w_active (e_workloads e)"
    using k(2) by (auto simp: slot_for_def load_of_def find_None_iff list_all_length in_set_conv_nth)
  ultimately show ?thesis using that(1) ws(4) by blast
next
  assume "slot_loop n (e_workloads e) 0 (- 1) = - 1" "list_all w_active (e_workloads e)" "\<forall>w \<in> set (e_workloads e). \<not> named n w"
  then show ?thesis using assms that(2) by (auto simp: eroe_declare_workload_def Let_def load_of_def find_None_iff)
qed

lemma declare_eroe_ok:
  assumes "eroe_ok e" "length n < 32" "unit < 4"
  shows "eroe_ok (snd (eroe_declare_workload (Some n) unit load e))"
proof (cases "e_initialized e \<and> \<not> f32_lt load 0 \<and> \<not> f32_lt f32_one load")
  case True
  then show ?thesis using declare_cases [OF assms(1) _ assms(2,3), of load] assms(1) by (metis snd_conv)
qed (use assms(1) in \<open>auto simp: eroe_declare_workload_def\<close>)

interpretation governor: op_machine "eroe_next fp" eroe_safe eroe_ok eroe_zero for fp
proof
  show "eroe_ok eroe_zero" by (rule zero_eroe_ok)
next
  fix e c assume "eroe_ok e" "eroe_safe c e"
  then show "eroe_ok (eroe_next fp c e)"
  proof (cases c)
    case Init
    then show ?thesis using zero_eroe_ok preset_ok [of EROE_PROFILE_IDLE]
      by (simp add: eroe_init_def eroe_ok_def EROE_PROFILE_IDLE_def EROE_PROFILE_CUSTOM_def)
  next
    case (Declare n unit load)
    then show ?thesis using \<open>eroe_ok e\<close> \<open>eroe_safe c e\<close> declare_eroe_ok
      by (cases n) (auto simp: eroe_declare_workload_def)
  next
    case GetThermal
    then show ?thesis using thermal_ok [OF \<open>eroe_ok e\<close>, of fp] \<open>eroe_ok e\<close> by (auto simp: eroe_get_thermal_def eroe_ok_def)
  next
    case GetBudget
    then show ?thesis using rebalance_ok [OF \<open>eroe_ok e\<close>, of fp] \<open>eroe_ok e\<close> by (auto simp: eroe_get_budget_def eroe_ok_def)
  qed (auto simp: eroe_set_profile_def eroe_set_custom_profile_def eroe_set_fan_curve_def eroe_set_power_cap_def eroe_set_temp_limit_def
      eroe_ok_def [of "e\<lparr> e_fan_curve_id := _, e_fan_rpm := _ \<rparr>"] eroe_ok_def [of "e\<lparr> e_power_cap_w := _ \<rparr>"]
      eroe_ok_def [of "e\<lparr> e_temp_limit_c := _ \<rparr>"] eroe_ok_def [of e] not_less
      intro!: profile_eroe_ok preset_ok split: option.splits)
qed

lemma table_full:
  assumes "eroe_ok e"
  shows "card (dom (load_of e)) = 32 \<longleftrightarrow> list_all w_active (e_workloads e)"
proof -
  let ?ws = "e_workloads e" and ?names = "map w_name (filter w_active (e_workloads e))"
  have d: "dom (load_of e) = set ?names" by (auto simp: load_of_def dom_def find_Some_iff find_None_iff named_def) 
  have len: "length ?ws = 32" and u: "names_unique ?ws" using assms by (simp_all add: eroe_ok_def)
  show ?thesis
  proof (cases "list_all w_active ?ws")
    case True
    then have "\<And>i. i < 32 \<Longrightarrow> named (w_name (?ws ! i)) (?ws ! i)" using len by (simp add: named_def list_all_length)
    then have "distinct (map w_name ?ws)" using u len by (auto simp: distinct_conv_nth names_unique_def named_def)
    moreover have "filter w_active ?ws = ?ws" using True by (simp add: list_all_iff)
    ultimately show ?thesis using True len distinct_card [of "map w_name ?ws"] unfolding d by simp
  next
    case False
    then have "length (filter w_active ?ws) < 32" using len by (metis length_filter_less list_all_iff)
    moreover have "card (dom (load_of e)) \<le> length ?names" unfolding d by (rule card_length)
    ultimately show ?thesis using False by simp
  qed
qed

text \<open>C25: After any sequence of calls, declaring a workload under a name of at most 31 characters, with a valid unit and a load
  between zero and one, either makes the table the same map with the name bound to its
  unit and load, or unbound when the load is zero; or it reports that the table is full, which is so exactly when 32 other names are in use, and
  changes nothing.\<close>

theorem declare_refines_map:
  assumes "governor.run_safe fp ops eroe_zero" and "e = governor.run fp ops eroe_zero" and "e_initialized e"
    and "length n < 32" "unit < 4" "\<not> f32_lt load 0" "\<not> f32_lt f32_one load"
  shows "if load_of e n = None \<and> card (dom (load_of e)) = 32 then eroe_declare_workload (Some n) unit load e = (Inl ENOSPC, e)
    else \<exists>e'. eroe_declare_workload (Some n) unit load e = (Inr (), e') \<and>
      load_of e' = (load_of e)(n := if f32_lt 0 load then Some (unit, load) else None)"
proof -
  have ok: "eroe_ok e" unfolding assms(2) by (rule governor.run_inv [OF governor.init_inv assms(1)])
  show ?thesis using declare_cases [OF ok assms(3-7)] table_full [OF ok] by metis
qed

lemma declare_refines_map_witness:
  "\<exists>e e'. e = governor.run sample_fpu [Init, Declare (Some ''game'') 1 0x3F000000] eroe_zero \<and>
     eroe_declare_workload (Some ''game'') 2 0x3F800000 e = (Inr (), e') \<and> load_of e' ''game'' = Some (2, 0x3F800000)"
proof -
  let ?ops = "[Init, Declare (Some ''game'') 1 0x3F000000]"
  define e where "e = snd (eroe_declare_workload (Some ''game'') 1 0x3F000000 (eroe_init eroe_zero))"
  have r: "governor.run_safe sample_fpu ?ops eroe_zero" "e = governor.run sample_fpu ?ops eroe_zero" by (simp_all add: e_def)
  have f: "\<not> f32_lt 0x3F800000 0" "\<not> f32_lt f32_one 0x3F800000" "f32_lt 0 0x3F800000"
    by (simp_all add: f32_lt_def f32_val_def f32_mag_def f32_neg_bit_def f32_exp_def f32_frac_def f32_is_nan_def f32_one_def)
  have e: "e_initialized e" "load_of e ''game'' \<noteq> None" unfolding e_def by code_simp+
  show ?thesis using declare_refines_map [OF r e(1), of "''game''" 2 "0x3F800000"] f e(2) r(2) by auto
qed

text \<open>C22: After any sequence of calls with budgets in percent and one of the four units, the budget and the temperatures are defined;
  every field of the budget is at most 100 and the junction is between 1 and 145 degrees, the hot spot 5 degrees above it.\<close>

theorem eroe_outputs_bounded:
  assumes "governor.run_safe fp ops eroe_zero" and "e = governor.run fp ops eroe_zero"
  shows "(\<exists>b e'. eroe_get_budget fp e = Some (b, e') \<and> cpu_pct b \<le> 100 \<and> gpu_pct b \<le> 100 \<and> npu_pct b \<le> 100 \<and> mem_pct b \<le> 100) \<and>
    (\<exists>j board e'. eroe_get_thermal fp e = Some ((j, j + 5, board, e_battery_pct e), e') \<and> 0 < j \<and> j \<le> 145 \<and> board \<le> 55)"
proof -
  have ok: "eroe_ok e" unfolding assms(2) by (rule governor.run_inv [OF governor.init_inv assms(1)])
  show ?thesis using rebalance_ok [OF ok, of fp] thermal_ok [OF ok, of fp]
    by (auto simp: eroe_get_budget_def eroe_get_thermal_def budget_ok_def)
qed

lemma eroe_outputs_bounded_witness:
  "\<exists>b e'. eroe_get_budget sample_fpu (governor.run sample_fpu [Init, Declare (Some ''game'') 1 0x3F000000, SetCap 20] eroe_zero) = Some (b, e') \<and>
     gpu_pct b \<le> 100"
  using eroe_outputs_bounded [of sample_fpu "[Init, Declare (Some ''game'') 1 0x3F000000, SetCap 20]", OF _ refl] by simp blast

section \<open>Limits that are not enforced\<close>

text \<open>Without a workload the power cap changes nothing; with a low cap and a light load the junction is colder than its
  surroundings; and a workload with a name of 32 characters or more is declared again and again.\<close>

lemma power_cap_ignored: "e_num_workloads e = 0 \<Longrightarrow> eroe_get_budget fp e = Some (e_base_budget e, e\<lparr> e_eff_budget := e_base_budget e \<rparr>)"
  by (simp add: eroe_get_budget_def rebalance_budget_def)

lemma junction_below_ambient:
  "map_option fst (eroe_get_thermal fp (snd (eroe_set_power_cap 20 (eroe_init eroe_zero)))) = Some (3, 8, 25, 85)"
  by code_simp

lemma long_names_repeat:
  assumes "32 \<le> length n"
  shows "slot_loop n (\<lparr> w_name = take 31 n, w_unit = 0, w_load = 0x3F800000, w_active = True \<rparr> # replicate 31 zero_workload) 0 (-1) = 1"
proof -
  have "length (take 31 n) \<noteq> length n" using assms by simp
  then have "take 31 n \<noteq> n" by metis
  moreover have "\<forall>w \<in> set (replicate 30 zero_workload). \<not> named n w" by (simp add: named_def zero_workload_def)
  moreover have "replicate 31 zero_workload = zero_workload # replicate 30 zero_workload" by (simp flip: replicate_Suc)
  ultimately show ?thesis using slot_kept [of "replicate 30 zero_workload" n 1 2]
    by (simp add: zero_workload_def numeral_2_eq_2)
qed

end
