(* ===== verification/Mmio.thy ===== *)
theory Mmio
  imports Prelude
begin

text \<open>
  The drivers of the simple devices: \<open>drivers/gpio.c\<close>, \<open>drivers/uart.c\<close>, \<open>drivers/timer.c\<close> and \<open>drivers/wdt.c\<close>. The hardware is
  not part of the repository: it is a parameter, the functions that read and write the registers at an address, on a state of any
  type that a read may change as well. A driver is a function from this state to its result and the next state.
\<close>

section \<open>The bus\<close>

record 'd bus =
  rd8 :: "u64 \<Rightarrow> 'd \<Rightarrow> u8 \<times> 'd"
  rd32 :: "u64 \<Rightarrow> 'd \<Rightarrow> u32 \<times> 'd"
  wr8 :: "u64 \<Rightarrow> u8 \<Rightarrow> 'd \<Rightarrow> 'd"
  wr16 :: "u64 \<Rightarrow> 16 word \<Rightarrow> 'd \<Rightarrow> 'd"
  wr32 :: "u64 \<Rightarrow> u32 \<Rightarrow> 'd \<Rightarrow> 'd"

text \<open>Reads until the value is accepted, \<open>n\<close> times at most: how many reads were left, or \<open>None\<close>.\<close>

fun poll :: "('d \<Rightarrow> 'a \<times> 'd) \<Rightarrow> ('a \<Rightarrow> bool) \<Rightarrow> nat \<Rightarrow> 'd \<Rightarrow> nat option \<times> 'd" where
  "poll rd ok n d =
    (if n = 0 then (None, d)
     else let (x, d1) = rd d in if ok x then (Some (n - 1), d1) else poll rd ok (n - 1) d1)"

declare poll.simps [simp del]

text \<open>A read, a change of one bit, a write.\<close>

definition put_bit :: "nat \<Rightarrow> bool \<Rightarrow> u32 \<Rightarrow> u32" where
  "put_bit n b x = (if b then x OR push_bit n 1 else x AND NOT (push_bit n 1))"

definition change_bit :: "'d bus \<Rightarrow> u64 \<Rightarrow> nat \<Rightarrow> bool \<Rightarrow> 'd \<Rightarrow> 'd" where
  "change_bit bus a n b d = (let (x, d1) = rd32 bus a d in wr32 bus a (put_bit n b x) d1)"

section \<open>GPIO\<close>

definition GPIO_DATA :: u64 where "GPIO_DATA = 0x10040000"
definition GPIO_DIR :: u64 where "GPIO_DIR = 0x10040004"
definition GPIO_PULL :: u64 where "GPIO_PULL = 0x10040008"
definition GPIO_IRQ_EN :: u64 where "GPIO_IRQ_EN = 0x1004000C"
definition GPIO_IRQ_STAT :: u64 where "GPIO_IRQ_STAT = 0x10040010"

definition gpio_init :: "'d bus \<Rightarrow> 'd \<Rightarrow> int \<times> 'd" where
  "gpio_init bus d = (0, wr32 bus GPIO_IRQ_EN 0 (wr32 bus GPIO_PULL 0 (wr32 bus GPIO_DIR 0 d)))"

definition gpio_set_direction :: "'d bus \<Rightarrow> int \<Rightarrow> int \<Rightarrow> 'd \<Rightarrow> int \<times> 'd" where
  "gpio_set_direction bus pin output d =
    (if pin < 0 \<or> 31 < pin then (-1, d) else (0, change_bit bus GPIO_DIR (nat pin) (output \<noteq> 0) d))"

definition gpio_write :: "'d bus \<Rightarrow> int \<Rightarrow> int \<Rightarrow> 'd \<Rightarrow> int \<times> 'd" where
  "gpio_write bus pin val d =
    (if pin < 0 \<or> 31 < pin then (-1, d) else (0, change_bit bus GPIO_DATA (nat pin) (val \<noteq> 0) d))"

definition gpio_read :: "'d bus \<Rightarrow> int \<Rightarrow> 'd \<Rightarrow> int \<times> 'd" where
  "gpio_read bus pin d =
    (if pin < 0 \<or> 31 < pin then (-1, d)
     else let (x, d1) = rd32 bus GPIO_DATA d in (uint (drop_bit (nat pin) x AND 1), d1))"

definition gpio_set_pull :: "'d bus \<Rightarrow> int \<Rightarrow> int \<Rightarrow> 'd \<Rightarrow> int \<times> 'd" where
  "gpio_set_pull bus pin enable d =
    (if pin < 0 \<or> 31 < pin then (-1, d) else (0, change_bit bus GPIO_PULL (nat pin) (enable \<noteq> 0) d))"

definition gpio_enable_irq :: "'d bus \<Rightarrow> int \<Rightarrow> 'd \<Rightarrow> int \<times> 'd" where
  "gpio_enable_irq bus pin d = (if pin < 0 \<or> 31 < pin then (-1, d) else (0, change_bit bus GPIO_IRQ_EN (nat pin) True d))"

definition gpio_disable_irq :: "'d bus \<Rightarrow> int \<Rightarrow> 'd \<Rightarrow> int \<times> 'd" where
  "gpio_disable_irq bus pin d = (if pin < 0 \<or> 31 < pin then (-1, d) else (0, change_bit bus GPIO_IRQ_EN (nat pin) False d))"

definition gpio_get_irq_status :: "'d bus \<Rightarrow> 'd \<Rightarrow> int \<times> 'd" where
  "gpio_get_irq_status bus d = (let (x, d1) = rd32 bus GPIO_IRQ_STAT d in (sint x, d1))"

section \<open>Watchdog\<close>

definition WDT_CTRL :: u64 where "WDT_CTRL = 0x10050000"
definition WDT_TIMEOUT :: u64 where "WDT_TIMEOUT = 0x10050004"
definition WDT_RESTART :: u64 where "WDT_RESTART = 0x10050008"
definition WDT_STATUS :: u64 where "WDT_STATUS = 0x1005000C"

definition wdt_init :: "'d bus \<Rightarrow> u32 \<Rightarrow> bool \<Rightarrow> 'd \<Rightarrow> int \<times> 'd" where
  "wdt_init bus timeout_cycles enable_reset d =
    (let d1 = wr32 bus WDT_TIMEOUT timeout_cycles d;
         ctrl = (if enable_reset then 1 OR 2 else 1) OR 4 in
     (0, wr8 bus WDT_RESTART 0x5A (wr8 bus WDT_CTRL ctrl d1)))"

definition wdt_pet :: "'d bus \<Rightarrow> 'd \<Rightarrow> int \<times> 'd" where
  "wdt_pet bus d = (let (status, d1) = rd8 bus WDT_STATUS (wr8 bus WDT_RESTART 0x5A d) in (if status AND 1 \<noteq> 0 then -1 else 0, d1))"

definition wdt_disable :: "'d bus \<Rightarrow> 'd \<Rightarrow> int \<times> 'd" where
  "wdt_disable bus d = (0, wr8 bus WDT_CTRL 0 d)"

definition wdt_has_expired :: "'d bus \<Rightarrow> 'd \<Rightarrow> int \<times> 'd" where
  "wdt_has_expired bus d = (let (status, d1) = rd8 bus WDT_STATUS d in (if status AND 1 \<noteq> 0 then 1 else 0, d1))"

section \<open>Timer\<close>

definition TIMER_FREQ :: u64 where "TIMER_FREQ = 0x10020000"
definition TIMER_CNT_LO :: u64 where "TIMER_CNT_LO = 0x10020004"
definition TIMER_CNT_HI :: u64 where "TIMER_CNT_HI = 0x10020008"
definition TIMER_CMP0 :: u64 where "TIMER_CMP0 = 0x10020010"
definition TIMER_CTRL :: u64 where "TIMER_CTRL = 0x10020020"

text \<open>The frequency that \<open>timer_init\<close> stores in \<open>tmr_freq_hz\<close>.\<close>

definition timer_init :: "'d bus \<Rightarrow> 'd \<Rightarrow> (int \<times> u32) \<times> 'd" where
  "timer_init bus d =
    (let (f, d1) = rd32 bus TIMER_FREQ d; freq = (if f = 0 then 50000000 else f) in ((0, freq), wr32 bus TIMER_CTRL 1 d1))"

text \<open>The two halves are not read at once: the low half is read again to see whether it wrapped.\<close>

definition timer_get_cycles :: "'d bus \<Rightarrow> 'd \<Rightarrow> u64 \<times> 'd" where
  "timer_get_cycles bus d =
    (let (lo, d1) = rd32 bus TIMER_CNT_LO d; (hi, d2) = rd32 bus TIMER_CNT_HI d1; (lo', d3) = rd32 bus TIMER_CNT_LO d2 in
     if lo' < lo then
       let (hi', d4) = rd32 bus TIMER_CNT_HI d3; (lo'', d5) = rd32 bus TIMER_CNT_LO d4 in
       (push_bit 32 (ucast hi') OR ucast lo'', d5)
     else (push_bit 32 (ucast hi) OR ucast lo, d3))"

text \<open>A frequency below 1 MHz divides by zero.\<close>

definition timer_get_us :: "'d bus \<Rightarrow> u32 \<Rightarrow> 'd \<Rightarrow> (u64 \<times> 'd) option" where
  "timer_get_us bus freq d =
    (let (c, d1) = timer_get_cycles bus d; per_us = ucast freq div 1000000 in
     if per_us = 0 then None else Some (c div per_us, d1))"

definition timer_set_compare :: "'d bus \<Rightarrow> int \<Rightarrow> u64 \<Rightarrow> 'd \<Rightarrow> int \<times> 'd" where
  "timer_set_compare bus cmp_id v d =
    (if cmp_id < 0 \<or> 3 < cmp_id then (-1, d) else (0, wr32 bus (TIMER_CMP0 + 4 * of_int cmp_id) (ucast v) d))"

definition timer_enable_irq :: "'d bus \<Rightarrow> int \<Rightarrow> 'd \<Rightarrow> int \<times> 'd" where
  "timer_enable_irq bus cmp_id d =
    (if cmp_id < 0 \<or> 3 < cmp_id then (-1, d) else (0, change_bit bus TIMER_CTRL (nat (4 + cmp_id)) True d))"

definition timer_disable_irq :: "'d bus \<Rightarrow> int \<Rightarrow> 'd \<Rightarrow> int \<times> 'd" where
  "timer_disable_irq bus cmp_id d =
    (if cmp_id < 0 \<or> 3 < cmp_id then (-1, d) else (0, change_bit bus TIMER_CTRL (nat (4 + cmp_id)) False d))"

text \<open>Waits without a limit: \<open>None\<close> is that it does not return.\<close>

partial_function (option) wait_until :: "'d bus \<Rightarrow> u64 \<Rightarrow> 'd \<Rightarrow> 'd option" where
  "wait_until bus target d = (let (c, d1) = timer_get_cycles bus d in if c < target then wait_until bus target d1 else Some d1)"

definition timer_delay_us :: "'d bus \<Rightarrow> u32 \<Rightarrow> u64 \<Rightarrow> 'd \<Rightarrow> 'd option" where
  "timer_delay_us bus freq us d =
    (let (start, d1) = timer_get_cycles bus d in wait_until bus (start + us * (ucast freq div 1000000)) d1)"

section \<open>UART\<close>

definition UART_DATA :: u64 where "UART_DATA = 0x10030000"
definition UART_STATUS :: u64 where "UART_STATUS = 0x10030004"
definition UART_CTRL :: u64 where "UART_CTRL = 0x10030008"
definition UART_DIV :: u64 where "UART_DIV = 0x1003000C"

definition uart_divisor :: "u32 \<Rightarrow> 16 word" where
  "uart_divisor baud0 =
    (let baud = (if baud0 = 0 then 115200 else baud0); div32 = (ucast ((50000000 :: u64) div (ucast baud * 16) - 1) :: u32) in
     if 0xFFFF < div32 then 0xFFFF else ucast div32)"

definition uart_init :: "'d bus \<Rightarrow> u32 \<Rightarrow> 'd \<Rightarrow> int \<times> 'd" where
  "uart_init bus baud d = (0, wr8 bus UART_CTRL 1 (wr16 bus UART_DIV (uart_divisor baud) d))"

definition tx_wait :: "'d bus \<Rightarrow> 'd \<Rightarrow> nat option \<times> 'd" where
  "tx_wait bus = poll (rd8 bus UART_STATUS) (\<lambda>s. s AND 1 \<noteq> 0) 1000000"

definition send_byte :: "'d bus \<Rightarrow> u8 \<Rightarrow> 'd \<Rightarrow> bool \<times> 'd" where
  "send_byte bus b d = (case tx_wait bus d of (None, d1) \<Rightarrow> (False, d1) | (Some r, d1) \<Rightarrow> (True, wr8 bus UART_DATA b d1))"

definition uart_putc :: "'d bus \<Rightarrow> char \<Rightarrow> 'd \<Rightarrow> int \<times> 'd" where
  "uart_putc bus c d =
    (case send_byte bus (of_char c) d of
       (False, d1) \<Rightarrow> (-1, d1)
     | (True, d1) \<Rightarrow>
       if c = CHR 0x0A then (case send_byte bus 0x0D d1 of (ok, d2) \<Rightarrow> (if ok then 0 else -1, d2)) else (0, d1))"

definition uart_getc :: "'d bus \<Rightarrow> 'd \<Rightarrow> int \<times> 'd" where
  "uart_getc bus d =
    (case poll (rd8 bus UART_STATUS) (\<lambda>s. s AND 2 \<noteq> 0) 1000000 d of
       (None, d1) \<Rightarrow> (-1, d1)
     | (Some r, d1) \<Rightarrow> (let (b, d2) = rd8 bus UART_DATA d1 in (uint b, d2)))"

fun uart_puts :: "'d bus \<Rightarrow> string \<Rightarrow> 'd \<Rightarrow> int \<times> 'd" where
  "uart_puts bus [] d = (0, d)"
| "uart_puts bus (c # s) d = (case uart_putc bus c d of (r, d1) \<Rightarrow> if r \<noteq> 0 then (-1, d1) else uart_puts bus s d1)"

text \<open>The buffer is filled from its end.\<close>

fun hex_loop :: "nat \<Rightarrow> u32 \<Rightarrow> string \<Rightarrow> string" where
  "hex_loop 0 v buf = buf"
| "hex_loop (Suc n) v buf = hex_loop n (drop_bit 4 v) (''0123456789ABCDEF'' ! unat (v AND 0xF) # buf)"

definition uart_puthex :: "'d bus \<Rightarrow> u32 \<Rightarrow> 'd \<Rightarrow> int \<times> 'd" where
  "uart_puthex bus val d = uart_puts bus (CHR ''0'' # CHR ''x'' # hex_loop 8 val []) d"

text \<open>At most 11 digits are stored.\<close>

fun dec_loop :: "nat \<Rightarrow> u32 \<Rightarrow> string \<Rightarrow> string" where
  "dec_loop 0 v buf = buf"
| "dec_loop (Suc i) v buf = (if v = 0 then buf else dec_loop i (v div 10) (char_of (48 + unat (v mod 10)) # buf))"

definition uart_putdec :: "'d bus \<Rightarrow> u32 \<Rightarrow> 'd \<Rightarrow> int \<times> 'd" where
  "uart_putdec bus val d = (if val = 0 then uart_puts bus ''0'' d else uart_puts bus (dec_loop 11 val []) d)"

definition uart_rx_ready :: "'d bus \<Rightarrow> 'd \<Rightarrow> int \<times> 'd" where
  "uart_rx_ready bus d = (let (status, d1) = rd8 bus UART_STATUS d in (if status AND 2 \<noteq> 0 then 1 else 0, d1))"

end
