(* ===== verification/BradXonc.thy ===== *)
theory BradXonc
  imports Mmio
begin

text \<open>
  The drivers of the interrupt controller, the power management unit and the clock and reset unit, \<open>drivers/bradxonc.c\<close>, over the
  bus of the simple devices. A shift of \<open>1U\<close> by a negative count or by more than 31 is undefined (\<open>None\<close>); clock and reset
  domains are the values of their enumerations. \<open>~(0xFF << (domain * 4))\<close> is an \<open>int\<close> expression and is taken as the bits that
  compilers give it.
\<close>

section \<open>Interrupt controller\<close>

definition XIC_BASE :: u64 where "XIC_BASE = 0x10010000"

abbreviation xic_reg :: "u64 \<Rightarrow> u64" where "xic_reg off \<equiv> XIC_BASE + off"

definition xic_init :: "'d bus \<Rightarrow> 'd \<Rightarrow> int \<times> 'd" where
  "xic_init bus d =
    (let (cfg, d1) = rd32 bus (xic_reg 0) d;
         d2 = wr32 bus (xic_reg 0) (cfg OR 1) d1;
         d3 = wr32 bus (xic_reg 8) 0x1F (wr32 bus (xic_reg 0x20) 0 d2);
         (cfg', d4) = rd32 bus (xic_reg 0) d3 in
     (if cfg' AND 1 \<noteq> 0 then 0 else -1, d4))"

definition xic_enable_irq :: "'d bus \<Rightarrow> int \<Rightarrow> u32 \<Rightarrow> 'd \<Rightarrow> int \<times> 'd" where
  "xic_enable_irq bus irq priority d =
    (if irq < 0 \<or> 31 < irq then (-1, d)
     else (0, wr32 bus (xic_reg 0x10) (push_bit (nat irq) 1) (wr32 bus (xic_reg (0x100 + of_int irq * 4)) (priority AND 7 OR push_bit 3 1) d)))"

definition xic_disable_irq :: "'d bus \<Rightarrow> int \<Rightarrow> 'd \<Rightarrow> int \<times> 'd" where
  "xic_disable_irq bus irq d = (if irq < 0 \<or> 31 < irq then (-1, d) else (0, wr32 bus (xic_reg 0x14) (push_bit (nat irq) 1) d))"

definition xic_set_priority_threshold :: "'d bus \<Rightarrow> u32 \<Rightarrow> 'd \<Rightarrow> int \<times> 'd" where
  "xic_set_priority_threshold bus threshold d = (0, wr32 bus (xic_reg 0x20) (threshold AND 7) d)"

definition xic_get_pending :: "'d bus \<Rightarrow> 'd \<Rightarrow> u32 \<times> 'd" where
  "xic_get_pending bus d = rd32 bus (xic_reg 4) d"

definition xic_send_soft_irq :: "'d bus \<Rightarrow> u32 \<Rightarrow> u32 \<Rightarrow> 'd \<Rightarrow> 'd" where
  "xic_send_soft_irq bus target irq d = wr32 bus (xic_reg 0x300) (target AND 0xF OR push_bit 8 (irq AND 0x1F)) d"

definition xic_ack_irq :: "'d bus \<Rightarrow> int \<Rightarrow> 'd \<Rightarrow> int \<times> 'd" where
  "xic_ack_irq bus irq d =
    (if irq < 0 \<or> 31 < irq then (-1, d) else (0, wr32 bus (xic_reg (0x100 + of_int irq * 4)) (push_bit 4 1) d))"

section \<open>Power management\<close>

definition PMU_BASE :: u64 where "PMU_BASE = 0x100A0000"

abbreviation pmu_reg :: "u64 \<Rightarrow> u64" where "pmu_reg off \<equiv> PMU_BASE + off"

datatype cpu_cstate = CSTATE_C0 | CSTATE_C1 | CSTATE_C2 | CSTATE_C3 | CSTATE_C4

primrec cstate_num :: "cpu_cstate \<Rightarrow> u32" where
  "cstate_num CSTATE_C0 = 0"
| "cstate_num CSTATE_C1 = 1"
| "cstate_num CSTATE_C2 = 2"
| "cstate_num CSTATE_C3 = 3"
| "cstate_num CSTATE_C4 = 4"

definition pmu_init :: "'d bus \<Rightarrow> 'd \<Rightarrow> int \<times> 'd" where
  "pmu_init bus d = (0, wr32 bus (pmu_reg 0x30) 250000 (wr32 bus (pmu_reg 8) (cstate_num CSTATE_C0) d))"

definition pmu_set_cstate :: "'d bus \<Rightarrow> cpu_cstate \<Rightarrow> 'd \<Rightarrow> int \<times> 'd" where
  "pmu_set_cstate bus state d =
    (case poll (rd32 bus (pmu_reg 4)) (\<lambda>s. s AND 7 = cstate_num state) 1000000 (wr32 bus (pmu_reg 8) (cstate_num state) d) of
       (None, d1) \<Rightarrow> (-1, d1) | (Some r, d1) \<Rightarrow> (0, d1))"

definition pmu_set_pstate :: "'d bus \<Rightarrow> u32 \<Rightarrow> u32 \<Rightarrow> 'd \<Rightarrow> int \<times> 'd" where
  "pmu_set_pstate bus domain idx d = (0, wr32 bus (pmu_reg 0x10) (domain AND 0xF OR push_bit 4 (idx AND 7)) d)"

text \<open>A value is set when it reads back within a twentieth.\<close>

definition set_near :: "'d bus \<Rightarrow> u64 \<Rightarrow> u32 \<Rightarrow> u32 \<Rightarrow> 'd \<Rightarrow> int \<times> 'd" where
  "set_near bus a part v d =
    (let (rb, d1) = rd32 bus a (wr32 bus a v d) in
     (if rb < v - v div part \<or> v + v div part < rb then -1 else 0, d1))"

definition pmu_set_voltage :: "'d bus \<Rightarrow> u32 \<Rightarrow> 'd \<Rightarrow> int \<times> 'd" where
  "pmu_set_voltage bus mv d = set_near bus (pmu_reg 0x14) 20 mv d"

definition pmu_set_freq :: "'d bus \<Rightarrow> u32 \<Rightarrow> 'd \<Rightarrow> int \<times> 'd" where
  "pmu_set_freq bus mhz d = set_near bus (pmu_reg 0x18) 20 mhz d"

definition pmu_set_power_cap :: "'d bus \<Rightarrow> u32 \<Rightarrow> 'd \<Rightarrow> int \<times> 'd" where
  "pmu_set_power_cap bus mw d =
    (let (rb, d1) = rd32 bus (pmu_reg 0x30) (wr32 bus (pmu_reg 0x30) mw d) in (if rb = mw then 0 else -1, d1))"

definition pmu_set_temp_limit :: "'d bus \<Rightarrow> u32 \<Rightarrow> 'd \<Rightarrow> int \<times> 'd" where
  "pmu_set_temp_limit bus celsius d = (0, wr32 bus (pmu_reg 0x34) celsius d)"

definition pmu_set_temp_halt :: "'d bus \<Rightarrow> u32 \<Rightarrow> 'd \<Rightarrow> int \<times> 'd" where
  "pmu_set_temp_halt bus celsius d = (0, wr32 bus (pmu_reg 0x38) celsius d)"

definition pmu_read_temp :: "'d bus \<Rightarrow> 'd \<Rightarrow> u32 \<times> 'd" where
  "pmu_read_temp bus d = rd32 bus (pmu_reg 0x20) d"

definition read_pair :: "'d bus \<Rightarrow> u64 \<Rightarrow> 'd \<Rightarrow> u64 \<times> 'd" where
  "read_pair bus a d =
    (let (lo, d1) = rd32 bus a d; (hi, d2) = rd32 bus (a + 4) d1 in (push_bit 32 (ucast hi) OR ucast lo, d2))"

definition pmu_read_energy :: "'d bus \<Rightarrow> 'd \<Rightarrow> u64 \<times> 'd" where
  "pmu_read_energy bus d = read_pair bus (pmu_reg 0x28) d"

definition pmu_read_power :: "'d bus \<Rightarrow> 'd \<Rightarrow> u32 \<times> 'd" where
  "pmu_read_power bus d = rd32 bus (pmu_reg 0x24) d"

definition shift_ok :: "int \<Rightarrow> bool" where
  "shift_ok n \<longleftrightarrow> 0 \<le> n \<and> n < 32"

definition pmu_gate_clock :: "'d bus \<Rightarrow> int \<Rightarrow> int \<Rightarrow> 'd \<Rightarrow> (int \<times> 'd) option" where
  "pmu_gate_clock bus domain gate d =
    (if shift_ok domain then Some (0, change_bit bus (pmu_reg 0x44) (nat domain) (gate \<noteq> 0) d) else None)"

definition pmu_power_domain :: "'d bus \<Rightarrow> int \<Rightarrow> int \<Rightarrow> 'd \<Rightarrow> (int \<times> 'd) option" where
  "pmu_power_domain bus domain on d =
    (if shift_ok domain then Some (0, change_bit bus (pmu_reg 0x40) (nat domain) (on \<noteq> 0) d) else None)"

text \<open>C state, voltage and frequency, each only when it is asked for.\<close>

definition pmu_get_status :: "'d bus \<Rightarrow> bool \<Rightarrow> bool \<Rightarrow> bool \<Rightarrow> 'd \<Rightarrow> (u32 option \<times> u32 option \<times> u32 option) \<times> 'd" where
  "pmu_get_status bus want_c want_v want_f d =
    (let (status, d1) = rd32 bus (pmu_reg 4) d;
         (v, d2) = (if want_v then (case rd32 bus (pmu_reg 0x14) d1 of (x, d') \<Rightarrow> (Some x, d')) else (None, d1));
         (f, d3) = (if want_f then (case rd32 bus (pmu_reg 0x18) d2 of (x, d') \<Rightarrow> (Some x, d')) else (None, d2)) in
     ((if want_c then Some (status AND 7) else None, v, f), d3))"

section \<open>Clocks and resets\<close>

definition CRU_BASE :: u64 where "CRU_BASE = 0x100B0000"

abbreviation cru_reg :: "u64 \<Rightarrow> u64" where "cru_reg off \<equiv> CRU_BASE + off"

datatype clk_domain = CLK_CPU | CLK_FAB | CLK_MEM | CLK_GPU | CLK_NPU | CLK_IO | CLK_AON

primrec clk_num :: "clk_domain \<Rightarrow> nat" where
  "clk_num CLK_CPU = 0"
| "clk_num CLK_FAB = 1"
| "clk_num CLK_MEM = 2"
| "clk_num CLK_GPU = 3"
| "clk_num CLK_NPU = 4"
| "clk_num CLK_IO = 5"
| "clk_num CLK_AON = 6"

datatype reset_domain = RST_POR | RST_WARM | RST_DEBUG | RST_WDT

primrec rst_num :: "reset_domain \<Rightarrow> nat" where
  "rst_num RST_POR = 0"
| "rst_num RST_WARM = 1"
| "rst_num RST_DEBUG = 2"
| "rst_num RST_WDT = 3"

text \<open>The shift is only evaluated after a first read.\<close>

definition cru_wait_pll_lock :: "'d bus \<Rightarrow> int \<Rightarrow> u64 \<Rightarrow> 'd \<Rightarrow> (int \<times> 'd) option" where
  "cru_wait_pll_lock bus pll_id timeout_us d =
    (let n = (if 0xFFFFFFFF < timeout_us then 0xFFFFFFFF else unat timeout_us) in
     if n = 0 then Some (-1, d)
     else if \<not> shift_ok pll_id then None
     else case poll (rd32 bus (cru_reg 4)) (\<lambda>s. s AND push_bit (nat pll_id) 1 \<noteq> 0) n d of
       (None, d1) \<Rightarrow> Some (-1, d1) | (Some r, d1) \<Rightarrow> Some (0, d1))"

fun pll_loop :: "'d bus \<Rightarrow> int list \<Rightarrow> 'd \<Rightarrow> (int \<times> 'd) option" where
  "pll_loop bus [] d = Some (0, d)"
| "pll_loop bus (p # ps) d = (case cru_wait_pll_lock bus p 100000 d of None \<Rightarrow> None
   | Some (r, d1) \<Rightarrow> if r \<noteq> 0 then Some (-1, d1) else pll_loop bus ps d1)"

definition cru_init :: "'d bus \<Rightarrow> 'd \<Rightarrow> (int \<times> 'd) option" where
  "cru_init bus d = pll_loop bus [0, 1, 2, 3, 4, 5, 6] d"

definition cru_configure_pll :: "'d bus \<Rightarrow> u64 \<Rightarrow> u32 \<Rightarrow> u32 \<Rightarrow> u32 \<Rightarrow> 'd \<Rightarrow> int \<times> 'd" where
  "cru_configure_pll bus pll_id n m dv d =
    (0, wr32 bus (cru_reg (pll_id * 8)) (n AND 0x3FF OR push_bit 10 (m AND 0xFF) OR push_bit 18 (dv AND 0x3F) OR push_bit 24 1) d)"

definition cru_set_clk_source :: "'d bus \<Rightarrow> clk_domain \<Rightarrow> u32 \<Rightarrow> 'd \<Rightarrow> int \<times> 'd" where
  "cru_set_clk_source bus domain pll_id d =
    (let (sel, d1) = rd32 bus (cru_reg 0x10) d; k = clk_num domain * 3 in
     (0, wr32 bus (cru_reg 0x10) (sel AND NOT (push_bit k 7) OR push_bit k (pll_id AND 7)) d1))"

definition cru_set_clk_divider :: "'d bus \<Rightarrow> clk_domain \<Rightarrow> u32 \<Rightarrow> 'd \<Rightarrow> int \<times> 'd" where
  "cru_set_clk_divider bus domain divider0 d =
    (let divider = (if divider0 < 1 then 1 else divider0);
         (r, d1) = rd32 bus (cru_reg 0x14) d; k = clk_num domain * 4 in
     (0, wr32 bus (cru_reg 0x14) (r AND NOT (push_bit k 0xFF) OR push_bit k (divider AND 0xFF)) d1))"

definition cru_gate_clock :: "'d bus \<Rightarrow> clk_domain \<Rightarrow> int \<Rightarrow> 'd \<Rightarrow> int \<times> 'd" where
  "cru_gate_clock bus domain gate d = (0, change_bit bus (cru_reg 0x18) (clk_num domain) (gate \<noteq> 0) d)"

definition cru_assert_reset :: "'d bus \<Rightarrow> reset_domain \<Rightarrow> 'd \<Rightarrow> int \<times> 'd" where
  "cru_assert_reset bus domain d = (0, change_bit bus (cru_reg 0x20) (rst_num domain) True d)"

definition cru_deassert_reset :: "'d bus \<Rightarrow> reset_domain \<Rightarrow> 'd \<Rightarrow> int \<times> 'd" where
  "cru_deassert_reset bus domain d = (0, change_bit bus (cru_reg 0x20) (rst_num domain) False d)"

definition cru_is_in_reset :: "'d bus \<Rightarrow> reset_domain \<Rightarrow> 'd \<Rightarrow> int \<times> 'd" where
  "cru_is_in_reset bus domain d = (let (stat, d1) = rd32 bus (cru_reg 0x24) d in (uint (drop_bit (rst_num domain) stat AND 1), d1))"

end
