(* ===== verification/BradGfx.thy ===== *)
theory BradGfx
  imports BradXonc
begin

text \<open>
  The driver of the graphics processor, \<open>drivers/bradgfx.c\<close>. The driver structure and the two static counters are the state,
  a buffer is its index in the array of the structure. A shader is made by casting a buffer, the two structures have the same layout:
  handle, code address, code size and number of warps are address, size, flags and reference count of the buffer.
\<close>

section \<open>State\<close>

datatype gfx_err = GFX_ERR_INIT | GFX_ERR_TIMEOUT | GFX_ERR_OOM | GFX_MINUS_1

record gfx_buffer =
  gb_addr :: u64
  gb_size :: u64
  gb_flags :: u32
  gb_refcount :: u32

record gfx_driver =
  gd_sku :: u32
  gd_num_vec :: u32
  gd_num_rt :: u32
  gd_num_nsu :: u32
  gd_freq_mhz :: u32
  gd_vram_mb :: u32
  gd_q_size :: u32
  gd_q_head :: u32
  gd_q_tail :: u32
  gd_buffers :: "gfx_buffer list"
  gd_num_buffers :: nat
  gd_mmio :: u64
  gd_nsu :: u64
  gd_next_addr :: u64
  gd_next_handle :: u64

abbreviation (input) MAX_BUFFERS :: nat where "MAX_BUFFERS \<equiv> 256"

definition page_round :: "u64 \<Rightarrow> u64" where
  "page_round n = (n + 65536 - 1) AND NOT (65536 - 1)"

section \<open>Setting up\<close>

definition vram_of :: "u32 \<Rightarrow> u32" where
  "vram_of sku = (if sku = 0 then 8192 else if sku = 1 then 12288 else if sku = 2 then 16384 else if sku = 3 then 24576
     else if sku = 4 then 49152 else 8192)"

definition poll_left :: "nat option \<Rightarrow> u32" where
  "poll_left left = (case left of None \<Rightarrow> - 1 | Some n \<Rightarrow> of_nat n)"

text \<open>After the loop the counter has what was left when the device became ready, and has wrapped when it did not.\<close>

definition gfx_driver_init :: "'d bus \<Rightarrow> u64 \<Rightarrow> gfx_driver \<Rightarrow> 'd \<Rightarrow> (gfx_err + unit) \<times> gfx_driver \<times> 'd" where
  "gfx_driver_init bus base g d =
    (if base = 0 then (Inl GFX_ERR_INIT, g, d)
     else let g1 = g\<lparr> gd_mmio := base, gd_nsu := 0x40300000, gd_num_buffers := 0 \<rparr>;
       (rv, d1) = rd32 bus (base + 8) d; (sku, d2) = rd32 bus (base + 0xC) d1; (nv, d3) = rd32 bus (base + 0x10) d2;
       (nrt, d4) = rd32 bus (base + 0x14) d3; (nnsu, d5) = rd32 bus (base + 0x18) d4 in
     if rv = 0 \<or> rv = 0xFFFFFFFF then (Inl GFX_ERR_INIT, g1, d5)
     else let g2 = g1\<lparr> gd_sku := sku, gd_num_vec := nv, gd_num_rt := nrt, gd_num_nsu := nnsu \<rparr>;
       (left, d6) = poll (rd32 bus (base + 4)) (\<lambda>s. s AND 2 \<noteq> 0) 1000000 (wr32 bus (base + 0x24) 1 d5);
       timeout = poll_left left in
     if timeout = 0 then (Inl GFX_ERR_TIMEOUT, g2, d6)
     else let d7 = wr32 bus (base + 0x3C) 0x1FF (wr32 bus base 1 (wr32 bus (base + 0x20) 0 d6));
       (freq, d8) = rd32 bus (base + 0x34) d7;
       g3 = g2\<lparr> gd_freq_mhz := (if freq = 0 then 1800 else freq), gd_vram_mb := vram_of sku, gd_q_size := 1024, gd_q_head := 0, gd_q_tail := 0 \<rparr> in
     (Inr (), g3, wr32 bus (base + 0x1014) (gd_q_size g3) d8))"

definition gfx_set_power_state :: "'d bus \<Rightarrow> gfx_driver \<Rightarrow> u32 \<Rightarrow> 'd \<Rightarrow> 'd" where
  "gfx_set_power_state bus g state d = wr32 bus (gd_mmio g + 0x24) state d"

definition gfx_get_power_state :: "'d bus \<Rightarrow> gfx_driver \<Rightarrow> 'd \<Rightarrow> u32 \<times> 'd" where
  "gfx_get_power_state bus g d = rd32 bus (gd_mmio g + 0x24) d"

definition gfx_set_freq :: "'d bus \<Rightarrow> u32 \<Rightarrow> gfx_driver \<Rightarrow> 'd \<Rightarrow> (gfx_err + unit) \<times> gfx_driver \<times> 'd" where
  "gfx_set_freq bus freq g d =
    (let (rb, d1) = rd32 bus (gd_mmio g + 0x34) (wr32 bus (gd_mmio g + 0x34) freq d) in
     if rb < freq - freq div 10 \<or> freq + freq div 10 < rb then (Inl GFX_MINUS_1, g, d1) else (Inr (), g\<lparr> gd_freq_mhz := rb \<rparr>, d1))"

definition gfx_set_voltage :: "'d bus \<Rightarrow> gfx_driver \<Rightarrow> u32 \<Rightarrow> 'd \<Rightarrow> 'd" where
  "gfx_set_voltage bus g mv d = wr32 bus (gd_mmio g + 0x30) mv d"

section \<open>Buffers and shaders\<close>

definition gfx_alloc_buffer :: "u64 \<Rightarrow> u32 \<Rightarrow> gfx_driver \<Rightarrow> nat option \<times> gfx_driver" where
  "gfx_alloc_buffer sz flags g =
    (let alloc_size = page_round sz; i = gd_num_buffers g in
     if MAX_BUFFERS \<le> i then (None, g)
     else (Some i, g\<lparr> gd_buffers := (gd_buffers g)[i := \<lparr> gb_addr = gd_next_addr g, gb_size = alloc_size, gb_flags = flags, gb_refcount = 1 \<rparr>],
       gd_next_addr := gd_next_addr g + alloc_size, gd_num_buffers := i + 1 \<rparr>))"

definition gfx_free_buffer :: "nat option \<Rightarrow> gfx_driver \<Rightarrow> (gfx_err + unit) \<times> gfx_driver" where
  "gfx_free_buffer buf g = (case buf of None \<Rightarrow> (Inl GFX_MINUS_1, g)
     | Some i \<Rightarrow> (Inr (), g\<lparr> gd_buffers := (gd_buffers g)[i := (gd_buffers g ! i)\<lparr> gb_refcount := 0 \<rparr>] \<rparr>))"

text \<open>The first buffer in use whose reference count is zero becomes the shader.\<close>

definition gfx_create_shader :: "bool \<Rightarrow> u32 \<Rightarrow> gfx_driver \<Rightarrow> nat option \<times> gfx_driver" where
  "gfx_create_shader have_code sz g =
    (if \<not> have_code \<or> sz = 0 then (None, g)
     else case find (\<lambda>i. gb_refcount (gd_buffers g ! i) = 0) [0..<gd_num_buffers g] of None \<Rightarrow> (None, g)
     | Some i \<Rightarrow> (Some i, g\<lparr> gd_buffers := (gd_buffers g)[i :=
         \<lparr> gb_addr = gd_next_handle g, gb_size = 0x20000000, gb_flags = sz, gb_refcount = 8 \<rparr>],
         gd_next_handle := gd_next_handle g + 1 \<rparr>))"

definition gfx_destroy_shader :: "nat option \<Rightarrow> gfx_driver \<Rightarrow> (gfx_err + unit) \<times> gfx_driver" where
  "gfx_destroy_shader sh g = (case sh of None \<Rightarrow> (Inl GFX_MINUS_1, g)
     | Some i \<Rightarrow> (Inr (), g\<lparr> gd_buffers := (gd_buffers g)[i := (gd_buffers g ! i)\<lparr> gb_addr := 0 \<rparr>] \<rparr>))"

definition gfx_bind_shader :: "nat option \<Rightarrow> gfx_err + unit" where
  "gfx_bind_shader sh = (case sh of None \<Rightarrow> Inl GFX_MINUS_1 | Some i \<Rightarrow> Inr ())"

section \<open>Commands\<close>

text \<open>The packet is built and dropped; only the tail moves. The four kinds of commands differ in the packet.\<close>

definition gfx_enqueue_cmd :: "gfx_driver \<Rightarrow> (gfx_err + unit) \<times> gfx_driver" where
  "gfx_enqueue_cmd g =
    (let nxt = (gd_q_tail g + 1) AND (gd_q_size g - 1) in
     if nxt = gd_q_head g then (Inl GFX_ERR_OOM, g) else (Inr (), g\<lparr> gd_q_tail := nxt \<rparr>))"

definition gfx_submit_draw :: "gfx_driver \<Rightarrow> (gfx_err + unit) \<times> gfx_driver" where "gfx_submit_draw g = gfx_enqueue_cmd g"
definition gfx_submit_dispatch :: "gfx_driver \<Rightarrow> (gfx_err + unit) \<times> gfx_driver" where "gfx_submit_dispatch g = gfx_enqueue_cmd g"
definition gfx_submit_copy :: "gfx_driver \<Rightarrow> (gfx_err + unit) \<times> gfx_driver" where "gfx_submit_copy g = gfx_enqueue_cmd g"
definition gfx_submit_barrier :: "gfx_driver \<Rightarrow> (gfx_err + unit) \<times> gfx_driver" where "gfx_submit_barrier g = gfx_enqueue_cmd g"

definition gfx_kick :: "'d bus \<Rightarrow> gfx_driver \<Rightarrow> 'd \<Rightarrow> 'd" where
  "gfx_kick bus g d = wr32 bus (gd_mmio g + 0x1000) (gd_q_tail g) d"

text \<open>Every round may wait for ever in the timer.\<close>

fun idle_loop :: "'d bus \<Rightarrow> u32 \<Rightarrow> gfx_driver \<Rightarrow> nat \<Rightarrow> 'd \<Rightarrow> ((gfx_err + unit) \<times> 'd) option" where
  "idle_loop bus freq g n d =
    (if n = 0 then Some (Inl GFX_ERR_TIMEOUT, d)
     else let (status, d1) = rd32 bus (gd_mmio g + 4) d in
       if status AND 1 = 0 then Some (Inr (), d1)
       else case timer_delay_us bus freq 1 d1 of None \<Rightarrow> None | Some d2 \<Rightarrow> idle_loop bus freq g (n - 1) d2)"

declare idle_loop.simps [simp del]

definition gfx_wait_idle :: "'d bus \<Rightarrow> u32 \<Rightarrow> gfx_driver \<Rightarrow> u64 \<Rightarrow> 'd \<Rightarrow> ((gfx_err + unit) \<times> 'd) option" where
  "gfx_wait_idle bus freq g timeout_us d = idle_loop bus freq g (unat timeout_us) d"

definition gfx_query_timestamp :: "'d bus \<Rightarrow> bool \<Rightarrow> 'd \<Rightarrow> (gfx_err + u64) \<times> 'd" where
  "gfx_query_timestamp bus have_ts d = (if \<not> have_ts then (Inl GFX_MINUS_1, d) else case timer_get_cycles bus d of (c, d1) \<Rightarrow> (Inr c, d1))"

definition gfx_irq_handler :: "'d bus \<Rightarrow> gfx_driver \<Rightarrow> 'd \<Rightarrow> gfx_driver \<times> 'd" where
  "gfx_irq_handler bus g d =
    (let (status, d1) = rd32 bus (gd_mmio g + 0x40) d;
         (g1, d2) = (if status AND 1 \<noteq> 0 then (case rd32 bus (gd_mmio g + 0x1004) d1 of (h, d') \<Rightarrow> (g\<lparr> gd_q_head := h \<rparr>, d')) else (g, d1));
         d3 = (if status AND push_bit 8 1 \<noteq> 0 then
           (case rd32 bus (gd_mmio g + 0x34) d2 of (f, d') \<Rightarrow> wr32 bus (gd_mmio g + 0x34) (f * 9 div 10) d') else d2) in
     (g1, wr32 bus (gd_mmio g + 0x40) status d3))"

section \<open>Settings and reports\<close>

definition gfx_set_bradsense :: "'d bus \<Rightarrow> gfx_driver \<Rightarrow> bool \<Rightarrow> u32 \<Rightarrow> 'd \<Rightarrow> 'd" where
  "gfx_set_bradsense bus g enable quality d =
    (let (ctrl, d1) = rd32 bus (gd_mmio g) d; bits = push_bit 11 1 OR push_bit 9 1;
         d2 = wr32 bus (gd_mmio g) (if enable then ctrl OR bits else ctrl AND NOT bits) d1;
         d3 = wr32 bus (gd_mmio g + 0x58) (quality AND 3) d2 in
     if quality \<le> 3 then wr32 bus (gd_nsu g + 0x24) quality d3 else d3)"

definition gfx_read_perf_counter :: "'d bus \<Rightarrow> gfx_driver \<Rightarrow> int \<Rightarrow> bool \<Rightarrow> 'd \<Rightarrow> (gfx_err + u64) \<times> 'd" where
  "gfx_read_perf_counter bus g counter have_value d =
    (if \<not> have_value then (Inl GFX_MINUS_1, d)
     else case read_pair bus (gd_mmio g + (if counter = 0 then 0x44 else 0x4C)) d of (v, d1) \<Rightarrow> (Inr v, d1))"

definition gfx_reset_perf_counters :: "'d bus \<Rightarrow> gfx_driver \<Rightarrow> 'd \<Rightarrow> 'd" where
  "gfx_reset_perf_counters bus g d = wr32 bus (gd_mmio g + 0x54) 1 (wr32 bus (gd_mmio g + 0x54) 0 d)"

text \<open>The results of the output functions are ignored.\<close>

definition say :: "'d bus \<Rightarrow> string \<Rightarrow> 'd \<Rightarrow> 'd" where
  "say bus s d = snd (uart_puts bus s d)"

definition say_dec :: "'d bus \<Rightarrow> string \<Rightarrow> u32 \<Rightarrow> string \<Rightarrow> 'd \<Rightarrow> 'd" where
  "say_dec bus before v after d = say bus after (snd (uart_putdec bus v (say bus before d)))"

abbreviation crlf :: string where "crlf \<equiv> [CHR 0x0D, CHR 0x0A]"

definition gfx_dump_status :: "'d bus \<Rightarrow> gfx_driver \<Rightarrow> 'd \<Rightarrow> 'd" where
  "gfx_dump_status bus g d =
    (let (status, d1) = rd32 bus (gd_mmio g + 4) d; (pwr, d2) = rd32 bus (gd_mmio g + 0x24) d1; (freq, d3) = rd32 bus (gd_mmio g + 0x34) d2;
         d4 = say bus (''BradGfx Status:'' @ crlf) d3;
         d5 = say_dec bus ''  SKU:      '' (gd_sku g) crlf d4;
         d6 = say_dec bus ''  Vec:      '' (gd_num_vec g) crlf d5;
         d7 = say_dec bus ''  RT:       '' (gd_num_rt g) crlf d6;
         d8 = say_dec bus ''  NSU:      '' (gd_num_nsu g) crlf d7;
         d9 = say_dec bus ''  Freq:     '' freq ('' MHz'' @ crlf) d8;
         d10 = say_dec bus ''  VRAM:     '' (gd_vram_mb g) ('' MB'' @ crlf) d9;
         d11 = say_dec bus ''  PWR:      P'' pwr crlf d10 in
     say_dec bus ''  Busy:     '' (drop_bit 16 status AND 0xFF) (''%'' @ crlf) d11)"

definition gfx_self_test :: "'d bus \<Rightarrow> gfx_driver \<Rightarrow> 'd \<Rightarrow> (gfx_err + unit) \<times> 'd" where
  "gfx_self_test bus g d =
    (let (rv, d1) = rd32 bus (gd_mmio g + 8) d in
     if rv = 0 \<or> rv = 0xFFFFFFFF then (Inl GFX_MINUS_1, say bus (''FAIL: revision readback'' @ crlf) d1)
     else let d2 = say bus crlf (snd (uart_puthex bus rv (say bus ''PASS: revision=0x'' d1)));
       (ctrl, d3) = rd32 bus (gd_mmio g) (wr32 bus (gd_mmio g) 1 d2) in
     if ctrl AND 1 = 0 then (Inl GFX_MINUS_1, say bus (''FAIL: enable bit'' @ crlf) d3)
     else let d4 = say bus (''PASS: GFX enable'' @ crlf) d3;
       (pwr, d5) = rd32 bus (gd_mmio g + 0x24) (wr32 bus (gd_mmio g + 0x24) 0 d4);
       d6 = say_dec bus ''PASS: power state P'' pwr crlf d5;
       (v, d7) = read_pair bus (gd_mmio g + 0x44) d6;
       d8 = say_dec bus ''PASS: perf counter = '' (ucast v) crlf d7 in
     (Inr (), say bus (''BradGfx self-test PASSED'' @ crlf) d8))"

end
