(* ===== verification/MmioProps.thy ===== *)
theory MmioProps
  imports BradGfx CString
begin

text \<open>
  Properties of the device drivers. What they rely on of the hardware is stated as a predicate on the bus: a serial line that
  gets ready and sends what is written, a counter that runs on between the reads, a register that holds what was written.
\<close>

section \<open>A device for the examples\<close>

text \<open>A line that is always ready, registers that hold what is written, and a counter that advances by three with every read.\<close>

record bench =
  bench_line :: "u8 list"
  bench_time :: nat
  bench_regs :: "u64 \<Rightarrow> u32"

definition bench_bus :: "bench bus" where
  "bench_bus = \<lparr>
     rd8 = (\<lambda>a d. (1, d)),
     rd32 = (\<lambda>a d. if a = TIMER_CNT_LO then (of_nat (bench_time d), d\<lparr> bench_time := bench_time d + 3 \<rparr>)
       else if a = TIMER_CNT_HI then (of_nat (bench_time d div 2 ^ 32), d\<lparr> bench_time := bench_time d + 3 \<rparr>)
       else (bench_regs d a, d)),
     wr8 = (\<lambda>a b d. if a = UART_DATA then d\<lparr> bench_line := bench_line d @ [b] \<rparr> else d),
     wr16 = (\<lambda>a b d. d),
     wr32 = (\<lambda>a v d. d\<lparr> bench_regs := (bench_regs d)(a := v) \<rparr>) \<rparr>"

definition bench_start :: bench where
  "bench_start = \<lparr> bench_line = [], bench_time = 2 ^ 32 - 2, bench_regs = (\<lambda>_. 0) \<rparr>"

section \<open>Polling\<close>

lemma poll_ready:
  assumes "ok (fst (rd (((\<lambda>d. snd (rd d)) ^^ k) d)))" "k < n" "\<And>d. P d \<Longrightarrow> P (snd (rd d))" "P d"
  shows "\<exists>r d'. poll rd ok n d = (Some r, d') \<and> P d'"
  using assms(1,2,4)
proof (induction k arbitrary: n d)
  case 0
  then show ?case using assms(3) by (auto simp: poll.simps [of rd ok n] split_beta)
next
  case (Suc k)
  show ?case
  proof (cases "ok (fst (rd d))")
    case True
    then show ?thesis using Suc.prems assms(3) by (auto simp: poll.simps [of rd ok n] split_beta)
  next
    case False
    have "ok (fst (rd (((\<lambda>d. snd (rd d)) ^^ k) (snd (rd d)))))" using Suc.prems(1) by (simp only: funpow_Suc_right o_apply)
    from Suc.IH [OF this, of "n - 1"] Suc.prems(2,3) assms(3) False show ?thesis
      by (auto simp: poll.simps [of rd ok n] split_beta)
  qed
qed

section \<open>UART\<close>

text \<open>A serial line: reading the status sends nothing, the transmitter gets ready within a million reads, and a byte written is sent.\<close>

definition serial_line :: "'d bus \<Rightarrow> ('d \<Rightarrow> u8 list) \<Rightarrow> bool" where
  "serial_line bus sent \<longleftrightarrow>
     (\<forall>d. sent (snd (rd8 bus UART_STATUS d)) = sent d) \<and>
     (\<forall>d. \<exists>k < 1000000. fst (rd8 bus UART_STATUS (((\<lambda>d. snd (rd8 bus UART_STATUS d)) ^^ k) d)) AND 1 \<noteq> 0) \<and>
     (\<forall>b d. sent (wr8 bus UART_DATA b d) = sent d @ [b])"

text \<open>What a text is on the line: a carriage return follows every line feed.\<close>

definition on_wire :: "string \<Rightarrow> u8 list" where
  "on_wire s = concat (map (\<lambda>c. of_char c # (if c = CHR 0x0A then [0x0D] else [])) s)"

definition hex_text :: "nat \<Rightarrow> u32 \<Rightarrow> string" where
  "hex_text n v = map (\<lambda>i. ''0123456789ABCDEF'' ! unat (drop_bit (4 * (n - 1 - i)) v AND 0xF)) [0..<n]"

lemma send_byte_sends:
  assumes "serial_line bus sent"
  shows "\<exists>d'. send_byte bus b d = (True, d') \<and> sent d' = sent d @ [b]"
proof -
  obtain k where k: "k < 1000000" "fst (rd8 bus UART_STATUS (((\<lambda>d. snd (rd8 bus UART_STATUS d)) ^^ k) d)) AND 1 \<noteq> 0"
    using assms unfolding serial_line_def by blast
  obtain r d1 where "poll (rd8 bus UART_STATUS) (\<lambda>s. s AND 1 \<noteq> 0) 1000000 d = (Some r, d1)" "sent d1 = sent d"
    using poll_ready [where rd = "rd8 bus UART_STATUS" and k = k and d = d and ok = "\<lambda>s. s AND 1 \<noteq> 0" and P = "\<lambda>x. sent x = sent d", OF k(2,1)] assms unfolding serial_line_def by auto
  then show ?thesis using assms by (simp add: send_byte_def tx_wait_def serial_line_def)
qed

lemma putc_sends:
  assumes "serial_line bus sent"
  shows "\<exists>d'. uart_putc bus c d = (0, d') \<and> sent d' = sent d @ on_wire [c]"
proof -
  obtain d1 where d1: "send_byte bus (of_char c) d = (True, d1)" "sent d1 = sent d @ [of_char c]"
    using send_byte_sends [OF assms] by blast
  obtain d2 where d2: "send_byte bus 0x0D d1 = (True, d2)" "sent d2 = sent d1 @ [0x0D]" using send_byte_sends [OF assms] by blast
  show ?thesis by (cases "c = CHR 0x0A") (use d1 d2 in \<open>simp_all add: uart_putc_def on_wire_def\<close>)
qed

lemma on_wire_Cons: "on_wire (c # s) = on_wire [c] @ on_wire s"
  by (simp add: on_wire_def)

lemma puts_sends:
  assumes "serial_line bus sent"
  shows "\<exists>d'. uart_puts bus s d = (0, d') \<and> sent d' = sent d @ on_wire s"
proof (induction s arbitrary: d)
  case (Cons c s)
  obtain d1 where d1: "uart_putc bus c d = (0, d1)" "sent d1 = sent d @ on_wire [c]" using putc_sends [OF assms] by blast
  then show ?case using Cons.IH [of d1] by (auto simp: on_wire_Cons [of c s])
qed (simp add: on_wire_def)

lemma hex_loop_text: "hex_loop n v buf = hex_text n v @ buf"
proof (induction n arbitrary: v buf)
  case (Suc n)
  have "hex_text (Suc n) v = hex_text n (drop_bit 4 v) @ [''0123456789ABCDEF'' ! unat (v AND 0xF)]"
    by (auto simp: hex_text_def drop_bit_drop_bit Suc_diff_le algebra_simps intro!: map_cong)
  then show ?case using Suc.IH by simp
qed (simp add: hex_text_def)

lemma dec_loop_text: "unat v < 10 ^ i \<Longrightarrow> dec_loop i v buf = (if v = 0 then buf else show_nat (unat v) @ buf)"
proof (induction i arbitrary: v buf)
  case 0
  then show ?case by (simp add: unsigned_eq_0_iff)
next
  case (Suc i)
  have q: "unat (v div 10) = unat v div 10" "unat (v mod 10) = unat v mod 10" by (simp_all add: unat_div_distrib unat_mod_distrib)
  have "unat (v div 10) < 10 ^ i" using Suc.prems unfolding q by (simp add: less_mult_imp_div_less mult.commute)
  note IH = Suc.IH [OF this]
  show ?case
  proof (cases "unat v < 10")
    case True
    then have "unat (v div 10) = 0" using q(1) by simp
    then have "v div 10 = 0" by (simp only: unat_eq_zero)
    then show ?thesis using IH True q(2) by (simp add: show_nat.simps [of "unat v"])
  next
    case False
    then have "unat (v div 10) \<noteq> 0" unfolding q by simp
    then have "v div 10 \<noteq> 0" by auto
    moreover have "v \<noteq> 0" using False by auto
    ultimately show ?thesis using IH False q by (simp add: show_nat.simps [of "unat v"])
  qed
qed

text \<open>C39: On a line that gets ready in time, texts, hexadecimal and decimal numbers are sent completely and in order; the decimal number
  is the shortest one.\<close>

theorem uart_transmits:
  assumes "serial_line bus sent"
  shows "\<exists>d1 d2 d3. uart_puts bus s d = (0, d1) \<and> sent d1 = sent d @ on_wire s \<and>
    uart_puthex bus v d = (0, d2) \<and> sent d2 = sent d @ on_wire (''0x'' @ hex_text 8 v) \<and>
    uart_putdec bus v d = (0, d3) \<and> sent d3 = sent d @ on_wire (show_nat (unat v))"
proof -
  have "unat v < 10 ^ 11" using unsigned_less [of v, where ?'a = nat] by simp
  then have "v \<noteq> 0 \<Longrightarrow> dec_loop 11 v [] = show_nat (unat v)" using dec_loop_text by fastforce
  moreover have "show_nat 0 = ''0''" by code_simp
  ultimately have "uart_putdec bus v d = uart_puts bus (show_nat (unat v)) d" by (simp add: uart_putdec_def)
  then show ?thesis using puts_sends [OF assms, of s d] puts_sends [OF assms, of "''0x'' @ hex_text 8 v" d]
      puts_sends [OF assms, of "show_nat (unat v)" d]
    by (auto simp: uart_puthex_def hex_loop_text)
qed

lemma bench_line: "serial_line bench_bus bench_line"
  by (auto simp: serial_line_def bench_bus_def intro: exI [of _ 0])

lemma uart_transmits_witness:
  "\<exists>d'. uart_putdec bench_bus 42 bench_start = (0, d') \<and> bench_line d' = map of_char ''42''"
proof -
  have "show_nat 42 = ''42''" "on_wire ''42'' = map of_char ''42''" by code_simp+
  then show ?thesis using uart_transmits [OF bench_line, of "[]" bench_start 42] by (auto simp: bench_start_def)
qed

section \<open>Timer\<close>

text \<open>A counter that never goes back: a read of a half gives that half of a time during the read.\<close>

definition counter_runs :: "'d bus \<Rightarrow> ('d \<Rightarrow> nat) \<Rightarrow> bool" where
  "counter_runs bus clock \<longleftrightarrow>
     (\<forall>d x d'. rd32 bus TIMER_CNT_LO d = (x, d') \<longrightarrow> (\<exists>t. clock d \<le> t \<and> t \<le> clock d' \<and> x = of_nat t)) \<and>
     (\<forall>d x d'. rd32 bus TIMER_CNT_HI d = (x, d') \<longrightarrow> (\<exists>t. clock d \<le> t \<and> t \<le> clock d' \<and> x = of_nat (t div 2 ^ 32)))"

lemma join_halves64: "push_bit 32 (ucast (of_nat (t div 2 ^ 32) :: u32)) OR ucast (of_nat t :: u32) = (of_nat t :: u64)"
proof (rule bit_word_eqI)
  fix n assume n: "n < LENGTH(64)"
  have b: "bit (of_nat k :: 'a :: len word) m \<longleftrightarrow> m < LENGTH('a) \<and> bit k m" for k m
    by (simp add: bit_simps)
  have d: "t div 2 ^ 32 = drop_bit 32 t" by (simp add: drop_bit_eq_div)
  show "bit (push_bit 32 (ucast (of_nat (t div 2 ^ 32) :: u32)) OR ucast (of_nat t :: u32) :: u64) n \<longleftrightarrow> bit (of_nat t :: u64) n"
    unfolding d using n by (auto simp: bit_or_iff bit_push_bit_iff bit_ucast_iff b bit_drop_bit_eq)
qed

text \<open>Two times less than \<open>2 ^ 32\<close> apart whose low halves are in order have the same high half; otherwise it has grown by one.\<close>

lemma same_high:
  assumes "(s :: nat) \<le> t" "t < s + 2 ^ 32"
  shows "t div 2 ^ 32 = s div 2 ^ 32 + (if t mod 2 ^ 32 < s mod 2 ^ 32 then 1 else 0)"
proof -
  have d: "s = s div 2 ^ 32 * 2 ^ 32 + s mod 2 ^ 32" "t = t div 2 ^ 32 * 2 ^ 32 + t mod 2 ^ 32" by simp_all
  have m: "s mod 2 ^ 32 < 2 ^ 32" "t mod 2 ^ 32 < 2 ^ 32" by simp_all
  have "s div 2 ^ 32 \<le> t div 2 ^ 32" using assms(1) by (rule div_le_mono)
  moreover have "t div 2 ^ 32 \<le> (s + 2 ^ 32) div 2 ^ 32" using assms(2) by (intro div_le_mono) simp
  then have "t div 2 ^ 32 \<le> s div 2 ^ 32 + 1" by simp
  ultimately consider "t div 2 ^ 32 = s div 2 ^ 32" | "t div 2 ^ 32 = s div 2 ^ 32 + 1" by linarith
  then show ?thesis
  proof cases
    case 1
    then have "s mod 2 ^ 32 \<le> t mod 2 ^ 32" using d assms(1) by (metis add_le_cancel_left)
    then show ?thesis using 1 by simp
  next
    case 2
    then have "t = s div 2 ^ 32 * 2 ^ 32 + 2 ^ 32 + t mod 2 ^ 32" using d(2) by (simp add: algebra_simps)
    then have "t mod 2 ^ 32 < s mod 2 ^ 32" using assms(2) d(1) by linarith
    then show ?thesis using 2 by simp
  qed
qed

text \<open>C24: If the counter advances by less than \<open>2 ^ 32\<close> during the call, the 64 bits that are put together from separate reads of the
  halves are a value that the counter had during the call, also when the low half wraps between the reads.\<close>

theorem timer_reads_a_time:
  assumes "counter_runs bus clock" and "timer_get_cycles bus d = (c, d')" and "clock d' < clock d + 2 ^ 32"
  shows "\<exists>t. clock d \<le> t \<and> t \<le> clock d' \<and> c = of_nat t"
proof -
  obtain lo d1 where r1: "rd32 bus TIMER_CNT_LO d = (lo, d1)" by (cases "rd32 bus TIMER_CNT_LO d")
  obtain hi d2 where r2: "rd32 bus TIMER_CNT_HI d1 = (hi, d2)" by (cases "rd32 bus TIMER_CNT_HI d1")
  obtain lo' d3 where r3: "rd32 bus TIMER_CNT_LO d2 = (lo', d3)" by (cases "rd32 bus TIMER_CNT_LO d2")
  obtain t1 where t1: "clock d \<le> t1" "t1 \<le> clock d1" "lo = of_nat t1" using assms(1) r1 unfolding counter_runs_def by blast
  obtain t2 where t2: "clock d1 \<le> t2" "t2 \<le> clock d2" "hi = of_nat (t2 div 2 ^ 32)" using assms(1) r2 unfolding counter_runs_def by blast
  obtain t3 where t3: "clock d2 \<le> t3" "t3 \<le> clock d3" "lo' = of_nat t3" using assms(1) r3 unfolding counter_runs_def by blast
  have low: "lo' < lo \<longleftrightarrow> t3 mod 2 ^ 32 < t1 mod 2 ^ 32" by (simp add: t1(3) t3(3) word_less_nat_alt unsigned_of_nat take_bit_eq_mod)
  show ?thesis
  proof (cases "lo' < lo")
    case False
    then have c: "c = push_bit 32 (ucast hi) OR ucast lo" "d' = d3" using assms(2) r1 r2 r3 by (simp_all add: timer_get_cycles_def)
    have "t1 div 2 ^ 32 = t3 div 2 ^ 32"
    proof -
      have "t1 \<le> t3" "t3 < t1 + 2 ^ 32" using t1(1,2) t2(1,2) t3(1,2) assms(3) unfolding c(2) by linarith+
      then show ?thesis using same_high False unfolding low by (simp only: if_False)
    qed
    moreover have "t1 div 2 ^ 32 \<le> t2 div 2 ^ 32" "t2 div 2 ^ 32 \<le> t3 div 2 ^ 32" using t1 t2 t3 by (intro div_le_mono; linarith)+
    ultimately have "c = of_nat t1" unfolding c(1) t1(3) t2(3) using join_halves64 [of t1] by simp
    moreover have "clock d \<le> t1" "t1 \<le> clock d'" unfolding c(2) using t1(1,2) t2(1,2) t3(1,2) by linarith+
    ultimately show ?thesis by blast
  next
    case True
    obtain hi' d4 where r4: "rd32 bus TIMER_CNT_HI d3 = (hi', d4)" by (cases "rd32 bus TIMER_CNT_HI d3")
    obtain lo'' d5 where r5: "rd32 bus TIMER_CNT_LO d4 = (lo'', d5)" by (cases "rd32 bus TIMER_CNT_LO d4")
    have c: "c = push_bit 32 (ucast hi') OR ucast lo''" "d' = d5"
      using assms(2) r1 r2 r3 r4 r5 True by (simp_all add: timer_get_cycles_def)
    obtain t4 where t4: "clock d3 \<le> t4" "t4 \<le> clock d4" "hi' = of_nat (t4 div 2 ^ 32)" using assms(1) r4 unfolding counter_runs_def by blast
    obtain t5 where t5: "clock d4 \<le> t5" "t5 \<le> clock d5" "lo'' = of_nat t5" using assms(1) r5 unfolding counter_runs_def by blast
    have "t5 div 2 ^ 32 = t3 div 2 ^ 32"
    proof -
      have b: "t1 \<le> t3" "t3 < t1 + 2 ^ 32" "t1 \<le> t5" "t5 < t1 + 2 ^ 32" "t3 \<le> t5"
        using t1(1,2) t2(1,2) t3(1,2) t4(1,2) t5(1,2) assms(3) unfolding c(2) by linarith+
      have "t3 div 2 ^ 32 = t1 div 2 ^ 32 + 1" using same_high [OF b(1,2)] True unfolding low by (simp only: if_True)
      moreover have "t5 div 2 ^ 32 \<le> t1 div 2 ^ 32 + 1" unfolding same_high [OF b(3,4)] by (simp only: add_le_cancel_left) (simp split: if_split)
      moreover have "t3 div 2 ^ 32 \<le> t5 div 2 ^ 32" using b(5) by (rule div_le_mono)
      ultimately show ?thesis by linarith
    qed
    moreover have "t3 div 2 ^ 32 \<le> t4 div 2 ^ 32" "t4 div 2 ^ 32 \<le> t5 div 2 ^ 32" using t3 t4 t5 by (intro div_le_mono; linarith)+
    ultimately have "c = of_nat t5" unfolding c(1) t4(3) t5(3) using join_halves64 [of t5] by simp
    moreover have "clock d \<le> t5" "t5 \<le> clock d'" unfolding c(2) using t1(1,2) t2(1,2) t3(1,2) t4(1,2) t5(1,2) by linarith+
    ultimately show ?thesis by blast
  qed
qed

lemma bench_counter: "counter_runs bench_bus bench_time"
  by (auto simp: counter_runs_def bench_bus_def TIMER_CNT_LO_def TIMER_CNT_HI_def)

text \<open>The low half wraps between the first two reads.\<close>

lemma timer_reads_a_time_witness:
  "\<exists>c d' t. timer_get_cycles bench_bus bench_start = (c, d') \<and> 2 ^ 32 - 2 \<le> t \<and> t \<le> 2 ^ 32 + 13 \<and> c = of_nat t"
proof -
  have r: "bench_time (snd (timer_get_cycles bench_bus bench_start)) = 2 ^ 32 + 13"
    by (simp add: timer_get_cycles_def bench_bus_def bench_start_def TIMER_CNT_LO_def TIMER_CNT_HI_def)
  obtain c d' where c: "timer_get_cycles bench_bus bench_start = (c, d')" by (cases "timer_get_cycles bench_bus bench_start")
  have "bench_time bench_start = 2 ^ 32 - 2" by (simp add: bench_start_def)
  then show ?thesis using timer_reads_a_time [OF bench_counter c] r c by auto
qed

text \<open>A timer below 1 MHz divides by zero; baud rates above 3125000 give the slowest line.\<close>

lemma slow_timer: "freq < 1000000 \<Longrightarrow> timer_get_us bus freq d = None"
proof -
  assume "freq < 1000000"
  then have "(ucast freq :: u64) div 1000000 = 0"
    by (simp add: word_less_nat_alt div_word_less unsigned_ucast_eq take_bit_nat_eq_self)
  then show "timer_get_us bus freq d = None" by (simp add: timer_get_us_def split_beta)
qed

lemma fast_line: "uart_divisor 4000000 = 0xFFFF"
  by code_simp

section \<open>Registers\<close>

text \<open>A register that reads as it was written.\<close>

definition plain_register :: "'d bus \<Rightarrow> u64 \<Rightarrow> ('d \<Rightarrow> u32) \<Rightarrow> bool" where
  "plain_register bus a reg \<longleftrightarrow> (\<forall>d. rd32 bus a d = (reg d, d)) \<and> (\<forall>v d. reg (wr32 bus a v d) = v)"

lemma bit_put_bit: "bit (put_bit n b x) m \<longleftrightarrow> (if m = n then b \<and> n < 32 else bit x m)"
  by (auto simp: put_bit_def bit_simps bit_1_iff dest: bit_imp_le_length)

lemma low_bit: "uint (drop_bit n (x :: u32) AND 1) = (if bit x n then 1 else 0)"
  by (simp add: and_one_eq bit_iff_odd_drop_bit mod2_eq_if)

text \<open>Writing a pin sets this pin and no other, as read back through the driver.\<close>

theorem gpio_pins_independent:
  assumes "plain_register bus GPIO_DATA reg" and "0 \<le> pin" "pin \<le> 31" "0 \<le> q" "q \<le> 31"
  shows "fst (gpio_read bus q (snd (gpio_write bus pin val d))) = (if q = pin then (if val \<noteq> 0 then 1 else 0) else fst (gpio_read bus q d))"
  using assms by (auto simp: gpio_read_def gpio_write_def change_bit_def plain_register_def low_bit bit_put_bit)

lemma bench_register: "a \<noteq> TIMER_CNT_LO \<Longrightarrow> a \<noteq> TIMER_CNT_HI \<Longrightarrow> plain_register bench_bus a (\<lambda>d. bench_regs d a)"
  by (simp add: plain_register_def bench_bus_def)

lemma gpio_pins_independent_witness:
  "fst (gpio_read bench_bus 31 (snd (gpio_write bench_bus 31 5 bench_start))) = 1"
  using gpio_pins_independent [of bench_bus "\<lambda>d. bench_regs d GPIO_DATA" 31 31 5 bench_start] bench_register [of GPIO_DATA]
  by (simp add: GPIO_DATA_def TIMER_CNT_LO_def TIMER_CNT_HI_def)

section \<open>Clock sources\<close>

definition clk_source :: "u32 \<Rightarrow> clk_domain \<Rightarrow> u32" where
  "clk_source r c = drop_bit (clk_num c * 3) r AND 7"

lemma seven: "(7 :: u32) = mask 3"
  by (simp add: mask_eq_exp_minus_1)

lemma clk_num_inj: "clk_num c = clk_num c' \<longleftrightarrow> c = c'"
  by (cases c; cases c') simp_all

lemma clk_num_le: "clk_num c \<le> 6"
  by (cases c) simp_all

text \<open>Setting the clock source of a domain changes the field of this domain and leaves those of all others.\<close>

theorem clk_sources_independent:
  assumes "plain_register bus (CRU_BASE + 0x10) reg"
  shows "clk_source (reg (snd (cru_set_clk_source bus domain pll d))) c = (if c = domain then pll AND 7 else clk_source (reg d) c)"
proof (rule bit_word_eqI)
  fix n assume "n < LENGTH(32)"
  let ?k = "clk_num domain * 3" and ?r = "reg d"
  have r: "reg (snd (cru_set_clk_source bus domain pll d)) = ?r AND NOT (push_bit ?k 7) OR push_bit ?k (pll AND 7)"
    using assms by (simp add: cru_set_clk_source_def plain_register_def Let_def)
  have k: "?k + 3 \<le> 32" "clk_num c * 3 + 3 \<le> 32" using clk_num_le [of domain] clk_num_le [of c] by linarith+
  have same: "c = domain \<longleftrightarrow> ?k \<le> clk_num c * 3 + n \<and> clk_num c * 3 + n < ?k + 3" if "n < 3"
    using that by (subst clk_num_inj [symmetric]) linarith
  show "bit (clk_source (reg (snd (cru_set_clk_source bus domain pll d))) c) n \<longleftrightarrow>
      bit (if c = domain then pll AND 7 else clk_source (reg d) c) n"
  proof (cases "n < 3")
    case True
    then show ?thesis using k same [OF True] unfolding r clk_source_def seven
      by (auto simp: bit_or_iff bit_and_iff bit_not_iff bit_push_bit_iff bit_drop_bit_eq bit_mask_iff)
  next
    case False
    then show ?thesis unfolding clk_source_def seven by (simp add: bit_and_iff bit_mask_iff)
  qed
qed

lemma clk_sources_independent_witness:
  "clk_source (bench_regs (snd (cru_set_clk_source bench_bus CLK_GPU 13 bench_start)) (CRU_BASE + 0x10)) CLK_GPU = 5"
  using clk_sources_independent [of bench_bus "\<lambda>d. bench_regs d (CRU_BASE + 0x10)" CLK_GPU 13 bench_start CLK_GPU] bench_register [of "CRU_BASE + 0x10"]
  by (simp add: CRU_BASE_def TIMER_CNT_LO_def TIMER_CNT_HI_def)

text \<open>The fields of the dividers overlap: a divider of 16 or more for a domain sets the divider of the next one, which then takes its
  high half away. And the control registers of the PLLs from the third on are the registers of the clocks and the resets.\<close>

lemma dividers_overlap:
  assumes "plain_register bus (CRU_BASE + 0x14) reg" "reg d = 0"
  shows "reg (snd (cru_set_clk_divider bus CLK_FAB 1 (snd (cru_set_clk_divider bus CLK_CPU 0x25 d)))) = 0x15"
  using assms by (simp add: cru_set_clk_divider_def plain_register_def)

lemma pll_overwrites_clocks:
  "snd (cru_configure_pll bus 2 n m dv d) =
     wr32 bus (CRU_BASE + 0x10) (n AND 0x3FF OR push_bit 10 (m AND 0xFF) OR push_bit 18 (dv AND 0x3F) OR push_bit 24 1) d"
  by (simp add: cru_configure_pll_def)

section \<open>The command queue\<close>

text \<open>How many commands are in the ring.\<close>

definition queued :: "gfx_driver \<Rightarrow> nat" where
  "queued g = (unat (gd_q_tail g) + 1024 - unat (gd_q_head g)) mod 1024"

definition queue_ok :: "gfx_driver \<Rightarrow> bool" where
  "queue_ok g \<longleftrightarrow> gd_q_size g = 1024 \<and> gd_q_head g < 1024 \<and> gd_q_tail g < 1024"

lemma ring_distance: "(t :: nat) < 1024 \<Longrightarrow> h < 1024 \<Longrightarrow> (t + 1024 - h) mod 1024 = (if h \<le> t then t - h else t + 1024 - h)"
proof (cases "h \<le> t")
  case True
  then have "t + 1024 - h = (t - h) + 1024" by simp
  moreover assume "t < 1024"
  ultimately show ?thesis using True by (simp only: mod_add_self2 if_True mod_less)
qed simp

text \<open>C40: In a ring of 1024 entries with both indices inside, a command is refused exactly when 1023 are queued; otherwise one more is queued, the head stays and the indices stay in the ring.\<close>

theorem gfx_queue_counts:
  assumes "queue_ok g"
  shows "if queued g = 1023 then gfx_enqueue_cmd g = (Inl GFX_ERR_OOM, g)
    else \<exists>g'. gfx_enqueue_cmd g = (Inr (), g') \<and> queued g' = queued g + 1 \<and> gd_q_head g' = gd_q_head g \<and> queue_ok g'"
proof -
  let ?t = "unat (gd_q_tail g)" and ?h = "unat (gd_q_head g)"
  have b: "?t < 1024" "?h < 1024" using assms by (simp_all add: queue_ok_def word_less_nat_alt)
  let ?n = "(gd_q_tail g + 1) AND (gd_q_size g - 1)"
  have "?n = (gd_q_tail g + 1) AND mask 10" using assms by (simp add: queue_ok_def mask_eq_exp_minus_1)
  then have n: "unat ?n = (?t + 1) mod 1024" using b(1)
    by (simp add: take_bit_eq_mask [symmetric] unsigned_take_bit_eq take_bit_eq_mod unat_word_ariths)
  have e: "?n = gd_q_head g \<longleftrightarrow> (?t + 1) mod 1024 = ?h" using n word_unat_eq_iff by metis
  have s: "(?t + 1) mod 1024 = (if ?t = 1023 then 0 else ?t + 1)" using b(1) by auto
  have q: "queued g = 1023 \<longleftrightarrow> (?t + 1) mod 1024 = ?h" "(?t + 1) mod 1024 \<noteq> ?h \<Longrightarrow> ((?t + 1) mod 1024 + 1024 - ?h) mod 1024 = queued g + 1"
    unfolding queued_def ring_distance [OF b] s using b ring_distance [of "if ?t = 1023 then 0 else ?t + 1" ?h] by (auto split: if_splits)
  show ?thesis
  proof (cases "queued g = 1023")
    case True
    then show ?thesis using e q(1) by (simp add: gfx_enqueue_cmd_def)
  next
    case False
    then have "gfx_enqueue_cmd g = (Inr (), g\<lparr> gd_q_tail := ?n \<rparr>)" using e q(1) by (simp add: gfx_enqueue_cmd_def)
    moreover have "queued (g\<lparr> gd_q_tail := ?n \<rparr>) = queued g + 1" using q False n by (simp add: queued_def [of "g\<lparr> gd_q_tail := ?n \<rparr>"])
    moreover have "queue_ok (g\<lparr> gd_q_tail := ?n \<rparr>)" using assms n by (simp add: queue_ok_def word_less_nat_alt)
    ultimately show ?thesis using False by auto
  qed
qed

definition sample_driver :: gfx_driver where
  "sample_driver = \<lparr> gd_sku = 0, gd_num_vec = 0, gd_num_rt = 0, gd_num_nsu = 0, gd_freq_mhz = 0, gd_vram_mb = 0, gd_q_size = 1024,
     gd_q_head = 0, gd_q_tail = 0, gd_buffers = [], gd_num_buffers = 0, gd_mmio = 0x40000000, gd_nsu = 0x40300000, gd_next_addr = 0x10000000,
     gd_next_handle = 1 \<rparr>"

lemma gfx_queue_counts_witness:
  "\<exists>g'. gfx_enqueue_cmd (sample_driver\<lparr> gd_q_head := 2, gd_q_tail := 1023 \<rparr>) = (Inr (), g') \<and> queued g' = 1022"
proof -
  have "queue_ok (sample_driver\<lparr> gd_q_head := 2, gd_q_tail := 1023 \<rparr>)" "queued (sample_driver\<lparr> gd_q_head := 2, gd_q_tail := 1023 \<rparr>) = 1021"
    by (simp_all add: sample_driver_def queue_ok_def queued_def)
  then show ?thesis using gfx_queue_counts [of "sample_driver\<lparr> gd_q_head := 2, gd_q_tail := 1023 \<rparr>"] by auto
qed

section \<open>Where the graphics driver goes wrong\<close>

text \<open>A device that never gets ready is set up all the same, and one that gets ready at the last poll is reported as timed out.\<close>

lemma never_polled: "\<forall>d. \<not> ok (fst (rd d)) \<Longrightarrow> fst (poll rd ok n d) = None"
  by (induction n arbitrary: d) (auto simp: poll.simps [of rd ok] split_beta)

lemma init_ignores_timeout:
  assumes "base \<noteq> 0" "\<forall>d. fst (rd32 bus (base + 8) d) = 7" "\<forall>d. fst (rd32 bus (base + 4) d) AND 2 = 0"
  shows "fst (gfx_driver_init bus base g d) = Inr ()"
proof -
  have "fst (poll (rd32 bus (base + 4)) (\<lambda>s. s AND 2 \<noteq> 0) 1000000 d) = None" for d using assms(3) by (intro never_polled) simp
  then show ?thesis using assms(1,2) by (simp add: gfx_driver_init_def split_beta Let_def poll_left_def)
qed

text \<open>A shader takes over a buffer that was freed, and its handle becomes the address of the buffer; destroying the shader does not free it.\<close>

lemma shader_overwrites_buffer:
  assumes "gd_num_buffers g = 1" "gd_buffers g = [b]" "gb_refcount b = 0" "sz \<noteq> 0"
  shows "map_option (\<lambda>i. gb_addr (gd_buffers (snd (gfx_create_shader True sz g)) ! i)) (fst (gfx_create_shader True sz g)) = Some (gd_next_handle g)"
    and "gb_refcount (gd_buffers (snd (gfx_destroy_shader (Some 0) (snd (gfx_create_shader True sz g)))) ! 0) = 8"
  using assms by (simp_all add: gfx_create_shader_def gfx_destroy_shader_def)

end
