(* ===== verification/Stubs.thy ===== *)
theory Stubs
  imports Prelude
begin

text \<open>
  Three drivers that only check their arguments: the device link \<open>drivers/bradlink.c\<close>, the neural processor \<open>drivers/bradnpu.c\<close> and
  the stub of the kernel translator \<open>drivers/bradcvt_stub.c\<close>. Pointer arguments are flags that say whether they are given; where
  what is behind a pointer is used, they are options.
\<close>

section \<open>Device link\<close>

record link_device =
  ld_name :: string
  ld_type :: u32
  ld_capabilities :: u32
  ld_total_mem :: u64
  ld_free_mem :: u64
  ld_ncc_count :: u32
  ld_vec_count :: u32
  ld_bandwidth :: u32

record link_channel =
  lc_active :: bool
  lc_device_id :: u32
  lc_capability :: u32
  lc_context_token :: u64

text \<open>The entries in use of the table of devices, and whether it is set up.\<close>

record link_state =
  lk_devices :: "link_device list"
  lk_initialized :: bool

definition brad_link_init :: "link_state \<Rightarrow> (errno + unit) \<times> link_state" where
  "brad_link_init s = (Inr (), \<lparr> lk_devices = [], lk_initialized = True \<rparr>)"

text \<open>The devices that are copied out, their number is the result and the new count.\<close>

definition brad_link_scan :: "bool \<Rightarrow> nat option \<Rightarrow> link_state \<Rightarrow> errno + link_device list" where
  "brad_link_scan have_devices count s =
    (if \<not> lk_initialized s then Inl ENODEV
     else if \<not> have_devices then Inl EINVAL
     else case count of None \<Rightarrow> Inl EINVAL | Some c \<Rightarrow> Inr (take c (lk_devices s)))"

definition brad_link_tether :: "u32 \<Rightarrow> u32 \<Rightarrow> link_state \<Rightarrow> errno + unit" where
  "brad_link_tether device_id cap s =
    (if \<not> lk_initialized s then Inl ENODEV else if length (lk_devices s) \<le> unat device_id then Inl ENODEV else Inr ())"

definition brad_link_untether :: "u32 \<Rightarrow> link_state \<Rightarrow> errno + unit" where
  "brad_link_untether device_id s =
    (if \<not> lk_initialized s then Inl ENODEV else if length (lk_devices s) \<le> unat device_id then Inl ENODEV else Inr ())"

definition brad_link_open_channel :: "u32 \<Rightarrow> u32 \<Rightarrow> link_channel option \<Rightarrow> link_state \<Rightarrow> errno + link_channel" where
  "brad_link_open_channel device_id cap ch s =
    (if \<not> lk_initialized s then Inl ENODEV
     else case ch of None \<Rightarrow> Inl EINVAL
     | Some c \<Rightarrow> if length (lk_devices s) \<le> unat device_id then Inl EINVAL
       else Inr (c\<lparr> lc_active := True, lc_device_id := device_id \<rparr>))"

definition brad_link_close_channel :: "link_channel option \<Rightarrow> errno + link_channel" where
  "brad_link_close_channel ch = (case ch of None \<Rightarrow> Inl EINVAL | Some c \<Rightarrow> Inr (c\<lparr> lc_active := False \<rparr>))"

definition brad_link_offload_ai :: "bool \<Rightarrow> bool \<Rightarrow> bool \<Rightarrow> bool \<Rightarrow> link_state \<Rightarrow> errno + unit" where
  "brad_link_offload_ai model input output ch s =
    (if \<not> lk_initialized s then Inl ENODEV else if \<not> model \<or> \<not> input \<or> \<not> output \<or> \<not> ch then Inl EINVAL else Inr ())"

definition brad_link_sync_context :: "bool \<Rightarrow> u64 \<Rightarrow> errno + unit" where
  "brad_link_sync_context ch context_id = (if \<not> ch then Inl EINVAL else Inr ())"

section \<open>Neural processor\<close>

record npu_ncc_config =
  nc_count :: u32
  nc_systolic_width :: u32
  nc_simd_width_fp16 :: u32
  nc_simd_width_fp32 :: u32
  nc_aggregation_kb :: u32

record npu_hb_aim_config =
  hb_size_bytes :: u64
  hb_tile_count :: u32
  hb_tile_size :: u64
  hb_bandwidth_gbs :: u32
  hb_retention_mv :: int

text \<open>\<open>None\<close> before the first successful set-up.\<close>

type_synonym npu_state = "(npu_ncc_config \<times> npu_hb_aim_config) option"

definition brad_npu_init :: "npu_ncc_config option \<Rightarrow> npu_hb_aim_config option \<Rightarrow> npu_state \<Rightarrow> (errno + unit) \<times> npu_state" where
  "brad_npu_init ncc hb s = (case (ncc, hb) of
       (Some n, Some h) \<Rightarrow>
         if 1024 < nc_count n then (Inl EINVAL, s)
         else if 256 * 1024 * 1024 < hb_size_bytes h then (Inl EINVAL, s)
         else (Inr (), Some (n, h))
     | _ \<Rightarrow> (Inl EINVAL, s))"

definition npu_ready :: "npu_state \<Rightarrow> errno + unit" where
  "npu_ready s = (if s = None then Inl ENODEV else Inr ())"

definition brad_npu_power_state :: "u32 \<Rightarrow> npu_state \<Rightarrow> errno + unit" where
  "brad_npu_power_state state s = npu_ready s"

definition brad_npu_set_priority :: "u32 \<Rightarrow> npu_state \<Rightarrow> errno + unit" where
  "brad_npu_set_priority prio s = npu_ready s"

definition brad_npu_moe_configure :: "u32 \<Rightarrow> u32 \<Rightarrow> npu_state \<Rightarrow> errno + unit" where
  "brad_npu_moe_configure num_experts top_k s =
    (if s = None then Inl ENODEV else if top_k < 1 \<or> num_experts < top_k then Inl EINVAL else Inr ())"

definition brad_npu_schedule :: "u32 \<Rightarrow> u32 \<Rightarrow> npu_state \<Rightarrow> errno + unit" where
  "brad_npu_schedule mask_lo mask_hi s = npu_ready s"

definition brad_npu_ai_isa_exec :: "u32 \<Rightarrow> u64 \<Rightarrow> npu_state \<Rightarrow> errno + unit" where
  "brad_npu_ai_isa_exec opcode operand s = npu_ready s"

definition brad_npu_tifa_invoke :: "bool \<Rightarrow> bool \<Rightarrow> bool \<Rightarrow> npu_state \<Rightarrow> errno + unit" where
  "brad_npu_tifa_invoke weights input output s =
    (if s = None then Inl ENODEV else if \<not> weights \<or> \<not> input \<or> \<not> output then Inl EINVAL else Inr ())"

section \<open>Kernel translator\<close>

definition BRAD_CVT_ERR_PARSE :: int where "BRAD_CVT_ERR_PARSE = -1"

record cvt_kernel_info =
  ck_name :: string
  ck_num_regs :: u32
  ck_shared_mem_bytes :: u32
  ck_thread_count :: u32
  ck_block_count :: u32
  ck_instruction_count :: u64

text \<open>The status and what is stored: an empty description, an empty binary.\<close>

definition brad_cvt_compile :: "bool \<Rightarrow> bool \<Rightarrow> int \<times> cvt_kernel_info option" where
  "brad_cvt_compile have_cfg have_info =
    (if \<not> have_cfg \<or> \<not> have_info then (BRAD_CVT_ERR_PARSE, None)
     else (0, Some \<lparr> ck_name = [], ck_num_regs = 0, ck_shared_mem_bytes = 0, ck_thread_count = 0, ck_block_count = 0, ck_instruction_count = 0 \<rparr>))"

definition brad_cvt_translate_ptx :: "bool \<Rightarrow> bool \<Rightarrow> bool \<Rightarrow> int \<times> u8 list option" where
  "brad_cvt_translate_ptx src bin len = (if \<not> src \<or> \<not> bin \<or> \<not> len then (BRAD_CVT_ERR_PARSE, None) else (0, Some []))"

definition brad_cvt_translate_cubin :: "bool \<Rightarrow> bool \<Rightarrow> bool \<Rightarrow> int \<times> u8 list option" where
  "brad_cvt_translate_cubin cubin bin len = (if \<not> cubin \<or> \<not> bin \<or> \<not> len then (BRAD_CVT_ERR_PARSE, None) else (0, Some []))"

definition brad_cvt_status_str :: "int \<Rightarrow> string" where
  "brad_cvt_status_str status = (if status = 0 then ''OK'' else if status = -1 then ''Parse error'' else if status = -2 then ''Translation error''
     else if status = -3 then ''Unsupported feature'' else if status = -4 then ''Out of memory'' else ''Unknown error'')"

section \<open>What the stubs promise\<close>

text \<open>No operation adds a device, so after setting up no scan finds one and no channel can be opened.\<close>

lemma no_device_found:
  assumes "brad_link_init s0 = (r, s)"
  shows "brad_link_scan True (Some c) s = Inr []" "brad_link_tether i cap s = Inl ENODEV" "brad_link_open_channel i cap (Some ch) s = Inl EINVAL"
  using assms by (auto simp: brad_link_init_def brad_link_scan_def brad_link_tether_def brad_link_open_channel_def)

text \<open>A set-up that is refused keeps the one before, and an accepted configuration is within the limits.\<close>

lemma npu_config_bounded:
  assumes "brad_npu_init ncc hb s = (r, s')" "\<forall>n h. s = Some (n, h) \<longrightarrow> nc_count n \<le> 1024 \<and> hb_size_bytes h \<le> 2 ^ 28" "s' = Some (n, h)"
  shows "nc_count n \<le> 1024 \<and> hb_size_bytes h \<le> 2 ^ 28"
  using assms by (auto simp: brad_npu_init_def not_less split: option.splits if_splits)

end
