(* ===== verification/Spec2Isabelle.thy ===== *)
theory Spec2Isabelle
  imports LibProps SpmpProps BvcommProps CacheProps Bradcompress CoreMachine BradasmText AtlasProps BradSocProps BradDriveProps ShimDiv ShimProps WasmProps EroeProps MmioProps Stubs
begin

text \<open>
  \<^bold>\<open>Verification library of the BradVector toolchain\<close>

  The repository holds, under \<open>src/toolchain\<close>, the tool chain of a SIMT vector processor (assembler,
  binary container, interpreter, debugger, profiler, the host library over them and its browser build), the tool chain of
  a CPU core (assembler and emulator), and reference models and drivers of the platform around them (memory pools,
  interconnect, collectives, compression, cache emulator, storage, accelerator, chip configuration, governor, devices).
  This library models these parts and proves what makes them correct; where the code does not do what it means to, the
  property states what it does.

  \<^bold>\<open>How the parts interact.\<close> A source text goes through \<open>bradc_assemble\<close> (two passes over one lexer) into a
  BVBC image, which \<open>bvbc_pack\<close> and \<open>bvbc_unpack\<close> write to and read from bytes. \<open>bvrt_launch\<close> loads an image
  into a device, \<open>bvrt_step\<close> and \<open>bvrt_run\<close> interpret it, one warp of 32 lanes over registers, vector
  registers, predicates and a byte memory. \<open>bradgdb\<close> and \<open>BradTimeline\<close> drive the same step function; \<open>bradlib\<close>
  puts all of it behind sessions. The browser build exports \<open>bradlib\<close> through a bridge with one program and one session,
  on a C library of its own whose allocator is an arena: the demo export resets the arena, and what the bridge still
  points to is stale from then on. The CPU cores have their own instruction set: \<open>brad_as_assemble\<close> turns text into words,
  the core emulator executes them in one of four pipelines, and the text of its disassembler is input of the assembler.
  Beside these, SPMP manages pools of addresses; BradCompress and the storage driver map their output
  through SPMP; the fabric moves bytes between memories that the host program binds to nodes, for the collectives and
  for the storage driver. The register drivers act on a bus that is a parameter; the graphics driver uses the
  timer and the serial line.

  \<^bold>\<open>Theories: common parts.\<close>
  \<^item> \<open>Prelude\<close>: C integer types and conversions, in-place buffer writes, little-endian codecs behind the
    locale \<open>fixed_codec\<close> (interpreted for 32- and 64-bit words), C strings, the error codes.
  \<^item> \<open>CString\<close>: what the code uses of the C library on texts: character classes, \<open>strtol\<close>, decimal and hexadecimal output.
  \<^item> \<open>Float32\<close>: binary32 arithmetic on bit patterns; what the C standard leaves to the implementation (NaN patterns,
    libm) is the parameter \<open>fpu\<close>. \<open>FloatOrder\<close>: rounding is monotone, so bounds on results follow from bounds on operands.
  \<^item> \<open>HostMem\<close>: host memory as a partial map from addresses to bytes, accesses outside of it undefined, and the result
    of a call (\<open>Returns\<close>, \<open>Undefined\<close>, \<open>Blocked\<close> on a lock).
  \<^item> \<open>Machine\<close>: the locale \<open>op_machine\<close> of components that are only reached through their operations (an
    execution function, what callers must respect, an invariant). Interpreted for the pools, the fabric, the caches, the
    core emulator, the accelerator, the chip configuration, the governor, the arena and the bridge.
  \<^item> \<open>Stutter\<close>: the locale \<open>stuttering\<close> of an implementation that takes several steps for one of its specification.

  \<^bold>\<open>Theories: the vector processor.\<close>
  \<^item> \<open>BvIsa\<close> (\<open>include/brad/bradvector.h\<close>): opcodes, encoding and decoding, names.
  \<^item> \<open>Bvbc\<close> (\<open>bradvector/bvbc.c\<close>): image builder, \<open>bvbc_pack\<close>, \<open>bvbc_unpack\<close>; the format as a list, round trip and
    safety of the parser.
  \<^item> \<open>Bvrt\<close> (\<open>bradvector/bvrt.c\<close>): every instruction, step, run, launch. \<open>BvrtSimt\<close>: the per-lane loops and the
    locale of lane-local instructions. \<open>BvrtProps\<close>: invariants, termination, refinement to a parallel meaning,
    definedness, behaviour of single instructions.
  \<^item> \<open>BradcLex\<close>, \<open>Bradc\<close> (\<open>bradvector/bradc.c\<close>): lexer and both passes. \<open>BradcProps\<close>: well-formed images, totality,
    label addresses and branch offsets, the composition with the container.
  \<^item> \<open>Bradgdb\<close>, \<open>Bradtimeline\<close> (\<open>bradvector/bradgdb.c\<close>, \<open>bradtimeline.c\<close>) and \<open>ToolProps\<close>: what continuing stops at, what
    the log counts, that profiling does not change the run.
  \<^item> \<open>Bradlib\<close> (\<open>bradvector/bradlib.c\<close>) and \<open>LibProps\<close>: sessions, and the properties that span compiler, container and
    interpreter.
  \<^item> \<open>WasmShim\<close>, \<open>ShimPrint\<close> (\<open>wasm/wasm_shim.c\<close>): memory and string functions, number parser, arena, formatted output,
    division helpers. \<open>ShimDiv\<close>, \<open>ShimProps\<close>, \<open>ShimDisasm\<close>: they agree with arithmetic and with the C library.
  \<^item> \<open>WasmBridge\<close> (\<open>wasm/wasm_bridge.c\<close>) and \<open>WasmProps\<close>: the typed and the demo exports, what holds in whatever order
    they are called, and which calls read a stale program or session and are undefined.

  \<^bold>\<open>Theories: the CPU core.\<close>
  \<^item> \<open>BradIsa\<close> (\<open>include/brad/bradisa.h\<close>): formats, fields, decoding, names, pipeline models.
  \<^item> \<open>CoreEmu\<close> (\<open>emu/brad_core_emu.c\<close>): execution, the pipelines, clusters, step and run loops, loading, disassembly.
    \<open>CoreProps\<close>: the machine without a pipeline, and each pipeline stage against it. \<open>CoreRun\<close>: the simulation (an
    interpretation of \<open>stuttering\<close>) and runs of one core. \<open>CoreMachine\<close>: every sequence of calls, and that runs return.
  \<^item> \<open>Bradasm\<close> (\<open>asm/bradasm.c\<close>): lexer, expressions, both passes. \<open>BradasmProps\<close>: output bounds, agreement of the passes.
    \<open>BradasmText\<close>: the disassembler's text assembles back, and where branches land.

  \<^bold>\<open>Theories: the platform.\<close>
  \<^item> \<open>Spmp\<close> (\<open>drivers/spmp.c\<close>) and \<open>SpmpProps\<close>: first fit, carving and coalescing keep every pool tiled; fresh and
    freed allocations; where allocation and mapping fail.
  \<^item> \<open>Fabric\<close> (\<open>drivers/fabric.c\<close>) and \<open>FabricProps\<close>: node table, message queue behind the locale \<open>byte_queue\<close>, DMA
    and atomics; the compare-and-swap is split at its two memory accesses so that another thread can run between.
  \<^item> \<open>Bvcomm\<close> (\<open>bvlibs/src/bvcomm.c\<close>) and \<open>BvcommProps\<close>: worlds of ranks over the fabric; the ring all-reduce computes the
    same ring-ordered float sum on every rank (\<open>comm_ok\<close> is what \<open>bvcomm_init\<close> establishes, \<open>bvcomm_init_world\<close>).
  \<^item> \<open>Cache\<close> (\<open>emu/brad_cache_emu.c\<close>) and \<open>CacheProps\<close>: lookup, replacement, flush and the hierarchy.
  \<^item> \<open>Bradcompress\<close> (\<open>drivers/bradcompress.c\<close>): the compression model and its use of SPMP.
  \<^item> \<open>BradDrive\<close> (\<open>drivers/braddrive.c\<close>) and \<open>BradDriveProps\<close>: sector commands, and the direct load into a fresh block.
  \<^item> \<open>Atlas\<close> (\<open>drivers/hypercore_atlas.c\<close>) and \<open>AtlasProps\<close>: contexts, and what the memory allocator hands out.
  \<^item> \<open>BradSoc\<close> (\<open>drivers/bradcore.c\<close>) and \<open>BradSocProps\<close>: the table of products, clusters and cores, product codes. A row
    of the array of cores that is indexed beyond its end is taken on into the next row, as the addresses are.
  \<^item> \<open>Eroe\<close> (\<open>drivers/eroe.c\<close>) and \<open>EroeProps\<close>: the table of workloads as a map, bounds on budget and temperatures.
  \<^item> \<open>Mmio\<close> (\<open>drivers/gpio.c\<close>, \<open>uart.c\<close>, \<open>timer.c\<close>, \<open>wdt.c\<close>), \<open>BradXonc\<close> (\<open>drivers/bradxonc.c\<close>), \<open>BradGfx\<close>
    (\<open>drivers/bradgfx.c\<close>) and \<open>MmioProps\<close>: register drivers over a bus, what they transmit, read and queue.
  \<^item> \<open>Stubs\<close> (\<open>drivers/bradlink.c\<close>, \<open>bradnpu.c\<close>, \<open>bradcvt_stub.c\<close>): drivers that check arguments and keep a table.

  \<^bold>\<open>Conventions.\<close> A C function is the definition of its name; static state is passed in and out; pointers that may be
  null are options; errors are values (\<open>errno + 'a\<close>, or the error type of the component); \<open>None\<close> or \<open>Undefined\<close> is
  undefined behaviour of C. Integers are words of their width wherever wrap-around can matter.

  \<^bold>\<open>Bounds and termination.\<close> The run loops of interpreter and profiler end because every completed step counts up to the
  budget (\<open>run_measure\<close>), the lexers and passes because each round consumes input, the bit loops by the value of the
  word, the polls of devices by their counter. The demo export steps under the number of rounds that the code gives it.
  Three loops of the code may run for ever and are \<open>partial_function (option)\<close>: \<open>bradgdb_continue\<close>, whose properties say
  when it returns and when it does not; \<open>core_run_loop\<close>, which is shown to return for every budget, with a result or at an
  access whose address wraps around; and \<open>wait_until\<close>, which waits for the clock behind the bus, a parameter.

  \<^bold>\<open>Not modelled.\<close> Freeing of memory where it only releases, printing to streams, the rendering of reports, the float
  functions and the text of a double of the browser's C library, the self-check and the numeric exports of the bridge.
  The numeric libraries (\<open>bvlibs/src/bvml.c\<close>, \<open>bvn.c\<close>) launch fixed kernels through \<open>bradlib\<close>; the sensor hub
  (\<open>drivers/bradsense.c\<close>) simulates noise in floating point; both are left out, with the command line
  front ends, the tests, generated kernel headers, and interface headers without an implementation in the repository.
\<close>

end
